(* ===== verification/Strings.thy ===== *)
theory Strings
  imports Prelude
begin

text \<open>
  Rust string operations on the UTF-8 bytes of a \<open>str\<close>. A \<open>char\<close> of HOL is one byte. \<open>trim\<close>
  removes the characters with the Unicode property \<open>White_Space\<close>, given by their UTF-8 encodings
  (the encoding is self-synchronising, so removing an encoded character at either end is removing
  its bytes); \<open>lines\<close>, \<open>split\<close>, \<open>splitn\<close>, \<open>find\<close> and the prefix and suffix operations follow the
  documented behaviour of the standard library.
\<close>

abbreviation nl :: char where "nl \<equiv> CHR 0x0A"
abbreviation cr :: char where "cr \<equiv> CHR 0x0D"
abbreviation sq :: char where "sq \<equiv> CHR 0x27"
abbreviation dq :: char where "dq \<equiv> CHR 0x22"

subsection \<open>Prefixes, suffixes, search\<close>

definition starts_with :: "string \<Rightarrow> string \<Rightarrow> bool" where
  "starts_with s p \<longleftrightarrow> take (length p) s = p"

definition ends_with :: "string \<Rightarrow> string \<Rightarrow> bool" where
  "ends_with s p \<longleftrightarrow> length p \<le> length s \<and> drop (length s - length p) s = p"

definition strip_prefix :: "string \<Rightarrow> string \<Rightarrow> string option" where
  "strip_prefix s p = (if starts_with s p then Some (drop (length p) s) else None)"

definition strip_suffix :: "string \<Rightarrow> string \<Rightarrow> string option" where
  "strip_suffix s p = (if ends_with s p then Some (take (length s - length p) s) else None)"

fun find_sub :: "string \<Rightarrow> string \<Rightarrow> nat option" where
  "find_sub needle [] = (if needle = [] then Some 0 else None)"
| "find_sub needle (c # cs) =
     (if starts_with (c # cs) needle then Some 0 else map_option Suc (find_sub needle cs))"

definition contains_sub :: "string \<Rightarrow> string \<Rightarrow> bool" where
  "contains_sub hay needle \<longleftrightarrow> find_sub needle hay \<noteq> None"

lemma starts_with_append [simp]: "starts_with (p @ s) p"
  by (simp add: starts_with_def)

lemma starts_with_iff: "starts_with s p \<longleftrightarrow> (\<exists>r. s = p @ r)"
  unfolding starts_with_def by (metis append_eq_conv_conj append_take_drop_id)

lemma ends_with_iff: "ends_with s p \<longleftrightarrow> (\<exists>r. s = r @ p)"
proof
  assume "ends_with s p"
  then show "\<exists>r. s = r @ p"
    unfolding ends_with_def by (metis append_take_drop_id)
qed (auto simp: ends_with_def)

lemma strip_prefix_Some: "strip_prefix s p = Some r \<longleftrightarrow> s = p @ r"
  by (auto simp: strip_prefix_def starts_with_iff)

lemma strip_suffix_Some: "strip_suffix s p = Some r \<longleftrightarrow> s = r @ p"
  by (auto simp: strip_suffix_def ends_with_iff)

lemma find_sub_Some:
  "find_sub needle hay = Some i \<Longrightarrow>
     \<exists>suf. hay = take i hay @ needle @ suf \<and> i + length needle \<le> length hay"
proof (induction needle hay arbitrary: i rule: find_sub.induct)
  case (1 needle)
  then show ?case by (auto split: if_splits)
next
  case (2 needle c cs)
  show ?case
  proof (cases "starts_with (c # cs) needle")
    case True
    with 2(2) have "i = 0" by simp
    moreover from True obtain r where "c # cs = needle @ r" by (auto simp: starts_with_iff)
    ultimately show ?thesis by (metis append_Nil take0 add_0 length_append le_add1)
  next
    case False
    with 2(2) obtain j where j: "find_sub needle cs = Some j" "i = Suc j" by auto
    from 2(1) [OF False j(1)] j(2) show ?thesis by auto
  qed
qed

lemma find_sub_None:
  "find_sub needle hay = None \<Longrightarrow> needle \<noteq> [] \<and> (\<forall>p q. hay \<noteq> p @ needle @ q)"
proof (induction needle hay rule: find_sub.induct)
  case (1 needle)
  then show ?case by (auto split: if_splits)
next
  case (2 needle c cs)
  from 2(2) have ns: "\<not> starts_with (c # cs) needle" and r: "find_sub needle cs = None"
    by (auto split: if_splits)
  have "c # cs \<noteq> p @ needle @ q" for p q
  proof (cases p)
    case Nil
    then show ?thesis using ns by (auto simp: starts_with_iff)
  next
    case (Cons a p')
    then show ?thesis using 2(1) [OF ns r] by auto
  qed
  then show ?case using 2(1) [OF ns r] by blast
qed

lemma find_sub_le: "find_sub needle hay = Some i \<Longrightarrow> hay = p @ needle @ q \<Longrightarrow> i \<le> length p"
proof (induction needle hay arbitrary: i p rule: find_sub.induct)
  case (1 needle)
  then show ?case by (auto split: if_splits)
next
  case (2 needle c cs)
  show ?case
  proof (cases "starts_with (c # cs) needle")
    case False
    with 2(2) obtain j where j: "find_sub needle cs = Some j" "i = Suc j" by auto
    from 2(3) False obtain p' where "p = c # p'" "cs = p' @ needle @ q"
      by (cases p) (auto simp: starts_with_iff)
    with 2(1) [OF False j(1)] j(2) show ?thesis by simp
  qed (use 2(2) in simp)
qed

lemma contains_sub_iff: "contains_sub hay needle \<longleftrightarrow> (\<exists>p q. hay = p @ needle @ q)"
proof
  assume "contains_sub hay needle"
  then obtain i where "find_sub needle hay = Some i" by (auto simp: contains_sub_def)
  from find_sub_Some [OF this] show "\<exists>p q. hay = p @ needle @ q" by blast
next
  assume "\<exists>p q. hay = p @ needle @ q"
  then show "contains_sub hay needle"
    unfolding contains_sub_def using find_sub_None by blast
qed

subsection \<open>Whitespace\<close>

definition ws_chars :: "string list" where
  "ws_chars =
    [[CHR 0x09], [CHR 0x0A], [CHR 0x0B], [CHR 0x0C], [CHR 0x0D], [CHR 0x20],
     [CHR 0xC2, CHR 0x85], [CHR 0xC2, CHR 0xA0], [CHR 0xE1, CHR 0x9A, CHR 0x80],
     [CHR 0xE2, CHR 0x80, CHR 0x80], [CHR 0xE2, CHR 0x80, CHR 0x81], [CHR 0xE2, CHR 0x80, CHR 0x82],
     [CHR 0xE2, CHR 0x80, CHR 0x83], [CHR 0xE2, CHR 0x80, CHR 0x84], [CHR 0xE2, CHR 0x80, CHR 0x85],
     [CHR 0xE2, CHR 0x80, CHR 0x86], [CHR 0xE2, CHR 0x80, CHR 0x87], [CHR 0xE2, CHR 0x80, CHR 0x88],
     [CHR 0xE2, CHR 0x80, CHR 0x89], [CHR 0xE2, CHR 0x80, CHR 0x8A], [CHR 0xE2, CHR 0x80, CHR 0xA8],
     [CHR 0xE2, CHR 0x80, CHR 0xA9], [CHR 0xE2, CHR 0x80, CHR 0xAF], [CHR 0xE2, CHR 0x81, CHR 0x9F],
     [CHR 0xE3, CHR 0x80, CHR 0x80]]"

text \<open>The number of bytes of the whitespace character the string starts with, 0 if none.\<close>

definition ws_len :: "string \<Rightarrow> nat" where
  "ws_len s = (case find (starts_with s) ws_chars of None \<Rightarrow> 0 | Some w \<Rightarrow> length w)"

lemma ws_len_le: "ws_len s \<le> length s"
  by (auto simp: ws_len_def starts_with_iff find_Some_iff split: option.splits)

function trim_start :: "string \<Rightarrow> string" where
  "trim_start s = (if ws_len s = 0 then s else trim_start (drop (ws_len s) s))"
  by pat_completeness auto
termination
proof (relation "measure length")
  fix s :: string
  assume "ws_len s \<noteq> 0"
  then show "(drop (ws_len s) s, s) \<in> measure length"
    using ws_len_le [of s] by simp
qed simp

declare trim_start.simps [simp del]

text \<open>At the end of a string the bytes of the last character are read backwards.\<close>

definition ws_len_end :: "string \<Rightarrow> nat" where
  "ws_len_end s = (case find (ends_with s) ws_chars of None \<Rightarrow> 0 | Some w \<Rightarrow> length w)"

lemma ws_len_end_le: "ws_len_end s \<le> length s"
  by (auto simp: ws_len_end_def ends_with_iff find_Some_iff split: option.splits)

function trim_end :: "string \<Rightarrow> string" where
  "trim_end s =
     (if ws_len_end s = 0 then s else trim_end (take (length s - ws_len_end s) s))"
  by pat_completeness auto
termination
proof (relation "measure length")
  fix s :: string
  assume "ws_len_end s \<noteq> 0"
  then show "(take (length s - ws_len_end s) s, s) \<in> measure length"
    using ws_len_end_le [of s] by simp
qed simp

declare trim_end.simps [simp del]

definition trim :: "string \<Rightarrow> string" where
  "trim s = trim_end (trim_start s)"

lemma trim_start_suffix: "\<exists>p. s = p @ trim_start s"
proof (induction s rule: trim_start.induct)
  case (1 s)
  show ?case
  proof (cases "ws_len s = 0")
    case True
    then show ?thesis by (subst trim_start.simps) simp
  next
    case False
    with 1 obtain p where "drop (ws_len s) s = p @ trim_start (drop (ws_len s) s)" by blast
    then have "take (ws_len s) s @ drop (ws_len s) s
        = (take (ws_len s) s @ p) @ trim_start (drop (ws_len s) s)"
      by simp
    moreover have "trim_start s = trim_start (drop (ws_len s) s)"
      using False by (subst trim_start.simps) simp
    ultimately show ?thesis by (metis append_take_drop_id)
  qed
qed

lemma trim_end_prefix: "\<exists>p. s = trim_end s @ p"
proof (induction s rule: trim_end.induct)
  case (1 s)
  show ?case
  proof (cases "ws_len_end s = 0")
    case True
    then show ?thesis by (subst trim_end.simps) simp
  next
    case False
    let ?t = "take (length s - ws_len_end s) s"
    from False 1 obtain p where "?t = trim_end ?t @ p" by blast
    then have "?t @ drop (length s - ws_len_end s) s
        = trim_end ?t @ p @ drop (length s - ws_len_end s) s"
      by (metis append.assoc)
    moreover have "trim_end s = trim_end ?t"
      using False by (subst trim_end.simps) simp
    ultimately show ?thesis by (metis append_take_drop_id)
  qed
qed

lemma trim_sub: "\<exists>p q. s = p @ trim s @ q"
  unfolding trim_def using trim_start_suffix [of s] trim_end_prefix [of "trim_start s"] by metis

lemma length_trim: "length (trim s) \<le> length s"
  using trim_sub [of s] by (metis length_append le_add1 le_add2 le_trans)

lemma trim_ascii_id:
  "s \<noteq> [] \<Longrightarrow> ws_len s = 0 \<Longrightarrow> ws_len_end s = 0 \<Longrightarrow> trim s = s"
  by (simp add: trim_def trim_start.simps trim_end.simps)

definition trim_start_matches :: "char \<Rightarrow> string \<Rightarrow> string" where
  "trim_start_matches c s = dropWhile (\<lambda>x. x = c) s"

definition trim_end_matches :: "char \<Rightarrow> string \<Rightarrow> string" where
  "trim_end_matches c s = rev (dropWhile (\<lambda>x. x = c) (rev s))"

subsection \<open>Splitting\<close>

fun split_on :: "char \<Rightarrow> string \<Rightarrow> string list" where
  "split_on c [] = [[]]"
| "split_on c (x # xs) =
     (if x = c then [] # split_on c xs
      else (case split_on c xs of [] \<Rightarrow> [[x]] | w # ws \<Rightarrow> (x # w) # ws))"

lemma split_on_not_Nil [simp]: "split_on c s \<noteq> []"
  by (induction s) (auto split: list.splits)

lemma split_on_no_sep: "\<forall>w \<in> set (split_on c s). c \<notin> set w"
proof (induction s)
  case (Cons x xs)
  then show ?case by (cases "split_on c xs") auto
qed simp

lemma split_on_id: "c \<notin> set s \<Longrightarrow> split_on c s = [s]"
  by (induction s) auto

lemma split_on_append: "c \<notin> set a \<Longrightarrow> split_on c (a @ c # b) = a # split_on c b"
  by (induction a) auto

text \<open>\<open>split_once(c)\<close>: at the first occurrence.\<close>

fun split_once :: "char \<Rightarrow> string \<Rightarrow> (string \<times> string) option" where
  "split_once c [] = None"
| "split_once c (x # xs) =
     (if x = c then Some ([], xs)
      else map_option (\<lambda>(a, b). (x # a, b)) (split_once c xs))"

lemma split_once_Some: "split_once c s = Some (a, b) \<longleftrightarrow> s = a @ c # b \<and> c \<notin> set a"
proof (induction s arbitrary: a)
  case (Cons x xs)
  then show ?case by (cases a) auto
qed simp

lemma split_once_None: "split_once c s = None \<longleftrightarrow> c \<notin> set s"
  by (induction s) auto

text \<open>\<open>str::lines\<close>: a line ends at a newline, with one carriage return before it dropped; an
  unterminated last line is kept as it is, an empty one is not a line.\<close>

definition drop_cr :: "string \<Rightarrow> string" where
  "drop_cr l = (case strip_suffix l [cr] of None \<Rightarrow> l | Some l' \<Rightarrow> l')"

fun lines_acc :: "string \<Rightarrow> string \<Rightarrow> string list" where
  "lines_acc acc [] = (if acc = [] then [] else [rev acc])"
| "lines_acc acc (c # cs) =
     (if c = nl then drop_cr (rev acc) # lines_acc [] cs else lines_acc (c # acc) cs)"

definition lines :: "string \<Rightarrow> string list" where
  "lines s = lines_acc [] s"

definition to_ascii_lowercase :: "string \<Rightarrow> string" where
  "to_ascii_lowercase =
     map (\<lambda>c. if CHR ''A'' \<le> c \<and> c \<le> CHR ''Z'' then char_of (of_char c + 32 :: nat) else c)"

text \<open>\<open>join\<close> and \<open>splitn\<close>.\<close>

fun join_str :: "string \<Rightarrow> string list \<Rightarrow> string" where
  "join_str sep [] = []"
| "join_str sep [x] = x"
| "join_str sep (x # y # ys) = x @ sep @ join_str sep (y # ys)"

fun splitn :: "nat \<Rightarrow> char \<Rightarrow> string \<Rightarrow> string list" where
  "splitn 0 c s = []"
| "splitn (Suc 0) c s = [s]"
| "splitn (Suc (Suc n)) c s =
     (case split_once c s of None \<Rightarrow> [s] | Some (a, b) \<Rightarrow> a # splitn (Suc n) c b)"

subsection \<open>Paths\<close>

text \<open>
  \<open>Path::file_name\<close> and \<open>Path::extension\<close> on a Unix path: empty and \<open>.\<close> components are
  skipped, a path that ends in \<open>..\<close> has no file name, and a leading dot does not start an
  extension.
\<close>

definition path_file_name :: "string \<Rightarrow> string option" where
  "path_file_name p =
     (case rev (filter (\<lambda>c. c \<noteq> [] \<and> c \<noteq> ''.'') (split_on (CHR ''/'') p)) of
        [] \<Rightarrow> None
      | c # _ \<Rightarrow> if c = ''..'' then None else Some c)"

definition name_extension :: "string \<Rightarrow> string option" where
  "name_extension n =
     (case split_once (CHR ''.'') (rev n) of
        None \<Rightarrow> None
      | Some (ext, base) \<Rightarrow> if base = [] then None else Some (rev ext))"

definition path_extension :: "string \<Rightarrow> string option" where
  "path_extension p = Option.bind (path_file_name p) name_extension"

subsection \<open>Replacement\<close>

text \<open>
  All callers pass a non-empty constant token; on an empty token the source would not return, and
  the model leaves the input as it is.
\<close>

function replace_token :: "string \<Rightarrow> string \<Rightarrow> string \<Rightarrow> string" where
  "replace_token token f rest =
     (if token = [] then rest
      else case find_sub token rest of
        None \<Rightarrow> rest
      | Some i \<Rightarrow> take i rest @ f @ replace_token token f (drop (i + length token) rest))"
  by pat_completeness auto
termination
proof (relation "measure (\<lambda>(token, f, rest). length rest)")
  fix token f rest :: string and i
  assume "token \<noteq> []" and "find_sub token rest = Some i"
  then show "((token, f, drop (i + length token) rest), token, f, rest)
      \<in> measure (\<lambda>(token, f, rest). length rest)"
    using find_sub_Some [of token rest i] by (cases token) auto
qed simp

declare replace_token.simps [simp del]

lemma replace_token_absent: "\<not> contains_sub s token \<Longrightarrow> replace_token token f s = s"
  by (subst replace_token.simps) (auto simp: contains_sub_def)

subsection \<open>Decimal numbers\<close>

fun dec_string :: "nat \<Rightarrow> string" where
  "dec_string n =
     (if n < 10 then [char_of (48 + n)] else dec_string (n div 10) @ [char_of (48 + n mod 10)])"

declare dec_string.simps [simp del]

text \<open>\<open>format!("{:04}", n)\<close>.\<close>

definition int_string :: "int \<Rightarrow> string" where
  "int_string i = (if i < 0 then ''-'' else []) @ dec_string (nat \<bar>i\<bar>)"

definition pad_left :: "nat \<Rightarrow> string \<Rightarrow> string" where
  "pad_left w s = replicate (w - length s) (CHR ''0'') @ s"

definition dec4 :: "nat \<Rightarrow> string" where
  "dec4 n = pad_left 4 (dec_string n)"

definition is_ascii_digit :: "char \<Rightarrow> bool" where
  "is_ascii_digit c \<longleftrightarrow> CHR ''0'' \<le> c \<and> c \<le> CHR ''9''"

definition is_ascii_upper :: "char \<Rightarrow> bool" where
  "is_ascii_upper c \<longleftrightarrow> CHR ''A'' \<le> c \<and> c \<le> CHR ''Z''"

definition is_ascii_alnum :: "char \<Rightarrow> bool" where
  "is_ascii_alnum c \<longleftrightarrow>
     is_ascii_digit c \<or> is_ascii_upper c \<or> CHR ''a'' \<le> c \<and> c \<le> CHR ''z''"

lemma dec_string_not_Nil [simp]: "dec_string n \<noteq> []"
  by (subst dec_string.simps) simp

definition is_ascii_alphabetic :: "char \<Rightarrow> bool" where
  "is_ascii_alphabetic c \<longleftrightarrow> is_ascii_alnum c \<and> \<not> is_ascii_digit c"

lemma trim_start_shrinks: "ws_len s \<noteq> 0 \<Longrightarrow> length (trim_start s) < length s"
proof -
  assume "ws_len s \<noteq> 0"
  moreover from this have "trim_start s = trim_start (drop (ws_len s) s)"
    by (subst trim_start.simps) simp
  moreover obtain p where "drop (ws_len s) s = p @ trim_start (drop (ws_len s) s)"
    using trim_start_suffix by blast
  then have "length (trim_start (drop (ws_len s) s)) \<le> length (drop (ws_len s) s)"
    by (metis length_append le_add2)
  ultimately show ?thesis using ws_len_le [of s] by simp
qed

lemma trim_end_shrinks: "ws_len_end s \<noteq> 0 \<Longrightarrow> length (trim_end s) < length s"
proof -
  assume n: "ws_len_end s \<noteq> 0"
  let ?t = "take (length s - ws_len_end s) s"
  from n have "trim_end s = trim_end ?t" by (subst trim_end.simps) simp
  moreover obtain p where "?t = trim_end ?t @ p" using trim_end_prefix by blast
  then have "length (trim_end ?t) \<le> length ?t" by (metis length_append le_add1)
  ultimately show ?thesis using n ws_len_end_le [of s] by simp
qed

text \<open>A string is trimmed when it neither starts nor ends with whitespace.\<close>

lemma trim_id_iff: "trim s = s \<longleftrightarrow> ws_len s = 0 \<and> ws_len_end s = 0"
proof
  assume t: "trim s = s"
  obtain p q where "s = p @ trim_start s" "trim_start s = trim_end (trim_start s) @ q"
    using trim_start_suffix trim_end_prefix by blast
  then have "length s = length p + length (trim_start s)"
    and "length (trim_start s) = length (trim s) + length q"
    unfolding trim_def by (metis length_append)+
  then have "p = []" using t by simp
  then have "trim_start s = s" using \<open>s = p @ trim_start s\<close> by simp
  moreover have "trim_end s = s" using t \<open>trim_start s = s\<close> by (simp add: trim_def)
  ultimately show "ws_len s = 0 \<and> ws_len_end s = 0"
    using trim_start_shrinks [of s] trim_end_shrinks [of s] by auto
next
  assume "ws_len s = 0 \<and> ws_len_end s = 0"
  then show "trim s = s" by (simp add: trim_def trim_start.simps trim_end.simps)
qed

end
