(* ===== verification/Workflow_Definition.thy ===== *)
theory Workflow_Definition
  imports Strings
begin

text \<open>
  \<open>src/data/workflow_definition.rs\<close> and the error type of \<open>src/data/error.rs\<close>: the parsed
  workflow file, format detection, and the validation between the serde parser (a parameter) and
  the \<open>Workflow\<close> the rest of the program runs.
\<close>

subsection \<open>Errors\<close>

datatype data_error =
    GitRootNotFound string
  | GitRootResolution string string
  | SessionNotFound nat
  | SessionIdCollision nat
  | InvalidAgentName string string
  | ConfigParse string string
  | InvalidOverlaySpec string string
  | ConfigSerialize string
  | Io string string
  | HomeNotFound
  | Sqlite string
  | MissingDependency string string
  | CyclicDependency string
  | WorkflowStateError string
  | MarkdownNoLongerSupported string
  | WorkflowResumeIncompatible string
  | InvalidPath string string
  | BuiltinState string
  | BuiltinStateBusy string nat
  | BuiltinConfig string
  | OtherError string

subsection \<open>Data\<close>

record remediation_config =
  rem_prompt :: string
  rem_agent :: "string option"
  rem_model :: "string option"
  rem_max_attempts :: nat

datatype workflow_format = Toml | Yaml

record workflow_step =
  ws_name :: string
  ws_depends_on :: "string list"
  ws_prompt_template :: string
  ws_agent :: "string option"
  ws_model :: "string option"
  ws_overlays :: "string list option"
  ws_abort_on_failure :: bool

datatype clone_conflict_mode = CloneSkip | CloneReplace | CloneError

datatype setup_step =
    CloneRepo string "string option" "string option" clone_conflict_mode
  | CheckoutCreateBranch string "string option"
  | PullBranch "string option" "string option"
  | SetupRunShell string "(string, string) hmap option"
  | SetupRunScript string "(string, string) hmap option"
  | SetupPollCi "nat option" "nat option"

datatype teardown_step =
    TeardownRunShell string "(string, string) hmap option"
  | TeardownRunScript string
  | CommitChanges string bool
  | CreatePullRequest "string option" "string option" "string option"
  | PushBranch "string option" "string option"
  | TeardownPollCi "nat option" "nat option"

record 'step phase_entry =
  pe_overlays :: "string list option"
  pe_abort_on_failure :: bool
  pe_on_failure :: "remediation_config option"
  pe_step :: 'step

type_synonym setup_step_entry = "setup_step phase_entry"
type_synonym teardown_step_entry = "teardown_step phase_entry"

record workflow =
  wf_title :: "string option"
  wf_steps :: "workflow_step list"
  wf_agent :: "string option"
  wf_model :: "string option"
  wf_overlays :: "string list option"
  wf_setup :: "setup_step_entry list"
  wf_teardown :: "teardown_step_entry list"
  wf_teardown_on_failure :: bool

text \<open>What serde hands over: \<open>RawStep\<close>, and \<open>TomlWorkflow\<close> / \<open>YamlWorkflow\<close>, which have the
  same fields.\<close>

record raw_step =
  raw_name :: "string option"
  raw_prompt :: "string option"
  raw_depends_on :: "string list"
  raw_agent :: "string option"
  raw_model :: "string option"
  raw_overlays :: "string list option"
  raw_abort_on_failure :: bool

record raw_workflow =
  rw_title :: "string option"
  rw_name :: "string option"
  rw_agent :: "string option"
  rw_model :: "string option"
  rw_overlays :: "string list option"
  rw_steps :: "raw_step list"
  rw_setup :: "setup_step_entry list"
  rw_teardown :: "teardown_step_entry list"
  rw_teardown_on_failure :: bool

subsection \<open>Format detection\<close>

definition detect_format :: "string \<Rightarrow> (data_error, workflow_format) result" where
  "detect_format path =
     (case path_extension path of
        Some ext \<Rightarrow>
          if ext = ''md'' then Inl (MarkdownNoLongerSupported path)
          else if ext = ''toml'' then Inr Toml
          else if ext = ''yml'' \<or> ext = ''yaml'' then Inr Yaml
          else Inl (WorkflowStateError
                 (''unsupported workflow format '' @ [sq] @ ''.'' @ ext @ [sq]
                    @ '': expected .toml, .yml, or .yaml''))
      | None \<Rightarrow>
          Inl (WorkflowStateError
                 ''workflow file has no extension; expected .toml, .yml, or .yaml''))"

subsection \<open>Validation\<close>

text \<open>One phase entry's overlay list; \<open>phase\<close> is \<open>setup\<close> or \<open>teardown\<close>.\<close>

fun check_phase_overlays :: "string \<Rightarrow> nat \<Rightarrow> string list \<Rightarrow> (data_error, unit) result" where
  "check_phase_overlays phase i [] = Inr ()"
| "check_phase_overlays phase i (overlay # os) =
     (let t = trim overlay in
      if starts_with t ''skills('' then
        Inl (WorkflowStateError (phase @ '' step '' @ dec_string i @ '': '' @ [sq] @ overlay @ [sq]
          @ '': skills() has been removed; use skill(*) to mount all skills or skill(name) for a ''
          @ ''specific named skill '' @ [CHR 0xE2, CHR 0x80, CHR 0x94]
          @ '' and only on agent (workflow step) entries, not '' @ phase @ '' steps''))
      else if starts_with t ''skill('' then
        Inl (WorkflowStateError (phase @ '' step '' @ dec_string i @ '': '' @ [sq] @ overlay @ [sq]
          @ '': skill() overlays are only valid on agent (workflow step) entries; '' @ phase
          @ '' steps do not run agent containers''))
      else check_phase_overlays phase i os)"

fun check_entries_overlays ::
  "string \<Rightarrow> nat \<Rightarrow> 'step phase_entry list \<Rightarrow> (data_error, unit) result" where
  "check_entries_overlays phase i [] = Inr ()"
| "check_entries_overlays phase i (entry # es) =
     rbind (case pe_overlays entry of None \<Rightarrow> Inr () | Some os \<Rightarrow> check_phase_overlays phase i os)
       (\<lambda>_. check_entries_overlays phase (Suc i) es)"

definition validate_setup_teardown_overlays :: "workflow \<Rightarrow> (data_error, unit) result" where
  "validate_setup_teardown_overlays w =
     rbind (check_entries_overlays ''setup'' 0 (wf_setup w))
       (\<lambda>_. check_entries_overlays ''teardown'' 0 (wf_teardown w))"

fun check_entries_remediation ::
  "string \<Rightarrow> nat \<Rightarrow> 'step phase_entry list \<Rightarrow> (data_error, unit) result" where
  "check_entries_remediation phase i [] = Inr ()"
| "check_entries_remediation phase i (entry # es) =
     (case pe_on_failure entry of
        Some rem \<Rightarrow>
          if rem_max_attempts rem = 0 then
            Inl (WorkflowStateError (phase @ '' step '' @ dec_string i
              @ '': on_failure.max_attempts must be >= 1, got 0''))
          else check_entries_remediation phase (Suc i) es
      | None \<Rightarrow> check_entries_remediation phase (Suc i) es)"

definition validate_remediation_configs :: "workflow \<Rightarrow> (data_error, unit) result" where
  "validate_remediation_configs w =
     rbind (check_entries_remediation ''setup'' 0 (wf_setup w))
       (\<lambda>_. check_entries_remediation ''teardown'' 0 (wf_teardown w))"

subsection \<open>Parsing\<close>

definition bom :: string where
  "bom = [CHR 0xEF, CHR 0xBB, CHR 0xBF]"

definition strip_bom :: "string \<Rightarrow> string" where
  "strip_bom s = (case strip_prefix s bom of None \<Rightarrow> s | Some r \<Rightarrow> r)"

definition raw_to_step :: "nat \<Rightarrow> raw_step \<Rightarrow> (data_error, workflow_step) result" where
  "raw_to_step idx r =
     (case raw_name r of
        None \<Rightarrow> Inl (WorkflowStateError
          (''step '' @ dec_string idx @ '': missing required field '' @ [sq] @ ''name'' @ [sq]))
      | Some name \<Rightarrow>
          (case raw_prompt r of
             None \<Rightarrow> Inl (WorkflowStateError
               (''step '' @ dec_string idx @ '' ('' @ [sq] @ name @ [sq]
                  @ ''): missing required '' @ [sq] @ ''prompt'' @ [sq]))
           | Some prompt \<Rightarrow>
               Inr \<lparr>ws_name = name, ws_depends_on = raw_depends_on r,
                    ws_prompt_template = trim prompt, ws_agent = raw_agent r,
                    ws_model = raw_model r, ws_overlays = raw_overlays r,
                    ws_abort_on_failure = raw_abort_on_failure r\<rparr>))"

fun raw_to_steps_from ::
  "nat \<Rightarrow> raw_step list \<Rightarrow> (data_error, workflow_step list) result" where
  "raw_to_steps_from idx [] = Inr []"
| "raw_to_steps_from idx (r # rs) =
     rbind (raw_to_step idx r) (\<lambda>s. rbind (raw_to_steps_from (Suc idx) rs) (\<lambda>ss. Inr (s # ss)))"

definition raw_to_steps :: "raw_step list \<Rightarrow> (data_error, workflow_step list) result" where
  "raw_to_steps raw =
     rbind (raw_to_steps_from 0 raw)
       (\<lambda>steps. if steps = [] then Inl (WorkflowStateError ''workflow file contains no steps'')
                else Inr steps)"

definition workflow_of_raw :: "raw_workflow \<Rightarrow> (data_error, workflow) result" where
  "workflow_of_raw p =
     rbind (raw_to_steps (rw_steps p))
       (\<lambda>steps. Inr
          \<lparr>wf_title = (case rw_title p of Some t \<Rightarrow> Some t | None \<Rightarrow> rw_name p),
           wf_steps = steps, wf_agent = rw_agent p, wf_model = rw_model p,
           wf_overlays = rw_overlays p, wf_setup = rw_setup p, wf_teardown = rw_teardown p,
           wf_teardown_on_failure = rw_teardown_on_failure p\<rparr>)"

text \<open>The serde parsers (\<open>toml::from_str\<close>, \<open>serde_yaml::from_str\<close>) are parameters; their error
  is its rendered text.\<close>

type_synonym serde = "string \<Rightarrow> (string, raw_workflow) result"

definition parse_toml :: "serde \<Rightarrow> string \<Rightarrow> (data_error, workflow) result" where
  "parse_toml toml content =
     (case toml (strip_bom content) of
        Inl e \<Rightarrow> Inl (WorkflowStateError (''toml: '' @ e))
      | Inr p \<Rightarrow> workflow_of_raw p)"

definition parse_yaml :: "serde \<Rightarrow> string \<Rightarrow> (data_error, workflow) result" where
  "parse_yaml yaml content =
     (case yaml (strip_bom content) of
        Inl e \<Rightarrow> Inl (WorkflowStateError (''yaml: '' @ e))
      | Inr p \<Rightarrow> workflow_of_raw p)"

definition parse_workflow ::
  "serde \<Rightarrow> serde \<Rightarrow> string \<Rightarrow> workflow_format \<Rightarrow> (data_error, workflow) result" where
  "parse_workflow toml yaml content fmt =
     rbind (case fmt of Toml \<Rightarrow> parse_toml toml content | Yaml \<Rightarrow> parse_yaml yaml content)
       (\<lambda>w. rbind (validate_setup_teardown_overlays w)
          (\<lambda>_. rbind (validate_remediation_configs w) (\<lambda>_. Inr w)))"

definition load_workflow ::
  "serde \<Rightarrow> serde \<Rightarrow> (string \<Rightarrow> (string, string) result) \<Rightarrow> string
     \<Rightarrow> (data_error, workflow) result" where
  "load_workflow toml yaml read path =
     rbind (detect_format path)
       (\<lambda>fmt. case read path of
          Inl e \<Rightarrow> Inl (Io path e)
        | Inr content \<Rightarrow> parse_workflow toml yaml content fmt)"

subsection \<open>What a loaded workflow guarantees\<close>

definition overlay_ok_for_phase :: "string \<Rightarrow> bool" where
  "overlay_ok_for_phase o1 \<longleftrightarrow>
     \<not> starts_with (trim o1) ''skill('' \<and> \<not> starts_with (trim o1) ''skills(''"

definition entry_ok :: "'step phase_entry \<Rightarrow> bool" where
  "entry_ok e \<longleftrightarrow>
     (\<forall>os. pe_overlays e = Some os \<longrightarrow> list_all overlay_ok_for_phase os) \<and>
     (\<forall>r. pe_on_failure e = Some r \<longrightarrow> 0 < rem_max_attempts r)"

lemma check_phase_overlays_iff:
  "check_phase_overlays phase i os = Inr () \<longleftrightarrow> list_all overlay_ok_for_phase os"
  by (induction os) (auto simp: overlay_ok_for_phase_def Let_def)

lemma check_entries_overlays_iff:
  "check_entries_overlays phase i es = Inr () \<longleftrightarrow>
     (\<forall>e \<in> set es. \<forall>os. pe_overlays e = Some os \<longrightarrow> list_all overlay_ok_for_phase os)"
  by (induction es arbitrary: i)
     (auto simp: result_simps check_phase_overlays_iff split: option.splits)

lemma check_entries_remediation_iff:
  "check_entries_remediation phase i es = Inr () \<longleftrightarrow>
     (\<forall>e \<in> set es. \<forall>r. pe_on_failure e = Some r \<longrightarrow> 0 < rem_max_attempts r)"
  by (induction es arbitrary: i) (auto split: option.splits)

lemma raw_to_steps_from_Inr:
  "raw_to_steps_from k rs = Inr ss \<Longrightarrow>
     length ss = length rs \<and>
     (\<forall>i < length rs. raw_to_step (k + i) (rs ! i) = Inr (ss ! i))"
proof (induction rs arbitrary: k ss)
  case Nil
  then show ?case by simp
next
  case (Cons r rs)
  then obtain s ss' where s: "raw_to_step k r = Inr s"
    and ss': "raw_to_steps_from (Suc k) rs = Inr ss'" and eq: "ss = s # ss'"
    by (auto simp: result_simps)
  from Cons.IH [OF ss'] s eq show ?case
    by (auto simp: nth_Cons split: nat.splits)
qed

lemma raw_to_step_Inr:
  "raw_to_step i r = Inr s \<longleftrightarrow>
     raw_name r = Some (ws_name s) \<and> (\<exists>p. raw_prompt r = Some p \<and> ws_prompt_template s = trim p) \<and>
     ws_depends_on s = raw_depends_on r \<and> ws_agent s = raw_agent r \<and> ws_model s = raw_model r \<and>
     ws_overlays s = raw_overlays r \<and> ws_abort_on_failure s = raw_abort_on_failure r"
  by (cases s) (auto simp: raw_to_step_def split: option.splits)

end
