(* ===== verification/Workflow_Dag.thy ===== *)
theory Workflow_Dag
  imports Workflow_Definition
begin

text \<open>
  \<open>src/data/workflow_dag.rs\<close>: reference validation, cycle detection and the two queries of the
  validated step graph. The two depth-first searches thread the mutable \<open>visited\<close> and \<open>in_stack\<close>
  sets (and the output vector) explicitly; their termination is proved from the number of nodes
  still unvisited.
\<close>

subsection \<open>The code\<close>

type_synonym adjacency = "(string, string list) hmap"

record workflow_dag =
  dag_order :: "string list"
  dag_edges :: adjacency

text \<open>\<open>iter().map(...).collect::<HashMap>()\<close>: a later entry of the same key replaces the earlier.\<close>

definition collect_edges :: "workflow_step list \<Rightarrow> adjacency" where
  "collect_edges steps = fold (\<lambda>s m. hm_insert (ws_name s) (ws_depends_on s) m) steps []"

fun validate_deps :: "string set \<Rightarrow> string \<Rightarrow> string list \<Rightarrow> (data_error, unit) result" where
  "validate_deps names step [] = Inr ()"
| "validate_deps names step (dep # deps) =
     (if dep \<notin> names then Inl (MissingDependency step dep) else validate_deps names step deps)"

fun validate_references_in ::
  "string set \<Rightarrow> workflow_step list \<Rightarrow> (data_error, unit) result" where
  "validate_references_in names [] = Inr ()"
| "validate_references_in names (step # steps) =
     rbind (validate_deps names (ws_name step) (ws_depends_on step))
       (\<lambda>_. validate_references_in names steps)"

definition validate_references :: "workflow_step list \<Rightarrow> (data_error, unit) result" where
  "validate_references steps = validate_references_in (ws_name ` set steps) steps"

definition deps_of :: "adjacency \<Rightarrow> string \<Rightarrow> string list" where
  "deps_of adj node = (case hm_get adj node of None \<Rightarrow> [] | Some deps \<Rightarrow> deps)"

definition adj_nodes :: "adjacency \<Rightarrow> string set" where
  "adj_nodes adj = set (hm_keys adj) \<union> \<Union> (set ` set (hm_values adj))"

lemma finite_adj_nodes [simp]: "finite (adj_nodes adj)"
  by (auto simp: adj_nodes_def)

lemma deps_of_nodes: "set (deps_of adj node) \<subseteq> adj_nodes adj"
  proof (cases "hm_get adj node")
  case (Some deps)
  then have "(node, deps) \<in> set adj" by (rule map_of_SomeD)
  with Some show ?thesis by (force simp: deps_of_def adj_nodes_def)
qed (simp add: deps_of_def)

fun cycle_measure ::
  "(adjacency \<times> string \<times> string set \<times> string set) + (adjacency \<times> string list \<times> string set \<times> string set)
     \<Rightarrow> nat \<times> nat" where
  "cycle_measure (Inl (adj, node, vis, stk)) =
     (card (adj_nodes adj - insert node vis), Suc (length (deps_of adj node)))"
| "cycle_measure (Inr (adj, deps, vis, stk)) =
     (card (adj_nodes adj \<union> set deps - vis), length deps)"

text \<open>
  \<open>cycle_dfs\<close> and its loop over the dependencies of a node. The result is the error, or the two
  sets after the call.
\<close>

function (sequential)
  cycle_dfs :: "adjacency \<Rightarrow> string \<Rightarrow> string set \<Rightarrow> string set
     \<Rightarrow> (data_error, string set \<times> string set) result"
  and cycle_deps :: "adjacency \<Rightarrow> string list \<Rightarrow> string set \<Rightarrow> string set
     \<Rightarrow> (data_error, string set \<times> string set) result"
where
  "cycle_dfs adj node visited in_stack =
     (case cycle_deps adj (deps_of adj node) (insert node visited) (insert node in_stack) of
        Inl e \<Rightarrow> Inl e
      | Inr (v, s) \<Rightarrow> Inr (v, s - {node}))"
| "cycle_deps adj [] visited in_stack = Inr (visited, in_stack)"
| "cycle_deps adj (dep # deps) visited in_stack =
     (if dep \<in> in_stack then Inl (CyclicDependency dep)
      else if dep \<notin> visited then
        (case cycle_dfs adj dep visited in_stack of
           Inl e \<Rightarrow> Inl e
         | Inr (v, s) \<Rightarrow> cycle_deps adj deps v s)
      else cycle_deps adj deps visited in_stack)"
  by pat_completeness auto

text \<open>The visited set only grows; this is what makes the nested calls terminate.\<close>

lemma cycle_visited_mono:
  "cycle_dfs_cycle_deps_dom (Inl (adj, node, vis, stk)) \<Longrightarrow>
     cycle_dfs adj node vis stk = Inr (v, s) \<Longrightarrow> insert node vis \<subseteq> v"
  "cycle_dfs_cycle_deps_dom (Inr (adj, deps, vis, stk)) \<Longrightarrow>
     cycle_deps adj deps vis stk = Inr (v, s) \<Longrightarrow> vis \<subseteq> v"
proof (induction adj node vis stk and adj deps vis stk
    arbitrary: v s and v s rule: cycle_dfs_cycle_deps.pinduct)
  case (1 adj node vis stk)
  then show ?case
    by (auto simp: cycle_dfs.psimps split: sum.splits)
next
  case (2 adj vis stk)
  then show ?case by (simp add: cycle_deps.psimps)
next
  case (3 adj dep deps vis stk)
  show ?case
  proof (cases "dep \<in> vis")
    case True
    with "3.prems" "3.hyps" "3.IH"(3) [of v s] show ?thesis
      by (simp add: cycle_deps.psimps split: if_splits)
  next
    case False
    with "3.prems" "3.hyps" obtain v1 s1 where ns: "dep \<notin> stk"
      and d: "cycle_dfs adj dep vis stk = Inr (v1, s1)"
      and r: "cycle_deps adj deps v1 s1 = Inr (v, s)"
      by (auto simp: cycle_deps.psimps split: if_splits sum.splits)
    from "3.IH"(1) [OF ns False d] "3.IH"(2) [OF ns False d refl r] show ?thesis by blast
  qed
qed

lemma card_diff_insert_less:
  "finite A \<Longrightarrow> x \<in> B \<Longrightarrow> x \<notin> V \<Longrightarrow> A \<subseteq> B \<Longrightarrow> finite B \<Longrightarrow> card (A - insert x V) < card (B - V)"
  by (rule psubset_card_mono) auto

termination cycle_dfs
proof (relation "inv_image (less_than <*lex*> less_than) cycle_measure", goal_cases)
  case 1
  show ?case by auto
next
  case (2 adj node vis stk)
  have "adj_nodes adj \<union> set (deps_of adj node) = adj_nodes adj"
    using deps_of_nodes by blast
  then show ?case by simp
next
  case (3 adj dep deps vis stk)
  then have "card (adj_nodes adj - insert dep vis) < card (adj_nodes adj \<union> set (dep # deps) - vis)"
    by (intro card_diff_insert_less) auto
  then show ?case by simp
next
  case (4 adj dep deps vis stk p v s)
  then have "insert dep vis \<subseteq> v"
    using cycle_visited_mono(1) by blast
  then have "adj_nodes adj \<union> set deps - v \<subseteq> adj_nodes adj \<union> set (dep # deps) - vis"
    by auto
  then have "card (adj_nodes adj \<union> set deps - v) \<le> card (adj_nodes adj \<union> set (dep # deps) - vis)"
    by (rule card_mono [rotated]) simp
  then show ?case by auto
next
  case (5 adj dep deps vis stk)
  have "card (adj_nodes adj \<union> set deps - vis) \<le> card (adj_nodes adj \<union> set (dep # deps) - vis)"
    by (rule card_mono) auto
  then show ?case by auto
qed

declare cycle_dfs.simps [simp del]

fun detect_cycle_from ::
  "adjacency \<Rightarrow> workflow_step list \<Rightarrow> string set \<Rightarrow> string set \<Rightarrow> (data_error, unit) result" where
  "detect_cycle_from adj [] visited in_stack = Inr ()"
| "detect_cycle_from adj (step # steps) visited in_stack =
     (if ws_name step \<notin> visited then
        (case cycle_dfs adj (ws_name step) visited in_stack of
           Inl e \<Rightarrow> Inl e
         | Inr (v, s) \<Rightarrow> detect_cycle_from adj steps v s)
      else detect_cycle_from adj steps visited in_stack)"

definition detect_cycle :: "workflow_step list \<Rightarrow> (data_error, unit) result" where
  "detect_cycle steps = detect_cycle_from (collect_edges steps) steps {} {}"

definition build_dag :: "workflow_step list \<Rightarrow> (data_error, workflow_dag) result" where
  "build_dag steps =
     rbind (validate_references steps) (\<lambda>_.
     rbind (detect_cycle steps) (\<lambda>_.
     Inr \<lparr>dag_order = map ws_name steps, dag_edges = collect_edges steps\<rparr>))"

definition ready_steps :: "workflow_dag \<Rightarrow> string set \<Rightarrow> string list" where
  "ready_steps d completed =
     filter (\<lambda>name. name \<notin> completed \<and>
         (case hm_get (dag_edges d) name of
            Some deps \<Rightarrow> list_all (\<lambda>dep. dep \<in> completed) deps
          | None \<Rightarrow> True))
       (dag_order d)"

text \<open>\<open>topo_dfs\<close> and its loop over the dependencies; the result is \<open>visited\<close> and \<open>out\<close>.\<close>

fun topo_measure ::
  "(adjacency \<times> string \<times> string set \<times> string list) + (adjacency \<times> string list \<times> string set \<times> string list)
     \<Rightarrow> nat \<times> nat" where
  "topo_measure (Inl (adj, node, vis, out)) =
     (card (set (hm_keys adj) - vis), 0)"
| "topo_measure (Inr (adj, deps, vis, out)) =
     (card (set (hm_keys adj) - vis), Suc (length deps))"

function (sequential)
  topo_dfs :: "adjacency \<Rightarrow> string \<Rightarrow> string set \<Rightarrow> string list \<Rightarrow> string set \<times> string list"
  and topo_deps :: "adjacency \<Rightarrow> string list \<Rightarrow> string set \<Rightarrow> string list \<Rightarrow> string set \<times> string list"
where
  "topo_dfs edges node visited out =
     (if node \<in> visited then (visited, out)
      else case hm_get edges node of
        None \<Rightarrow> (visited, out)
      | Some deps \<Rightarrow>
          (case topo_deps edges deps (insert node visited) out of (v, o1) \<Rightarrow> (v, o1 @ [node])))"
| "topo_deps edges [] visited out = (visited, out)"
| "topo_deps edges (dep # deps) visited out =
     (case topo_dfs edges dep visited out of (v, o1) \<Rightarrow> topo_deps edges deps v o1)"
  by pat_completeness auto

lemma topo_visited_mono:
  "topo_dfs_topo_deps_dom (Inl (adj, node, vis, out)) \<Longrightarrow>
     vis \<subseteq> fst (topo_dfs adj node vis out)"
  "topo_dfs_topo_deps_dom (Inr (adj, deps, vis, out)) \<Longrightarrow>
     vis \<subseteq> fst (topo_deps adj deps vis out)"
proof (induction adj node vis out and adj deps vis out rule: topo_dfs_topo_deps.pinduct)
  case (1 adj node vis out)
  then show ?case
    by (fastforce simp: topo_dfs.psimps split: option.splits prod.splits)
next
  case (2 adj vis out)
  then show ?case by (simp add: topo_deps.psimps)
next
  case (3 adj dep deps vis out)
  then show ?case
    by (fastforce simp: topo_deps.psimps split: prod.splits)
qed

termination topo_dfs
proof (relation "inv_image (less_than <*lex*> less_than) topo_measure", goal_cases)
  case 1
  show ?case by auto
next
  case (2 adj node vis out deps)
  then have "card (set (hm_keys adj) - insert node vis) < card (set (hm_keys adj) - vis)"
    by (intro card_diff_insert_less) (simp_all only: hm_keys_iff, simp_all)
  then show ?case by simp
next
  case (3 adj dep deps vis out)
  show ?case by simp
next
  case (4 adj dep deps vis out v o1)
  then have "vis \<subseteq> v"
    using topo_visited_mono(1) [of adj dep vis out] by (metis fst_conv)
  then have "card (set (hm_keys adj) - v) \<le> card (set (hm_keys adj) - vis)"
    by (intro card_mono) auto
  then show ?case by auto
qed

declare topo_dfs.simps [simp del]

fun topological_from ::
  "adjacency \<Rightarrow> string list \<Rightarrow> string set \<Rightarrow> string list \<Rightarrow> string list" where
  "topological_from edges [] visited out = out"
| "topological_from edges (name # names) visited out =
     (if name \<notin> visited then
        (case topo_dfs edges name visited out of (v, o1) \<Rightarrow> topological_from edges names v o1)
      else topological_from edges names visited out)"

definition topological_order :: "workflow_dag \<Rightarrow> string list" where
  "topological_order d = topological_from (dag_edges d) (dag_order d) {} []"

definition step_names :: "workflow_dag \<Rightarrow> string list" where
  "step_names d = dag_order d"


subsection \<open>Correctness of cycle detection\<close>

definition dep_edges :: "adjacency \<Rightarrow> (string \<times> string) set" where
  "dep_edges adj = {(n, d). d \<in> set (deps_of adj n)}"

text \<open>
  The nodes that are visited but no longer on the stack are closed under dependencies, and the
  edges among them are acyclic.
\<close>

definition done_ok :: "adjacency \<Rightarrow> string set \<Rightarrow> bool" where
  "done_ok adj F \<longleftrightarrow>
     (\<forall>n \<in> F. set (deps_of adj n) \<subseteq> F) \<and> acyclic {(n, d). n \<in> F \<and> d \<in> set (deps_of adj n)}"

lemma acyclic_extend:
  assumes "acyclic R" and "R \<subseteq> F \<times> F" and "n \<notin> F" and "S \<subseteq> {n} \<times> F"
  shows "acyclic (R \<union> S)"
proof -
  have out: "(x, y) \<in> (R \<union> S)\<^sup>+ \<Longrightarrow> y \<in> F \<and> (x \<noteq> n \<longrightarrow> (x, y) \<in> R\<^sup>+)" for x y
  proof (induction rule: trancl_induct)
    case (base y)
    then show ?case using assms by auto
  next
    case (step y z)
    then have "(y, z) \<in> R" using assms by auto
    with step assms(2) show ?case by (auto intro: trancl_into_trancl)
  qed
  show ?thesis
  proof (rule acyclicI, rule allI)
    fix x
    show "(x, x) \<notin> (R \<union> S)\<^sup>+"
      using out [of x x] assms(1,3) by (auto simp: acyclic_def)
  qed
qed

lemma done_ok_insert:
  assumes "done_ok adj F" and "set (deps_of adj n) \<subseteq> F" and "n \<notin> F"
  shows "done_ok adj (insert n F)"
proof -
  let ?R = "{(m, d). m \<in> F \<and> d \<in> set (deps_of adj m)}"
  let ?S = "{n} \<times> set (deps_of adj n)"
  have "acyclic (?R \<union> ?S)"
    using assms by (intro acyclic_extend [of _ F n]) (auto simp: done_ok_def)
  moreover have "?R \<union> ?S = {(m, d). m \<in> insert n F \<and> d \<in> set (deps_of adj m)}"
    by auto
  ultimately show ?thesis using assms by (auto simp: done_ok_def)
qed

lemma cycle_search_ok:
  "cycle_dfs adj node vis stk = Inr (v, s) \<Longrightarrow> stk \<subseteq> vis \<Longrightarrow> node \<notin> vis \<Longrightarrow> done_ok adj (vis - stk) \<Longrightarrow>
     s = stk \<and> insert node vis \<subseteq> v \<and> done_ok adj (v - s)"
  "cycle_deps adj deps vis stk = Inr (v, s) \<Longrightarrow> stk \<subseteq> vis \<Longrightarrow> done_ok adj (vis - stk) \<Longrightarrow>
     s = stk \<and> vis \<subseteq> v \<and> set deps \<subseteq> v - s \<and> done_ok adj (v - s)"
proof (induction adj node vis stk and adj deps vis stk
    arbitrary: v s and v s rule: cycle_dfs_cycle_deps.induct)
  case (1 adj node vis stk)
  from "1.prems"(1) obtain v1 s1
    where d: "cycle_deps adj (deps_of adj node) (insert node vis) (insert node stk) = Inr (v1, s1)"
      and v: "v = v1" "s = s1 - {node}"
    by (auto simp: cycle_dfs.simps [of adj node] split: sum.splits)
  have "insert node vis - insert node stk = vis - stk"
    using "1.prems" by auto
  with "1.IH" [OF d] "1.prems" have
    r: "s1 = insert node stk" "insert node vis \<subseteq> v1" "set (deps_of adj node) \<subseteq> v1 - s1"
       "done_ok adj (v1 - s1)"
    by auto
  have "v1 - s = insert node (v1 - s1)"
    using r v "1.prems" by auto
  with done_ok_insert [OF r(4) r(3)] r v show ?case
    using "1.prems" by auto
next
  case (2 adj vis stk)
  then show ?case by auto
next
  case (3 adj dep deps vis stk)
  show ?case
  proof (cases "dep \<in> vis")
    case True
    with "3.prems" "3.IH"(3) [of v s] show ?thesis by (auto split: if_splits)
  next
    case False
    with "3.prems" obtain v1 s1 where ns: "dep \<notin> stk"
      and d: "cycle_dfs adj dep vis stk = Inr (v1, s1)"
      and r: "cycle_deps adj deps v1 s1 = Inr (v, s)"
      by (auto split: if_splits sum.splits)
    from "3.IH"(1) [OF ns False d "3.prems"(2) False "3.prems"(3)]
    have m: "s1 = stk" "insert dep vis \<subseteq> v1" "done_ok adj (v1 - s1)" by auto
    with "3.IH"(2) [OF ns False d refl r] "3.prems"(2) ns show ?thesis by auto
  qed
qed

lemma cycle_stack_shrinks:
  "cycle_dfs adj node vis stk = Inr (v, s) \<Longrightarrow> s \<subseteq> stk"
  "cycle_deps adj deps vis stk = Inr (v, s) \<Longrightarrow> s \<subseteq> stk"
proof (induction adj node vis stk and adj deps vis stk
    arbitrary: v s and v s rule: cycle_dfs_cycle_deps.induct)
  case (1 adj node vis stk)
  then show ?case
    by (fastforce simp: cycle_dfs.simps [of adj node] split: sum.splits)
next
  case (2 adj vis stk)
  then show ?case by simp
next
  case (3 adj dep deps vis stk)
  then show ?case
    by (fastforce split: if_splits sum.splits)
qed

lemma cycle_search_err:
  "cycle_dfs adj node vis stk = Inl e \<Longrightarrow> (\<forall>x \<in> stk. (x, node) \<in> (dep_edges adj)\<^sup>*) \<Longrightarrow>
     \<exists>x. e = CyclicDependency x \<and> (x, x) \<in> (dep_edges adj)\<^sup>+"
  "cycle_deps adj deps vis stk = Inl e \<Longrightarrow> set deps \<subseteq> set (deps_of adj cur) \<Longrightarrow>
     (\<forall>x \<in> stk. (x, cur) \<in> (dep_edges adj)\<^sup>*) \<Longrightarrow>
     \<exists>x. e = CyclicDependency x \<and> (x, x) \<in> (dep_edges adj)\<^sup>+"
proof (induction adj node vis stk and adj deps vis stk
    arbitrary: e and e cur rule: cycle_dfs_cycle_deps.induct)
  case (1 adj node vis stk)
  then show ?case
    by (auto simp: cycle_dfs.simps [of adj node] split: sum.splits)
next
  case (2 adj vis stk)
  then show ?case by simp
next
  case (3 adj dep deps vis stk)
  have edge: "(cur, dep) \<in> dep_edges adj"
    using "3.prems"(2) by (auto simp: dep_edges_def)
  consider (cyc) "dep \<in> stk" "e = CyclicDependency dep"
    | (dfs) "dep \<notin> stk" "dep \<notin> vis" "cycle_dfs adj dep vis stk = Inl e"
    | (more) v1 s1 where "dep \<notin> stk" "dep \<notin> vis" "cycle_dfs adj dep vis stk = Inr (v1, s1)"
        "cycle_deps adj deps v1 s1 = Inl e"
    | (skip) "dep \<notin> stk" "\<not> dep \<notin> vis" "cycle_deps adj deps vis stk = Inl e"
    using "3.prems"(1) by (auto split: if_splits sum.splits)
  then show ?case
  proof cases
    case cyc
    with "3.prems"(3) edge show ?thesis by (auto intro: rtrancl_into_trancl1)
  next
    case dfs
    from edge "3.prems"(3) have "\<forall>x \<in> stk. (x, dep) \<in> (dep_edges adj)\<^sup>*"
      by (auto intro: rtrancl_into_rtrancl)
    with "3.IH"(1) dfs show ?thesis by blast
  next
    case more
    then have "s1 \<subseteq> stk"
      by (auto dest: cycle_stack_shrinks(1))
    with "3.IH"(2) [OF more(1,2,3) refl more(4)] "3.prems"(2,3) show ?thesis by auto
  next
    case skip
    with "3.IH"(3) "3.prems"(2,3) show ?thesis by auto
  qed
qed

lemma keys_collect_edges: "set (hm_keys (collect_edges steps)) = ws_name ` set steps"
proof -
  have "set (hm_keys (fold (\<lambda>s m. hm_insert (ws_name s) (ws_depends_on s) m) steps m))
      = set (hm_keys m) \<union> ws_name ` set steps" for m
    by (induction steps arbitrary: m) (auto simp: dom_update [simplified dom_map_of_conv_image_fst])
  then show ?thesis by (simp add: collect_edges_def)
qed

lemma deps_of_key: "d \<in> set (deps_of adj n) \<Longrightarrow> n \<in> set (hm_keys adj)"
  unfolding hm_keys_iff by (cases "hm_get adj n") (auto simp: deps_of_def)

lemma collect_edges_get:
  "hm_get (collect_edges steps) n = Some deps \<Longrightarrow>
     \<exists>s \<in> set steps. ws_name s = n \<and> ws_depends_on s = deps"
proof -
  have "hm_get (fold (\<lambda>s m. hm_insert (ws_name s) (ws_depends_on s) m) steps m) n = Some deps \<Longrightarrow>
      hm_get m n = Some deps \<or> (\<exists>s \<in> set steps. ws_name s = n \<and> ws_depends_on s = deps)" for m
  proof (induction steps arbitrary: m)
    case (Cons s ss)
    from Cons.IH [of "hm_insert (ws_name s) (ws_depends_on s) m"] Cons.prems show ?case
      by (auto simp: hm.get_ins split: if_splits)
  qed simp
  from this [of "[]"] show "hm_get (collect_edges steps) n = Some deps \<Longrightarrow>
     \<exists>s \<in> set steps. ws_name s = n \<and> ws_depends_on s = deps"
    by (simp add: collect_edges_def)
qed

lemma validate_deps_iff: "validate_deps names step deps = Inr () \<longleftrightarrow> set deps \<subseteq> names"
  by (induction deps) auto

lemma validate_references_iff:
  "validate_references steps = Inr () \<longleftrightarrow>
     (\<forall>s \<in> set steps. set (ws_depends_on s) \<subseteq> ws_name ` set steps)"
proof -
  have "validate_references_in names ss = Inr () \<longleftrightarrow> (\<forall>s \<in> set ss. set (ws_depends_on s) \<subseteq> names)"
    for names ss
    by (induction ss) (auto simp: result_simps validate_deps_iff)
  then show ?thesis by (simp add: validate_references_def)
qed

lemma detect_cycle_from_ok:
  "detect_cycle_from adj steps vis {} = Inr () \<Longrightarrow> done_ok adj vis \<Longrightarrow>
     \<exists>F. vis \<subseteq> F \<and> ws_name ` set steps \<subseteq> F \<and> done_ok adj F"
proof (induction steps arbitrary: vis)
  case Nil
  then show ?case by auto
next
  case (Cons st steps)
  show ?case
  proof (cases "ws_name st \<in> vis")
    case True
    with Cons.prems have "detect_cycle_from adj steps vis {} = Inr ()" by simp
    from Cons.IH [OF this Cons.prems(2)] True show ?thesis by auto
  next
    case False
    with Cons.prems obtain v s where d: "cycle_dfs adj (ws_name st) vis {} = Inr (v, s)"
      and r: "detect_cycle_from adj steps v s = Inr ()"
      by (auto split: sum.splits)
    from cycle_search_ok(1) [OF d] False Cons.prems
    have "s = {}" "insert (ws_name st) vis \<subseteq> v" "done_ok adj v" by auto
    with Cons.IH [of v] r show ?thesis by auto
  qed
qed

lemma detect_cycle_from_err:
  "detect_cycle_from adj steps vis {} = Inl e \<Longrightarrow>
     \<exists>x. e = CyclicDependency x \<and> (x, x) \<in> (dep_edges adj)\<^sup>+"
proof (induction steps arbitrary: vis)
  case Nil
  then show ?case by simp
next
  case (Cons st steps)
  show ?case
  proof (cases "cycle_dfs adj (ws_name st) vis {}")
    case (Inl e')
    with Cons.prems Cons.IH [of vis] cycle_search_err(1) [of adj "ws_name st" vis "{}" e]
    show ?thesis by (auto split: if_splits)
  next
    case (Inr p)
    then obtain v s where p: "cycle_dfs adj (ws_name st) vis {} = Inr (v, s)" by (cases p) auto
    with cycle_stack_shrinks(1) [OF p] Cons.prems Cons.IH show ?thesis
      by (auto split: if_splits)
  qed
qed

lemma detect_cycle_iff:
  "detect_cycle steps = Inr () \<longleftrightarrow> acyclic (dep_edges (collect_edges steps))"
proof
  let ?adj = "collect_edges steps"
  assume "detect_cycle steps = Inr ()"
  then obtain F where F: "ws_name ` set steps \<subseteq> F" "done_ok ?adj F"
    using detect_cycle_from_ok [of ?adj steps "{}"]
    by (auto simp: detect_cycle_def done_ok_def acyclic_def)
  have "n \<in> F" if "d \<in> set (deps_of ?adj n)" for n d
    using deps_of_key [OF that] F(1) keys_collect_edges [of steps] by (metis subsetD)
  then have "dep_edges ?adj \<subseteq> {(n, d). n \<in> F \<and> d \<in> set (deps_of ?adj n)}"
    by (auto simp: dep_edges_def)
  then show "acyclic (dep_edges ?adj)"
    using F(2) by (auto simp: done_ok_def intro: acyclic_subset)
next
  assume "acyclic (dep_edges (collect_edges steps))"
  then show "detect_cycle steps = Inr ()"
    using detect_cycle_from_err [of "collect_edges steps" steps "{}"]
    by (cases "detect_cycle steps") (auto simp: detect_cycle_def acyclic_def)
qed

lemma detect_cycle_names_cycle:
  "detect_cycle steps = Inl e \<Longrightarrow>
     \<exists>x. e = CyclicDependency x \<and> (x, x) \<in> (dep_edges (collect_edges steps))\<^sup>+"
  unfolding detect_cycle_def by (rule detect_cycle_from_err)

subsection \<open>The topological order\<close>

fun deps_before :: "adjacency \<Rightarrow> string set \<Rightarrow> string list \<Rightarrow> bool" where
  "deps_before adj seen [] \<longleftrightarrow> True"
| "deps_before adj seen (x # xs) \<longleftrightarrow>
     set (deps_of adj x) \<subseteq> seen \<and> deps_before adj (insert x seen) xs"

lemma deps_before_snoc:
  "deps_before adj seen (xs @ [y]) \<longleftrightarrow>
     deps_before adj seen xs \<and> set (deps_of adj y) \<subseteq> seen \<union> set xs"
  by (induction xs arbitrary: seen) auto

lemma deps_before_nth:
  "deps_before adj seen xs \<Longrightarrow> i < length xs \<Longrightarrow>
     set (deps_of adj (xs ! i)) \<subseteq> seen \<union> set (take i xs)"
proof (induction xs arbitrary: seen i)
  case (Cons x xs)
  then show ?case by (cases i) fastforce+
qed simp

text \<open>What a call of the search keeps: \<open>vis\<close> minus \<open>out\<close> are the nodes on the call stack.\<close>

definition topo_ok :: "adjacency \<Rightarrow> string set \<Rightarrow> string list \<Rightarrow> bool" where
  "topo_ok adj vis out \<longleftrightarrow> set out \<subseteq> vis \<and> distinct out \<and> deps_before adj {} out"

definition topo_post ::
  "adjacency \<Rightarrow> string set \<Rightarrow> string list \<Rightarrow> string set \<Rightarrow> string list \<Rightarrow> bool" where
  "topo_post adj vis out v o1 \<longleftrightarrow>
     topo_ok adj v o1 \<and> v - set o1 = vis - set out \<and> set out \<subseteq> set o1 \<and>
     set o1 \<subseteq> set out \<union> set (hm_keys adj)"

lemma topo_search:
  assumes ac: "acyclic (dep_edges adj)"
    and closed: "\<And>n. set (deps_of adj n) \<subseteq> set (hm_keys adj)"
  shows "topo_dfs adj node vis out = (v, o1) \<Longrightarrow> node \<in> set (hm_keys adj) \<Longrightarrow> topo_ok adj vis out \<Longrightarrow>
       (\<forall>x \<in> vis - set out. (x, node) \<in> (dep_edges adj)\<^sup>+) \<Longrightarrow>
       topo_post adj vis out v o1 \<and> node \<in> set o1"
    and "topo_deps adj deps vis out = (v, o1) \<Longrightarrow> set deps \<subseteq> set (deps_of adj cur) \<Longrightarrow>
       topo_ok adj vis out \<Longrightarrow>
       (\<forall>x \<in> vis - set out. (x, cur) \<in> (dep_edges adj)\<^sup>*) \<Longrightarrow>
       topo_post adj vis out v o1 \<and> set deps \<subseteq> set o1"
  using ac closed
proof (induction adj node vis out and adj deps vis out
    arbitrary: v o1 and v o1 cur rule: topo_dfs_topo_deps.induct)
  case (1 adj node vis out)
  show ?case
  proof (cases "node \<in> vis")
    case True
    with "1.prems" have "v = vis" "o1 = out" by (auto simp: topo_dfs.simps [of adj node])
    moreover have "node \<in> set out"
      using "1.prems"(4,5) True by (auto simp: acyclic_def)
    ultimately show ?thesis using "1.prems"(3) by (auto simp: topo_post_def)
  next
    case False
    from "1.prems"(2) obtain deps where deps: "hm_get adj node = Some deps"
      by (auto simp: hm_keys_iff simp del: set_map)
    then have deps': "deps_of adj node = deps" by (simp add: deps_of_def)
    from False deps "1.prems"(1) obtain o2 where
      d: "topo_deps adj deps (insert node vis) out = (v, o2)" and o1: "o1 = o2 @ [node]"
      by (auto simp: topo_dfs.simps [of adj node] split: prod.splits)
    from False "1.prems"(3) have diff: "insert node vis - set out = insert node (vis - set out)"
      by (auto simp: topo_ok_def)
    have "topo_post adj (insert node vis) out v o2 \<and> set deps \<subseteq> set o2"
    proof (rule "1.IH" [OF False deps d])
      show "set deps \<subseteq> set (deps_of adj node)" by (simp add: deps')
      show "topo_ok adj (insert node vis) out" using "1.prems"(3) by (auto simp: topo_ok_def)
      show "\<forall>x \<in> insert node vis - set out. (x, node) \<in> (dep_edges adj)\<^sup>*"
        unfolding diff using "1.prems"(4) by (auto intro: trancl_into_rtrancl)
    qed (use "1.prems" in auto)
    then show ?thesis
      using diff False "1.prems"(2,3) deps' unfolding o1
      by (auto simp: topo_post_def topo_ok_def deps_before_snoc)
  qed
next
  case (2 adj vis out)
  then show ?case by (auto simp: topo_post_def)
next
  case (3 adj dep deps vis out)
  obtain v1 o2 where d: "topo_dfs adj dep vis out = (v1, o2)" by (cases "topo_dfs adj dep vis out")
  with "3.prems" have r: "topo_deps adj deps v1 o2 = (v, o1)" by simp
  have edge: "(cur, dep) \<in> dep_edges adj" using "3.prems"(2) by (auto simp: dep_edges_def)
  have a: "topo_post adj vis out v1 o2 \<and> dep \<in> set o2"
  proof (rule "3.IH"(1) [OF d])
    show "dep \<in> set (hm_keys adj)" using "3.prems"(2,6) by (meson list.set_intros(1) subsetD)
    show "\<forall>x \<in> vis - set out. (x, dep) \<in> (dep_edges adj)\<^sup>+"
      using "3.prems"(4) edge by (auto intro: rtrancl_into_trancl1)
  qed (use "3.prems" in auto)
  have b: "topo_post adj v1 o2 v o1 \<and> set deps \<subseteq> set o1"
  proof (rule "3.IH"(2) [OF d [symmetric] r])
    show "topo_ok adj v1 o2" using a by (auto simp: topo_post_def)
    show "\<forall>x \<in> v1 - set o2. (x, cur) \<in> (dep_edges adj)\<^sup>*"
      using a "3.prems"(4) by (auto simp: topo_post_def)
  qed (use "3.prems" in auto)
  from a b show ?case by (auto simp: topo_post_def)
qed

lemma topological_from_ok:
  assumes ac: "acyclic (dep_edges adj)"
    and closed: "\<And>n. set (deps_of adj n) \<subseteq> set (hm_keys adj)"
  shows "set names \<subseteq> set (hm_keys adj) \<Longrightarrow> topo_ok adj vis out \<Longrightarrow> vis = set out \<Longrightarrow>
      set out \<subseteq> set (hm_keys adj) \<Longrightarrow>
      (let o1 = topological_from adj names vis out in
         distinct o1 \<and> deps_before adj {} o1 \<and> set out \<union> set names \<subseteq> set o1 \<and>
         set o1 \<subseteq> set (hm_keys adj))"
proof (induction names arbitrary: vis out)
  case Nil
  then show ?case by (auto simp: topo_ok_def Let_def)
next
  case (Cons n names)
  show ?case
  proof (cases "n \<in> vis")
    case True
    with Cons.IH [of vis out] Cons.prems show ?thesis by (auto simp: Let_def)
  next
    case False
    obtain v o1 where d: "topo_dfs adj n vis out = (v, o1)" by (cases "topo_dfs adj n vis out")
    with topo_search(1) [OF ac closed d] Cons.prems
    have p: "topo_post adj vis out v o1" "n \<in> set o1" by auto
    then have "topo_ok adj v o1" "v = set o1" "set o1 \<subseteq> set (hm_keys adj)" "set out \<subseteq> set o1"
      using Cons.prems by (auto simp: topo_post_def topo_ok_def)
    with Cons.IH [of v o1] d p(2) False Cons.prems(1) show ?thesis
      by (auto simp: Let_def)
  qed
qed

definition built_dag :: "workflow_dag \<Rightarrow> bool" where
  "built_dag d \<longleftrightarrow> (\<exists>steps. build_dag steps = Inr d)"

lemma build_dag_Inr:
  assumes "build_dag steps = Inr d"
  shows "dag_order d = map ws_name steps" and "dag_edges d = collect_edges steps"
    and "acyclic (dep_edges (dag_edges d))"
    and "set (deps_of (dag_edges d) n) \<subseteq> set (hm_keys (dag_edges d))"
    and "set (hm_keys (dag_edges d)) = set (dag_order d)"
proof -
  from assms have v: "validate_references steps = Inr ()" and c: "detect_cycle steps = Inr ()"
    and d: "d = \<lparr>dag_order = map ws_name steps, dag_edges = collect_edges steps\<rparr>"
    by (auto simp: build_dag_def result_simps)
  show "dag_order d = map ws_name steps" "dag_edges d = collect_edges steps"
    using d by simp_all
  show "acyclic (dep_edges (dag_edges d))"
    using d c by (simp add: detect_cycle_iff)
  show k: "set (hm_keys (dag_edges d)) = set (dag_order d)"
    using d keys_collect_edges [of steps] by simp
  show "set (deps_of (dag_edges d) n) \<subseteq> set (hm_keys (dag_edges d))"
  proof (cases "hm_get (collect_edges steps) n")
    case None
    then show ?thesis using d by (simp add: deps_of_def)
  next
    case (Some deps)
    with collect_edges_get [OF this] v k d show ?thesis
      by (fastforce simp: deps_of_def validate_references_iff)
  qed
qed

lemma topological_order_ok:
  assumes "built_dag d"
  shows "distinct (topological_order d)"
    and "deps_before (dag_edges d) {} (topological_order d)"
    and "set (topological_order d) = set (dag_order d)"
proof -
  from assms obtain steps where b: "build_dag steps = Inr d" by (auto simp: built_dag_def)
  from topological_from_ok [OF build_dag_Inr(3) [OF b] build_dag_Inr(4) [OF b],
      of "dag_order d" "{}" "[]"] build_dag_Inr(5) [OF b]
  show "distinct (topological_order d)" "deps_before (dag_edges d) {} (topological_order d)"
    "set (topological_order d) = set (dag_order d)"
    by (auto simp: topological_order_def Let_def topo_ok_def)
qed

lemma ready_steps_iff:
  "n \<in> set (ready_steps d c) \<longleftrightarrow>
     n \<in> set (dag_order d) \<and> n \<notin> c \<and> set (deps_of (dag_edges d) n) \<subseteq> c"
  by (auto simp: ready_steps_def deps_of_def list_all_iff split: option.splits)

subsection \<open>What the state and the engine rely on\<close>

text \<open>
  The clients of the graph see only its order, its dependencies and its ready query. A good graph
  lists every step once, after its dependencies, and offers exactly the open steps whose
  dependencies are complete.
\<close>

locale step_graph =
  fixes good :: "'d \<Rightarrow> bool"
    and order :: "'d \<Rightarrow> string list"
    and deps :: "'d \<Rightarrow> string \<Rightarrow> string list"
    and ready :: "'d \<Rightarrow> string set \<Rightarrow> string list"
  assumes order_distinct: "good d \<Longrightarrow> distinct (order d)"
    and order_deps: "good d \<Longrightarrow> i < length (order d) \<Longrightarrow>
          set (deps d (order d ! i)) \<subseteq> set (take i (order d))"
    and ready_iff: "good d \<Longrightarrow> n \<in> set (ready d c) \<longleftrightarrow>
          n \<in> set (order d) \<and> n \<notin> c \<and> set (deps d n) \<subseteq> c"
begin

lemma prefix_ready:
  assumes "good d" and "i < length (order d)" and "set (take i (order d)) \<subseteq> c"
    and "order d ! i \<notin> c"
  shows "order d ! i \<in> set (ready d c)"
  using assms order_deps [OF assms(1,2)] by (auto simp: ready_iff)

lemma progress:
  assumes g: "good d" and open_step: "\<not> set (order d) \<subseteq> c"
  shows "ready d c \<noteq> []"
proof -
  from open_step obtain i where i: "position (\<lambda>n. n \<notin> c) (order d) = Some i"
    by (metis position_None_iff not_None_eq subsetI)
  from position_SomeD [OF i] have "i < length (order d)" "order d ! i \<notin> c"
    and before: "\<forall>j < i. order d ! j \<in> c" by auto
  moreover have "set (take i (order d)) \<subseteq> c"
    using before \<open>i < length (order d)\<close> by (auto simp: in_set_conv_nth)
  ultimately have "order d ! i \<in> set (ready d c)" by (intro prefix_ready [OF g])
  then show ?thesis by auto
qed

text \<open>A ready step stays ready while other steps complete.\<close>

lemma ready_mono:
  "good d \<Longrightarrow> c \<subseteq> c' \<Longrightarrow> n \<in> set (ready d c) \<Longrightarrow> n \<notin> c' \<Longrightarrow> n \<in> set (ready d c')"
  by (auto simp: ready_iff)

lemma ready_independent:
  assumes "good d" and "n \<in> set (ready d c)" and "m \<in> set (ready d c)"
  shows "n \<notin> set (deps d m)"
  using assms by (auto simp: ready_iff)

end

interpretation dag: step_graph built_dag topological_order "\<lambda>d. deps_of (dag_edges d)" ready_steps
proof
  fix d i
  assume g: "built_dag d"
  show "distinct (topological_order d)" using topological_order_ok(1) [OF g] .
  show "i < length (topological_order d) \<Longrightarrow>
      set (deps_of (dag_edges d) (topological_order d ! i)) \<subseteq> set (take i (topological_order d))"
    using deps_before_nth [OF topological_order_ok(2) [OF g]] by simp
  fix n c
  show "n \<in> set (ready_steps d c) \<longleftrightarrow>
      n \<in> set (topological_order d) \<and> n \<notin> c \<and> set (deps_of (dag_edges d) n) \<subseteq> c"
    using topological_order_ok(3) [OF g] by (simp add: ready_steps_iff)
qed

text \<open>
  Property C20. A step list is accepted exactly when every dependency names a step of the list and the
  dependency relation is acyclic - the relation of the edge map, in which the last of several steps
  of one name decides. No other list is rejected, and no cyclic one gets through.
\<close>

theorem build_dag_accepts_iff:
  "(\<exists>d. build_dag steps = Inr d) \<longleftrightarrow>
     (\<forall>s \<in> set steps. set (ws_depends_on s) \<subseteq> ws_name ` set steps) \<and>
     acyclic {(n, d). d \<in> set (deps_of (collect_edges steps) n)}"
proof -
  have "{(n, d). d \<in> set (deps_of (collect_edges steps) n)} = dep_edges (collect_edges steps)"
    by (auto simp: dep_edges_def)
  then show ?thesis
    by (auto simp: build_dag_def result_simps validate_references_iff detect_cycle_iff)
qed

text \<open>
  Property C21. The topological order of a graph that \<open>build\<close> accepted lists every step of the
  workflow exactly once, each one after all the steps it depends on.
\<close>

theorem topological_order_correct:
  assumes "build_dag steps = Inr d"
  shows "distinct (topological_order d) \<and>
    set (topological_order d) = ws_name ` set steps \<and>
    (\<forall>i < length (topological_order d).
       set (deps_of (dag_edges d) (topological_order d ! i)) \<subseteq> set (take i (topological_order d)))"
proof -
  from assms have g: "built_dag d" by (auto simp: built_dag_def)
  show ?thesis
    using topological_order_ok [OF g] build_dag_Inr(1) [OF assms] dag.order_deps [OF g] by auto
qed

definition example_step :: "string \<Rightarrow> string list \<Rightarrow> workflow_step" where
  "example_step n ds = \<lparr>ws_name = n, ws_depends_on = ds, ws_prompt_template = [],
     ws_agent = None, ws_model = None, ws_overlays = None, ws_abort_on_failure = False\<rparr>"

definition example_steps :: "workflow_step list" where
  "example_steps = [example_step ''review'' [''plan'', ''implement''],
     example_step ''implement'' [''plan''], example_step ''plan'' []]"

lemma example_dag:
  "build_dag example_steps = Inr
     \<lparr>dag_order = [''review'', ''implement'', ''plan''], dag_edges =
        [(''review'', [''plan'', ''implement'']), (''implement'', [''plan'']), (''plan'', [])]\<rparr>"
  by (simp add: build_dag_def example_steps_def example_step_def validate_references_def
      detect_cycle_def collect_edges_def cycle_dfs.simps deps_of_def)

theorem topological_order_correct_witness:
  "topological_order \<lparr>dag_order = [''review'', ''implement'', ''plan''], dag_edges =
        [(''review'', [''plan'', ''implement'']), (''implement'', [''plan'']), (''plan'', [])]\<rparr>
     = [''plan'', ''implement'', ''review''] \<and>
   distinct [''plan'', ''implement'', ''review'']"
  using topological_order_correct [OF example_dag]
  by (simp add: topological_order_def topo_dfs.simps)

text \<open>
  A run never gets stuck: as long as some step of an accepted graph is not complete,
  at least one step is ready, and every ready step is an open step whose dependencies are all
  complete.
\<close>

theorem ready_steps_progress:
  assumes "build_dag steps = Inr d" and "\<not> ws_name ` set steps \<subseteq> completed"
  shows "ready_steps d completed \<noteq> [] \<and>
    (\<forall>n \<in> set (ready_steps d completed).
       n \<in> ws_name ` set steps \<and> n \<notin> completed \<and> set (deps_of (dag_edges d) n) \<subseteq> completed)"
proof -
  from assms(1) have g: "built_dag d" by (auto simp: built_dag_def)
  have s: "set (topological_order d) = ws_name ` set steps"
    using topological_order_ok(3) [OF g] build_dag_Inr(1) [OF assms(1)] by simp
  with dag.progress [OF g, of completed] assms(2) show ?thesis by (auto simp: dag.ready_iff [OF g])
qed

theorem ready_steps_progress_witness:
  "ready_steps \<lparr>dag_order = [''review'', ''implement'', ''plan''], dag_edges =
        [(''review'', [''plan'', ''implement'']), (''implement'', [''plan'']), (''plan'', [])]\<rparr>
      {''plan''} = [''implement''] \<and>
   [''implement''] \<noteq> []"
  using ready_steps_progress [OF example_dag, of "{''plan''}"]
  by (simp add: ready_steps_def example_steps_def example_step_def)

theorem build_dag_accepts_iff_witness:
  "acyclic {(n, d). d \<in> set (deps_of (collect_edges example_steps) n)}"
  using build_dag_accepts_iff [of example_steps] example_dag by blast

text \<open>
  Step names are meant to be unique, and nothing checks it: a definition with two steps of one
  name is accepted, and the name is ready twice.
\<close>

theorem duplicate_names_accepted:
  "\<exists>d. build_dag [example_step ''a'' [], example_step ''a'' []] = Inr d \<and>
     ready_steps d {} = [''a'', ''a'']"
  by (simp add: build_dag_def example_step_def validate_references_def detect_cycle_def
      collect_edges_def cycle_dfs.simps deps_of_def ready_steps_def)

end
