(* ===== verification/Workflow_State.thy ===== *)
theory Workflow_State
  imports Workflow_Dag "HOL-Library.Word"
begin

text \<open>
  \<open>src/data/workflow_state.rs\<close>: the persisted progress of one workflow run. Reading the clock and
  drawing a fresh UUID are arguments (\<open>now\<close>, \<open>uuid\<close>); exit codes are \<open>int\<close> (\<open>i32\<close>), the launch
  counter keeps its width (\<open>u32\<close>).
\<close>

subsection \<open>Data\<close>

datatype step_state =
    Pending
  | Running "string option"
  | Succeeded
  | Failed int "string option"
  | Cancelled
  | Skipped

record workflow_step_info =
  si_name :: string
  si_depends_on :: "string list"
  si_agent :: "string option"
  si_model :: "string option"

datatype workflow_phase = SetupPhase | MainPhase | TeardownPhase | DonePhase

datatype phase_step_status =
    PhasePending | PhaseRunning | PhaseSucceeded | PhaseFailed string
  | PhaseRemediating nat nat | PhaseSkipped

record phase_step_state =
  pss_description :: string
  pss_status :: phase_step_status

datatype phase_kind = SetupKind | TeardownKind

fun phase_label :: "phase_kind \<Rightarrow> string" where
  "phase_label SetupKind = ''setup''"
| "phase_label TeardownKind = ''teardown''"

fun phase_workflow_phase :: "phase_kind \<Rightarrow> workflow_phase" where
  "phase_workflow_phase SetupKind = SetupPhase"
| "phase_workflow_phase TeardownKind = TeardownPhase"

fun phase_next_workflow_phase :: "phase_kind \<Rightarrow> workflow_phase" where
  "phase_next_workflow_phase SetupKind = MainPhase"
| "phase_next_workflow_phase TeardownKind = DonePhase"

record workflow_state =
  schema_version :: nat
  invocation_id :: nat
  workflow_name :: string
  workflow_hash :: string
  st_work_item :: "nat option"
  step_states :: "(string, step_state) hmap"
  completed_steps :: "string set"
  current_step_index :: "nat option"
  started_at :: nat
  updated_at :: nat
  st_steps :: "workflow_step_info list"
  current_phase :: workflow_phase
  setup_completed :: bool
  teardown_completed :: bool
  setup_step_states :: "phase_step_state list"
  teardown_step_states :: "phase_step_state list"
  cancelled_at :: "nat option"
  step_attempts :: "(string, 32 word) hmap"
  step_containers :: "(string, string) hmap"

definition workflow_state_schema_version :: nat where
  "workflow_state_schema_version = 4"

definition step_info_of :: "workflow_step \<Rightarrow> workflow_step_info" where
  "step_info_of s = \<lparr>si_name = ws_name s, si_depends_on = ws_depends_on s,
     si_agent = ws_agent s, si_model = ws_model s\<rparr>"

definition new_state ::
  "nat \<Rightarrow> nat \<Rightarrow> string \<Rightarrow> workflow_step list \<Rightarrow> string \<Rightarrow> nat option \<Rightarrow> workflow_state" where
  "new_state now uuid name steps hash wi =
     \<lparr>schema_version = workflow_state_schema_version, invocation_id = uuid,
      workflow_name = name, workflow_hash = hash, st_work_item = wi,
      step_states = fold (\<lambda>s m. hm_insert s Pending m) (map ws_name steps) [],
      completed_steps = {}, current_step_index = None, started_at = now, updated_at = now,
      st_steps = map step_info_of steps, current_phase = MainPhase,
      setup_completed = False, teardown_completed = False,
      setup_step_states = [], teardown_step_states = [], cancelled_at = None,
      step_attempts = [], step_containers = []\<rparr>"

subsection \<open>Queries and updates\<close>

definition step_index :: "workflow_state \<Rightarrow> string \<Rightarrow> nat option" where
  "step_index st n = position (\<lambda>s. si_name s = n) (st_steps st)"

definition step_attempt :: "workflow_state \<Rightarrow> string \<Rightarrow> 32 word option" where
  "step_attempt st n = hm_get (step_attempts st) n"

definition record_step_launch :: "string \<Rightarrow> workflow_state \<Rightarrow> workflow_state \<times> 32 word" where
  "record_step_launch n st =
     (let attempt = (case hm_get (step_attempts st) n of None \<Rightarrow> 0 | Some a \<Rightarrow> a) + 1 in
      (st\<lparr>step_attempts := hm_insert n attempt (step_attempts st)\<rparr>, attempt))"

definition step_container :: "workflow_state \<Rightarrow> string \<Rightarrow> string option" where
  "step_container st n = hm_get (step_containers st) n"

definition record_step_container :: "string \<Rightarrow> string \<Rightarrow> workflow_state \<Rightarrow> workflow_state" where
  "record_step_container n c st = st\<lparr>step_containers := hm_insert n c (step_containers st)\<rparr>"

definition phase_step_states :: "workflow_state \<Rightarrow> phase_kind \<Rightarrow> phase_step_state list" where
  "phase_step_states st k =
     (case k of SetupKind \<Rightarrow> setup_step_states st | TeardownKind \<Rightarrow> teardown_step_states st)"

definition set_phase_completed :: "phase_kind \<Rightarrow> workflow_state \<Rightarrow> workflow_state" where
  "set_phase_completed k st =
     (case k of SetupKind \<Rightarrow> st\<lparr>setup_completed := True\<rparr>
              | TeardownKind \<Rightarrow> st\<lparr>teardown_completed := True\<rparr>)"

text \<open>\<open>phase_step_states_mut\<close> is used as an assignment of the whole vector or of one entry.\<close>

definition set_phase_step_states ::
  "phase_kind \<Rightarrow> phase_step_state list \<Rightarrow> workflow_state \<Rightarrow> workflow_state" where
  "set_phase_step_states k xs st =
     (case k of SetupKind \<Rightarrow> st\<lparr>setup_step_states := xs\<rparr>
              | TeardownKind \<Rightarrow> st\<lparr>teardown_step_states := xs\<rparr>)"

fun terminal :: "step_state \<Rightarrow> bool" where
  "terminal Succeeded = True"
| "terminal Skipped = True"
| "terminal (Failed _ _) = True"
| "terminal Cancelled = True"
| "terminal Pending = False"
| "terminal (Running _) = False"

fun completing :: "step_state \<Rightarrow> bool" where
  "completing Succeeded = True"
| "completing Skipped = True"
| "completing _ = False"

fun is_running :: "step_state \<Rightarrow> bool" where
  "is_running (Running _) = True"
| "is_running _ = False"

fun is_failed :: "step_state \<Rightarrow> bool" where
  "is_failed (Failed _ _) = True"
| "is_failed _ = False"

fun unrecovered :: "step_state \<Rightarrow> bool" where
  "unrecovered (Failed _ _) = True"
| "unrecovered Cancelled = True"
| "unrecovered _ = False"

definition is_complete :: "workflow_state \<Rightarrow> bool" where
  "is_complete st \<longleftrightarrow> list_all terminal (hm_values (step_states st))"

definition interrupted_running_steps :: "workflow_state \<Rightarrow> string list" where
  "interrupted_running_steps st = map fst (filter (\<lambda>(_, s). is_running s) (step_states st))"

definition next_ready :: "workflow_state \<Rightarrow> workflow_dag \<Rightarrow> string list" where
  "next_ready st d = ready_steps d (completed_steps st)"

definition status_of :: "workflow_state \<Rightarrow> string \<Rightarrow> step_state option" where
  "status_of st n = hm_get (step_states st) n"

definition set_status :: "nat \<Rightarrow> string \<Rightarrow> step_state \<Rightarrow> workflow_state \<Rightarrow> workflow_state" where
  "set_status now n s st =
     st\<lparr>step_states := hm_insert n s (step_states st),
        completed_steps := (if completing s then insert n (completed_steps st)
                            else completed_steps st - {n}),
        updated_at := now\<rparr>"

definition resume_stop_point :: "workflow_state \<Rightarrow> workflow_dag \<Rightarrow> nat option" where
  "resume_stop_point st d =
     (let order = topological_order d in
      case position (\<lambda>n. case status_of st n of Some s \<Rightarrow> unrecovered s | None \<Rightarrow> False) order of
        Some i \<Rightarrow> Some i
      | None \<Rightarrow>
          position (\<lambda>n. \<not> (case status_of st n of Some s \<Rightarrow> completing s | None \<Rightarrow> False)) order)"

fun rewind_loop ::
  "nat \<Rightarrow> nat \<Rightarrow> nat \<Rightarrow> string list \<Rightarrow> workflow_state \<Rightarrow> workflow_state" where
  "rewind_loop now start_idx i [] st = st"
| "rewind_loop now start_idx i (n # ns) st =
     rewind_loop now start_idx (Suc i) ns
       (if start_idx \<le> i then set_status now n Pending st
        else if \<not> (case status_of st n of Some s \<Rightarrow> completing s | None \<Rightarrow> False)
        then set_status now n Skipped st
        else st)"

definition rewind_to :: "nat \<Rightarrow> workflow_dag \<Rightarrow> string \<Rightarrow> workflow_state \<Rightarrow> workflow_state" where
  "rewind_to now d start st =
     (let order = topological_order d in
      case position (\<lambda>n. n = start) order of
        None \<Rightarrow> st
      | Some start_idx \<Rightarrow> rewind_loop now start_idx 0 order st)"

definition drop_step :: "string \<Rightarrow> workflow_state \<Rightarrow> workflow_state" where
  "drop_step n st =
     st\<lparr>step_states := hm_remove n (step_states st),
        completed_steps := completed_steps st - {n},
        step_attempts := hm_remove n (step_attempts st),
        step_containers := hm_remove n (step_containers st)\<rparr>"

definition retain_steps_in :: "nat \<Rightarrow> workflow_dag \<Rightarrow> workflow_state \<Rightarrow> workflow_state \<times> string list" where
  "retain_steps_in now d st =
     (let known = set (topological_order d);
          dropped = sort (filter (\<lambda>n. n \<notin> known) (hm_keys (step_states st)));
          st1 = fold drop_step dropped st;
          st2 = st1\<lparr>st_steps := filter (\<lambda>s. si_name s \<notin> set dropped) (st_steps st1)\<rparr>
      in (if dropped \<noteq> [] then st2\<lparr>updated_at := now\<rparr> else st2, dropped))"

definition unrecovered_steps :: "workflow_state \<Rightarrow> string list" where
  "unrecovered_steps st = sort (map fst (filter (\<lambda>(_, s). unrecovered s) (step_states st)))"

record workflow_summary =
  sm_invocation_id :: nat
  sm_workflow_name :: string
  sm_work_item :: "nat option"
  sm_phase :: workflow_phase
  sm_total_steps :: nat
  sm_completed_steps :: nat
  sm_failed_steps :: nat
  sm_current_step :: "string option"
  sm_updated_at :: nat

definition summary_of :: "workflow_state \<Rightarrow> workflow_summary" where
  "summary_of st =
     \<lparr>sm_invocation_id = invocation_id st, sm_workflow_name = workflow_name st,
      sm_work_item = st_work_item st, sm_phase = current_phase st,
      sm_total_steps = length (st_steps st), sm_completed_steps = card (completed_steps st),
      sm_failed_steps = length (filter is_failed (hm_values (step_states st))),
      sm_current_step =
        (case current_step_index st of
           None \<Rightarrow> None
         | Some i \<Rightarrow> if i < length (st_steps st) then Some (si_name (st_steps st ! i)) else None),
      sm_updated_at = updated_at st\<rparr>"

subsection \<open>The invariant of a state\<close>

text \<open>
  A map of step states, and the completed set as exactly the steps whose state counts as completed.
\<close>

definition state_ok :: "workflow_state \<Rightarrow> bool" where
  "state_ok st \<longleftrightarrow>
     hm_wf (step_states st) \<and>
     (\<forall>n. n \<in> completed_steps st \<longleftrightarrow> (\<exists>s. status_of st n = Some s \<and> completing s))"

lemma set_status_simps [simp]:
  "status_of (set_status now n s st) m = (if m = n then Some s else status_of st m)"
  "completed_steps (set_status now n s st)
     = (if completing s then insert n (completed_steps st) else completed_steps st - {n})"
  "st_steps (set_status now n s st) = st_steps st"
  "step_attempts (set_status now n s st) = step_attempts st"
  "cancelled_at (set_status now n s st) = cancelled_at st"
  by (simp_all add: set_status_def status_of_def hm.get_ins)

lemma set_status_ok [intro]: "state_ok st \<Longrightarrow> state_ok (set_status now n s st)"
  by (auto simp: state_ok_def) (auto simp: set_status_def hm.wf_ins)

interpretation status_run: invariant_machine "\<lambda>(now, n, s). set_status now n s" state_ok
  by unfold_locales (auto split: prod.splits)

lemma new_state_status:
  "status_of (new_state now uuid name steps hash wi) n
     = (if n \<in> ws_name ` set steps then Some Pending else None)"
  by (simp add: new_state_def status_of_def hm.get_fold_ins)

lemma new_state_ok: "state_ok (new_state now uuid name steps hash wi)"
proof -
  have "hm_wf (step_states (new_state now uuid name steps hash wi))"
    by (simp add: new_state_def hm.wf_fold_ins)
  moreover have "completed_steps (new_state now uuid name steps hash wi) = {}"
    by (simp add: new_state_def)
  ultimately show ?thesis by (auto simp: state_ok_def new_state_status)
qed

lemma is_complete_iff:
  "state_ok st \<Longrightarrow> is_complete st \<longleftrightarrow> (\<forall>n s. status_of st n = Some s \<longrightarrow> terminal s)"
  using hm_values_iff [of "step_states st"]
  by (auto simp: is_complete_def list_all_iff state_ok_def status_of_def)

lemma interrupted_iff:
  "state_ok st \<Longrightarrow> n \<in> set (interrupted_running_steps st) \<longleftrightarrow>
     (\<exists>s. status_of st n = Some s \<and> is_running s)"
  by (force simp: interrupted_running_steps_def state_ok_def status_of_def)

lemma unrecovered_iff:
  "state_ok st \<Longrightarrow> n \<in> set (unrecovered_steps st) \<longleftrightarrow>
     (\<exists>s. status_of st n = Some s \<and> unrecovered s)"
  by (force simp: unrecovered_steps_def state_ok_def status_of_def)

subsection \<open>Rewinding\<close>

definition completed_at :: "workflow_state \<Rightarrow> string \<Rightarrow> bool" where
  "completed_at st n \<longleftrightarrow> (\<exists>s. status_of st n = Some s \<and> completing s)"

lemma rewind_loop_ok: "state_ok st \<Longrightarrow> state_ok (rewind_loop now k i ns st)"
  by (induction ns arbitrary: i st) auto

lemma rewind_loop_other: "m \<notin> set ns \<Longrightarrow> status_of (rewind_loop now k i ns st) m = status_of st m"
  by (induction ns arbitrary: i st) auto

lemma rewind_loop_status:
  "distinct ns \<Longrightarrow> j < length ns \<Longrightarrow>
     status_of (rewind_loop now k i ns st) (ns ! j)
       = (if k \<le> i + j then Some Pending
          else if completed_at st (ns ! j) then status_of st (ns ! j) else Some Skipped)"
proof (induction ns arbitrary: i j st)
  case Nil
  then show ?case by simp
next
  case (Cons n ns)
  define st1 where "st1 = (if k \<le> i then set_status now n Pending st
      else if \<not> (case status_of st n of Some s \<Rightarrow> completing s | None \<Rightarrow> False)
      then set_status now n Skipped st else st)"
  have step: "rewind_loop now k i (n # ns) st = rewind_loop now k (Suc i) ns st1"
    by (simp add: st1_def)
  show ?case
  proof (cases j)
    case 0
    have "n \<notin> set ns" using Cons.prems by simp
    then have "status_of (rewind_loop now k (Suc i) ns st1) n = status_of st1 n"
      by (rule rewind_loop_other)
    with 0 show ?thesis unfolding step
      by (auto simp: st1_def completed_at_def split: option.splits)
  next
    case (Suc j')
    then have "ns ! j' \<noteq> n" using Cons.prems nth_mem [of j' ns] by auto
    then have same: "status_of st1 (ns ! j') = status_of st (ns ! j')" by (auto simp: st1_def)
    then have ca: "completed_at st1 (ns ! j') = completed_at st (ns ! j')"
      by (simp add: completed_at_def)
    from Cons.IH [of j' "Suc i" st1] Cons.prems Suc show ?thesis
      unfolding step by (auto simp: same ca)
  qed
qed

lemma rewind_to_status:
  assumes g: "built_dag d" and i: "i < length (topological_order d)"
    and j: "j < length (topological_order d)"
  shows "status_of (rewind_to now d (topological_order d ! i) st) (topological_order d ! j)
     = (if i \<le> j then Some Pending
        else if completed_at st (topological_order d ! j)
        then status_of st (topological_order d ! j) else Some Skipped)"
  using rewind_loop_status [OF dag.order_distinct [OF g] j, of now i 0 st]
    position_distinct [OF dag.order_distinct [OF g] i]
  by (simp add: rewind_to_def)

lemma rewind_to_ok: "state_ok st \<Longrightarrow> state_ok (rewind_to now d start st)"
  by (auto simp: rewind_to_def Let_def rewind_loop_ok split: option.splits)

lemma rewind_completed:
  assumes "built_dag d" and "state_ok st" and "i < length (topological_order d)"
    and "j < length (topological_order d)"
  shows "topological_order d ! j \<in> completed_steps (rewind_to now d (topological_order d ! i) st)
    \<longleftrightarrow> j < i"
  using rewind_to_ok [OF assms(2)] rewind_to_status [OF assms(1,3,4), of now st]
  by (auto simp: state_ok_def completed_at_def)

lemma rewind_ready:
  assumes g: "built_dag d" and ok: "state_ok st" and i: "i < length (topological_order d)"
  shows "topological_order d ! i
    \<in> set (next_ready (rewind_to now d (topological_order d ! i) st) d)"
proof -
  let ?o = "topological_order d" and ?st = "rewind_to now d (topological_order d ! i) st"
  have "set (take i ?o) \<subseteq> completed_steps ?st"
    using rewind_completed [OF g ok i] i by (auto simp: in_set_conv_nth)
  then show ?thesis
    unfolding next_ready_def using rewind_completed [OF g ok i i]
    by (intro dag.prefix_ready [OF g i]) auto
qed

lemma rewind_not_complete:
  assumes "built_dag d" and "state_ok st" and "i < length (topological_order d)"
  shows "\<not> is_complete (rewind_to now d (topological_order d ! i) st)"
  using rewind_to_status [OF assms(1,3,3), of now st] is_complete_iff [OF rewind_to_ok [OF assms(2)]]
  by force

lemma rewind_other:
  "m \<notin> set (topological_order d) \<Longrightarrow> status_of (rewind_to now d start st) m = status_of st m"
  by (auto simp: rewind_to_def Let_def rewind_loop_other split: option.splits)

text \<open>
  Property C22. Rewinding a run to a step of the workflow makes that step runnable: it is among the
  ready steps afterwards. That step and every one behind it in topological order is \<open>Pending\<close>, whatever it was;
  every step before it counts as completed: one that had completed keeps its status, any other becomes
  \<open>Skipped\<close>. Names that are no steps of the graph keep theirs, and the run is not complete.
\<close>

theorem rewind_to_restarts:
  assumes "build_dag steps = Inr d" and "state_ok st"
    and "i < length (topological_order d)"
  shows "topological_order d ! i \<in> set (next_ready (rewind_to now d (topological_order d ! i) st) d) \<and>
    (\<forall>j < length (topological_order d).
       status_of (rewind_to now d (topological_order d ! i) st) (topological_order d ! j) =
         (if i \<le> j then Some Pending
          else (case status_of st (topological_order d ! j) of
                  Some s \<Rightarrow> Some (if completing s then s else Skipped) | None \<Rightarrow> Some Skipped))) \<and>
    (\<forall>m. m \<notin> set (topological_order d) \<longrightarrow>
       status_of (rewind_to now d (topological_order d ! i) st) m = status_of st m) \<and>
    (\<forall>j < length (topological_order d).
       (topological_order d ! j \<in> completed_steps (rewind_to now d (topological_order d ! i) st))
         \<longleftrightarrow> j < i) \<and>
    \<not> is_complete (rewind_to now d (topological_order d ! i) st)"
proof -
  from assms(1) have g: "built_dag d" by (auto simp: built_dag_def)
  have "status_of (rewind_to now d (topological_order d ! i) st) (topological_order d ! j) =
      (if i \<le> j then Some Pending
       else (case status_of st (topological_order d ! j) of
               Some s \<Rightarrow> Some (if completing s then s else Skipped) | None \<Rightarrow> Some Skipped))"
    if "j < length (topological_order d)" for j
    using rewind_to_status [OF g assms(3) that, of now st] by (auto simp: completed_at_def split: option.splits)
  then show ?thesis
    using rewind_ready [OF g assms(2,3)] rewind_completed [OF g assms(2,3)]
      rewind_not_complete [OF g assms(2,3)] rewind_other by blast
qed

lemma example_state_ok: "state_ok (new_state 0 7 ''wf'' example_steps ''h'' None)"
  by (rule new_state_ok)

theorem rewind_to_restarts_witness:
  "''implement'' \<in> set (next_ready
      (rewind_to 5 \<lparr>dag_order = [''review'', ''implement'', ''plan''], dag_edges =
        [(''review'', [''plan'', ''implement'']), (''implement'', [''plan'']), (''plan'', [])]\<rparr>
         ''implement'' (new_state 0 7 ''wf'' example_steps ''h'' None))
      \<lparr>dag_order = [''review'', ''implement'', ''plan''], dag_edges =
        [(''review'', [''plan'', ''implement'']), (''implement'', [''plan'']), (''plan'', [])]\<rparr>)"
  using rewind_to_restarts [OF example_dag example_state_ok, of 1 5]
  by (simp add: topological_order_def topo_dfs.simps)

subsection \<open>The point a run stopped at\<close>

definition unrecovered_at :: "workflow_state \<Rightarrow> string \<Rightarrow> bool" where
  "unrecovered_at st n \<longleftrightarrow> (case status_of st n of Some s \<Rightarrow> unrecovered s | None \<Rightarrow> False)"

lemma completed_at_case:
  "completed_at st n \<longleftrightarrow> (case status_of st n of Some s \<Rightarrow> completing s | None \<Rightarrow> False)"
  by (simp add: completed_at_def split: option.splits)

lemma unrecovered_not_completed: "unrecovered_at st n \<Longrightarrow> \<not> completed_at st n"
proof -
  have "\<not> completing s" if "unrecovered s" for s using that by (cases s) auto
  then show "unrecovered_at st n \<Longrightarrow> \<not> completed_at st n"
    by (auto simp: unrecovered_at_def completed_at_case split: option.splits)
qed

lemma resume_stop_point_alt:
  "resume_stop_point st d =
     (case position (unrecovered_at st) (topological_order d) of
        Some i \<Rightarrow> Some i
      | None \<Rightarrow> position (\<lambda>n. \<not> completed_at st n) (topological_order d))"
proof -
  have u: "(\<lambda>n. case status_of st n of Some s \<Rightarrow> unrecovered s | None \<Rightarrow> False) = unrecovered_at st"
    by (rule ext) (simp add: unrecovered_at_def)
  have c: "(\<lambda>n. \<not> (case status_of st n of Some s \<Rightarrow> completing s | None \<Rightarrow> False))
      = (\<lambda>n. \<not> completed_at st n)"
    by (rule ext) (simp add: completed_at_case)
  show ?thesis unfolding resume_stop_point_def Let_def u c ..
qed

lemma resume_stop_point_Some:
  assumes "resume_stop_point st d = Some i"
  shows "i < length (topological_order d) \<and> \<not> completed_at st (topological_order d ! i)"
  using assms
  by (auto simp: resume_stop_point_alt split: option.splits dest!: position_SomeD
      dest: unrecovered_not_completed)

lemma resume_stop_point_None:
  "resume_stop_point st d = None \<longleftrightarrow> (\<forall>n \<in> set (topological_order d). completed_at st n)"
proof (cases "resume_stop_point st d")
  case None
  then show ?thesis by (auto simp: resume_stop_point_alt position_None_iff split: option.splits)
next
  case (Some i)
  with resume_stop_point_Some [OF Some] show ?thesis by (metis nth_mem option.distinct(1))
qed

text \<open>
  Resuming at the recorded stop point always has something to run: there is no stop
  point exactly when every step of the workflow completed, and rewinding to the stop point makes
  the step there ready.
\<close>

theorem resume_stop_point_correct:
  assumes "build_dag steps = Inr d" and "state_ok st"
  shows "(resume_stop_point st d = None \<longleftrightarrow> ws_name ` set steps \<subseteq> completed_steps st) \<and>
    (\<forall>i. resume_stop_point st d = Some i \<longrightarrow>
       topological_order d ! i
         \<in> set (next_ready (rewind_to now d (topological_order d ! i) st) d))"
proof -
  from assms(1) have g: "built_dag d" by (auto simp: built_dag_def)
  have names: "set (topological_order d) = ws_name ` set steps"
    using topological_order_ok(3) [OF g] build_dag_Inr(1) [OF assms(1)] by simp
  have comp: "n \<in> completed_steps st \<longleftrightarrow> completed_at st n" for n
    using assms(2) by (auto simp: state_ok_def completed_at_def)
  show ?thesis
    using resume_stop_point_None [of st d] names comp resume_stop_point_Some [of st d]
      rewind_ready [OF g assms(2)] by auto
qed

theorem resume_stop_point_correct_witness:
  "resume_stop_point (set_status 1 ''plan'' Succeeded (new_state 0 7 ''wf'' example_steps ''h'' None))
     \<lparr>dag_order = [''review'', ''implement'', ''plan''], dag_edges =
        [(''review'', [''plan'', ''implement'']), (''implement'', [''plan'']), (''plan'', [])]\<rparr>
   \<noteq> None"
proof -
  have ok: "state_ok (set_status 1 ''plan'' Succeeded (new_state 0 7 ''wf'' example_steps ''h'' None))"
    by (intro set_status_ok example_state_ok)
  have "\<not> ws_name ` set example_steps \<subseteq>
      completed_steps (set_status 1 ''plan'' Succeeded (new_state 0 7 ''wf'' example_steps ''h'' None))"
    by (simp add: new_state_def example_steps_def example_step_def)
  with resume_stop_point_correct [OF example_dag ok] show ?thesis by blast
qed

subsection \<open>Pruning steps the graph does not know\<close>

lemma drop_step_simps [simp]:
  "status_of (drop_step n st) m = (if m = n then None else status_of st m)"
  "completed_steps (drop_step n st) = completed_steps st - {n}"
  "st_steps (drop_step n st) = st_steps st"
  by (simp_all add: drop_step_def status_of_def hm.get_del)

lemma drop_step_ok: "state_ok st \<Longrightarrow> state_ok (drop_step n st)"
  by (auto simp: state_ok_def) (auto simp: drop_step_def hm.wf_del)

interpretation prune_run: invariant_machine drop_step state_ok
  by unfold_locales (rule drop_step_ok)

lemma fold_drop_status:
  "status_of (fold drop_step ns st) m = (if m \<in> set ns then None else status_of st m)"
  by (induction ns arbitrary: st) auto

lemma retain_steps_in_eq:
  "\<exists>st1. fst (retain_steps_in now d st) = st1 \<and>
     step_states st1 = step_states (fold drop_step (snd (retain_steps_in now d st)) st) \<and>
     completed_steps st1 = completed_steps (fold drop_step (snd (retain_steps_in now d st)) st)"
  by (simp add: retain_steps_in_def Let_def)

lemma retain_steps_in_status:
  assumes "state_ok st"
  shows "status_of (fst (retain_steps_in now d st)) n
      = (if n \<in> set (topological_order d) then status_of st n else None)"
    and "state_ok (fst (retain_steps_in now d st))"
proof -
  let ?dr = "snd (retain_steps_in now d st)"
  have dr: "set ?dr = {n. status_of st n \<noteq> None} - set (topological_order d)"
    by (auto simp: retain_steps_in_def Let_def status_of_def hm_keys_iff simp del: set_map)
  have st: "status_of (fst (retain_steps_in now d st)) m = status_of (fold drop_step ?dr st) m" for m
    using retain_steps_in_eq [of now d st] by (auto simp: status_of_def)
  then show "status_of (fst (retain_steps_in now d st)) n
      = (if n \<in> set (topological_order d) then status_of st n else None)"
    using dr by (auto simp: fold_drop_status)
  have "state_ok (fold drop_step ?dr st)" using assms by (rule prune_run.run_inv)
  then show "state_ok (fst (retain_steps_in now d st))"
    using retain_steps_in_eq [of now d st] st by (auto simp: state_ok_def)
qed

lemma retain_dropped_sorted: "sorted (snd (retain_steps_in now d st))"
  by (simp add: retain_steps_in_def Let_def)

end
