(* ===== verification/Workflow_Stages.thy ===== *)
theory Workflow_Stages
  imports Workflow_State
begin

text \<open>
  \<open>group_stages\<close> and \<open>WorkflowState::stages\<close> of \<open>src/data/workflow_state.rs\<close>: the grouping of steps
  by dependency depth that the workflow overview and the API show. The bounded number of passes is
  proved to be enough on every acyclic definition.
\<close>

subsection \<open>Stages\<close>

text \<open>
  \<open>group_stages\<close> relaxes the depths in place until a pass changes nothing, at most \<open>len + 1\<close>
  passes. \<open>deps\<close> of a step are first resolved through \<open>index_of\<close> (a later step of the same name
  wins; unknown names are ignored).
\<close>

definition index_of :: "(string \<times> string list) list \<Rightarrow> (string, nat) hmap" where
  "index_of steps = fold (\<lambda>(i, (n, _)) m. hm_insert n i m) (enumerate 0 steps) []"

definition resolved_deps :: "(string \<times> string list) list \<Rightarrow> nat list list" where
  "resolved_deps steps = map (\<lambda>(_, deps). List.map_filter (hm_get (index_of steps)) deps) steps"

fun relax_deps :: "nat \<Rightarrow> nat list \<Rightarrow> nat list \<times> bool \<Rightarrow> nat list \<times> bool" where
  "relax_deps i [] (depths, changed) = (depths, changed)"
| "relax_deps i (d # ds) (depths, changed) =
     relax_deps i ds
       (if depths ! d + 1 > depths ! i then (depths[i := depths ! d + 1], True)
        else (depths, changed))"

fun relax_pass :: "nat \<Rightarrow> nat list list \<Rightarrow> nat list \<times> bool \<Rightarrow> nat list \<times> bool" where
  "relax_pass i [] s = s"
| "relax_pass i (ds # dss) s = relax_pass (Suc i) dss (relax_deps i ds s)"

fun relax_passes :: "nat \<Rightarrow> nat list list \<Rightarrow> nat list \<Rightarrow> nat list" where
  "relax_passes 0 dss depths = depths"
| "relax_passes (Suc k) dss depths =
     (case relax_pass 0 dss (depths, False) of
        (depths', changed) \<Rightarrow> if changed then relax_passes k dss depths' else depths')"

definition stage_depths :: "(string \<times> string list) list \<Rightarrow> nat list" where
  "stage_depths steps =
     relax_passes (length steps + 1) (resolved_deps steps) (replicate (length steps) 0)"

definition stages_of_depths :: "nat list \<Rightarrow> nat list list" where
  "stages_of_depths depths =
     filter (\<lambda>stage. stage \<noteq> [])
       (map (\<lambda>d. filter (\<lambda>i. depths ! i = d) [0..<length depths])
          [0..<Suc (fold max depths 0)])"

definition group_stages :: "(string \<times> string list) list \<Rightarrow> nat list list" where
  "group_stages steps = stages_of_depths (stage_depths steps)"

definition state_stages :: "workflow_state \<Rightarrow> string list list" where
  "state_stages st =
     map (map (\<lambda>i. si_name (st_steps st ! i)))
       (group_stages (map (\<lambda>s. (si_name s, si_depends_on s)) (st_steps st)))"

subsection \<open>One pass\<close>

lemma relax_deps_length [simp]: "length (fst (relax_deps i ds s)) = length (fst s)"
  by (induction i ds s rule: relax_deps.induct) auto

lemma relax_deps_other: "j \<noteq> i \<Longrightarrow> fst (relax_deps i ds s) ! j = fst s ! j"
  by (induction i ds s rule: relax_deps.induct) auto

lemma relax_deps_mono: "i < length (fst s) \<Longrightarrow> fst s ! j \<le> fst (relax_deps i ds s) ! j"
proof (induction i ds s rule: relax_deps.induct)
  case (2 i d ds depths changed)
  let ?s = "if depths ! d + 1 > depths ! i then (depths[i := depths ! d + 1], True)
      else (depths, changed)"
  have "depths ! j \<le> fst ?s ! j" using "2.prems" by (cases "j = i") auto
  moreover have "fst ?s ! j \<le> fst (relax_deps i ds ?s) ! j" using 2 by auto
  ultimately show ?case by simp
qed auto

lemma relax_deps_changed: "snd s \<Longrightarrow> snd (relax_deps i ds s)"
  by (induction i ds s rule: relax_deps.induct) auto

lemma relax_deps_unchanged:
  "\<not> snd (relax_deps i ds s) \<Longrightarrow>
     fst (relax_deps i ds s) = fst s \<and> (\<forall>d \<in> set ds. fst s ! d + 1 \<le> fst s ! i)"
proof (induction i ds s rule: relax_deps.induct)
  case (2 i d ds depths changed)
  then show ?case
    using relax_deps_changed [of "(depths[i := Suc (depths ! d)], True)" i ds]
    by (cases "depths ! d + 1 > depths ! i") auto
qed auto

lemma relax_deps_lower:
  "i < length (fst s) \<Longrightarrow> d \<in> set ds \<Longrightarrow> fst s ! d + 1 \<le> fst (relax_deps i ds s) ! i"
proof (induction i ds s rule: relax_deps.induct)
  case (2 i e ds depths changed)
  define s1 where "s1 = (if depths ! e + 1 > depths ! i then (depths[i := depths ! e + 1], True)
      else (depths, changed))"
  have len: "i < length (fst s1)" using "2.prems" by (auto simp: s1_def)
  have mono: "depths ! j \<le> fst s1 ! j" for j
    using "2.prems" by (cases "j = i") (auto simp: s1_def)
  have e: "depths ! e + 1 \<le> fst s1 ! i" using "2.prems" by (auto simp: s1_def)
  have "depths ! d + 1 \<le> fst (relax_deps i ds s1) ! i"
  proof (cases "d \<in> set ds")
    case True
    with "2.IH" len mono [of d] show ?thesis unfolding s1_def [symmetric] by fastforce
  next
    case False
    with "2.prems" have "d = e" by simp
    with e relax_deps_mono [OF len, of i ds] show ?thesis by simp
  qed
  then show ?case by (simp add: s1_def)
qed simp

lemma relax_pass_length [simp]: "length (fst (relax_pass i dss s)) = length (fst s)"
  by (induction i dss s rule: relax_pass.induct) auto

lemma relax_pass_mono:
  "i + length dss \<le> length (fst s) \<Longrightarrow> fst s ! j \<le> fst (relax_pass i dss s) ! j"
proof (induction i dss s rule: relax_pass.induct)
  case (2 i ds dss s)
  then have "fst s ! j \<le> fst (relax_deps i ds s) ! j" by (intro relax_deps_mono) simp
  with 2 show ?case by fastforce
qed simp

lemma relax_pass_changed: "snd s \<Longrightarrow> snd (relax_pass i dss s)"
  by (induction i dss s rule: relax_pass.induct) (auto simp: relax_deps_changed)

lemma relax_pass_unchanged:
  "\<not> snd (relax_pass i dss s) \<Longrightarrow>
     fst (relax_pass i dss s) = fst s \<and>
     (\<forall>k < length dss. \<forall>d \<in> set (dss ! k). fst s ! d + 1 \<le> fst s ! (i + k))"
proof (induction i dss s rule: relax_pass.induct)
  case (2 i ds dss s)
  from "2.prems" have "\<not> snd (relax_pass (Suc i) dss (relax_deps i ds s))" by simp
  from "2.IH" [OF this] have
    rest: "fst (relax_pass (Suc i) dss (relax_deps i ds s)) = fst (relax_deps i ds s)"
      "\<forall>k < length dss. \<forall>d \<in> set (dss ! k).
         fst (relax_deps i ds s) ! d + 1 \<le> fst (relax_deps i ds s) ! (Suc i + k)" by auto
  have "\<not> snd (relax_deps i ds s)"
    using "2.prems" relax_pass_changed [of "relax_deps i ds s" "Suc i" dss] by auto
  from relax_deps_unchanged [OF this] rest show ?case
    by (auto simp: nth_Cons split: nat.splits)
qed simp

lemma relax_pass_lower:
  "i + length dss \<le> length (fst s) \<Longrightarrow> k < length dss \<Longrightarrow> d \<in> set (dss ! k) \<Longrightarrow>
     fst s ! d + 1 \<le> fst (relax_pass i dss s) ! (i + k)"
proof (induction i dss s arbitrary: k rule: relax_pass.induct)
  case (2 i ds dss s)
  show ?case
  proof (cases k)
    case 0
    then have "fst s ! d + 1 \<le> fst (relax_deps i ds s) ! i"
      using "2.prems" by (intro relax_deps_lower) auto
    moreover have "fst (relax_deps i ds s) ! i
        \<le> fst (relax_pass (Suc i) dss (relax_deps i ds s)) ! i"
      using "2.prems" by (intro relax_pass_mono) simp
    ultimately show ?thesis using 0 by simp
  next
    case (Suc k')
    have "fst s ! d \<le> fst (relax_deps i ds s) ! d"
      using "2.prems" by (intro relax_deps_mono) simp
    with "2.IH" [of k'] "2.prems" Suc show ?thesis by fastforce
  qed
qed simp

subsection \<open>Chains of dependencies\<close>

definition dep_rel :: "nat list list \<Rightarrow> (nat \<times> nat) set" where
  "dep_rel dss = {(i, d). i < length dss \<and> d \<in> set (dss ! i)}"

text \<open>A depth is always the length of some chain, so it never overshoots.\<close>

definition sound_depths :: "nat list list \<Rightarrow> nat list \<Rightarrow> bool" where
  "sound_depths dss depths \<longleftrightarrow> (\<forall>j < length dss. \<exists>x. (j, x) \<in> dep_rel dss ^^ (depths ! j))"

text \<open>After \<open>k\<close> passes every chain of length at most \<open>k\<close> is accounted for.\<close>

definition lower_depths :: "nat \<Rightarrow> nat list list \<Rightarrow> nat list \<Rightarrow> bool" where
  "lower_depths k dss depths \<longleftrightarrow>
     (\<forall>j < length dss. \<forall>m \<le> k. (\<exists>x. (j, x) \<in> dep_rel dss ^^ m) \<longrightarrow> m \<le> depths ! j)"

definition deps_in_range :: "nat list list \<Rightarrow> bool" where
  "deps_in_range dss \<longleftrightarrow> (\<forall>ds \<in> set dss. \<forall>d \<in> set ds. d < length dss)"

lemma relax_deps_sound:
  "i < length dss \<Longrightarrow> length (fst s) = length dss \<Longrightarrow> deps_in_range dss \<Longrightarrow>
     set ds \<subseteq> set (dss ! i) \<Longrightarrow> sound_depths dss (fst s) \<Longrightarrow> sound_depths dss (fst (relax_deps i ds s))"
proof (induction i ds s rule: relax_deps.induct)
  case (2 i d ds depths changed)
  have "d < length dss" using "2.prems" by (auto simp: deps_in_range_def)
  with "2.prems" obtain x where "(d, x) \<in> dep_rel dss ^^ (depths ! d)"
    by (auto simp: sound_depths_def)
  moreover have "(i, d) \<in> dep_rel dss" using "2.prems" by (auto simp: dep_rel_def)
  ultimately have "(i, x) \<in> dep_rel dss ^^ (Suc (depths ! d))" by (rule relpow_Suc_I2 [rotated])
  then have "sound_depths dss (depths[i := depths ! d + 1])"
    using "2.prems" by (auto simp: sound_depths_def nth_list_update)
  with 2 show ?case by simp
qed simp

lemma relax_pass_sound:
  "i + length ess = length dss \<Longrightarrow> ess = drop i dss \<Longrightarrow> length (fst s) = length dss \<Longrightarrow>
     deps_in_range dss \<Longrightarrow> sound_depths dss (fst s) \<Longrightarrow> sound_depths dss (fst (relax_pass i ess s))"
proof (induction i ess s rule: relax_pass.induct)
  case (2 i ds ess s)
  have i: "i < length dss" using "2.prems"(1) by simp
  have ds: "ds = dss ! i" and ess: "ess = drop (Suc i) dss"
    using "2.prems"(2) i by (auto simp: Cons_nth_drop_Suc [symmetric])
  have "sound_depths dss (fst (relax_deps i ds s))"
    using relax_deps_sound [OF i "2.prems"(3,4) _ "2.prems"(5)] ds by simp
  then have "sound_depths dss (fst (relax_pass (Suc i) ess (relax_deps i ds s)))"
    using "2.IH" ess "2.prems"(1,3,4) by simp
  then show ?case by (simp only: relax_pass.simps)
qed simp

lemma relax_pass_lower_depths:
  assumes "lower_depths k dss depths" and "length depths = length dss" and "deps_in_range dss"
  shows "lower_depths (Suc k) dss (fst (relax_pass 0 dss (depths, ch)))"
  unfolding lower_depths_def
proof (intro allI impI)
  fix j m
  assume j: "j < length dss" and m: "m \<le> Suc k" and ex: "\<exists>x. (j, x) \<in> dep_rel dss ^^ m"
  show "m \<le> fst (relax_pass 0 dss (depths, ch)) ! j"
  proof (cases m)
    case (Suc m')
    with ex obtain d x where d: "(j, d) \<in> dep_rel dss" and x: "(d, x) \<in> dep_rel dss ^^ m'"
      by (metis relpow_Suc_D2)
    from d have "d \<in> set (dss ! j)" by (auto simp: dep_rel_def)
    moreover from this have "d < length dss" using assms(3) j by (auto simp: deps_in_range_def)
    ultimately have "m' \<le> depths ! d" and "depths ! d + 1 \<le> fst (relax_pass 0 dss (depths, ch)) ! j"
      using assms(1) x m Suc relax_pass_lower [of 0 dss "(depths, ch)" j d] j assms(2)
      by (auto simp: lower_depths_def)
    then show ?thesis using Suc by simp
  qed simp
qed

lemma acyclic_chain_bound:
  assumes ac: "acyclic (dep_rel dss)" and rng: "deps_in_range dss" and i: "i < length dss"
    and ch: "(i, x) \<in> dep_rel dss ^^ m"
  shows "m < length dss"
proof -
  from ch obtain f where f0: "f 0 = i" and fs: "\<And>k. k < m \<Longrightarrow> (f k, f (Suc k)) \<in> dep_rel dss"
    by (auto simp: relpow_fun_conv)
  have path: "(f a, f (Suc a + b)) \<in> (dep_rel dss)\<^sup>+" if "a + b < m" for a b
    using that
  proof (induction b)
    case 0
    then show ?case using fs [of a] by auto
  next
    case (Suc b)
    then show ?case using fs [of "Suc a + b"] by (auto intro: trancl_into_trancl)
  qed
  have "inj_on f {..m}"
  proof (rule linorder_inj_onI)
    fix a b
    assume ab: "a < b" "a \<in> {..m}" "b \<in> {..m}"
    then have "(f a, f b) \<in> (dep_rel dss)\<^sup>+" using path [of a "b - Suc a"] by simp
    then show "f a \<noteq> f b" using ac by (auto simp: acyclic_def)
  qed auto
  moreover have "f ` {..m} \<subseteq> {..<length dss}"
  proof
    fix y
    assume "y \<in> f ` {..m}"
    then obtain k where k: "k \<le> m" "y = f k" by auto
    show "y \<in> {..<length dss}"
    proof (cases k)
      case (Suc k')
      then show ?thesis using fs [of k'] k rng by (auto simp: dep_rel_def deps_in_range_def)
    qed (use k f0 i in auto)
  qed
  ultimately have "card {..m} \<le> card {..<length dss}" by (intro card_inj_on_le) auto
  then show ?thesis by simp
qed

definition depths_fixed :: "nat list list \<Rightarrow> nat list \<Rightarrow> bool" where
  "depths_fixed dss depths \<longleftrightarrow>
     (\<forall>i < length dss. \<forall>d \<in> set (dss ! i). depths ! d < depths ! i)"

lemma relax_passes_fixed:
  assumes ac: "acyclic (dep_rel dss)" and rng: "deps_in_range dss"
  shows "length depths = length dss \<Longrightarrow> sound_depths dss depths \<Longrightarrow> lower_depths p dss depths \<Longrightarrow>
     length dss \<le> p + k \<Longrightarrow> depths_fixed dss (relax_passes k dss depths) \<and>
       length (relax_passes k dss depths) = length dss"
proof (induction k arbitrary: depths p)
  case 0
  have "depths ! d < depths ! i" if i: "i < length dss" and d: "d \<in> set (dss ! i)" for i d
  proof -
    have "d < length dss" using rng i d by (auto simp: deps_in_range_def)
    with "0.prems" obtain x where "(d, x) \<in> dep_rel dss ^^ (depths ! d)"
      by (auto simp: sound_depths_def)
    then have c: "(i, x) \<in> dep_rel dss ^^ (Suc (depths ! d))"
      using i d by (intro relpow_Suc_I2 [of i d]) (auto simp: dep_rel_def)
    from acyclic_chain_bound [OF ac rng i c] have "Suc (depths ! d) \<le> p"
      using "0.prems"(4) by simp
    with "0.prems"(3) c i have "Suc (depths ! d) \<le> depths ! i"
      unfolding lower_depths_def by blast
    then show ?thesis by simp
  qed
  with "0.prems" show ?case by (simp add: depths_fixed_def)
next
  case (Suc k)
  obtain depths' ch where r: "relax_pass 0 dss (depths, False) = (depths', ch)"
    by (cases "relax_pass 0 dss (depths, False)")
  have len: "length depths' = length dss"
    using relax_pass_length [of 0 dss "(depths, False)"] r Suc.prems(1) by simp
  show ?case
  proof (cases ch)
    case True
    have "sound_depths dss depths'"
      using relax_pass_sound [of 0 dss dss "(depths, False)"] r Suc.prems rng by simp
    moreover have "lower_depths (Suc p) dss depths'"
      using relax_pass_lower_depths [OF Suc.prems(3,1) rng, of False] r by simp
    ultimately show ?thesis using Suc.IH [of depths' "Suc p"] Suc.prems(4) len r True by simp
  next
    case False
    with relax_pass_unchanged [of 0 dss "(depths, False)"] r len show ?thesis
      by (auto simp: depths_fixed_def Suc_le_eq)
  qed
qed

subsection \<open>The stages of a definition\<close>

lemma index_of_range: "hm_get (index_of steps) n = Some i \<Longrightarrow> i < length steps"
proof -
  have "hm_get (fold (\<lambda>(i, (n, _)) m. hm_insert n i m) ps m0) n = Some i \<Longrightarrow>
      hm_get m0 n = Some i \<or> i \<in> fst ` set ps" for ps :: "(nat \<times> string \<times> string list) list" and m0
  proof (induction ps arbitrary: m0)
    case (Cons p ps)
    obtain j n' ds where p: "p = (j, n', ds)" by (cases p)
    from Cons.IH [of "hm_insert n' j m0"] Cons.prems show ?case
      by (auto simp: p hm.get_ins split: if_splits)
  qed simp
  from this [of "enumerate 0 steps" "[]"]
  show "hm_get (index_of steps) n = Some i \<Longrightarrow> i < length steps"
    by (auto simp: index_of_def in_set_enumerate_eq)
qed

lemma resolved_deps_in_range: "deps_in_range (resolved_deps steps)"
  by (auto simp: deps_in_range_def resolved_deps_def List.map_filter_def dest: index_of_range)

lemma length_resolved_deps [simp]: "length (resolved_deps steps) = length steps"
  by (simp add: resolved_deps_def)

lemma stage_depths_fixed:
  assumes "acyclic (dep_rel (resolved_deps steps))"
  shows "depths_fixed (resolved_deps steps) (stage_depths steps) \<and>
    length (stage_depths steps) = length steps"
proof -
  have "sound_depths (resolved_deps steps) (replicate (length steps) 0)"
    by (auto simp: sound_depths_def)
  moreover have "lower_depths 0 (resolved_deps steps) (replicate (length steps) 0)"
    by (auto simp: lower_depths_def)
  ultimately show ?thesis
    using relax_passes_fixed [OF assms resolved_deps_in_range, of "replicate (length steps) 0" 0
        "length steps + 1"]
    by (simp add: stage_depths_def)
qed

lemma fold_max_ge: "x \<in> set xs \<Longrightarrow> x \<le> fold max xs (m :: nat)"
  and fold_max_init: "m \<le> fold max xs (m :: nat)"
proof -
  show init: "m \<le> fold max xs m" for m :: nat and xs
    by (induction xs arbitrary: m) (auto intro: order_trans [OF max.cobounded2])
  show "x \<in> set xs \<Longrightarrow> x \<le> fold max xs m"
  proof (induction xs arbitrary: m)
    case (Cons y ys)
    then show ?case using init [of "max x m" ys] by auto
  qed simp
qed

text \<open>A filtered map over an ascending range keeps the order of the depths it comes from.\<close>

lemma filter_map_upt_order:
  fixes f :: "nat \<Rightarrow> 'a" and k :: nat
  assumes "a < b" and "b < k" and "P (f a)" and "P (f b)"
  shows "\<exists>p q. p < q \<and> q < length (filter P (map f [0..<k])) \<and>
    filter P (map f [0..<k]) ! p = f a \<and> filter P (map f [0..<k]) ! q = f b"
proof -
  have split: "[0..<k] = [0..<a] @ a # [Suc a..<b] @ b # [Suc b..<k]"
  proof -
    have "[0..<k] = [0..<a] @ [a..<k]" using assms by (metis le_add1 less_imp_le less_trans upt_add_eq_append zero_le ordered_cancel_comm_monoid_diff_class.add_diff_inverse)
    also have "[a..<k] = a # [Suc a..<k]" using assms by (simp add: upt_conv_Cons)
    also have "[Suc a..<k] = [Suc a..<b] @ [b..<k]"
      using assms by (metis Suc_leI less_imp_le le_add_diff_inverse upt_add_eq_append)
    also have "[b..<k] = b # [Suc b..<k]" using assms by (simp add: upt_conv_Cons)
    finally show ?thesis by simp
  qed
  let ?A = "filter P (map f [0..<a])" and ?B = "filter P (map f [Suc a..<b])"
    and ?C = "filter P (map f [Suc b..<k])"
  have "filter P (map f [0..<k]) = ?A @ f a # ?B @ f b # ?C"
    unfolding split using assms by simp
  then show ?thesis
    by (intro exI [of _ "length ?A"] exI [of _ "length ?A + Suc (length ?B)"])
       (simp add: nth_append)
qed

lemma group_stages_ordered:
  assumes "acyclic (dep_rel (resolved_deps steps))"
  shows "\<Union> (set ` set (group_stages steps)) = {..<length steps} \<and>
    [] \<notin> set (group_stages steps) \<and>
    (\<forall>i < length steps. \<forall>d \<in> set (resolved_deps steps ! i).
       \<exists>p q. p < q \<and> q < length (group_stages steps) \<and>
         d \<in> set (group_stages steps ! p) \<and> i \<in> set (group_stages steps ! q))"
proof (intro conjI allI ballI impI)
  let ?ds = "stage_depths steps"
  let ?st = "\<lambda>d. filter (\<lambda>i. ?ds ! i = d) [0..<length ?ds]"
  let ?K = "Suc (fold max ?ds 0)"
  from stage_depths_fixed [OF assms] have fixd: "depths_fixed (resolved_deps steps) ?ds"
    and len: "length ?ds = length steps" by auto
  have bound: "?ds ! i < ?K" if "i < length steps" for i
    using fold_max_ge [of "?ds ! i" ?ds 0] that len by (simp add: less_Suc_eq_le)
  have eq: "group_stages steps = filter (\<lambda>stage. stage \<noteq> []) (map ?st [0..<?K])"
    by (simp add: group_stages_def stages_of_depths_def)
  show "[] \<notin> set (group_stages steps)" by (auto simp: eq)
  show "\<Union> (set ` set (group_stages steps)) = {..<length steps}"
  proof
    show "\<Union> (set ` set (group_stages steps)) \<subseteq> {..<length steps}"
      by (auto simp: eq len)
    show "{..<length steps} \<subseteq> \<Union> (set ` set (group_stages steps))"
    proof
      fix i
      assume "i \<in> {..<length steps}"
      then have i: "i < length steps" by simp
      then have "i \<in> set (?st (?ds ! i))" by (simp add: len)
      moreover have "?st (?ds ! i) \<in> set (group_stages steps)"
      proof -
        have "?st (?ds ! i) \<noteq> []" using calculation by (metis empty_iff empty_set)
        then show ?thesis
          unfolding eq set_filter set_map mem_Collect_eq
          using bound [OF i] by (intro conjI imageI) auto
      qed
      ultimately show "i \<in> \<Union> (set ` set (group_stages steps))" by blast
    qed
  qed
  fix i d
  assume i: "i < length steps" and d: "d \<in> set (resolved_deps steps ! i)"
  have dl: "d < length steps"
    using resolved_deps_in_range [of steps] i d by (auto simp: deps_in_range_def)
  have lt: "?ds ! d < ?ds ! i" using fixd i d by (auto simp: depths_fixed_def)
  have m: "d \<in> set (?st (?ds ! d))" "i \<in> set (?st (?ds ! i))" using i dl by (simp_all add: len)
  then have "?st (?ds ! d) \<noteq> []" "?st (?ds ! i) \<noteq> []" by (metis empty_iff empty_set)+
  from filter_map_upt_order [OF lt bound [OF i], of "\<lambda>stage. stage \<noteq> []" ?st, OF this] m
  show "\<exists>p q. p < q \<and> q < length (group_stages steps) \<and>
      d \<in> set (group_stages steps ! p) \<and> i \<in> set (group_stages steps ! q)"
    unfolding eq by metis
qed

text \<open>A definition whose step graph is accepted has an acyclic resolved graph.\<close>

abbreviation step_pairs :: "workflow_step list \<Rightarrow> (string \<times> string list) list" where
  "step_pairs steps \<equiv> map (\<lambda>s. (ws_name s, ws_depends_on s)) steps"

lemma find_append: "find P (xs @ ys) = (case find P xs of Some x \<Rightarrow> Some x | None \<Rightarrow> find P ys)"
  by (induction xs) auto

lemma fold_insert_get:
  "hm_get (fold (\<lambda>x m. hm_insert (f x) (g x) m) xs m) k
     = (case find (\<lambda>x. f x = k) (rev xs) of Some x \<Rightarrow> Some (g x) | None \<Rightarrow> hm_get m k)"
proof (induction xs arbitrary: m)
  case (Cons x xs)
  have "find (\<lambda>x. f x = k) (rev (x # xs))
      = (case find (\<lambda>x. f x = k) (rev xs) of Some y \<Rightarrow> Some y
         | None \<Rightarrow> if f x = k then Some x else None)"
    by (simp add: find_append split: option.splits)
  with Cons.IH show ?case by (simp add: hm.get_ins split: option.splits)
qed simp

text \<open>
  The index map and the edge map both keep the last step of a name, so from an index that the index
  map names the two graphs have the same edges.
\<close>

lemma index_of_last:
  assumes "hm_get (index_of (step_pairs steps)) n = Some i"
  shows "i < length steps \<and> ws_name (steps ! i) = n \<and>
    hm_get (collect_edges steps) n = Some (ws_depends_on (steps ! i))"
proof -
  let ?ps = "enumerate 0 (step_pairs steps)"
  have idx: "hm_get (index_of (step_pairs steps)) n
      = map_option fst (find (\<lambda>p. fst (snd p) = n) (rev ?ps))"
    unfolding index_of_def
    using fold_insert_get [of "\<lambda>p. fst (snd p)" fst ?ps "[]" n]
    by (simp add: case_prod_unfold split: option.splits)
  have edges: "hm_get (collect_edges steps) n
      = map_option ws_depends_on (find (\<lambda>s. ws_name s = n) (rev steps))"
    unfolding collect_edges_def
    using fold_insert_get [of ws_name ws_depends_on steps "[]" n] by (simp split: option.splits)
  have find_map: "find P (map f xs) = map_option f (find (P \<circ> f) xs)" for P and f :: "'a \<Rightarrow> 'b" and xs
    by (induction xs) auto
  have st: "steps = map (\<lambda>p. steps ! fst p) ?ps"
    by (intro nth_equalityI) (simp_all add: nth_enumerate_eq)
  have "find (\<lambda>s. ws_name s = n) (rev steps)
      = map_option (\<lambda>p. steps ! fst p) (find (\<lambda>p. ws_name (steps ! fst p) = n) (rev ?ps))"
    by (subst st) (simp add: rev_map find_map comp_def)
  moreover have "find (\<lambda>p. ws_name (steps ! fst p) = n) (rev ?ps)
      = find (\<lambda>p. fst (snd p) = n) (rev ?ps)"
    by (rule find_cong) (auto simp: in_set_enumerate_eq)
  ultimately have e2: "hm_get (collect_edges steps) n
      = map_option (\<lambda>i. ws_depends_on (steps ! i)) (hm_get (index_of (step_pairs steps)) n)"
    by (simp add: edges idx option.map_comp comp_def)
  from assms idx obtain p where p: "find (\<lambda>p. fst (snd p) = n) (rev ?ps) = Some p" "i = fst p"
    by auto
  then have "p \<in> set (rev ?ps)" "fst (snd p) = n"
    by (auto simp: find_Some_iff simp del: set_rev intro: nth_mem)
  then have "p \<in> set ?ps" by simp
  with p \<open>fst (snd p) = n\<close> e2 assms show ?thesis
    by (cases p) (auto simp: in_set_enumerate_eq)
qed

lemma built_resolved_acyclic:
  assumes "build_dag steps = Inr d"
  shows "acyclic (dep_rel (resolved_deps (step_pairs steps)))"
proof -
  let ?R = "dep_rel (resolved_deps (step_pairs steps))"
  let ?E = "dep_edges (collect_edges steps)"
  let ?last = "\<lambda>i. hm_get (index_of (step_pairs steps)) (ws_name (steps ! i)) = Some i"
  have edge: "?last y \<and> (?last x \<longrightarrow> (ws_name (steps ! x), ws_name (steps ! y)) \<in> ?E)"
    if "(x, y) \<in> ?R" for x y
  proof -
    from that obtain n where x: "x < length steps" and n: "n \<in> set (ws_depends_on (steps ! x))"
      and y: "hm_get (index_of (step_pairs steps)) n = Some y"
      by (auto simp: dep_rel_def resolved_deps_def List.map_filter_def)
    from index_of_last [OF y] n y index_of_last [of steps "ws_name (steps ! x)" x]
    show ?thesis by (auto simp: dep_edges_def deps_of_def)
  qed
  have path: "(x, y) \<in> ?R\<^sup>+ \<Longrightarrow> ?last x \<Longrightarrow>
      ?last y \<and> (ws_name (steps ! x), ws_name (steps ! y)) \<in> ?E\<^sup>+" for x y
    by (induction rule: trancl_induct) (use edge in \<open>auto intro: trancl_into_trancl\<close>)
  show ?thesis
  proof (rule acyclicI, rule allI, rule notI)
    fix x
    assume cyc: "(x, x) \<in> ?R\<^sup>+"
    then obtain z where "(z, x) \<in> ?R" by (metis tranclE)
    with edge have "?last x" by blast
    with path [OF cyc] build_dag_Inr(2,3) [OF assms] show False by (auto simp: acyclic_def)
  qed
qed

text \<open>
  On a definition whose graph was accepted the bounded relaxation reaches its fixed point: every step
  is in a stage, and a step's stage comes strictly after the stage of each of its dependencies.
\<close>

theorem group_stages_correct:
  assumes "build_dag steps = Inr d"
  shows "\<Union> (set ` set (group_stages (step_pairs steps))) = {..<length steps} \<and>
    [] \<notin> set (group_stages (step_pairs steps)) \<and>
    (\<forall>i < length steps. \<forall>j \<in> set (resolved_deps (step_pairs steps) ! i).
       \<exists>p q. p < q \<and> q < length (group_stages (step_pairs steps)) \<and>
         j \<in> set (group_stages (step_pairs steps) ! p) \<and>
         i \<in> set (group_stages (step_pairs steps) ! q))"
  using group_stages_ordered [OF built_resolved_acyclic [OF assms]] by simp

theorem group_stages_correct_witness:
  "group_stages (step_pairs example_steps) = [[2], [1], [0]] \<and> [2, 1, 0] \<noteq> ([] :: nat list) \<and>
   [] \<notin> set (group_stages (step_pairs example_steps))"
proof -
  have "[] \<notin> set (group_stages (step_pairs example_steps))"
    using group_stages_correct [OF example_dag] by blast
  moreover have "group_stages (step_pairs example_steps) = [[2], [1], [0]]"
    by code_simp
  ultimately show ?thesis by simp
qed

end
