(* ===== verification/Json.thy ===== *)
theory Json
  imports Strings
begin

text \<open>
  JSON values as the sources read them (\<open>serde_json::Value\<close>): an object is the list of its members,
  every key once. Reading the text of a value is the library's work and a parameter of the theories
  that need it; the accessors are here.
\<close>

datatype json = JNull | JBool bool | JInt int | JFloat | JStr string | JArr "json list"
  | JObj "(string \<times> json) list"

fun jget :: "string \<Rightarrow> json \<Rightarrow> json option" where
  "jget k (JObj ms) = map_of ms k"
| "jget k _ = None"

text \<open>\<open>value[key]\<close>: null when there is no such member.\<close>

definition jindex :: "json \<Rightarrow> string \<Rightarrow> json" where
  "jindex v k = (case jget k v of None \<Rightarrow> JNull | Some x \<Rightarrow> x)"

fun as_str :: "json \<Rightarrow> string option" where
  "as_str (JStr s) = Some s"
| "as_str _ = None"

fun as_bool :: "json \<Rightarrow> bool option" where
  "as_bool (JBool b) = Some b"
| "as_bool _ = None"

fun as_array :: "json \<Rightarrow> json list option" where
  "as_array (JArr vs) = Some vs"
| "as_array _ = None"

fun as_i64 :: "json \<Rightarrow> int option" where
  "as_i64 (JInt n) = (if - (2 ^ 63) \<le> n \<and> n < 2 ^ 63 then Some n else None)"
| "as_i64 _ = None"

definition get_str :: "string \<Rightarrow> json \<Rightarrow> string option" where
  "get_str k v = Option.bind (jget k v) as_str"

definition get_array :: "string \<Rightarrow> json \<Rightarrow> json list option" where
  "get_array k v = Option.bind (jget k v) as_array"

lemma map_of_size: "map_of ms k = Some v \<Longrightarrow> size v < size (JObj ms)"
proof -
  assume "map_of ms k = Some v"
  then have "(k, v) \<in> set ms" by (rule map_of_SomeD)
  then have "size v \<le> size_list (size_prod (\<lambda>_. 0) size) ms"
    by (intro size_list_estimation' [of "(k, v)"]) simp_all
  then show ?thesis by simp
qed

lemma jget_size: "jget k v = Some x \<Longrightarrow> size x < size v"
  using map_of_size by (cases v) auto

end
