(* ===== verification/Utf8.thy ===== *)
theory Utf8
  imports Strings
begin

text \<open>
  Strings as sequences of characters: \<open>chars\<close>, \<open>from_utf8_lossy\<close> and the character classes the
  sources use. A decoding step reads one character, or one maximal ill-formed part, as the standard
  library (and the Unicode standard, table 3-7) has it; a part becomes U+FFFD.
\<close>

subsection \<open>One decoding step\<close>

text \<open>The ranges of the continuation bytes that may follow a leading byte.\<close>

definition continuations :: "nat \<Rightarrow> (nat \<times> nat) list option" where
  "continuations b =
     (let any = (0x80, 0xBF) in
      if b < 0x80 then Some []
      else if 0xC2 \<le> b \<and> b \<le> 0xDF then Some [any]
      else if b = 0xE0 then Some [(0xA0, 0xBF), any]
      else if b = 0xED then Some [(0x80, 0x9F), any]
      else if 0xE1 \<le> b \<and> b \<le> 0xEF then Some [any, any]
      else if b = 0xF0 then Some [(0x90, 0xBF), any, any]
      else if 0xF1 \<le> b \<and> b \<le> 0xF3 then Some [any, any, any]
      else if b = 0xF4 then Some [(0x80, 0x8F), any, any]
      else None)"

fun scan_rest :: "(nat \<times> nat) list \<Rightarrow> string \<Rightarrow> nat \<times> bool" where
  "scan_rest [] s = (0, True)"
| "scan_rest (r # rs) [] = (0, False)"
| "scan_rest ((lo, hi) # rs) (c # cs) =
     (if lo \<le> of_char c \<and> of_char c \<le> hi
      then (case scan_rest rs cs of (n, ok) \<Rightarrow> (Suc n, ok)) else (0, False))"

text \<open>How many bytes after the first belong to the piece, and whether it is a character.\<close>

definition decode_step :: "char \<Rightarrow> string \<Rightarrow> nat \<times> bool" where
  "decode_step c cs =
     (case continuations (of_char c) of None \<Rightarrow> (0, False) | Some rs \<Rightarrow> scan_rest rs cs)"

lemma scan_rest_le: "fst (scan_rest rs s) \<le> length s"
  by (induction rs s rule: scan_rest.induct) (auto split: prod.splits)

lemma scan_rest_prefix:
  "scan_rest rs s = (n, True) \<Longrightarrow> scan_rest rs (take n s @ t) = (n, True)"
  by (induction rs s arbitrary: n rule: scan_rest.induct) (auto split: prod.splits if_splits)

lemma decode_step_le: "fst (decode_step c cs) \<le> length cs"
  using scan_rest_le by (auto simp: decode_step_def split: option.splits)

lemma decode_step_prefix:
  "decode_step c cs = (n, True) \<Longrightarrow> decode_step c (take n cs @ t) = (n, True)"
  using scan_rest_prefix by (auto simp: decode_step_def split: option.splits)

subsection \<open>Pieces\<close>

fun pieces :: "string \<Rightarrow> (string \<times> bool) list" where
  "pieces [] = []"
| "pieces (c # cs) =
     (c # take (fst (decode_step c cs)) cs, snd (decode_step c cs))
       # pieces (drop (fst (decode_step c cs)) cs)"

definition utf8_valid :: "string \<Rightarrow> bool" where
  "utf8_valid s \<longleftrightarrow> list_all snd (pieces s)"

definition utf8_chars :: "string \<Rightarrow> string list" where
  "utf8_chars s = map fst (pieces s)"

definition replacement_char :: string where
  "replacement_char = [CHR 0xEF, CHR 0xBF, CHR 0xBD]"

definition from_utf8_lossy :: "string \<Rightarrow> string" where
  "from_utf8_lossy s = concat (map (\<lambda>(p, ok). if ok then p else replacement_char) (pieces s))"

lemma concat_pieces: "concat (map fst (pieces s)) = s"
  by (induction s rule: pieces.induct) simp_all

text \<open>A single character: a piece that is one, alone.\<close>

definition is_char :: "string \<Rightarrow> bool" where
  "is_char p \<longleftrightarrow> (case p of [] \<Rightarrow> False | c # cs \<Rightarrow> decode_step c cs = (length cs, True))"

lemma pieces_char_append: "is_char p \<Longrightarrow> pieces (p @ t) = (p, True) # pieces t"
proof (cases p)
  case (Cons c cs)
  moreover assume "is_char p"
  ultimately have "decode_step c (cs @ t) = (length cs, True)"
    using decode_step_prefix [of c cs "length cs" t] by (simp add: is_char_def)
  then show ?thesis using Cons by simp
qed (simp add: is_char_def)

lemma pieces_chars: "\<forall>p \<in> set ps. is_char p \<Longrightarrow> pieces (concat ps) = map (\<lambda>p. (p, True)) ps"
  by (induction ps) (simp_all add: pieces_char_append)

lemma pieces_are_chars: "(p, True) \<in> set (pieces s) \<Longrightarrow> is_char p"
proof (induction s rule: pieces.induct)
  case (2 c cs)
  show ?case
  proof (cases "(p, True) \<in> set (pieces (drop (fst (decode_step c cs)) cs))")
    case False
    with 2(2) have p: "p = c # take (fst (decode_step c cs)) cs" "snd (decode_step c cs)" by auto
    then have "decode_step c cs = (fst (decode_step c cs), True)" by (metis prod.collapse)
    from decode_step_prefix [OF this, of "[]"] show ?thesis
      using p decode_step_le [of c cs] by (simp add: is_char_def min_absorb2)
  qed (rule 2(1))
qed simp

lemma replacement_is_char: "is_char replacement_char"
  by code_simp

lemma utf8_chars_valid: "utf8_valid s \<Longrightarrow> p \<in> set (utf8_chars s) \<Longrightarrow> is_char p"
  using pieces_are_chars unfolding utf8_valid_def utf8_chars_def list_all_iff by force

lemma utf8_chars_concat: "\<forall>p \<in> set ps. is_char p \<Longrightarrow> utf8_chars (concat ps) = ps"
  by (simp add: utf8_chars_def pieces_chars comp_def)

lemma utf8_valid_concat: "\<forall>p \<in> set ps. is_char p \<Longrightarrow> utf8_valid (concat ps)"
  by (simp add: utf8_valid_def pieces_chars list_all_iff)

lemma concat_utf8_chars [simp]: "concat (utf8_chars s) = s"
  by (simp add: utf8_chars_def concat_pieces)

lemma lossy_valid: "utf8_valid (from_utf8_lossy s)"
proof -
  let ?ps = "map (\<lambda>(p, ok). if ok then p else replacement_char) (pieces s)"
  have "\<forall>p \<in> set ?ps. is_char p"
    using pieces_are_chars replacement_is_char by auto
  then show ?thesis unfolding from_utf8_lossy_def by (rule utf8_valid_concat)
qed

lemma lossy_id: "utf8_valid s \<Longrightarrow> from_utf8_lossy s = s"
proof -
  assume "utf8_valid s"
  then have "map (\<lambda>(p, ok). if ok then p else replacement_char) (pieces s) = map fst (pieces s)"
    by (auto simp: utf8_valid_def list_all_iff)
  then show ?thesis by (simp only: from_utf8_lossy_def concat_pieces)
qed

subsection \<open>Character classes\<close>

text \<open>\<open>char::is_whitespace\<close> and \<open>char::is_control\<close> (U+0000-001F and U+007F-009F).\<close>

definition char_is_whitespace :: "string \<Rightarrow> bool" where
  "char_is_whitespace p \<longleftrightarrow> p \<in> set ws_chars"

definition char_is_control :: "string \<Rightarrow> bool" where
  "char_is_control p \<longleftrightarrow>
     (case p of
        [c] \<Rightarrow> of_char c < (0x20 :: nat) \<or> of_char c = (0x7F :: nat)
      | [c, d] \<Rightarrow> of_char c = (0xC2 :: nat) \<and> of_char d \<le> (0x9F :: nat)
      | _ \<Rightarrow> False)"

definition trim_chars :: "string list \<Rightarrow> string list" where
  "trim_chars ps = rev (dropWhile char_is_whitespace (rev (dropWhile char_is_whitespace ps)))"

lemma set_trim_chars: "set (trim_chars ps) \<subseteq> set ps"
  by (force simp: trim_chars_def dest: set_dropWhileD)

lemma continuations_high: "continuations b = Some rs \<Longrightarrow> list_all (\<lambda>(lo, hi). 0x80 \<le> lo) rs"
  by (auto simp: continuations_def Let_def split: if_splits)

lemma scan_rest_high:
  "list_all (\<lambda>(lo, hi). 0x80 \<le> lo) rs \<Longrightarrow> scan_rest rs s = (n, ok) \<Longrightarrow>
     \<forall>c \<in> set (take n s). 0x80 \<le> (of_char c :: nat)"
  by (induction rs s arbitrary: n ok rule: scan_rest.induct) (fastforce split: prod.splits if_splits)+

text \<open>An ASCII byte stands for itself: it is a character of its own or part of none.\<close>

lemma char_ascii:
  assumes p: "is_char p" and a: "a \<in> set p" "of_char a < (0x80 :: nat)"
  shows "p = [a]"
proof -
  obtain c cs where c: "p = c # cs" and d: "decode_step c cs = (length cs, True)"
    using p by (cases p) (auto simp: is_char_def)
  obtain rs where rs: "continuations (of_char c) = Some rs" "scan_rest rs cs = (length cs, True)"
    using d by (auto simp: decode_step_def split: option.splits)
  have "\<forall>b \<in> set cs. 0x80 \<le> (of_char b :: nat)"
    using scan_rest_high [OF continuations_high [OF rs(1)] rs(2)] by simp
  then have "a = c" using a by (auto simp: c)
  then have "continuations (of_char c) = Some []" using a by (simp add: continuations_def)
  then show ?thesis using rs by (simp add: c \<open>a = c\<close>)
qed

end
