(* ===== verification/Ci_Poll.thy ===== *)
theory Ci_Poll
  imports Json Utf8
begin

text \<open>
  \<open>src/engine/workflow/poll_ci.rs\<close> and \<open>src/data/ci_poll_event.rs\<close>: what the runs GitHub lists say about a
  commit, and the loop that asks until they say something. The requests themselves are the outside; a list
  of runs is a JSON value, normalised as the code normalises it.
\<close>

datatype ci_status = Ci_not_found | Ci_running | Ci_success | Ci_failed string

record ci_failure =
  cf_report :: string
  cf_failed_jobs :: "string list"

datatype ci_poll_event =
    Poll_attempt nat nat
  | Poll_passed
  | Poll_still_running
  | Poll_no_run_yet
  | Poll_failed string

datatype poll_error = Poll_container string | Poll_other string

subsection \<open>Runs\<close>

definition str_field :: "json \<Rightarrow> string \<Rightarrow> string" where
  "str_field v key = (case get_str key v of None \<Rightarrow> [] | Some s \<Rightarrow> s)"

fun as_u64 :: "json \<Rightarrow> nat option" where
  "as_u64 (JInt n) = (if 0 \<le> n \<and> n < 2 ^ 64 then Some (nat n) else None)"
| "as_u64 _ = None"

definition get_u64 :: "string \<Rightarrow> json \<Rightarrow> nat option" where
  "get_u64 key v = Option.bind (jget key v) as_u64"

definition u64_or_zero :: "string \<Rightarrow> json \<Rightarrow> nat" where
  "u64_or_zero key v = (case get_u64 key v of None \<Rightarrow> 0 | Some n \<Rightarrow> n)"

definition normalize_api_run :: "json \<Rightarrow> json" where
  "normalize_api_run r = JObj
     [(''id'', JInt (int (u64_or_zero ''id'' r))),
      (''workflowId'', JInt (int (u64_or_zero ''workflow_id'' r))),
      (''event'', JStr (str_field r ''event'')),
      (''status'', JStr (str_field r ''status'')),
      (''conclusion'', JStr (str_field r ''conclusion'')),
      (''name'', JStr (str_field r ''name'')),
      (''headSha'', JStr (str_field r ''head_sha'')),
      (''htmlUrl'', JStr (str_field r ''html_url''))]"

definition api_runs :: "json \<Rightarrow> (poll_error, json) result" where
  "api_runs json =
     (case get_array ''workflow_runs'' json of
        None \<Rightarrow> Inl (Poll_other ''poll_ci: unexpected GitHub API response structure'')
      | Some runs \<Rightarrow> Inr (JArr (map normalize_api_run runs)))"

definition is_failed_conclusion :: "string \<Rightarrow> bool" where
  "is_failed_conclusion c \<longleftrightarrow> c \<notin> {[], ''success'', ''skipped'', ''neutral''}"

definition run_workflow :: "json \<Rightarrow> string" where
  "run_workflow r =
     (case get_u64 ''workflowId'' r of
        Some n \<Rightarrow> if n \<noteq> 0 then dec_string n else str_field r ''name''
      | None \<Rightarrow> str_field r ''name'')"

definition run_id :: "json \<Rightarrow> nat" where
  "run_id r = u64_or_zero ''id'' r"

definition run_key :: "json \<Rightarrow> string \<times> string" where
  "run_key r = (run_workflow r, str_field r ''event'')"

text \<open>One turn of the loop over the runs: the slot of the same workflow and trigger, or a new one.\<close>

fun keep_latest :: "json \<Rightarrow> json list \<Rightarrow> json list" where
  "keep_latest run [] = [run]"
| "keep_latest run (l # ls) =
     (if run_key l = run_key run then (if run_id l < run_id run then run # ls else l # ls)
      else l # keep_latest run ls)"

definition latest_runs :: "json list \<Rightarrow> string \<Rightarrow> json list" where
  "latest_runs runs head_sha = fold keep_latest (filter (\<lambda>r. str_field r ''headSha'' = head_sha) runs) []"

text \<open>
  The other run must be another one; as its conclusion differs, it is.
\<close>

definition superseded_cancel :: "json list \<Rightarrow> json \<Rightarrow> bool" where
  "superseded_cancel latest r \<longleftrightarrow>
     str_field r ''conclusion'' = ''cancelled'' \<and>
     list_ex (\<lambda>other. run_workflow other = run_workflow r \<and> str_field other ''conclusion'' \<noteq> ''cancelled'') latest"

definition decisive_runs :: "json list \<Rightarrow> string \<Rightarrow> json list" where
  "decisive_runs runs head_sha =
     (let latest = latest_runs runs head_sha in filter (\<lambda>r. \<not> superseded_cancel latest r) latest)"

definition run_running :: "json \<Rightarrow> bool" where
  "run_running r \<longleftrightarrow> str_field r ''status'' \<noteq> ''completed''"

definition run_failed :: "json \<Rightarrow> bool" where
  "run_failed r \<longleftrightarrow> \<not> run_running r \<and> is_failed_conclusion (str_field r ''conclusion'')"

definition failed_runs :: "json \<Rightarrow> string \<Rightarrow> (nat \<times> string) list" where
  "failed_runs json head_sha =
     (let runs = (case as_array json of None \<Rightarrow> [] | Some vs \<Rightarrow> vs) in
      List.map_filter
        (\<lambda>r. case get_u64 ''id'' r of
              None \<Rightarrow> None
            | Some i \<Rightarrow> if i \<noteq> 0 then Some (i, str_field r ''name'') else None)
        (filter run_failed (decisive_runs runs head_sha)))"

definition failure_text :: "json \<Rightarrow> string" where
  "failure_text r =
     (let name = (if str_field r ''name'' = [] then ''unknown'' else str_field r ''name'');
          said = name @ '': '' @ str_field r ''conclusion''
      in if str_field r ''htmlUrl'' = [] then said else said @ '' ('' @ str_field r ''htmlUrl'' @ '')'')"

definition parse_run_list :: "json \<Rightarrow> string \<Rightarrow> (poll_error, ci_status) result" where
  "parse_run_list json head_sha =
     (case as_array json of
        None \<Rightarrow> Inl (Poll_other ''poll_ci: expected JSON array of runs'')
      | Some runs \<Rightarrow>
          (let decisive = decisive_runs runs head_sha in
           if decisive = [] then Inr Ci_not_found
           else (let failures = map failure_text (filter run_failed decisive) in
                 if failures \<noteq> [] then Inr (Ci_failed (join_str ''; '' failures))
                 else if list_ex run_running decisive then Inr Ci_running
                 else Inr Ci_success)))"

subsection \<open>The report about a failure\<close>

definition report_max_jobs :: nat where
  "report_max_jobs = 3"

definition report_log_tail_lines :: nat where
  "report_log_tail_lines = 150"

definition tail_lines :: "string \<Rightarrow> nat \<Rightarrow> string" where
  "tail_lines text n = (let ls = lines text in join_str [nl] (drop (length ls - n) ls))"

definition format_failed_job :: "json \<Rightarrow> string" where
  "format_failed_job job =
     (let failed_steps = (case get_array ''steps'' job of
            None \<Rightarrow> []
          | Some steps \<Rightarrow> map (\<lambda>s. str_field s ''name'')
              (filter (\<lambda>s. is_failed_conclusion (str_field s ''conclusion'')) steps))
      in ''Failed job: '' @ str_field job ''name'' @ '' ('' @ str_field job ''conclusion'' @ '')'' @ [nl]
         @ (if str_field job ''html_url'' \<noteq> [] then ''URL: '' @ str_field job ''html_url'' @ [nl] else [])
         @ (if failed_steps \<noteq> [] then ''Failed steps: '' @ join_str '', '' failed_steps @ [nl] else []))"

text \<open>
  What is fetched is the outside: \<open>jobs\<close> answers for a run, \<open>log\<close> for a job; an error is its text. The job
  list and the report are threaded through both loops.
\<close>

definition report_job ::
  "(nat \<Rightarrow> (string, string) result) \<Rightarrow> json \<Rightarrow> string \<times> string list \<Rightarrow> string \<times> string list" where
  "report_job log job acc =
     (case acc of (report, failed_jobs) \<Rightarrow>
        (let failed_jobs = failed_jobs @ [str_field job ''name''] in
         if report_max_jobs < length failed_jobs
         then (report @ ''Also failed: '' @ str_field job ''name'' @ [nl, nl], failed_jobs)
         else (report @ format_failed_job job
               @ (case get_u64 ''id'' job of
                    None \<Rightarrow> []
                  | Some i \<Rightarrow>
                      (case log i of
                         Inr text \<Rightarrow> ''Last '' @ dec_string report_log_tail_lines @ '' log lines:'' @ [nl]
                           @ tail_lines text report_log_tail_lines @ [nl]
                       | Inl e \<Rightarrow> ''Could not fetch the job log: '' @ e @ [nl]))
               @ [nl], failed_jobs)))"

definition report_run ::
  "(nat \<Rightarrow> (string, json) result) \<Rightarrow> (nat \<Rightarrow> (string, string) result) \<Rightarrow> nat \<times> string
     \<Rightarrow> string \<times> string list \<Rightarrow> string \<times> string list" where
  "report_run jobs log run acc =
     (case jobs (fst run) of
        Inl e \<Rightarrow> (fst acc @ ''Could not list jobs of run '' @ dec_string (fst run) @ '': '' @ e @ [nl], snd acc)
      | Inr json \<Rightarrow>
          fold (report_job log)
            (filter (\<lambda>j. is_failed_conclusion (str_field j ''conclusion''))
              (case get_array ''jobs'' json of None \<Rightarrow> [] | Some js \<Rightarrow> js))
            acc)"

definition ci_failure ::
  "(nat \<Rightarrow> (string, json) result) \<Rightarrow> (nat \<Rightarrow> (string, string) result) \<Rightarrow> (nat \<times> string) list \<Rightarrow> ci_failure" where
  "ci_failure jobs log runs =
     (case fold (report_run jobs log) runs ([], []) of (report, failed_jobs) \<Rightarrow>
        (let names = (if failed_jobs = [] then map snd runs else failed_jobs)
         in \<lparr>cf_report = report, cf_failed_jobs = remdups_adj (sort (filter (\<lambda>n. n \<noteq> []) names))\<rparr>))"

subsection \<open>The loop\<close>

text \<open>
  What a poll leaves: its result, the events it reported, and the seconds it slept. \<open>fetch n\<close> is the answer
  of the \<open>n\<close>-th request.
\<close>

record poll_trace =
  pt_result :: "(poll_error, unit) result"
  pt_events :: "ci_poll_event list"
  pt_slept :: nat
  pt_fetches :: nat

definition poll_end :: "(poll_error, unit) result \<Rightarrow> ci_poll_event list \<Rightarrow> nat \<Rightarrow> poll_trace" where
  "poll_end r evs n = \<lparr>pt_result = r, pt_events = evs, pt_slept = 0, pt_fetches = n\<rparr>"

definition poll_before :: "ci_poll_event list \<Rightarrow> nat \<Rightarrow> nat \<Rightarrow> poll_trace \<Rightarrow> poll_trace" where
  "poll_before evs slept n t =
     t\<lparr>pt_events := evs @ pt_events t, pt_slept := slept + pt_slept t, pt_fetches := n + pt_fetches t\<rparr>"

fun poll_from ::
  "(nat \<Rightarrow> (poll_error, ci_status) result) \<Rightarrow> nat \<Rightarrow> nat \<Rightarrow> nat \<Rightarrow> nat \<Rightarrow> poll_trace" where
  "poll_from fetch interval max_retries attempt 0 =
     poll_end (Inl (Poll_container ''poll_ci: CI did not complete within max_retries attempts'')) [] 0"
| "poll_from fetch interval max_retries attempt (Suc left) =
     (let ev = Poll_attempt attempt max_retries;
          again = (\<lambda>e. poll_before [ev, e] (if attempt < max_retries then interval else 0) 1
                     (poll_from fetch interval max_retries (Suc attempt) left))
      in case fetch attempt of
           Inl err \<Rightarrow> poll_end (Inl err) [ev] 1
         | Inr Ci_success \<Rightarrow> poll_end (Inr ()) [ev, Poll_passed] 1
         | Inr Ci_running \<Rightarrow> again Poll_still_running
         | Inr Ci_not_found \<Rightarrow>
             if attempt \<le> min 3 max_retries then again Poll_no_run_yet
             else poll_end (Inl (Poll_container ''poll_ci: no CI run found for this branch/commit'')) [ev] 1
         | Inr (Ci_failed detail) \<Rightarrow>
             poll_end (Inl (Poll_container (''poll_ci: CI failed: '' @ detail))) [ev, Poll_failed detail] 1)"

definition poll_with ::
  "(nat \<Rightarrow> (poll_error, ci_status) result) \<Rightarrow> nat \<Rightarrow> nat \<Rightarrow> poll_trace" where
  "poll_with fetch interval_secs max_retries = poll_from fetch interval_secs max_retries 1 max_retries"

subsection \<open>Which runs count\<close>

text \<open>The newest run of its workflow and trigger: among equally new ones the first that GitHub lists.\<close>

definition newest :: "json list \<Rightarrow> json \<Rightarrow> bool" where
  "newest xs r \<longleftrightarrow>
     (\<exists>ys zs. xs = ys @ r # zs \<and> (\<forall>y \<in> set ys. run_key y = run_key r \<longrightarrow> run_id y < run_id r) \<and>
        (\<forall>z \<in> set zs. run_key z = run_key r \<longrightarrow> run_id z \<le> run_id r))"

lemma newest_snoc:
  "newest (xs @ [r]) x \<longleftrightarrow>
     newest xs x \<and> \<not> (run_key x = run_key r \<and> run_id x < run_id r) \<or>
     x = r \<and> (\<forall>y \<in> set xs. run_key y = run_key r \<longrightarrow> run_id y < run_id r)"
proof
  assume "newest (xs @ [r]) x"
  then obtain ys zs where e: "xs @ [r] = ys @ x # zs"
    and y: "\<forall>y \<in> set ys. run_key y = run_key x \<longrightarrow> run_id y < run_id x"
    and z: "\<forall>z \<in> set zs. run_key z = run_key x \<longrightarrow> run_id z \<le> run_id x"
    unfolding newest_def by blast
  show "newest xs x \<and> \<not> (run_key x = run_key r \<and> run_id x < run_id r) \<or>
     x = r \<and> (\<forall>y \<in> set xs. run_key y = run_key r \<longrightarrow> run_id y < run_id r)"
  proof (cases zs rule: rev_cases)
    case Nil
    then show ?thesis using e y by simp
  next
    case (snoc zs' z')
    then have "xs = ys @ x # zs'" "z' = r" using e by simp_all
    then show ?thesis using y z snoc unfolding newest_def by auto
  qed
next
  assume "newest xs x \<and> \<not> (run_key x = run_key r \<and> run_id x < run_id r) \<or>
     x = r \<and> (\<forall>y \<in> set xs. run_key y = run_key r \<longrightarrow> run_id y < run_id r)"
  then show "newest (xs @ [r]) x"
  proof
    assume n: "newest xs x \<and> \<not> (run_key x = run_key r \<and> run_id x < run_id r)"
    then obtain ys zs where "xs = ys @ x # zs"
      "\<forall>y \<in> set ys. run_key y = run_key x \<longrightarrow> run_id y < run_id x"
      "\<forall>z \<in> set zs. run_key z = run_key x \<longrightarrow> run_id z \<le> run_id x"
      unfolding newest_def by blast
    then show ?thesis using n unfolding newest_def
      by (intro exI [of _ ys] exI [of _ "zs @ [r]"]) auto
  next
    assume "x = r \<and> (\<forall>y \<in> set xs. run_key y = run_key r \<longrightarrow> run_id y < run_id r)"
    then show ?thesis unfolding newest_def by (intro exI [of _ xs] exI [of _ "[]"]) simp
  qed
qed

lemma newest_mem: "newest xs r \<Longrightarrow> r \<in> set xs"
  by (auto simp: newest_def)

lemma newest_exists:
  "r \<in> set xs \<Longrightarrow> \<exists>l. newest xs l \<and> run_key l = run_key r \<and> run_id r \<le> run_id l"
proof (induction xs arbitrary: r rule: rev_induct)
  case (snoc x xs)
  show ?case
  proof (cases "\<exists>y \<in> set xs. run_key y = run_key x \<and> run_id x \<le> run_id y")
    case True
    then obtain l where l: "newest xs l" "run_key l = run_key x" "run_id x \<le> run_id l"
      using snoc.IH by (metis order_trans)
    show ?thesis
    proof (cases "r = x")
      case True
      then show ?thesis using l by (auto simp: newest_snoc)
    next
      case False
      then obtain k where k: "newest xs k" "run_key k = run_key r" "run_id r \<le> run_id k"
        using snoc by auto
      show ?thesis
      proof (cases "run_key k = run_key x \<and> run_id k < run_id x")
        case True
        then show ?thesis using k l by (intro exI [of _ l]) (simp add: newest_snoc)
      next
        case False
        then show ?thesis using k by (intro exI [of _ k]) (simp add: newest_snoc)
      qed
    qed
  next
    case nx: False
    then have x: "newest (xs @ [x]) x" by (auto simp: newest_snoc not_le)
    show ?thesis
    proof (cases "run_key r = run_key x")
      case True
      then have "run_id r \<le> run_id x" using nx snoc.prems by force
      then show ?thesis using x True by auto
    next
      case False
      then have "r \<in> set xs" using snoc.prems by auto
      then obtain k where "newest xs k" "run_key k = run_key r" "run_id r \<le> run_id k"
        using snoc.IH by blast
      then show ?thesis using False by (intro exI [of _ k]) (simp add: newest_snoc)
    qed
  qed
qed simp

lemma keep_latest_keys:
  "distinct (map run_key ls) \<Longrightarrow>
     distinct (map run_key (keep_latest r ls)) \<and> set (map run_key (keep_latest r ls)) = insert (run_key r) (set (map run_key ls))"
  by (induction ls) auto

lemma keep_latest_set:
  assumes "distinct (map run_key ls)"
  shows "x \<in> set (keep_latest r ls) \<longleftrightarrow>
    x \<in> set ls \<and> \<not> (run_key x = run_key r \<and> run_id x < run_id r) \<or>
    x = r \<and> (\<forall>y \<in> set ls. run_key y = run_key r \<longrightarrow> run_id y < run_id r)"
  using assms by (induction ls) (auto simp: image_iff)

lemma latest_newest:
  "distinct (map run_key (fold keep_latest xs [])) \<and> (\<forall>x. x \<in> set (fold keep_latest xs []) \<longleftrightarrow> newest xs x)"
proof (induction xs rule: rev_induct)
  case Nil
  then show ?case by (simp add: newest_def)
next
  case (snoc r xs)
  let ?L = "fold keep_latest xs []"
  have d: "distinct (map run_key ?L)" and m: "\<And>x. x \<in> set ?L \<longleftrightarrow> newest xs x" using snoc by auto
  have "(\<forall>y \<in> set ?L. run_key y = run_key r \<longrightarrow> run_id y < run_id r)
      \<longleftrightarrow> (\<forall>y \<in> set xs. run_key y = run_key r \<longrightarrow> run_id y < run_id r)"
    using m newest_mem newest_exists by (metis order_le_less_trans)
  then show ?case
    using keep_latest_keys [OF d] keep_latest_set [OF d] m by (simp add: newest_snoc)
qed

text \<open>A run counts unless it was cancelled and another run of its workflow was not.\<close>

definition runs_of :: "json list \<Rightarrow> string \<Rightarrow> json list" where
  "runs_of runs head_sha = filter (\<lambda>r. str_field r ''headSha'' = head_sha) runs"

definition counts :: "json list \<Rightarrow> string \<Rightarrow> json \<Rightarrow> bool" where
  "counts runs head_sha r \<longleftrightarrow>
     newest (runs_of runs head_sha) r \<and>
     \<not> (str_field r ''conclusion'' = ''cancelled'' \<and>
        (\<exists>r'. newest (runs_of runs head_sha) r' \<and> run_workflow r' = run_workflow r \<and>
           str_field r' ''conclusion'' \<noteq> ''cancelled''))"

lemma decisive_counts: "r \<in> set (decisive_runs runs sha) \<longleftrightarrow> counts runs sha r"
  using latest_newest [of "runs_of runs sha"]
  by (auto simp: decisive_runs_def latest_runs_def runs_of_def Let_def superseded_cancel_def list_ex_iff counts_def)

lemma decisive_nonempty:
  assumes "r \<in> set runs" and "str_field r ''headSha'' = sha"
  shows "\<exists>x. counts runs sha x"
proof -
  obtain l where l: "newest (runs_of runs sha) l"
    using newest_exists [of r "runs_of runs sha"] assms by (auto simp: runs_of_def)
  then show ?thesis unfolding counts_def by metis
qed

lemma counts_mem: "counts runs sha r \<Longrightarrow> r \<in> set runs \<and> str_field r ''headSha'' = sha"
  using newest_mem by (fastforce simp: counts_def runs_of_def)

text \<open>
  Property C39. The verdict on a commit: no run of it, or a run that counts failed, or none failed and one is
  still running, or all that count ended well. Of each pair of a workflow and the event that triggered it only the
  latest run on the commit counts; the latest runs of two events of one workflow both count. Runs of other commits,
  older runs of the same workflow and trigger, and cancelled duplicates never decide: a cancelled run does not count
  when the latest run of the same workflow under another trigger was not cancelled.
\<close>

theorem ci_verdict_correct:
  "\<exists>s. parse_run_list (JArr runs) sha = Inr s \<and>
     (s = Ci_not_found \<longleftrightarrow> sha \<notin> (\<lambda>r. str_field r ''headSha'') ` set runs) \<and>
     ((\<exists>d. s = Ci_failed d) \<longleftrightarrow> (\<exists>r. counts runs sha r \<and> run_failed r)) \<and>
     (s = Ci_running \<longleftrightarrow> (\<nexists>r. counts runs sha r \<and> run_failed r) \<and> (\<exists>r. counts runs sha r \<and> run_running r)) \<and>
     (s = Ci_success \<longleftrightarrow> (\<exists>r. counts runs sha r) \<and> (\<nexists>r. counts runs sha r \<and> (run_running r \<or> run_failed r)))"
proof -
  let ?D = "decisive_runs runs sha"
  have e: "?D = [] \<longleftrightarrow> (\<nexists>r. counts runs sha r)" using decisive_counts [of _ runs sha] by (metis list.set_intros(1) list.exhaust set_empty empty_iff)
  have n: "sha \<notin> (\<lambda>r. str_field r ''headSha'') ` set runs \<longleftrightarrow> (\<nexists>r. counts runs sha r)"
    using decisive_nonempty [of _ runs sha] counts_mem [of runs sha] unfolding image_iff by blast
  have f: "map failure_text (filter run_failed ?D) = [] \<longleftrightarrow> (\<nexists>r. counts runs sha r \<and> run_failed r)"
    using decisive_counts [of _ runs sha] by (auto simp: filter_empty_conv)
  have r: "list_ex run_running ?D \<longleftrightarrow> (\<exists>r. counts runs sha r \<and> run_running r)"
    using decisive_counts [of _ runs sha] by (auto simp: list_ex_iff)
  show ?thesis
  proof (cases "?D = []")
    case True
    then show ?thesis using e n by (auto simp: parse_run_list_def Let_def)
  next
    case D: False
    show ?thesis
    proof (cases "map failure_text (filter run_failed ?D) = []")
      case False
      then show ?thesis using D e n f by (simp add: parse_run_list_def Let_def) blast
    next
      case True
      then have "parse_run_list (JArr runs) sha = Inr (if list_ex run_running ?D then Ci_running else Ci_success)"
        using D by (simp add: parse_run_list_def Let_def)
      then show ?thesis using D e n f r True by (cases "list_ex run_running ?D") auto
    qed
  qed
qed

text \<open>A cancelled duplicate and an older failed run do not decide.\<close>

definition example_run :: "nat \<Rightarrow> string \<Rightarrow> string \<Rightarrow> string \<Rightarrow> json" where
  "example_run i w e c = normalize_api_run (JObj [(''id'', JInt (int i)), (''name'', JStr w), (''event'', JStr e),
     (''status'', JStr ''completed''), (''conclusion'', JStr c), (''head_sha'', JStr ''abc'')])"

lemma ci_verdict_example:
  "parse_run_list (JArr [example_run 4 ''CI'' ''push'' ''success'', example_run 3 ''CI'' ''push'' ''failure'',
      example_run 2 ''CI'' ''pull_request'' ''cancelled'']) ''abc'' = Inr Ci_success"
  by code_simp

subsection \<open>The loop ends\<close>

text \<open>An answer that ends the loop, and how it ends it.\<close>

definition poll_decides :: "(nat \<Rightarrow> (poll_error, ci_status) result) \<Rightarrow> nat \<Rightarrow> nat \<Rightarrow> bool" where
  "poll_decides fetch max_retries a \<longleftrightarrow>
     fetch a \<noteq> Inr Ci_running \<and> (fetch a = Inr Ci_not_found \<longrightarrow> \<not> a \<le> min 3 max_retries)"

definition poll_verdict :: "(poll_error, ci_status) result \<Rightarrow> (poll_error, unit) result" where
  "poll_verdict answer =
     (case answer of
        Inl err \<Rightarrow> Inl err
      | Inr Ci_success \<Rightarrow> Inr ()
      | Inr (Ci_failed detail) \<Rightarrow> Inl (Poll_container (''poll_ci: CI failed: '' @ detail))
      | Inr _ \<Rightarrow> Inl (Poll_container ''poll_ci: no CI run found for this branch/commit''))"

lemma poll_from_found:
  assumes "a \<le> b" "b < a + left" "a + left = Suc max_retries" "poll_decides fetch max_retries b"
    and "\<And>c. a \<le> c \<Longrightarrow> c < b \<Longrightarrow> \<not> poll_decides fetch max_retries c"
  shows "pt_result (poll_from fetch i max_retries a left) = poll_verdict (fetch b) \<and>
    pt_slept (poll_from fetch i max_retries a left) = i * (b - a) \<and>
    pt_fetches (poll_from fetch i max_retries a left) = Suc (b - a)"
  using assms
proof (induction left arbitrary: a)
  case (Suc left)
  show ?case
  proof (cases "a = b")
    case True
    then show ?thesis using Suc.prems(4)
      by (auto simp: poll_decides_def poll_verdict_def poll_end_def Let_def split: sum.splits ci_status.splits)
  next
    case False
    then have nd: "\<not> poll_decides fetch max_retries a" using Suc.prems(1,5) by simp
    have IH: "pt_result (poll_from fetch i max_retries (Suc a) left) = poll_verdict (fetch b)"
      "pt_slept (poll_from fetch i max_retries (Suc a) left) = i * (b - Suc a)"
      "pt_fetches (poll_from fetch i max_retries (Suc a) left) = Suc (b - Suc a)"
      using Suc.IH [of "Suc a"] Suc.prems False by simp_all
    have *: "poll_from fetch i max_retries a (Suc left)
        = poll_before [Poll_attempt a max_retries, if fetch a = Inr Ci_running then Poll_still_running else Poll_no_run_yet]
            i 1 (poll_from fetch i max_retries (Suc a) left)"
      using nd False Suc.prems(1-3) by (auto simp: poll_decides_def Let_def)
    have "b - a = Suc (b - Suc a)" using False Suc.prems(1) by simp
    then show ?thesis unfolding * using IH by (simp add: poll_before_def)
  qed
qed simp

lemma poll_from_none:
  assumes "a + left = Suc max_retries" and "\<And>c. a \<le> c \<Longrightarrow> c \<le> max_retries \<Longrightarrow> \<not> poll_decides fetch max_retries c"
  shows "pt_result (poll_from fetch i max_retries a left)
        = Inl (Poll_container ''poll_ci: CI did not complete within max_retries attempts'') \<and>
    pt_slept (poll_from fetch i max_retries a left) = i * (left - 1) \<and>
    pt_fetches (poll_from fetch i max_retries a left) = left"
  using assms
proof (induction left arbitrary: a)
  case (Suc left)
  have nd: "\<not> poll_decides fetch max_retries a" using Suc.prems by simp
  have IH: "pt_result (poll_from fetch i max_retries (Suc a) left)
        = Inl (Poll_container ''poll_ci: CI did not complete within max_retries attempts'')"
      "pt_slept (poll_from fetch i max_retries (Suc a) left) = i * (left - 1)"
      "pt_fetches (poll_from fetch i max_retries (Suc a) left) = left"
    using Suc.IH [of "Suc a"] Suc.prems by simp_all
  have *: "poll_from fetch i max_retries a (Suc left)
      = poll_before [Poll_attempt a max_retries, if fetch a = Inr Ci_running then Poll_still_running else Poll_no_run_yet]
          (if left = 0 then 0 else i) 1 (poll_from fetch i max_retries (Suc a) left)"
    using nd Suc.prems(1) by (auto simp: poll_decides_def Let_def)
  show ?case unfolding * using IH by (cases left) (simp_all add: poll_before_def)
qed (simp add: poll_end_def)

text \<open>
  Polling ends: with the first answer that decides, after as many requests and one interval of
  sleep between each; or, when none of the allowed requests decides, with the error that says so. It never
  sleeps behind its last request.
\<close>

theorem poll_ends:
  "case find (poll_decides fetch max_retries) [1..<Suc max_retries] of
     Some b \<Rightarrow>
       pt_result (poll_with fetch i max_retries) = poll_verdict (fetch b) \<and>
       pt_slept (poll_with fetch i max_retries) = i * (b - 1) \<and>
       pt_fetches (poll_with fetch i max_retries) = b
   | None \<Rightarrow>
       pt_result (poll_with fetch i max_retries)
         = Inl (Poll_container ''poll_ci: CI did not complete within max_retries attempts'') \<and>
       pt_slept (poll_with fetch i max_retries) = i * (max_retries - 1) \<and>
       pt_fetches (poll_with fetch i max_retries) = max_retries"
proof (cases "find (poll_decides fetch max_retries) [1..<Suc max_retries]")
  case None
  then have "\<not> poll_decides fetch max_retries c" if "1 \<le> c" "c \<le> max_retries" for c
    using that by (auto simp: find_None_iff)
  then show ?thesis using None poll_from_none [of 1 max_retries max_retries fetch i]
    by (simp add: poll_with_def)
next
  case (Some b)
  from Some [unfolded find_Some_iff] obtain k where
    l: "k < length [1..<Suc max_retries]" "poll_decides fetch max_retries ([1..<Suc max_retries] ! k)"
      "b = [1..<Suc max_retries] ! k" "\<forall>j < k. \<not> poll_decides fetch max_retries ([1..<Suc max_retries] ! j)"
    by blast
  have n: "[1..<Suc max_retries] ! j = Suc j" if "j \<le> k" for j
    using that l(1) by (simp del: upt_Suc)
  have k: "k < max_retries" "b = Suc k" "poll_decides fetch max_retries b"
    "\<And>j. j < k \<Longrightarrow> \<not> poll_decides fetch max_retries (Suc j)"
    using l n [of k] n by (simp_all del: upt_Suc)
  have "\<not> poll_decides fetch max_retries c" if "1 \<le> c" "c < b" for c
    using k(4) [of "c - 1"] k(2) that by simp
  then show ?thesis using Some k(1-3) poll_from_found [of 1 b max_retries max_retries fetch i]
    by (simp add: poll_with_def)
qed

end
