(* ===== verification/Workflow_Engine.thy ===== *)
theory Workflow_Engine
  imports Workflow_Stages Ci_Poll
begin

text \<open>
  The workflow engine, \<open>src/engine/workflow/mod.rs\<close>, \<open>queries.rs\<close>, \<open>actions.rs\<close> and \<open>factory.rs\<close>:
  its state, the outside world it talks to, and the questions every other part asks.

  An engine method is a function from the engine to an answer and the engine it leaves behind (a
  method that returns an error has still changed the engine). \<open>Waiting\<close> is the answer of a loop whose
  fuel ran out: the engine is still waiting for a container or a user.

  Everything outside the engine is the \<open>world\<close>: the frontend's answers, the agent factory, the state
  store, the containers, the clock and the cancellation token. Each observation of it happens at its
  own tick, so an arbitrary sequence of outside behaviour is a function of the tick; the token is
  the tick from which it has fired. Messages for the user are left out; reports, launches, kills
  and saved states are recorded in \<open>en_log\<close>, newest first.
\<close>

subsection \<open>Answers, actions and outcomes\<close>

datatype engine_error =
    DataErr data_error
  | EngineOther string
  | InvalidAdvanceAction string
  | UnsupportedWorkflowSchemaVersion nat nat
  | EngineResumeIncompatible string
  | ContainerError string

datatype 'a ran = Ok 'a | Err engine_error | Waiting

datatype next_action =
    LaunchNext
  | ContinueInCurrentContainer string
  | RestartCurrentStep
  | CancelToPreviousStep
  | FinishWorkflow
  | Pause
  | Abort
  | Dismiss
  | RetryFailedStep string

datatype yolo_tick_outcome = TickContinue | TickCancel | TickAdvanceNow

datatype countdown_kind = StuckStep | FailureRetry

datatype step_status =
    StepPending | StepRunning | StepSucceeded | StepFailed int | StepCancelled | StepSkipped

datatype workflow_outcome =
    Completed | Paused | Aborted | RunCancelled | RunFailed string int | CompletedTeardownFailed

datatype parallel_group_decision =
    RestartWholeGroup | RestartOneAgent | RestartStep string | CancelGroup | KeepRunning

datatype group_exit = GroupBack "string list" | GroupNext "string list"

datatype group_question =
    RestartScope "string list"
  | RestartWhich "(string \<times> step_state option) list"
  | CancelGroupQ "string list" group_exit

record step_failure_context =
  fc_step_name :: string
  fc_exit_code :: int
  fc_signal :: "int option"
  fc_previous_step :: "string option"
  fc_next_step :: "string option"

record simple_advance_info =
  sa_completed_step :: string
  sa_next_step :: string

record step_outcome =
  so_step_name :: string
  so_status :: step_status
  so_remaining :: nat

record step_progress =
  sp_name :: string
  sp_agent :: string
  sp_model :: "string option"
  sp_has_step_override :: bool
  sp_status :: step_status
  sp_depends_on :: "string list"
  sp_max_concurrent :: "nat option"

text \<open>
  \<open>AvailableActions\<close>. The explanations of why an action is unavailable are texts for the reader; they
  are left out, except that a board names the failure it is about.
\<close>

record available_actions =
  can_continue :: bool
  can_launch_next :: bool
  can_restart :: bool
  can_cancel_to_previous :: bool
  can_finish :: bool
  can_pause :: bool
  can_abort :: bool
  can_dismiss :: bool
  aa_continue_prompt :: "string option"
  parallel_peer_count :: nat
  parallel_peers_running :: nat
  aa_step_failure :: "step_failure_context option"
  focused_step :: "string option"
  aa_simple_advance :: "simple_advance_info option"
  retry_failed_step :: "string option"
  acts_on_parallel_group :: bool

definition no_actions :: available_actions where
  "no_actions = \<lparr>can_continue = False, can_launch_next = False, can_restart = False,
     can_cancel_to_previous = False, can_finish = False, can_pause = False, can_abort = False,
     can_dismiss = False, aa_continue_prompt = None, parallel_peer_count = 0,
     parallel_peers_running = 0, aa_step_failure = None, focused_step = None,
     aa_simple_advance = None, retry_failed_step = None, acts_on_parallel_group = False\<rparr>"

definition focused_step_label :: "available_actions \<Rightarrow> string" where
  "focused_step_label a = (case focused_step a of Some n \<Rightarrow> n | None \<Rightarrow> ''current step'')"

subsection \<open>Containers\<close>

record execution =
  ex_id :: string
  ex_name :: string
  ex_cancellable :: bool
  ex_has_tail :: bool

record exit_info =
  xi_exit_code :: int
  xi_signal :: "int option"
  xi_started_at :: nat
  xi_ended_at :: nat

definition killed_exit_code :: int where
  "killed_exit_code = 137"

text \<open>\<open>ActiveParallelStep\<close>; \<open>sl_cancel\<close> says whether the slot holds a cancel handle.\<close>

record slot =
  sl_step :: string
  sl_exec :: "execution option"
  sl_cancel :: bool
  sl_container :: string
  sl_handle :: string
  sl_has_tail :: bool
  sl_killed :: bool
  sl_stuck :: bool
  sl_deadline :: "nat option"
  sl_agent :: string
  sl_model :: "string option"
  sl_launch_id :: nat

datatype stuck_event = Stuck | Unstuck | StartupGraceExpired

datatype engine_request = OpenControlBoard string | ReqStepStuck string | ReqStepUnstuck string

type_synonym exit_result = "(engine_error, exit_info) result"

text \<open>What a \<open>select!\<close> finds ready besides the token; \<open>Idle\<close> is its timer, or nothing yet.\<close>

datatype step_event =
    Exited exit_result
  | WaitDropped
  | StuckEv stuck_event
  | Request engine_request
  | Idle

datatype group_event =
    GExited string nat exit_result
  | GStuck string stuck_event
  | GRequest engine_request
  | GTick

subsection \<open>The engine and the world\<close>

text \<open>
  What a setup or teardown step tells the frontend, and what is started for it: a command in its container,
  the file about a failure, an agent that is to repair it.
\<close>

datatype phase_event =
    Ph_skipped string
  | Ph_started string
  | Ph_completed string
  | Ph_failed string int string
  | Ph_fixing string nat nat
  | Ph_output string
  | Ph_command string
  | Ph_poll ci_poll_event
  | Ph_pull_request string
  | Ph_failure_file string string
  | Ph_agent string "string option" string

datatype effect =
    Eff_persist workflow_state
  | Eff_launching string "32 word" "string set"
  | Eff_step_status string step_status
  | Eff_progress "step_progress list"
  | Eff_outcome workflow_outcome
  | Eff_container_exited int
  | Eff_cancel_handle string
  | Eff_stop_agent string
  | Eff_failure_log string string int
  | Eff_countdown_started string countdown_kind
  | Eff_countdown_finished string
  | Eff_group_started "string list"
  | Eff_group_finished
  | Eff_parallel_launched string
  | Eff_parallel_dequeued string
  | Eff_parallel_exited string int
  | Eff_parallel_stuck string
  | Eff_parallel_unstuck string
  | Eff_parallel_countdown_started string
  | Eff_parallel_countdown_finished string
  | Eff_resume_warning "string list"
  | Eff_phase phase_kind nat phase_event

record engine =
  en_workflow :: workflow
  en_dag :: workflow_dag
  en_state :: workflow_state
  en_config_agent :: "string option"
  en_config_model :: "string option"
  en_active :: "slot list"
  en_max_concurrent :: "nat option"
  en_current_step :: "string option"
  en_last_identity :: "(string \<times> string option) option"
  en_current_agent :: "string option"
  en_current_model :: "string option"
  en_yolo :: bool
  en_abort_triggered :: bool
  en_last_exit :: "exit_info option"
  en_auth_retries :: "string set"
  en_auto_retried :: "string set"
  en_next_launch_id :: nat
  en_group_prompts :: bool
  en_tick :: nat
  en_log :: "effect list"

record world =
  wd_cancel_at :: "nat option"
  wd_now :: "nat \<Rightarrow> nat"
  wd_save :: "nat \<Rightarrow> (data_error, unit) result"
  wd_spawn :: "nat \<Rightarrow> string \<Rightarrow> (engine_error, execution) result"
  wd_inject :: "nat \<Rightarrow> string \<Rightarrow> (engine_error, bool) result"
  wd_recover_auth :: "nat \<Rightarrow> string \<Rightarrow> (engine_error, bool) result"
  wd_interactive :: bool
  wd_board :: "nat \<Rightarrow> workflow_state \<Rightarrow> available_actions \<Rightarrow> (engine_error, next_action) result"
  wd_ask :: "nat \<Rightarrow> group_question \<Rightarrow> (engine_error, parallel_group_decision) result"
  wd_event :: "nat \<Rightarrow> step_event"
  wd_group_event :: "nat \<Rightarrow> group_event"
  wd_finished :: "nat \<Rightarrow> exit_result option"
  wd_drained :: "nat \<Rightarrow> stuck_event list"
  wd_error_text :: "engine_error \<Rightarrow> string"
  wd_yolo_tick :: "nat \<Rightarrow> string \<Rightarrow> (engine_error, yolo_tick_outcome) result"

definition cancelled_by :: "world \<Rightarrow> nat \<Rightarrow> bool" where
  "cancelled_by w t = (case wd_cancel_at w of None \<Rightarrow> False | Some c \<Rightarrow> c \<le> t)"

subsection \<open>Engine methods\<close>

type_synonym 'a eng = "engine \<Rightarrow> 'a ran \<times> engine"

definition eret :: "'a \<Rightarrow> 'a eng" where
  "eret x e = (Ok x, e)"

definition efail :: "engine_error \<Rightarrow> 'a eng" where
  "efail r e = (Err r, e)"

definition ewait :: "'a eng" where
  "ewait e = (Waiting, e)"

definition ebind :: "'a eng \<Rightarrow> ('a \<Rightarrow> 'b eng) \<Rightarrow> 'b eng" where
  "ebind m k e =
     (case m e of
        (Ok x, e') \<Rightarrow> k x e'
      | (Err r, e') \<Rightarrow> (Err r, e')
      | (Waiting, e') \<Rightarrow> (Waiting, e'))"

fun eseq :: "unit eng list \<Rightarrow> unit eng" where
  "eseq [] = eret ()"
| "eseq (m # ms) = ebind m (\<lambda>_. eseq ms)"

definition eget :: "(engine \<Rightarrow> 'a) \<Rightarrow> 'a eng" where
  "eget f e = (Ok (f e), e)"

definition emod :: "(engine \<Rightarrow> engine) \<Rightarrow> unit eng" where
  "emod f e = (Ok (), f e)"

definition elift :: "(engine_error, 'a) result \<Rightarrow> 'a eng" where
  "elift r = (case r of Inl x \<Rightarrow> efail x | Inr y \<Rightarrow> eret y)"

definition observe :: "(nat \<Rightarrow> 'a) \<Rightarrow> 'a eng" where
  "observe f e = (Ok (f (en_tick e)), e\<lparr>en_tick := Suc (en_tick e)\<rparr>)"

definition ask :: "(nat \<Rightarrow> (engine_error, 'a) result) \<Rightarrow> 'a eng" where
  "ask f = ebind (observe f) elift"

definition eff :: "effect \<Rightarrow> unit eng" where
  "eff x = emod (\<lambda>e. e\<lparr>en_log := x # en_log e\<rparr>)"

definition set_step :: "world \<Rightarrow> string \<Rightarrow> step_state \<Rightarrow> unit eng" where
  "set_step w n s =
     emod (\<lambda>e. e\<lparr>en_state := set_status (wd_now w (en_tick e)) n s (en_state e)\<rparr>)"

definition cancel_requested :: "world \<Rightarrow> bool eng" where
  "cancel_requested w = observe (cancelled_by w)"

definition report_outcome :: "workflow_outcome \<Rightarrow> workflow_outcome eng" where
  "report_outcome wo = ebind (eff (Eff_outcome wo)) (\<lambda>_. eret wo)"

subsection \<open>Questions about the run (\<open>queries.rs\<close>)\<close>

definition agent_name_new :: "string \<Rightarrow> (data_error, string) result" where
  "agent_name_new n =
     (if n = [] then Inl (InvalidAgentName n ''must not be empty'')
      else if 64 < length n then Inl (InvalidAgentName n ''must be 64 characters or fewer'')
      else if \<not> list_all (\<lambda>c. is_ascii_alnum c \<or> c = CHR ''-'' \<or> c = CHR ''_'') n
      then Inl (InvalidAgentName n ''only ASCII alphanumerics, '-', and '_' are allowed'')
      else Inr n)"

definition data_result :: "(data_error, 'a) result \<Rightarrow> (engine_error, 'a) result" where
  "data_result r = (case r of Inl x \<Rightarrow> Inl (DataErr x) | Inr y \<Rightarrow> Inr y)"

definition find_step_in :: "workflow \<Rightarrow> string \<Rightarrow> (engine_error, workflow_step) result" where
  "find_step_in w n =
     (case find (\<lambda>s. ws_name s = n) (wf_steps w) of
        Some s \<Rightarrow> Inr s
      | None \<Rightarrow> Inl (EngineOther (''step '' @ [sq] @ n @ [sq] @ '' not found in workflow'')))"

definition find_step :: "string \<Rightarrow> workflow_step eng" where
  "find_step n = (\<lambda>e. elift (find_step_in (en_workflow e) n) e)"

definition ready_names :: "engine \<Rightarrow> string list" where
  "ready_names e = next_ready (en_state e) (en_dag e)"

definition next_ready_steps :: "engine \<Rightarrow> (engine_error, workflow_step list) result" where
  "next_ready_steps e = rmap (find_step_in (en_workflow e)) (ready_names e)"

definition next_ready_step :: "engine \<Rightarrow> (engine_error, workflow_step option) result" where
  "next_ready_step e =
     (case ready_names e of
        n # _ \<Rightarrow> rbind (find_step_in (en_workflow e) n) (\<lambda>s. Inr (Some s))
      | [] \<Rightarrow> Inr None)"

definition previous_step_name :: "engine \<Rightarrow> string option" where
  "previous_step_name e =
     (case en_current_step e of
        None \<Rightarrow> None
      | Some c \<Rightarrow>
          (let order = topological_order (en_dag e) in
           case position (\<lambda>n. n = c) order of
             None \<Rightarrow> None
           | Some 0 \<Rightarrow> None
           | Some (Suc i) \<Rightarrow> Some (order ! i)))"

definition dependencies_of :: "engine \<Rightarrow> string list \<Rightarrow> string list" where
  "dependencies_of e ns =
     (let deps = set (filter (\<lambda>d. d \<notin> set ns)
                   (concat (map ws_depends_on (filter (\<lambda>s. ws_name s \<in> set ns) (wf_steps (en_workflow e))))))
      in filter (\<lambda>n. n \<in> deps) (topological_order (en_dag e)))"

definition direct_dependents_of :: "engine \<Rightarrow> string list \<Rightarrow> string list" where
  "direct_dependents_of e ns =
     (let after = set (map ws_name
                    (filter (\<lambda>s. list_ex (\<lambda>d. d \<in> set ns) (ws_depends_on s))
                       (filter (\<lambda>s. ws_name s \<notin> set ns) (wf_steps (en_workflow e)))))
      in filter (\<lambda>n. n \<in> after) (topological_order (en_dag e)))"

definition dependents_next :: "workflow_step list \<Rightarrow> string set \<Rightarrow> string list" where
  "dependents_next steps reached =
     map ws_name (filter (\<lambda>s. list_ex (\<lambda>d. d \<in> reached) (ws_depends_on s))
                   (filter (\<lambda>s. ws_name s \<notin> reached) steps))"

function dependents_loop ::
  "workflow_step list \<Rightarrow> string set \<Rightarrow> string list \<Rightarrow> string list" where
  "dependents_loop steps reached out =
     (let next = dependents_next steps reached in
      if next = [] then out
      else dependents_loop steps (reached \<union> set next) (out @ next))"
  by auto

termination dependents_loop
proof (relation "measure (\<lambda>(steps, reached, _). card (set (map ws_name steps) - reached))", simp)
  fix steps :: "workflow_step list" and reached :: "string set" and out nxt :: "string list"
  assume nxt: "nxt = dependents_next steps reached" "nxt \<noteq> []"
  from nxt(2) have "\<exists>x. x \<in> set nxt" by (cases nxt) auto
  moreover have "set nxt \<subseteq> set (map ws_name steps) - reached"
    using nxt by (auto simp: dependents_next_def)
  ultimately have "set (map ws_name steps) - (reached \<union> set nxt) \<subset> set (map ws_name steps) - reached"
    by auto
  then have "card (set (map ws_name steps) - (reached \<union> set nxt)) < card (set (map ws_name steps) - reached)"
    by (intro psubset_card_mono) auto
  then show "((steps, reached \<union> set nxt, out @ nxt), steps, reached, out)
     \<in> measure (\<lambda>(steps, reached, _). card (set (map ws_name steps) - reached))"
    by simp
qed

definition dependents_of :: "engine \<Rightarrow> string list \<Rightarrow> string list" where
  "dependents_of e roots = dependents_loop (wf_steps (en_workflow e)) (set roots) []"

definition is_last_step :: "engine \<Rightarrow> bool" where
  "is_last_step e =
     (case en_current_step e of
        None \<Rightarrow> False
      | Some c \<Rightarrow>
          (case topological_order (en_dag e) of [] \<Rightarrow> False | ns \<Rightarrow> last ns = c))"

definition resolve_agent :: "engine \<Rightarrow> workflow_step \<Rightarrow> (engine_error, string) result" where
  "resolve_agent e s =
     (case ws_agent s of
        Some n \<Rightarrow> data_result (agent_name_new n)
      | None \<Rightarrow>
          (case wf_agent (en_workflow e) of
             Some n \<Rightarrow> data_result (agent_name_new n)
           | None \<Rightarrow>
               (case en_config_agent e of
                  Some n \<Rightarrow> data_result (agent_name_new n)
                | None \<Rightarrow> Inl (EngineOther
                    ''no agent resolved for step (no step, workflow, or config default)''))))"

definition resolve_model :: "engine \<Rightarrow> workflow_step \<Rightarrow> string option" where
  "resolve_model e s =
     (case ws_model s of
        Some m \<Rightarrow> Some m
      | None \<Rightarrow> (case wf_model (en_workflow e) of Some m \<Rightarrow> Some m | None \<Rightarrow> en_config_model e))"

fun progress_status :: "step_state option \<Rightarrow> step_status" where
  "progress_status None = StepPending"
| "progress_status (Some Pending) = StepPending"
| "progress_status (Some (Running _)) = StepRunning"
| "progress_status (Some Succeeded) = StepSucceeded"
| "progress_status (Some (Failed c _)) = StepFailed c"
| "progress_status (Some Cancelled) = StepCancelled"
| "progress_status (Some Skipped) = StepSkipped"

definition workflow_progress_info :: "engine \<Rightarrow> step_progress list" where
  "workflow_progress_info e =
     map (\<lambda>s. \<lparr>sp_name = ws_name s,
                sp_agent = (case resolve_agent e s of Inl _ \<Rightarrow> ''?'' | Inr a \<Rightarrow> a),
                sp_model = resolve_model e s,
                sp_has_step_override = (ws_agent s \<noteq> None \<or> ws_model s \<noteq> None),
                sp_status = progress_status (status_of (en_state e) (ws_name s)),
                sp_depends_on = ws_depends_on s,
                sp_max_concurrent = en_max_concurrent e\<rparr>)
       (wf_steps (en_workflow e))"

definition report_progress :: "unit eng" where
  "report_progress e = eff (Eff_progress (workflow_progress_info e)) e"

definition persist :: "world \<Rightarrow> unit eng" where
  "persist w =
     ebind (observe (wd_save w)) (\<lambda>r. case r of
       Inl x \<Rightarrow> efail (DataErr x)
     | Inr _ \<Rightarrow> (\<lambda>e. eff (Eff_persist (en_state e)) e))"

definition mark_done :: "world \<Rightarrow> unit eng" where
  "mark_done w =
     eseq [emod (\<lambda>e. e\<lparr>en_state := (en_state e)\<lparr>current_phase := DonePhase\<rparr>\<rparr>), persist w]"

subsection \<open>Cancelling a run (\<open>mod.rs\<close>)\<close>

definition slot_of :: "engine \<Rightarrow> string \<Rightarrow> slot option" where
  "slot_of e n = find (\<lambda>s. sl_step s = n) (en_active e)"

fun update_first :: "('a \<Rightarrow> bool) \<Rightarrow> ('a \<Rightarrow> 'a) \<Rightarrow> 'a list \<Rightarrow> 'a list" where
  "update_first P f [] = []"
| "update_first P f (x # xs) = (if P x then f x # xs else x # update_first P f xs)"

definition update_slot :: "string \<Rightarrow> (slot \<Rightarrow> slot) \<Rightarrow> unit eng" where
  "update_slot n f =
     emod (\<lambda>e. e\<lparr>en_active := update_first (\<lambda>s. sl_step s = n) f (en_active e)\<rparr>)"

definition maybe_dump_step_failure :: "string \<Rightarrow> int \<Rightarrow> unit eng" where
  "maybe_dump_step_failure n code =
     (if code = 0 then eret ()
      else (\<lambda>e. case slot_of e n of
                  Some s \<Rightarrow>
                    if \<not> sl_killed s \<and> sl_has_tail s
                    then eff (Eff_failure_log n (sl_container s) code) e else eret () e
                | None \<Rightarrow> eret () e))"

definition update_focused :: "(slot \<Rightarrow> slot) \<Rightarrow> unit eng" where
  "update_focused f =
     emod (\<lambda>e. e\<lparr>en_active := (case en_active e of [] \<Rightarrow> [] | s # ss \<Rightarrow> f s # ss)\<rparr>)"

definition mark_focused_killed :: "unit eng" where
  "mark_focused_killed = update_focused (\<lambda>s. s\<lparr>sl_killed := True\<rparr>)"

definition focused_execution :: "engine \<Rightarrow> execution option" where
  "focused_execution e = (case en_active e of [] \<Rightarrow> None | s # _ \<Rightarrow> sl_exec s)"

definition set_focused_execution :: "execution \<Rightarrow> unit eng" where
  "set_focused_execution x = update_focused (\<lambda>s. s\<lparr>sl_exec := Some x\<rparr>)"

definition take_focused_execution :: "unit eng" where
  "take_focused_execution = update_focused (\<lambda>s. s\<lparr>sl_exec := None\<rparr>)"

text \<open>The calls that stop one container: its cancel handle, else its execution; then the runtime.\<close>

definition stop_slot_effects :: "slot \<Rightarrow> effect list" where
  "stop_slot_effects s =
     (if sl_cancel s \<or> sl_exec s \<noteq> None then [Eff_cancel_handle (sl_container s)] else []) @
     (if sl_deadline s \<noteq> None then [Eff_parallel_countdown_finished (sl_step s)] else []) @
     [Eff_stop_agent (sl_handle s)]"

definition stop_active_agents :: "unit eng" where
  "stop_active_agents =
     emod (\<lambda>e. e\<lparr>en_active := [],
                 en_log := rev (concat (map stop_slot_effects (en_active e))) @ en_log e\<rparr>)"

definition unfinished :: "engine \<Rightarrow> string list" where
  "unfinished e = filter (\<lambda>n. n \<notin> completed_steps (en_state e)) (map ws_name (wf_steps (en_workflow e)))"

text \<open>The loop that gives every step not in \<open>completed_steps\<close> one status, in definition order.\<close>

fun mark_unfinished :: "world \<Rightarrow> step_state \<Rightarrow> string list \<Rightarrow> unit eng" where
  "mark_unfinished w s [] = eret ()"
| "mark_unfinished w s (n # ns) =
     ebind (eget (\<lambda>e. n \<in> completed_steps (en_state e))) (\<lambda>done.
       if done then mark_unfinished w s ns
       else ebind (set_step w n s) (\<lambda>_. mark_unfinished w s ns))"

definition mark_all_unfinished :: "world \<Rightarrow> step_state \<Rightarrow> unit eng" where
  "mark_all_unfinished w s =
     (\<lambda>e. mark_unfinished w s (map ws_name (wf_steps (en_workflow e))) e)"

definition stamp_cancelled :: "world \<Rightarrow> unit eng" where
  "stamp_cancelled w =
     emod (\<lambda>e. if cancelled_at (en_state e) = None
                then e\<lparr>en_state := (en_state e)\<lparr>cancelled_at := Some (wd_now w (en_tick e))\<rparr>\<rparr> else e)"

definition cancel_run :: "world \<Rightarrow> workflow_outcome eng" where
  "cancel_run w =
     ebind (eseq [stop_active_agents,
                  emod (\<lambda>e. e\<lparr>en_abort_triggered := False\<rparr>),
                  mark_all_unfinished w Cancelled,
                  stamp_cancelled w,
                  persist w]) (\<lambda>_. report_outcome RunCancelled)"

subsection \<open>Failed credentials (\<open>parallel.rs\<close>)\<close>

definition recover_auth_failure :: "world \<Rightarrow> string \<Rightarrow> bool eng" where
  "recover_auth_failure w n =
     (\<lambda>e. if n \<in> en_auth_retries e then eret False e
          else (case slot_of e n of
                  None \<Rightarrow> eret False e
                | Some s \<Rightarrow>
                    ebind (ask (\<lambda>t. wd_recover_auth w t (sl_agent s))) (\<lambda>ok.
                      if ok then ebind (emod (\<lambda>e. e\<lparr>en_auth_retries := insert n (en_auth_retries e)\<rparr>))
                                   (\<lambda>_. eret True)
                      else eret False) e))"

end
