(* ===== verification/Workflow_Step.thy ===== *)
theory Workflow_Step
  imports Workflow_Engine
begin

text \<open>
  Launching one step and recording how it ended: the first half of
  \<open>src/engine/workflow/single_step.rs\<close>. A launch is logged with the completed set it happened in
  (\<open>Eff_launching\<close>), so that what was finished at each launch stays visible.
\<close>

subsection \<open>Attribution of a container's events\<close>

record event_source =
  ev_step_name :: string
  ev_step_index :: "nat option"
  ev_step_attempt :: "32 word"

definition main_step_source :: "engine \<Rightarrow> string \<Rightarrow> 32 word \<Rightarrow> event_source" where
  "main_step_source e n attempt =
     \<lparr>ev_step_name = n, ev_step_index = step_index (en_state e) n, ev_step_attempt = attempt\<rparr>"

text \<open>\<open>PreparedStepLaunch\<close> with the fields of \<open>WorkflowRuntimeContext\<close> the engine computes.\<close>

record prepared_launch =
  pl_agent :: string
  pl_model :: "string option"
  pl_invocation :: nat
  pl_source :: event_source
  pl_attempt :: "32 word"

definition record_launch :: "string \<Rightarrow> (32 word) eng" where
  "record_launch n =
     (\<lambda>e. case record_step_launch n (en_state e) of
            (st, attempt) \<Rightarrow> (Ok attempt, e\<lparr>en_state := st\<rparr>))"

definition prepare_step_launch :: "workflow_step \<Rightarrow> prepared_launch eng" where
  "prepare_step_launch s =
     ebind (\<lambda>e. elift (resolve_agent e s) e) (\<lambda>agent.
     ebind (eget (\<lambda>e. resolve_model e s)) (\<lambda>model.
     ebind (record_launch (ws_name s)) (\<lambda>attempt.
     eget (\<lambda>e. \<lparr>pl_agent = agent, pl_model = model,
                pl_invocation = invocation_id (en_state e),
                pl_source = main_step_source e (ws_name s) attempt,
                pl_attempt = attempt\<rparr>))))"

text \<open>
  A saved state whose save failed is only logged by the source on the failure path:
  \<open>persist_or_log\<close> forgets that error.
\<close>

definition persist_or_log :: "world \<Rightarrow> unit eng" where
  "persist_or_log w = (\<lambda>e. case persist w e of (_, e') \<Rightarrow> (Ok (), e'))"

definition spawn_failed :: "world \<Rightarrow> workflow_step \<Rightarrow> engine_error \<Rightarrow> execution eng" where
  "spawn_failed w s err =
     ebind (eseq [set_step w (ws_name s) (Failed (- 1) (Some (wd_error_text w err))),
                  persist_or_log w]) (\<lambda>_. efail err)"

definition spawn_prepared_step :: "world \<Rightarrow> workflow_step \<Rightarrow> prepared_launch \<Rightarrow> execution eng" where
  "spawn_prepared_step w s p =
     ebind (eseq [set_step w (ws_name s) (Running None), persist w]) (\<lambda>_.
     ebind (observe (\<lambda>t. wd_spawn w t (ws_name s))) (\<lambda>r.
       case r of
         Inl err \<Rightarrow> spawn_failed w s err
       | Inr x \<Rightarrow>
           ebind (eseq [set_step w (ws_name s) (Running (Some (ex_id x))),
                        emod (\<lambda>e. e\<lparr>en_state := record_step_container (ws_name s) (ex_name x) (en_state e)\<rparr>),
                        persist w,
                        emod (\<lambda>e. e\<lparr>en_last_identity := Some (pl_agent p, pl_model p)\<rparr>)])
             (\<lambda>_. eret x)))"

definition report_launching :: "workflow_step \<Rightarrow> prepared_launch \<Rightarrow> unit eng" where
  "report_launching s p =
     eseq [\<lambda>e. eff (Eff_launching (ws_name s) (pl_attempt p) (completed_steps (en_state e))) e,
           eff (Eff_step_status (ws_name s) StepRunning)]"

definition report_spawn_failed :: "workflow_step \<Rightarrow> unit eng" where
  "report_spawn_failed s =
     (\<lambda>e. case status_of (en_state e) (ws_name s) of
            Some (Failed _ _) \<Rightarrow> eff (Eff_step_status (ws_name s) (StepFailed (- 1))) e
          | _ \<Rightarrow> eret () e)"

text \<open>\<open>catch m h\<close> runs \<open>h\<close> on an error of \<open>m\<close> and then returns that error (the source's \<open>Err\<close> arm).\<close>

definition on_error :: "'a eng \<Rightarrow> unit eng \<Rightarrow> 'a eng" where
  "on_error m h =
     (\<lambda>e. case m e of
            (Err r, e') \<Rightarrow> ebind h (\<lambda>_. efail r) e'
          | other \<Rightarrow> other)"

definition new_slot :: "workflow_step \<Rightarrow> execution \<Rightarrow> prepared_launch \<Rightarrow> slot" where
  "new_slot s x p =
     \<lparr>sl_step = ws_name s, sl_exec = Some x, sl_cancel = False, sl_container = ex_name x,
      sl_handle = ex_id x, sl_has_tail = ex_has_tail x, sl_killed = False, sl_stuck = False,
      sl_deadline = None, sl_agent = pl_agent p, sl_model = pl_model p, sl_launch_id = 0\<rparr>"

definition focus_launched :: "workflow_step \<Rightarrow> execution \<Rightarrow> prepared_launch \<Rightarrow> unit eng" where
  "focus_launched s x p =
     emod (\<lambda>e. e\<lparr>en_active := [new_slot s x p], en_current_step := Some (ws_name s),
                en_current_agent := Some (pl_agent p), en_current_model := pl_model p\<rparr>)"

definition launch_step :: "world \<Rightarrow> string eng" where
  "launch_step w =
     ebind (eget ready_names) (\<lambda>ready.
       case ready of
         [] \<Rightarrow> efail (InvalidAdvanceAction ''no ready steps remaining'')
       | n # _ \<Rightarrow>
           ebind (find_step n) (\<lambda>s.
           ebind (prepare_step_launch s) (\<lambda>p.
           ebind (report_launching s p) (\<lambda>_.
           ebind (on_error (spawn_prepared_step w s p) (report_spawn_failed s)) (\<lambda>x.
           ebind (focus_launched s x p) (\<lambda>_. eret (ws_name s)))))))"

subsection \<open>The end of a container\<close>

definition remaining_steps :: "engine \<Rightarrow> nat" where
  "remaining_steps e = length (unfinished e)"

definition finalize_step :: "world \<Rightarrow> string \<Rightarrow> exit_info \<Rightarrow> step_outcome eng" where
  "finalize_step w n x =
     (let code = xi_exit_code x;
          status = (if code = 0 then StepSucceeded else StepFailed code);
          state = (if code = 0 then Succeeded else Failed code None)
      in
      ebind (eseq [emod (\<lambda>e. e\<lparr>en_last_exit := Some x\<rparr>),
                   eff (Eff_container_exited code),
                   maybe_dump_step_failure n code]) (\<lambda>_.
      ebind (find_step n) (\<lambda>s.
      ebind (eseq [set_step w n state, eff (Eff_step_status (ws_name s) status), persist w]) (\<lambda>_.
      eget (\<lambda>e. \<lparr>so_step_name = n, so_status = status, so_remaining = remaining_steps e\<rparr>)))))"

definition finalize_result :: "world \<Rightarrow> string \<Rightarrow> exit_result \<Rightarrow> step_outcome eng" where
  "finalize_result w n r = ebind (elift r) (finalize_step w n)"

text \<open>\<open>cancel_handle\<close> is the handle the launched execution gave out, if it has one.\<close>

definition kill_current_container :: "execution option \<Rightarrow> unit eng" where
  "kill_current_container handle =
     eseq [mark_focused_killed,
           case handle of
             Some x \<Rightarrow> eseq [eff (Eff_cancel_handle (ex_name x)), eff (Eff_container_exited killed_exit_code)]
           | None \<Rightarrow> eret ()]"

text \<open>\<open>step_once\<close>: the wait is one observation of the container.\<close>

definition step_once :: "world \<Rightarrow> step_outcome eng" where
  "step_once w =
     ebind (launch_step w) (\<lambda>n.
     ebind (observe (wd_finished w)) (\<lambda>r.
       case r of
         None \<Rightarrow> ewait
       | Some x \<Rightarrow> finalize_result w n x))"

end
