(* ===== verification/Workflow_Control.thy ===== *)
theory Workflow_Control
  imports Workflow_Step
begin

text \<open>
  The Workflow Control Board, \<open>src/engine/workflow/control.rs\<close>: what it offers and what each answer
  does. The two loops that ask again (the failure board, the retry countdown) take fuel; each turn
  is one observation of the world.
\<close>

subsection \<open>What a board offers\<close>

definition workflow_can_finish :: "engine \<Rightarrow> bool" where
  "workflow_can_finish e \<longleftrightarrow> is_last_step e \<or> is_complete (en_state e)"

definition running_step_name :: "engine \<Rightarrow> string option" where
  "running_step_name e =
     (case find (\<lambda>(_, s). is_running s) (step_states (en_state e)) of
        Some (n, _) \<Rightarrow> Some n | None \<Rightarrow> None)"

definition simple_advance :: "engine \<Rightarrow> available_actions \<Rightarrow> simple_advance_info option" where
  "simple_advance e a =
     (if \<not> can_launch_next a \<or> can_dismiss a then None
      else if list_ex is_failed (hm_values (step_states (en_state e))) then None
      else (case filter (\<lambda>(_, s). s = Pending) (step_states (en_state e)) of
              [(n, _)] \<Rightarrow> Some \<lparr>sa_completed_step = focused_step_label a, sa_next_step = n\<rparr>
            | _ \<Rightarrow> None))"

definition continue_actions ::
  "engine \<Rightarrow> workflow_step option \<Rightarrow> available_actions \<Rightarrow> (engine_error, available_actions) result" where
  "continue_actions e nxt a =
     (case nxt of
        None \<Rightarrow> Inr a
      | Some s \<Rightarrow>
          rbind (resolve_agent e s) (\<lambda>agent.
            if en_current_agent e = Some agent \<and> en_current_model e = resolve_model e s
               \<and> focused_execution e \<noteq> None
            then Inr (a\<lparr>can_continue := True, aa_continue_prompt := Some (ws_prompt_template s)\<rparr>)
            else Inr a))"

definition scope_to_peers :: "engine \<Rightarrow> available_actions \<Rightarrow> available_actions" where
  "scope_to_peers e a =
     (let peers = length (en_active e) - 1;
          a1 = a\<lparr>parallel_peer_count := length (en_active e), parallel_peers_running := peers\<rparr>
      in if 0 < peers
         then a1\<lparr>can_restart := False, can_cancel_to_previous := False, can_finish := False\<rparr>
         else a1)"

definition compute_available_actions :: "engine \<Rightarrow> (engine_error, available_actions) result" where
  "compute_available_actions e =
     (let a0 = no_actions\<lparr>can_launch_next := \<not> is_complete (en_state e),
                          can_restart := en_current_step e \<noteq> None,
                          can_pause := True, can_abort := True,
                          can_finish := workflow_can_finish e,
                          can_dismiss := (focused_execution e \<noteq> None \<or> en_current_step e \<noteq> None)\<rparr>
      in rbind (next_ready_step e) (\<lambda>nxt.
         rbind (continue_actions e nxt a0) (\<lambda>a1.
           let a2 = scope_to_peers e (a1\<lparr>can_cancel_to_previous := previous_step_name e \<noteq> None\<rparr>);
               a3 = a2\<lparr>focused_step := running_step_name e\<rparr>
           in Inr (a3\<lparr>aa_simple_advance := simple_advance e a3\<rparr>))))"

definition matching_exit :: "engine \<Rightarrow> int \<Rightarrow> exit_info option" where
  "matching_exit e code =
     (case en_last_exit e of
        Some x \<Rightarrow> if xi_exit_code x = code then Some x else None
      | None \<Rightarrow> None)"

definition failure_next_step :: "engine \<Rightarrow> string \<Rightarrow> string option" where
  "failure_next_step e n =
     (case ready_steps (en_dag e) (insert n (completed_steps (en_state e))) of
        [] \<Rightarrow> None | m # _ \<Rightarrow> Some m)"

definition compute_failure_actions :: "engine \<Rightarrow> string \<Rightarrow> int \<Rightarrow> available_actions" where
  "compute_failure_actions e n code =
     (let nxt = failure_next_step e n; prev = previous_step_name e in
      no_actions\<lparr>can_launch_next := nxt \<noteq> None, can_restart := True,
        can_cancel_to_previous := prev \<noteq> None, can_pause := True, can_abort := True,
        can_finish := False, can_dismiss := False, focused_step := Some n,
        aa_simple_advance := None,
        aa_step_failure := Some \<lparr>fc_step_name = n, fc_exit_code = code,
          fc_signal = (case matching_exit e code of Some x \<Rightarrow> xi_signal x | None \<Rightarrow> None),
          fc_previous_step = prev, fc_next_step = nxt\<rparr>\<rparr>)"

definition show_board :: "world \<Rightarrow> available_actions \<Rightarrow> next_action eng" where
  "show_board w a = (\<lambda>e. ask (\<lambda>t. wd_board w t (en_state e) a) e)"

definition show_current_board :: "world \<Rightarrow> next_action eng" where
  "show_current_board w =
     ebind (\<lambda>e. elift (compute_available_actions e) e) (show_board w)"

subsection \<open>Ending the run\<close>

definition finish_error :: engine_error where
  "finish_error = InvalidAdvanceAction
     ''FinishWorkflow only valid on the last step or once every step is terminal''"

definition handle_finish_workflow :: "world \<Rightarrow> workflow_outcome eng" where
  "handle_finish_workflow w =
     ebind (eget workflow_can_finish) (\<lambda>ok.
       if \<not> ok then efail finish_error
       else ebind (eseq [mark_all_unfinished w Skipped, persist w]) (\<lambda>_. report_outcome Completed))"

definition handle_abort :: "world \<Rightarrow> workflow_outcome eng" where
  "handle_abort w =
     ebind (eseq [mark_all_unfinished w Cancelled, persist w]) (\<lambda>_. report_outcome Aborted)"

definition pause_run :: "world \<Rightarrow> workflow_outcome eng" where
  "pause_run w = ebind (persist w) (\<lambda>_. report_outcome Paused)"

definition restart_current :: "world \<Rightarrow> unit eng" where
  "restart_current w =
     ebind (eget en_current_step) (\<lambda>c. case c of
       Some n \<Rightarrow> eseq [set_step w n Pending, persist w]
     | None \<Rightarrow> eret ())"

definition handle_cancel_to_previous :: "world \<Rightarrow> unit eng" where
  "handle_cancel_to_previous w =
     ebind (eget previous_step_name) (\<lambda>prev. case prev of
       Some p \<Rightarrow>
         ebind (eget en_current_step) (\<lambda>c.
           eseq [case c of Some n \<Rightarrow> set_step w n Cancelled | None \<Rightarrow> eret (),
                 set_step w p Pending, persist w])
     | None \<Rightarrow> efail (InvalidAdvanceAction ''no previous step to cancel to''))"

definition inject_next :: "world \<Rightarrow> string \<Rightarrow> workflow_step \<Rightarrow> unit eng" where
  "inject_next w prompt s =
     ebind (ask (\<lambda>t. wd_inject w t prompt)) (\<lambda>supported.
       if supported
       then eseq [set_step w (ws_name s) Succeeded,
                  emod (\<lambda>e. e\<lparr>en_current_step := Some (ws_name s)\<rparr>), persist w]
       else efail (InvalidAdvanceAction
         ''container backend does not support prompt injection; use LaunchNext to start a fresh container''))"

definition continue_with :: "world \<Rightarrow> string \<Rightarrow> workflow_step \<Rightarrow> unit eng" where
  "continue_with w prompt s =
     ebind (\<lambda>e. elift (resolve_agent e s) e) (\<lambda>agent.
     ebind (eget (\<lambda>e. en_current_agent e = Some agent \<and> en_current_model e = resolve_model e s)) (\<lambda>same.
       if \<not> same then efail (InvalidAdvanceAction
         ''ContinueInCurrentContainer requires the same agent and model for the current and next steps'')
       else
         ebind (eget focused_execution) (\<lambda>x. case x of
           None \<Rightarrow> efail (InvalidAdvanceAction ''no container execution is available to inject into'')
         | Some _ \<Rightarrow> inject_next w prompt s)))"

definition handle_continue_in_current_container :: "world \<Rightarrow> string \<Rightarrow> unit eng" where
  "handle_continue_in_current_container w prompt =
     ebind (\<lambda>e. elift (next_ready_step e) e) (\<lambda>nxt. case nxt of
       None \<Rightarrow> efail (InvalidAdvanceAction ''ContinueInCurrentContainer: no next step is ready'')
     | Some s \<Rightarrow> continue_with w prompt s)"

subsection \<open>After a failed step\<close>

datatype iteration_outcome = IterContinue | IterEnded workflow_outcome

definition iter_ended :: "workflow_outcome eng \<Rightarrow> iteration_outcome eng" where
  "iter_ended m = ebind m (\<lambda>wo. eret (IterEnded wo))"

definition iter_continue :: "unit eng \<Rightarrow> iteration_outcome eng" where
  "iter_continue m = ebind m (\<lambda>_. eret IterContinue)"

fun handle_step_failure_interactive ::
  "nat \<Rightarrow> world \<Rightarrow> string \<Rightarrow> int \<Rightarrow> iteration_outcome eng" where
  "handle_step_failure_interactive 0 w n code = ewait"
| "handle_step_failure_interactive (Suc fuel) w n code =
     ebind (eget (\<lambda>e. compute_failure_actions e n code)) (\<lambda>available.
     ebind (show_board w available) (\<lambda>action.
       case action of
         RestartCurrentStep \<Rightarrow> iter_continue (eseq [set_step w n Pending, persist w])
       | CancelToPreviousStep \<Rightarrow>
           (case Option.bind (aa_step_failure available) fc_previous_step of
              None \<Rightarrow> handle_step_failure_interactive fuel w n code
            | Some prev \<Rightarrow>
                iter_continue (eseq [set_step w n Pending, set_step w prev Pending, persist w]))
       | LaunchNext \<Rightarrow>
           (case Option.bind (aa_step_failure available) fc_next_step of
              None \<Rightarrow> handle_step_failure_interactive fuel w n code
            | Some _ \<Rightarrow> iter_continue (eseq [set_step w n Skipped, persist w]))
       | Abort \<Rightarrow> iter_ended (handle_abort w)
       | Pause \<Rightarrow> iter_ended (pause_run w)
       | _ \<Rightarrow> handle_step_failure_interactive fuel w n code))"

text \<open>\<open>YOLO_COUNTDOWN_DURATION\<close>, in milliseconds.\<close>

definition yolo_countdown_ms :: nat where
  "yolo_countdown_ms = 60000"

definition clock :: "world \<Rightarrow> nat eng" where
  "clock w = eget (\<lambda>e. wd_now w (en_tick e))"

fun retry_countdown_loop :: "nat \<Rightarrow> world \<Rightarrow> string \<Rightarrow> nat \<Rightarrow> yolo_tick_outcome eng" where
  "retry_countdown_loop 0 w n start = ewait"
| "retry_countdown_loop (Suc fuel) w n start =
     ebind (cancel_requested w) (\<lambda>cancelled.
       if cancelled then eret TickCancel
       else
         ebind (clock w) (\<lambda>now.
         ebind (ask (\<lambda>t. wd_yolo_tick w t n)) (\<lambda>tick.
           case tick of
             TickAdvanceNow \<Rightarrow> eret TickAdvanceNow
           | TickCancel \<Rightarrow> eret TickCancel
           | TickContinue \<Rightarrow>
               if yolo_countdown_ms - (now - start) = 0 then eret TickContinue
               else retry_countdown_loop fuel w n start)))"

definition run_failure_retry_countdown :: "nat \<Rightarrow> world \<Rightarrow> string \<Rightarrow> yolo_tick_outcome eng" where
  "run_failure_retry_countdown fuel w n =
     ebind (clock w) (\<lambda>start.
     ebind (eff (Eff_countdown_started n FailureRetry)) (\<lambda>_.
     ebind (retry_countdown_loop fuel w n start) (\<lambda>r.
     ebind (eff (Eff_countdown_finished n)) (\<lambda>_. eret r))))"

definition fail_run :: "world \<Rightarrow> string \<Rightarrow> int \<Rightarrow> string \<Rightarrow> workflow_outcome eng" where
  "fail_run w n code text =
     ebind (eseq [mark_all_unfinished w Cancelled, set_step w n (Failed code (Some text)), persist w])
       (\<lambda>_. report_outcome (RunFailed n code))"

definition handle_step_failure_unattended ::
  "nat \<Rightarrow> world \<Rightarrow> string \<Rightarrow> int \<Rightarrow> iteration_outcome eng" where
  "handle_step_failure_unattended fuel w n code =
     ebind (eget (\<lambda>e. n \<in> en_auto_retried e)) (\<lambda>retried.
       if retried
       then iter_ended (fail_run w n code
              (''failed twice (exit '' @ int_string code @ ''); automatic retry exhausted''))
       else
         ebind (run_failure_retry_countdown fuel w n) (\<lambda>countdown.
         ebind (cancel_requested w) (\<lambda>cancelled.
           if cancelled then iter_ended (cancel_run w)
           else if countdown = TickCancel
           then iter_ended (fail_run w n code ''retry countdown cancelled'')
           else iter_continue (eseq
                  [emod (\<lambda>e. e\<lparr>en_auto_retried := insert n (en_auto_retried e)\<rparr>),
                   set_step w n Pending, persist w]))))"

definition handle_step_failure :: "nat \<Rightarrow> world \<Rightarrow> string \<Rightarrow> int \<Rightarrow> iteration_outcome eng" where
  "handle_step_failure fuel w n code =
     ebind (cancel_requested w) (\<lambda>cancelled.
       if cancelled then iter_ended (cancel_run w)
       else if wd_interactive w then handle_step_failure_interactive fuel w n code
       else handle_step_failure_unattended fuel w n code)"

definition handle_group_step_failure :: "nat \<Rightarrow> world \<Rightarrow> string \<Rightarrow> int \<Rightarrow> iteration_outcome eng" where
  "handle_group_step_failure fuel w n code =
     ebind (emod (\<lambda>e. e\<lparr>en_current_step := Some n\<rparr>)) (\<lambda>_. handle_step_failure fuel w n code)"

subsection \<open>The board while a step runs, and the board between steps\<close>

datatype mid_step_outcome =
    MidContinue | MidCompleted step_outcome | MidEnded workflow_outcome | MidLoopContinue

datatype interruptible_result =
    IntCompleted step_outcome | IntEnded workflow_outcome | IntLoopContinue

definition resume_or_finalize ::
  "world \<Rightarrow> string \<Rightarrow> exit_result option \<Rightarrow> mid_step_outcome eng" where
  "resume_or_finalize w n finished =
     (case finished of
        Some r \<Rightarrow> ebind (finalize_result w n r) (\<lambda>o'. eret (MidCompleted o'))
      | None \<Rightarrow> eret MidContinue)"

definition kill_unless_finished ::
  "execution option \<Rightarrow> exit_result option \<Rightarrow> unit eng" where
  "kill_unless_finished handle finished =
     (if finished = None then kill_current_container handle else eret ())"

definition mid_ended :: "workflow_outcome eng \<Rightarrow> mid_step_outcome eng" where
  "mid_ended m = ebind m (\<lambda>wo. eret (MidEnded wo))"

definition mid_loop :: "unit eng \<Rightarrow> mid_step_outcome eng" where
  "mid_loop m = ebind m (\<lambda>_. eret MidLoopContinue)"

text \<open>\<open>wait_rx.try_recv\<close>: a finished container's execution goes back into the focused slot.\<close>

definition poll_finished :: "world \<Rightarrow> execution \<Rightarrow> (exit_result option) eng" where
  "poll_finished w x =
     ebind (observe (wd_finished w)) (\<lambda>r.
       if r = None then eret None
       else ebind (set_focused_execution x) (\<lambda>_. eret r))"

definition inject_focused :: "world \<Rightarrow> string \<Rightarrow> unit eng" where
  "inject_focused w prompt =
     ebind (eget focused_execution) (\<lambda>x. case x of
       None \<Rightarrow> eret ()
     | Some _ \<Rightarrow> ebind (observe (\<lambda>t. wd_inject w t prompt)) (\<lambda>_. eret ()))"

definition cancel_to_previous_mid :: "world \<Rightarrow> string \<Rightarrow> unit eng" where
  "cancel_to_previous_mid w n =
     ebind (eget previous_step_name) (\<lambda>prev. case prev of
       Some p \<Rightarrow> eseq [set_step w n Cancelled, set_step w p Pending, persist w]
     | None \<Rightarrow> eret ())"

definition cancel_handle_of :: "execution \<Rightarrow> execution option" where
  "cancel_handle_of x = (if ex_cancellable x then Some x else None)"

definition handle_mid_step_control_board ::
  "world \<Rightarrow> string \<Rightarrow> execution \<Rightarrow> mid_step_outcome eng" where
  "handle_mid_step_control_board w n x =
     (let handle = cancel_handle_of x in
      ebind (show_current_board w) (\<lambda>action.
      ebind (poll_finished w x) (\<lambda>finished.
        case action of
          Dismiss \<Rightarrow> resume_or_finalize w n finished
        | RetryFailedStep _ \<Rightarrow> resume_or_finalize w n finished
        | ContinueInCurrentContainer prompt \<Rightarrow>
            ebind (inject_focused w prompt) (\<lambda>_. resume_or_finalize w n finished)
        | Pause \<Rightarrow>
            ebind (eseq [kill_unless_finished handle finished, set_step w n Pending])
              (\<lambda>_. mid_ended (pause_run w))
        | Abort \<Rightarrow>
            ebind (kill_unless_finished handle finished) (\<lambda>_. mid_ended (handle_abort w))
        | FinishWorkflow \<Rightarrow>
            ebind (eget workflow_can_finish) (\<lambda>ok.
              if \<not> ok then efail finish_error
              else ebind (eseq [kill_unless_finished handle finished,
                                mark_all_unfinished w Skipped, persist w])
                     (\<lambda>_. mid_ended (report_outcome Completed)))
        | LaunchNext \<Rightarrow>
            mid_loop (eseq [kill_unless_finished handle finished, set_step w n Succeeded, persist w])
        | RestartCurrentStep \<Rightarrow>
            mid_loop (eseq [kill_unless_finished handle finished, set_step w n Pending, persist w])
        | CancelToPreviousStep \<Rightarrow>
            mid_loop (eseq [kill_unless_finished handle finished, cancel_to_previous_mid w n]))))"

fun int_of_mid :: "mid_step_outcome \<Rightarrow> interruptible_result option" where
  "int_of_mid MidContinue = None"
| "int_of_mid (MidCompleted o') = Some (IntCompleted o')"
| "int_of_mid (MidEnded wo) = Some (IntEnded wo)"
| "int_of_mid MidLoopContinue = Some IntLoopContinue"

text \<open>What an answer given between steps does; the iteration and the last yolo board share it.\<close>

fun execute_top_level_action :: "world \<Rightarrow> next_action \<Rightarrow> interruptible_result eng" where
  "execute_top_level_action w Dismiss = eret IntLoopContinue"
| "execute_top_level_action w LaunchNext = eret IntLoopContinue"
| "execute_top_level_action w (RetryFailedStep _) = eret IntLoopContinue"
| "execute_top_level_action w FinishWorkflow =
     ebind (handle_finish_workflow w) (\<lambda>wo. eret (IntEnded wo))"
| "execute_top_level_action w Pause = ebind (pause_run w) (\<lambda>wo. eret (IntEnded wo))"
| "execute_top_level_action w Abort = ebind (handle_abort w) (\<lambda>wo. eret (IntEnded wo))"
| "execute_top_level_action w RestartCurrentStep =
     ebind (restart_current w) (\<lambda>_. eret IntLoopContinue)"
| "execute_top_level_action w CancelToPreviousStep =
     ebind (handle_cancel_to_previous w) (\<lambda>_. eret IntLoopContinue)"
| "execute_top_level_action w (ContinueInCurrentContainer prompt) =
     ebind (handle_continue_in_current_container w prompt) (\<lambda>_. eret IntLoopContinue)"

end
