(* ===== verification/Workflow_Single.thy ===== *)
theory Workflow_Single
  imports Workflow_Control
begin

text \<open>
  One step at a time: the second half of \<open>src/engine/workflow/single_step.rs\<close>. The waiting loop and
  the countdown inside it take fuel; a turn of either is one \<open>select!\<close>. The select is biased: a
  container that has exited is handled before a cancel that has fired, and a cancel before the rest.
\<close>

subsection \<open>The countdown of a stuck step\<close>

datatype mid_step_yolo =
    YoloCompleted exit_result | YoloAdvanced | YoloCancelled | YoloShowBoard | YoloRecovered

definition countdown_ends :: "string \<Rightarrow> mid_step_yolo \<Rightarrow> mid_step_yolo eng" where
  "countdown_ends n r = ebind (eff (Eff_countdown_finished n)) (\<lambda>_. eret r)"

text \<open>Whether the events waiting in the stuck channel recover the step: \<open>Stuck\<close> is skipped.\<close>

fun drained_recovers :: "stuck_event list \<Rightarrow> bool" where
  "drained_recovers [] = False"
| "drained_recovers (Stuck # es) = drained_recovers es"
| "drained_recovers (Unstuck # es) = True"
| "drained_recovers (StartupGraceExpired # es) = True"

fun drive_yolo_countdown :: "nat \<Rightarrow> world \<Rightarrow> string \<Rightarrow> nat \<Rightarrow> mid_step_yolo eng" where
  "drive_yolo_countdown 0 w n start = ewait"
| "drive_yolo_countdown (Suc fuel) w n start =
     ebind (cancel_requested w) (\<lambda>cancelled.
     if cancelled then countdown_ends n YoloCancelled
     else
       ebind (observe (wd_drained w)) (\<lambda>pending.
       if drained_recovers pending then countdown_ends n YoloRecovered
       else
         ebind (clock w) (\<lambda>now.
         ebind (ask (\<lambda>t. wd_yolo_tick w t n)) (\<lambda>tick.
           case tick of
             TickAdvanceNow \<Rightarrow> countdown_ends n YoloAdvanced
           | TickCancel \<Rightarrow> countdown_ends n YoloCancelled
           | TickContinue \<Rightarrow>
               if yolo_countdown_ms - (now - start) = 0 then countdown_ends n YoloAdvanced
               else
                 ebind (observe (wd_event w)) (\<lambda>ev.
                   case ev of
                     Exited r \<Rightarrow> countdown_ends n (YoloCompleted r)
                   | WaitDropped \<Rightarrow> efail (EngineOther ''step wait task dropped unexpectedly'')
                   | StuckEv Stuck \<Rightarrow> drive_yolo_countdown fuel w n start
                   | StuckEv Unstuck \<Rightarrow> countdown_ends n YoloRecovered
                   | StuckEv StartupGraceExpired \<Rightarrow> countdown_ends n YoloRecovered
                   | Request (OpenControlBoard _) \<Rightarrow> countdown_ends n YoloShowBoard
                   | Request (ReqStepUnstuck _) \<Rightarrow> countdown_ends n YoloRecovered
                   | Request (ReqStepStuck _) \<Rightarrow> drive_yolo_countdown fuel w n start
                   | Idle \<Rightarrow> drive_yolo_countdown fuel w n start)))))"

definition run_mid_step_yolo_countdown :: "nat \<Rightarrow> world \<Rightarrow> string \<Rightarrow> mid_step_yolo eng" where
  "run_mid_step_yolo_countdown fuel w n =
     ebind (eff (Eff_countdown_started n StuckStep)) (\<lambda>_.
     ebind (clock w) (\<lambda>start. drive_yolo_countdown fuel w n start))"

subsection \<open>A stuck step\<close>

definition mid_board :: "world \<Rightarrow> string \<Rightarrow> execution \<Rightarrow> (interruptible_result option) eng" where
  "mid_board w n x = ebind (handle_mid_step_control_board w n x) (\<lambda>m. eret (int_of_mid m))"

definition finish_wait :: "world \<Rightarrow> string \<Rightarrow> execution \<Rightarrow> exit_result \<Rightarrow> interruptible_result eng" where
  "finish_wait w n x r =
     ebind (set_focused_execution x) (\<lambda>_.
     ebind (finalize_result w n r) (\<lambda>o'. eret (IntCompleted o')))"

definition yolo_advance :: "world \<Rightarrow> string \<Rightarrow> execution \<Rightarrow> (interruptible_result option) eng" where
  "yolo_advance w n x =
     ebind (eseq [kill_current_container (cancel_handle_of x), set_step w n Succeeded, persist w]) (\<lambda>_.
     ebind (find_step n) (\<lambda>s.
     ebind (eseq [eff (Eff_step_status (ws_name s) StepSucceeded), report_progress]) (\<lambda>_.
     ebind (eget is_last_step) (\<lambda>last_one.
       if last_one
       then ebind (show_current_board w) (\<lambda>action.
            ebind (execute_top_level_action w action) (\<lambda>r. eret (Some r)))
       else eret (Some IntLoopContinue)))))"

definition handle_step_stuck ::
  "nat \<Rightarrow> world \<Rightarrow> string \<Rightarrow> execution \<Rightarrow> (interruptible_result option) eng" where
  "handle_step_stuck fuel w n x =
     ebind (eget (\<lambda>e. en_yolo e \<and> \<not> is_last_step e)) (\<lambda>counts_down.
       if counts_down
       then ebind (run_mid_step_yolo_countdown fuel w n) (\<lambda>y.
              case y of
                YoloCompleted r \<Rightarrow> ebind (finish_wait w n x r) (\<lambda>i. eret (Some i))
              | YoloShowBoard \<Rightarrow> mid_board w n x
              | YoloCancelled \<Rightarrow> eret None
              | YoloRecovered \<Rightarrow> eret None
              | YoloAdvanced \<Rightarrow> yolo_advance w n x)
       else mid_board w n x)"

subsection \<open>Waiting for a step\<close>

definition cancel_step :: "world \<Rightarrow> execution \<Rightarrow> interruptible_result eng" where
  "cancel_step w x =
     ebind (kill_current_container (cancel_handle_of x)) (\<lambda>_.
     ebind (cancel_run w) (\<lambda>wo. eret (IntEnded wo)))"

text \<open>One observation of the select: the token is looked at in the same instant as the event.\<close>

definition step_select :: "world \<Rightarrow> (step_event \<times> bool) eng" where
  "step_select w = observe (\<lambda>t. (wd_event w t, cancelled_by w t))"

fun step_wait_loop :: "nat \<Rightarrow> world \<Rightarrow> string \<Rightarrow> execution \<Rightarrow> interruptible_result eng" where
  "step_wait_loop 0 w n x = ewait"
| "step_wait_loop (Suc fuel) w n x =
     ebind (step_select w) (\<lambda>(ev, cancelled).
       case ev of
         Exited r \<Rightarrow> finish_wait w n x r
       | WaitDropped \<Rightarrow> efail (EngineOther ''step wait task dropped unexpectedly'')
       | _ \<Rightarrow>
           if cancelled then cancel_step w x
           else
             (case ev of
                StuckEv Stuck \<Rightarrow>
                  ebind (handle_step_stuck fuel w n x) (\<lambda>r.
                    case r of None \<Rightarrow> step_wait_loop fuel w n x | Some i \<Rightarrow> eret i)
              | StuckEv StartupGraceExpired \<Rightarrow>
                  ebind mark_focused_killed (\<lambda>_. step_wait_loop fuel w n x)
              | Request (OpenControlBoard _) \<Rightarrow>
                  ebind (mid_board w n x) (\<lambda>r.
                    case r of None \<Rightarrow> step_wait_loop fuel w n x | Some i \<Rightarrow> eret i)
              | Request (ReqStepStuck _) \<Rightarrow>
                  ebind (handle_step_stuck fuel w n x) (\<lambda>r.
                    case r of None \<Rightarrow> step_wait_loop fuel w n x | Some i \<Rightarrow> eret i)
              | _ \<Rightarrow> step_wait_loop fuel w n x))"

definition step_once_interruptible :: "nat \<Rightarrow> world \<Rightarrow> interruptible_result eng" where
  "step_once_interruptible fuel w =
     ebind (launch_step w) (\<lambda>n.
     ebind (eget focused_execution) (\<lambda>x.
       case x of
         None \<Rightarrow> efail (EngineOther ''launch_step stored execution'')
       | Some x \<Rightarrow>
           ebind take_focused_execution (\<lambda>_. step_wait_loop fuel w n x)))"

subsection \<open>One iteration of the sequential path\<close>

definition abort_on_failure :: "world \<Rightarrow> iteration_outcome eng" where
  "abort_on_failure w =
     iter_ended (ebind (eseq [emod (\<lambda>e. e\<lparr>en_abort_triggered := True\<rparr>),
                              mark_all_unfinished w Cancelled, persist w])
                   (\<lambda>_. report_outcome Aborted))"

definition handle_failed_outcome :: "nat \<Rightarrow> world \<Rightarrow> string \<Rightarrow> int \<Rightarrow> iteration_outcome eng" where
  "handle_failed_outcome fuel w n code =
     ebind (cancel_requested w) (\<lambda>cancelled.
     if cancelled then iter_ended (cancel_run w)
     else
       ebind report_progress (\<lambda>_.
       ebind (recover_auth_failure w n) (\<lambda>recovered.
       if recovered then iter_continue (eseq [set_step w n Pending, persist w])
       else
         ebind (find_step n) (\<lambda>s.
           if ws_abort_on_failure s then abort_on_failure w
           else handle_step_failure fuel w n code))))"

definition iter_of_int :: "interruptible_result \<Rightarrow> iteration_outcome" where
  "iter_of_int r = (case r of IntEnded wo \<Rightarrow> IterEnded wo | _ \<Rightarrow> IterContinue)"

definition after_success :: "world \<Rightarrow> iteration_outcome eng" where
  "after_success w =
     ebind (eget (\<lambda>e. is_complete (en_state e))) (\<lambda>complete.
     ebind (eget en_yolo) (\<lambda>yolo.
     ebind (if \<not> complete \<or> yolo then report_progress else eret ()) (\<lambda>_.
       if complete = yolo
       then ebind (show_current_board w) (\<lambda>action.
            ebind (execute_top_level_action w action) (\<lambda>r. eret (iter_of_int r)))
       else eret IterContinue)))"

definition run_single_step_iteration :: "nat \<Rightarrow> world \<Rightarrow> iteration_outcome eng" where
  "run_single_step_iteration fuel w =
     ebind (step_once_interruptible fuel w) (\<lambda>r.
       case r of
         IntEnded wo \<Rightarrow> eret (IterEnded wo)
       | IntLoopContinue \<Rightarrow> eret IterContinue
       | IntCompleted o' \<Rightarrow>
           (case so_status o' of
              StepFailed code \<Rightarrow> handle_failed_outcome fuel w (so_step_name o') code
            | _ \<Rightarrow> after_success w))"

end
