(* ===== verification/Workflow_Parallel.thy ===== *)
theory Workflow_Parallel
  imports Workflow_Single
begin

text \<open>
  Parallel groups, \<open>src/engine/workflow/parallel.rs\<close>. The loop keeps the queue of members not yet
  launched and the failures still to be recovered; the containers are the engine's \<open>en_active\<close>. The
  wait futures are the world's \<open>GExited\<close> events, each naming the launch it belongs to.
\<close>

datatype group_outcome = Drained "(string \<times> int) list" | GroupEnded workflow_outcome | GroupRewound

datatype parallel_request_outcome =
    ReqContinue | ReqEnded workflow_outcome | ReqRestartStep string | ReqRewound

subsection \<open>Launching a member\<close>

fun reset_siblings :: "string list \<Rightarrow> world \<Rightarrow> unit eng" where
  "reset_siblings [] w = eret ()"
| "reset_siblings (n # ns) w =
     ebind (set_step w n Pending) (\<lambda>_.
     ebind (find_step n) (\<lambda>s.
     ebind (eseq [eff (Eff_step_status (ws_name s) StepPending),
                  eff (Eff_parallel_exited n killed_exit_code)]) (\<lambda>_. reset_siblings ns w)))"

text \<open>What the error arm of a launch does: its live siblings are stopped and made pending again.\<close>

definition launch_failed :: "world \<Rightarrow> workflow_step \<Rightarrow> unit eng" where
  "launch_failed w s =
     ebind (report_spawn_failed s) (\<lambda>_.
     ebind (eget (\<lambda>e. map sl_step (en_active e))) (\<lambda>live.
     eseq [stop_active_agents, reset_siblings live w, persist_or_log w]))"

definition parallel_slot :: "workflow_step \<Rightarrow> execution \<Rightarrow> prepared_launch \<Rightarrow> nat \<Rightarrow> slot" where
  "parallel_slot s x p i =
     (new_slot s x p)\<lparr>sl_exec := None, sl_cancel := ex_cancellable x, sl_launch_id := i\<rparr>"

definition add_parallel_slot :: "workflow_step \<Rightarrow> execution \<Rightarrow> prepared_launch \<Rightarrow> unit eng" where
  "add_parallel_slot s x p =
     emod (\<lambda>e. e\<lparr>en_active := en_active e @ [parallel_slot s x p (en_next_launch_id e)],
                en_next_launch_id := Suc (en_next_launch_id e)\<rparr>)"

definition launch_parallel_step :: "world \<Rightarrow> workflow_step \<Rightarrow> bool \<Rightarrow> unit eng" where
  "launch_parallel_step w s dequeued =
     ebind (prepare_step_launch s) (\<lambda>p.
     ebind (report_launching s p) (\<lambda>_.
     ebind (on_error (spawn_prepared_step w s p) (launch_failed w s)) (\<lambda>x.
     eseq [eff (if dequeued then Eff_parallel_dequeued (ws_name s) else Eff_parallel_launched (ws_name s)),
           add_parallel_slot s x p])))"

fun launch_batch :: "world \<Rightarrow> nat \<Rightarrow> workflow_step list \<Rightarrow> (workflow_step list) eng" where
  "launch_batch w cap [] = eret []"
| "launch_batch w cap (s # queue) =
     ebind (eget (\<lambda>e. length (en_active e))) (\<lambda>live.
       if live < cap then ebind (launch_parallel_step w s False) (\<lambda>_. launch_batch w cap queue)
       else eret (s # queue))"

text \<open>\<open>if a slot is free, launch the head of the queue\<close>\<close>

definition launch_head :: "world \<Rightarrow> nat \<Rightarrow> workflow_step list \<Rightarrow> (workflow_step list) eng" where
  "launch_head w cap queue =
     ebind (eget (\<lambda>e. length (en_active e))) (\<lambda>live.
       case queue of
         s # rest \<Rightarrow>
           if live < cap then ebind (launch_parallel_step w s True) (\<lambda>_. eret rest) else eret queue
       | [] \<Rightarrow> eret [])"

definition remove_active_step :: "string \<Rightarrow> unit eng" where
  "remove_active_step n = emod (\<lambda>e. e\<lparr>en_active := filter (\<lambda>s. sl_step s \<noteq> n) (en_active e)\<rparr>)"

definition remove_first_active :: "string \<Rightarrow> unit eng" where
  "remove_first_active n =
     emod (\<lambda>e. e\<lparr>en_active :=
       (case position (\<lambda>s. sl_step s = n) (en_active e) of
          None \<Rightarrow> en_active e
        | Some i \<Rightarrow> take i (en_active e) @ drop (Suc i) (en_active e))\<rparr>)"

definition cancel_slot :: "slot \<Rightarrow> unit eng" where
  "cancel_slot s = (if sl_cancel s then eff (Eff_cancel_handle (sl_container s)) else eret ())"

subsection \<open>Stuck members\<close>

definition handle_parallel_stuck_event :: "world \<Rightarrow> string \<Rightarrow> stuck_event \<Rightarrow> unit eng" where
  "handle_parallel_stuck_event w n ev =
     ebind (eget (\<lambda>e. (en_yolo e, slot_of e n))) (\<lambda>(yolo, slot).
       case ev of
         Stuck \<Rightarrow>
           if yolo
           then (case slot of
                   Some s \<Rightarrow>
                     if sl_deadline s = None
                     then ebind (clock w) (\<lambda>now.
                          eseq [update_slot n (\<lambda>s. s\<lparr>sl_deadline := Some (now + yolo_countdown_ms)\<rparr>),
                                eff (Eff_parallel_countdown_started n)])
                     else eret ()
                 | None \<Rightarrow> eret ())
           else eseq [update_slot n (\<lambda>s. s\<lparr>sl_stuck := True\<rparr>), eff (Eff_parallel_stuck n)]
       | Unstuck \<Rightarrow>
           eseq [update_slot n (\<lambda>s. s\<lparr>sl_deadline := None, sl_stuck := False\<rparr>),
                 (case slot of
                    Some s \<Rightarrow> if sl_deadline s \<noteq> None then eff (Eff_parallel_countdown_finished n) else eret ()
                  | None \<Rightarrow> eret ()),
                 eff (Eff_parallel_unstuck n)]
       | StartupGraceExpired \<Rightarrow> update_slot n (\<lambda>s. s\<lparr>sl_killed := True\<rparr>))"

definition yolo_advance_parallel ::
  "world \<Rightarrow> string \<Rightarrow> nat \<Rightarrow> bool \<Rightarrow> workflow_step list \<Rightarrow> (workflow_step list) eng" where
  "yolo_advance_parallel w n cap launch_queued queue =
     ebind (eget (\<lambda>e. slot_of e n)) (\<lambda>slot.
     ebind (eseq [eff (Eff_parallel_countdown_finished n),
                  (case slot of Some s \<Rightarrow> eseq [cancel_slot s, remove_first_active n] | None \<Rightarrow> eret ()),
                  eff (Eff_parallel_exited n killed_exit_code),
                  set_step w n Succeeded]) (\<lambda>_.
     ebind (find_step n) (\<lambda>s.
     ebind (eseq [eff (Eff_step_status (ws_name s) StepSucceeded), persist w, report_progress]) (\<lambda>_.
       if launch_queued then launch_head w cap queue else eret queue))))"

fun tick_slots ::
  "world \<Rightarrow> nat \<Rightarrow> nat \<Rightarrow> bool \<Rightarrow> (string \<times> nat) list \<Rightarrow> workflow_step list \<Rightarrow> (workflow_step list) eng" where
  "tick_slots w now cap launch_queued [] queue = eret queue"
| "tick_slots w now cap launch_queued ((n, deadline) # ts) queue =
     ebind (ask (\<lambda>t. wd_yolo_tick w t n)) (\<lambda>tick.
     ebind
       (case tick of
          TickCancel \<Rightarrow>
            ebind (eseq [update_slot n (\<lambda>s. s\<lparr>sl_deadline := None\<rparr>),
                         eff (Eff_parallel_countdown_finished n)]) (\<lambda>_. eret queue)
        | TickAdvanceNow \<Rightarrow> yolo_advance_parallel w n cap launch_queued queue
        | TickContinue \<Rightarrow>
            if deadline - now = 0 then yolo_advance_parallel w n cap launch_queued queue
            else eret queue)
       (\<lambda>queue'. tick_slots w now cap launch_queued ts queue'))"

definition ticking_slots :: "engine \<Rightarrow> (string \<times> nat) list" where
  "ticking_slots e =
     concat (map (\<lambda>s. case sl_deadline s of Some d \<Rightarrow> [(sl_step s, d)] | None \<Rightarrow> []) (en_active e))"

definition tick_parallel_yolo ::
  "world \<Rightarrow> nat \<Rightarrow> bool \<Rightarrow> workflow_step list \<Rightarrow> (workflow_step list) eng" where
  "tick_parallel_yolo w cap launch_queued queue =
     ebind (clock w) (\<lambda>now.
     ebind (eget ticking_slots) (\<lambda>ts. tick_slots w now cap launch_queued ts queue))"

subsection \<open>Ending a group\<close>

definition killed_slot_effects :: "slot \<Rightarrow> effect list" where
  "killed_slot_effects s =
     (if sl_cancel s then [Eff_cancel_handle (sl_container s)] else []) @
     (if sl_deadline s \<noteq> None then [Eff_parallel_countdown_finished (sl_step s)] else []) @
     [Eff_parallel_exited (sl_step s) killed_exit_code]"

definition kill_active_parallel_steps :: "(string list) eng" where
  "kill_active_parallel_steps =
     ebind (eget (\<lambda>e. map sl_step (en_active e))) (\<lambda>names.
     ebind (emod (\<lambda>e. e\<lparr>en_active := [],
                       en_log := rev (concat (map killed_slot_effects (en_active e))) @ en_log e\<rparr>))
       (\<lambda>_. eret names))"

definition cancel_parallel_group :: "world \<Rightarrow> workflow_outcome eng" where
  "cancel_parallel_group w =
     ebind (eget (\<lambda>e. map sl_step (en_active e))) (\<lambda>live.
     ebind (eseq [stop_active_agents,
                  eseq (map (\<lambda>n. eff (Eff_parallel_exited n killed_exit_code)) live),
                  eff Eff_group_finished]) (\<lambda>_. cancel_run w))"

definition abort_parallel_group :: "world \<Rightarrow> workflow_outcome eng" where
  "abort_parallel_group w =
     ebind (emod (\<lambda>e. e\<lparr>en_abort_triggered := True\<rparr>)) (\<lambda>_.
     ebind kill_active_parallel_steps (\<lambda>_.
     ebind (eseq [mark_all_unfinished w Cancelled, persist w, eff Eff_group_finished])
       (\<lambda>_. report_outcome Aborted)))"

definition pause_parallel_group :: "world \<Rightarrow> workflow_outcome eng" where
  "pause_parallel_group w =
     ebind kill_active_parallel_steps (\<lambda>names.
     ebind (eseq (map (\<lambda>n. set_step w n Pending) names @ [persist w, eff Eff_group_finished]))
       (\<lambda>_. report_outcome Paused))"

subsection \<open>Restarting and leaving a group\<close>

definition restart_parallel_step ::
  "world \<Rightarrow> string \<Rightarrow> nat \<Rightarrow> workflow_step list \<Rightarrow> (workflow_step list) eng" where
  "restart_parallel_step w n cap queue0 =
     ebind (eget (\<lambda>e. slot_of e n)) (\<lambda>slot.
     ebind (case slot of
              Some s \<Rightarrow>
                eseq [remove_first_active n, cancel_slot s,
                      if sl_deadline s \<noteq> None then eff (Eff_parallel_countdown_finished n) else eret (),
                      eff (Eff_parallel_exited n killed_exit_code)]
            | None \<Rightarrow> eret ()) (\<lambda>_.
     let queue = filter (\<lambda>s. ws_name s \<noteq> n) queue0 in
     ebind (find_step n) (\<lambda>s.
     ebind (eget (\<lambda>e. length (en_active e))) (\<lambda>live.
     ebind (if live < cap
            then ebind (launch_parallel_step w s True) (\<lambda>_. eret queue)
            else ebind (eseq [set_step w n Pending, eff (Eff_step_status (ws_name s) StepPending),
                              persist w]) (\<lambda>_. eret (s # queue))) (\<lambda>queue'.
     ebind report_progress (\<lambda>_. eret queue'))))))"

fun reset_steps :: "world \<Rightarrow> string list \<Rightarrow> unit eng" where
  "reset_steps w [] = eret ()"
| "reset_steps w (n # ns) =
     ebind (set_step w n Pending) (\<lambda>_.
     ebind (find_step n) (\<lambda>s.
     ebind (eff (Eff_step_status (ws_name s) StepPending)) (\<lambda>_. reset_steps w ns)))"

definition group_closed :: "world \<Rightarrow> unit eng" where
  "group_closed w = eseq [persist w, eff Eff_group_finished, report_progress]"

definition rewind_parallel_group :: "world \<Rightarrow> string list \<Rightarrow> unit eng" where
  "rewind_parallel_group w names =
     ebind kill_active_parallel_steps (\<lambda>_. eseq [reset_steps w names, group_closed w])"

fun skip_steps :: "world \<Rightarrow> string list \<Rightarrow> unit eng" where
  "skip_steps w [] = eret ()"
| "skip_steps w (n # ns) =
     ebind (eget (\<lambda>e. status_of (en_state e) n)) (\<lambda>st.
       if st = Some Succeeded then skip_steps w ns
       else
         ebind (set_step w n Skipped) (\<lambda>_.
         ebind (find_step n) (\<lambda>s.
         ebind (eff (Eff_step_status (ws_name s) StepSkipped)) (\<lambda>_. skip_steps w ns))))"

definition skip_parallel_group :: "world \<Rightarrow> string list \<Rightarrow> unit eng" where
  "skip_parallel_group w grp =
     ebind kill_active_parallel_steps (\<lambda>_. eseq [skip_steps w grp, group_closed w])"

subsection \<open>The board of a running group\<close>

definition parallel_group_board_actions ::
  "engine \<Rightarrow> string list \<Rightarrow> string option \<Rightarrow> (engine_error, available_actions) result" where
  "parallel_group_board_actions e grp retryable =
     rbind (compute_available_actions e) (\<lambda>a.
       let a1 = a\<lparr>retry_failed_step := retryable\<rparr> in
       if \<not> en_group_prompts e
       then Inr (a1\<lparr>can_restart := False, can_cancel_to_previous := False, can_launch_next := False\<rparr>)
       else Inr (a1\<lparr>acts_on_parallel_group := True, can_restart := True,
                     can_cancel_to_previous := dependencies_of e grp \<noteq> [],
                     can_launch_next := True\<rparr>))"

definition ask_parallel_group :: "world \<Rightarrow> group_question \<Rightarrow> parallel_group_decision eng" where
  "ask_parallel_group w q =
     ebind (eget en_group_prompts) (\<lambda>has_copy.
       if has_copy then ask (\<lambda>t. wd_ask w t q) else eret KeepRunning)"

definition sorted_dedup :: "string list \<Rightarrow> string list" where
  "sorted_dedup ns = remdups (sort ns)"

definition resolve_parallel_group_action ::
  "world \<Rightarrow> next_action \<Rightarrow> string list \<Rightarrow> parallel_request_outcome eng" where
  "resolve_parallel_group_action w action grp =
     (case action of
        RestartCurrentStep \<Rightarrow>
          ebind (ask_parallel_group w (RestartScope grp)) (\<lambda>d. case d of
            RestartWholeGroup \<Rightarrow> ebind (rewind_parallel_group w grp) (\<lambda>_. eret ReqRewound)
          | RestartOneAgent \<Rightarrow>
              ebind (eget (\<lambda>e. map (\<lambda>n. (n, status_of (en_state e) n)) grp)) (\<lambda>members.
              ebind (ask_parallel_group w (RestartWhich members)) (\<lambda>d'. case d' of
                RestartStep n \<Rightarrow> eret (if n \<in> set grp then ReqRestartStep n else ReqContinue)
              | _ \<Rightarrow> eret ReqContinue))
          | _ \<Rightarrow> eret ReqContinue)
      | CancelToPreviousStep \<Rightarrow>
          ebind (eget (\<lambda>e. dependencies_of e grp)) (\<lambda>back_to.
            if back_to = [] then eret ReqContinue
            else
              ebind (ask_parallel_group w (CancelGroupQ grp (GroupBack back_to))) (\<lambda>d.
                if d \<noteq> CancelGroup then eret ReqContinue
                else
                  ebind (eget (\<lambda>e. dependents_of e back_to)) (\<lambda>downstream.
                  ebind (rewind_parallel_group w (sorted_dedup (back_to @ downstream @ grp)))
                    (\<lambda>_. eret ReqRewound))))
      | LaunchNext \<Rightarrow>
          ebind (eget (\<lambda>e. direct_dependents_of e grp)) (\<lambda>after.
          ebind (ask_parallel_group w (CancelGroupQ grp (GroupNext after))) (\<lambda>d.
            if d \<noteq> CancelGroup then eret ReqContinue
            else ebind (skip_parallel_group w grp) (\<lambda>_. eret ReqRewound)))
      | _ \<Rightarrow> eret ReqContinue)"

definition focus_parallel_step :: "string \<Rightarrow> unit eng" where
  "focus_parallel_step n =
     emod (\<lambda>e. case position (\<lambda>s. sl_step s = n) (en_active e) of
                 None \<Rightarrow> e
               | Some i \<Rightarrow>
                   (let s = en_active e ! i in
                    e\<lparr>en_active := (en_active e)[i := en_active e ! 0, 0 := s],
                      en_current_step := Some (sl_step s),
                      en_current_agent := Some (sl_agent s),
                      en_current_model := sl_model s\<rparr>))"

definition group_board_action ::
  "world \<Rightarrow> next_action \<Rightarrow> available_actions \<Rightarrow> string list \<Rightarrow> string option \<Rightarrow> parallel_request_outcome eng" where
  "group_board_action w action available grp retryable =
     (case action of
        Pause \<Rightarrow> ebind (pause_parallel_group w) (\<lambda>wo. eret (ReqEnded wo))
      | Abort \<Rightarrow> ebind (abort_parallel_group w) (\<lambda>wo. eret (ReqEnded wo))
      | RetryFailedStep n \<Rightarrow> eret (if retryable = Some n then ReqRestartStep n else ReqContinue)
      | _ \<Rightarrow>
          if action \<in> {RestartCurrentStep, CancelToPreviousStep, LaunchNext} \<and> acts_on_parallel_group available
          then resolve_parallel_group_action w action grp
          else eret ReqContinue)"

definition handle_parallel_engine_request ::
  "world \<Rightarrow> engine_request \<Rightarrow> string list \<Rightarrow> string option \<Rightarrow> parallel_request_outcome eng" where
  "handle_parallel_engine_request w req grp retryable =
     (case req of
        ReqStepStuck n \<Rightarrow> ebind (handle_parallel_stuck_event w n Stuck) (\<lambda>_. eret ReqContinue)
      | ReqStepUnstuck n \<Rightarrow> ebind (handle_parallel_stuck_event w n Unstuck) (\<lambda>_. eret ReqContinue)
      | OpenControlBoard n \<Rightarrow>
          ebind (focus_parallel_step n) (\<lambda>_.
          ebind (\<lambda>e. elift (parallel_group_board_actions e grp retryable) e) (\<lambda>available.
          ebind (show_board w available) (\<lambda>action.
            group_board_action w action available grp retryable))))"

subsection \<open>The loop\<close>

text \<open>One turn of the loop: it goes on with a new queue and new failures, or the group is over.\<close>

datatype group_turn = TurnGo "workflow_step list" "(string \<times> int) list" | TurnOver group_outcome

definition turn_over :: "workflow_outcome eng \<Rightarrow> group_turn eng" where
  "turn_over m = ebind m (\<lambda>wo. eret (TurnOver (GroupEnded wo)))"

definition turn_go :: "(string \<times> int) list \<Rightarrow> (workflow_step list) eng \<Rightarrow> group_turn eng" where
  "turn_go failed m = ebind m (\<lambda>queue. eret (TurnGo queue failed))"

text \<open>
  After the exit of a member is recorded: retry it with fresh credentials, abort the run, note the
  failure, or launch the next member - which a failure not yet recovered forbids.
\<close>

definition after_exit ::
  "world \<Rightarrow> nat \<Rightarrow> workflow_step \<Rightarrow> bool \<Rightarrow> step_status \<Rightarrow> workflow_step list \<Rightarrow> (string \<times> int) list \<Rightarrow> group_turn eng" where
  "after_exit w cap s auth_recovered status queue failed =
     (if auth_recovered then turn_go failed (launch_head w cap (s # queue))
      else (case status of
              StepFailed code \<Rightarrow>
                if ws_abort_on_failure s then turn_over (abort_parallel_group w)
                else eret (TurnGo queue (failed @ [(ws_name s, code)]))
            | _ \<Rightarrow>
                if failed = [] then turn_go failed (launch_head w cap queue)
                else eret (TurnGo queue failed)))"

definition exit_status :: "int \<Rightarrow> bool \<Rightarrow> step_status \<times> step_state" where
  "exit_status code auth_recovered =
     (if code = 0 then (StepSucceeded, Succeeded)
      else if auth_recovered then (StepRunning, Pending)
      else (StepFailed code, Failed code None))"

definition record_exit ::
  "world \<Rightarrow> nat \<Rightarrow> string \<Rightarrow> exit_info \<Rightarrow> bool \<Rightarrow> workflow_step list \<Rightarrow> (string \<times> int) list \<Rightarrow> group_turn eng" where
  "record_exit w cap n x auth_recovered queue failed =
     (case exit_status (xi_exit_code x) auth_recovered of (status, state) \<Rightarrow>
      ebind (eseq [remove_active_step n, emod (\<lambda>e. e\<lparr>en_last_exit := Some x\<rparr>)]) (\<lambda>_.
      ebind (find_step n) (\<lambda>s.
      ebind (eseq [set_step w n state, eff (Eff_step_status (ws_name s) status),
                   eff (Eff_parallel_exited n (xi_exit_code x)), persist w, report_progress]) (\<lambda>_.
      ebind (cancel_requested w) (\<lambda>cancelled.
        if cancelled then turn_over (cancel_parallel_group w)
        else after_exit w cap s auth_recovered status queue failed)))))"

definition member_exited ::
  "world \<Rightarrow> nat \<Rightarrow> string \<Rightarrow> nat \<Rightarrow> exit_result \<Rightarrow> workflow_step list \<Rightarrow> (string \<times> int) list \<Rightarrow> group_turn eng" where
  "member_exited w cap n i r queue failed =
     ebind (eget (\<lambda>e. list_ex (\<lambda>s. sl_step s = n \<and> sl_launch_id s = i) (en_active e))) (\<lambda>live.
     if \<not> live then eret (TurnGo queue failed)
     else
       ebind (cancel_requested w) (\<lambda>cancelled.
       if cancelled then turn_over (cancel_parallel_group w)
       else
         ebind (elift r) (\<lambda>x.
         ebind (maybe_dump_step_failure n (xi_exit_code x)) (\<lambda>_.
         if xi_exit_code x = 0 then record_exit w cap n x False queue failed
         else
           ebind (cancel_requested w) (\<lambda>cancelled'.
           if cancelled' then turn_over (cancel_parallel_group w)
           else
             ebind (recover_auth_failure w n) (\<lambda>recovered.
               record_exit w cap n x recovered queue failed))))))"

definition group_request ::
  "world \<Rightarrow> string list \<Rightarrow> nat \<Rightarrow> engine_request \<Rightarrow> workflow_step list \<Rightarrow> (string \<times> int) list \<Rightarrow> group_turn eng" where
  "group_request w grp cap req queue failed =
     ebind (handle_parallel_engine_request w req grp
              (case failed of (n, _) # _ \<Rightarrow> Some n | [] \<Rightarrow> None)) (\<lambda>r.
       case r of
         ReqContinue \<Rightarrow> eret (TurnGo queue failed)
       | ReqEnded wo \<Rightarrow> eret (TurnOver (GroupEnded wo))
       | ReqRewound \<Rightarrow> eret (TurnOver GroupRewound)
       | ReqRestartStep n \<Rightarrow>
           turn_go (filter (\<lambda>(m, _). m \<noteq> n) failed) (restart_parallel_step w n cap queue))"

definition group_select :: "world \<Rightarrow> (group_event \<times> bool) eng" where
  "group_select w = observe (\<lambda>t. (wd_group_event w t, cancelled_by w t))"

definition group_step ::
  "world \<Rightarrow> string list \<Rightarrow> nat \<Rightarrow> workflow_step list \<Rightarrow> (string \<times> int) list \<Rightarrow> group_turn eng" where
  "group_step w grp cap queue failed =
     ebind (group_select w) (\<lambda>(ev, cancelled).
       case ev of
         GExited n i r \<Rightarrow> member_exited w cap n i r queue failed
       | _ \<Rightarrow>
           if cancelled then turn_over (cancel_parallel_group w)
           else
             (case ev of
                GStuck n k \<Rightarrow>
                  ebind (handle_parallel_stuck_event w n k) (\<lambda>_. eret (TurnGo queue failed))
              | GRequest req \<Rightarrow> group_request w grp cap req queue failed
              | _ \<Rightarrow> turn_go failed (tick_parallel_yolo w cap (failed = []) queue)))"

fun group_loop ::
  "nat \<Rightarrow> world \<Rightarrow> string list \<Rightarrow> nat \<Rightarrow> workflow_step list \<Rightarrow> (string \<times> int) list \<Rightarrow> group_outcome eng" where
  "group_loop 0 w grp cap queue failed = ewait"
| "group_loop (Suc fuel) w grp cap queue failed =
     ebind (eget (\<lambda>e. en_active e = [])) (\<lambda>idle.
       if idle then ebind (eff Eff_group_finished) (\<lambda>_. eret (Drained failed))
       else
         ebind (group_step w grp cap queue failed) (\<lambda>turn.
           case turn of
             TurnOver g \<Rightarrow> eret g
           | TurnGo queue' failed' \<Rightarrow> group_loop fuel w grp cap queue' failed'))"

definition slot_cap :: "nat option \<Rightarrow> nat \<Rightarrow> nat" where
  "slot_cap limit members = (case limit of Some n \<Rightarrow> max n 1 | None \<Rightarrow> max members 1)"

definition run_parallel_group :: "nat \<Rightarrow> world \<Rightarrow> workflow_step list \<Rightarrow> group_outcome eng" where
  "run_parallel_group fuel w ready =
     (let grp = map ws_name ready in
      ebind (eff (Eff_group_started grp)) (\<lambda>_.
      ebind (eget (\<lambda>e. slot_cap (en_max_concurrent e) (length ready))) (\<lambda>cap.
      ebind (emod (\<lambda>e. e\<lparr>en_active := []\<rparr>)) (\<lambda>_.
      ebind (launch_batch w cap ready) (\<lambda>queue.
        group_loop fuel w grp cap queue [])))))"

end
