(* ===== verification/Workflow_Run.thy ===== *)
theory Workflow_Run
  imports Workflow_Parallel
begin

text \<open>
  Whole runs: \<open>WorkflowEngine::new\<close>, \<open>resume\<close> and \<open>run_to_completion\<close> of
  \<open>src/engine/workflow/mod.rs\<close>.
\<close>

subsection \<open>The outer loop\<close>

fun recover_failures :: "nat \<Rightarrow> world \<Rightarrow> (string \<times> int) list \<Rightarrow> iteration_outcome eng" where
  "recover_failures fuel w [] = eret IterContinue"
| "recover_failures fuel w ((n, code) # fs) =
     ebind (handle_group_step_failure fuel w n code) (\<lambda>r. case r of
       IterContinue \<Rightarrow> recover_failures fuel w fs
     | IterEnded wo \<Rightarrow> eret (IterEnded wo))"

definition parallel_iteration :: "nat \<Rightarrow> world \<Rightarrow> workflow_step list \<Rightarrow> iteration_outcome eng" where
  "parallel_iteration fuel w ready =
     ebind (run_parallel_group fuel w ready) (\<lambda>g. case g of
       GroupEnded wo \<Rightarrow> eret (IterEnded wo)
     | GroupRewound \<Rightarrow> eret IterContinue
     | Drained failed \<Rightarrow> recover_failures fuel w failed)"

definition report_completed_run :: "workflow_outcome eng" where
  "report_completed_run = ebind report_progress (\<lambda>_. report_outcome Completed)"

text \<open>One turn of the outer loop.\<close>

definition run_iteration :: "nat \<Rightarrow> world \<Rightarrow> iteration_outcome eng" where
  "run_iteration fuel w =
     ebind (cancel_requested w) (\<lambda>cancelled.
     if cancelled then iter_ended (cancel_run w)
     else
       ebind (eget (\<lambda>e. is_complete (en_state e))) (\<lambda>complete.
       if complete then iter_ended report_completed_run
       else
         ebind (\<lambda>e. elift (next_ready_steps e) e) (\<lambda>ready.
         ebind (eget en_max_concurrent) (\<lambda>limit.
           if 1 < length ready \<and> limit \<noteq> Some 1
           then parallel_iteration fuel w ready
           else run_single_step_iteration fuel w))))"

fun run_loop :: "nat \<Rightarrow> world \<Rightarrow> workflow_outcome eng" where
  "run_loop 0 w = ewait"
| "run_loop (Suc fuel) w =
     ebind (run_iteration fuel w) (\<lambda>r. case r of
       IterContinue \<Rightarrow> run_loop fuel w
     | IterEnded wo \<Rightarrow> eret wo)"

definition run_to_completion :: "nat \<Rightarrow> world \<Rightarrow> workflow_outcome eng" where
  "run_to_completion fuel w = ebind report_progress (\<lambda>_. run_loop fuel w)"

subsection \<open>Starting and resuming\<close>

definition workflow_name_for :: "workflow \<Rightarrow> string" where
  "workflow_name_for w = (case wf_title w of Some t \<Rightarrow> t | None \<Rightarrow> ''workflow'')"

text \<open>\<open>assemble\<close>: the configuration is what the session resolved.\<close>

record engine_config =
  cfg_agent :: "string option"
  cfg_model :: "string option"
  cfg_max_concurrent :: "nat option"

definition assemble :: "engine_config \<Rightarrow> workflow \<Rightarrow> workflow_dag \<Rightarrow> workflow_state \<Rightarrow> engine" where
  "assemble cfg w d st =
     \<lparr>en_workflow = w, en_dag = d, en_state = st, en_config_agent = cfg_agent cfg,
      en_config_model = cfg_model cfg, en_active = [], en_max_concurrent = cfg_max_concurrent cfg,
      en_current_step = None, en_last_identity = None, en_current_agent = None,
      en_current_model = None, en_yolo = False, en_abort_triggered = False, en_last_exit = None,
      en_auth_retries = {}, en_auto_retried = {}, en_next_launch_id = 0, en_group_prompts = False,
      en_tick = 0, en_log = []\<rparr>"

text \<open>\<open>hash\<close> is SHA-256 of the serialized workflow (\<open>compute_workflow_hash\<close>).\<close>

definition engine_new ::
  "engine_config \<Rightarrow> (workflow \<Rightarrow> string) \<Rightarrow> nat \<Rightarrow> nat \<Rightarrow> nat option \<Rightarrow> workflow \<Rightarrow> (engine_error, engine) result" where
  "engine_new cfg hash now uuid wi w =
     (case build_dag (wf_steps w) of
        Inl x \<Rightarrow> Inl (DataErr x)
      | Inr d \<Rightarrow> Inr (assemble cfg w d
                   (new_state now uuid (workflow_name_for w) (wf_steps w) (hash w) wi)))"

text \<open>A saved state that a newer version wrote, or that belongs to another definition and is declined.\<close>

definition accept_saved ::
  "string \<Rightarrow> (engine_error, bool) result \<Rightarrow> workflow_state \<Rightarrow> (engine_error, workflow_state) result" where
  "accept_saved hash confirm saved =
     (if workflow_state_schema_version < schema_version saved
      then Inl (UnsupportedWorkflowSchemaVersion (schema_version saved) workflow_state_schema_version)
      else if workflow_hash saved \<noteq> hash
      then rbind confirm (\<lambda>ok.
             if ok then Inr saved
             else Inl (EngineResumeIncompatible ''user declined to resume against drifted workflow''))
      else Inr saved)"

definition align_state :: "workflow \<Rightarrow> workflow_state \<Rightarrow> workflow_state" where
  "align_state w st =
     (let infos = map step_info_of (wf_steps w) in
      st\<lparr>st_steps := infos,
         step_states := fold (\<lambda>n m. hm_or_insert n Pending m) (map si_name infos) (step_states st)\<rparr>)"

definition reset_to_pending :: "nat \<Rightarrow> string list \<Rightarrow> workflow_state \<Rightarrow> workflow_state" where
  "reset_to_pending now ns st = fold (\<lambda>n. set_status now n Pending) ns st"

definition prepare_resumed :: "nat \<Rightarrow> workflow \<Rightarrow> workflow_dag \<Rightarrow> workflow_state \<Rightarrow> workflow_state" where
  "prepare_resumed now w d saved =
     (let st1 = align_state w (fst (retain_steps_in now d saved));
          st2 = reset_to_pending now (interrupted_running_steps st1) st1
      in reset_to_pending now (unrecovered_steps st2) st2)"

definition resume_warnings :: "nat \<Rightarrow> workflow \<Rightarrow> workflow_dag \<Rightarrow> workflow_state \<Rightarrow> effect list" where
  "resume_warnings now w d saved =
     (let (st0, orphans) = retain_steps_in now d saved;
          st1 = align_state w st0;
          interrupted = interrupted_running_steps st1;
          st2 = reset_to_pending now interrupted st1
      in map Eff_resume_warning (filter (\<lambda>ns. ns \<noteq> []) [orphans, interrupted, unrecovered_steps st2]))"

text \<open>\<open>load\<close> is what the state store found; \<open>confirm\<close> the user's answer about a drifted definition.\<close>

definition engine_resume ::
  "engine_config \<Rightarrow> (workflow \<Rightarrow> string) \<Rightarrow> nat \<Rightarrow> nat \<Rightarrow> nat option \<Rightarrow>
   (data_error, workflow_state option) result \<Rightarrow> (engine_error, bool) result \<Rightarrow>
   workflow \<Rightarrow> (engine_error, engine) result" where
  "engine_resume cfg hash now uuid wi load confirm w =
     (case build_dag (wf_steps w) of
        Inl x \<Rightarrow> Inl (DataErr x)
      | Inr d \<Rightarrow>
          rbind (data_result load) (\<lambda>saved.
          rbind (case saved of
                   Some st \<Rightarrow> accept_saved (hash w) confirm st
                 | None \<Rightarrow> Inr (new_state now uuid (workflow_name_for w) (wf_steps w) (hash w) wi)) (\<lambda>st.
          Inr ((assemble cfg w d (prepare_resumed now w d st))
                 \<lparr>en_log := rev (resume_warnings now w d st)\<rparr>))))"

end
