(* ===== verification/Engine_Logic.thy ===== *)
theory Engine_Logic
  imports Workflow_Run
begin

text \<open>
  A small Hoare logic for engine methods. Most methods change nothing but the log, the clock and
  the flags of slots: they are \<open>quiet\<close>, and a quiet method keeps every predicate that reads only the
  \<open>core\<close> of the engine. The locale \<open>core_predicate\<close> is that interface.
\<close>

named_theorems quiet_intros \<open>methods that leave the core of the engine alone\<close>

subsection \<open>Quiet methods\<close>

fun is_launch :: "effect \<Rightarrow> bool" where
  "is_launch (Eff_launching _ _ _) = True"
| "is_launch _ = False"

definition core ::
  "engine \<Rightarrow> (workflow \<times> workflow_dag \<times> workflow_state \<times> nat option \<times> bool \<times> string option)
     \<times> string list \<times> string option \<times> effect list" where
  "core e = ((en_workflow e, en_dag e, en_state e, en_max_concurrent e, en_yolo e, en_config_agent e),
     map sl_step (en_active e), en_current_step e, filter is_launch (en_log e))"

definition quiet :: "'a eng \<Rightarrow> bool" where
  "quiet m \<longleftrightarrow> (\<forall>e. core (snd (m e)) = core e)"

lemma quietI: "(\<And>e. core (snd (m e)) = core e) \<Longrightarrow> quiet m"
  by (simp add: quiet_def)

lemma quiet_app: "quiet m \<Longrightarrow> core (snd (m e)) = core e"
  by (simp add: quiet_def)

lemma quiet_basic [quiet_intros]:
  "quiet (eret x)" "quiet (efail r)" "quiet ewait" "quiet (eget f)" "quiet (observe g)"
  by (simp_all add: quiet_def eret_def efail_def ewait_def eget_def observe_def core_def)

lemma quiet_bind [quiet_intros]:
  assumes "quiet m" and "\<And>x. quiet (k x)"
  shows "quiet (ebind m k)"
  unfolding quiet_def
proof
  fix e
  show "core (snd (ebind m k e)) = core e"
    using quiet_app [OF assms(1), of e] quiet_app [OF assms(2)]
    by (cases "m e") (auto simp: ebind_def split: ran.splits)
qed

lemma quiet_elift [quiet_intros]: "quiet (elift r)"
  by (cases r) (simp_all add: elift_def quiet_basic)

lemma quiet_if [quiet_intros]: "quiet m \<Longrightarrow> quiet k \<Longrightarrow> quiet (if b then m else k)"
  by simp

lemma quiet_ask [quiet_intros]: "quiet (ask f)"
  by (simp add: ask_def quiet_intros)

lemma quiet_eff [quiet_intros]: "\<not> is_launch x \<Longrightarrow> quiet (eff x)"
  by (simp add: quiet_def eff_def emod_def core_def)

lemma quiet_elift_of [quiet_intros]: "quiet (\<lambda>e. elift (f e) e)"
  by (rule quietI) (rule quiet_app [OF quiet_elift])

lemma quiet_eff_of [quiet_intros]: "(\<And>e. \<not> is_launch (x e)) \<Longrightarrow> quiet (\<lambda>e. eff (x e) e)"
  by (rule quietI) (simp add: quiet_app [OF quiet_eff])

lemma quiet_eseq [quiet_intros]: "(\<And>m. m \<in> set ms \<Longrightarrow> quiet m) \<Longrightarrow> quiet (eseq ms)"
  by (induction ms) (auto intro!: quiet_intros)

lemma quiet_cancel_requested [quiet_intros]: "quiet (cancel_requested w)"
  by (simp add: cancel_requested_def quiet_intros)

lemma quiet_clock [quiet_intros]: "quiet (clock w)"
  by (simp add: clock_def quiet_intros)

lemma quiet_show_board [quiet_intros]: "quiet (show_board w a)"
  unfolding show_board_def by (rule quietI) (rule quiet_app [OF quiet_ask])

lemma quiet_show_current_board [quiet_intros]: "quiet (show_current_board w)"
  unfolding show_current_board_def by (intro quiet_bind quiet_elift_of quiet_show_board)

lemma quiet_report_progress [quiet_intros]: "quiet report_progress"
  by (rule quietI) (simp add: report_progress_def quiet_app [OF quiet_eff])

lemma quiet_persist [quiet_intros]: "quiet (persist w)"
  unfolding persist_def
  by (rule quiet_bind [OF quiet_basic(5)]) (auto intro!: quiet_intros split: sum.splits)

lemma quiet_report_outcome [quiet_intros]: "quiet (report_outcome wo)"
  unfolding report_outcome_def by (intro quiet_intros) simp

lemma quiet_find_step [quiet_intros]: "quiet (find_step n)"
  unfolding find_step_def by (rule quiet_elift_of)

lemma map_update_first: "(\<And>x. g (f x) = g x) \<Longrightarrow> map g (update_first P f xs) = map g xs"
  by (induction xs) auto

lemma quiet_update_slot [quiet_intros]: "(\<And>s. sl_step (f s) = sl_step s) \<Longrightarrow> quiet (update_slot n f)"
  by (simp add: quiet_def update_slot_def emod_def core_def map_update_first)

lemma quiet_update_focused [quiet_intros]: "(\<And>s. sl_step (f s) = sl_step s) \<Longrightarrow> quiet (update_focused f)"
  by (auto simp: quiet_def update_focused_def emod_def core_def split: list.splits)

lemma quiet_flags [quiet_intros]:
  "quiet (emod (\<lambda>e. e\<lparr>en_last_exit := x\<rparr>))" "quiet (emod (\<lambda>e. e\<lparr>en_abort_triggered := b\<rparr>))"
  "quiet (emod (\<lambda>e. e\<lparr>en_auth_retries := f e\<rparr>))" "quiet (emod (\<lambda>e. e\<lparr>en_auto_retried := g e\<rparr>))"
  "quiet (emod (\<lambda>e. e\<lparr>en_last_identity := i\<rparr>))"
  by (simp_all add: quiet_def emod_def core_def)

lemma quiet_mark_focused_killed [quiet_intros]: "quiet mark_focused_killed"
  unfolding mark_focused_killed_def by (intro quiet_intros) simp

lemma quiet_set_focused [quiet_intros]: "quiet (set_focused_execution x)"
  unfolding set_focused_execution_def by (intro quiet_intros) simp

lemma quiet_take_focused [quiet_intros]: "quiet take_focused_execution"
  unfolding take_focused_execution_def by (intro quiet_intros) simp

lemma quiet_kill_current [quiet_intros]: "quiet (kill_current_container h)"
  unfolding kill_current_container_def
  by (auto intro!: quiet_intros split: option.splits)

lemma quiet_kill_unless_finished [quiet_intros]: "quiet (kill_unless_finished h f)"
  unfolding kill_unless_finished_def by (intro quiet_intros)

lemma quiet_poll_finished [quiet_intros]: "quiet (poll_finished w x)"
  unfolding poll_finished_def by (intro quiet_intros)

lemma quiet_inject_focused [quiet_intros]: "quiet (inject_focused w p)"
  unfolding inject_focused_def by (auto intro!: quiet_intros split: option.splits)

lemma quiet_maybe_dump [quiet_intros]: "quiet (maybe_dump_step_failure n c)"
  unfolding maybe_dump_step_failure_def
  by (intro quiet_if quiet_basic quietI) (auto intro!: quiet_app quiet_intros split: option.splits)

lemma quiet_recover_auth [quiet_intros]: "quiet (recover_auth_failure w n)"
  unfolding recover_auth_failure_def
  by (rule quietI) (auto intro!: quiet_app quiet_intros split: option.splits)

lemma quiet_countdown_ends [quiet_intros]: "quiet (countdown_ends n r)"
  unfolding countdown_ends_def by (intro quiet_intros) simp

lemma quiet_retry_countdown_loop [quiet_intros]: "quiet (retry_countdown_loop fuel w n start)"
  by (induction fuel) (auto intro!: quiet_intros split: yolo_tick_outcome.splits)

lemma quiet_retry_countdown [quiet_intros]: "quiet (run_failure_retry_countdown fuel w n)"
  unfolding run_failure_retry_countdown_def by (intro quiet_intros) simp_all

lemma quiet_drive_yolo [quiet_intros]: "quiet (drive_yolo_countdown fuel w n start)"
  by (induction fuel)
    (auto intro!: quiet_intros split: yolo_tick_outcome.splits step_event.splits stuck_event.splits
      engine_request.splits)

lemma quiet_mid_step_yolo [quiet_intros]: "quiet (run_mid_step_yolo_countdown fuel w n)"
  unfolding run_mid_step_yolo_countdown_def by (intro quiet_intros) simp

lemma quiet_persist_or_log [quiet_intros]: "quiet (persist_or_log w)"
proof (rule quietI)
  fix e
  show "core (snd (persist_or_log w e)) = core e"
    using quiet_app [OF quiet_persist, of w e]
    by (cases "persist w e") (simp add: persist_or_log_def)
qed

lemma quiet_report_spawn_failed [quiet_intros]: "quiet (report_spawn_failed s)"
  unfolding report_spawn_failed_def
  by (rule quietI) (auto intro!: quiet_app quiet_intros split: option.splits step_state.splits)

lemma quiet_cancel_slot [quiet_intros]: "quiet (cancel_slot s)"
  unfolding cancel_slot_def by (auto intro!: quiet_intros)

lemma quiet_stuck_event [quiet_intros]: "quiet (handle_parallel_stuck_event w n ev)"
  unfolding handle_parallel_stuck_event_def
  by (auto intro!: quiet_intros split: stuck_event.splits option.splits)

lemma quiet_ask_group [quiet_intros]: "quiet (ask_parallel_group w q)"
  unfolding ask_parallel_group_def by (intro quiet_intros)

lemma quiet_step_select [quiet_intros]: "quiet (step_select w)"
  unfolding step_select_def by (intro quiet_intros)

lemma quiet_group_select [quiet_intros]: "quiet (group_select w)"
  unfolding group_select_def by (intro quiet_intros)

subsection \<open>Triples\<close>

definition valid ::
  "(engine \<Rightarrow> bool) \<Rightarrow> 'a eng \<Rightarrow> ('a \<Rightarrow> engine \<Rightarrow> bool) \<Rightarrow> (engine \<Rightarrow> bool) \<Rightarrow> bool" where
  "valid P m Q R \<longleftrightarrow>
     (\<forall>e. P e \<longrightarrow> (case m e of (Ok x, e') \<Rightarrow> Q x e' | (_, e') \<Rightarrow> R e'))"

lemma valid_ret: "(\<And>e. P e \<Longrightarrow> Q x e) \<Longrightarrow> valid P (eret x) Q R"
  by (simp add: valid_def eret_def)

lemma valid_fail: "(\<And>e. P e \<Longrightarrow> R e) \<Longrightarrow> valid P (efail r) Q R"
  by (simp add: valid_def efail_def)

lemma valid_wait: "(\<And>e. P e \<Longrightarrow> R e) \<Longrightarrow> valid P ewait Q R"
  by (simp add: valid_def ewait_def)

lemma valid_bind:
  "valid P m Q' R \<Longrightarrow> (\<And>x. valid (Q' x) (k x) Q R) \<Longrightarrow> valid P (ebind m k) Q R"
  by (fastforce simp: valid_def ebind_def split: prod.splits ran.splits)

lemma valid_conseq:
  "valid P' m Q' R' \<Longrightarrow> (\<And>e. P e \<Longrightarrow> P' e) \<Longrightarrow> (\<And>x e. Q' x e \<Longrightarrow> Q x e) \<Longrightarrow>
   (\<And>e. R' e \<Longrightarrow> R e) \<Longrightarrow> valid P m Q R"
  by (fastforce simp: valid_def split: prod.splits ran.splits)

lemma valid_pre: "valid P' m Q R \<Longrightarrow> (\<And>e. P e \<Longrightarrow> P' e) \<Longrightarrow> valid P m Q R"
  by (erule valid_conseq) auto

lemma valid_post: "valid P m Q' R \<Longrightarrow> (\<And>x e. Q' x e \<Longrightarrow> Q x e) \<Longrightarrow> valid P m Q R"
  by (erule valid_conseq) auto

lemma valid_get: "(\<And>e. P e \<Longrightarrow> Q (f e) e) \<Longrightarrow> valid P (eget f) Q R"
  by (simp add: valid_def eget_def)

lemma valid_mod: "(\<And>e. P e \<Longrightarrow> Q () (f e)) \<Longrightarrow> valid P (emod f) Q R"
  by (simp add: valid_def emod_def)

lemma valid_pure: "(b \<Longrightarrow> valid P m Q R) \<Longrightarrow> valid (\<lambda>e. b \<and> P e) m Q R"
  by (auto simp: valid_def)

lemma valid_pure2: "(b \<Longrightarrow> valid P m Q R) \<Longrightarrow> valid (\<lambda>e. P e \<and> b) m Q R"
  by (auto simp: valid_def)

lemma valid_if:
  "(b \<Longrightarrow> valid P m Q R) \<Longrightarrow> (\<not> b \<Longrightarrow> valid P k Q R) \<Longrightarrow> valid P (if b then m else k) Q R"
  by simp

lemma valid_disj:
  "valid P m Q R \<Longrightarrow> valid P' m Q R \<Longrightarrow> valid (\<lambda>e. P e \<or> P' e) m Q R"
  by (auto simp: valid_def)

lemma valid_eta: "(\<And>e0. valid (\<lambda>e. P e \<and> e = e0) (m e0) Q R) \<Longrightarrow> valid P (\<lambda>e. m e e) Q R"
  by (simp add: valid_def)

lemma valid_elift:
  "(\<And>x e. r = Inr x \<Longrightarrow> P e \<Longrightarrow> Q x e) \<Longrightarrow> (\<And>e. P e \<Longrightarrow> R e) \<Longrightarrow> valid P (elift r) Q R"
  by (cases r) (auto simp: elift_def intro: valid_ret valid_fail)

lemma valid_seq_Nil: "(\<And>e. P e \<Longrightarrow> Q () e) \<Longrightarrow> valid P (eseq []) Q R"
  by (simp add: valid_ret)

lemma valid_seq_Cons: "valid P m (\<lambda>_. P') R \<Longrightarrow> valid P' (eseq ms) Q R \<Longrightarrow> valid P (eseq (m # ms)) Q R"
  by (simp add: valid_bind)

lemma validD:
  "valid P m Q R \<Longrightarrow> P e \<Longrightarrow> m e = (Ok x, e') \<Longrightarrow> Q x e'"
  "valid P m Q R \<Longrightarrow> P e \<Longrightarrow> m e = (Err r, e') \<Longrightarrow> R e'"
  "valid P m Q R \<Longrightarrow> P e \<Longrightarrow> m e = (Waiting, e') \<Longrightarrow> R e'"
  by (auto simp: valid_def split: prod.splits ran.splits)

text \<open>The interface of a predicate that only reads the core.\<close>

locale core_predicate =
  fixes P :: "engine \<Rightarrow> bool"
  assumes core_only: "core e = core e' \<Longrightarrow> P e \<Longrightarrow> P e'"
begin

lemma quiet_keeps:
  assumes "quiet m" and "\<And>e. P e \<Longrightarrow> R e"
  shows "valid P m (\<lambda>_. P) R"
  unfolding valid_def
proof (intro allI impI)
  fix e
  assume "P e"
  then have "P (snd (m e))" using quiet_app [OF assms(1)] core_only by metis
  then show "case m e of (Ok x, e') \<Rightarrow> P e' | (_, e') \<Rightarrow> R e'"
    using assms(2) by (cases "m e") (auto split: ran.splits)
qed

lemma quiet_then:
  assumes "quiet m" and "\<And>e. P e \<Longrightarrow> R e" and "\<And>x. valid P (k x) Q R"
  shows "valid P (ebind m k) Q R"
  by (rule valid_bind [OF quiet_keeps [OF assms(1,2)] assms(3)])

lemma quiet_first:
  assumes "quiet m" and "\<And>e. P e \<Longrightarrow> R e" and "valid P (eseq ms) Q R"
  shows "valid P (eseq (m # ms)) Q R"
  by (rule valid_seq_Cons [OF quiet_keeps [OF assms(1,2)] assms(3)])

end

lemma core_predicateD: "core_predicate P \<Longrightarrow> quiet m \<Longrightarrow> (\<And>e. P e \<Longrightarrow> R e) \<Longrightarrow> valid P m (\<lambda>_. P) R"
  by (rule core_predicate.quiet_keeps)

end
