(* ===== verification/Run_Safety.thy ===== *)
theory Run_Safety
  imports Engine_Logic
begin

text \<open>
  What every run of the workflow engine keeps, whatever the containers, the users, the state store
  and the cancellation token do, and whatever answer ends it - an error and running out of fuel
  included: the invariant \<open>run_inv\<close>. On top of it, what holds when a run ends with an outcome.
\<close>

subsection \<open>The invariant\<close>

definition names_of :: "workflow \<Rightarrow> string set" where
  "names_of W = ws_name ` set (wf_steps W)"

definition deps_in :: "workflow_dag \<Rightarrow> string \<Rightarrow> string set" where
  "deps_in D n = set (deps_of (dag_edges D) n)"

definition launches_ok :: "workflow_dag \<Rightarrow> effect list \<Rightarrow> bool" where
  "launches_ok D es \<longleftrightarrow> (\<forall>n a c. Eff_launching n a c \<in> set es \<longrightarrow> deps_in D n \<subseteq> c)"

definition run_inv :: "workflow \<Rightarrow> workflow_dag \<Rightarrow> nat option \<Rightarrow> engine \<Rightarrow> bool" where
  "run_inv W D M e \<longleftrightarrow>
     en_workflow e = W \<and> en_dag e = D \<and> en_max_concurrent e = M \<and>
     build_dag (wf_steps W) = Inr D \<and>
     state_ok (en_state e) \<and>
     (\<forall>n. status_of (en_state e) n \<noteq> None \<longleftrightarrow> n \<in> names_of W) \<and>
     sl_step ` set (en_active e) \<subseteq> names_of W \<and>
     (\<forall>c. en_current_step e = Some c \<longrightarrow> c \<in> names_of W) \<and>
     length (en_active e) \<le> slot_cap M (length (wf_steps W)) \<and>
     launches_ok D (en_log e)"

definition running :: "engine \<Rightarrow> string set" where
  "running e = {n. \<exists>c. status_of (en_state e) n = Some (Running c)}"

text \<open>The invariant while only the steps of \<open>R\<close> may be running.\<close>

definition J :: "workflow \<Rightarrow> workflow_dag \<Rightarrow> nat option \<Rightarrow> string set \<Rightarrow> engine \<Rightarrow> bool" where
  "J W D M R e \<longleftrightarrow> run_inv W D M e \<and> running e \<subseteq> R"

definition closed_as :: "step_state \<Rightarrow> engine \<Rightarrow> string \<Rightarrow> bool" where
  "closed_as s e n \<longleftrightarrow> n \<in> completed_steps (en_state e) \<or> status_of (en_state e) n = Some s"

fun outcome_ok :: "workflow \<Rightarrow> workflow_outcome \<Rightarrow> engine \<Rightarrow> bool" where
  "outcome_ok W Completed e = is_complete (en_state e)"
| "outcome_ok W Aborted e = (\<forall>n \<in> names_of W. closed_as Cancelled e n)"
| "outcome_ok W RunCancelled e = (\<forall>n \<in> names_of W. closed_as Cancelled e n)"
| "outcome_ok W (RunFailed m c) e =
     ((\<exists>text. status_of (en_state e) m = Some (Failed c text)) \<and>
      (\<forall>n \<in> names_of W - {m}. closed_as Cancelled e n))"
| "outcome_ok W Paused e = True"
| "outcome_ok W CompletedTeardownFailed e = False"

definition ended :: "workflow \<Rightarrow> workflow_dag \<Rightarrow> nat option \<Rightarrow> workflow_outcome \<Rightarrow> engine \<Rightarrow> bool" where
  "ended W D M wo e \<longleftrightarrow> J W D M {} e \<and> outcome_ok W wo e"

subsection \<open>They read only the core\<close>

lemma core_fields:
  assumes "core e = core e'"
  shows "en_workflow e' = en_workflow e" "en_dag e' = en_dag e" "en_state e' = en_state e"
    "en_max_concurrent e' = en_max_concurrent e" "en_current_step e' = en_current_step e"
    "map sl_step (en_active e') = map sl_step (en_active e)"
    "sl_step ` set (en_active e') = sl_step ` set (en_active e)"
    "length (en_active e') = length (en_active e)"
    "launches_ok D (en_log e') = launches_ok D (en_log e)"
proof -
  from assms show f: "en_workflow e' = en_workflow e" "en_dag e' = en_dag e"
    "en_state e' = en_state e" "en_max_concurrent e' = en_max_concurrent e"
    "en_current_step e' = en_current_step e"
    "map sl_step (en_active e') = map sl_step (en_active e)"
    by (simp_all add: core_def)
  from f(6) show "length (en_active e') = length (en_active e)" by (rule map_eq_imp_length_eq)
  from f(6) show "sl_step ` set (en_active e') = sl_step ` set (en_active e)"
    by (metis list.set_map)
  have "launches_ok D es \<longleftrightarrow> launches_ok D (filter is_launch es)" for es
    by (auto simp: launches_ok_def)
  moreover from assms have "filter is_launch (en_log e') = filter is_launch (en_log e)"
    by (simp add: core_def)
  ultimately show "launches_ok D (en_log e') = launches_ok D (en_log e)" by metis
qed

lemma core_run_inv:
  assumes "core e = core e'"
  shows "run_inv W D M e \<Longrightarrow> run_inv W D M e'"
  unfolding run_inv_def by (simp add: core_fields [OF assms])

lemma core_running: "core e = core e' \<Longrightarrow> running e' = running e"
  by (simp add: running_def core_def)

lemma core_closed: "core e = core e' \<Longrightarrow> closed_as s e' n = closed_as s e n"
  by (simp add: closed_as_def core_def)

lemma core_outcome:
  assumes "core e = core e'"
  shows "outcome_ok W wo e \<Longrightarrow> outcome_ok W wo e'"
  by (cases wo) (simp_all add: core_closed [OF assms] core_fields(3) [OF assms])

interpretation inv: core_predicate "run_inv W D M"
  by unfold_locales (rule core_run_inv)

interpretation jinv: core_predicate "J W D M R"
  by unfold_locales (use core_running core_run_inv in \<open>unfold J_def, blast\<close>)

interpretation endinv: core_predicate "ended W D M wo"
  by unfold_locales (use jinv.core_only core_outcome in \<open>unfold ended_def, blast\<close>)

lemma J_inv: "J W D M R e \<Longrightarrow> run_inv W D M e"
  by (simp add: J_def)

lemma J_mono: "J W D M R e \<Longrightarrow> R \<subseteq> R' \<Longrightarrow> J W D M R' e"
  by (auto simp: J_def)

lemma ended_inv: "ended W D M wo e \<Longrightarrow> run_inv W D M e"
  by (simp add: ended_def J_def)

lemma j_quiet:
  "quiet m \<Longrightarrow> (\<And>x. valid (J W D M R) (k x) Q (run_inv W D M)) \<Longrightarrow>
     valid (J W D M R) (ebind m k) Q (run_inv W D M)"
  "quiet u \<Longrightarrow> valid (J W D M R) (eseq us) Q' (run_inv W D M) \<Longrightarrow>
     valid (J W D M R) (eseq (u # us)) Q' (run_inv W D M)"
  by (rule jinv.quiet_then jinv.quiet_first; simp add: J_inv)+

lemma inv_quiet:
  "quiet m \<Longrightarrow> (\<And>x. valid (run_inv W D M) (k x) Q (run_inv W D M)) \<Longrightarrow>
     valid (run_inv W D M) (ebind m k) Q (run_inv W D M)"
  "quiet u \<Longrightarrow> valid (run_inv W D M) (eseq us) Q' (run_inv W D M) \<Longrightarrow>
     valid (run_inv W D M) (eseq (u # us)) Q' (run_inv W D M)"
  by (rule inv.quiet_then inv.quiet_first; simp)+

subsection \<open>Setting a status\<close>

definition upd :: "world \<Rightarrow> string \<Rightarrow> step_state \<Rightarrow> engine \<Rightarrow> engine" where
  "upd w n s e = e\<lparr>en_state := set_status (wd_now w (en_tick e)) n s (en_state e)\<rparr>"

lemma valid_set_step: "(\<And>e. P e \<Longrightarrow> Q () (upd w n s e)) \<Longrightarrow> valid P (set_step w n s) Q R"
  by (simp add: valid_def set_step_def emod_def upd_def)

lemma upd_simps [simp]:
  "en_workflow (upd w n s e) = en_workflow e" "en_dag (upd w n s e) = en_dag e"
  "en_max_concurrent (upd w n s e) = en_max_concurrent e" "en_active (upd w n s e) = en_active e"
  "en_current_step (upd w n s e) = en_current_step e" "en_log (upd w n s e) = en_log e"
  "status_of (en_state (upd w n s e)) m = (if m = n then Some s else status_of (en_state e) m)"
  "completed_steps (en_state (upd w n s e))
     = (if completing s then insert n (completed_steps (en_state e)) else completed_steps (en_state e) - {n})"
  "state_ok (en_state e) \<Longrightarrow> state_ok (en_state (upd w n s e))"
  by (simp_all add: upd_def set_status_ok)

lemma upd_inv: "run_inv W D M e \<Longrightarrow> n \<in> names_of W \<Longrightarrow> run_inv W D M (upd w n s e)"
  unfolding run_inv_def by auto

lemma upd_running:
  "running (upd w n s e) = (if is_running s then insert n (running e) else running e - {n})"
  by (cases s) (auto simp: running_def)

lemma upd_J:
  "J W D M R e \<Longrightarrow> n \<in> names_of W \<Longrightarrow>
     J W D M (if is_running s then insert n R else R - {n}) (upd w n s e)"
  by (auto simp: J_def upd_inv upd_running)

lemma upd_J_open: "J W D M R e \<Longrightarrow> n \<in> names_of W \<Longrightarrow> \<not> is_running s \<Longrightarrow> J W D M (R - {n}) (upd w n s e)"
  using upd_J [of W D M R e n s w] by simp

lemma set_J:
  assumes "n \<in> names_of W" and "\<not> is_running s" and "R - {n} \<subseteq> R'"
  shows "valid (J W D M R) (set_step w n s) (\<lambda>_. J W D M R') X"
  using assms upd_J_open J_mono by (intro valid_set_step) blast

lemma set_inv: "n \<in> names_of W \<Longrightarrow> valid (run_inv W D M) (set_step w n s) (\<lambda>_. run_inv W D M) X"
  by (intro valid_set_step upd_inv)

text \<open>The usual tail of an operation: the state is set and saved.\<close>

lemma set_then_persist:
  assumes "n \<in> names_of W" and "\<not> is_running s" and "R - {n} \<subseteq> R'"
  shows "valid (J W D M R) (eseq [set_step w n s, persist w]) (\<lambda>_. J W D M R') (run_inv W D M)"
  by (rule valid_seq_Cons [OF set_J [OF assms]])
    (intro j_quiet quiet_intros valid_seq_Nil)

subsection \<open>Closing every unfinished step\<close>

definition all_closed :: "workflow \<Rightarrow> step_state \<Rightarrow> engine \<Rightarrow> bool" where
  "all_closed W s e \<longleftrightarrow> (\<forall>n \<in> names_of W. closed_as s e n)"

lemma core_all_closed: "core e = core e' \<Longrightarrow> all_closed W s e \<Longrightarrow> all_closed W s e'"
  using core_closed [of e e' s] unfolding all_closed_def by blast

lemma mark_unfinished_valid:
  "set ns \<subseteq> names_of W \<Longrightarrow> S \<union> set ns \<subseteq> S' \<Longrightarrow>
     valid (\<lambda>e. run_inv W D M e \<and> (\<forall>n \<in> S. closed_as s e n)) (mark_unfinished w s ns)
       (\<lambda>_ e. run_inv W D M e \<and> (\<forall>n \<in> S \<union> set ns. closed_as s e n)) X"
proof (induction ns arbitrary: S)
  case Nil
  then show ?case by (auto intro: valid_ret)
next
  case (Cons n ns)
  let ?P = "\<lambda>S e. run_inv W D M e \<and> (\<forall>n \<in> S. closed_as s e n)"
  have n: "n \<in> names_of W" using Cons.prems by simp
  have rest: "valid (?P (insert n S)) (mark_unfinished w s ns) (\<lambda>_. ?P (S \<union> set (n # ns))) X"
    using Cons.IH [of "insert n S"] Cons.prems by simp
  show ?case
    unfolding mark_unfinished.simps
  proof (rule valid_bind [OF valid_get [where Q = "\<lambda>d e. ?P S e \<and> (d \<longrightarrow> closed_as s e n)"]])
    fix e assume "?P S e"
    then show "?P S e \<and> (n \<in> completed_steps (en_state e) \<longrightarrow> closed_as s e n)"
      by (simp add: closed_as_def)
  next
    fix d
    show "valid (\<lambda>e. ?P S e \<and> (d \<longrightarrow> closed_as s e n))
       (if d then mark_unfinished w s ns else ebind (set_step w n s) (\<lambda>_. mark_unfinished w s ns))
       (\<lambda>_. ?P (S \<union> set (n # ns))) X"
    proof (rule valid_if)
      assume d
      then show "valid (\<lambda>e. ?P S e \<and> (d \<longrightarrow> closed_as s e n)) (mark_unfinished w s ns)
          (\<lambda>_. ?P (S \<union> set (n # ns))) X"
        by (intro valid_pre [OF rest]) auto
    next
      show "valid (\<lambda>e. ?P S e \<and> (d \<longrightarrow> closed_as s e n))
         (ebind (set_step w n s) (\<lambda>_. mark_unfinished w s ns)) (\<lambda>_. ?P (S \<union> set (n # ns))) X"
        by (rule valid_bind [OF valid_set_step rest]) (auto simp: upd_inv [OF _ n] closed_as_def)
    qed
  qed
qed

lemma mark_all_valid:
  "valid (run_inv W D M) (mark_all_unfinished w s) (\<lambda>_ e. run_inv W D M e \<and> all_closed W s e) X"
proof -
  have m: "valid (run_inv W D M) (mark_unfinished w s (map ws_name (wf_steps W)))
      (\<lambda>_ e. run_inv W D M e \<and> all_closed W s e) X"
    using mark_unfinished_valid [of "map ws_name (wf_steps W)" W "{}" UNIV D M s w X]
    by (simp add: names_of_def all_closed_def)
  show ?thesis
    unfolding valid_def
  proof (intro allI impI)
    fix e assume e: "run_inv W D M e"
    then have "mark_all_unfinished w s e = mark_unfinished w s (map ws_name (wf_steps W)) e"
      by (simp add: mark_all_unfinished_def run_inv_def)
    with m e show "case mark_all_unfinished w s e of
        (Ok x, e') \<Rightarrow> run_inv W D M e' \<and> all_closed W s e' | (_, e') \<Rightarrow> X e'"
      by (simp add: valid_def)
  qed
qed

lemma all_closed_running:
  assumes "run_inv W D M e" and "all_closed W s e" and "\<not> is_running s"
  shows "running e = {}"
proof -
  have "status_of (en_state e) n \<noteq> Some (Running c)" for n c
  proof
    assume r: "status_of (en_state e) n = Some (Running c)"
    with assms(1) have "n \<in> names_of W" by (auto simp: run_inv_def)
    with assms(2) have "closed_as s e n" by (simp add: all_closed_def)
    with r assms(1,3) show False by (auto simp: closed_as_def run_inv_def state_ok_def)
  qed
  then show ?thesis by (auto simp: running_def)
qed

lemma all_closed_complete:
  assumes "run_inv W D M e" and "all_closed W s e" and "terminal s"
  shows "is_complete (en_state e)"
proof -
  have c: "terminal t" if "completing t" for t using that by (cases t) auto
  have ok: "state_ok (en_state e)" using assms(1) by (simp add: run_inv_def)
  show ?thesis
    unfolding is_complete_iff [OF ok]
  proof (intro allI impI)
    fix n t assume t: "status_of (en_state e) n = Some t"
    then have "n \<in> names_of W" using assms(1) by (auto simp: run_inv_def)
    with assms(2) have "closed_as s e n" by (simp add: all_closed_def)
    with t ok c assms(3) show "terminal t" by (auto simp: closed_as_def state_ok_def)
  qed
qed

interpretation closedinv: core_predicate "\<lambda>e. run_inv W D M e \<and> all_closed W s e"
  by unfold_locales (use core_run_inv core_all_closed in blast)

lemma closed_quiet:
  "quiet u \<Longrightarrow> valid (\<lambda>e. run_inv W D M e \<and> all_closed W s e) (eseq us) Q (run_inv W D M) \<Longrightarrow>
     valid (\<lambda>e. run_inv W D M e \<and> all_closed W s e) (eseq (u # us)) Q (run_inv W D M)"
  by (rule closedinv.quiet_first) auto

text \<open>After everything is closed the run may be reported; a report is quiet.\<close>

lemma report_valid:
  assumes "core_predicate P" and "\<And>e. P e \<Longrightarrow> Q wo e"
  shows "valid P (report_outcome wo) Q R"
  unfolding report_outcome_def
proof (rule valid_bind)
  have "valid P (eff (Eff_outcome wo)) (\<lambda>_. P) (\<lambda>_. True)"
    by (rule core_predicateD [OF assms(1)]) (simp_all add: quiet_eff)
  then show "valid P (eff (Eff_outcome wo)) (\<lambda>_. P) R"
    by (simp add: valid_def eff_def emod_def)
  show "valid P (eret wo) Q R" by (rule valid_ret) (rule assms(2))
qed

lemma closed_ended:
  assumes "\<not> is_running s" and "terminal s \<Longrightarrow> wo \<in> {Aborted, RunCancelled} \<Longrightarrow> s = Cancelled"
    and "wo \<in> {Aborted, RunCancelled, Completed}" and "terminal s"
    and "run_inv W D M e \<and> all_closed W s e"
  shows "ended W D M wo e"
  using assms all_closed_running [of W D M e s] all_closed_complete [of W D M e s]
  by (auto simp: ended_def J_def all_closed_def)

lemma report_closed:
  assumes "s = Cancelled \<and> wo \<in> {Aborted, RunCancelled} \<or> s = Skipped \<and> wo = Completed"
  shows "valid (\<lambda>e. run_inv W D M e \<and> all_closed W s e) (report_outcome wo) (ended W D M) X"
  by (rule report_valid [OF closedinv.core_predicate_axioms])
    (use assms in \<open>auto intro!: closed_ended\<close>)

lemma stop_agents_valid: "valid (run_inv W D M) stop_active_agents (\<lambda>_. run_inv W D M) X"
  unfolding stop_active_agents_def
proof (rule valid_mod)
  fix e assume e: "run_inv W D M e"
  have "\<not> is_launch x" if "x \<in> set (stop_slot_effects s)" for s x
    using that by (auto simp: stop_slot_effects_def split: if_splits)
  then have "launches_ok D (rev (concat (map stop_slot_effects (en_active e))) @ en_log e)"
    using e by (fastforce simp: run_inv_def launches_ok_def)
  with e show "run_inv W D M (e\<lparr>en_active := [],
      en_log := rev (concat (map stop_slot_effects (en_active e))) @ en_log e\<rparr>)"
    by (simp add: run_inv_def)
qed

lemma stamp_valid:
  "valid (\<lambda>e. run_inv W D M e \<and> all_closed W s e) (stamp_cancelled w)
     (\<lambda>_ e. run_inv W D M e \<and> all_closed W s e) X"
  unfolding stamp_cancelled_def
  by (rule valid_mod)
    (auto simp: run_inv_def all_closed_def closed_as_def state_ok_def status_of_def)

lemma cancel_run_valid: "valid (run_inv W D M) (cancel_run w) (ended W D M) (run_inv W D M)"
  unfolding cancel_run_def
proof (rule valid_bind [OF _ report_closed])
  show "valid (run_inv W D M)
     (eseq [stop_active_agents, emod (\<lambda>e. e\<lparr>en_abort_triggered := False\<rparr>),
            mark_all_unfinished w Cancelled, stamp_cancelled w, persist w])
     (\<lambda>_ e. run_inv W D M e \<and> all_closed W Cancelled e) (run_inv W D M)"
    by (rule valid_seq_Cons [OF stop_agents_valid], rule inv_quiet, intro quiet_intros,
        rule valid_seq_Cons [OF mark_all_valid], rule valid_seq_Cons [OF stamp_valid],
        intro closed_quiet quiet_intros valid_seq_Nil) auto
qed simp

text \<open>Mark, save, report: the shape every other ending of a run has.\<close>

lemma mark_persist_report:
  assumes "s = Cancelled \<and> wo = Aborted \<or> s = Skipped \<and> wo = Completed"
  shows "valid (run_inv W D M) (ebind (eseq [mark_all_unfinished w s, persist w])
     (\<lambda>_. report_outcome wo)) (ended W D M) (run_inv W D M)"
proof (rule valid_bind [OF _ report_closed])
  show "valid (run_inv W D M) (eseq [mark_all_unfinished w s, persist w])
     (\<lambda>_ e. run_inv W D M e \<and> all_closed W s e) (run_inv W D M)"
    by (rule valid_seq_Cons [OF mark_all_valid]) (intro closed_quiet quiet_intros valid_seq_Nil, auto)
qed (use assms in blast)

lemma abort_valid: "valid (run_inv W D M) (handle_abort w) (ended W D M) (run_inv W D M)"
  unfolding handle_abort_def by (rule mark_persist_report) simp

lemma finish_valid: "valid (run_inv W D M) (handle_finish_workflow w) (ended W D M) (run_inv W D M)"
  unfolding handle_finish_workflow_def
  by (rule inv_quiet(1) [OF quiet_basic(4)])
    (use mark_persist_report [of Skipped Completed] in \<open>auto intro!: valid_if valid_fail simp del: eseq.simps\<close>)

lemma pause_valid: "valid (J W D M {}) (pause_run w) (ended W D M) (run_inv W D M)"
  unfolding pause_run_def
  by (intro j_quiet quiet_intros report_valid jinv.core_predicate_axioms) (simp_all add: ended_def)

end
