(* ===== verification/Run_Single_Safety.thy ===== *)
theory Run_Single_Safety
  imports Run_Safety
begin

text \<open>
  The sequential path of a run keeps the invariant, step by step: what a board's answer does, what
  a failed step leads to, and one whole iteration. \<open>Retry\<close> is the one case in which an iteration
  leaves a step running: the user went back from the first step, and it is launched again next.
\<close>

subsection \<open>Facts a method has read\<close>

lemma valid_fact: "(\<And>e. P e \<Longrightarrow> b) \<Longrightarrow> (b \<Longrightarrow> valid P m Q R) \<Longrightarrow> valid P m Q R"
  by (auto simp: valid_def)

lemma valid_bind_get:
  "(\<And>x. valid (\<lambda>e. P e \<and> f e = x) (k x) Q R) \<Longrightarrow> valid P (ebind (eget f) k) Q R"
  by (rule valid_bind [OF valid_get [where Q = "\<lambda>x e. P e \<and> f e = x"]]) auto

lemma valid_option:
  "(x = None \<Longrightarrow> valid P m Q R) \<Longrightarrow> (\<And>y. x = Some y \<Longrightarrow> valid P (k y) Q R) \<Longrightarrow>
     valid P (case x of None \<Rightarrow> m | Some y \<Rightarrow> k y) Q R"
  by (cases x) auto

lemma valid_bind_elift:
  "(\<And>x. valid (\<lambda>e. P e \<and> f e = Inr x) (k x) Q R) \<Longrightarrow> (\<And>e. P e \<Longrightarrow> R e) \<Longrightarrow>
     valid P (ebind (\<lambda>e. elift (f e) e) k) Q R"
proof (rule valid_bind)
  assume "\<And>e. P e \<Longrightarrow> R e"
  then show "valid P (\<lambda>e. elift (f e) e) (\<lambda>x e. P e \<and> f e = Inr x) R"
    by (auto simp: valid_def elift_def efail_def eret_def split: sum.splits)
qed

lemma find_step_in_Inr: "find_step_in W n = Inr s \<Longrightarrow> ws_name s = n \<and> s \<in> set (wf_steps W)"
  by (auto simp: find_step_in_def find_Some_iff split: option.splits)

lemma ready_in_names: "run_inv W D M e \<Longrightarrow> n \<in> set (ready_names e) \<Longrightarrow> n \<in> names_of W"
  using build_dag_Inr(1) [of "wf_steps W" D]
  by (auto simp: run_inv_def ready_names_def next_ready_def ready_steps_iff names_of_def)

lemma ready_deps: "run_inv W D M e \<Longrightarrow> n \<in> set (ready_names e) \<Longrightarrow>
    deps_in D n \<subseteq> completed_steps (en_state e) \<and> n \<notin> completed_steps (en_state e)"
  by (auto simp: run_inv_def ready_names_def next_ready_def ready_steps_iff deps_in_def)

lemma order_names: "run_inv W D M e \<Longrightarrow> set (topological_order D) = names_of W"
proof -
  assume "run_inv W D M e"
  then have b: "build_dag (wf_steps W) = Inr D" by (simp add: run_inv_def)
  then have "built_dag D" by (auto simp: built_dag_def)
  with topological_order_ok(3) build_dag_Inr(1) [OF b] show ?thesis by (simp add: names_of_def)
qed

lemma previous_in_names:
  assumes "run_inv W D M e" and "previous_step_name e = Some p"
  shows "p \<in> names_of W"
proof -
  obtain i where i: "p = topological_order (en_dag e) ! i" "Suc i < length (topological_order (en_dag e))"
    using assms(2)
    by (auto simp: previous_step_name_def Let_def split: option.splits nat.splits dest: position_SomeD)
  then have "p \<in> set (topological_order (en_dag e))" by (metis Suc_lessD nth_mem)
  moreover have "en_dag e = D" using assms(1) by (simp add: run_inv_def)
  ultimately show ?thesis using order_names [OF assms(1)] by simp
qed

lemma current_in_names: "run_inv W D M e \<Longrightarrow> en_current_step e = Some c \<Longrightarrow> c \<in> names_of W"
  by (simp add: run_inv_def)

lemma next_ready_step_Some:
  assumes "run_inv W D M e" and "next_ready_step e = Inr (Some s)"
  shows "ws_name s \<in> names_of W"
  using assms ready_in_names [OF assms(1)]
  by (auto simp: next_ready_step_def result_simps split: list.splits dest: find_step_in_Inr)

lemma set_current_valid:
  "n \<in> names_of W \<Longrightarrow>
     valid (J W D M R) (emod (\<lambda>e. e\<lparr>en_current_step := Some n\<rparr>)) (\<lambda>_. J W D M R) X"
  by (rule valid_mod) (simp add: J_def run_inv_def running_def)

subsection \<open>Answers between steps\<close>

lemma restart_current_valid: "valid (J W D M {}) (restart_current w) (\<lambda>_. J W D M {}) (run_inv W D M)"
  unfolding restart_current_def
proof (rule valid_bind_get, rule valid_option)
  fix c :: "string option" and n assume c: "c = Some n"
  show "valid (\<lambda>e. J W D M {} e \<and> en_current_step e = c) (eseq [set_step w n Pending, persist w])
     (\<lambda>_. J W D M {}) (run_inv W D M)"
    by (rule valid_fact [of _ "n \<in> names_of W"], metis J_inv c current_in_names)
      (auto intro: valid_pre [OF set_then_persist] simp del: eseq.simps)
qed (auto intro: valid_ret)

lemma cancel_current_valid:
  "valid (\<lambda>e. J W D M {} e \<and> en_current_step e = c)
     (case c of Some n \<Rightarrow> set_step w n Cancelled | None \<Rightarrow> eret ()) (\<lambda>_. J W D M {}) (run_inv W D M)"
proof (rule valid_option)
  fix n assume c: "c = Some n"
  show "valid (\<lambda>e. J W D M {} e \<and> en_current_step e = c) (set_step w n Cancelled)
     (\<lambda>_. J W D M {}) (run_inv W D M)"
    by (rule valid_fact [of _ "n \<in> names_of W"], metis J_inv c current_in_names)
      (auto intro: valid_pre [OF set_J])
qed (auto intro: valid_ret)

lemma cancel_to_previous_valid:
  "valid (J W D M {}) (handle_cancel_to_previous w) (\<lambda>_. J W D M {}) (run_inv W D M)"
  unfolding handle_cancel_to_previous_def
proof (rule valid_bind_get, rule valid_option)
  fix prev :: "string option" and p assume prev: "prev = Some p"
  show "valid (\<lambda>e. J W D M {} e \<and> previous_step_name e = prev)
     (ebind (eget en_current_step) (\<lambda>c.
        eseq [case c of Some n \<Rightarrow> set_step w n Cancelled | None \<Rightarrow> eret (),
              set_step w p Pending, persist w])) (\<lambda>_. J W D M {}) (run_inv W D M)"
  proof (rule valid_fact [of _ "p \<in> names_of W"], metis J_inv prev previous_in_names)
    assume "p \<in> names_of W"
    then have "valid (J W D M {}) (eseq [set_step w p Pending, persist w])
        (\<lambda>_. J W D M {}) (run_inv W D M)" by (rule set_then_persist) auto
    then show ?thesis
      by (intro valid_bind_get valid_seq_Cons [OF valid_pre [OF cancel_current_valid]]) auto
  qed
qed (auto intro: valid_fail dest: J_inv)

lemma inject_next_valid:
  assumes "ws_name s \<in> names_of W"
  shows "valid (J W D M {}) (inject_next w prompt s) (\<lambda>_. J W D M {}) (run_inv W D M)"
  unfolding inject_next_def
proof (rule j_quiet(1) [OF quiet_ask], rule valid_if)
  show "valid (J W D M {}) (eseq [set_step w (ws_name s) Succeeded,
      emod (\<lambda>e. e\<lparr>en_current_step := Some (ws_name s)\<rparr>), persist w]) (\<lambda>_. J W D M {}) (run_inv W D M)"
    by (rule valid_seq_Cons [OF set_J [OF assms]], simp, simp,
        rule valid_seq_Cons [OF set_current_valid [OF assms]],
        intro j_quiet quiet_intros valid_seq_Nil)
qed (auto intro: valid_fail dest: J_inv)

lemma continue_with_valid:
  assumes "ws_name s \<in> names_of W"
  shows "valid (J W D M {}) (continue_with w prompt s) (\<lambda>_. J W D M {}) (run_inv W D M)"
  unfolding continue_with_def
  by (intro j_quiet(1) quiet_elift_of quiet_basic valid_if valid_option inject_next_valid [OF assms])
    (auto intro: valid_fail dest: J_inv)

lemma continue_valid:
  "valid (J W D M {}) (handle_continue_in_current_container w prompt) (\<lambda>_. J W D M {}) (run_inv W D M)"
  unfolding handle_continue_in_current_container_def
proof (rule valid_bind_elift [OF _ J_inv], rule valid_option)
  fix nxt :: "workflow_step option" and s assume s: "nxt = Some s"
  show "valid (\<lambda>e. J W D M {} e \<and> next_ready_step e = Inr nxt) (continue_with w prompt s)
     (\<lambda>_. J W D M {}) (run_inv W D M)"
    by (rule valid_fact [of _ "ws_name s \<in> names_of W"], metis J_inv s next_ready_step_Some)
      (auto intro: valid_pre [OF continue_with_valid])
qed (auto intro: valid_fail dest: J_inv)

text \<open>
  While step \<open>n\<close> runs alone. It is the first ready step, and it is the only one or the limit is one
  container: whatever makes the loop come back without closing \<open>n\<close> makes it launch \<open>n\<close> again.
\<close>

definition K :: "workflow \<Rightarrow> workflow_dag \<Rightarrow> nat option \<Rightarrow> string \<Rightarrow> engine \<Rightarrow> bool" where
  "K W D M n e \<longleftrightarrow>
     J W D M {n} e \<and> (\<exists>rs. ready_names e = n # rs \<and> (rs = [] \<or> M = Some 1))"

definition loop_head :: "workflow \<Rightarrow> workflow_dag \<Rightarrow> nat option \<Rightarrow> engine \<Rightarrow> bool" where
  "loop_head W D M e \<longleftrightarrow> J W D M {} e \<or> (\<exists>n. K W D M n e)"

lemma loop_head_J: "J W D M {} e \<Longrightarrow> loop_head W D M e"
  by (simp add: loop_head_def)

lemma K_J: "K W D M n e \<Longrightarrow> J W D M {n} e"
  by (simp add: K_def)

lemma K_inv: "K W D M n e \<Longrightarrow> run_inv W D M e"
  by (simp add: K_def J_def)

lemma K_name: "K W D M n e \<Longrightarrow> n \<in> names_of W"
  using ready_in_names [of W D M e n] by (auto simp: K_def J_def)

lemma J_pre_inv: "valid (run_inv W D M) m Q R \<Longrightarrow> valid (J W D M S) m Q R"
  by (erule valid_pre) (rule J_inv)

lemma K_pre_inv: "valid (run_inv W D M) m Q R \<Longrightarrow> valid (K W D M n) m Q R"
  by (erule valid_pre) (rule K_inv)

lemma K_pre_J: "valid (J W D M {n}) m Q R \<Longrightarrow> valid (K W D M n) m Q R"
  by (erule valid_pre) (rule K_J)

lemma loop_head_inv: "loop_head W D M e \<Longrightarrow> run_inv W D M e"
  by (auto simp: loop_head_def J_def K_inv)

lemma core_ready: "core e = core e' \<Longrightarrow> ready_names e' = ready_names e"
  by (simp add: ready_names_def core_def)

interpretation kinv: core_predicate "K W D M n"
  by unfold_locales (use jinv.core_only core_ready in \<open>unfold K_def, metis\<close>)

lemma k_quiet:
  "quiet m \<Longrightarrow> (\<And>x. valid (K W D M n) (k x) Q (run_inv W D M)) \<Longrightarrow>
     valid (K W D M n) (ebind m k) Q (run_inv W D M)"
  "quiet u \<Longrightarrow> valid (K W D M n) (eseq us) Q' (run_inv W D M) \<Longrightarrow>
     valid (K W D M n) (eseq (u # us)) Q' (run_inv W D M)"
  by (rule kinv.quiet_then kinv.quiet_first; simp add: K_inv)+

fun int_post ::
  "workflow \<Rightarrow> workflow_dag \<Rightarrow> nat option \<Rightarrow> interruptible_result \<Rightarrow> engine \<Rightarrow> bool" where
  "int_post W D M (IntEnded wo) e = ended W D M wo e"
| "int_post W D M IntLoopContinue e = loop_head W D M e"
| "int_post W D M (IntCompleted o') e = (J W D M {} e \<and> so_step_name o' \<in> names_of W)"

fun iter_post ::
  "workflow \<Rightarrow> workflow_dag \<Rightarrow> nat option \<Rightarrow> iteration_outcome \<Rightarrow> engine \<Rightarrow> bool" where
  "iter_post W D M (IterEnded wo) e = ended W D M wo e"
| "iter_post W D M IterContinue e = loop_head W D M e"

text \<open>What handling a failure leaves: nothing running, if the run goes on.\<close>

fun fail_post ::
  "workflow \<Rightarrow> workflow_dag \<Rightarrow> nat option \<Rightarrow> iteration_outcome \<Rightarrow> engine \<Rightarrow> bool" where
  "fail_post W D M (IterEnded wo) e = ended W D M wo e"
| "fail_post W D M IterContinue e = J W D M {} e"

fun mid_post ::
  "workflow \<Rightarrow> workflow_dag \<Rightarrow> nat option \<Rightarrow> string \<Rightarrow> mid_step_outcome \<Rightarrow> engine \<Rightarrow> bool" where
  "mid_post W D M n MidContinue e = K W D M n e"
| "mid_post W D M n (MidCompleted o') e = (J W D M {} e \<and> so_step_name o' \<in> names_of W)"
| "mid_post W D M n (MidEnded wo) e = ended W D M wo e"
| "mid_post W D M n MidLoopContinue e = loop_head W D M e"

lemma top_level_valid:
  "valid (J W D M {}) (execute_top_level_action w a) (int_post W D M) (run_inv W D M)"
proof -
  have fin: "valid (ended W D M wo) (eret (IntEnded wo)) (int_post W D M) (run_inv W D M)" for wo
    by (rule valid_ret) simp
  have go: "valid (J W D M {}) (eret IntLoopContinue) (int_post W D M) (run_inv W D M)"
    by (rule valid_ret) (simp add: loop_head_def)
  show ?thesis
    by (cases a)
      (auto intro: go valid_bind [OF J_pre_inv [OF finish_valid] fin] valid_bind [OF pause_valid fin]
        valid_bind [OF J_pre_inv [OF abort_valid] fin] valid_bind [OF restart_current_valid go]
        valid_bind [OF cancel_to_previous_valid go] valid_bind [OF continue_valid go])
qed

subsection \<open>The end of a container, and the board of a running step\<close>

lemma finalize_valid:
  assumes "n \<in> names_of W"
  shows "valid (J W D M {n}) (finalize_step w n x)
     (\<lambda>o' e. J W D M {} e \<and> so_step_name o' \<in> names_of W) (run_inv W D M)"
  unfolding finalize_step_def Let_def
proof (rule j_quiet(1), force intro: quiet_intros, rule j_quiet(1), rule quiet_find_step)
  fix s
  show "valid (J W D M {n}) (ebind (eseq [set_step w n (if xi_exit_code x = 0 then Succeeded else Failed (xi_exit_code x) None),
      eff (Eff_step_status (ws_name s) (if xi_exit_code x = 0 then StepSucceeded else StepFailed (xi_exit_code x))),
      persist w]) (\<lambda>_. eget (\<lambda>e. \<lparr>so_step_name = n,
        so_status = (if xi_exit_code x = 0 then StepSucceeded else StepFailed (xi_exit_code x)),
        so_remaining = remaining_steps e\<rparr>)))
     (\<lambda>o' e. J W D M {} e \<and> so_step_name o' \<in> names_of W) (run_inv W D M)"
  proof (rule valid_bind)
    show "valid (J W D M {n}) (eseq [set_step w n (if xi_exit_code x = 0 then Succeeded else Failed (xi_exit_code x) None),
      eff (Eff_step_status (ws_name s) (if xi_exit_code x = 0 then StepSucceeded else StepFailed (xi_exit_code x))),
      persist w]) (\<lambda>_. J W D M {}) (run_inv W D M)"
      by (rule valid_seq_Cons [OF set_J [OF assms, of _ _ "{}"]], simp, simp,
          intro j_quiet quiet_intros valid_seq_Nil) auto
  qed (rule valid_get, use assms in simp)
qed

lemma finalize_result_valid:
  assumes "n \<in> names_of W"
  shows "valid (J W D M {n}) (finalize_result w n r)
     (\<lambda>o' e. J W D M {} e \<and> so_step_name o' \<in> names_of W) (run_inv W D M)"
  unfolding finalize_result_def by (intro j_quiet(1) quiet_elift finalize_valid assms)

lemma resume_or_finalize_valid:
  "valid (K W D M n) (resume_or_finalize w n finished) (mid_post W D M n) (run_inv W D M)"
proof (rule valid_fact [OF K_name], assumption)
  assume n: "n \<in> names_of W"
  show ?thesis
    unfolding resume_or_finalize_def
  proof (rule valid_option)
    fix r
    show "valid (K W D M n) (ebind (finalize_result w n r) (\<lambda>o'. eret (MidCompleted o')))
        (mid_post W D M n) (run_inv W D M)"
      by (rule valid_bind [OF K_pre_J [OF finalize_result_valid [OF n]] valid_ret]) auto
  qed (auto intro: valid_ret)
qed

lemma set_K_then_persist:
  assumes "\<not> is_running s"
  shows "valid (K W D M n) (eseq [set_step w n s, persist w]) (\<lambda>_. J W D M {}) (run_inv W D M)"
proof (rule valid_fact [OF K_name], assumption)
  assume "n \<in> names_of W"
  then have "valid (J W D M {n}) (eseq [set_step w n s, persist w]) (\<lambda>_. J W D M {}) (run_inv W D M)"
    using assms by (rule set_then_persist) simp
  then show ?thesis by (rule valid_pre) (rule K_J)
qed

lemma cancel_to_previous_mid_valid:
  "valid (K W D M n) (cancel_to_previous_mid w n) (\<lambda>_. loop_head W D M) (run_inv W D M)"
  unfolding cancel_to_previous_mid_def
proof (rule valid_bind_get, rule valid_option)
  fix prev :: "string option" and p assume prev: "prev = Some p"
  show "valid (\<lambda>e. K W D M n e \<and> previous_step_name e = prev)
     (eseq [set_step w n Cancelled, set_step w p Pending, persist w])
     (\<lambda>_. loop_head W D M) (run_inv W D M)"
  proof (rule valid_fact [of _ "p \<in> names_of W \<and> n \<in> names_of W"])
    show "K W D M n e \<and> previous_step_name e = prev \<Longrightarrow> p \<in> names_of W \<and> n \<in> names_of W" for e
      using K_inv K_name previous_in_names prev by metis
    assume *: "p \<in> names_of W \<and> n \<in> names_of W"
    have "valid (J W D M {n}) (eseq [set_step w n Cancelled, set_step w p Pending, persist w])
        (\<lambda>_. J W D M {}) (run_inv W D M)"
      using * by (intro valid_seq_Cons [OF set_J [where R' = "{}"]] set_then_persist) auto
    then show ?thesis by (rule valid_conseq) (auto simp: K_J loop_head_J)
  qed
qed (auto intro!: valid_ret simp: loop_head_def)

lemma mid_ended_valid:
  "valid P m (ended W D M) (run_inv W D M) \<Longrightarrow> valid P (mid_ended m) (mid_post W D M n) (run_inv W D M)"
  unfolding mid_ended_def by (erule valid_bind) (auto intro: valid_ret)

lemma mid_loop_valid:
  "valid P m (\<lambda>_. loop_head W D M) (run_inv W D M) \<Longrightarrow>
     valid P (mid_loop m) (mid_post W D M n) (run_inv W D M)"
  unfolding mid_loop_def by (erule valid_bind) (auto intro: valid_ret)

lemma kill_set_valid:
  "\<not> is_running s \<Longrightarrow> valid (K W D M n) (eseq [kill_unless_finished h f, set_step w n s, persist w])
     (\<lambda>_. loop_head W D M) (run_inv W D M)"
  by (rule k_quiet(2) [OF quiet_kill_unless_finished], rule valid_post [OF set_K_then_persist])
    (auto simp: loop_head_def)

lemma mid_pause_valid:
  "valid (K W D M n) (ebind (eseq [kill_unless_finished h f, set_step w n Pending])
     (\<lambda>_. mid_ended (pause_run w))) (mid_post W D M n) (run_inv W D M)"
proof (rule valid_bind [OF _ mid_ended_valid [OF pause_valid]], rule valid_fact [OF K_name], assumption)
  assume n: "n \<in> names_of W"
  show "valid (K W D M n) (eseq [kill_unless_finished h f, set_step w n Pending])
     (\<lambda>_. J W D M {}) (run_inv W D M)"
    by (rule k_quiet(2) [OF quiet_kill_unless_finished],
        rule valid_seq_Cons [OF K_pre_J [OF set_J [OF n, where R' = "{}"]] valid_seq_Nil]) auto
qed

lemma mid_finish_valid:
  "valid (K W D M n) (ebind (eseq [kill_unless_finished h f, mark_all_unfinished w Skipped, persist w])
     (\<lambda>_. mid_ended (report_outcome Completed))) (mid_post W D M n) (run_inv W D M)"
proof (rule valid_bind [OF _ mid_ended_valid [OF report_closed]])
  show "valid (K W D M n) (eseq [kill_unless_finished h f, mark_all_unfinished w Skipped, persist w])
     (\<lambda>_ e. run_inv W D M e \<and> all_closed W Skipped e) (run_inv W D M)"
    by (rule k_quiet(2) [OF quiet_kill_unless_finished], rule valid_seq_Cons [OF K_pre_inv [OF mark_all_valid]])
      (intro closed_quiet quiet_intros valid_seq_Nil, auto)
qed simp

lemma mid_board_action_valid:
  "valid (K W D M n) (handle_mid_step_control_board w n x) (mid_post W D M n) (run_inv W D M)"
  unfolding handle_mid_step_control_board_def Let_def
proof (rule k_quiet(1) [OF quiet_show_current_board], rule k_quiet(1) [OF quiet_poll_finished])
  fix action finished
  let ?h = "cancel_handle_of x"
  have abort: "valid (K W D M n) (ebind (kill_unless_finished ?h finished) (\<lambda>_. mid_ended (handle_abort w)))
      (mid_post W D M n) (run_inv W D M)"
    by (rule k_quiet(1) [OF quiet_kill_unless_finished], rule mid_ended_valid,
        rule K_pre_inv [OF abort_valid])
  have finish: "valid (K W D M n) (ebind (eget workflow_can_finish) (\<lambda>ok.
      if \<not> ok then efail finish_error
      else ebind (eseq [kill_unless_finished ?h finished, mark_all_unfinished w Skipped, persist w])
             (\<lambda>_. mid_ended (report_outcome Completed)))) (mid_post W D M n) (run_inv W D M)"
    by (rule k_quiet(1) [OF quiet_basic(4)])
      (auto intro!: valid_if valid_fail mid_finish_valid K_inv simp del: eseq.simps)
  have goback: "valid (K W D M n) (eseq [kill_unless_finished ?h finished, cancel_to_previous_mid w n])
      (\<lambda>_. loop_head W D M) (run_inv W D M)"
    by (rule k_quiet(2) [OF quiet_kill_unless_finished],
        rule valid_seq_Cons [OF cancel_to_previous_mid_valid valid_seq_Nil])
  have go_on: "valid (K W D M n) (ebind (inject_focused w p) (\<lambda>_. resume_or_finalize w n finished))
      (mid_post W D M n) (run_inv W D M)" for p
    by (rule k_quiet(1) [OF quiet_inject_focused]) (rule resume_or_finalize_valid)
  show "valid (K W D M n)
     (case action of
        LaunchNext \<Rightarrow> mid_loop (eseq [kill_unless_finished ?h finished, set_step w n Succeeded, persist w])
      | ContinueInCurrentContainer p \<Rightarrow>
          ebind (inject_focused w p) (\<lambda>_. resume_or_finalize w n finished)
      | RestartCurrentStep \<Rightarrow>
          mid_loop (eseq [kill_unless_finished ?h finished, set_step w n Pending, persist w])
      | CancelToPreviousStep \<Rightarrow>
          mid_loop (eseq [kill_unless_finished ?h finished, cancel_to_previous_mid w n])
      | FinishWorkflow \<Rightarrow>
          ebind (eget workflow_can_finish) (\<lambda>ok.
            if \<not> ok then efail finish_error
            else ebind (eseq [kill_unless_finished ?h finished, mark_all_unfinished w Skipped, persist w])
                   (\<lambda>_. mid_ended (report_outcome Completed)))
      | Pause \<Rightarrow>
          ebind (eseq [kill_unless_finished ?h finished, set_step w n Pending])
            (\<lambda>_. mid_ended (pause_run w))
      | Abort \<Rightarrow> ebind (kill_unless_finished ?h finished) (\<lambda>_. mid_ended (handle_abort w))
      | Dismiss \<Rightarrow> resume_or_finalize w n finished
      | RetryFailedStep _ \<Rightarrow> resume_or_finalize w n finished)
     (mid_post W D M n) (run_inv W D M)"
    by (cases action)
      (simp_all only: next_action.case resume_or_finalize_valid go_on abort finish mid_pause_valid
        mid_loop_valid [OF goback] mid_loop_valid [OF kill_set_valid] is_running.simps not_False_eq_True)
qed

definition stuck_post ::
  "workflow \<Rightarrow> workflow_dag \<Rightarrow> nat option \<Rightarrow> string \<Rightarrow> interruptible_result option \<Rightarrow> engine \<Rightarrow> bool" where
  "stuck_post W D M n r e \<longleftrightarrow> (case r of None \<Rightarrow> K W D M n e | Some i \<Rightarrow> int_post W D M i e)"

lemma mid_board_valid: "valid (K W D M n) (mid_board w n x) (stuck_post W D M n) (run_inv W D M)"
  unfolding mid_board_def
proof (rule valid_bind [OF mid_board_action_valid], rule valid_ret)
  show "mid_post W D M n m e \<Longrightarrow> stuck_post W D M n (int_of_mid m) e" for m e
    by (cases m) (auto simp: stuck_post_def)
qed

lemma finish_wait_valid: "valid (K W D M n) (finish_wait w n x r) (int_post W D M) (run_inv W D M)"
  unfolding finish_wait_def
proof (rule k_quiet(1) [OF quiet_set_focused], rule valid_fact [OF K_name], assumption)
  assume n: "n \<in> names_of W"
  show "valid (K W D M n) (ebind (finalize_result w n r) (\<lambda>o'. eret (IntCompleted o')))
     (int_post W D M) (run_inv W D M)"
    by (rule valid_bind [OF K_pre_J [OF finalize_result_valid [OF n]] valid_ret]) auto
qed

lemma yolo_advance_valid: "valid (K W D M n) (yolo_advance w n x) (stuck_post W D M n) (run_inv W D M)"
  unfolding yolo_advance_def
proof (rule valid_bind [of _ _ "\<lambda>_. J W D M {}"])
  show "valid (K W D M n) (eseq [kill_current_container (cancel_handle_of x), set_step w n Succeeded, persist w])
     (\<lambda>_. J W D M {}) (run_inv W D M)"
    by (rule k_quiet(2) [OF quiet_kill_current], rule set_K_then_persist) simp
  have top: "valid (J W D M {}) (ebind (show_current_board w) (\<lambda>action.
      ebind (execute_top_level_action w action) (\<lambda>r. eret (Some r)))) (stuck_post W D M n) (run_inv W D M)"
    by (rule j_quiet(1) [OF quiet_show_current_board], rule valid_bind [OF top_level_valid valid_ret])
      (simp add: stuck_post_def)
  show "valid (J W D M {}) (ebind (find_step n) (\<lambda>s.
     ebind (eseq [eff (Eff_step_status (ws_name s) StepSucceeded), report_progress]) (\<lambda>_.
     ebind (eget is_last_step) (\<lambda>last_one.
       if last_one
       then ebind (show_current_board w) (\<lambda>action.
            ebind (execute_top_level_action w action) (\<lambda>r. eret (Some r)))
       else eret (Some IntLoopContinue))))) (stuck_post W D M n) (run_inv W D M)" for u
    by (rule j_quiet(1) [OF quiet_find_step], rule j_quiet(1), force intro: quiet_intros,
        rule j_quiet(1) [OF quiet_basic(4)])
      (auto intro!: valid_if top valid_ret simp: stuck_post_def loop_head_def)
qed

lemma handle_step_stuck_valid:
  "valid (K W D M n) (handle_step_stuck fuel w n x) (stuck_post W D M n) (run_inv W D M)"
  unfolding handle_step_stuck_def
proof (rule k_quiet(1) [OF quiet_basic(4)], rule valid_if)
  have wait: "valid (K W D M n) (ebind (finish_wait w n x r) (\<lambda>i. eret (Some i)))
      (stuck_post W D M n) (run_inv W D M)" for r
    by (rule valid_bind [OF finish_wait_valid valid_ret]) (simp add: stuck_post_def)
  have none: "valid (K W D M n) (eret None) (stuck_post W D M n) (run_inv W D M)"
    by (rule valid_ret) (simp add: stuck_post_def)
  show "valid (K W D M n) (ebind (run_mid_step_yolo_countdown fuel w n) (\<lambda>y.
      case y of
        YoloCompleted r \<Rightarrow> ebind (finish_wait w n x r) (\<lambda>i. eret (Some i))
      | YoloAdvanced \<Rightarrow> yolo_advance w n x
      | YoloCancelled \<Rightarrow> eret None
      | YoloShowBoard \<Rightarrow> mid_board w n x
      | YoloRecovered \<Rightarrow> eret None)) (stuck_post W D M n) (run_inv W D M)"
    by (rule k_quiet(1) [OF quiet_mid_step_yolo])
      (auto intro: wait none mid_board_valid yolo_advance_valid split: mid_step_yolo.split)
qed (rule mid_board_valid)

subsection \<open>Waiting for a step, and launching it\<close>

lemma cancel_step_valid: "valid (K W D M n) (cancel_step w x) (int_post W D M) (run_inv W D M)"
  unfolding cancel_step_def
  by (rule k_quiet(1) [OF quiet_kill_current],
      rule valid_bind [OF K_pre_inv [OF cancel_run_valid] valid_ret]) simp

lemma step_wait_loop_valid: "valid (K W D M n) (step_wait_loop fuel w n x) (int_post W D M) (run_inv W D M)"
proof (induction fuel)
  case 0
  then show ?case by (auto intro: valid_wait dest: K_inv)
next
  case (Suc fuel)
  have again: "valid (stuck_post W D M n r) (case r of None \<Rightarrow> step_wait_loop fuel w n x | Some i \<Rightarrow> eret i)
      (int_post W D M) (run_inv W D M)" for r
    by (cases r) (auto simp: stuck_post_def intro: valid_ret valid_pre [OF Suc.IH])
  note stuck = valid_bind [OF handle_step_stuck_valid again] valid_bind [OF mid_board_valid again]
  note rest = finish_wait_valid cancel_step_valid Suc.IH k_quiet(1) [OF quiet_mark_focused_killed Suc.IH]
  show ?case
    unfolding step_wait_loop.simps
    by (rule k_quiet(1) [OF quiet_step_select])
      (auto intro!: stuck rest valid_fail K_inv
        split!: step_event.split stuck_event.split engine_request.split)
qed

text \<open>Recording a launch or a container changes neither statuses nor the completed set.\<close>

definition same_progress :: "workflow_state \<Rightarrow> workflow_state \<Rightarrow> bool" where
  "same_progress st st' \<longleftrightarrow>
     step_states st' = step_states st \<and> completed_steps st' = completed_steps st"

lemma same_progress_inv:
  "same_progress (en_state e) st \<Longrightarrow> run_inv W D M e \<Longrightarrow> run_inv W D M (e\<lparr>en_state := st\<rparr>)"
  "same_progress (en_state e) st \<Longrightarrow> running (e\<lparr>en_state := st\<rparr>) = running e"
  "same_progress (en_state e) st \<Longrightarrow> ready_names (e\<lparr>en_state := st\<rparr>) = ready_names e"
  by (auto simp: same_progress_def run_inv_def state_ok_def status_of_def running_def
      ready_names_def next_ready_def)

lemma record_launch_progress: "same_progress st (fst (record_step_launch n st))"
  by (simp add: same_progress_def record_step_launch_def Let_def)

lemma record_launch_valid:
  assumes "\<And>e st. same_progress (en_state e) st \<Longrightarrow> P e \<Longrightarrow> P (e\<lparr>en_state := st\<rparr>)"
  shows "valid P (record_launch n) (\<lambda>_. P) X"
  unfolding valid_def
proof (intro allI impI)
  fix e assume "P e"
  then show "case record_launch n e of (Ok x, e') \<Rightarrow> P e' | (_, e') \<Rightarrow> X e'"
    using assms [OF record_launch_progress] by (simp add: record_launch_def split: prod.splits) (metis fst_conv)
qed

lemma K_progress: "same_progress (en_state e) st \<Longrightarrow> K W D M n e \<Longrightarrow> K W D M n (e\<lparr>en_state := st\<rparr>)"
  by (simp add: K_def J_def same_progress_inv)

lemma prepare_valid: "valid (K W D M n) (prepare_step_launch s) (\<lambda>_. K W D M n) (run_inv W D M)"
  unfolding prepare_step_launch_def
  by (rule k_quiet(1) [OF quiet_elift_of], rule k_quiet(1) [OF quiet_basic(4)],
      rule valid_bind [OF record_launch_valid], rule K_progress, assumption, assumption)
    (rule valid_get)

lemma log_launch_inv:
  "run_inv W D M e \<Longrightarrow> deps_in D n \<subseteq> c \<Longrightarrow> run_inv W D M (e\<lparr>en_log := Eff_launching n a c # en_log e\<rparr>)"
  by (auto simp: run_inv_def launches_ok_def)

lemma log_progress:
  "running (e\<lparr>en_log := l\<rparr>) = running e" "ready_names (e\<lparr>en_log := l\<rparr>) = ready_names e"
  by (simp_all add: running_def ready_names_def)

lemma report_launching_valid:
  assumes "ws_name s = n"
  shows "valid (K W D M n) (report_launching s p) (\<lambda>_. K W D M n) (run_inv W D M)"
  unfolding report_launching_def
proof (rule valid_seq_Cons)
  show "valid (K W D M n) (\<lambda>e. eff (Eff_launching (ws_name s) (pl_attempt p) (completed_steps (en_state e))) e)
     (\<lambda>_. K W D M n) (run_inv W D M)"
    unfolding valid_def
  proof (intro allI impI)
    fix e assume e: "K W D M n e"
    then have "deps_in D n \<subseteq> completed_steps (en_state e)"
      using ready_deps [of W D M e n] K_inv [OF e] by (auto simp: K_def)
    then show "case eff (Eff_launching (ws_name s) (pl_attempt p) (completed_steps (en_state e))) e of
        (Ok x, e') \<Rightarrow> K W D M n e' | (_, e') \<Rightarrow> run_inv W D M e'"
      using e assms by (simp add: eff_def emod_def K_def J_def log_launch_inv log_progress)
  qed
qed (intro k_quiet(2) quiet_intros valid_seq_Nil, auto)

lemma set_running_valid: "valid (K W D M n) (set_step w n (Running c)) (\<lambda>_. K W D M n) X"
proof (rule valid_set_step)
  fix e assume e: "K W D M n e"
  then have n: "n \<notin> completed_steps (en_state e)"
    using ready_deps [of W D M e n] K_inv [OF e] by (auto simp: K_def)
  have "ready_names (upd w n (Running c) e) = ready_names e"
    using n by (simp add: ready_names_def next_ready_def)
  moreover have "J W D M {n} (upd w n (Running c) e)"
    using upd_J [OF K_J [OF e] K_name [OF e], of "Running c" w] by simp
  ultimately show "K W D M n (upd w n (Running c) e)" using e by (simp add: K_def)
qed

lemma spawn_failed_valid:
  assumes "ws_name s \<in> names_of W"
  shows "valid (run_inv W D M) (spawn_failed w s err) Q (run_inv W D M)"
  unfolding spawn_failed_def
  by (rule valid_bind [of _ _ "\<lambda>_. run_inv W D M"], rule valid_seq_Cons [OF set_inv [OF assms]])
    (auto intro!: inv_quiet quiet_intros valid_seq_Nil valid_fail simp del: eseq.simps)

text \<open>A spawn moves from \<open>P\<close> to \<open>Q\<close>, where setting the step to running does.\<close>

lemma spawn_valid:
  assumes q: "core_predicate Q" "\<And>e. Q e \<Longrightarrow> run_inv W D M e" and n: "ws_name s = n" "n \<in> names_of W"
    and pq: "\<And>c. valid P (set_step w n (Running c)) (\<lambda>_. Q) (run_inv W D M)"
    and qq: "\<And>c. valid Q (set_step w n (Running c)) (\<lambda>_. Q) (run_inv W D M)"
    and progress: "\<And>e st. same_progress (en_state e) st \<Longrightarrow> Q e \<Longrightarrow> Q (e\<lparr>en_state := st\<rparr>)"
  shows "valid P (spawn_prepared_step w s p) (\<lambda>_. Q) (run_inv W D M)"
proof -
  note quiet = core_predicate.quiet_then [OF q(1) _ q(2)] core_predicate.quiet_first [OF q(1) _ q(2)]
  have failed: "valid Q (spawn_failed w s err) (\<lambda>_. Q) (run_inv W D M)" for err
    using valid_pre [OF spawn_failed_valid q(2)] n by blast
  have ok: "valid Q (ebind (eseq [set_step w n (Running (Some (ex_id x))),
      emod (\<lambda>e. e\<lparr>en_state := record_step_container n (ex_name x) (en_state e)\<rparr>), persist w,
      emod (\<lambda>e. e\<lparr>en_last_identity := Some (pl_agent p, pl_model p)\<rparr>)]) (\<lambda>_. eret x))
     (\<lambda>_. Q) (run_inv W D M)" for x
  proof (rule valid_bind [OF valid_seq_Cons [OF qq valid_seq_Cons [OF valid_mod]]])
    show "Q e \<Longrightarrow> Q (e\<lparr>en_state := record_step_container n (ex_name x) (en_state e)\<rparr>)" for e
      by (rule progress) (simp_all add: same_progress_def record_step_container_def)
    show "valid Q (eseq [persist w, emod (\<lambda>e. e\<lparr>en_last_identity := Some (pl_agent p, pl_model p)\<rparr>)])
        (\<lambda>_. Q) (run_inv W D M)"
      by (rule quiet(2), rule quiet_persist, assumption, rule quiet(2), rule quiet_flags, assumption)
        (rule valid_seq_Nil)
  qed (rule valid_ret)
  have first: "valid P (eseq [set_step w n (Running None), persist w]) (\<lambda>_. Q) (run_inv W D M)"
    by (rule valid_seq_Cons [OF pq], rule quiet(2), rule quiet_persist, assumption) (rule valid_seq_Nil)
  show ?thesis
    unfolding spawn_prepared_step_def n(1)
    by (rule valid_bind [OF first], rule quiet(1), rule quiet_basic(5), assumption)
      (auto intro: ok failed split: sum.split simp del: eseq.simps)
qed

lemma valid_keeps:
  assumes "valid R h (\<lambda>_. R) R" and "R e"
  shows "R (snd (h e))"
proof -
  obtain r e1 where "h e = (r, e1)" by (cases "h e")
  then show ?thesis using validD [OF assms] by (cases r) auto
qed

lemma on_error_valid:
  assumes m: "valid P m Q R" and h: "valid R h (\<lambda>_. R) R"
  shows "valid P (on_error m h) Q R"
  unfolding valid_def
proof (intro allI impI)
  fix e assume e: "P e"
  obtain r e1 where me: "m e = (r, e1)" by (cases "m e")
  show "case on_error m h e of (Ok x, e') \<Rightarrow> Q x e' | (_, e') \<Rightarrow> R e'"
  proof (cases r)
    case (Err err)
    then have "R e1" using validD(2) [OF m e] me by simp
    then have "R (snd (h e1))" by (rule valid_keeps [OF h])
    then show ?thesis
      using me Err by (cases "h e1") (auto simp: on_error_def ebind_def efail_def split: ran.splits)
  qed (use m e me in \<open>auto simp: valid_def on_error_def split: prod.splits ran.splits\<close>)
qed

lemma slot_cap_pos: "1 \<le> slot_cap M k"
  by (cases M) (auto simp: slot_cap_def)

lemma focus_launched_valid:
  "ws_name s = n \<Longrightarrow> valid (K W D M n) (focus_launched s x p) (\<lambda>_. K W D M n) X"
  unfolding focus_launched_def
proof (rule valid_mod)
  fix e assume n: "ws_name s = n" and e: "K W D M n e"
  then show "K W D M n (e\<lparr>en_active := [new_slot s x p], en_current_step := Some (ws_name s),
      en_current_agent := Some (pl_agent p), en_current_model := pl_model p\<rparr>)"
    using K_name [OF e] slot_cap_pos [of M "length (wf_steps W)"]
    by (auto simp: K_def J_def run_inv_def running_def ready_names_def new_slot_def)
qed

definition solo :: "workflow \<Rightarrow> workflow_dag \<Rightarrow> nat option \<Rightarrow> engine \<Rightarrow> bool" where
  "solo W D M e \<longleftrightarrow> loop_head W D M e \<and> (length (ready_names e) \<le> 1 \<or> M = Some 1)"

lemma solo_K: "solo W D M e \<Longrightarrow> ready_names e = n # rs \<Longrightarrow> K W D M n e"
  by (auto simp: solo_def loop_head_def K_def intro: J_mono)

lemma launch_step_valid: "valid (solo W D M) (launch_step w) (K W D M) (run_inv W D M)"
  unfolding launch_step_def
proof (rule valid_bind_get)
  fix ready
  show "valid (\<lambda>e. solo W D M e \<and> ready_names e = ready)
     (case ready of
        [] \<Rightarrow> efail (InvalidAdvanceAction ''no ready steps remaining'')
      | n # _ \<Rightarrow>
          ebind (find_step n) (\<lambda>s. ebind (prepare_step_launch s) (\<lambda>p. ebind (report_launching s p) (\<lambda>_.
          ebind (on_error (spawn_prepared_step w s p) (report_spawn_failed s)) (\<lambda>x.
          ebind (focus_launched s x p) (\<lambda>_. eret (ws_name s))))))) (K W D M) (run_inv W D M)"
  proof (cases ready)
    case Nil
    then show ?thesis by (auto intro!: valid_fail simp: solo_def loop_head_inv)
  next
    case (Cons n rs)
    have launch: "valid (K W D M n) (ebind (prepare_step_launch s) (\<lambda>p. ebind (report_launching s p) (\<lambda>_.
        ebind (on_error (spawn_prepared_step w s p) (report_spawn_failed s)) (\<lambda>x.
        ebind (focus_launched s x p) (\<lambda>_. eret (ws_name s)))))) (K W D M) (run_inv W D M)"
      if s: "ws_name s = n" for s
    proof (rule valid_fact [OF K_name], assumption)
      assume n: "n \<in> names_of W"
      have spawn: "valid (K W D M n) (spawn_prepared_step w s p) (\<lambda>_. K W D M n) (run_inv W D M)" for p
        by (rule spawn_valid [OF kinv.core_predicate_axioms _ s n set_running_valid set_running_valid])
          (erule K_inv, erule (1) K_progress)
      have h: "valid (run_inv W D M) (report_spawn_failed s) (\<lambda>_. run_inv W D M) (run_inv W D M)"
        by (rule inv.quiet_keeps [OF quiet_report_spawn_failed])
      show ?thesis
        by (rule valid_bind [OF prepare_valid], rule valid_bind [OF report_launching_valid [OF s]],
            rule valid_bind [OF on_error_valid [OF spawn h]],
            rule valid_bind [OF focus_launched_valid [OF s] valid_ret]) (use s in simp)
    qed
    have "valid (K W D M n) (ebind (find_step n) (\<lambda>s. ebind (prepare_step_launch s) (\<lambda>p.
        ebind (report_launching s p) (\<lambda>_.
        ebind (on_error (spawn_prepared_step w s p) (report_spawn_failed s)) (\<lambda>x.
        ebind (focus_launched s x p) (\<lambda>_. eret (ws_name s))))))) (K W D M) (run_inv W D M)"
      unfolding find_step_def
    proof (rule valid_bind_elift [OF _ K_inv], rule valid_fact)
      show "K W D M n e \<and> find_step_in (en_workflow e) n = Inr s \<Longrightarrow> ws_name s = n" for s e
        using find_step_in_Inr by blast
    qed (auto intro: valid_pre [OF launch])
    then show ?thesis using Cons by (auto intro: valid_pre solo_K)
  qed
qed

subsection \<open>After a failed step\<close>

lemma iter_ended_valid:
  "valid P m (ended W D M) R \<Longrightarrow> valid P (iter_ended m) (fail_post W D M) R"
  unfolding iter_ended_def by (erule valid_bind) (auto intro: valid_ret)

lemma iter_continue_valid:
  "valid P m (\<lambda>_. J W D M {}) R \<Longrightarrow> valid P (iter_continue m) (fail_post W D M) R"
  unfolding iter_continue_def by (erule valid_bind, rule valid_ret) simp

lemma reopen_valid:
  "n \<in> names_of W \<Longrightarrow> \<not> is_running s \<Longrightarrow>
     valid (J W D M {}) (iter_continue (eseq [set_step w n s, persist w])) (fail_post W D M) (run_inv W D M)"
  by (rule iter_continue_valid [OF set_then_persist]) auto

lemma reopen_two_valid:
  "n \<in> names_of W \<Longrightarrow> p \<in> names_of W \<Longrightarrow>
     valid (J W D M {}) (iter_continue (eseq [set_step w n Pending, set_step w p Pending, persist w]))
       (fail_post W D M) (run_inv W D M)"
  by (rule iter_continue_valid, rule valid_seq_Cons [OF set_J set_then_persist]) auto

lemma failure_interactive_valid:
  assumes n: "n \<in> names_of W"
  shows "valid (J W D M {}) (handle_step_failure_interactive fuel w n code) (fail_post W D M) (run_inv W D M)"
proof (induction fuel)
  case 0
  then show ?case by (auto intro: valid_wait dest: J_inv)
next
  case (Suc fuel)
  have board: "valid (J W D M {}) (case action of
         RestartCurrentStep \<Rightarrow> iter_continue (eseq [set_step w n Pending, persist w])
       | CancelToPreviousStep \<Rightarrow>
           (case Option.bind (aa_step_failure a) fc_previous_step of
              None \<Rightarrow> handle_step_failure_interactive fuel w n code
            | Some prev \<Rightarrow>
                iter_continue (eseq [set_step w n Pending, set_step w prev Pending, persist w]))
       | LaunchNext \<Rightarrow>
           (case Option.bind (aa_step_failure a) fc_next_step of
              None \<Rightarrow> handle_step_failure_interactive fuel w n code
            | Some _ \<Rightarrow> iter_continue (eseq [set_step w n Skipped, persist w]))
       | Abort \<Rightarrow> iter_ended (handle_abort w)
       | Pause \<Rightarrow> iter_ended (pause_run w)
       | _ \<Rightarrow> handle_step_failure_interactive fuel w n code) (fail_post W D M) (run_inv W D M)"
    if "\<And>p. Option.bind (aa_step_failure a) fc_previous_step = Some p \<Longrightarrow> p \<in> names_of W" for a action
    using that Suc.IH
    by (auto intro: reopen_valid [OF n] reopen_two_valid [OF n] iter_ended_valid [OF pause_valid]
        iter_ended_valid [OF J_pre_inv [OF abort_valid]] split: next_action.split option.split
        simp del: eseq.simps)
  show ?case
    unfolding handle_step_failure_interactive.simps
  proof (rule valid_bind_get)
    fix a
    show "valid (\<lambda>e. J W D M {} e \<and> compute_failure_actions e n code = a)
       (ebind (show_board w a) (\<lambda>action. case action of
         LaunchNext \<Rightarrow>
           (case Option.bind (aa_step_failure a) fc_next_step of
              None \<Rightarrow> handle_step_failure_interactive fuel w n code
            | Some _ \<Rightarrow> iter_continue (eseq [set_step w n Skipped, persist w]))
       | RestartCurrentStep \<Rightarrow> iter_continue (eseq [set_step w n Pending, persist w])
       | CancelToPreviousStep \<Rightarrow>
           (case Option.bind (aa_step_failure a) fc_previous_step of
              None \<Rightarrow> handle_step_failure_interactive fuel w n code
            | Some prev \<Rightarrow>
                iter_continue (eseq [set_step w n Pending, set_step w prev Pending, persist w]))
       | Pause \<Rightarrow> iter_ended (pause_run w)
       | Abort \<Rightarrow> iter_ended (handle_abort w)
       | _ \<Rightarrow> handle_step_failure_interactive fuel w n code)) (fail_post W D M) (run_inv W D M)"
    proof (rule valid_fact)
      show "J W D M {} e \<and> compute_failure_actions e n code = a \<Longrightarrow>
          \<forall>p. Option.bind (aa_step_failure a) fc_previous_step = Some p \<longrightarrow> p \<in> names_of W" for e
        using previous_in_names [of W D M e] J_inv
        by (fastforce simp: compute_failure_actions_def Let_def)
    qed (rule valid_pre [OF j_quiet(1) [OF quiet_show_board board]], auto)
  qed
qed

lemma fail_run_valid:
  assumes n: "n \<in> names_of W"
  shows "valid (run_inv W D M) (fail_run w n code text) (ended W D M) (run_inv W D M)"
proof -
  let ?P = "\<lambda>e. ended W D M (RunFailed n code) e"
  have set: "valid (\<lambda>e. run_inv W D M e \<and> all_closed W Cancelled e)
      (set_step w n (Failed code (Some text))) (\<lambda>_. ?P) (run_inv W D M)"
  proof (rule valid_set_step)
    fix e assume "run_inv W D M e \<and> all_closed W Cancelled e"
    then have e: "run_inv W D M e" "all_closed W Cancelled e" by auto
    have "running e = {}" by (rule all_closed_running [OF e]) simp
    with e n show "?P (upd w n (Failed code (Some text)) e)"
      by (auto simp: ended_def J_def upd_inv upd_running all_closed_def closed_as_def)
  qed
  have seq: "valid (run_inv W D M) (eseq [mark_all_unfinished w Cancelled,
      set_step w n (Failed code (Some text)), persist w]) (\<lambda>_. ?P) (run_inv W D M)"
    by (rule valid_seq_Cons [OF mark_all_valid], rule valid_seq_Cons [OF set],
        rule endinv.quiet_first [OF quiet_persist ended_inv valid_seq_Nil])
  show ?thesis
    unfolding fail_run_def
    by (rule valid_bind [OF seq], rule report_valid [OF endinv.core_predicate_axioms])
qed

lemma failure_unattended_valid:
  assumes n: "n \<in> names_of W"
  shows "valid (J W D M {}) (handle_step_failure_unattended fuel w n code) (fail_post W D M) (run_inv W D M)"
proof -
  have failed: "valid (J W D M {}) (iter_ended (fail_run w n code t)) (fail_post W D M) (run_inv W D M)" for t
    by (rule iter_ended_valid [OF J_pre_inv [OF fail_run_valid [OF n]]])
  have retry: "valid (J W D M {}) (eseq [emod (\<lambda>e. e\<lparr>en_auto_retried := insert n (en_auto_retried e)\<rparr>),
      set_step w n Pending, persist w]) (\<lambda>_. J W D M {}) (run_inv W D M)"
    by (rule j_quiet(2), rule quiet_intros, rule set_then_persist [OF n]) auto
  have cancel: "valid (J W D M {}) (iter_ended (cancel_run w)) (fail_post W D M) (run_inv W D M)"
    by (rule iter_ended_valid [OF J_pre_inv [OF cancel_run_valid]])
  show ?thesis
    unfolding handle_step_failure_unattended_def
    by (rule j_quiet(1) [OF quiet_basic(4)], rule valid_if [OF failed],
        rule j_quiet(1) [OF quiet_retry_countdown], rule j_quiet(1) [OF quiet_cancel_requested],
        intro valid_if failed cancel iter_continue_valid [OF retry])
qed

lemma handle_step_failure_valid:
  assumes n: "n \<in> names_of W"
  shows "valid (J W D M {}) (handle_step_failure fuel w n code) (fail_post W D M) (run_inv W D M)"
  unfolding handle_step_failure_def
  by (rule j_quiet(1) [OF quiet_cancel_requested],
      intro valid_if iter_ended_valid [OF J_pre_inv [OF cancel_run_valid]]
        failure_interactive_valid failure_unattended_valid n)

subsection \<open>One iteration\<close>

lemma find_step_valid:
  "valid (J W D M R) (find_step n) (\<lambda>s e. J W D M R e \<and> ws_name s = n) (run_inv W D M)"
  unfolding find_step_def
  by (auto simp: valid_def elift_def efail_def eret_def J_inv split: sum.splits dest: find_step_in_Inr)

lemma failed_outcome_valid:
  assumes n: "n \<in> names_of W"
  shows "valid (J W D M {}) (handle_failed_outcome fuel w n code) (fail_post W D M) (run_inv W D M)"
proof -
  have cancel: "valid (J W D M {}) (iter_ended (cancel_run w)) (fail_post W D M) (run_inv W D M)"
    by (rule iter_ended_valid [OF J_pre_inv [OF cancel_run_valid]])
  have seq: "valid (J W D M {}) (eseq [emod (\<lambda>e. e\<lparr>en_abort_triggered := True\<rparr>),
      mark_all_unfinished w Cancelled, persist w])
      (\<lambda>_ e. run_inv W D M e \<and> all_closed W Cancelled e) (run_inv W D M)"
    by (rule J_pre_inv, rule inv_quiet(2), rule quiet_intros, rule valid_seq_Cons [OF mark_all_valid])
      (intro closed_quiet quiet_intros valid_seq_Nil, auto)
  have abort: "valid (J W D M {}) (abort_on_failure w) (fail_post W D M) (run_inv W D M)"
    unfolding abort_on_failure_def
    by (rule iter_ended_valid, rule valid_bind [OF seq report_closed]) simp
  show ?thesis
    unfolding handle_failed_outcome_def
    by (rule j_quiet(1) [OF quiet_cancel_requested], rule valid_if [OF cancel],
        rule j_quiet(1) [OF quiet_report_progress], rule j_quiet(1) [OF quiet_recover_auth],
        rule valid_if [OF reopen_valid [OF n]], simp, rule j_quiet(1) [OF quiet_find_step],
        intro valid_if abort handle_step_failure_valid [OF n])
qed

lemma fail_post_iter: "fail_post W D M r e \<Longrightarrow> iter_post W D M r e"
  by (cases r) (simp_all add: loop_head_J)

lemma after_success_valid: "valid (J W D M {}) (after_success w) (iter_post W D M) (run_inv W D M)"
proof -
  have last: "valid (int_post W D M r) (eret (iter_of_int r)) (iter_post W D M) (run_inv W D M)" for r
    by (rule valid_ret) (cases r; auto simp: iter_of_int_def loop_head_def)
  have go: "valid (J W D M {}) (eret IterContinue) (iter_post W D M) (run_inv W D M)"
    by (rule valid_ret) (simp add: loop_head_J)
  show ?thesis
    unfolding after_success_def
    by (intro j_quiet(1) quiet_basic(4) quiet_if quiet_report_progress quiet_basic(1) valid_if go
        quiet_show_current_board valid_bind [OF top_level_valid last])
qed

lemma single_iteration_valid:
  "valid (solo W D M) (run_single_step_iteration fuel w) (iter_post W D M) (run_inv W D M)"
proof -
  have wait: "valid (solo W D M) (step_once_interruptible fuel w) (int_post W D M) (run_inv W D M)"
    unfolding step_once_interruptible_def
    by (rule valid_bind [OF launch_step_valid], rule k_quiet(1) [OF quiet_basic(4)],
        rule valid_option, rule valid_fail, erule K_inv,
        rule k_quiet(1) [OF quiet_take_focused step_wait_loop_valid])
  have post: "valid (int_post W D M r) (case r of
      IntCompleted o' \<Rightarrow> (case so_status o' of
              StepFailed code \<Rightarrow> handle_failed_outcome fuel w (so_step_name o') code
            | _ \<Rightarrow> after_success w)
    | IntEnded wo \<Rightarrow> eret (IterEnded wo)
    | IntLoopContinue \<Rightarrow> eret IterContinue) (iter_post W D M) (run_inv W D M)" for r
  proof (cases r)
    case (IntCompleted o')
    show ?thesis
      by (rule valid_fact [of _ "so_step_name o' \<in> names_of W"])
        (use IntCompleted in \<open>auto intro: valid_conseq [OF failed_outcome_valid _ fail_post_iter] valid_pre [OF after_success_valid]
          split: step_status.split\<close>)
  qed (auto intro: valid_ret)
  show ?thesis
    unfolding run_single_step_iteration_def by (rule valid_bind [OF wait post])
qed

end
