(* ===== verification/Run_Group_Safety.thy ===== *)
theory Run_Group_Safety
  imports Run_Single_Safety
begin

text \<open>
  Parallel groups keep the invariant. While a group \<open>G\<close> runs, every slot belongs to it, only
  steps with a slot are running, there are never more slots than the cap, and what the members
  depend on stays complete - the members do not depend on one another.
\<close>

subsection \<open>The invariant of a running group\<close>

definition group_ok :: "workflow \<Rightarrow> workflow_dag \<Rightarrow> string set \<Rightarrow> bool" where
  "group_ok W D G \<longleftrightarrow> G \<subseteq> names_of W \<and> (\<forall>g \<in> G. deps_in D g \<inter> G = {})"

definition slots :: "engine \<Rightarrow> string set" where
  "slots e = sl_step ` set (en_active e)"

definition GJ ::
  "workflow \<Rightarrow> workflow_dag \<Rightarrow> nat option \<Rightarrow> string set \<Rightarrow> nat \<Rightarrow> string set \<Rightarrow> engine \<Rightarrow> bool" where
  "GJ W D M G c R e \<longleftrightarrow>
     run_inv W D M e \<and> group_ok W D G \<and> slots e \<subseteq> G \<and> running e \<subseteq> slots e \<union> R \<and>
     length (en_active e) \<le> c \<and> (\<forall>g \<in> G. deps_in D g \<subseteq> completed_steps (en_state e))"

lemma GJ_inv: "GJ W D M G c R e \<Longrightarrow> run_inv W D M e"
  by (simp add: GJ_def)

lemma GJ_mono: "GJ W D M G c R e \<Longrightarrow> c \<le> c' \<Longrightarrow> R \<subseteq> R' \<Longrightarrow> GJ W D M G c' R' e"
  by (auto simp: GJ_def)

lemma GJ_names: "GJ W D M G c R e \<Longrightarrow> G \<subseteq> names_of W"
  by (simp add: GJ_def group_ok_def)

interpretation ginv: core_predicate "GJ W D M G c R"
proof
  fix e e' assume c: "core e = core e'"
  show "GJ W D M G c R e \<Longrightarrow> GJ W D M G c R e'"
    using core_run_inv [OF c] core_running [OF c] core_fields(3,7,8) [OF c]
    by (simp add: GJ_def slots_def)
qed

lemma g_quiet:
  "quiet m \<Longrightarrow> (\<And>x. valid (GJ W D M G c R) (k x) Q (run_inv W D M)) \<Longrightarrow>
     valid (GJ W D M G c R) (ebind m k) Q (run_inv W D M)"
  "quiet u \<Longrightarrow> valid (GJ W D M G c R) (eseq us) Q' (run_inv W D M) \<Longrightarrow>
     valid (GJ W D M G c R) (eseq (u # us)) Q' (run_inv W D M)"
  by (rule ginv.quiet_then ginv.quiet_first; simp add: GJ_inv)+

lemma g_keeps: "quiet m \<Longrightarrow> valid (GJ W D M G c R) m (\<lambda>_. GJ W D M G c R) (run_inv W D M)"
  by (rule ginv.quiet_keeps) (auto simp: GJ_inv)

lemma G_pre_inv: "valid (run_inv W D M) m Q R \<Longrightarrow> valid (GJ W D M G c S) m Q R"
  by (erule valid_pre) (rule GJ_inv)

lemma GJ_upd:
  assumes "GJ W D M G c R e" and n: "n \<in> G"
  shows "GJ W D M G c (if is_running s then insert n R else R - {n}) (upd w n s e)"
proof -
  have g: "group_ok W D G" using assms(1) by (simp add: GJ_def)
  then have N: "n \<in> names_of W" using n by (auto simp: group_ok_def)
  have "deps_in D m \<subseteq> completed_steps (en_state (upd w n s e))" if m: "m \<in> G" for m
  proof -
    have "n \<notin> deps_in D m" using g m n by (auto simp: group_ok_def)
    then show ?thesis using assms(1) m by (auto simp: GJ_def)
  qed
  then show ?thesis using assms(1) N by (auto simp: GJ_def upd_inv upd_running slots_def)
qed

lemma g_set:
  assumes n: "n \<in> G" and s: "\<not> is_running s" and R: "R - {n} \<subseteq> R'"
  shows "valid (GJ W D M G c R) (set_step w n s) (\<lambda>_. GJ W D M G c R') X"
proof (rule valid_set_step)
  fix e assume "GJ W D M G c R e"
  from GJ_upd [OF this n, of s w] s have "GJ W D M G c (R - {n}) (upd w n s e)" by simp
  then show "GJ W D M G c R' (upd w n s e)" by (rule GJ_mono) (use R in auto)
qed

lemma g_set_running:
  assumes n: "n \<in> G"
  shows "valid (GJ W D M G c R) (set_step w n (Running x)) (\<lambda>_. GJ W D M G c (insert n R)) X"
proof (rule valid_set_step)
  fix e assume "GJ W D M G c R e"
  from GJ_upd [OF this n, of "Running x" w]
  show "GJ W D M G c (insert n R) (upd w n (Running x) e)" by simp
qed

lemma GJ_progress:
  "same_progress (en_state e) st \<Longrightarrow> GJ W D M G c R e \<Longrightarrow> GJ W D M G c R (e\<lparr>en_state := st\<rparr>)"
  by (simp add: GJ_def same_progress_inv slots_def) (simp add: same_progress_def)

subsection \<open>Launching a member\<close>

lemma reset_siblings_valid:
  "set ns \<subseteq> names_of W \<Longrightarrow>
     valid (run_inv W D M) (reset_siblings ns w) (\<lambda>_. run_inv W D M) (run_inv W D M)"
proof (induction ns)
  case (Cons n ns)
  then show ?case
    unfolding reset_siblings.simps
    by (intro valid_bind [OF set_inv] inv_quiet quiet_find_step quiet_eseq)
      (auto intro: quiet_intros)
qed (auto intro: valid_ret)

lemma launch_failed_valid: "valid (run_inv W D M) (launch_failed w s) (\<lambda>_. run_inv W D M) (run_inv W D M)"
  unfolding launch_failed_def
proof (rule inv_quiet(1) [OF quiet_report_spawn_failed], rule valid_bind_get)
  fix live
  show "valid (\<lambda>e. run_inv W D M e \<and> map sl_step (en_active e) = live)
     (eseq [stop_active_agents, reset_siblings live w, persist_or_log w]) (\<lambda>_. run_inv W D M) (run_inv W D M)"
  proof (rule valid_fact [of _ "set live \<subseteq> names_of W"])
    show "run_inv W D M e \<and> map sl_step (en_active e) = live \<Longrightarrow> set live \<subseteq> names_of W" for e
      by (auto simp: run_inv_def)
    assume live: "set live \<subseteq> names_of W"
    have "valid (run_inv W D M) (eseq [stop_active_agents, reset_siblings live w, persist_or_log w])
        (\<lambda>_. run_inv W D M) (run_inv W D M)"
      by (rule valid_seq_Cons [OF stop_agents_valid], rule valid_seq_Cons [OF reset_siblings_valid [OF live]],
          rule inv_quiet(2) [OF quiet_persist_or_log], rule valid_seq_Nil)
    then show ?thesis by (rule valid_pre) simp
  qed
qed

lemma g_prepare: "valid (GJ W D M G c R) (prepare_step_launch s) (\<lambda>_. GJ W D M G c R) (run_inv W D M)"
  unfolding prepare_step_launch_def
  by (rule g_quiet(1) [OF quiet_elift_of], rule g_quiet(1) [OF quiet_basic(4)],
      rule valid_bind [OF record_launch_valid], rule GJ_progress, assumption, assumption)
    (rule valid_get)

lemma g_report_launching:
  assumes "ws_name s \<in> G"
  shows "valid (GJ W D M G c R) (report_launching s p) (\<lambda>_. GJ W D M G c R) (run_inv W D M)"
  unfolding report_launching_def
proof (rule valid_seq_Cons)
  show "valid (GJ W D M G c R)
     (\<lambda>e. eff (Eff_launching (ws_name s) (pl_attempt p) (completed_steps (en_state e))) e)
     (\<lambda>_. GJ W D M G c R) (run_inv W D M)"
    unfolding valid_def using assms
    by (auto simp: eff_def emod_def GJ_def log_launch_inv log_progress slots_def)
qed (intro g_quiet(2) quiet_intros valid_seq_Nil, auto)

lemma g_add_slot:
  assumes n: "ws_name s \<in> G" and c: "Suc c \<le> slot_cap M (length (wf_steps W))"
  shows "valid (GJ W D M G c {ws_name s}) (add_parallel_slot s x p) (\<lambda>_. GJ W D M G (Suc c) {}) X"
  unfolding add_parallel_slot_def
proof (rule valid_mod)
  fix e assume e: "GJ W D M G c {ws_name s} e"
  let ?e = "e\<lparr>en_active := en_active e @ [parallel_slot s x p (en_next_launch_id e)],
      en_next_launch_id := Suc (en_next_launch_id e)\<rparr>"
  have sl: "sl_step (parallel_slot s x p i) = ws_name s" for i
    by (simp add: parallel_slot_def new_slot_def)
  have "run_inv W D M ?e"
    using e c n GJ_names [OF e] by (auto simp: GJ_def run_inv_def sl)
  moreover have "slots ?e = insert (ws_name s) (slots e)" "running ?e = running e"
    by (auto simp: slots_def sl running_def)
  ultimately show "GJ W D M G (Suc c) {} ?e"
    using e n by (auto simp: GJ_def)
qed

lemma g_relaunch:
  assumes n: "ws_name s \<in> G" and c: "Suc c \<le> slot_cap M (length (wf_steps W))"
  shows "valid (GJ W D M G c {ws_name s}) (launch_parallel_step w s b) (\<lambda>_. GJ W D M G (Suc c) {}) (run_inv W D M)"
proof (rule valid_fact [OF GJ_names], assumption)
  assume "G \<subseteq> names_of W"
  then have N: "ws_name s \<in> names_of W" using n by auto
  have spawn: "valid (GJ W D M G c {ws_name s}) (spawn_prepared_step w s p)
      (\<lambda>_. GJ W D M G c {ws_name s}) (run_inv W D M)" for p
    using g_set_running [OF n, of W D M c "{ws_name s}"]
    by (intro spawn_valid [OF ginv.core_predicate_axioms _ refl N] GJ_inv GJ_progress) auto
  show ?thesis
    unfolding launch_parallel_step_def
    by (rule valid_bind [OF g_prepare], rule valid_bind [OF g_report_launching [OF n]],
        rule valid_bind [OF on_error_valid [OF spawn launch_failed_valid]],
        rule g_quiet(2), rule quiet_eff, simp, rule valid_seq_Cons [OF g_add_slot [OF n c] valid_seq_Nil])
qed

lemma g_launch:
  assumes "ws_name s \<in> G" and "Suc c \<le> slot_cap M (length (wf_steps W))"
  shows "valid (GJ W D M G c {}) (launch_parallel_step w s b) (\<lambda>_. GJ W D M G (Suc c) {}) (run_inv W D M)"
  by (rule valid_pre [OF g_relaunch [OF assms]]) (auto intro: GJ_mono)

lemma g_find_step:
  "valid (GJ W D M G c R) (find_step n) (\<lambda>s e. GJ W D M G c R e \<and> ws_name s = n) (run_inv W D M)"
  unfolding find_step_def
  by (auto simp: valid_def elift_def efail_def eret_def GJ_inv split: sum.splits dest: find_step_in_Inr)

definition queue_in :: "string set \<Rightarrow> workflow_step list \<Rightarrow> bool" where
  "queue_in G queue \<longleftrightarrow> ws_name ` set queue \<subseteq> G"

lemma g_launch_below:
  assumes "ws_name s \<in> G" and "live < cap" and "cap \<le> slot_cap M (length (wf_steps W))"
  shows "valid (\<lambda>e. GJ W D M G cap {} e \<and> length (en_active e) = live)
     (launch_parallel_step w s b) (\<lambda>_. GJ W D M G cap {}) (run_inv W D M)"
proof -
  obtain c where c: "cap = Suc c" using assms(2) by (cases cap) auto
  show ?thesis
    unfolding c by (rule valid_pre [OF g_launch]) (use assms c in \<open>auto simp: GJ_def\<close>)
qed

lemma launch_batch_valid:
  assumes cap: "cap \<le> slot_cap M (length (wf_steps W))"
  shows "queue_in G queue \<Longrightarrow>
     valid (GJ W D M G cap {}) (launch_batch w cap queue)
       (\<lambda>q e. GJ W D M G cap {} e \<and> queue_in G q) (run_inv W D M)"
proof (induction queue)
  case Nil
  then show ?case by (auto intro: valid_ret)
next
  case (Cons s queue)
  then have s: "ws_name s \<in> G" and q: "queue_in G queue" by (auto simp: queue_in_def)
  show ?case
    unfolding launch_batch.simps
    by (rule valid_bind_get, rule valid_if,
        rule valid_bind [OF g_launch_below [OF s _ cap] Cons.IH [OF q]], assumption,
        rule valid_ret) (use Cons.prems in simp)
qed

lemma launch_head_valid:
  assumes cap: "cap \<le> slot_cap M (length (wf_steps W))" and q: "queue_in G queue"
  shows "valid (GJ W D M G cap {}) (launch_head w cap queue)
       (\<lambda>q e. GJ W D M G cap {} e \<and> queue_in G q) (run_inv W D M)"
proof (cases queue)
  case Nil
  then show ?thesis
    unfolding launch_head_def by (auto intro!: valid_bind_get valid_ret simp: queue_in_def)
next
  case (Cons s rest)
  then have s: "ws_name s \<in> G" and r: "queue_in G rest" using q by (auto simp: queue_in_def)
  show ?thesis
    unfolding launch_head_def Cons list.case
    by (rule valid_bind_get, rule valid_if,
        rule valid_bind [OF g_launch_below [OF s _ cap] valid_ret], assumption, simp add: r,
        rule valid_ret) (use q Cons in simp)
qed

subsection \<open>Giving up slots\<close>

lemma g_shrink:
  assumes "set xs \<subseteq> set (en_active e)" and "length xs \<le> length (en_active e)"
    and "slots e \<subseteq> insert n (sl_step ` set xs)" and "GJ W D M G c R e"
  shows "GJ W D M G c (insert n R) (e\<lparr>en_active := xs\<rparr>)"
proof -
  have sub: "sl_step ` set xs \<subseteq> slots e" using assms(1) by (auto simp: slots_def)
  have e: "run_inv W D M e" using assms(4) by (rule GJ_inv)
  then have "slots e \<subseteq> names_of W" by (simp add: run_inv_def slots_def)
  with sub have "sl_step ` set xs \<subseteq> names_of W" by (rule subset_trans)
  with e have "run_inv W D M (e\<lparr>en_active := xs\<rparr>)"
    using assms(2) unfolding run_inv_def by simp
  moreover have "running (e\<lparr>en_active := xs\<rparr>) = running e" by (simp add: running_def)
  moreover have "slots (e\<lparr>en_active := xs\<rparr>) = sl_step ` set xs" by (simp add: slots_def)
  moreover from assms(4) have "slots e \<subseteq> G" "running e \<subseteq> slots e \<union> R" by (simp_all add: GJ_def)
  then have "sl_step ` set xs \<subseteq> G" "running e \<subseteq> sl_step ` set xs \<union> insert n R"
    using sub assms(3) by blast+
  ultimately show ?thesis using assms(2,4) by (simp add: GJ_def)
qed

lemma g_remove: "valid (GJ W D M G c R) (remove_active_step n) (\<lambda>_. GJ W D M G c (insert n R)) X"
  unfolding remove_active_step_def by (rule valid_mod, rule g_shrink) (auto simp: slots_def)

lemma g_remove_first: "valid (GJ W D M G c R) (remove_first_active n) (\<lambda>_. GJ W D M G c (insert n R)) X"
  unfolding remove_first_active_def
proof (rule valid_mod)
  fix e assume e: "GJ W D M G c R e"
  show "GJ W D M G c (insert n R) (e\<lparr>en_active :=
      (case position (\<lambda>s. sl_step s = n) (en_active e) of None \<Rightarrow> en_active e
       | Some i \<Rightarrow> take i (en_active e) @ drop (Suc i) (en_active e))\<rparr>)"
  proof (rule g_shrink [OF _ _ _ e])
    let ?xs = "case position (\<lambda>s. sl_step s = n) (en_active e) of None \<Rightarrow> en_active e
       | Some i \<Rightarrow> take i (en_active e) @ drop (Suc i) (en_active e)"
    show "set ?xs \<subseteq> set (en_active e)"
      by (auto split: option.splits dest: in_set_takeD in_set_dropD)
    show "length ?xs \<le> length (en_active e)" by (auto split: option.splits)
    show "slots e \<subseteq> insert n (sl_step ` set ?xs)"
    proof (cases "position (\<lambda>s. sl_step s = n) (en_active e)")
      case (Some i)
      then have i: "i < length (en_active e)" "sl_step (en_active e ! i) = n"
        using position_SomeD [OF Some] by auto
      then have "set (en_active e) = set (take i (en_active e) @ en_active e ! i # drop (Suc i) (en_active e))"
        by (simp add: id_take_nth_drop [symmetric])
      then show ?thesis using Some i(2) by (auto simp: slots_def)
    qed (auto simp: slots_def)
  qed
qed

lemma g_drop_slot:
  assumes "quiet m" "quiet k"
  shows "valid (GJ W D M G c {}) (case slot of Some s \<Rightarrow> eseq [m, remove_first_active n, k] | None \<Rightarrow> eret ())
     (\<lambda>_. GJ W D M G c {n}) (run_inv W D M)"
proof (rule valid_option)
  show "valid (GJ W D M G c {}) (eret ()) (\<lambda>_. GJ W D M G c {n}) (run_inv W D M)"
    by (rule valid_ret, erule GJ_mono) auto
  show "valid (GJ W D M G c {}) (eseq [m, remove_first_active n, k]) (\<lambda>_. GJ W D M G c {n}) (run_inv W D M)"
    by (rule g_quiet(2) [OF assms(1)], rule valid_seq_Cons [OF g_remove_first],
        rule g_quiet(2) [OF assms(2) valid_seq_Nil]) simp
qed

definition turn_queue ::
  "workflow \<Rightarrow> workflow_dag \<Rightarrow> nat option \<Rightarrow> string set \<Rightarrow> nat \<Rightarrow> workflow_step list \<Rightarrow> engine \<Rightarrow> bool" where
  "turn_queue W D M G cap queue e \<longleftrightarrow> GJ W D M G cap {} e \<and> queue_in G queue"

subsection \<open>Countdowns\<close>

lemma yolo_advance_parallel_valid:
  assumes n: "n \<in> G" and cap: "cap \<le> slot_cap M (length (wf_steps W))" and q: "queue_in G queue"
  shows "valid (GJ W D M G cap {}) (yolo_advance_parallel w n cap b queue)
     (turn_queue W D M G cap) (run_inv W D M)"
proof -
  have slot: "valid (GJ W D M G cap {}) (case slot of
      Some s \<Rightarrow> eseq [cancel_slot s, remove_first_active n] | None \<Rightarrow> eret ())
      (\<lambda>_. GJ W D M G cap {n}) (run_inv W D M)" for slot
  proof (rule valid_option)
    show "valid (GJ W D M G cap {}) (eret ()) (\<lambda>_. GJ W D M G cap {n}) (run_inv W D M)"
      by (rule valid_ret, erule GJ_mono) auto
    show "valid (GJ W D M G cap {}) (eseq [cancel_slot s, remove_first_active n])
        (\<lambda>_. GJ W D M G cap {n}) (run_inv W D M)" for s
      by (rule g_quiet(2) [OF quiet_cancel_slot], rule valid_seq_Cons [OF g_remove_first valid_seq_Nil])
  qed
  have seq: "valid (GJ W D M G cap {}) (eseq [eff (Eff_parallel_countdown_finished n),
      (case slot of Some s \<Rightarrow> eseq [cancel_slot s, remove_first_active n] | None \<Rightarrow> eret ()),
      eff (Eff_parallel_exited n killed_exit_code), set_step w n Succeeded])
      (\<lambda>_. GJ W D M G cap {}) (run_inv W D M)" for slot
    by (rule g_quiet(2), rule quiet_eff, simp, rule valid_seq_Cons [OF slot],
        rule g_quiet(2), rule quiet_eff, simp, rule valid_seq_Cons [OF g_set [OF n] valid_seq_Nil]) auto
  have head: "valid (GJ W D M G cap {}) (if b then launch_head w cap queue else eret queue)
      (turn_queue W D M G cap) (run_inv W D M)"
    unfolding turn_queue_def by (rule valid_if [OF launch_head_valid [OF cap q] valid_ret]) (use q in simp)
  show ?thesis
    unfolding yolo_advance_parallel_def
    by (rule g_quiet(1) [OF quiet_basic(4)], rule valid_bind [OF seq], rule g_quiet(1) [OF quiet_find_step],
        rule g_quiet(1) [OF quiet_eseq head]) (auto intro: quiet_intros)
qed

lemma tick_slots_valid:
  assumes cap: "cap \<le> slot_cap M (length (wf_steps W))"
  shows "fst ` set ts \<subseteq> G \<Longrightarrow> queue_in G queue \<Longrightarrow>
     valid (GJ W D M G cap {}) (tick_slots w now cap b ts queue) (turn_queue W D M G cap) (run_inv W D M)"
proof (induction ts arbitrary: queue)
  case Nil
  then show ?case by (auto intro: valid_ret simp: turn_queue_def)
next
  case (Cons t ts)
  obtain n d where t: "t = (n, d)" by (cases t)
  have n: "n \<in> G" using Cons.prems t by simp
  have go_on: "valid (turn_queue W D M G cap q) (tick_slots w now cap b ts q)
      (turn_queue W D M G cap) (run_inv W D M)" for q
  proof (rule valid_fact)
    show "turn_queue W D M G cap q e \<Longrightarrow> queue_in G q" for e by (simp add: turn_queue_def)
    assume "queue_in G q"
    then have "valid (GJ W D M G cap {}) (tick_slots w now cap b ts q)
        (turn_queue W D M G cap) (run_inv W D M)"
      using Cons.prems by (intro Cons.IH) auto
    then show ?thesis by (rule valid_pre) (simp add: turn_queue_def)
  qed
  have keep: "valid (GJ W D M G cap {}) (eret queue) (turn_queue W D M G cap) (run_inv W D M)"
    by (rule valid_ret) (use Cons.prems in \<open>simp add: turn_queue_def\<close>)
  have cancel: "valid (GJ W D M G cap {}) (ebind (eseq [update_slot n (\<lambda>s. s\<lparr>sl_deadline := None\<rparr>),
      eff (Eff_parallel_countdown_finished n)]) (\<lambda>_. eret queue)) (turn_queue W D M G cap) (run_inv W D M)"
    by (rule g_quiet(1) [OF quiet_eseq keep]) (auto intro: quiet_intros)
  note advance = yolo_advance_parallel_valid [OF n cap Cons.prems(2)]
  show ?case
    unfolding t tick_slots.simps
    by (rule g_quiet(1) [OF quiet_ask], rule valid_bind [OF _ go_on])
      (auto intro: keep cancel advance split: yolo_tick_outcome.split simp del: eseq.simps)
qed

lemma tick_parallel_yolo_valid:
  assumes "cap \<le> slot_cap M (length (wf_steps W))" and "queue_in G queue"
  shows "valid (GJ W D M G cap {}) (tick_parallel_yolo w cap b queue) (turn_queue W D M G cap) (run_inv W D M)"
  unfolding tick_parallel_yolo_def
proof (rule g_quiet(1) [OF quiet_clock], rule valid_bind_get, rule valid_fact)
  show "GJ W D M G cap {} e \<and> ticking_slots e = ts \<Longrightarrow> fst ` set ts \<subseteq> G" for ts e
    by (fastforce simp: GJ_def slots_def ticking_slots_def split: option.splits)
qed (rule valid_pre [OF tick_slots_valid], use assms in auto)

subsection \<open>The ends of a group\<close>

lemma kill_active_valid:
  "valid (GJ W D M G c {}) kill_active_parallel_steps
     (\<lambda>names e. J W D M (set names) e \<and> set names \<subseteq> G \<and> G \<subseteq> names_of W) (run_inv W D M)"
  unfolding kill_active_parallel_steps_def
proof (rule valid_bind_get, rule valid_bind [OF valid_mod valid_ret])
  fix names e
  assume e: "GJ W D M G c {} e \<and> map sl_step (en_active e) = names"
  have l: "\<not> is_launch x" if "x \<in> set (killed_slot_effects s)" for s x
    using that by (auto simp: killed_slot_effects_def split: if_splits)
  have "launches_ok D (rev (concat (map killed_slot_effects (en_active e))) @ en_log e)"
    using e l by (fastforce simp: GJ_def run_inv_def launches_ok_def)
  then have "run_inv W D M (e\<lparr>en_active := [],
      en_log := rev (concat (map killed_slot_effects (en_active e))) @ en_log e\<rparr>)"
    using e by (simp add: GJ_def run_inv_def)
  moreover have "set names = slots e" using e by (auto simp: slots_def)
  ultimately show "J W D M (set names) (e\<lparr>en_active := [],
      en_log := rev (concat (map killed_slot_effects (en_active e))) @ en_log e\<rparr>)
      \<and> set names \<subseteq> G \<and> G \<subseteq> names_of W"
    using e by (auto simp: J_def GJ_def group_ok_def running_def)
qed

lemma cancel_group_valid: "valid (run_inv W D M) (cancel_parallel_group w) (ended W D M) (run_inv W D M)"
  unfolding cancel_parallel_group_def
proof (rule inv_quiet(1) [OF quiet_basic(4)], rule valid_bind [OF _ cancel_run_valid])
  fix live
  show "valid (run_inv W D M) (eseq [stop_active_agents,
      eseq (map (\<lambda>n. eff (Eff_parallel_exited n killed_exit_code)) live), eff Eff_group_finished])
      (\<lambda>_. run_inv W D M) (run_inv W D M)"
    by (rule valid_seq_Cons [OF stop_agents_valid], rule inv_quiet(2), rule quiet_eseq,
        force intro: quiet_eff, rule inv_quiet(2), rule quiet_eff, simp, rule valid_seq_Nil)
qed

lemma abort_group_valid: "valid (GJ W D M G c {}) (abort_parallel_group w) (ended W D M) (run_inv W D M)"
proof -
  have seq: "valid (run_inv W D M) (eseq [mark_all_unfinished w Cancelled, persist w, eff Eff_group_finished])
      (\<lambda>_ e. run_inv W D M e \<and> all_closed W Cancelled e) (run_inv W D M)"
    by (rule valid_seq_Cons [OF mark_all_valid]) (intro closed_quiet quiet_intros valid_seq_Nil, auto)
  show ?thesis
    unfolding abort_parallel_group_def
    by (rule g_quiet(1), rule quiet_flags, rule valid_bind [OF kill_active_valid],
        rule valid_pre [OF valid_bind [OF seq report_closed]]) (auto simp: J_def)
qed

lemma set_all_valid:
  assumes "\<not> is_running s"
  shows "set ns \<subseteq> names_of W \<Longrightarrow> R - set ns \<subseteq> R' \<Longrightarrow> valid (J W D M R') (eseq ms) Q X \<Longrightarrow>
     valid (J W D M R) (eseq (map (\<lambda>n. set_step w n s) ns @ ms)) Q X"
proof (induction ns arbitrary: R)
  case Nil
  then show ?case by (auto intro: valid_pre J_mono)
next
  case (Cons n ns)
  have "valid (J W D M (R - {n})) (eseq (map (\<lambda>n. set_step w n s) ns @ ms)) Q X"
    by (rule Cons.IH) (use Cons.prems in auto)
  then show ?case
    unfolding list.map append_Cons
    by (intro valid_seq_Cons [OF set_J [where R' = "R - {n}"]]) (use Cons.prems assms in auto)
qed

lemma pause_group_valid: "valid (GJ W D M G c {}) (pause_parallel_group w) (ended W D M) (run_inv W D M)"
  unfolding pause_parallel_group_def
proof (rule valid_bind [OF kill_active_valid], rule valid_fact)
  fix names
  show "J W D M (set names) e \<and> set names \<subseteq> G \<and> G \<subseteq> names_of W \<Longrightarrow> set names \<subseteq> names_of W" for e
    by auto
  assume n: "set names \<subseteq> names_of W"
  have "valid (J W D M (set names)) (eseq (map (\<lambda>n. set_step w n Pending) names @ [persist w, eff Eff_group_finished]))
      (\<lambda>_. J W D M {}) (run_inv W D M)"
    by (rule set_all_valid [OF _ n, of Pending _ "{}"], simp, simp)
      (intro j_quiet quiet_intros valid_seq_Nil, auto)
  then have "valid (J W D M (set names)) (ebind (eseq (map (\<lambda>n. set_step w n Pending) names @
      [persist w, eff Eff_group_finished])) (\<lambda>_. report_outcome Paused)) (ended W D M) (run_inv W D M)"
    by (rule valid_bind [OF _ report_valid [OF jinv.core_predicate_axioms]]) (simp add: ended_def)
  then show "valid (\<lambda>e. J W D M (set names) e \<and> set names \<subseteq> G \<and> G \<subseteq> names_of W)
      (ebind (eseq (map (\<lambda>n. set_step w n Pending) names @ [persist w, eff Eff_group_finished]))
         (\<lambda>_. report_outcome Paused)) (ended W D M) (run_inv W D M)"
    by (rule valid_pre) simp
qed

subsection \<open>Restarting and leaving a group\<close>

lemma restart_parallel_step_valid:
  assumes n: "n \<in> G" and cap: "cap \<le> slot_cap M (length (wf_steps W))" and q0: "queue_in G queue0"
  shows "valid (GJ W D M G cap {}) (restart_parallel_step w n cap queue0)
     (turn_queue W D M G cap) (run_inv W D M)"
proof -
  let ?queue = "filter (\<lambda>s. ws_name s \<noteq> n) queue0"
  have q: "queue_in G ?queue" using q0 by (auto simp: queue_in_def)
  have slot: "valid (GJ W D M G cap {}) (case slot of
        Some s \<Rightarrow> eseq [remove_first_active n, cancel_slot s,
          if sl_deadline s \<noteq> None then eff (Eff_parallel_countdown_finished n) else eret (),
          eff (Eff_parallel_exited n killed_exit_code)]
      | None \<Rightarrow> eret ()) (\<lambda>_. GJ W D M G cap {n}) (run_inv W D M)" for slot
  proof (rule valid_option)
    show "valid (GJ W D M G cap {}) (eret ()) (\<lambda>_. GJ W D M G cap {n}) (run_inv W D M)"
      by (rule valid_ret, erule GJ_mono) auto
  qed (rule valid_seq_Cons [OF g_remove_first], intro g_quiet(2) quiet_intros valid_seq_Nil, auto)
  have launch: "valid (\<lambda>e. GJ W D M G cap {n} e \<and> length (en_active e) = live)
      (ebind (launch_parallel_step w s True) (\<lambda>_. eret ?queue)) (turn_queue W D M G cap) (run_inv W D M)"
    if s: "ws_name s = n" and live: "live < cap" for s :: workflow_step and live
  proof -
    obtain c where c: "cap = Suc c" using live by (cases cap) auto
    have "valid (GJ W D M G c {n}) (launch_parallel_step w s True) (\<lambda>_. GJ W D M G cap {}) (run_inv W D M)"
      using g_relaunch [where s = s and c = c and G = G and W = W and M = M and D = D] s n cap c by simp
    then have "valid (GJ W D M G c {n}) (ebind (launch_parallel_step w s True) (\<lambda>_. eret ?queue))
        (turn_queue W D M G cap) (run_inv W D M)"
      by (rule valid_bind [OF _ valid_ret]) (simp add: turn_queue_def q)
    then show ?thesis by (rule valid_pre) (use live c in \<open>auto simp: GJ_def\<close>)
  qed
  have requeue: "valid (\<lambda>e. GJ W D M G cap {n} e \<and> length (en_active e) = live)
      (ebind (eseq [set_step w n Pending, eff (Eff_step_status (ws_name s) StepPending), persist w])
         (\<lambda>_. eret (s # ?queue))) (turn_queue W D M G cap) (run_inv W D M)"
    if s: "ws_name s = n" for s :: workflow_step and live
  proof -
    have seq: "valid (GJ W D M G cap {n}) (eseq [set_step w n Pending,
        eff (Eff_step_status (ws_name s) StepPending), persist w]) (\<lambda>_. GJ W D M G cap {}) (run_inv W D M)"
      by (rule valid_seq_Cons [OF g_set [OF n, where R' = "{}"]], simp, simp)
        (intro g_quiet(2) quiet_intros valid_seq_Nil, auto)
    have "valid (GJ W D M G cap {n}) (ebind (eseq [set_step w n Pending,
        eff (Eff_step_status (ws_name s) StepPending), persist w]) (\<lambda>_. eret (s # ?queue)))
        (turn_queue W D M G cap) (run_inv W D M)"
      by (rule valid_bind [OF seq valid_ret]) (use s n q in \<open>auto simp: turn_queue_def queue_in_def\<close>)
    then show ?thesis by (rule valid_pre) simp
  qed
  have report: "valid (turn_queue W D M G cap q') (ebind report_progress (\<lambda>_. eret q'))
      (turn_queue W D M G cap) (run_inv W D M)" for q'
  proof (rule valid_fact)
    show "turn_queue W D M G cap q' e \<Longrightarrow> queue_in G q'" for e by (simp add: turn_queue_def)
    assume "queue_in G q'"
    then have "valid (GJ W D M G cap {}) (ebind report_progress (\<lambda>_. eret q'))
        (turn_queue W D M G cap) (run_inv W D M)"
      by (intro g_quiet(1) [OF quiet_report_progress] valid_ret) (simp add: turn_queue_def)
    then show ?thesis by (rule valid_pre) (simp add: turn_queue_def)
  qed
  have step: "valid (GJ W D M G cap {n}) (ebind (find_step n) (\<lambda>s.
     ebind (eget (\<lambda>e. length (en_active e))) (\<lambda>live.
     ebind (if live < cap
            then ebind (launch_parallel_step w s True) (\<lambda>_. eret ?queue)
            else ebind (eseq [set_step w n Pending, eff (Eff_step_status (ws_name s) StepPending),
                              persist w]) (\<lambda>_. eret (s # ?queue))) (\<lambda>queue'.
     ebind report_progress (\<lambda>_. eret queue'))))) (turn_queue W D M G cap) (run_inv W D M)"
  proof (rule valid_bind [OF g_find_step], rule valid_fact)
    fix s :: workflow_step
    show "GJ W D M G cap {n} e \<and> ws_name s = n \<Longrightarrow> ws_name s = n" for e by simp
    assume s: "ws_name s = n"
    show "valid (\<lambda>e. GJ W D M G cap {n} e \<and> ws_name s = n) (ebind (eget (\<lambda>e. length (en_active e))) (\<lambda>live.
     ebind (if live < cap
            then ebind (launch_parallel_step w s True) (\<lambda>_. eret ?queue)
            else ebind (eseq [set_step w n Pending, eff (Eff_step_status (ws_name s) StepPending),
                              persist w]) (\<lambda>_. eret (s # ?queue))) (\<lambda>queue'.
     ebind report_progress (\<lambda>_. eret queue')))) (turn_queue W D M G cap) (run_inv W D M)"
      by (rule valid_pre [OF valid_bind_get [OF valid_bind [OF valid_if [OF launch requeue] report]]])
        (use s in auto)
  qed
  show ?thesis
    unfolding restart_parallel_step_def Let_def
    by (rule g_quiet(1) [OF quiet_basic(4)], rule valid_bind [OF slot step])
qed

lemma reset_steps_valid:
  "set ns \<subseteq> names_of W \<Longrightarrow> R - set ns \<subseteq> R' \<Longrightarrow>
     valid (J W D M R) (reset_steps w ns) (\<lambda>_. J W D M R') (run_inv W D M)"
proof (induction ns arbitrary: R)
  case Nil
  then show ?case by (auto intro: valid_ret J_mono)
next
  case (Cons n ns)
  show ?case
    unfolding reset_steps.simps
    by (intro valid_bind [OF set_J [where R' = "R - {n}"]] j_quiet(1) quiet_find_step quiet_eff Cons.IH)
      (use Cons.prems in auto)
qed

lemma group_closed_valid: "valid (J W D M R) (group_closed w) (\<lambda>_. J W D M R) (run_inv W D M)"
  unfolding group_closed_def by (intro j_quiet quiet_intros valid_seq_Nil) auto

lemma rewind_group_valid:
  assumes "G \<subseteq> set names" and "set names \<subseteq> names_of W"
  shows "valid (GJ W D M G c {}) (rewind_parallel_group w names) (\<lambda>_. J W D M {}) (run_inv W D M)"
  unfolding rewind_parallel_group_def
proof (rule valid_bind [OF kill_active_valid])
  fix killed
  have "valid (J W D M G) (eseq [reset_steps w names, group_closed w]) (\<lambda>_. J W D M {}) (run_inv W D M)"
    by (rule valid_seq_Cons [OF reset_steps_valid [OF assms(2)] valid_seq_Cons [OF group_closed_valid valid_seq_Nil]])
      (use assms in auto)
  then show "valid (\<lambda>e. J W D M (set killed) e \<and> set killed \<subseteq> G \<and> G \<subseteq> names_of W)
      (eseq [reset_steps w names, group_closed w]) (\<lambda>_. J W D M {}) (run_inv W D M)"
    by (rule valid_pre) (auto intro: J_mono)
qed

lemma skip_steps_valid:
  "set ns \<subseteq> names_of W \<Longrightarrow> R - set ns \<subseteq> R' \<Longrightarrow>
     valid (J W D M R) (skip_steps w ns) (\<lambda>_. J W D M R') (run_inv W D M)"
proof (induction ns arbitrary: R)
  case Nil
  then show ?case by (auto intro: valid_ret J_mono)
next
  case (Cons n ns)
  have rest: "valid (J W D M (R - {n})) (skip_steps w ns) (\<lambda>_. J W D M R') (run_inv W D M)"
    using Cons.prems by (intro Cons.IH) auto
  show ?case
    unfolding skip_steps.simps
  proof (rule valid_bind_get, rule valid_if)
    fix st assume st: "st = Some Succeeded"
    show "valid (\<lambda>e. J W D M R e \<and> status_of (en_state e) n = st) (skip_steps w ns)
        (\<lambda>_. J W D M R') (run_inv W D M)"
      by (rule valid_pre [OF rest]) (use st in \<open>auto simp: J_def running_def\<close>)
  next
    fix st :: "step_state option"
    have "valid (J W D M R) (ebind (set_step w n Skipped) (\<lambda>_. ebind (find_step n) (\<lambda>s.
        ebind (eff (Eff_step_status (ws_name s) StepSkipped)) (\<lambda>_. skip_steps w ns))))
        (\<lambda>_. J W D M R') (run_inv W D M)"
      by (intro valid_bind [OF set_J [where R' = "R - {n}"]] j_quiet(1) quiet_find_step quiet_eff rest)
        (use Cons.prems in auto)
    then show "valid (\<lambda>e. J W D M R e \<and> status_of (en_state e) n = st)
        (ebind (set_step w n Skipped) (\<lambda>_. ebind (find_step n) (\<lambda>s.
           ebind (eff (Eff_step_status (ws_name s) StepSkipped)) (\<lambda>_. skip_steps w ns))))
        (\<lambda>_. J W D M R') (run_inv W D M)"
      by (rule valid_pre) simp
  qed
qed

lemma skip_group_valid:
  assumes "G \<subseteq> set names" and "set names \<subseteq> names_of W"
  shows "valid (GJ W D M G c {}) (skip_parallel_group w names) (\<lambda>_. J W D M {}) (run_inv W D M)"
  unfolding skip_parallel_group_def
proof (rule valid_bind [OF kill_active_valid])
  fix killed
  have "valid (J W D M G) (eseq [skip_steps w names, group_closed w]) (\<lambda>_. J W D M {}) (run_inv W D M)"
    by (rule valid_seq_Cons [OF skip_steps_valid [OF assms(2)] valid_seq_Cons [OF group_closed_valid valid_seq_Nil]])
      (use assms in auto)
  then show "valid (\<lambda>e. J W D M (set killed) e \<and> set killed \<subseteq> G \<and> G \<subseteq> names_of W)
      (eseq [skip_steps w names, group_closed w]) (\<lambda>_. J W D M {}) (run_inv W D M)"
    by (rule valid_pre) (auto intro: J_mono)
qed

subsection \<open>The board of a running group\<close>

fun req_post ::
  "workflow \<Rightarrow> workflow_dag \<Rightarrow> nat option \<Rightarrow> string set \<Rightarrow> nat \<Rightarrow> parallel_request_outcome \<Rightarrow> engine \<Rightarrow> bool" where
  "req_post W D M G cap ReqContinue e = GJ W D M G cap {} e"
| "req_post W D M G cap (ReqEnded wo) e = ended W D M wo e"
| "req_post W D M G cap (ReqRestartStep n) e = (GJ W D M G cap {} e \<and> n \<in> G)"
| "req_post W D M G cap ReqRewound e = J W D M {} e"

lemma dependents_loop_names:
  "set (dependents_loop steps reached out) \<subseteq> set out \<union> ws_name ` set steps"
proof (induction steps reached out rule: dependents_loop.induct)
  case (1 steps reached out)
  have "set (dependents_next steps reached) \<subseteq> ws_name ` set steps"
    by (auto simp: dependents_next_def)
  with 1 show ?case by (subst dependents_loop.simps) (auto simp: Let_def simp del: dependents_loop.simps)
qed

lemma back_names:
  assumes e: "run_inv W D M e" and G: "set grp \<subseteq> names_of W"
  shows "set (sorted_dedup (dependencies_of e grp @ dependents_of e (dependencies_of e grp) @ grp)) \<subseteq> names_of W"
proof -
  have "set (dependencies_of e grp) \<subseteq> names_of W"
    using order_names [OF e] e by (auto simp: dependencies_of_def Let_def run_inv_def)
  moreover have "set (dependents_of e ns) \<subseteq> names_of W" for ns
    using dependents_loop_names [of "wf_steps W" "set ns" "[]"] e
    by (auto simp: dependents_of_def names_of_def run_inv_def)
  ultimately show ?thesis using G by (auto simp: sorted_dedup_def)
qed

lemma resolve_valid:
  assumes grp: "G = set grp"
  shows "valid (GJ W D M G cap {}) (resolve_parallel_group_action w action grp)
     (req_post W D M G cap) (run_inv W D M)"
proof (rule valid_fact [OF GJ_names], assumption)
  assume N: "G \<subseteq> names_of W"
  have go_on: "valid (GJ W D M G cap {}) (eret ReqContinue) (req_post W D M G cap) (run_inv W D M)"
    by (rule valid_ret) simp
  have rewound: "valid (J W D M {}) (eret ReqRewound) (req_post W D M G cap) (run_inv W D M)"
    by (rule valid_ret) simp
  have which: "valid (GJ W D M G cap {}) (eret (if n \<in> set grp then ReqRestartStep n else ReqContinue))
      (req_post W D M G cap) (run_inv W D M)" for n
    by (rule valid_ret) (simp add: grp)
  note rewind = rewind_group_valid [of G grp W D M cap w]
  note skip = skip_group_valid [of G grp W D M cap w]
  have whole: "valid (GJ W D M G cap {}) (ebind (rewind_parallel_group w grp) (\<lambda>_. eret ReqRewound))
      (req_post W D M G cap) (run_inv W D M)"
    by (rule valid_bind [OF rewind rewound]) (use grp N in auto)
  have one: "valid (GJ W D M G cap {}) (ebind (eget (\<lambda>e. map (\<lambda>n. (n, status_of (en_state e) n)) grp)) (\<lambda>members.
      ebind (ask_parallel_group w (RestartWhich members)) (\<lambda>d'. case d' of
        RestartStep n \<Rightarrow> eret (if n \<in> set grp then ReqRestartStep n else ReqContinue)
      | _ \<Rightarrow> eret ReqContinue))) (req_post W D M G cap) (run_inv W D M)"
    by (rule g_quiet(1) [OF quiet_basic(4)], rule g_quiet(1) [OF quiet_ask_group],
        split parallel_group_decision.split, intro conjI impI allI) (rule which go_on)+
  have restart: "valid (GJ W D M G cap {}) (ebind (ask_parallel_group w (RestartScope grp)) (\<lambda>d. case d of
      RestartWholeGroup \<Rightarrow> ebind (rewind_parallel_group w grp) (\<lambda>_. eret ReqRewound)
    | RestartOneAgent \<Rightarrow>
        ebind (eget (\<lambda>e. map (\<lambda>n. (n, status_of (en_state e) n)) grp)) (\<lambda>members.
        ebind (ask_parallel_group w (RestartWhich members)) (\<lambda>d'. case d' of
          RestartStep n \<Rightarrow> eret (if n \<in> set grp then ReqRestartStep n else ReqContinue)
        | _ \<Rightarrow> eret ReqContinue))
    | _ \<Rightarrow> eret ReqContinue)) (req_post W D M G cap) (run_inv W D M)"
    by (rule g_quiet(1) [OF quiet_ask_group], split parallel_group_decision.split,
        intro conjI impI allI) (rule whole one go_on)+
  have back_turn: "valid (GJ W D M G cap {}) (ebind (eget (\<lambda>e. dependencies_of e grp)) (\<lambda>back_to.
      if back_to = [] then eret ReqContinue
      else
        ebind (ask_parallel_group w (CancelGroupQ grp (GroupBack back_to))) (\<lambda>d.
          if d \<noteq> CancelGroup then eret ReqContinue
          else
            ebind (eget (\<lambda>e. dependents_of e back_to)) (\<lambda>downstream.
            ebind (rewind_parallel_group w (sorted_dedup (back_to @ downstream @ grp)))
              (\<lambda>_. eret ReqRewound))))) (req_post W D M G cap) (run_inv W D M)"
  proof (rule valid_bind_get)
    fix back_to
    let ?all = "\<lambda>downstream. sorted_dedup (back_to @ downstream @ grp)"
    let ?P = "\<lambda>e. GJ W D M G cap {} e \<and> dependencies_of e grp = back_to"
    have cp: "core_predicate ?P"
    proof
      fix e e' assume c: "core e = core e'"
      have "dependencies_of e' grp = dependencies_of e grp"
        using core_fields(1,2) [OF c] by (simp add: dependencies_of_def)
      then show "?P e \<Longrightarrow> ?P e'" using ginv.core_only [OF c] by simp
    qed
    have rew: "valid (\<lambda>e. ?P e \<and> dependents_of e back_to = downstream)
        (ebind (rewind_parallel_group w (?all downstream)) (\<lambda>_. eret ReqRewound))
        (req_post W D M G cap) (run_inv W D M)" for downstream
    proof (rule valid_fact)
      show "?P e \<and> dependents_of e back_to = downstream \<Longrightarrow> set (?all downstream) \<subseteq> names_of W" for e
        using back_names [OF GJ_inv, of W D M G cap "{}" e grp] N grp by auto
      assume "set (?all downstream) \<subseteq> names_of W"
      then have "valid (GJ W D M G cap {}) (ebind (rewind_parallel_group w (?all downstream)) (\<lambda>_. eret ReqRewound))
          (req_post W D M G cap) (run_inv W D M)"
        by (intro valid_bind [OF rewind_group_valid rewound]) (auto simp: grp sorted_dedup_def)
      then show "valid (\<lambda>e. ?P e \<and> dependents_of e back_to = downstream)
        (ebind (rewind_parallel_group w (?all downstream)) (\<lambda>_. eret ReqRewound))
        (req_post W D M G cap) (run_inv W D M)" by (rule valid_pre) simp
    qed
    have go': "valid ?P (eret ReqContinue) (req_post W D M G cap) (run_inv W D M)"
      by (rule valid_pre [OF go_on]) simp
    show "valid ?P (if back_to = [] then eret ReqContinue
      else
        ebind (ask_parallel_group w (CancelGroupQ grp (GroupBack back_to))) (\<lambda>d.
          if d \<noteq> CancelGroup then eret ReqContinue
          else
            ebind (eget (\<lambda>e. dependents_of e back_to)) (\<lambda>downstream.
            ebind (rewind_parallel_group w (?all downstream)) (\<lambda>_. eret ReqRewound))))
      (req_post W D M G cap) (run_inv W D M)"
      by (rule valid_if [OF go'], rule core_predicate.quiet_then [OF cp quiet_ask_group],
          erule conjE, erule GJ_inv, rule valid_if [OF go'], rule valid_bind_get, rule rew)
  qed
  have next_turn: "valid (GJ W D M G cap {}) (ebind (eget (\<lambda>e. direct_dependents_of e grp)) (\<lambda>after.
      ebind (ask_parallel_group w (CancelGroupQ grp (GroupNext after))) (\<lambda>d.
        if d \<noteq> CancelGroup then eret ReqContinue
        else ebind (skip_parallel_group w grp) (\<lambda>_. eret ReqRewound))))
      (req_post W D M G cap) (run_inv W D M)"
    by (rule g_quiet(1) [OF quiet_basic(4)], rule g_quiet(1) [OF quiet_ask_group], rule valid_if [OF go_on],
        rule valid_bind [OF skip rewound]) (use grp N in auto)
  show ?thesis
    unfolding resolve_parallel_group_action_def
    by (cases action) (simp_all only: next_action.case go_on restart back_turn next_turn)
qed

lemma focus_valid: "valid (GJ W D M G c {}) (focus_parallel_step n) (\<lambda>_. GJ W D M G c {}) X"
  unfolding focus_parallel_step_def
proof (rule valid_mod)
  fix e assume e: "GJ W D M G c {} e"
  show "GJ W D M G c {} (case position (\<lambda>s. sl_step s = n) (en_active e) of
      None \<Rightarrow> e
    | Some i \<Rightarrow> (let s = en_active e ! i in
        e\<lparr>en_active := (en_active e)[i := en_active e ! 0, 0 := s],
          en_current_step := Some (sl_step s), en_current_agent := Some (sl_agent s),
          en_current_model := sl_model s\<rparr>))"
  proof (cases "position (\<lambda>s. sl_step s = n) (en_active e)")
    case (Some i)
    then have i: "i < length (en_active e)" by (auto dest: position_SomeD)
    let ?xs = "(en_active e)[i := en_active e ! 0, 0 := en_active e ! i]"
    have xs: "set ?xs = set (en_active e)" using i by (intro set_swap) auto
    have in_slots: "sl_step (en_active e ! i) \<in> slots e" using i by (simp add: slots_def)
    have "run_inv W D M e" "slots e \<subseteq> names_of W"
      using e by (auto simp: GJ_def group_ok_def)
    then have "run_inv W D M (e\<lparr>en_active := ?xs, en_current_step := Some (sl_step (en_active e ! i)),
        en_current_agent := Some (sl_agent (en_active e ! i)), en_current_model := sl_model (en_active e ! i)\<rparr>)"
      using in_slots unfolding run_inv_def slots_def by (auto simp: xs simp del: set_update_distinct)
    then show ?thesis
      using Some e unfolding GJ_def by (simp add: Let_def slots_def xs running_def)
  qed (use e in simp)
qed

lemma request_valid:
  assumes grp: "G = set grp" and retry: "\<And>n. retryable = Some n \<Longrightarrow> n \<in> G"
  shows "valid (GJ W D M G cap {}) (handle_parallel_engine_request w req grp retryable)
     (req_post W D M G cap) (run_inv W D M)"
proof -
  have go_on: "valid (GJ W D M G cap {}) (eret ReqContinue) (req_post W D M G cap) (run_inv W D M)"
    by (rule valid_ret) simp
  have ended: "valid (ended W D M wo) (eret (ReqEnded wo)) (req_post W D M G cap) (run_inv W D M)" for wo
    by (rule valid_ret) simp
  have retry': "valid (GJ W D M G cap {}) (eret (if retryable = Some n then ReqRestartStep n else ReqContinue))
      (req_post W D M G cap) (run_inv W D M)" for n
    by (rule valid_ret) (use retry in simp)
  have board: "valid (GJ W D M G cap {}) (group_board_action w action a grp retryable)
      (req_post W D M G cap) (run_inv W D M)" for action a
    unfolding group_board_action_def
    by (cases action) (auto intro!: go_on retry' valid_bind [OF pause_group_valid ended]
      valid_bind [OF abort_group_valid ended] resolve_valid [OF grp] valid_if split del: if_split)
  have open_board: "valid (GJ W D M G cap {}) (ebind (focus_parallel_step n) (\<lambda>_.
      ebind (\<lambda>e. elift (parallel_group_board_actions e grp retryable) e) (\<lambda>available.
      ebind (show_board w available) (\<lambda>action.
        group_board_action w action available grp retryable)))) (req_post W D M G cap) (run_inv W D M)" for n
    by (rule valid_bind [OF focus_valid], rule g_quiet(1) [OF quiet_elift_of],
        rule g_quiet(1) [OF quiet_show_board board])
  show ?thesis
    unfolding handle_parallel_engine_request_def
    by (cases req) (auto intro: open_board g_quiet(1) [OF quiet_stuck_event go_on])
qed

subsection \<open>The loop\<close>

fun group_post ::
  "workflow \<Rightarrow> workflow_dag \<Rightarrow> nat option \<Rightarrow> group_outcome \<Rightarrow> engine \<Rightarrow> bool" where
  "group_post W D M (Drained failed) e = (J W D M {} e \<and> fst ` set failed \<subseteq> names_of W)"
| "group_post W D M (GroupEnded wo) e = ended W D M wo e"
| "group_post W D M GroupRewound e = J W D M {} e"

fun turn_post ::
  "workflow \<Rightarrow> workflow_dag \<Rightarrow> nat option \<Rightarrow> string set \<Rightarrow> nat \<Rightarrow> group_turn \<Rightarrow> engine \<Rightarrow> bool" where
  "turn_post W D M G cap (TurnGo queue failed) e =
     (turn_queue W D M G cap queue e \<and> fst ` set failed \<subseteq> G)"
| "turn_post W D M G cap (TurnOver g) e = group_post W D M g e"

lemma turn_over_valid:
  "valid P m (ended W D M) R \<Longrightarrow> valid P (turn_over m) (turn_post W D M G cap) R"
  unfolding turn_over_def by (erule valid_bind, rule valid_ret) simp

lemma turn_go_valid:
  "valid P m (turn_queue W D M G cap) R \<Longrightarrow> fst ` set failed \<subseteq> G \<Longrightarrow>
     valid P (turn_go failed m) (turn_post W D M G cap) R"
  unfolding turn_go_def by (erule valid_bind, rule valid_ret) simp

lemma launch_head_turn:
  "cap \<le> slot_cap M (length (wf_steps W)) \<Longrightarrow> queue_in G queue \<Longrightarrow>
     valid (GJ W D M G cap {}) (launch_head w cap queue) (turn_queue W D M G cap) (run_inv W D M)"
  unfolding turn_queue_def by (rule launch_head_valid)

lemma after_exit_valid:
  assumes cap: "cap \<le> slot_cap M (length (wf_steps W))" and q: "queue_in G queue"
    and s: "ws_name s \<in> G" and f: "fst ` set failed \<subseteq> G"
  shows "valid (GJ W D M G cap {}) (after_exit w cap s b status queue failed)
     (turn_post W D M G cap) (run_inv W D M)"
proof -
  have go: "valid (GJ W D M G cap {}) (eret (TurnGo queue fs)) (turn_post W D M G cap) (run_inv W D M)"
    if "fst ` set fs \<subseteq> G" for fs
    by (rule valid_ret) (use that q in \<open>simp add: turn_queue_def\<close>)
  have head: "valid (GJ W D M G cap {}) (turn_go failed (launch_head w cap q')) (turn_post W D M G cap) (run_inv W D M)"
    if "queue_in G q'" for q'
    by (rule turn_go_valid [OF launch_head_turn [OF cap that] f])
  have head0: "valid (GJ W D M G cap {}) (turn_go [] (launch_head w cap queue)) (turn_post W D M G cap) (run_inv W D M)"
    by (rule turn_go_valid [OF launch_head_turn [OF cap q]]) simp
  have sq: "queue_in G (s # queue)" using s q by (simp add: queue_in_def)
  have abort: "valid (GJ W D M G cap {}) (turn_over (abort_parallel_group w)) (turn_post W D M G cap) (run_inv W D M)"
    by (rule turn_over_valid [OF abort_group_valid])
  show ?thesis
    unfolding after_exit_def
    by (intro valid_if head sq) (use s f in \<open>auto intro!: valid_if go head head0 q abort split!: step_status.split
      split del: if_split\<close>)
qed

lemma record_exit_valid:
  assumes cap: "cap \<le> slot_cap M (length (wf_steps W))" and q: "queue_in G queue"
    and n: "n \<in> G" and f: "fst ` set failed \<subseteq> G"
  shows "valid (GJ W D M G cap {}) (record_exit w cap n x b queue failed)
     (turn_post W D M G cap) (run_inv W D M)"
proof -
  obtain status state where es: "exit_status (xi_exit_code x) b = (status, state)"
    by (cases "exit_status (xi_exit_code x) b")
  then have state: "\<not> is_running state" by (auto simp: exit_status_def split: if_splits)
  have first: "valid (GJ W D M G cap {}) (eseq [remove_active_step n, emod (\<lambda>e. e\<lparr>en_last_exit := Some x\<rparr>)])
      (\<lambda>_. GJ W D M G cap {n}) (run_inv W D M)"
    by (rule valid_seq_Cons [OF g_remove], rule g_quiet(2), rule quiet_flags, rule valid_seq_Nil) simp
  have second: "valid (GJ W D M G cap {n}) (eseq [set_step w n state, eff (Eff_step_status (ws_name s) status),
      eff (Eff_parallel_exited n (xi_exit_code x)), persist w, report_progress])
      (\<lambda>_. GJ W D M G cap {}) (run_inv W D M)" for s :: workflow_step
    by (rule valid_seq_Cons [OF g_set [OF n state, where R' = "{}"]], simp)
      (intro g_quiet(2) quiet_intros valid_seq_Nil, auto)
  have cancel: "valid (GJ W D M G cap {}) (turn_over (cancel_parallel_group w)) (turn_post W D M G cap) (run_inv W D M)"
    by (rule turn_over_valid [OF G_pre_inv [OF cancel_group_valid]])
  have rest: "valid (\<lambda>e. GJ W D M G cap {n} e \<and> ws_name s = n)
     (ebind (eseq [set_step w n state, eff (Eff_step_status (ws_name s) status),
        eff (Eff_parallel_exited n (xi_exit_code x)), persist w, report_progress]) (\<lambda>_.
      ebind (cancel_requested w) (\<lambda>cancelled.
        if cancelled then turn_over (cancel_parallel_group w)
        else after_exit w cap s b status queue failed))) (turn_post W D M G cap) (run_inv W D M)"
    for s :: workflow_step
  proof (rule valid_pure2)
    assume "ws_name s = n"
    then have s: "ws_name s \<in> G" using n by simp
    show "valid (GJ W D M G cap {n})
     (ebind (eseq [set_step w n state, eff (Eff_step_status (ws_name s) status),
        eff (Eff_parallel_exited n (xi_exit_code x)), persist w, report_progress]) (\<lambda>_.
      ebind (cancel_requested w) (\<lambda>cancelled.
        if cancelled then turn_over (cancel_parallel_group w)
        else after_exit w cap s b status queue failed))) (turn_post W D M G cap) (run_inv W D M)"
      by (rule valid_bind [OF second], rule g_quiet(1) [OF quiet_cancel_requested],
          rule valid_if [OF cancel after_exit_valid [OF cap q s f]])
  qed
  show ?thesis
    unfolding record_exit_def es prod.case
    by (rule valid_bind [OF first], rule valid_bind [OF g_find_step rest])
qed

lemma member_exited_valid:
  assumes cap: "cap \<le> slot_cap M (length (wf_steps W))" and q: "queue_in G queue"
    and f: "fst ` set failed \<subseteq> G"
  shows "valid (GJ W D M G cap {}) (member_exited w cap n i r queue failed)
     (turn_post W D M G cap) (run_inv W D M)"
proof -
  have cancel: "valid (GJ W D M G cap {}) (turn_over (cancel_parallel_group w)) (turn_post W D M G cap) (run_inv W D M)"
    by (rule turn_over_valid [OF G_pre_inv [OF cancel_group_valid]])
  have stay: "valid (GJ W D M G cap {}) (eret (TurnGo queue failed)) (turn_post W D M G cap) (run_inv W D M)"
    by (rule valid_ret) (use q f in \<open>simp add: turn_queue_def\<close>)
  have live: "valid (GJ W D M G cap {}) (ebind (cancel_requested w) (\<lambda>cancelled.
       if cancelled then turn_over (cancel_parallel_group w)
       else
         ebind (elift r) (\<lambda>x.
         ebind (maybe_dump_step_failure n (xi_exit_code x)) (\<lambda>_.
         if xi_exit_code x = 0 then record_exit w cap n x False queue failed
         else
           ebind (cancel_requested w) (\<lambda>cancelled'.
           if cancelled' then turn_over (cancel_parallel_group w)
           else
             ebind (recover_auth_failure w n) (\<lambda>recovered.
               record_exit w cap n x recovered queue failed)))))) (turn_post W D M G cap) (run_inv W D M)"
    if n: "n \<in> G"
    by (rule g_quiet(1) [OF quiet_cancel_requested], rule valid_if [OF cancel],
        rule g_quiet(1) [OF quiet_elift], rule g_quiet(1) [OF quiet_maybe_dump],
        rule valid_if [OF record_exit_valid [OF cap q n f]], rule g_quiet(1) [OF quiet_cancel_requested],
        rule valid_if [OF cancel], rule g_quiet(1) [OF quiet_recover_auth record_exit_valid [OF cap q n f]])
  show ?thesis
    unfolding member_exited_def
  proof (rule valid_bind_get, rule valid_if)
    fix b :: bool
    show "valid (\<lambda>e. GJ W D M G cap {} e \<and> list_ex (\<lambda>s. sl_step s = n \<and> sl_launch_id s = i) (en_active e) = b)
       (eret (TurnGo queue failed)) (turn_post W D M G cap) (run_inv W D M)"
      by (rule valid_pre [OF stay]) simp
    assume b: "\<not> \<not> b"
    show "valid (\<lambda>e. GJ W D M G cap {} e \<and> list_ex (\<lambda>s. sl_step s = n \<and> sl_launch_id s = i) (en_active e) = b)
      (ebind (cancel_requested w) (\<lambda>cancelled.
       if cancelled then turn_over (cancel_parallel_group w)
       else
         ebind (elift r) (\<lambda>x.
         ebind (maybe_dump_step_failure n (xi_exit_code x)) (\<lambda>_.
         if xi_exit_code x = 0 then record_exit w cap n x False queue failed
         else
           ebind (cancel_requested w) (\<lambda>cancelled'.
           if cancelled' then turn_over (cancel_parallel_group w)
           else
             ebind (recover_auth_failure w n) (\<lambda>recovered.
               record_exit w cap n x recovered queue failed)))))) (turn_post W D M G cap) (run_inv W D M)"
    proof (rule valid_fact [of _ "n \<in> G"])
      show "GJ W D M G cap {} e \<and> list_ex (\<lambda>s. sl_step s = n \<and> sl_launch_id s = i) (en_active e) = b \<Longrightarrow> n \<in> G" for e
        using b by (auto simp: GJ_def slots_def list_ex_iff)
    qed (rule valid_pre [OF live], auto)
  qed
qed

lemma group_step_valid:
  assumes cap: "cap \<le> slot_cap M (length (wf_steps W))" and q: "queue_in G queue"
    and f: "fst ` set failed \<subseteq> G" and grp: "G = set grp"
  shows "valid (GJ W D M G cap {}) (group_step w grp cap queue failed)
     (turn_post W D M G cap) (run_inv W D M)"
proof -
  let ?retry = "case failed of (n, _) # _ \<Rightarrow> Some n | [] \<Rightarrow> None"
  have go: "valid (GJ W D M G cap {}) (eret (TurnGo queue failed)) (turn_post W D M G cap) (run_inv W D M)"
    by (rule valid_ret) (use q f in \<open>simp add: turn_queue_def\<close>)
  have retry: "n \<in> G" if "?retry = Some n" for n
    using that f by (auto split: list.splits prod.splits)
  have answer: "valid (req_post W D M G cap r) (case r of
         ReqContinue \<Rightarrow> eret (TurnGo queue failed)
       | ReqEnded wo \<Rightarrow> eret (TurnOver (GroupEnded wo))
       | ReqRestartStep n \<Rightarrow>
           turn_go (filter (\<lambda>(m, _). m \<noteq> n) failed) (restart_parallel_step w n cap queue)
       | ReqRewound \<Rightarrow> eret (TurnOver GroupRewound)) (turn_post W D M G cap) (run_inv W D M)" for r
  proof (cases r)
    case (ReqRestartStep n)
    have "fst ` set (filter (\<lambda>(m, _). m \<noteq> n) failed) \<subseteq> G" using f by auto
    then have "valid (GJ W D M G cap {}) (turn_go (filter (\<lambda>(m, _). m \<noteq> n) failed) (restart_parallel_step w n cap queue))
        (turn_post W D M G cap) (run_inv W D M)" if "n \<in> G"
      by (rule turn_go_valid [OF restart_parallel_step_valid [OF that cap q]])
    then have "valid (\<lambda>e. GJ W D M G cap {} e \<and> n \<in> G)
        (turn_go (filter (\<lambda>(m, _). m \<noteq> n) failed) (restart_parallel_step w n cap queue))
        (turn_post W D M G cap) (run_inv W D M)" by (rule valid_pure2)
    then show ?thesis unfolding ReqRestartStep parallel_request_outcome.case by (rule valid_pre) simp
  qed (use q f in \<open>auto intro!: valid_ret simp: turn_queue_def\<close>)
  have request: "valid (GJ W D M G cap {}) (group_request w grp cap req queue failed)
      (turn_post W D M G cap) (run_inv W D M)" for req
    unfolding group_request_def by (rule valid_bind [OF request_valid [OF grp retry] answer])
  have cancel: "valid (GJ W D M G cap {}) (turn_over (cancel_parallel_group w)) (turn_post W D M G cap) (run_inv W D M)"
    by (rule turn_over_valid [OF G_pre_inv [OF cancel_group_valid]])
  show ?thesis
    unfolding group_step_def
    by (rule g_quiet(1) [OF quiet_group_select])
      (auto intro!: cancel request g_quiet(1) [OF quiet_stuck_event go] turn_go_valid [OF tick_parallel_yolo_valid [OF cap q]]
        member_exited_valid [OF cap q f] f split!: group_event.split simp: image_subset_iff)
qed

lemma group_loop_valid:
  assumes cap: "cap \<le> slot_cap M (length (wf_steps W))" and grp: "G = set grp"
  shows "queue_in G queue \<Longrightarrow> fst ` set failed \<subseteq> G \<Longrightarrow>
     valid (GJ W D M G cap {}) (group_loop fuel w grp cap queue failed) (group_post W D M) (run_inv W D M)"
proof (induction fuel arbitrary: queue failed)
  case 0
  then show ?case by (auto intro: valid_wait dest: GJ_inv)
next
  case (Suc fuel)
  have over: "valid (\<lambda>e. GJ W D M G cap {} e \<and> (en_active e = []) = b)
      (ebind (eff Eff_group_finished) (\<lambda>_. eret (Drained failed))) (group_post W D M) (run_inv W D M)" if b for b
  proof -
    have "valid (J W D M {}) (ebind (eff Eff_group_finished) (\<lambda>_. eret (Drained failed)))
        (\<lambda>g e. J W D M {} e \<and> g = Drained failed) (run_inv W D M)"
      by (rule j_quiet(1), rule quiet_eff, simp, rule valid_ret) simp
    then have "valid (\<lambda>e. G \<subseteq> names_of W \<and> J W D M {} e) (ebind (eff Eff_group_finished) (\<lambda>_. eret (Drained failed)))
        (group_post W D M) (run_inv W D M)"
      using Suc.prems(2) by (intro valid_pure) (erule valid_post, auto)
    then show ?thesis
      by (rule valid_pre) (use that in \<open>auto simp: GJ_def J_def slots_def group_ok_def\<close>)
  qed
  have turn: "valid (turn_post W D M G cap t) (case t of
      TurnGo queue' failed' \<Rightarrow> group_loop fuel w grp cap queue' failed' | TurnOver g \<Rightarrow> eret g)
      (group_post W D M) (run_inv W D M)" for t
  proof (cases t)
    case (TurnGo q f)
    have "valid (\<lambda>e. (queue_in G q \<and> fst ` set f \<subseteq> G) \<and> GJ W D M G cap {} e)
        (group_loop fuel w grp cap q f) (group_post W D M) (run_inv W D M)"
      by (rule valid_pure) (use Suc.IH in blast)
    then show ?thesis
      unfolding TurnGo group_turn.case by (rule valid_pre) (simp add: turn_queue_def)
  qed (auto intro: valid_ret)
  have go: "valid (\<lambda>e. GJ W D M G cap {} e \<and> (en_active e = []) = b)
      (ebind (group_step w grp cap queue failed) (\<lambda>t. case t of
         TurnGo queue' failed' \<Rightarrow> group_loop fuel w grp cap queue' failed' | TurnOver g \<Rightarrow> eret g))
      (group_post W D M) (run_inv W D M)" for b
    by (rule valid_pre [OF valid_bind [OF group_step_valid [OF cap Suc.prems grp] turn]]) simp
  show ?case
    unfolding group_loop.simps by (rule valid_bind_get, rule valid_if [OF over go])
qed

end
