(* ===== verification/Run_Theorems.thy ===== *)
theory Run_Theorems
  imports Run_Group_Safety
begin

text \<open>
  Whole runs: the outer loop keeps the invariant, and what follows for a run that was started or
  resumed - what is launched and when, how many containers live, what each outcome means - for
  every behaviour of the outside world and any fuel.
\<close>

subsection \<open>A group of ready steps\<close>

lemma slot_cap_mono: "m \<le> n \<Longrightarrow> slot_cap M m \<le> slot_cap M n"
  by (auto simp: slot_cap_def split: option.splits)

lemma ready_steps_names:
  "next_ready_steps e = Inr ready \<Longrightarrow> map ws_name ready = ready_names e"
  by (rule nth_equalityI) (auto simp: next_ready_steps_def rmap_Inr_iff dest!: find_step_in_Inr)

lemma ready_length:
  assumes "run_inv W D M e"
  shows "length (ready_names e) \<le> length (wf_steps W)"
proof -
  have "length (ready_names e) \<le> length (dag_order D)"
    using assms by (simp add: run_inv_def ready_names_def next_ready_def ready_steps_def)
  also have "dag_order D = map ws_name (wf_steps W)"
    using assms by (intro build_dag_Inr(1)) (simp add: run_inv_def)
  finally show ?thesis by simp
qed

lemma ready_group_ok:
  assumes e: "run_inv W D M e"
  shows "group_ok W D (set (ready_names e))"
    and "\<forall>g \<in> set (ready_names e). deps_in D g \<subseteq> completed_steps (en_state e)"
  using ready_in_names [OF e] ready_deps [OF e] unfolding group_ok_def by blast+

lemma run_parallel_group_valid:
  "valid (\<lambda>e. J W D M {} e \<and> next_ready_steps e = Inr ready)
     (run_parallel_group fuel w ready) (group_post W D M) (run_inv W D M)"
proof (rule valid_fact)
  let ?grp = "map ws_name ready"
  let ?cap = "slot_cap M (length ready)"
  let ?P = "\<lambda>e. J W D M {} e \<and> ready_names e = ?grp"
  show "J W D M {} e \<and> next_ready_steps e = Inr ready \<Longrightarrow>
      ?cap \<le> slot_cap M (length (wf_steps W))" for e
    using ready_steps_names [of e ready] ready_length [OF J_inv]
    by (metis length_map slot_cap_mono)
  assume cap: "?cap \<le> slot_cap M (length (wf_steps W))"
  have cp: "core_predicate ?P"
    by unfold_locales (use jinv.core_only core_ready in metis)
  have clear: "valid ?P (emod (\<lambda>e. e\<lparr>en_active := []\<rparr>)) (\<lambda>_. GJ W D M (set ?grp) ?cap {}) (run_inv W D M)"
  proof (rule valid_mod)
    fix e assume e: "?P e"
    then have i: "run_inv W D M e" by (simp add: J_def)
    then have "run_inv W D M (e\<lparr>en_active := []\<rparr>)" by (simp add: run_inv_def)
    with ready_group_ok [OF i] e show "GJ W D M (set ?grp) ?cap {} (e\<lparr>en_active := []\<rparr>)"
      by (simp add: GJ_def J_def slots_def running_def)
  qed
  have q: "queue_in (set ?grp) ready" by (simp add: queue_in_def)
  have loop: "valid (\<lambda>e. GJ W D M (set ?grp) ?cap {} e \<and> queue_in (set ?grp) q)
      (group_loop fuel w ?grp ?cap q []) (group_post W D M) (run_inv W D M)" for q
    by (rule valid_pure2, rule group_loop_valid [OF cap refl]) auto
  have start: "valid ?P (ebind (eget (\<lambda>e. slot_cap (en_max_concurrent e) (length ready))) (\<lambda>cap.
      ebind (emod (\<lambda>e. e\<lparr>en_active := []\<rparr>)) (\<lambda>_.
      ebind (launch_batch w cap ready) (\<lambda>queue.
        group_loop fuel w ?grp cap queue [])))) (group_post W D M) (run_inv W D M)"
  proof (rule valid_bind_get, rule valid_fact)
    fix c
    show "?P e \<and> slot_cap (en_max_concurrent e) (length ready) = c \<Longrightarrow> c = ?cap" for e
      by (auto simp: J_def run_inv_def)
    assume c: "c = ?cap"
    show "valid (\<lambda>e. ?P e \<and> slot_cap (en_max_concurrent e) (length ready) = c)
      (ebind (emod (\<lambda>e. e\<lparr>en_active := []\<rparr>)) (\<lambda>_. ebind (launch_batch w c ready) (\<lambda>queue.
        group_loop fuel w ?grp c queue []))) (group_post W D M) (run_inv W D M)"
      unfolding c
      by (rule valid_pre [OF valid_bind [OF clear valid_bind [OF launch_batch_valid [OF cap q] loop]]]) simp
  qed
  have "valid ?P (run_parallel_group fuel w ready) (group_post W D M) (run_inv W D M)"
    unfolding run_parallel_group_def Let_def
    by (rule core_predicate.quiet_then [OF cp], rule quiet_eff, simp, erule conjE, erule J_inv, rule start)
  then show "valid (\<lambda>e. J W D M {} e \<and> next_ready_steps e = Inr ready)
     (run_parallel_group fuel w ready) (group_post W D M) (run_inv W D M)"
    by (rule valid_pre) (use ready_steps_names in \<open>auto simp: J_def\<close>)
qed

lemma recover_failures_valid:
  "fst ` set fs \<subseteq> names_of W \<Longrightarrow>
     valid (J W D M {}) (recover_failures fuel w fs) (fail_post W D M) (run_inv W D M)"
proof (induction fs)
  case Nil
  then show ?case by (auto intro: valid_ret)
next
  case (Cons f fs)
  obtain n code where f: "f = (n, code)" by (cases f)
  have n: "n \<in> names_of W" using Cons.prems f by simp
  have go_on: "valid (fail_post W D M r) (case r of
      IterContinue \<Rightarrow> recover_failures fuel w fs | IterEnded wo \<Rightarrow> eret (IterEnded wo))
      (fail_post W D M) (run_inv W D M)" for r
    using Cons by (cases r) (auto intro: valid_ret valid_pre)
  have handle: "valid (J W D M {}) (handle_group_step_failure fuel w n code) (fail_post W D M) (run_inv W D M)"
    unfolding handle_group_step_failure_def
    by (rule valid_bind [OF set_current_valid [OF n] handle_step_failure_valid [OF n]])
  show ?case
    unfolding f recover_failures.simps by (rule valid_bind [OF handle go_on])
qed

lemma parallel_iteration_valid:
  "valid (\<lambda>e. J W D M {} e \<and> next_ready_steps e = Inr ready)
     (parallel_iteration fuel w ready) (iter_post W D M) (run_inv W D M)"
proof -
  have g: "valid (group_post W D M g) (case g of
       Drained failed \<Rightarrow> recover_failures fuel w failed
     | GroupEnded wo \<Rightarrow> eret (IterEnded wo)
     | GroupRewound \<Rightarrow> eret IterContinue) (iter_post W D M) (run_inv W D M)" for g
  proof (cases g)
    case (Drained failed)
    have "valid (\<lambda>e. J W D M {} e \<and> fst ` set failed \<subseteq> names_of W) (recover_failures fuel w failed)
        (iter_post W D M) (run_inv W D M)"
      by (rule valid_pure2, rule valid_post [OF recover_failures_valid fail_post_iter])
    then show ?thesis unfolding Drained group_outcome.case by (rule valid_pre) simp
  qed (auto intro!: valid_ret simp: loop_head_J)
  show ?thesis
    unfolding parallel_iteration_def by (rule valid_bind [OF run_parallel_group_valid g])
qed

subsection \<open>The outer loop\<close>

lemma complete_running: "run_inv W D M e \<Longrightarrow> is_complete (en_state e) \<Longrightarrow> running e = {}"
  using is_complete_iff [of "en_state e"] by (fastforce simp: run_inv_def running_def)

interpretation loopinv: core_predicate "loop_head W D M"
  by unfold_locales (use jinv.core_only kinv.core_only in \<open>unfold loop_head_def, blast\<close>)

lemma loop_quiet:
  "quiet m \<Longrightarrow> (\<And>x. valid (loop_head W D M) (k x) Q (run_inv W D M)) \<Longrightarrow>
     valid (loop_head W D M) (ebind m k) Q (run_inv W D M)"
  by (rule loopinv.quiet_then) (auto simp: loop_head_inv)

lemma run_iteration_valid:
  "valid (loop_head W D M) (run_iteration fuel w) (iter_post W D M) (run_inv W D M)"
proof -
  have cancel: "valid (loop_head W D M) (iter_ended (cancel_run w)) (iter_post W D M) (run_inv W D M)"
  proof -
    have "valid (run_inv W D M) (iter_ended (cancel_run w)) (iter_post W D M) (run_inv W D M)"
      unfolding iter_ended_def by (rule valid_bind [OF cancel_run_valid valid_ret]) simp
    then show ?thesis by (rule valid_pre) (rule loop_head_inv)
  qed
  have complete: "valid (\<lambda>e. loop_head W D M e \<and> is_complete (en_state e) = c)
      (iter_ended report_completed_run) (iter_post W D M) (run_inv W D M)" if c for c
  proof -
    have "valid (ended W D M Completed) report_completed_run (ended W D M) (run_inv W D M)"
      unfolding report_completed_run_def
      by (rule endinv.quiet_then [OF quiet_report_progress ended_inv report_valid [OF endinv.core_predicate_axioms]])
    then have "valid (ended W D M Completed) (iter_ended report_completed_run) (iter_post W D M) (run_inv W D M)"
      unfolding iter_ended_def by (rule valid_bind [OF _ valid_ret]) simp
    then show ?thesis
      by (rule valid_pre) (use that complete_running [OF loop_head_inv] loop_head_inv in
        \<open>auto simp: ended_def J_def\<close>)
  qed
  have work: "valid (\<lambda>e. loop_head W D M e \<and> is_complete (en_state e) = c)
      (ebind (\<lambda>e. elift (next_ready_steps e) e) (\<lambda>ready.
         ebind (eget en_max_concurrent) (\<lambda>limit.
           if 1 < length ready \<and> limit \<noteq> Some 1
           then parallel_iteration fuel w ready
           else run_single_step_iteration fuel w))) (iter_post W D M) (run_inv W D M)" for c
  proof (rule valid_bind_elift, rule valid_bind_get, rule valid_if)
    fix ready limit
    let ?P = "\<lambda>e. ((loop_head W D M e \<and> is_complete (en_state e) = c) \<and> next_ready_steps e = Inr ready)
      \<and> en_max_concurrent e = limit"
    assume many: "1 < length ready \<and> limit \<noteq> Some 1"
    have "J W D M {} e" if e: "?P e" for e
    proof -
      have "length (ready_names e) = length ready"
        using ready_steps_names [of e ready] e by (metis length_map)
      moreover have "M = limit" using loop_head_inv [of W D M e] e by (simp add: run_inv_def)
      ultimately show ?thesis using e many by (auto simp: loop_head_def K_def)
    qed
    then show "valid ?P (parallel_iteration fuel w ready) (iter_post W D M) (run_inv W D M)"
      by (intro valid_pre [OF parallel_iteration_valid]) blast
  next
    fix ready limit
    let ?P = "\<lambda>e. ((loop_head W D M e \<and> is_complete (en_state e) = c) \<and> next_ready_steps e = Inr ready)
      \<and> en_max_concurrent e = limit"
    assume few: "\<not> (1 < length ready \<and> limit \<noteq> Some 1)"
    have "solo W D M e" if e: "?P e" for e
    proof -
      have "length (ready_names e) = length ready"
        using ready_steps_names [of e ready] e by (metis length_map)
      moreover have "M = limit" using loop_head_inv [of W D M e] e by (simp add: run_inv_def)
      ultimately show ?thesis using e few by (auto simp: solo_def)
    qed
    then show "valid ?P (run_single_step_iteration fuel w) (iter_post W D M) (run_inv W D M)"
      by (intro valid_pre [OF single_iteration_valid]) blast
  qed (auto simp: loop_head_inv)
  show ?thesis
    unfolding run_iteration_def
    by (rule loop_quiet [OF quiet_cancel_requested], rule valid_if [OF cancel], rule valid_bind_get,
        rule valid_if [OF complete work])
qed

lemma run_loop_valid: "valid (loop_head W D M) (run_loop fuel w) (ended W D M) (run_inv W D M)"
proof (induction fuel)
  case 0
  then show ?case by (auto intro: valid_wait loop_head_inv)
next
  case (Suc fuel)
  have "valid (iter_post W D M r) (case r of IterContinue \<Rightarrow> run_loop fuel w | IterEnded wo \<Rightarrow> eret wo)
      (ended W D M) (run_inv W D M)" for r
    by (cases r) (auto intro: valid_ret valid_pre [OF Suc.IH])
  then show ?case
    unfolding run_loop.simps by (rule valid_bind [OF run_iteration_valid])
qed

lemma run_to_completion_valid:
  "valid (loop_head W D M) (run_to_completion fuel w) (ended W D M) (run_inv W D M)"
  unfolding run_to_completion_def by (rule loop_quiet [OF quiet_report_progress run_loop_valid])

subsection \<open>Started and resumed engines\<close>

lemma assemble_inv:
  assumes d: "build_dag (wf_steps W) = Inr D" and ok: "state_ok st"
    and dom: "\<And>n. status_of st n \<noteq> None \<longleftrightarrow> n \<in> names_of W"
  shows "run_inv W D (cfg_max_concurrent cfg) (assemble cfg W D st)"
  using assms by (auto simp: run_inv_def assemble_def launches_ok_def)

text \<open>The settings a caller makes between construction and run.\<close>

definition configured :: "bool \<Rightarrow> bool \<Rightarrow> engine \<Rightarrow> engine" where
  "configured yolo prompts e = e\<lparr>en_yolo := yolo, en_group_prompts := prompts\<rparr>"

lemma configured_J: "J W D M R e \<Longrightarrow> J W D M R (configured y p e)"
  by (simp add: configured_def J_def run_inv_def running_def)

lemma engine_new_Inr:
  assumes "engine_new cfg hash now uuid wi W = Inr e"
  shows "build_dag (wf_steps W) = Inr (en_dag e)"
    and "J W (en_dag e) (cfg_max_concurrent cfg) {} e"
proof -
  from assms obtain D where d: "build_dag (wf_steps W) = Inr D"
    and e: "e = assemble cfg W D (new_state now uuid (workflow_name_for W) (wf_steps W) (hash W) wi)"
    by (auto simp: engine_new_def split: sum.splits)
  then show "build_dag (wf_steps W) = Inr (en_dag e)" by (simp add: assemble_def)
  have "run_inv W D (cfg_max_concurrent cfg) e"
    unfolding e by (rule assemble_inv [OF d new_state_ok]) (simp add: new_state_status names_of_def)
  moreover have "running e = {}"
    by (auto simp: running_def e assemble_def new_state_status)
  moreover have "en_dag e = D" using e by (simp add: assemble_def)
  ultimately show "J W (en_dag e) (cfg_max_concurrent cfg) {} e" by (simp add: J_def)
qed

lemma fold_or_insert:
  "hm_get (fold (\<lambda>n m. hm_or_insert n v m) ns m) k
     = (if hm_get m k = None \<and> k \<in> set ns then Some v else hm_get m k)"
  "hm_wf m \<Longrightarrow> hm_wf (fold (\<lambda>n m. hm_or_insert n v m) ns m)"
  by (induction ns arbitrary: m) (auto simp: hm_get_or_insert hm_wf_or_insert)

lemma align_status:
  "status_of (align_state W st) n
     = (if status_of st n = None \<and> n \<in> names_of W then Some Pending else status_of st n)"
proof -
  have "map si_name (map step_info_of (wf_steps W)) = map ws_name (wf_steps W)"
    by (simp add: step_info_of_def)
  then show ?thesis
    by (simp add: align_state_def Let_def status_of_def fold_or_insert names_of_def)
qed

lemma align_ok: "state_ok st \<Longrightarrow> state_ok (align_state W st)"
proof -
  assume st: "state_ok st"
  have c: "completed_steps (align_state W st) = completed_steps st"
    by (simp add: align_state_def Let_def)
  have "hm_wf (step_states (align_state W st))"
    using st by (simp add: align_state_def Let_def fold_or_insert state_ok_def)
  with st c show ?thesis by (auto simp: state_ok_def align_status)
qed

lemma reset_status:
  "status_of (reset_to_pending now ns st) n = (if n \<in> set ns then Some Pending else status_of st n)"
  by (induction ns arbitrary: st) (auto simp: reset_to_pending_def)

lemma reset_ok: "state_ok st \<Longrightarrow> state_ok (reset_to_pending now ns st)"
  by (induction ns arbitrary: st) (auto simp: reset_to_pending_def)

fun resumable :: "step_state \<Rightarrow> bool" where
  "resumable Pending = True"
| "resumable Succeeded = True"
| "resumable Skipped = True"
| "resumable _ = False"

lemma prepare_resumed_ok:
  assumes d: "build_dag (wf_steps W) = Inr D" and st: "state_ok saved"
  shows "state_ok (prepare_resumed now W D saved)"
    and "status_of (prepare_resumed now W D saved) n =
      (if n \<in> names_of W
       then (case status_of saved n of
               Some s \<Rightarrow> Some (if completing s then s else Pending) | None \<Rightarrow> Some Pending)
       else None)"
proof -
  have g: "built_dag D" using d by (auto simp: built_dag_def)
  have names: "set (topological_order D) = names_of W"
    using topological_order_ok(3) [OF g] build_dag_Inr(1) [OF d] by (simp add: names_of_def)
  define st0 where "st0 = fst (retain_steps_in now D saved)"
  define st1 where "st1 = align_state W st0"
  define st2 where "st2 = reset_to_pending now (interrupted_running_steps st1) st1"
  have r: "prepare_resumed now W D saved = reset_to_pending now (unrecovered_steps st2) st2"
    by (simp add: prepare_resumed_def Let_def st0_def st1_def st2_def)
  have ok1: "state_ok st1" unfolding st1_def st0_def by (rule align_ok [OF retain_steps_in_status(2) [OF st]])
  then have ok2: "state_ok st2" unfolding st2_def by (rule reset_ok)
  then show "state_ok (prepare_resumed now W D saved)" unfolding r by (rule reset_ok)
  have s1: "status_of st1 n = (if n \<in> names_of W then (case status_of saved n of Some s \<Rightarrow> Some s
      | None \<Rightarrow> Some Pending) else None)"
    using names by (auto simp: st1_def st0_def align_status retain_steps_in_status(1) [OF st]
        split: option.splits)
  have s2: "status_of st2 n = (case status_of st1 n of
      Some s \<Rightarrow> Some (if is_running s then Pending else s) | None \<Rightarrow> None)"
    by (auto simp: st2_def reset_status interrupted_iff [OF ok1] split: option.splits)
  have s3: "status_of (prepare_resumed now W D saved) n = (case status_of st2 n of
      Some s \<Rightarrow> Some (if unrecovered s then Pending else s) | None \<Rightarrow> None)"
    by (auto simp: r reset_status unrecovered_iff [OF ok2] split: option.splits)
  have c: "(if unrecovered (if is_running s then Pending else s) then Pending
      else if is_running s then Pending else s) = (if completing s then s else Pending)" for s
    by (cases s) auto
  show "status_of (prepare_resumed now W D saved) n =
      (if n \<in> names_of W
       then (case status_of saved n of
               Some s \<Rightarrow> Some (if completing s then s else Pending) | None \<Rightarrow> Some Pending)
       else None)"
    using c by (auto simp: s3 s2 s1 split: option.splits)
qed

lemma engine_resume_Inr:
  assumes "engine_resume cfg hash now uuid wi load confirm W = Inr e"
  obtains D saved where "build_dag (wf_steps W) = Inr D" "en_dag e = D"
    "en_state e = prepare_resumed now W D saved"
    "load = Inr (Some saved) \<or>
       load = Inr None \<and> saved = new_state now uuid (workflow_name_for W) (wf_steps W) (hash W) wi"
    "en_log e = rev (resume_warnings now W D saved)"
    "e = (assemble cfg W D (prepare_resumed now W D saved))\<lparr>en_log := en_log e\<rparr>"
proof -
  from assms obtain D where d: "build_dag (wf_steps W) = Inr D"
    by (auto simp: engine_resume_def split: sum.splits)
  from assms d obtain saved0 saved where l: "data_result load = Inr saved0"
    and a: "(case saved0 of Some st \<Rightarrow> accept_saved (hash W) confirm st
        | None \<Rightarrow> Inr (new_state now uuid (workflow_name_for W) (wf_steps W) (hash W) wi)) = Inr saved"
    and e: "e = (assemble cfg W D (prepare_resumed now W D saved))\<lparr>en_log := rev (resume_warnings now W D saved)\<rparr>"
    by (auto simp: engine_resume_def result_simps)
  have acc: "accept_saved (hash W) confirm st = Inr saved \<Longrightarrow> saved = st" for st
    by (auto simp: accept_saved_def result_simps split: if_splits)
  show ?thesis
  proof (rule that [OF d])
    show "en_dag e = D" "en_state e = prepare_resumed now W D saved"
      "en_log e = rev (resume_warnings now W D saved)"
      "e = (assemble cfg W D (prepare_resumed now W D saved))\<lparr>en_log := en_log e\<rparr>"
      by (simp_all add: e assemble_def)
    show "load = Inr (Some saved) \<or>
       load = Inr None \<and> saved = new_state now uuid (workflow_name_for W) (wf_steps W) (hash W) wi"
      using l a acc by (cases saved0) (auto simp: data_result_def split: sum.splits)
  qed
qed

text \<open>What a state store may hand back: nothing, or a state whose completed set matches its statuses.\<close>

definition saved_ok :: "(data_error, workflow_state option) result \<Rightarrow> bool" where
  "saved_ok load \<longleftrightarrow> (case load of Inr (Some st) \<Rightarrow> state_ok st | _ \<Rightarrow> True)"

lemma engine_resume_J:
  assumes r: "engine_resume cfg hash now uuid wi load confirm W = Inr e" and ok: "saved_ok load"
  shows "J W (en_dag e) (cfg_max_concurrent cfg) {} e"
    and "status_of (en_state e) n = Some s \<Longrightarrow> resumable s"
proof -
  from engine_resume_Inr [OF r] obtain D saved where d: "build_dag (wf_steps W) = Inr D"
    and D: "en_dag e = D" and st: "en_state e = prepare_resumed now W D saved"
    and l: "load = Inr (Some saved) \<or> load = Inr None \<and>
        saved = new_state now uuid (workflow_name_for W) (wf_steps W) (hash W) wi"
    and lg: "en_log e = rev (resume_warnings now W D saved)"
    and e: "e = (assemble cfg W D (prepare_resumed now W D saved))\<lparr>en_log := en_log e\<rparr>" .
  have sok: "state_ok saved" using l ok new_state_ok by (auto simp: saved_ok_def)
  note p = prepare_resumed_ok [OF d sok, of now]
  show res: "status_of (en_state e) n = Some s \<Longrightarrow> resumable s" for n s
  proof -
    assume "status_of (en_state e) n = Some s"
    then have "s = Pending \<or> completing s"
      using p(2) [of n] by (auto simp: st split: if_splits option.splits)
    then show "resumable s" by (cases s) auto
  qed
  have "run_inv W D (cfg_max_concurrent cfg) (assemble cfg W D (prepare_resumed now W D saved))"
    by (rule assemble_inv [OF d p(1)]) (auto simp: p(2) split: option.splits)
  moreover have "launches_ok D (en_log e)"
    unfolding lg by (auto simp: launches_ok_def resume_warnings_def Let_def split: prod.splits)
  ultimately have "run_inv W D (cfg_max_concurrent cfg) e"
    by (subst e) (simp add: run_inv_def assemble_def)
  moreover have "running e = {}" using res by (fastforce simp: running_def)
  ultimately show "J W (en_dag e) (cfg_max_concurrent cfg) {} e" using D by (simp add: J_def)
qed

text \<open>An open run always has a step to launch.\<close>

lemma open_run_has_ready:
  assumes e: "run_inv W D M e" and "\<not> is_complete (en_state e)"
  shows "ready_names e \<noteq> []"
proof -
  have ok: "state_ok (en_state e)" using e by (simp add: run_inv_def)
  from assms(2) obtain n s where s: "status_of (en_state e) n = Some s" "\<not> terminal s"
    by (auto simp: is_complete_iff [OF ok])
  have "n \<in> names_of W" using e s(1) by (auto simp: run_inv_def)
  moreover have "n \<notin> completed_steps (en_state e)"
    using s ok by (cases s) (auto simp: state_ok_def)
  moreover have b: "built_dag D" using e by (auto simp: run_inv_def built_dag_def)
  ultimately have "\<not> set (topological_order D) \<subseteq> completed_steps (en_state e)"
    using order_names [OF e] by blast
  then show ?thesis
    using dag.progress [OF b] e by (simp add: ready_names_def next_ready_def run_inv_def)
qed

subsection \<open>An example run\<close>

definition example_workflow :: "workflow_step list \<Rightarrow> workflow" where
  "example_workflow steps = \<lparr>wf_title = Some ''demo'', wf_steps = steps, wf_agent = Some ''claude'',
     wf_model = None, wf_overlays = None, wf_setup = [], wf_teardown = [],
     wf_teardown_on_failure = False\<rparr>"

definition example_chain :: workflow where
  "example_chain = example_workflow [example_step ''plan'' [], example_step ''implement'' [''plan'']]"

definition example_config :: engine_config where
  "example_config = \<lparr>cfg_agent = None, cfg_model = None, cfg_max_concurrent = Some 2\<rparr>"

definition example_exit :: "int \<Rightarrow> exit_info" where
  "example_exit code = \<lparr>xi_exit_code = code, xi_signal = None, xi_started_at = 0, xi_ended_at = 1\<rparr>"

text \<open>Containers exit with 0 as soon as they are waited for; every board is answered with "next".\<close>

definition calm_world :: world where
  "calm_world = \<lparr>wd_cancel_at = None, wd_now = (\<lambda>t. t), wd_save = (\<lambda>_. Inr ()),
     wd_spawn = (\<lambda>_ n. Inr \<lparr>ex_id = n, ex_name = ''c-'' @ n, ex_cancellable = True, ex_has_tail = True\<rparr>),
     wd_inject = (\<lambda>_ _. Inr True), wd_recover_auth = (\<lambda>_ _. Inr False), wd_interactive = True,
     wd_board = (\<lambda>_ _ _. Inr LaunchNext), wd_ask = (\<lambda>_ _. Inr KeepRunning),
     wd_event = (\<lambda>_. Exited (Inr (example_exit 0))), wd_group_event = (\<lambda>_. GTick),
     wd_finished = (\<lambda>_. None), wd_drained = (\<lambda>_. []), wd_error_text = (\<lambda>_. ''error''),
     wd_yolo_tick = (\<lambda>_ _. Inr TickContinue)\<rparr>"

definition example_hash :: "workflow \<Rightarrow> string" where
  "example_hash _ = ''h''"

end
