(* ===== verification/Run_Liveness.thy ===== *)
theory Run_Liveness
  imports Run_Theorems
begin

text \<open>
  A run finishes. In a world in which containers start and exit with code 0, saves succeed and
  boards are answered with "next", a sequential run ends with \<open>Completed\<close> once the fuel exceeds the
  number of open steps. The proof follows the one path such a run takes; \<open>total P m Q\<close> says that
  \<open>m\<close> answers from every engine in \<open>P\<close> and leaves \<open>Q\<close>.
\<close>

subsection \<open>Total triples\<close>

definition total :: "(engine \<Rightarrow> bool) \<Rightarrow> 'a eng \<Rightarrow> ('a \<Rightarrow> engine \<Rightarrow> bool) \<Rightarrow> bool" where
  "total P m Q \<longleftrightarrow> (\<forall>e. P e \<longrightarrow> (\<exists>x e'. m e = (Ok x, e') \<and> Q x e'))"

lemma total_bind: "total P m Q' \<Longrightarrow> (\<And>x. total (Q' x) (k x) Q) \<Longrightarrow> total P (ebind m k) Q"
  by (fastforce simp: total_def ebind_def)

lemma total_ret: "(\<And>e. P e \<Longrightarrow> Q x e) \<Longrightarrow> total P (eret x) Q"
  by (simp add: total_def eret_def)

lemma total_get: "(\<And>x. total (\<lambda>e. P e \<and> f e = x) (k x) Q) \<Longrightarrow> total P (ebind (eget f) k) Q"
  by (rule total_bind [of _ _ "\<lambda>x e. P e \<and> f e = x"]) (simp_all add: total_def eget_def)

lemma total_mod: "(\<And>e. P e \<Longrightarrow> Q () (f e)) \<Longrightarrow> total P (emod f) Q"
  by (simp add: total_def emod_def)

lemma total_pre: "total P' m Q \<Longrightarrow> (\<And>e. P e \<Longrightarrow> P' e) \<Longrightarrow> total P m Q"
  by (auto simp: total_def)

lemma total_post: "total P m Q' \<Longrightarrow> (\<And>x e. Q' x e \<Longrightarrow> Q x e) \<Longrightarrow> total P m Q"
  by (fastforce simp: total_def)

lemma total_fact: "(\<And>e. P e \<Longrightarrow> b) \<Longrightarrow> (b \<Longrightarrow> total P m Q) \<Longrightarrow> total P m Q"
  by (auto simp: total_def)

lemma total_elift: "(\<And>e. P e \<Longrightarrow> \<exists>x. f e = Inr x) \<Longrightarrow>
    total P (\<lambda>e. elift (f e) e) (\<lambda>x e. P e \<and> f e = Inr x)"
  by (fastforce simp: total_def elift_def eret_def)

lemma total_seq_Nil: "(\<And>e. P e \<Longrightarrow> Q () e) \<Longrightarrow> total P (eseq []) Q"
  by (simp add: total_ret)

lemma total_seq_Cons: "total P m (\<lambda>_. P') \<Longrightarrow> total P' (eseq ms) Q \<Longrightarrow> total P (eseq (m # ms)) Q"
  by (simp add: total_bind)

definition sure :: "'a eng \<Rightarrow> bool" where
  "sure m \<longleftrightarrow> (\<forall>e. \<exists>x. fst (m e) = Ok x)"

lemma sure_basic: "sure (eret x)" "sure (eget f)" "sure (emod g)" "sure (observe h)" "sure (eff u)"
  by (simp_all add: sure_def eret_def eget_def emod_def observe_def eff_def)

lemma sure_bind: "sure m \<Longrightarrow> (\<And>x. sure (k x)) \<Longrightarrow> sure (ebind m k)"
  unfolding sure_def ebind_def by (auto split: prod.splits ran.splits) (metis fst_conv ran.distinct ran.inject)+

lemma sure_eseq: "(\<And>m. m \<in> set ms \<Longrightarrow> sure m) \<Longrightarrow> sure (eseq ms)"
  by (induction ms) (auto intro!: sure_bind sure_basic)

lemma total_quiet:
  assumes "core_predicate P" and "quiet m" and "sure m"
  shows "total P m (\<lambda>_. P)"
  unfolding total_def
proof (intro allI impI)
  fix e assume "P e"
  then have "P (snd (m e))"
    using quiet_app [OF assms(2), of e] core_predicate.core_only [OF assms(1)] by metis
  moreover obtain x where "fst (m e) = Ok x" using assms(3) by (auto simp: sure_def)
  ultimately show "\<exists>x e'. m e = (Ok x, e') \<and> P e'" by (cases "m e") auto
qed

subsection \<open>The calm world\<close>

definition calm :: "world \<Rightarrow> bool" where
  "calm w \<longleftrightarrow> wd_cancel_at w = None \<and> (\<forall>t. wd_save w t = Inr ()) \<and>
     (\<forall>t n. \<exists>x. wd_spawn w t n = Inr x) \<and> (\<forall>t st a. wd_board w t st a = Inr LaunchNext) \<and>
     (\<forall>t. \<exists>x. wd_event w t = Exited (Inr x) \<and> xi_exit_code x = 0)"

lemma sure_persist: "calm w \<Longrightarrow> sure (persist w)"
  by (auto simp: calm_def sure_def persist_def ebind_def observe_def eff_def emod_def)

definition agents_ok :: "engine \<Rightarrow> bool" where
  "agents_ok e \<longleftrightarrow> (\<forall>s \<in> set (wf_steps (en_workflow e)). \<exists>a. resolve_agent e s = Inr a)"

text \<open>The invariant with the statuses spelled out: a sequential run, nothing in the way.\<close>

definition calm_inv :: "workflow \<Rightarrow> workflow_dag \<Rightarrow> (string \<Rightarrow> step_state option) \<Rightarrow> engine \<Rightarrow> bool" where
  "calm_inv W D F e \<longleftrightarrow>
     run_inv W D (Some 1) e \<and> \<not> en_yolo e \<and> agents_ok e \<and> status_of (en_state e) = F"

lemma resolve_agent_core:
  "core e = core e' \<Longrightarrow> resolve_agent e' s = resolve_agent e s"
  by (simp add: core_def resolve_agent_def cong: option.case_cong)

interpretation calminv: core_predicate "calm_inv W D F"
proof
  fix e e' assume c: "core e = core e'"
  have "en_yolo e' = en_yolo e" using c by (simp add: core_def)
  then show "calm_inv W D F e \<Longrightarrow> calm_inv W D F e'"
    using core_run_inv [OF c] core_fields(1,3) [OF c] resolve_agent_core [OF c]
    by (simp add: calm_inv_def agents_ok_def)
qed

lemma calm_keeps: "quiet m \<Longrightarrow> sure m \<Longrightarrow> total (calm_inv W D F) m (\<lambda>_. calm_inv W D F)"
  by (rule total_quiet [OF calminv.core_predicate_axioms])

lemma calm_then:
  "quiet m \<Longrightarrow> sure m \<Longrightarrow> (\<And>x. total (calm_inv W D F) (k x) Q) \<Longrightarrow> total (calm_inv W D F) (ebind m k) Q"
  by (rule total_bind [OF calm_keeps])

lemma calm_first:
  "quiet m \<Longrightarrow> sure m \<Longrightarrow> total (calm_inv W D F) (eseq ms) Q \<Longrightarrow> total (calm_inv W D F) (eseq (m # ms)) Q"
  by (rule total_seq_Cons [OF calm_keeps])

lemma calm_set:
  assumes "n \<in> names_of W"
  shows "total (calm_inv W D F) (set_step w n s) (\<lambda>_. calm_inv W D (F(n \<mapsto> s)))"
proof -
  have "calm_inv W D (F(n \<mapsto> s)) (upd w n s e)" if e: "calm_inv W D F e" for e
  proof -
    have "resolve_agent (upd w n s e) = resolve_agent e"
      by (rule ext) (simp add: resolve_agent_def upd_def cong: option.case_cong)
    then show ?thesis
      using e upd_inv [of W D "Some 1" e n w s] assms
      by (auto simp: calm_inv_def agents_ok_def upd_def fun_eq_iff)
  qed
  then show ?thesis by (simp add: total_def set_step_def emod_def upd_def)
qed

lemma calm_set_persist:
  assumes "calm w" and "n \<in> names_of W"
  shows "total (calm_inv W D F) (eseq [set_step w n s, persist w]) (\<lambda>_. calm_inv W D (F(n \<mapsto> s)))"
  by (rule total_seq_Cons [OF calm_set [OF assms(2)] calm_first [OF quiet_persist sure_persist [OF assms(1)] total_seq_Nil]])

lemma calm_not_cancelled:
  "calm w \<Longrightarrow> total (calm_inv W D F) (cancel_requested w) (\<lambda>b e. \<not> b \<and> calm_inv W D F e)"
proof -
  assume w: "calm w"
  have "total (calm_inv W D F) (cancel_requested w) (\<lambda>_. calm_inv W D F)"
    by (rule calm_keeps [OF quiet_cancel_requested]) (simp add: cancel_requested_def sure_basic)
  then show ?thesis
    using w by (fastforce simp: total_def cancel_requested_def observe_def cancelled_by_def calm_def)
qed

subsection \<open>One step of a calm run\<close>

definition finished_in :: "(string \<Rightarrow> step_state option) \<Rightarrow> string set" where
  "finished_in F = {n. \<exists>s. F n = Some s \<and> completing s}"

lemma calm_completed: "calm_inv W D F e \<Longrightarrow> completed_steps (en_state e) = finished_in F"
  by (auto simp: calm_inv_def run_inv_def state_ok_def finished_in_def)

lemma calm_run_inv: "calm_inv W D F e \<Longrightarrow> run_inv W D (Some 1) e"
  by (simp add: calm_inv_def)

lemma find_step_in_names:
  assumes "n \<in> names_of W" shows "\<exists>s. find_step_in W n = Inr s"
proof -
  have "find (\<lambda>s. ws_name s = n) (wf_steps W) \<noteq> None"
    using assms by (auto simp: names_of_def find_None_iff)
  then show ?thesis by (auto simp: find_step_in_def)
qed

lemma calm_find_step:
  assumes "n \<in> names_of W"
  shows "total (calm_inv W D F) (find_step n)
     (\<lambda>s e. calm_inv W D F e \<and> ws_name s = n \<and> s \<in> set (wf_steps W))"
  unfolding find_step_def
proof (rule total_post [OF total_elift])
  show "calm_inv W D F e \<Longrightarrow> \<exists>s. find_step_in (en_workflow e) n = Inr s" for e
    using find_step_in_names [OF assms] by (simp add: calm_inv_def run_inv_def)
  show "calm_inv W D F e \<and> find_step_in (en_workflow e) n = Inr s \<Longrightarrow>
      calm_inv W D F e \<and> ws_name s = n \<and> s \<in> set (wf_steps W)" for s e
    using find_step_in_Inr [of W n s] by (auto simp: calm_inv_def run_inv_def)
qed

lemma calm_progress:
  assumes "same_progress (en_state e) st" and "calm_inv W D F e"
  shows "calm_inv W D F (e\<lparr>en_state := st\<rparr>)"
proof -
  have "resolve_agent (e\<lparr>en_state := st\<rparr>) = resolve_agent e"
    by (rule ext) (simp add: resolve_agent_def cong: option.case_cong)
  moreover have "status_of st = status_of (en_state e)"
    using assms(1) by (simp add: same_progress_def status_of_def fun_eq_iff)
  ultimately show ?thesis
    using assms same_progress_inv(1) by (simp add: calm_inv_def agents_ok_def)
qed

lemma calm_record_launch: "total (calm_inv W D F) (record_launch n) (\<lambda>_. calm_inv W D F)"
  unfolding total_def
proof (intro allI impI)
  fix e assume "calm_inv W D F e"
  then show "\<exists>x e'. record_launch n e = (Ok x, e') \<and> calm_inv W D F e'"
    using calm_progress [OF record_launch_progress, of W D F e n]
    by (cases "record_step_launch n (en_state e)") (simp add: record_launch_def)
qed

lemma calm_prepare:
  assumes "s \<in> set (wf_steps W)"
  shows "total (calm_inv W D F) (prepare_step_launch s) (\<lambda>_. calm_inv W D F)"
  unfolding prepare_step_launch_def
proof (rule total_bind [OF total_elift])
  show "calm_inv W D F e \<Longrightarrow> \<exists>x. resolve_agent e s = Inr x" for e
    using assms by (auto simp: calm_inv_def agents_ok_def run_inv_def)
  have rest: "total (calm_inv W D F) (ebind (eget (\<lambda>e. resolve_model e s)) (\<lambda>model.
      ebind (record_launch (ws_name s)) (\<lambda>attempt.
      eget (\<lambda>e. \<lparr>pl_agent = agent, pl_model = model, pl_invocation = invocation_id (en_state e),
         pl_source = main_step_source e (ws_name s) attempt, pl_attempt = attempt\<rparr>))))
      (\<lambda>_. calm_inv W D F)" for agent
    by (rule calm_then [OF quiet_basic(4) sure_basic(2)], rule total_bind [OF calm_record_launch],
        rule calm_keeps [OF quiet_basic(4) sure_basic(2)])
  show "total (\<lambda>e. calm_inv W D F e \<and> resolve_agent e s = Inr agent)
     (ebind (eget (\<lambda>e. resolve_model e s)) (\<lambda>model.
      ebind (record_launch (ws_name s)) (\<lambda>attempt.
      eget (\<lambda>e. \<lparr>pl_agent = agent, pl_model = model, pl_invocation = invocation_id (en_state e),
         pl_source = main_step_source e (ws_name s) attempt, pl_attempt = attempt\<rparr>))))
      (\<lambda>_. calm_inv W D F)" for agent
    by (rule total_pre [OF rest]) simp
qed

lemma calm_report_launching:
  assumes "deps_in D (ws_name s) \<subseteq> finished_in F"
  shows "total (calm_inv W D F) (report_launching s p) (\<lambda>_. calm_inv W D F)"
  unfolding report_launching_def
proof (rule total_seq_Cons)
  show "total (calm_inv W D F) (\<lambda>e. eff (Eff_launching (ws_name s) (pl_attempt p) (completed_steps (en_state e))) e)
     (\<lambda>_. calm_inv W D F)"
    unfolding total_def
  proof (intro allI impI)
    fix e assume e: "calm_inv W D F e"
    let ?e = "e\<lparr>en_log := Eff_launching (ws_name s) (pl_attempt p) (completed_steps (en_state e)) # en_log e\<rparr>"
    have "resolve_agent ?e = resolve_agent e"
      by (rule ext) (simp add: resolve_agent_def cong: option.case_cong)
    with e assms have "calm_inv W D F ?e"
      using calm_completed [OF e] log_launch_inv [of W D "Some 1" e "ws_name s"]
      by (simp add: calm_inv_def agents_ok_def)
    then show "\<exists>x e'. eff (Eff_launching (ws_name s) (pl_attempt p) (completed_steps (en_state e))) e
        = (Ok x, e') \<and> calm_inv W D F e'"
      by (simp add: eff_def emod_def)
  qed
qed (intro calm_first quiet_eff sure_basic total_seq_Nil, auto)

lemma calm_spawn:
  assumes w: "calm w" and n: "ws_name s = n" "n \<in> names_of W"
  shows "total (calm_inv W D F) (spawn_prepared_step w s p)
     (\<lambda>_ e. \<exists>c. calm_inv W D (F(n \<mapsto> Running c)) e)"
  unfolding spawn_prepared_step_def n(1)
proof (rule total_bind [OF calm_set_persist [OF w n(2)]])
  let ?F = "F(n \<mapsto> Running None)"
  have ok: "total (calm_inv W D ?F) (ebind (eseq [set_step w n (Running (Some (ex_id x))),
      emod (\<lambda>e. e\<lparr>en_state := record_step_container n (ex_name x) (en_state e)\<rparr>), persist w,
      emod (\<lambda>e. e\<lparr>en_last_identity := Some (pl_agent p, pl_model p)\<rparr>)]) (\<lambda>_. eret x))
     (\<lambda>_ e. \<exists>c. calm_inv W D (F(n \<mapsto> Running c)) e)" for x
  proof (rule total_bind [OF total_seq_Cons [OF calm_set [OF n(2)] total_seq_Cons [OF total_mod]]])
    let ?G = "?F(n \<mapsto> Running (Some (ex_id x)))"
    show "calm_inv W D ?G e \<Longrightarrow>
        calm_inv W D ?G (e\<lparr>en_state := record_step_container n (ex_name x) (en_state e)\<rparr>)" for e
      by (rule calm_progress) (simp_all add: same_progress_def record_step_container_def)
    show "total (calm_inv W D ?G) (eseq [persist w,
        emod (\<lambda>e. e\<lparr>en_last_identity := Some (pl_agent p, pl_model p)\<rparr>)]) (\<lambda>_. calm_inv W D ?G)"
      by (rule calm_first [OF quiet_persist sure_persist [OF w]], rule calm_first [OF quiet_flags(5) sure_basic(3)],
          rule total_seq_Nil)
    show "total (calm_inv W D ?G) (eret x) (\<lambda>_ e. \<exists>c. calm_inv W D (F(n \<mapsto> Running c)) e)"
      by (rule total_ret) auto
  qed
  have spawned: "total (calm_inv W D ?F) (observe (\<lambda>t. wd_spawn w t n))
      (\<lambda>r e. (\<exists>x. r = Inr x) \<and> calm_inv W D ?F e)"
    using calm_keeps [OF quiet_basic(5) sure_basic(4), of W D ?F "\<lambda>t. wd_spawn w t n"] w
    by (fastforce simp: total_def observe_def calm_def)
  have pick: "total (\<lambda>e. (\<exists>x. r = Inr x) \<and> calm_inv W D ?F e) (case r of
         Inl err \<Rightarrow> spawn_failed w s err
       | Inr x \<Rightarrow>
           ebind (eseq [set_step w n (Running (Some (ex_id x))),
                        emod (\<lambda>e. e\<lparr>en_state := record_step_container n (ex_name x) (en_state e)\<rparr>),
                        persist w,
                        emod (\<lambda>e. e\<lparr>en_last_identity := Some (pl_agent p, pl_model p)\<rparr>)])
             (\<lambda>_. eret x)) (\<lambda>_ e. \<exists>c. calm_inv W D (F(n \<mapsto> Running c)) e)" for r :: "engine_error + execution"
  proof (cases r)
    case (Inr x)
    show ?thesis unfolding Inr sum.case by (rule total_pre [OF ok]) simp
  qed (simp add: total_def)
  show "total (calm_inv W D ?F) (ebind (observe (\<lambda>t. wd_spawn w t n)) (\<lambda>r. case r of
         Inl err \<Rightarrow> spawn_failed w s err
       | Inr x \<Rightarrow>
           ebind (eseq [set_step w n (Running (Some (ex_id x))),
                        emod (\<lambda>e. e\<lparr>en_state := record_step_container n (ex_name x) (en_state e)\<rparr>),
                        persist w,
                        emod (\<lambda>e. e\<lparr>en_last_identity := Some (pl_agent p, pl_model p)\<rparr>)])
             (\<lambda>_. eret x))) (\<lambda>_ e. \<exists>c. calm_inv W D (F(n \<mapsto> Running c)) e)" for u
    by (rule total_bind [OF spawned pick])
qed

lemma total_on_error: "total P m Q \<Longrightarrow> total P (on_error m h) Q"
  by (fastforce simp: total_def on_error_def)

text \<open>What a launch leaves: the step runs in the focused slot.\<close>

definition launched :: "workflow \<Rightarrow> workflow_dag \<Rightarrow> (string \<Rightarrow> step_state option) \<Rightarrow> string \<Rightarrow> engine \<Rightarrow> bool" where
  "launched W D F n e \<longleftrightarrow>
     (\<exists>c. calm_inv W D (F(n \<mapsto> Running c)) e) \<and> focused_execution e \<noteq> None"

lemma calm_focus:
  assumes "ws_name s = n" and "n \<in> names_of W"
  shows "total (\<lambda>e. \<exists>c. calm_inv W D (F(n \<mapsto> Running c)) e) (focus_launched s x p) (\<lambda>_. launched W D F n)"
  unfolding focus_launched_def
proof (rule total_mod)
  fix e assume "\<exists>c. calm_inv W D (F(n \<mapsto> Running c)) e"
  then obtain c where e: "calm_inv W D (F(n \<mapsto> Running c)) e" by blast
  let ?e = "e\<lparr>en_active := [new_slot s x p], en_current_step := Some (ws_name s),
      en_current_agent := Some (pl_agent p), en_current_model := pl_model p\<rparr>"
  have "resolve_agent ?e = resolve_agent e"
    by (rule ext) (simp add: resolve_agent_def cong: option.case_cong)
  moreover have "run_inv W D (Some 1) ?e"
    using calm_run_inv [OF e] assms slot_cap_pos [of "Some 1" "length (wf_steps W)"]
    by (simp add: run_inv_def new_slot_def)
  ultimately have "calm_inv W D (F(n \<mapsto> Running c)) ?e"
    using e by (simp add: calm_inv_def agents_ok_def)
  then show "launched W D F n ?e"
    by (auto simp: launched_def focused_execution_def new_slot_def)
qed

lemma calm_launch:
  assumes w: "calm w"
  shows "total (\<lambda>e. calm_inv W D F e \<and> ready_names e = n # rs) (launch_step w)
     (\<lambda>m e. m = n \<and> launched W D F n e)"
proof (rule total_fact)
  show "calm_inv W D F e \<and> ready_names e = n # rs \<Longrightarrow> n \<in> names_of W \<and> deps_in D n \<subseteq> finished_in F" for e
    using ready_in_names [OF calm_run_inv, of W D F e n] ready_deps [OF calm_run_inv, of W D F e n]
      calm_completed [of W D F e] by auto
  assume *: "n \<in> names_of W \<and> deps_in D n \<subseteq> finished_in F"
  have tail: "total (\<lambda>e. calm_inv W D F e \<and> ws_name s = n \<and> s \<in> set (wf_steps W))
      (ebind (prepare_step_launch s) (\<lambda>p. ebind (report_launching s p) (\<lambda>_.
       ebind (on_error (spawn_prepared_step w s p) (report_spawn_failed s)) (\<lambda>x.
       ebind (focus_launched s x p) (\<lambda>_. eret (ws_name s)))))) (\<lambda>m e. m = n \<and> launched W D F n e)"
    for s :: workflow_step
  proof (rule total_fact [of _ "ws_name s = n \<and> s \<in> set (wf_steps W)"])
    assume s: "ws_name s = n \<and> s \<in> set (wf_steps W)"
    have "total (calm_inv W D F) (ebind (prepare_step_launch s) (\<lambda>p. ebind (report_launching s p) (\<lambda>_.
       ebind (on_error (spawn_prepared_step w s p) (report_spawn_failed s)) (\<lambda>x.
       ebind (focus_launched s x p) (\<lambda>_. eret (ws_name s)))))) (\<lambda>m e. m = n \<and> launched W D F n e)"
      using s * by (intro total_bind [OF calm_prepare] total_bind [OF calm_report_launching]
        total_bind [OF total_on_error [OF calm_spawn [OF w]]] total_bind [OF calm_focus] total_ret) auto
    then show "total (\<lambda>e. calm_inv W D F e \<and> ws_name s = n \<and> s \<in> set (wf_steps W))
      (ebind (prepare_step_launch s) (\<lambda>p. ebind (report_launching s p) (\<lambda>_.
       ebind (on_error (spawn_prepared_step w s p) (report_spawn_failed s)) (\<lambda>x.
       ebind (focus_launched s x p) (\<lambda>_. eret (ws_name s)))))) (\<lambda>m e. m = n \<and> launched W D F n e)"
      by (rule total_pre) simp
  qed simp
  show "total (\<lambda>e. calm_inv W D F e \<and> ready_names e = n # rs) (launch_step w)
     (\<lambda>m e. m = n \<and> launched W D F n e)"
    unfolding launch_step_def
  proof (rule total_get, rule total_fact)
    fix ready
    show "(calm_inv W D F e \<and> ready_names e = n # rs) \<and> ready_names e = ready \<Longrightarrow> ready = n # rs" for e by auto
    assume r: "ready = n # rs"
    show "total (\<lambda>e. (calm_inv W D F e \<and> ready_names e = n # rs) \<and> ready_names e = ready)
      (case ready of [] \<Rightarrow> efail (InvalidAdvanceAction ''no ready steps remaining'')
       | n # _ \<Rightarrow> ebind (find_step n) (\<lambda>s. ebind (prepare_step_launch s) (\<lambda>p. ebind (report_launching s p) (\<lambda>_.
          ebind (on_error (spawn_prepared_step w s p) (report_spawn_failed s)) (\<lambda>x.
          ebind (focus_launched s x p) (\<lambda>_. eret (ws_name s)))))))
      (\<lambda>m e. m = n \<and> launched W D F n e)"
      unfolding r list.case
      by (rule total_pre [OF total_bind [OF calm_find_step tail]]) (use * in auto)
  qed
qed

subsection \<open>One iteration, and the whole run\<close>

lemma calm_finish_wait:
  assumes w: "calm w" and n: "n \<in> names_of W" and x: "xi_exit_code x = 0"
  shows "total (calm_inv W D (F(n \<mapsto> Running c))) (finish_wait w n y (Inr x))
     (\<lambda>r e. (\<exists>o'. r = IntCompleted o' \<and> so_status o' = StepSucceeded) \<and> calm_inv W D (F(n \<mapsto> Succeeded)) e)"
proof -
  let ?F = "F(n \<mapsto> Running c)"
  have seq: "total (calm_inv W D ?F) (eseq [set_step w n Succeeded, eff (Eff_step_status m StepSucceeded), persist w])
      (\<lambda>_. calm_inv W D (F(n \<mapsto> Succeeded)))" for m
    by (rule total_seq_Cons [OF calm_set [OF n]])
      (use sure_persist [OF w] in \<open>auto intro!: calm_first quiet_intros sure_basic total_seq_Nil simp del: eseq.simps\<close>)
  have fin: "total (calm_inv W D ?F) (finalize_step w n x)
      (\<lambda>o' e. so_status o' = StepSucceeded \<and> calm_inv W D (F(n \<mapsto> Succeeded)) e)"
    unfolding finalize_step_def Let_def x if_P [OF refl]
  proof (rule calm_then)
    show "quiet (eseq [emod (\<lambda>e. e\<lparr>en_last_exit := Some x\<rparr>), eff (Eff_container_exited 0),
        maybe_dump_step_failure n 0])"
      by (force intro: quiet_intros)
    show "sure (eseq [emod (\<lambda>e. e\<lparr>en_last_exit := Some x\<rparr>), eff (Eff_container_exited 0),
        maybe_dump_step_failure n 0])"
      by (rule sure_eseq) (auto simp: maybe_dump_step_failure_def intro: sure_basic)
  next
    show "total (calm_inv W D ?F) (ebind (find_step n) (\<lambda>s. ebind (eseq [set_step w n Succeeded,
        eff (Eff_step_status (ws_name s) StepSucceeded), persist w])
        (\<lambda>_. eget (\<lambda>e. \<lparr>so_step_name = n, so_status = StepSucceeded, so_remaining = remaining_steps e\<rparr>))))
      (\<lambda>o' e. so_status o' = StepSucceeded \<and> calm_inv W D (F(n \<mapsto> Succeeded)) e)" for u
      by (rule total_bind [OF calm_find_step [OF n]], rule total_pre [OF total_bind [OF seq]])
        (simp_all add: total_def eget_def)
  qed
  have foc: "sure (set_focused_execution y)"
    by (simp add: set_focused_execution_def update_focused_def sure_basic)
  have lift: "finalize_result w n (Inr x) = finalize_step w n x"
    by (rule ext) (simp add: finalize_result_def elift_def ebind_def eret_def)
  show ?thesis
    unfolding finish_wait_def lift
    by (rule calm_then [OF quiet_set_focused foc], rule total_bind [OF fin], rule total_ret) auto
qed

lemma calm_wait:
  assumes w: "calm w" and n: "n \<in> names_of W"
  shows "total (calm_inv W D (F(n \<mapsto> Running c))) (step_wait_loop (Suc fuel) w n y)
     (\<lambda>r e. (\<exists>o'. r = IntCompleted o' \<and> so_status o' = StepSucceeded) \<and> calm_inv W D (F(n \<mapsto> Succeeded)) e)"
  unfolding step_wait_loop.simps
proof (rule total_bind)
  show "total (calm_inv W D (F(n \<mapsto> Running c))) (step_select w)
     (\<lambda>p e. (\<exists>x b. p = (Exited (Inr x), b) \<and> xi_exit_code x = 0) \<and> calm_inv W D (F(n \<mapsto> Running c)) e)"
    using calm_keeps [OF quiet_step_select, of w W D "F(n \<mapsto> Running c)"] w
    by (fastforce simp: total_def step_select_def observe_def calm_def sure_def)
  fix p :: "step_event \<times> bool"
  show "total (\<lambda>e. (\<exists>x b. p = (Exited (Inr x), b) \<and> xi_exit_code x = 0) \<and> calm_inv W D (F(n \<mapsto> Running c)) e)
     ((\<lambda>(ev, cancelled). case ev of
         Exited r \<Rightarrow> finish_wait w n y r
       | WaitDropped \<Rightarrow> efail (EngineOther ''step wait task dropped unexpectedly'')
       | _ \<Rightarrow>
           if cancelled then cancel_step w y
           else
             (case ev of
                StuckEv Stuck \<Rightarrow>
                  ebind (handle_step_stuck fuel w n y) (\<lambda>r.
                    case r of None \<Rightarrow> step_wait_loop fuel w n y | Some i \<Rightarrow> eret i)
              | StuckEv StartupGraceExpired \<Rightarrow>
                  ebind mark_focused_killed (\<lambda>_. step_wait_loop fuel w n y)
              | Request (OpenControlBoard _) \<Rightarrow>
                  ebind (mid_board w n y) (\<lambda>r.
                    case r of None \<Rightarrow> step_wait_loop fuel w n y | Some i \<Rightarrow> eret i)
              | Request (ReqStepStuck _) \<Rightarrow>
                  ebind (handle_step_stuck fuel w n y) (\<lambda>r.
                    case r of None \<Rightarrow> step_wait_loop fuel w n y | Some i \<Rightarrow> eret i)
              | _ \<Rightarrow> step_wait_loop fuel w n y)) p)
     (\<lambda>r e. (\<exists>o'. r = IntCompleted o' \<and> so_status o' = StepSucceeded) \<and> calm_inv W D (F(n \<mapsto> Succeeded)) e)"
  proof (rule total_fact [of _ "\<exists>x b. p = (Exited (Inr x), b) \<and> xi_exit_code x = 0"])
    assume "\<exists>x b. p = (Exited (Inr x), b) \<and> xi_exit_code x = 0"
    then obtain x b where p: "p = (Exited (Inr x), b)" and x: "xi_exit_code x = 0" by blast
    show ?thesis
      unfolding p prod.case step_event.case by (rule total_pre [OF calm_finish_wait [OF w n x, where c = c]]) simp
  qed simp
qed

lemma continue_actions_Inr:
  assumes "\<And>s. nxt = Some s \<Longrightarrow> \<exists>a. resolve_agent e s = Inr a"
  shows "\<exists>a'. continue_actions e nxt a = Inr a'"
proof (cases nxt)
  case (Some s)
  then obtain ag where "resolve_agent e s = Inr ag" using assms by blast
  then show ?thesis by (simp add: continue_actions_def Some)
qed (simp add: continue_actions_def)

lemma next_ready_resolves:
  assumes e: "calm_inv W D F e"
  shows "\<exists>nxt. next_ready_step e = Inr nxt \<and> (\<forall>s. nxt = Some s \<longrightarrow> (\<exists>a. resolve_agent e s = Inr a))"
proof (cases "ready_names e")
  case (Cons n rs)
  then have "n \<in> names_of W" using ready_in_names [OF calm_run_inv [OF e]] by simp
  then obtain s where s: "find_step_in W n = Inr s" using find_step_in_names by blast
  have "s \<in> set (wf_steps W)" using find_step_in_Inr [OF s] by simp
  moreover have W: "en_workflow e = W" using e by (simp add: calm_inv_def run_inv_def)
  ultimately have "\<exists>a. resolve_agent e s = Inr a" using e by (simp add: calm_inv_def agents_ok_def)
  then show ?thesis by (simp add: next_ready_step_def Cons W s)
qed (simp add: next_ready_step_def)

lemma calm_actions:
  assumes "calm_inv W D F e"
  shows "\<exists>a. compute_available_actions e = Inr a"
proof -
  obtain nxt where nxt: "next_ready_step e = Inr nxt"
      "\<And>s. nxt = Some s \<Longrightarrow> \<exists>a. resolve_agent e s = Inr a"
    using next_ready_resolves [OF assms] by blast
  show ?thesis
    using continue_actions_Inr [of nxt e "no_actions\<lparr>can_launch_next := \<not> is_complete (en_state e),
        can_restart := en_current_step e \<noteq> None, can_pause := True, can_abort := True,
        can_finish := workflow_can_finish e,
        can_dismiss := (focused_execution e \<noteq> None \<or> en_current_step e \<noteq> None)\<rparr>", OF nxt(2)]
    by (auto simp: compute_available_actions_def Let_def nxt(1))
qed

lemma show_board_calm:
  assumes "calm w"
  shows "\<exists>e'. show_board w a e = (Ok LaunchNext, e')"
  using assms by (simp add: show_board_def ask_def ebind_def observe_def elift_def eret_def calm_def)

lemma calm_board:
  assumes w: "calm w"
  shows "total (calm_inv W D F) (show_current_board w) (\<lambda>a e. a = LaunchNext \<and> calm_inv W D F e)"
  unfolding show_current_board_def
proof (rule total_bind [OF total_elift [OF calm_actions]])
  fix a
  have "sure (show_board w a)" using show_board_calm [OF w] by (simp add: sure_def) (metis fst_conv)
  from calm_keeps [OF quiet_show_board this]
  have q: "total (calm_inv W D F) (show_board w a) (\<lambda>_. calm_inv W D F)" .
  have "total (calm_inv W D F) (show_board w a) (\<lambda>a e. a = LaunchNext \<and> calm_inv W D F e)"
    unfolding total_def
  proof (intro allI impI)
    fix e assume "calm_inv W D F e"
    moreover obtain e' where b: "show_board w a e = (Ok LaunchNext, e')" using show_board_calm [OF w] by blast
    ultimately have "calm_inv W D F e'" using q by (auto simp: total_def)
    then show "\<exists>x e'. show_board w a e = (Ok x, e') \<and> x = LaunchNext \<and> calm_inv W D F e'"
      using b by blast
  qed
  then show "total (\<lambda>e. calm_inv W D F e \<and> compute_available_actions e = Inr a) (show_board w a)
      (\<lambda>a e. a = LaunchNext \<and> calm_inv W D F e)"
    by (rule total_pre) simp
qed

lemma calm_after_success:
  assumes w: "calm w"
  shows "total (calm_inv W D F) (after_success w) (\<lambda>r e. r = IterContinue \<and> calm_inv W D F e)"
proof -
  have rep: "sure report_progress" by (simp add: sure_def report_progress_def eff_def emod_def)
  have board: "total (calm_inv W D F) (ebind (show_current_board w) (\<lambda>action.
      ebind (execute_top_level_action w action) (\<lambda>r. eret (iter_of_int r))))
      (\<lambda>r e. r = IterContinue \<and> calm_inv W D F e)"
    by (rule total_bind [OF calm_board [OF w]])
      (auto simp: total_def ebind_def eret_def iter_of_int_def)
  have go: "total (calm_inv W D F) (eret IterContinue) (\<lambda>r e. r = IterContinue \<and> calm_inv W D F e)"
    by (rule total_ret) simp
  show ?thesis
    unfolding after_success_def
    by (rule calm_then [OF quiet_basic(4) sure_basic(2)], rule calm_then [OF quiet_basic(4) sure_basic(2)],
        rule calm_then) (auto intro: quiet_intros rep sure_basic board go)
qed

lemma calm_single:
  assumes w: "calm w"
  shows "total (\<lambda>e. calm_inv W D F e \<and> ready_names e = n # rs) (run_single_step_iteration (Suc fuel) w)
     (\<lambda>r e. r = IterContinue \<and> calm_inv W D (F(n \<mapsto> Succeeded)) e)"
proof (rule total_fact)
  show "calm_inv W D F e \<and> ready_names e = n # rs \<Longrightarrow> n \<in> names_of W" for e
    using ready_in_names [OF calm_run_inv, of W D F e n] by auto
  assume n: "n \<in> names_of W"
  let ?post = "\<lambda>r e. (\<exists>o'. r = IntCompleted o' \<and> so_status o' = StepSucceeded) \<and> calm_inv W D (F(n \<mapsto> Succeeded)) e"
  have take: "sure take_focused_execution"
    by (simp add: take_focused_execution_def update_focused_def sure_basic)
  have wait: "total (launched W D F n) (ebind (eget focused_execution) (\<lambda>x. case x of
      None \<Rightarrow> efail (EngineOther ''launch_step stored execution'')
    | Some x \<Rightarrow> ebind take_focused_execution (\<lambda>_. step_wait_loop (Suc fuel) w n x))) ?post"
  proof (rule total_get)
    fix x
    show "total (\<lambda>e. launched W D F n e \<and> focused_execution e = x) (case x of
        None \<Rightarrow> efail (EngineOther ''launch_step stored execution'')
      | Some x \<Rightarrow> ebind take_focused_execution (\<lambda>_. step_wait_loop (Suc fuel) w n x)) ?post"
    proof (cases x)
      case (Some y)
      have "total (calm_inv W D (F(n \<mapsto> Running c))) (ebind take_focused_execution
          (\<lambda>_. step_wait_loop (Suc fuel) w n y)) ?post" for c
        by (rule calm_then [OF quiet_take_focused take calm_wait [OF w n]])
      then show ?thesis unfolding Some option.case by (fastforce simp: total_def launched_def)
    qed (auto simp: total_def launched_def)
  qed
  have once: "total (\<lambda>e. calm_inv W D F e \<and> ready_names e = n # rs) (step_once_interruptible (Suc fuel) w) ?post"
    unfolding step_once_interruptible_def
    by (rule total_bind [OF calm_launch [OF w]], rule total_fact [of _ "_ = n"], erule conjunct1)
      (use wait in \<open>auto intro: total_pre\<close>)
  have post: "total (?post r) (case r of
         IntCompleted o' \<Rightarrow>
           (case so_status o' of
              StepFailed code \<Rightarrow> handle_failed_outcome (Suc fuel) w (so_step_name o') code
            | _ \<Rightarrow> after_success w)
       | IntEnded wo \<Rightarrow> eret (IterEnded wo)
       | IntLoopContinue \<Rightarrow> eret IterContinue)
     (\<lambda>r e. r = IterContinue \<and> calm_inv W D (F(n \<mapsto> Succeeded)) e)" for r
  proof (rule total_fact [of _ "\<exists>o'. r = IntCompleted o' \<and> so_status o' = StepSucceeded"])
    assume "\<exists>o'. r = IntCompleted o' \<and> so_status o' = StepSucceeded"
    then show ?thesis by (auto intro: total_pre [OF calm_after_success [OF w]])
  qed simp
  show "total (\<lambda>e. calm_inv W D F e \<and> ready_names e = n # rs) (run_single_step_iteration (Suc fuel) w)
     (\<lambda>r e. r = IterContinue \<and> calm_inv W D (F(n \<mapsto> Succeeded)) e)"
    unfolding run_single_step_iteration_def by (rule total_bind [OF once post])
qed


definition open_in :: "workflow \<Rightarrow> (string \<Rightarrow> step_state option) \<Rightarrow> nat" where
  "open_in W F = card (names_of W - finished_in F)"

lemma finished_upd: "finished_in (F(n \<mapsto> Succeeded)) = insert n (finished_in F)"
  by (auto simp: finished_in_def)

lemma open_decreases:
  assumes "n \<in> names_of W" and "n \<notin> finished_in F"
  shows "open_in W (F(n \<mapsto> Succeeded)) < open_in W F"
proof -
  have "names_of W - insert n (finished_in F) = (names_of W - finished_in F) - {n}" by blast
  then show ?thesis
    using assms card_Diff1_less [of "names_of W - finished_in F" n]
    by (simp add: open_in_def finished_upd names_of_def)
qed

lemma calm_ready_Inr:
  assumes e: "calm_inv W D F e"
  shows "\<exists>ready. next_ready_steps e = Inr ready"
proof -
  have W: "en_workflow e = W" using e by (simp add: calm_inv_def run_inv_def)
  have "\<exists>ss. rmap (find_step_in W) ns = Inr ss" if "set ns \<subseteq> names_of W" for ns
    using that
  proof (induction ns)
    case (Cons n ns)
    then obtain s ss where "find_step_in W n = Inr s" "rmap (find_step_in W) ns = Inr ss"
      using find_step_in_names [of n W] by auto
    then show ?case by simp
  qed simp
  moreover have "set (ready_names e) \<subseteq> names_of W"
    using ready_in_names [OF calm_run_inv [OF e]] by blast
  ultimately show ?thesis by (simp add: next_ready_steps_def W)
qed

text \<open>Steps that were finished stay as they are; the others may become \<open>Succeeded\<close>.\<close>

definition only_succeeds :: "(string \<Rightarrow> step_state option) \<Rightarrow> (string \<Rightarrow> step_state option) \<Rightarrow> bool" where
  "only_succeeds F F' \<longleftrightarrow> (\<forall>n. F' n = F n \<or> n \<notin> finished_in F \<and> F' n = Some Succeeded)"

lemma only_succeeds_refl: "only_succeeds F F"
  by (simp add: only_succeeds_def)

lemma only_succeeds_upd:
  assumes "n \<notin> finished_in F" and "only_succeeds (F(n \<mapsto> Succeeded)) G"
  shows "only_succeeds F G"
  unfolding only_succeeds_def
proof
  fix m
  have "G m = (F(n \<mapsto> Succeeded)) m \<or>
      m \<notin> finished_in (F(n \<mapsto> Succeeded)) \<and> G m = Some Succeeded"
    using assms(2) by (simp add: only_succeeds_def)
  then show "G m = F m \<or> m \<notin> finished_in F \<and> G m = Some Succeeded"
    using assms(1) by (cases "m = n") (auto simp: finished_upd)
qed

lemma calm_iteration:
  assumes w: "calm w" and e: "calm_inv W D F e"
  shows "(\<exists>e'. run_iteration (Suc fuel) w e = (Ok (IterEnded Completed), e') \<and> calm_inv W D F e' \<and>
       is_complete (en_state e')) \<or>
    (\<exists>n e'. run_iteration (Suc fuel) w e = (Ok IterContinue, e') \<and>
       calm_inv W D (F(n \<mapsto> Succeeded)) e' \<and> n \<in> names_of W \<and> n \<notin> finished_in F)"
proof -
  obtain e1 where c: "cancel_requested w e = (Ok False, e1)" and e1: "calm_inv W D F e1"
    using calm_not_cancelled [OF w, of W D F] e by (auto simp: total_def)
  show ?thesis
  proof (cases "is_complete (en_state e1)")
    case True
    have "core_predicate (\<lambda>e. calm_inv W D F e \<and> is_complete (en_state e))"
      by unfold_locales (use calminv.core_only core_fields(3) in metis)
    moreover have "quiet (iter_ended report_completed_run)"
      unfolding iter_ended_def report_completed_run_def report_outcome_def by (intro quiet_intros) simp
    moreover have "sure (iter_ended report_completed_run)"
      unfolding iter_ended_def report_completed_run_def report_outcome_def report_progress_def
      by (intro sure_bind sure_basic) (simp add: sure_def eff_def emod_def)
    ultimately have "total (\<lambda>e. calm_inv W D F e \<and> is_complete (en_state e)) (iter_ended report_completed_run)
        (\<lambda>_ e. calm_inv W D F e \<and> is_complete (en_state e))"
      by (rule total_quiet)
    moreover have "fst (iter_ended report_completed_run e1) = Ok (IterEnded Completed)"
      by (simp add: iter_ended_def report_completed_run_def report_progress_def report_outcome_def
          ebind_def eff_def emod_def eret_def)
    moreover have "run_iteration (Suc fuel) w e = iter_ended report_completed_run e1"
      using True by (simp add: run_iteration_def ebind_def c eget_def)
    ultimately show ?thesis using e1 True by (force simp: total_def)
  next
    case False
    then have "ready_names e1 \<noteq> []" by (rule open_run_has_ready [OF calm_run_inv [OF e1]])
    then obtain n rs where n: "ready_names e1 = n # rs" by (cases "ready_names e1") auto
    obtain ready where r: "next_ready_steps e1 = Inr ready" using calm_ready_Inr [OF e1] by blast
    have m: "en_max_concurrent e1 = Some 1" using e1 by (simp add: calm_inv_def run_inv_def)
    have it: "run_iteration (Suc fuel) w e = run_single_step_iteration (Suc fuel) w e1"
      by (simp add: run_iteration_def ebind_def c eget_def False elift_def eret_def r m)
    obtain e2 where s: "run_single_step_iteration (Suc fuel) w e1 = (Ok IterContinue, e2)"
        and e2: "calm_inv W D (F(n \<mapsto> Succeeded)) e2"
      using calm_single [OF w, of W D F n rs fuel] e1 n by (auto simp: total_def)
    have "n \<in> names_of W" "n \<notin> finished_in F"
      using ready_in_names [OF calm_run_inv [OF e1]] ready_deps [OF calm_run_inv [OF e1]]
        calm_completed [OF e1] n by auto
    with it s e2 show ?thesis by auto
  qed
qed

definition calm_end :: "workflow \<Rightarrow> workflow_dag \<Rightarrow> (string \<Rightarrow> step_state option) \<Rightarrow> engine \<Rightarrow> bool" where
  "calm_end W D F e \<longleftrightarrow> (\<exists>G. only_succeeds F G \<and> calm_inv W D G e \<and> is_complete (en_state e))"

lemma calm_run_loop:
  "calm w \<Longrightarrow> calm_inv W D F e \<Longrightarrow> open_in W F + 1 < fuel \<Longrightarrow>
     \<exists>e'. run_loop fuel w e = (Ok Completed, e') \<and> calm_end W D F e'"
proof (induction fuel arbitrary: F e)
  case (Suc fuel)
  then obtain f where f: "fuel = Suc f" by (cases fuel) auto
  from calm_iteration [OF Suc.prems(1,2), of f] show ?case
  proof (elim disjE exE conjE)
    fix e' assume "run_iteration (Suc f) w e = (Ok (IterEnded Completed), e')"
      "calm_inv W D F e'" "is_complete (en_state e')"
    then show ?thesis
      using only_succeeds_refl by (auto simp: f ebind_def eret_def calm_end_def)
  next
    fix n e' assume r: "run_iteration (Suc f) w e = (Ok IterContinue, e')"
      and e': "calm_inv W D (F(n \<mapsto> Succeeded)) e'" and n: "n \<in> names_of W" "n \<notin> finished_in F"
    have "\<exists>e''. run_loop fuel w e' = (Ok Completed, e'') \<and> calm_end W D (F(n \<mapsto> Succeeded)) e''"
      by (rule Suc.IH [OF Suc.prems(1) e']) (use open_decreases [OF n] Suc.prems(3) in linarith)
    then obtain e'' where l: "run_loop fuel w e' = (Ok Completed, e'')"
      and g: "calm_end W D (F(n \<mapsto> Succeeded)) e''" by blast
    have "run_loop (Suc fuel) w e = (Ok Completed, e'')"
      using r l by (simp add: f ebind_def)
    then show ?thesis using g only_succeeds_upd [OF n(2)] by (auto simp: calm_end_def)
  qed
qed simp

lemma calm_run:
  assumes w: "calm w" and e: "calm_inv W D F e" and fuel: "length (wf_steps W) + 1 < fuel"
  shows "\<exists>e'. run_to_completion fuel w e = (Ok Completed, e') \<and> calm_end W D F e'"
proof -
  have "open_in W F \<le> card (names_of W)"
    unfolding open_in_def by (rule card_mono) (auto simp: names_of_def)
  also have "\<dots> \<le> length (wf_steps W)"
    unfolding names_of_def by (metis card_image_le card_length finite_set order_trans)
  finally have "open_in W F + 1 < fuel" using fuel by simp
  moreover obtain e1 where "report_progress e = (Ok (), e1)" "calm_inv W D F e1"
  proof -
    have "sure report_progress" by (simp add: sure_def report_progress_def eff_def emod_def)
    from calm_keeps [OF quiet_report_progress this, of W D F] e that show ?thesis
      by (auto simp: total_def)
  qed
  ultimately show ?thesis
    using calm_run_loop [OF w] by (simp add: run_to_completion_def ebind_def)
qed

end
