(* ===== verification/Run_Properties.thy ===== *)
theory Run_Properties
  imports Run_Liveness
begin

text \<open>
  What a run of the workflow engine guarantees, stated for every engine that \<open>new\<close> or \<open>resume\<close>
  built and every behaviour of the outside world.
\<close>

subsection \<open>Engines a caller may run\<close>

inductive started :: "workflow \<Rightarrow> nat option \<Rightarrow> engine \<Rightarrow> bool" for W where
  started_new: "engine_new cfg hash now uuid wi W = Inr e \<Longrightarrow>
     started W (cfg_max_concurrent cfg) (configured yolo prompts e)"
| started_resumed: "engine_resume cfg hash now uuid wi load confirm W = Inr e \<Longrightarrow> saved_ok load \<Longrightarrow>
     started W (cfg_max_concurrent cfg) (configured yolo prompts e)"

lemma started_J:
  assumes "started W M e"
  obtains D where "build_dag (wf_steps W) = Inr D" "J W D M {} e"
  using assms
proof cases
  case (started_new cfg hash now uuid wi e0 yolo prompts)
  note n = engine_new_Inr [OF started_new(3)]
  have "J W (en_dag e0) M {} e"
    unfolding started_new(1,2) by (rule configured_J [OF n(2)])
  then show thesis by (rule that [OF n(1)])
next
  case (started_resumed cfg hash now uuid wi load confirm e0 yolo prompts)
  note n = engine_resume_J(1) [OF started_resumed(3,4)]
  have j: "J W (en_dag e0) M {} e"
    unfolding started_resumed(1,2) by (rule configured_J [OF n])
  then have "build_dag (wf_steps W) = Inr (en_dag e0)" by (simp add: J_def run_inv_def)
  then show thesis by (rule that [OF _ j])
qed

lemma started_inv:
  assumes "started W M e"
  obtains D where "run_inv W D M e" "running e = {}"
  using started_J [OF assms] by (auto simp: J_def)

lemma run_keeps:
  assumes "started W M e" and run: "run_to_completion fuel w e = (r, e')"
  obtains D where "build_dag (wf_steps W) = Inr D" "run_inv W D M e'"
    "\<And>wo. r = Ok wo \<Longrightarrow> ended W D M wo e'"
proof -
  from assms(1) obtain D where d: "build_dag (wf_steps W) = Inr D" and j: "J W D M {} e"
    by (rule started_J)
  have v: "case run_to_completion fuel w e of
      (Ok wo, e') \<Rightarrow> ended W D M wo e' | (_, e') \<Rightarrow> run_inv W D M e'"
    using run_to_completion_valid [of W D M fuel w] loop_head_J [OF j] by (simp add: valid_def)
  show thesis
  proof (rule that [OF d])
    show "run_inv W D M e'" using v run ended_inv by (cases r) auto
    show "ended W D M wo e'" if "r = Ok wo" for wo using v run that by simp
  qed
qed

subsection \<open>An engine to apply the properties to\<close>

definition chain_engine :: "nat option \<Rightarrow> engine" where
  "chain_engine limit =
     (case engine_new \<lparr>cfg_agent = None, cfg_model = None, cfg_max_concurrent = limit\<rparr>
             example_hash 0 7 None example_chain of
        Inr e \<Rightarrow> configured False False e)"

lemma chain_new:
  "\<exists>e. engine_new \<lparr>cfg_agent = None, cfg_model = None, cfg_max_concurrent = limit\<rparr>
         example_hash 0 7 None example_chain = Inr e \<and> chain_engine limit = configured False False e"
  by (simp add: chain_engine_def engine_new_def build_dag_def example_chain_def example_workflow_def
      example_step_def validate_references_def detect_cycle_def collect_edges_def cycle_dfs.simps
      deps_of_def)

lemma chain_started: "started example_chain limit (chain_engine limit)"
proof -
  obtain e where n: "engine_new \<lparr>cfg_agent = None, cfg_model = None, cfg_max_concurrent = limit\<rparr>
         example_hash 0 7 None example_chain = Inr e" and c: "chain_engine limit = configured False False e"
    using chain_new by blast
  show ?thesis unfolding c using started_new [OF n, of False False] by simp
qed

text \<open>The same workflow resumed after its first step, in a world that starts no containers.\<close>

definition halfway_state :: workflow_state where
  "halfway_state = set_status 1 ''plan'' Succeeded
     (new_state 0 7 ''demo'' (wf_steps example_chain) ''h'' None)"

definition halfway_engine :: engine where
  "halfway_engine =
     (case engine_resume example_config example_hash 2 8 None (Inr (Some halfway_state)) (Inr False)
             example_chain of
        Inr e \<Rightarrow> configured False False e)"

definition spawnless_world :: world where
  "spawnless_world = calm_world\<lparr>wd_spawn := (\<lambda>_ _. Inl (EngineOther ''no runtime''))\<rparr>"

lemma halfway_ok: "state_ok halfway_state"
  unfolding halfway_state_def by (intro set_status_ok new_state_ok)

lemma halfway_resumes:
  "\<exists>e. engine_resume example_config example_hash 2 8 None (Inr (Some halfway_state)) (Inr False)
         example_chain = Inr e \<and> halfway_engine = configured False False e"
proof -
  obtain e0 where "engine_new example_config example_hash 0 7 None example_chain = Inr e0"
    using chain_new [of "Some 2"] by (auto simp: example_config_def)
  then obtain d where "build_dag (wf_steps example_chain) = Inr d"
    by (auto simp: engine_new_def split: sum.splits)
  then show ?thesis
    by (simp add: halfway_engine_def engine_resume_def data_result_def accept_saved_def
        halfway_state_def example_hash_def new_state_def set_status_def)
qed

lemma halfway_started: "started example_chain (Some 2) halfway_engine"
proof -
  obtain e where r: "engine_resume example_config example_hash 2 8 None (Inr (Some halfway_state))
      (Inr False) example_chain = Inr e" and c: "halfway_engine = configured False False e"
    using halfway_resumes by blast
  show ?thesis
    unfolding c using started_resumed [OF r, of False False] halfway_ok
    by (simp add: saved_ok_def example_config_def)
qed

subsection \<open>A run comes to its end\<close>

lemma started_statuses:
  assumes "started W M e" and "status_of (en_state e) n = Some s"
  shows "s = Pending \<or> completing s"
  using assms(1)
proof cases
  case (started_new cfg hash now uuid wi e0 yolo prompts)
  then have "status_of (en_state e) n =
      (if n \<in> ws_name ` set (wf_steps W) then Some Pending else None)"
    by (auto simp: configured_def engine_new_def assemble_def new_state_status split: sum.splits)
  with assms(2) show ?thesis by (auto split: if_splits)
next
  case (started_resumed cfg hash now uuid wi load confirm e0 yolo prompts)
  have "status_of (en_state e0) n = Some s" using assms(2) started_resumed(2) by (simp add: configured_def)
  from engine_resume_J(2) [OF started_resumed(3,4) this] show ?thesis by (cases s) auto
qed

lemma started_calm_run:
  assumes "started W (Some 1) e" and "\<not> en_yolo e"
    and "\<forall>s \<in> set (wf_steps W). \<exists>a. resolve_agent e s = Inr a"
    and "calm w" and "length (wf_steps W) + 1 < fuel"
  shows "\<exists>e'. run_to_completion fuel w e = (Ok Completed, e') \<and>
    (\<forall>n \<in> ws_name ` set (wf_steps W). status_of (en_state e') n =
       (if n \<in> completed_steps (en_state e) then status_of (en_state e) n else Some Succeeded))"
proof -
  from assms(1) obtain D where i: "run_inv W D (Some 1) e" by (rule started_inv)
  let ?F = "status_of (en_state e)"
  have f: "n \<in> finished_in ?F \<longleftrightarrow> n \<in> completed_steps (en_state e)" for n
    using i by (auto simp: run_inv_def state_ok_def finished_in_def)
  have "calm_inv W D ?F e"
    using i assms(2,3) by (simp add: calm_inv_def agents_ok_def run_inv_def)
  from calm_run [OF assms(4) this assms(5)] obtain e' G
    where r: "run_to_completion fuel w e = (Ok Completed, e')" and g: "only_succeeds ?F G"
      and e': "calm_inv W D G e'" "is_complete (en_state e')"
    by (auto simp: calm_end_def)
  have "status_of (en_state e') n = (if n \<in> completed_steps (en_state e) then ?F n else Some Succeeded)"
    if n: "n \<in> ws_name ` set (wf_steps W)" for n
  proof -
    have G: "status_of (en_state e') = G" "state_ok (en_state e')"
      using e'(1) by (simp_all add: calm_inv_def run_inv_def)
    obtain s where s: "?F n = Some s" using n i by (force simp: run_inv_def names_of_def)
    obtain t where t: "G n = Some t"
      using n e'(1) by (force simp: calm_inv_def run_inv_def names_of_def)
    have "terminal t" using e'(2) t G by (simp add: is_complete_iff)
    have cases: "G n = ?F n \<or> n \<notin> finished_in ?F \<and> G n = Some Succeeded"
      using g by (simp add: only_succeeds_def)
    show ?thesis
    proof (cases "n \<in> completed_steps (en_state e)")
      case True
      then show ?thesis using cases by (auto simp: f G)
    next
      case False
      then have "\<not> completing s" using s by (auto simp: f [symmetric] finished_in_def)
      then have "s = Pending" using started_statuses [OF assms(1) s] by simp
      then have "G n \<noteq> ?F n" using s t \<open>terminal t\<close> by auto
      then show ?thesis using False cases by (simp add: G)
    qed
  qed
  with r show ?thesis by blast
qed

lemma calm_world_calm: "calm calm_world"
  by (simp add: calm_def calm_world_def example_exit_def)

lemma chain_resolves: "\<forall>s \<in> set (wf_steps example_chain). \<exists>a. resolve_agent (chain_engine limit) s = Inr a"
proof -
  obtain e where n: "engine_new \<lparr>cfg_agent = None, cfg_model = None, cfg_max_concurrent = limit\<rparr>
         example_hash 0 7 None example_chain = Inr e" and c: "chain_engine limit = configured False False e"
    using chain_new by blast
  have w: "en_workflow (chain_engine limit) = example_chain"
    using n by (auto simp: c configured_def engine_new_def assemble_def split: sum.splits)
  have "agent_name_new ''claude'' = Inr ''claude''" by code_simp
  then show ?thesis
    by (simp add: resolve_agent_def w data_result_def example_chain_def example_workflow_def example_step_def)
qed

lemma chain_quiet: "\<not> en_yolo (chain_engine limit)"
  using chain_new [of limit] by (auto simp: configured_def)

lemma chain_calm_run:
  "\<exists>e'. run_to_completion 4 calm_world (chain_engine (Some 1)) = (Ok Completed, e')"
  using started_calm_run [OF chain_started chain_quiet chain_resolves calm_world_calm, of 4]
  by (auto simp: example_chain_def example_workflow_def)



subsection \<open>Safety of every run\<close>

text \<open>
  Property C1. Whatever happens during a run and wherever it is looked at, the state stays consistent
  with the definition: the completed set is the set of steps whose status completes, exactly the
  steps of the definition have a status, and as long as the run is not complete some step is ready.
\<close>

theorem run_state_consistent:
  assumes "started W M e" and "run_to_completion fuel w e = (r, e')"
  shows "state_ok (en_state e') \<and>
    (\<forall>n. status_of (en_state e') n \<noteq> None \<longleftrightarrow> n \<in> ws_name ` set (wf_steps W)) \<and>
    (is_complete (en_state e') \<or> ready_names e' \<noteq> [])"
proof -
  from run_keeps [OF assms] obtain D where i: "run_inv W D M e'" by blast
  then have "is_complete (en_state e') \<or> ready_names e' \<noteq> []"
    using open_run_has_ready [OF i] by blast
  with i show ?thesis by (simp add: run_inv_def names_of_def)
qed

theorem run_state_consistent_witness:
  "case run_to_completion 9 calm_world (chain_engine None) of
     (r, e') \<Rightarrow> state_ok (en_state e') \<and> (is_complete (en_state e') \<or> ready_names e' \<noteq> [])"
  using run_state_consistent [OF chain_started, of 9 calm_world None]
  by (cases "run_to_completion 9 calm_world (chain_engine None)") simp

text \<open>
  Property C2. A step is launched only after all its dependencies: every launch a run ever makes -
  alone, in a group, or again after a failure - happens with the step's dependencies among the
  completed steps.
\<close>

theorem launches_after_dependencies:
  assumes "started W M e" and "run_to_completion fuel w e = (r, e')"
    and "Eff_launching n attempt completed \<in> set (en_log e')"
  shows "set (deps_of (dag_edges (en_dag e')) n) \<subseteq> completed"
proof -
  from run_keeps [OF assms(1,2)] obtain D where "run_inv W D M e'" by blast
  then show ?thesis
    using assms(3) by (auto simp: run_inv_def launches_ok_def deps_in_def)
qed

abbreviation halfway_at :: "nat \<Rightarrow> effect list \<Rightarrow> engine" where
  "halfway_at t l \<equiv> halfway_engine\<lparr>en_log := l, en_tick := t\<rparr>"

lemma halfway_facts:
  "is_complete (en_state halfway_engine) = False"
  "en_max_concurrent halfway_engine = Some 2"
  "en_workflow halfway_engine = example_chain"
  "completed_steps (en_state halfway_engine) = {''plan''}"
  "find_step_in example_chain ''implement'' = Inr (example_step ''implement'' [''plan''])"
  "record_step_launch ''implement'' (en_state halfway_engine) =
     (en_state halfway_engine\<lparr>step_attempts := [(''implement'', 1)]\<rparr>, 1)"
  by code_simp+

lemma halfway_ready:
  "ready_names (halfway_at t l) = [''implement'']"
  "next_ready_steps (halfway_at t l) = Inr [example_step ''implement'' [''plan'']]"
  "resolve_agent (halfway_at t l) (example_step ''implement'' [''plan'']) = Inr ''claude''"
proof -
  have "ready_names halfway_engine = [''implement'']" by code_simp
  then show r: "ready_names (halfway_at t l) = [''implement'']" by (simp add: ready_names_def)
  show "next_ready_steps (halfway_at t l) = Inr [example_step ''implement'' [''plan'']]"
    by (simp add: next_ready_steps_def r halfway_facts)
  have "resolve_agent (halfway_at t l) s = resolve_agent halfway_engine s" for s
    by (simp add: resolve_agent_def cong: option.case_cong)
  moreover have "resolve_agent halfway_engine (example_step ''implement'' [''plan'']) = Inr ''claude''"
    by code_simp
  ultimately show "resolve_agent (halfway_at t l) (example_step ''implement'' [''plan'']) = Inr ''claude''"
    by simp
qed

lemma spawnless_facts:
  "wd_cancel_at spawnless_world = None" "wd_save spawnless_world t = Inr ()"
  "wd_spawn spawnless_world t n = Inl (EngineOther ''no runtime'')"
  by (simp_all add: spawnless_world_def calm_world_def)

lemma halfway_launch:
  "\<exists>x e'. launch_step spawnless_world (halfway_at t l) = (Err x, e') \<and>
     Eff_launching ''implement'' 1 {''plan''} \<in> set (en_log e')"
proof -
  have "ws_name (example_step n d) = n" for n d by (simp add: example_step_def)
  then show ?thesis
    by (simp add: halfway_ready halfway_facts [simplified] spawnless_facts launch_step_def ebind_def eget_def
      find_step_def elift_def eret_def prepare_step_launch_def record_launch_def report_launching_def
      spawn_prepared_step_def persist_def set_step_def emod_def observe_def spawn_failed_def
      on_error_def persist_or_log_def efail_def eff_def report_spawn_failed_def)
qed

lemma halfway_run:
  "Eff_launching ''implement'' 1 {''plan''}
     \<in> set (en_log (snd (run_to_completion (Suc f) spawnless_world halfway_engine)))"
proof -
  have it: "\<exists>x e'. run_iteration f spawnless_world (halfway_at t l) = (Err x, e') \<and>
      Eff_launching ''implement'' 1 {''plan''} \<in> set (en_log e')" for t l
    using halfway_launch [of "Suc t" l]
    by (auto simp: run_iteration_def cancel_requested_def observe_def cancelled_by_def
        spawnless_facts halfway_facts halfway_ready run_single_step_iteration_def
        step_once_interruptible_def ebind_def eget_def elift_def eret_def)
  show ?thesis
    using it [of "en_tick halfway_engine"
        "Eff_progress (workflow_progress_info halfway_engine) # en_log halfway_engine"]
    by (auto simp: run_to_completion_def report_progress_def eff_def emod_def ebind_def)
qed

theorem launches_after_dependencies_witness:
  "\<exists>attempt completed. Eff_launching ''implement'' attempt completed
      \<in> set (en_log (snd (run_to_completion 3 spawnless_world halfway_engine))) \<and>
     set (deps_of (dag_edges (en_dag (snd (run_to_completion 3 spawnless_world halfway_engine))))
       ''implement'') \<subseteq> completed"
proof (cases "run_to_completion 3 spawnless_world halfway_engine")
  case (Pair r e')
  have l: "Eff_launching ''implement'' 1 {''plan''} \<in> set (en_log e')"
    using halfway_run [of 2] Pair by (simp add: numeral_eq_Suc)
  from launches_after_dependencies [OF halfway_started Pair l] l show ?thesis
    unfolding Pair snd_conv by blast
qed

text \<open>
  Property C6. The limit on live containers holds: at no point a run can be looked at does it hold
  more containers than the configured limit (one at least), or than steps when there is no limit.
\<close>

theorem container_limit:
  assumes "started W M e" and "run_to_completion fuel w e = (r, e')"
  shows "length (en_active e') \<le>
     (case M of Some n \<Rightarrow> max n 1 | None \<Rightarrow> max (length (wf_steps W)) 1)"
proof -
  from run_keeps [OF assms] obtain D where "run_inv W D M e'" by blast
  then show ?thesis by (simp add: run_inv_def slot_cap_def)
qed

theorem container_limit_witness:
  "length (en_active (snd (run_to_completion 9 calm_world (chain_engine (Some 0))))) \<le> 1"
  using container_limit [OF chain_started, of 9 calm_world "Some 0"]
  by (cases "run_to_completion 9 calm_world (chain_engine (Some 0))") simp

text \<open>
  Property C3. An outcome means what it says. When a run returns an outcome no step is left running;
  \<open>Completed\<close> means every step is terminal, an aborted or cancelled run has every step completed or
  \<open>Cancelled\<close>, and a failed run names a step whose status carries its exit code, the rest being
  completed or \<open>Cancelled\<close>.
\<close>

theorem run_outcome_sound:
  assumes "started W M e" and "run_to_completion fuel w e = (Ok wo, e')"
  shows "(\<forall>n c. status_of (en_state e') n \<noteq> Some (Running c)) \<and>
    (case wo of
       Completed \<Rightarrow> is_complete (en_state e')
     | Paused \<Rightarrow> True
     | RunFailed m code \<Rightarrow> (\<exists>text. status_of (en_state e') m = Some (Failed code text)) \<and>
         (\<forall>n \<in> ws_name ` set (wf_steps W) - {m}.
            n \<in> completed_steps (en_state e') \<or> status_of (en_state e') n = Some Cancelled)
     | CompletedTeardownFailed \<Rightarrow> False
     | _ \<Rightarrow> (\<forall>n \<in> ws_name ` set (wf_steps W).
            n \<in> completed_steps (en_state e') \<or> status_of (en_state e') n = Some Cancelled))"
proof -
  from run_keeps [OF assms] obtain D where "ended W D M wo e'" by blast
  then show ?thesis
    by (cases wo) (auto simp: ended_def J_def running_def closed_as_def names_of_def)
qed

theorem run_outcome_sound_witness:
  "\<exists>e'. run_to_completion 4 calm_world (chain_engine (Some 1)) = (Ok Completed, e') \<and>
     (\<forall>n c. status_of (en_state e') n \<noteq> Some (Running c)) \<and> is_complete (en_state e')"
proof -
  obtain e' where r: "run_to_completion 4 calm_world (chain_engine (Some 1)) = (Ok Completed, e')"
    using chain_calm_run by blast
  from run_outcome_sound [OF chain_started r] r show ?thesis by auto
qed

subsection \<open>Cancelling\<close>

lemma mark_unfinished_result:
  "\<exists>st. mark_unfinished w s ns e = (Ok (), e\<lparr>en_state := st\<rparr>) \<and>
     (\<forall>n. status_of st n = (if n \<in> set ns \<and> n \<notin> completed_steps (en_state e) then Some s
            else status_of (en_state e) n)) \<and>
     completed_steps st = completed_steps (en_state e) \<union> (if completing s then set ns else {}) \<and>
     cancelled_at st = cancelled_at (en_state e)"
proof (induction ns arbitrary: e)
  case Nil
  show ?case by (rule exI [of _ "en_state e"]) (simp add: eret_def)
next
  case (Cons n ns)
  show ?case
  proof (cases "n \<in> completed_steps (en_state e)")
    case True
    then show ?thesis
      using Cons [of e] by (force simp: ebind_def eget_def)
  next
    case False
    let ?e = "e\<lparr>en_state := set_status (wd_now w (en_tick e)) n s (en_state e)\<rparr>"
    from Cons [of ?e] obtain st where st: "mark_unfinished w s ns ?e = (Ok (), ?e\<lparr>en_state := st\<rparr>)"
      "\<And>m. status_of st m = (if m \<in> set ns \<and> m \<notin> completed_steps (en_state ?e) then Some s
            else status_of (en_state ?e) m)"
      "completed_steps st = completed_steps (en_state ?e) \<union> (if completing s then set ns else {})"
      "cancelled_at st = cancelled_at (en_state ?e)" by blast
    have "mark_unfinished w s (n # ns) e = (Ok (), e\<lparr>en_state := st\<rparr>)"
      using False st(1) by (simp add: ebind_def eget_def set_step_def emod_def)
    moreover have "status_of st m = (if m \<in> set (n # ns) \<and> m \<notin> completed_steps (en_state e)
        then Some s else status_of (en_state e) m)" for m
      using st(2) [of m] False by auto
    moreover have "completed_steps st = completed_steps (en_state e) \<union> (if completing s then set (n # ns) else {})"
      using st(3) False by auto
    moreover have "cancelled_at st = cancelled_at (en_state e)"
      using st(4) by (simp add: set_status_def)
    ultimately show ?thesis by blast
  qed
qed

text \<open>Everything \<open>cancel_run\<close> does, up to the save.\<close>

lemma cancel_run_result:
  assumes "wd_save w (en_tick e) = Inr ()"
  shows "\<exists>e'. cancel_run w e = (Ok RunCancelled, e') \<and> en_active e' = [] \<and>
     (\<forall>n. status_of (en_state e') n =
        (if n \<in> names_of (en_workflow e) \<and> n \<notin> completed_steps (en_state e) then Some Cancelled
         else status_of (en_state e) n)) \<and>
     completed_steps (en_state e') = completed_steps (en_state e) \<and>
     cancelled_at (en_state e') = (case cancelled_at (en_state e) of
        None \<Rightarrow> Some (wd_now w (en_tick e)) | Some t \<Rightarrow> Some t) \<and>
     en_log e' = [Eff_outcome RunCancelled, Eff_persist (en_state e')] @
        rev (concat (map stop_slot_effects (en_active e))) @ en_log e"
proof -
  let ?e = "e\<lparr>en_active := [], en_log := rev (concat (map stop_slot_effects (en_active e))) @ en_log e,
      en_abort_triggered := False\<rparr>"
  from mark_unfinished_result [of w Cancelled "map ws_name (wf_steps (en_workflow e))" ?e]
  obtain st where st: "mark_unfinished w Cancelled (map ws_name (wf_steps (en_workflow e))) ?e
      = (Ok (), ?e\<lparr>en_state := st\<rparr>)"
    "\<And>n. status_of st n = (if n \<in> names_of (en_workflow e) \<and> n \<notin> completed_steps (en_state e)
       then Some Cancelled else status_of (en_state e) n)"
    "completed_steps st = completed_steps (en_state e)" "cancelled_at st = cancelled_at (en_state e)"
    by (auto simp: names_of_def)
  have "status_of (st\<lparr>cancelled_at := t\<rparr>) n = status_of st n" for t n
    by (simp add: status_of_def)
  with st show ?thesis
    by (cases "cancelled_at (en_state e)")
      (simp_all add: cancel_run_def ebind_def stop_active_agents_def emod_def mark_all_unfinished_def
        stamp_cancelled_def persist_def observe_def assms eff_def report_outcome_def eret_def)
qed

text \<open>
  Cancelling a run stops every live container, keeps completed steps as they are, marks
  every other step \<open>Cancelled\<close>, stamps the time of the first cancellation only, saves the state and
  launches nothing.
\<close>

theorem cancel_run_correct:
  assumes "wd_save w (en_tick e) = Inr ()"
  shows "\<exists>e'. cancel_run w e = (Ok RunCancelled, e') \<and> en_active e' = [] \<and>
     (\<forall>n. status_of (en_state e') n =
        (if n \<in> ws_name ` set (wf_steps (en_workflow e)) \<and> n \<notin> completed_steps (en_state e)
         then Some Cancelled else status_of (en_state e) n)) \<and>
     cancelled_at (en_state e') = (case cancelled_at (en_state e) of
        None \<Rightarrow> Some (wd_now w (en_tick e)) | Some t \<Rightarrow> Some t) \<and>
     (\<forall>s \<in> set (en_active e). Eff_stop_agent (sl_handle s) \<in> set (en_log e')) \<and>
     Eff_persist (en_state e') \<in> set (en_log e') \<and>
     filter is_launch (en_log e') = filter is_launch (en_log e)"
proof -
  have stop: "Eff_stop_agent (sl_handle s) \<in> set (stop_slot_effects s)" for s
    by (simp add: stop_slot_effects_def)
  have "filter is_launch (stop_slot_effects s) = []" for s
    by (simp add: stop_slot_effects_def)
  then have quiet: "filter is_launch (rev (concat (map stop_slot_effects ss))) = []" for ss
    by (auto simp: filter_empty_conv)
  from cancel_run_result [OF assms] obtain e' where
    e': "cancel_run w e = (Ok RunCancelled, e')" "en_active e' = []"
    "\<And>n. status_of (en_state e') n = (if n \<in> names_of (en_workflow e) \<and> n \<notin> completed_steps (en_state e)
        then Some Cancelled else status_of (en_state e) n)"
    "cancelled_at (en_state e') = (case cancelled_at (en_state e) of
        None \<Rightarrow> Some (wd_now w (en_tick e)) | Some t \<Rightarrow> Some t)"
    and l: "en_log e' = [Eff_outcome RunCancelled, Eff_persist (en_state e')] @
        rev (concat (map stop_slot_effects (en_active e))) @ en_log e" by blast
  have "\<forall>s \<in> set (en_active e). Eff_stop_agent (sl_handle s) \<in> set (en_log e')"
    using stop by (auto simp: l)
  moreover have "Eff_persist (en_state e') \<in> set (en_log e')" by (simp add: l)
  moreover have "filter is_launch (en_log e') = filter is_launch (en_log e)"
    using quiet by (simp add: l)
  ultimately show ?thesis using e' by (auto simp: names_of_def)
qed

theorem cancel_run_correct_witness:
  "\<exists>e'. cancel_run calm_world (chain_engine None) = (Ok RunCancelled, e') \<and>
     cancelled_at (en_state e') \<noteq> None"
  using cancel_run_correct [of calm_world "chain_engine None"]
  by (auto simp: calm_world_def split: option.splits)

text \<open>
  A fired cancellation token is honoured at the head of every iteration, before anything
  else: no step is launched, whatever is ready, and the run ends as \<open>cancel_run\<close> says.
\<close>

theorem fired_token_ends_the_run:
  assumes "cancelled_by w (en_tick e)" and "wd_save w (Suc (en_tick e)) = Inr ()"
  shows "\<exists>e'. run_loop (Suc fuel) w e = (Ok RunCancelled, e') \<and>
    filter is_launch (en_log e') = filter is_launch (en_log e) \<and>
    (\<forall>n \<in> ws_name ` set (wf_steps (en_workflow e)).
       n \<in> completed_steps (en_state e) \<or> status_of (en_state e') n = Some Cancelled)"
proof -
  have quiet: "filter is_launch (rev (concat (map stop_slot_effects ss))) = []" for ss
    by (auto simp: filter_empty_conv stop_slot_effects_def split: if_splits)
  from cancel_run_result [of w "e\<lparr>en_tick := Suc (en_tick e)\<rparr>"] assms(2)
  obtain e' where c: "cancel_run w (e\<lparr>en_tick := Suc (en_tick e)\<rparr>) = (Ok RunCancelled, e')"
    and s: "\<And>n. status_of (en_state e') n = (if n \<in> names_of (en_workflow e) \<and> n \<notin> completed_steps (en_state e)
        then Some Cancelled else status_of (en_state e) n)"
    and l: "en_log e' = [Eff_outcome RunCancelled, Eff_persist (en_state e')] @
        rev (concat (map stop_slot_effects (en_active e))) @ en_log e" by auto
  have "run_loop (Suc fuel) w e = (Ok RunCancelled, e')"
    using assms(1) c
    by (simp add: run_iteration_def cancel_requested_def observe_def iter_ended_def ebind_def eret_def)
  then show ?thesis using s quiet by (auto simp: l names_of_def)
qed

theorem fired_token_ends_the_run_witness:
  "\<exists>e'. run_loop 1 (calm_world\<lparr>wd_cancel_at := Some 0\<rparr>) (chain_engine None) = (Ok RunCancelled, e')"
  using fired_token_ends_the_run [of "calm_world\<lparr>wd_cancel_at := Some 0\<rparr>" "chain_engine None" 0]
  by (auto simp: cancelled_by_def calm_world_def)

end
