(* ===== verification/Run_Recovery.thy ===== *)
theory Run_Recovery
  imports Run_Properties
begin

text \<open>
  How a run recovers: resuming a saved state, retrying a failed step without a user, going back to
  the previous step, and which steps a restart reaches.
\<close>

subsection \<open>Resuming\<close>

lemma resume_accepts:
  "(\<exists>e. engine_resume cfg hash now uuid wi load confirm W = Inr e) \<longleftrightarrow>
     (\<exists>d. build_dag (wf_steps W) = Inr d) \<and>
     (load = Inr None \<or>
      (\<exists>st. load = Inr (Some st) \<and> schema_version st \<le> workflow_state_schema_version \<and>
            (workflow_hash st = hash W \<or> confirm = Inr True)))"
proof (cases "build_dag (wf_steps W)")
  case (Inr d)
  show ?thesis
  proof (cases load)
    case l: (Inr found)
    show ?thesis
    proof (cases found)
      case (Some st)
      show ?thesis
        by (auto simp: engine_resume_def Inr l Some data_result_def accept_saved_def result_simps not_less)
    qed (simp add: engine_resume_def Inr l data_result_def)
  qed (simp add: engine_resume_def Inr data_result_def)
qed (simp add: engine_resume_def)

text \<open>
  Property C5. A saved run can be resumed exactly when its definition still builds a graph, its
  schema is not newer than this version's, and it belongs to this definition or the user agreed to
  the drift. The resumed run has exactly the definition's steps: what had completed stays completed,
  everything else - running, failed, cancelled or unknown - is \<open>Pending\<close> again, and unless everything
  is complete some step is ready.
\<close>

theorem resume_prepares:
  assumes "state_ok saved"
  shows "((\<exists>e. engine_resume cfg hash now uuid wi (Inr (Some saved)) confirm W = Inr e) \<longleftrightarrow>
      (\<exists>d. build_dag (wf_steps W) = Inr d) \<and> schema_version saved \<le> workflow_state_schema_version \<and>
      (workflow_hash saved = hash W \<or> confirm = Inr True)) \<and>
    (\<forall>e. engine_resume cfg hash now uuid wi (Inr (Some saved)) confirm W = Inr e \<longrightarrow>
      (\<forall>n. status_of (en_state e) n =
        (if n \<notin> ws_name ` set (wf_steps W) then None
         else case status_of saved n of
           Some s \<Rightarrow> Some (if completing s then s else Pending) | None \<Rightarrow> Some Pending)) \<and>
      (is_complete (en_state e) \<or> ready_names e \<noteq> []))"
proof (intro conjI allI impI)
  show "(\<exists>e. engine_resume cfg hash now uuid wi (Inr (Some saved)) confirm W = Inr e) \<longleftrightarrow>
      (\<exists>d. build_dag (wf_steps W) = Inr d) \<and> schema_version saved \<le> workflow_state_schema_version \<and>
      (workflow_hash saved = hash W \<or> confirm = Inr True)"
    using resume_accepts [of cfg hash now uuid wi "Inr (Some saved)" confirm W] by auto
next
  fix e n assume r: "engine_resume cfg hash now uuid wi (Inr (Some saved)) confirm W = Inr e"
  from engine_resume_Inr [OF r] obtain D where d: "build_dag (wf_steps W) = Inr D"
    and st: "en_state e = prepare_resumed now W D saved" by (metis Inr_inject option.inject option.distinct(1))
  show "status_of (en_state e) n = (if n \<notin> ws_name ` set (wf_steps W) then None
      else case status_of saved n of
        Some s \<Rightarrow> Some (if completing s then s else Pending) | None \<Rightarrow> Some Pending)"
    by (simp add: st prepare_resumed_ok(2) [OF d assms] names_of_def)
  have "saved_ok (Inr (Some saved))" using assms by (simp add: saved_ok_def)
  from engine_resume_J(1) [OF r this] have "run_inv W (en_dag e) (cfg_max_concurrent cfg) e"
    by (simp add: J_def)
  from open_run_has_ready [OF this] show "is_complete (en_state e) \<or> ready_names e \<noteq> []" by blast
qed

text \<open>A run stopped in its second step; the state of an unknown third step is dropped.\<close>

theorem resume_prepares_witness:
  "\<exists>e. engine_resume example_config example_hash 2 8 None
        (Inr (Some (set_status 1 ''implement'' (Running None) (set_status 1 ''old'' Succeeded halfway_state))))
        (Inr False) example_chain = Inr e \<and>
     status_of (en_state e) ''plan'' = Some Succeeded \<and>
     status_of (en_state e) ''implement'' = Some Pending \<and> status_of (en_state e) ''old'' = None"
proof -
  let ?saved = "set_status 1 ''implement'' (Running None) (set_status 1 ''old'' Succeeded halfway_state)"
  have ok: "state_ok ?saved" by (intro set_status_ok halfway_ok)
  have "\<exists>d. build_dag (wf_steps example_chain) = Inr d"
    using chain_new [of None] by (auto simp: engine_new_def split: sum.splits)
  moreover have "schema_version ?saved \<le> workflow_state_schema_version"
    "workflow_hash ?saved = example_hash example_chain"
    by (simp_all add: set_status_def halfway_state_def new_state_def example_hash_def)
  ultimately obtain e where e: "engine_resume example_config example_hash 2 8 None (Inr (Some ?saved))
      (Inr False) example_chain = Inr e"
    using resume_prepares [OF ok, of example_config example_hash 2 8 None "Inr False" example_chain] by blast
  moreover have "status_of (en_state e) n = (if n \<notin> {''plan'', ''implement''} then None
      else case status_of ?saved n of
        Some s \<Rightarrow> Some (if completing s then s else Pending) | None \<Rightarrow> Some Pending)" for n
  proof -
    have names: "ws_name ` set (wf_steps example_chain) = {''plan'', ''implement''}"
      by (simp add: example_chain_def example_workflow_def example_step_def)
    show ?thesis
      using resume_prepares [OF ok, of example_config example_hash 2 8 None "Inr False" example_chain] e
      unfolding names by blast
  qed
  ultimately show ?thesis by (simp add: halfway_state_def)
qed

subsection \<open>A failed step without a user\<close>

lemma countdown_keeps:
  "en_auto_retried (snd (retry_countdown_loop fuel w n start e)) = en_auto_retried e"
  by (induction fuel arbitrary: e)
    (simp_all add: ewait_def cancel_requested_def observe_def ebind_def eret_def clock_def eget_def
      ask_def elift_def efail_def split: sum.splits yolo_tick_outcome.splits)

lemma ebind_Ok_iff:
  "ebind m k e = (Ok x, e') \<longleftrightarrow> (\<exists>y e1. m e = (Ok y, e1) \<and> k y e1 = (Ok x, e'))"
  by (cases "m e") (auto simp: ebind_def split: ran.splits)

lemma basic_Ok_iff:
  "eret y e = (Ok x, e') \<longleftrightarrow> x = y \<and> e' = e"
  "eget f e = (Ok z, e') \<longleftrightarrow> z = f e \<and> e' = e"
  "emod g e = (Ok u, e') \<longleftrightarrow> e' = g e"
  "\<not> efail err e = (Ok x, e')"
  by (auto simp: eret_def eget_def emod_def efail_def)

lemma retry_countdown_keeps:
  assumes "run_failure_retry_countdown fuel w n e = (Ok c, e')"
  shows "en_auto_retried e' = en_auto_retried e"
proof -
  let ?e = "e\<lparr>en_log := Eff_countdown_started n FailureRetry # en_log e\<rparr>"
  from assms obtain e1 where "retry_countdown_loop fuel w n (wd_now w (en_tick e)) ?e = (Ok c, e1)"
    and "en_auto_retried e' = en_auto_retried e1"
    by (auto simp: run_failure_retry_countdown_def clock_def eff_def ebind_Ok_iff basic_Ok_iff)
  then show ?thesis using countdown_keeps [of fuel w n "wd_now w (en_tick e)" ?e] by simp
qed

lemma persist_Ok:
  "persist w e = (Ok u, e') \<Longrightarrow> en_state e' = en_state e \<and> en_auto_retried e' = en_auto_retried e"
  by (auto simp: persist_def ebind_def observe_def efail_def eff_def emod_def split: sum.splits)

lemma fail_run_Ok:
  assumes "fail_run w n code text e = (Ok wo, e')"
  shows "wo = RunFailed n code \<and> status_of (en_state e') n = Some (Failed code (Some text))"
proof -
  from mark_unfinished_result [of w Cancelled "map ws_name (wf_steps (en_workflow e))" e]
  obtain st where m: "mark_all_unfinished w Cancelled e = (Ok (), e\<lparr>en_state := st\<rparr>)"
    by (auto simp: mark_all_unfinished_def)
  let ?e = "e\<lparr>en_state := set_status (wd_now w (en_tick e)) n (Failed code (Some text)) st\<rparr>"
  from assms m obtain u e1 where p: "persist w ?e = (Ok u, e1)"
    and e': "wo = RunFailed n code" "e' = e1\<lparr>en_log := Eff_outcome wo # en_log e1\<rparr>"
    by (cases "persist w ?e") (auto simp: fail_run_def ebind_def set_step_def emod_def report_outcome_def
        eff_def eret_def split: ran.splits)
  from persist_Ok [OF p] show ?thesis by (simp add: e')
qed

text \<open>
  Without a user a failed step is retried at most once. The handler that answers a
  failure either continues - then the step had not been retried before, is remembered as retried and
  is \<open>Pending\<close> - or ends the run, and for a step already retried it ends it as failed with the step's
  exit code.
\<close>

theorem unattended_failure_retries_once:
  assumes "handle_step_failure_unattended fuel w n code e = (Ok r, e')"
  shows "case r of
      IterContinue \<Rightarrow> n \<notin> en_auto_retried e \<and> n \<in> en_auto_retried e' \<and>
        status_of (en_state e') n = Some Pending
    | IterEnded wo \<Rightarrow>
        (wo = RunCancelled \<and> n \<notin> en_auto_retried e) \<or>
        (wo = RunFailed n code \<and> (\<exists>text. status_of (en_state e') n = Some (Failed code (Some text))))"
proof (cases "n \<in> en_auto_retried e")
  case True
  then obtain msg wo where "fail_run w n code msg e = (Ok wo, e')" "r = IterEnded wo"
    using assms by (auto simp: handle_step_failure_unattended_def iter_ended_def ebind_Ok_iff basic_Ok_iff)
  then show ?thesis using fail_run_Ok by auto
next
  case False
  with assms obtain c e1 where c: "run_failure_retry_countdown fuel w n e = (Ok c, e1)"
    and h: "(if cancelled_by w (en_tick e1) then iter_ended (cancel_run w)
      else if c = TickCancel then iter_ended (fail_run w n code ''retry countdown cancelled'')
      else iter_continue (eseq [emod (\<lambda>e. e\<lparr>en_auto_retried := insert n (en_auto_retried e)\<rparr>),
                   set_step w n Pending, persist w])) (e1\<lparr>en_tick := Suc (en_tick e1)\<rparr>) = (Ok r, e')"
    by (auto simp: handle_step_failure_unattended_def ebind_Ok_iff basic_Ok_iff cancel_requested_def
        observe_def simp del: eseq.simps)
  have a1: "en_auto_retried e1 = en_auto_retried e" by (rule retry_countdown_keeps [OF c])
  consider "cancelled_by w (en_tick e1)" | "\<not> cancelled_by w (en_tick e1)" "c = TickCancel"
    | "\<not> cancelled_by w (en_tick e1)" "c \<noteq> TickCancel" by blast
  then show ?thesis
  proof cases
    case 1
    then have "r = IterEnded RunCancelled"
      using h by (auto simp: iter_ended_def cancel_run_def report_outcome_def ebind_Ok_iff basic_Ok_iff
          simp del: eseq.simps)
    then show ?thesis using False by simp
  next
    case 2
    then obtain wo where "r = IterEnded wo"
        "fail_run w n code ''retry countdown cancelled'' (e1\<lparr>en_tick := Suc (en_tick e1)\<rparr>) = (Ok wo, e')"
      using h by (auto simp: iter_ended_def ebind_Ok_iff basic_Ok_iff)
    then show ?thesis using fail_run_Ok by auto
  next
    case 3
    let ?e = "e1\<lparr>en_tick := Suc (en_tick e1), en_auto_retried := insert n (en_auto_retried e1),
        en_state := set_status (wd_now w (Suc (en_tick e1))) n Pending (en_state e1)\<rparr>"
    have "r = IterContinue" "persist w ?e = (Ok (), e')"
      using h 3 by (auto simp: iter_continue_def ebind_Ok_iff basic_Ok_iff set_step_def)
    then show ?thesis using persist_Ok [of w ?e "()" e'] False by simp
  qed
qed

theorem unattended_failure_retries_once_witness:
  "\<exists>e' text. handle_step_failure_unattended 0 calm_world ''plan'' 1
       ((chain_engine None)\<lparr>en_auto_retried := {''plan''}\<rparr>) = (Ok (IterEnded (RunFailed ''plan'' 1)), e') \<and>
     status_of (en_state e') ''plan'' = Some (Failed 1 (Some text))"
proof -
  let ?e = "(chain_engine None)\<lparr>en_auto_retried := {''plan''}\<rparr>"
  from mark_unfinished_result [of calm_world Cancelled "map ws_name (wf_steps (en_workflow ?e))" ?e]
  obtain st where "mark_all_unfinished calm_world Cancelled ?e = (Ok (), ?e\<lparr>en_state := st\<rparr>)"
    by (auto simp: mark_all_unfinished_def)
  then obtain e' where r: "handle_step_failure_unattended 0 calm_world ''plan'' 1 ?e
      = (Ok (IterEnded (RunFailed ''plan'' 1)), e')"
    by (simp add: handle_step_failure_unattended_def iter_ended_def fail_run_def ebind_def eget_def eret_def
        set_step_def emod_def persist_def observe_def calm_world_def eff_def report_outcome_def)
  from unattended_failure_retries_once [OF r] r show ?thesis by auto
qed

subsection \<open>Going back to the previous step\<close>

lemma previous_is_another:
  assumes "built_dag (en_dag e)" and "previous_step_name e = Some p"
  shows "\<exists>n. en_current_step e = Some n \<and> n \<noteq> p"
proof -
  let ?order = "topological_order (en_dag e)"
  from assms(2) obtain n i where n: "en_current_step e = Some n" "position (\<lambda>m. m = n) ?order = Some (Suc i)" "p = ?order ! i"
    by (auto simp: previous_step_name_def Let_def split: option.splits nat.splits)
  from position_SomeD [OF n(2)] have "Suc i < length ?order" "?order ! Suc i = n" by auto
  then have "p \<noteq> n" using dag.order_distinct [OF assms(1)] n(3) by (metis Suc_lessD n_not_Suc_n nth_eq_iff_index_eq)
  then show ?thesis using n(1) by blast
qed

text \<open>
  Property C23. What "cancel to previous step" does to the statuses, whenever there is a previous step and the state can
  be saved: the current step becomes \<open>Cancelled\<close>, the previous one \<open>Pending\<close>, every other step keeps its status, and
  the new state is what is saved. The step gone back from is not reopened, as the documentation says it would be: being
  \<open>Cancelled\<close> it counts as terminal, so that once the previous step has succeeded again the run is complete exactly
  when every step other than these two is terminal. Without a previous step the request is refused and nothing changes.
\<close>

theorem cancel_to_previous_closes_the_step:
  assumes "state_ok (en_state e)" and "built_dag (en_dag e)"
  shows "case previous_step_name e of
      None \<Rightarrow> handle_cancel_to_previous w e = (Err (InvalidAdvanceAction ''no previous step to cancel to''), e)
    | Some p \<Rightarrow>
        (\<exists>n. en_current_step e = Some n \<and> n \<noteq> p \<and>
          (wd_save w (en_tick e) = Inr () \<longrightarrow>
             (\<exists>e'. handle_cancel_to_previous w e = (Ok (), e') \<and> Eff_persist (en_state e') \<in> set (en_log e') \<and>
               (\<forall>m. status_of (en_state e') m =
                  (if m = p then Some Pending else if m = n then Some Cancelled else status_of (en_state e) m)) \<and>
               (is_complete (set_status now p Succeeded (en_state e')) \<longleftrightarrow>
                  (\<forall>m s. m \<noteq> n \<and> m \<noteq> p \<and> status_of (en_state e) m = Some s \<longrightarrow> terminal s)))))"
proof (cases "previous_step_name e")
  case None
  then show ?thesis by (simp add: handle_cancel_to_previous_def ebind_def eget_def efail_def)
next
  case (Some p)
  then obtain n where n: "en_current_step e = Some n" "n \<noteq> p"
    using previous_is_another [OF assms(2) Some] by blast
  let ?st = "set_status (wd_now w (en_tick e)) p Pending (set_status (wd_now w (en_tick e)) n Cancelled (en_state e))"
  have ok': "state_ok (set_status now p Succeeded ?st)" by (intro set_status_ok assms(1))
  have "\<exists>e'. handle_cancel_to_previous w e = (Ok (), e') \<and> Eff_persist (en_state e') \<in> set (en_log e') \<and>
      (\<forall>m. status_of (en_state e') m =
         (if m = p then Some Pending else if m = n then Some Cancelled else status_of (en_state e) m)) \<and>
      (is_complete (set_status now p Succeeded (en_state e')) \<longleftrightarrow>
         (\<forall>m s. m \<noteq> n \<and> m \<noteq> p \<and> status_of (en_state e) m = Some s \<longrightarrow> terminal s))"
    if "wd_save w (en_tick e) = Inr ()"
  proof (intro exI conjI)
    show "handle_cancel_to_previous w e
        = (Ok (), e\<lparr>en_state := ?st, en_tick := Suc (en_tick e), en_log := Eff_persist ?st # en_log e\<rparr>)"
      using that n Some by (simp add: handle_cancel_to_previous_def ebind_def eget_def set_step_def emod_def
          persist_def observe_def eff_def eret_def)
    show "is_complete (set_status now p Succeeded (en_state (e\<lparr>en_state := ?st, en_tick := Suc (en_tick e),
          en_log := Eff_persist ?st # en_log e\<rparr>))) \<longleftrightarrow>
        (\<forall>m s. m \<noteq> n \<and> m \<noteq> p \<and> status_of (en_state e) m = Some s \<longrightarrow> terminal s)"
      using is_complete_iff [OF ok'] n(2) by auto
  qed (simp_all)
  then show ?thesis using n Some by auto
qed

theorem cancel_to_previous_closes_the_step_witness:
  "\<exists>e'. handle_cancel_to_previous calm_world (halfway_engine\<lparr>en_current_step := Some ''implement''\<rparr>)
       = (Ok (), e') \<and>
     status_of (en_state e') ''implement'' = Some Cancelled \<and> status_of (en_state e') ''plan'' = Some Pending \<and>
     is_complete (set_status 9 ''plan'' Succeeded (en_state e'))"
proof -
  let ?e = "halfway_engine\<lparr>en_current_step := Some ''implement''\<rparr>"
  have p: "previous_step_name ?e = Some ''plan''" by code_simp
  have names: "ws_name ` set (wf_steps example_chain) = {''plan'', ''implement''}"
    by (simp add: example_chain_def example_workflow_def example_step_def)
  obtain D where i: "run_inv example_chain D (Some 2) halfway_engine" using started_inv [OF halfway_started] .
  then have ok: "state_ok (en_state ?e)" and d: "built_dag (en_dag ?e)"
    and "\<forall>m s. m \<noteq> ''implement'' \<and> m \<noteq> ''plan'' \<and> status_of (en_state ?e) m = Some s \<longrightarrow> terminal s"
    using names by (auto simp: run_inv_def names_of_def built_dag_def)
  with cancel_to_previous_closes_the_step [OF ok d, of calm_world 9] p show ?thesis
    by (auto simp: calm_world_def)
qed

subsection \<open>The steps a restart reaches\<close>

definition depends :: "workflow_step list \<Rightarrow> (string \<times> string) set" where
  "depends steps = {(ws_name s, d) | s d. s \<in> set steps \<and> d \<in> set (ws_depends_on s)}"

lemma dependents_next_set:
  "set (dependents_next steps reached) = {n. n \<notin> reached \<and> (\<exists>d \<in> reached. (n, d) \<in> depends steps)}"
  by (auto simp: dependents_next_def depends_def list_ex_iff)

lemma closed_under_dependents:
  assumes "dependents_next steps reached = []" and "(n, r) \<in> (depends steps)\<^sup>+" and "r \<in> reached"
  shows "n \<in> reached"
  using assms(2,3)
proof (induction rule: converse_trancl_induct)
  case (base n)
  then show ?case using dependents_next_set [of steps reached] assms(1) by auto
next
  case (step n m)
  then show ?case using dependents_next_set [of steps reached] assms(1) by auto
qed

lemma dependents_loop_set:
  "set (dependents_loop steps reached out)
     = set out \<union> {n. n \<notin> reached \<and> (\<exists>r \<in> reached. (n, r) \<in> (depends steps)\<^sup>+)}"
proof (induction steps reached out rule: dependents_loop.induct)
  case (1 steps reached out)
  let ?next = "dependents_next steps reached"
  let ?below = "\<lambda>R. {n. n \<notin> R \<and> (\<exists>r \<in> R. (n, r) \<in> (depends steps)\<^sup>+)}"
  show ?case
  proof (cases "?next = []")
    case True
    then have "?below reached = {}" using closed_under_dependents by blast
    then have "dependents_loop steps reached out = out" "?below reached = {}"
      using True by (simp_all add: Let_def)
    then show ?thesis by (simp only: Un_empty_right)
  next
    case False
    have next_below: "set ?next \<subseteq> ?below reached"
      unfolding dependents_next_set by blast
    have "?below (reached \<union> set ?next) \<subseteq> ?below reached"
    proof
      fix n assume "n \<in> ?below (reached \<union> set ?next)"
      then obtain r where n: "n \<notin> reached" and r: "r \<in> reached \<union> set ?next" "(n, r) \<in> (depends steps)\<^sup>+"
        by blast
      then show "n \<in> ?below reached"
        using next_below by (blast intro: trancl_trans)
    qed
    moreover have "?below reached \<subseteq> set ?next \<union> ?below (reached \<union> set ?next)" by blast
    ultimately have "?below reached = set ?next \<union> ?below (reached \<union> set ?next)"
      using next_below by blast
    then show ?thesis
      using 1 [OF refl False] False by (subst dependents_loop.simps) (simp add: Let_def Un_assoc)
  qed
qed

text \<open>
  The steps a rewind of \<open>roots\<close> also resets are exactly the other steps that depend on one of
  them, directly or through any chain of dependencies.
\<close>

theorem dependents_of_transitive:
  "set (dependents_of e roots) =
     {n. n \<notin> set roots \<and>
        (\<exists>r \<in> set roots. (n, r) \<in> {(ws_name s, d) | s d. s \<in> set (wf_steps (en_workflow e)) \<and>
           d \<in> set (ws_depends_on s)}\<^sup>+)}"
  unfolding dependents_of_def dependents_loop_set depends_def by simp

end
