(* ===== verification/Prompt_Template.thy ===== *)
theory Prompt_Template
  imports Strings
begin

text \<open>
  \<open>src/data/workflow_prompt_template.rs\<close>: the work-item placeholders of a step's prompt. The loop
  over section placeholders rescans the text it has just produced and need not end, so it takes fuel
  and answers \<open>None\<close> when that runs out.
\<close>

record work_item_context =
  wi_number :: nat
  wi_content :: string

record substitution =
  sub_rendered :: string
  sub_warnings :: "string list"

subsection \<open>Sections of a work item\<close>

definition strip_colons :: "string \<Rightarrow> string" where
  "strip_colons s = trim_end_matches (CHR '':'') s"

definition heading_of :: "string \<Rightarrow> string option" where
  "heading_of line =
     (case strip_prefix (trim line) ''## '' of
        Some h \<Rightarrow> Some h | None \<Rightarrow> strip_prefix (trim line) ''# '')"

definition is_heading :: "string \<Rightarrow> bool" where
  "is_heading line \<longleftrightarrow> starts_with (trim_start line) ''## '' \<or> starts_with (trim_start line) ''# ''"

definition section_body :: "string list \<Rightarrow> string" where
  "section_body ls = trim (concat (map (\<lambda>l. l @ [nl]) (takeWhile (\<lambda>l. \<not> is_heading l) ls)))"

fun section_in :: "string \<Rightarrow> string list \<Rightarrow> string option" where
  "section_in needle [] = None"
| "section_in needle (l # ls) =
     (case heading_of l of
        None \<Rightarrow> section_in needle ls
      | Some h \<Rightarrow>
          if to_ascii_lowercase (strip_colons (trim h)) = needle then Some (section_body ls)
          else section_in needle ls)"

definition extract_section :: "string \<Rightarrow> string \<Rightarrow> string option" where
  "extract_section content name =
     section_in (to_ascii_lowercase (strip_colons (trim name))) (lines content)"

subsection \<open>Substitution\<close>

definition section_open :: string where
  "section_open = ''{{work_item_section:''"

definition section_name :: "string \<Rightarrow> string" where
  "section_name raw =
     trim (strip_colons (trim_end_matches (CHR '']'') (trim_start_matches (CHR ''['') (trim raw))))"

definition section_text :: "work_item_context option \<Rightarrow> string \<Rightarrow> string" where
  "section_text wi name =
     (case wi of
        None \<Rightarrow> []
      | Some w \<Rightarrow> (case extract_section (wi_content w) name of Some b \<Rightarrow> b | None \<Rightarrow> []))"

text \<open>One turn of the loop: the first placeholder and its end, if both are there.\<close>

definition replace_section :: "work_item_context option \<Rightarrow> string \<Rightarrow> string option" where
  "replace_section wi out =
     (case find_sub section_open out of
        None \<Rightarrow> None
      | Some start \<Rightarrow>
          (case find_sub ''}}'' (drop start out) of
             None \<Rightarrow> None
           | Some e \<Rightarrow>
               (let body_start = start + length section_open;
                    raw = take (start + e - body_start) (drop body_start out)
                in Some (take start out @ section_text wi (section_name raw) @ drop (start + e + 2) out))))"

fun section_loop :: "nat \<Rightarrow> work_item_context option \<Rightarrow> string \<Rightarrow> string option" where
  "section_loop 0 wi out = None"
| "section_loop (Suc fuel) wi out =
     (case replace_section wi out of
        None \<Rightarrow> Some out
      | Some out' \<Rightarrow> section_loop fuel wi out')"

definition missing_warning :: string where
  "missing_warning = ''workflow prompt references {{work_item_*}} but no --work-item was supplied; '' @
     ''placeholders rendered as empty strings''"

definition plain_tokens :: "work_item_context option \<Rightarrow> string \<Rightarrow> string" where
  "plain_tokens wi template =
     (let value = (\<lambda>f. case wi of Some w \<Rightarrow> f w | None \<Rightarrow> []);
          out1 = replace_token ''{{work_item_number}}'' (value (\<lambda>w. dec4 (wi_number w))) template;
          out2 = replace_token ''{{work_item}}'' (value (\<lambda>w. dec_string (wi_number w))) out1
      in replace_token ''{{work_item_content}}'' (value wi_content) out2)"

definition substitute_prompt ::
  "nat \<Rightarrow> string \<Rightarrow> work_item_context option \<Rightarrow> substitution option" where
  "substitute_prompt fuel template wi =
     map_option (\<lambda>out. \<lparr>sub_rendered = out,
         sub_warnings = (if contains_sub template ''{{work_item'' \<and> wi = None
                         then [missing_warning] else [])\<rparr>)
       (section_loop fuel wi (plain_tokens wi template))"

subsection \<open>The loop ends when sections bring no braces\<close>

lemma set_trim: "set (trim s) \<subseteq> set s"
  using trim_sub [of s] by (metis set_append Un_upper1 Un_upper2 order_trans)

lemma set_drop_cr: "set (drop_cr l) \<subseteq> set l"
  by (auto simp: drop_cr_def strip_suffix_def dest: in_set_takeD split: option.splits if_splits)

lemma set_lines_acc: "l \<in> set (lines_acc acc s) \<Longrightarrow> set l \<subseteq> set acc \<union> set s"
proof (induction acc s rule: lines_acc.induct)
  case (2 acc c cs)
  then show ?case
    using set_drop_cr [of "rev acc"] by (fastforce split: if_splits)
qed (auto split: if_splits)

lemma set_lines: "l \<in> set (lines s) \<Longrightarrow> set l \<subseteq> set s"
  using set_lines_acc [of l "[]" s] by (simp add: lines_def)

lemma set_section_in: "section_in needle ls = Some b \<Longrightarrow> set b \<subseteq> insert nl (\<Union> (set ` set ls))"
proof (induction ls)
  case (Cons l ls)
  have "set (section_body ls) \<subseteq> insert nl (\<Union> (set ` set ls))"
  proof
    fix x assume "x \<in> set (section_body ls)"
    then have "x \<in> set (concat (map (\<lambda>l. l @ [nl]) (takeWhile (\<lambda>l. \<not> is_heading l) ls)))"
      using set_trim unfolding section_body_def by blast
    then show "x \<in> insert nl (\<Union> (set ` set ls))"
      by (auto dest: set_takeWhileD split: if_splits)
  qed
  then show ?case using Cons by (fastforce split: option.splits if_splits)
qed simp

lemma section_text_chars: "set (section_text (Some w) name) \<subseteq> insert nl (set (wi_content w))"
proof (cases "extract_section (wi_content w) name")
  case (Some b)
  then have "set b \<subseteq> insert nl (\<Union> (set ` set (lines (wi_content w))))"
    unfolding extract_section_def by (rule set_section_in)
  also have "\<dots> \<subseteq> insert nl (set (wi_content w))"
    using set_lines by blast
  finally show ?thesis by (simp add: section_text_def Some)
qed (simp add: section_text_def)

definition brace_free :: "work_item_context option \<Rightarrow> bool" where
  "brace_free wi \<longleftrightarrow> (case wi of None \<Rightarrow> True | Some w \<Rightarrow> CHR ''{'' \<notin> set (wi_content w))"

lemma brace_free_text: "brace_free wi \<Longrightarrow> CHR ''{'' \<notin> set (section_text wi name)"
proof (cases wi)
  case (Some w)
  moreover assume "brace_free wi"
  ultimately show ?thesis using section_text_chars [of w name] by (auto simp: brace_free_def)
qed (simp add: section_text_def)

lemma replace_section_Some:
  assumes "replace_section wi out = Some out'"
  obtains start e where "drop start out = section_open @ drop (start + length section_open) out"
    "out' = take start out @ section_text wi (section_name (take (start + e - (start + length section_open))
        (drop (start + length section_open) out))) @ drop (start + e + 2) out"
proof -
  from assms obtain start where s: "find_sub section_open out = Some start"
    by (auto simp: replace_section_def split: option.splits)
  then obtain e where "find_sub ''}}'' (drop start out) = Some e"
    using assms by (auto simp: replace_section_def split: option.splits)
  moreover from find_sub_Some [OF s] obtain suf where "out = take start out @ section_open @ suf"
    and "start + length section_open \<le> length out" by blast
  then have "drop start out = section_open @ suf"
    by (metis append_eq_conv_conj length_take min.absorb2 add_leD1)
  moreover from this have "suf = drop (start + length section_open) out"
    by (metis append_eq_conv_conj drop_drop add.commute)
  ultimately show thesis using that [of start e] assms s
    by (auto simp: replace_section_def Let_def)
qed

lemma replace_section_shrinks:
  assumes "brace_free wi" and "replace_section wi out = Some out'"
  shows "count_list out' (CHR ''{'') < count_list out (CHR ''{'')"
proof -
  let ?c = "\<lambda>s. count_list s (CHR ''{'')"
  obtain start e name where d: "drop start out = section_open @ drop (start + length section_open) out"
    and out': "out' = take start out @ section_text wi name @ drop (start + e + 2) out"
    using replace_section_Some [OF assms(2)] by metis
  have "?c (section_text wi name) = 0"
    using brace_free_text [OF assms(1), of name] by (simp add: count_list_0_iff)
  moreover have starts: "?c (drop (e + 2) (drop start out)) < ?c (drop start out)"
  proof -
    have "?c (drop start out) = ?c (take (e + 2) (drop start out)) + ?c (drop (e + 2) (drop start out))"
      by (metis append_take_drop_id count_list_append)
    moreover obtain r where "drop start out = CHR ''{'' # r"
      using d by (simp add: section_open_def)
    then have "0 < ?c (take (e + 2) (drop start out))" by simp
    ultimately show ?thesis by linarith
  qed
  ultimately have "?c out' = ?c (take start out) + ?c (drop (e + 2) (drop start out))"
    by (simp add: out' add.commute add.left_commute)
  also have "\<dots> < ?c (take start out) + ?c (drop start out)"
    using starts by simp
  also have "\<dots> = ?c out"
    by (metis append_take_drop_id count_list_append)
  finally show ?thesis .
qed

lemma section_loop_ends:
  assumes "brace_free wi"
  shows "count_list out (CHR ''{'') < fuel \<Longrightarrow>
    \<exists>r. section_loop fuel wi out = Some r \<and> replace_section wi r = None"
proof (induction fuel arbitrary: out)
  case (Suc fuel)
  show ?case
  proof (cases "replace_section wi out")
    case (Some out')
    with Suc replace_section_shrinks [OF assms Some] show ?thesis by simp
  qed simp
qed simp

lemma replace_section_None:
  assumes "replace_section wi out = None"
  shows "out \<noteq> p @ section_open @ q @ ''}}'' @ r"
proof
  assume out: "out = p @ section_open @ q @ ''}}'' @ r"
  then have "contains_sub out section_open" by (auto simp: contains_sub_iff)
  then obtain i where i: "find_sub section_open out = Some i" by (auto simp: contains_sub_def)
  have "i \<le> length p"
  proof (rule find_sub_le [OF i])
    show "out = p @ section_open @ (q @ ''}}'' @ r)" using out by simp
  qed
  then have "drop i out = drop i p @ section_open @ q @ ''}}'' @ r" using out by simp
  then have "contains_sub (drop i out) ''}}''"
    unfolding contains_sub_iff by (metis append.assoc)
  then show False using assms i by (auto simp: replace_section_def contains_sub_def Let_def split: option.splits)
qed

text \<open>
  Property C24. Rendering a prompt ends. When the work item's text contains no opening brace, or there
  is no work item, the placeholder loop returns within as many turns as the text it starts from is
  long, and the rendered prompt contains no complete section placeholder.
\<close>

theorem substitution_ends:
  assumes "case wi of None \<Rightarrow> True | Some w \<Rightarrow> CHR ''{'' \<notin> set (wi_content w)"
    and "length (plain_tokens wi template) < fuel"
  shows "\<exists>sub. substitute_prompt fuel template wi = Some sub \<and>
    (\<nexists>p q r. sub_rendered sub = p @ ''{{work_item_section:'' @ q @ ''}}'' @ r)"
proof -
  have b: "brace_free wi" using assms(1) by (simp add: brace_free_def)
  have "count_list (plain_tokens wi template) (CHR ''{'') < fuel"
    using assms(2) count_le_length le_less_trans by metis
  from section_loop_ends [OF b this] obtain r
    where "section_loop fuel wi (plain_tokens wi template) = Some r" "replace_section wi r = None" by blast
  then show ?thesis
    using replace_section_None [of wi r] by (simp add: substitute_prompt_def section_open_def)
qed

theorem substitution_ends_witness:
  "\<exists>sub. substitute_prompt 40 ''{{work_item_section:[Goal]}}''
     (Some \<lparr>wi_number = 42, wi_content = ''# Goal'' @ [nl] @ ''Do it''\<rparr>) = Some sub \<and>
     sub_rendered sub = ''Do it''"
proof -
  let ?wi = "Some \<lparr>wi_number = 42, wi_content = ''# Goal'' @ [nl] @ ''Do it''\<rparr>"
  have "plain_tokens ?wi ''{{work_item_section:[Goal]}}'' = ''{{work_item_section:[Goal]}}''" by code_simp
  then have "\<exists>sub. substitute_prompt 40 ''{{work_item_section:[Goal]}}'' ?wi = Some sub"
    using substitution_ends [of ?wi "''{{work_item_section:[Goal]}}''" 40] by auto
  moreover have "map_option sub_rendered (substitute_prompt 40 ''{{work_item_section:[Goal]}}'' ?wi)
      = Some ''Do it''" by code_simp
  ultimately show ?thesis by auto
qed

text \<open>
  Rendering need not end: a section that contains its own placeholder is inserted again and
  again, and no amount of fuel is enough.
\<close>

theorem self_reference_never_ends:
  "substitute_prompt fuel ''{{work_item_section:[A]}}''
     (Some \<lparr>wi_number = n, wi_content = ''# A'' @ [nl] @ ''{{work_item_section:[A]}}''\<rparr>) = None"
proof -
  let ?t = "''{{work_item_section:[A]}}''"
  let ?wi = "Some \<lparr>wi_number = n, wi_content = ''# A'' @ [nl] @ ?t\<rparr>"
  have "extract_section (''# A'' @ [nl] @ ?t) ''A'' = Some ?t" by code_simp
  then have body: "section_text ?wi ''A'' = ?t" by (simp add: section_text_def)
  have find: "find_sub section_open ?t = Some 0" "find_sub ''}}'' ?t = Some 23" "section_name ''[A]'' = ''A''"
    "take (0 + 23 - (0 + length section_open)) (drop (0 + length section_open) ?t) = ''[A]''"
    "take 0 ?t = []" "drop (0 + 23 + 2) ?t = []" "drop 0 ?t = ?t"
    by code_simp+
  have "replace_section ?wi ?t = Some ?t"
    unfolding replace_section_def find option.case Let_def body by simp
  then have "section_loop fuel ?wi ?t = None" by (induction fuel) simp_all
  moreover have "plain_tokens ?wi ?t = ?t"
    by (simp add: plain_tokens_def replace_token_absent contains_sub_def starts_with_def)
  ultimately show ?thesis by (simp add: substitute_prompt_def)
qed

end
