(* ===== verification/Byte_Streams.thy ===== *)
theory Byte_Streams
  imports Utf8
begin

text \<open>
  Output arrives in chunks that may end anywhere. Two consumers of it: the line framer of
  \<open>src/engine/agent_output/line_framer.rs\<close> and the ring buffer of
  \<open>src/engine/agent_runtime/output_tail.rs\<close>. Both read byte by byte, so what they produce depends
  on the bytes and not on the chunks; the locale \<open>chunked\<close> states that interface.
\<close>

subsection \<open>Consumers of chunks\<close>

fun push_chunks :: "(string \<Rightarrow> 's \<Rightarrow> 'o list \<times> 's) \<Rightarrow> string list \<Rightarrow> 's \<Rightarrow> 'o list \<times> 's" where
  "push_chunks push [] s = ([], s)"
| "push_chunks push (c # cs) s =
     (case push c s of (out, s') \<Rightarrow>
        (case push_chunks push cs s' of (out', s'') \<Rightarrow> (out @ out', s'')))"

locale chunked =
  fixes push :: "string \<Rightarrow> 's \<Rightarrow> 'o list \<times> 's"
  assumes push_Nil: "push [] s = ([], s)"
    and push_append: "push (a @ b) s =
      (case push a s of (out, s') \<Rightarrow> (case push b s' of (out', s'') \<Rightarrow> (out @ out', s'')))"
begin

lemma push_chunks_concat: "push_chunks push cs s = push (concat cs) s"
  by (induction cs arbitrary: s) (simp_all add: push_Nil push_append split: prod.splits)

lemma push_snoc:
  "push (a @ [b]) s =
     (case push a s of (out, s') \<Rightarrow> (case push [b] s' of (out', s'') \<Rightarrow> (out @ out', s'')))"
  by (rule push_append)

end

subsection \<open>Splitting at newlines, byte by byte\<close>

lemma split_on_snoc:
  "split_on c (s @ [b]) = (if b = c then split_on c s @ [[]]
     else butlast (split_on c s) @ [last (split_on c s) @ [b]])"
proof (induction s)
  case (Cons x s)
  then show ?case by (cases "split_on c s") auto
qed simp

subsection \<open>The line framer\<close>

definition max_line_bytes :: nat where
  "max_line_bytes = 64 * 1024"

record framed_line =
  fl_bytes :: string
  fl_truncated :: bool

record line_framer =
  lf_max :: nat
  lf_current :: string
  lf_truncated :: bool

definition framer_new :: "nat \<Rightarrow> line_framer" where
  "framer_new m = \<lparr>lf_max = m, lf_current = [], lf_truncated = False\<rparr>"

definition take_line :: "line_framer \<Rightarrow> framed_line \<times> line_framer" where
  "take_line f = (\<lparr>fl_bytes = lf_current f, fl_truncated = lf_truncated f\<rparr>,
     f\<lparr>lf_current := [], lf_truncated := False\<rparr>)"

fun framer_push :: "string \<Rightarrow> line_framer \<Rightarrow> framed_line list \<times> line_framer" where
  "framer_push [] f = ([], f)"
| "framer_push (b # bs) f =
     (if b = nl
      then (case take_line f of (l, f') \<Rightarrow> (case framer_push bs f' of (ls, f'') \<Rightarrow> (l # ls, f'')))
      else if \<not> lf_truncated f
      then framer_push bs
             (if length (lf_current f) < lf_max f then f\<lparr>lf_current := lf_current f @ [b]\<rparr>
              else f\<lparr>lf_truncated := True\<rparr>)
      else framer_push bs f)"

definition framer_finish :: "line_framer \<Rightarrow> framed_line option \<times> line_framer" where
  "framer_finish f =
     (if lf_current f = [] \<and> \<not> lf_truncated f then (None, f)
      else (case take_line f of (l, f') \<Rightarrow> (Some l, f')))"

interpretation framer: chunked framer_push
proof
  show "framer_push (a @ b) s =
      (case framer_push a s of (out, s') \<Rightarrow> (case framer_push b s' of (out', s'') \<Rightarrow> (out @ out', s'')))"
    for a b s
    by (induction a s rule: framer_push.induct) (auto split: prod.splits)
qed simp

text \<open>What one line of the input becomes.\<close>

definition clip :: "nat \<Rightarrow> string \<Rightarrow> framed_line" where
  "clip m l = \<lparr>fl_bytes = take m l, fl_truncated = m < length l\<rparr>"

lemma framer_state:
  "framer_push bs (framer_new m) = (map (clip m) (butlast (split_on nl bs)),
     \<lparr>lf_max = m, lf_current = take m (last (split_on nl bs)),
      lf_truncated = m < length (last (split_on nl bs))\<rparr>)"
proof (induction bs rule: rev_induct)
  case Nil
  then show ?case by (simp add: framer_new_def)
next
  case (snoc b bs)
  let ?l = "last (split_on nl bs)"
  have b: "map (clip m) (split_on nl bs) = map (clip m) (butlast (split_on nl bs)) @ [clip m ?l]"
    by (metis append_butlast_last_id list.simps(8) list.simps(9) map_append split_on_not_Nil)
  let ?f = "\<lparr>lf_max = m, lf_current = take m ?l, lf_truncated = m < length ?l\<rparr>"
  show ?case
  proof (cases "b = nl")
    case True
    have "framer_push [b] ?f = ([clip m ?l], \<lparr>lf_max = m, lf_current = [], lf_truncated = False\<rparr>)"
      by (simp add: True take_line_def clip_def)
    then show ?thesis by (simp add: framer.push_snoc snoc split_on_snoc True b)
  next
    case False
    then have "framer_push [b] ?f = ([], \<lparr>lf_max = m, lf_current = take m (?l @ [b]),
        lf_truncated = m < length (?l @ [b])\<rparr>)" by auto
    then show ?thesis using False by (simp add: framer.push_snoc snoc split_on_snoc)
  qed
qed

definition frame_stream :: "nat \<Rightarrow> string list \<Rightarrow> framed_line list" where
  "frame_stream m chunks =
     (case push_chunks framer_push chunks (framer_new m) of (ls, f) \<Rightarrow>
        (case fst (framer_finish f) of None \<Rightarrow> ls | Some l \<Rightarrow> ls @ [l]))"

text \<open>
  Property C25. However a stream is cut into chunks, the framer produces its lines: the text between
  newlines, an empty last one excepted, each with at most \<open>m\<close> of its leading bytes and marked exactly
  when some are missing.
\<close>

theorem framer_is_lines:
  "frame_stream m chunks =
     (let ls = split_on nl (concat chunks)
      in map (\<lambda>l. \<lparr>fl_bytes = take m l, fl_truncated = m < length l\<rparr>)
           (if last ls = [] then butlast ls else ls))"
proof -
  let ?ls = "split_on nl (concat chunks)"
  have "map (clip m) ?ls = map (clip m) (butlast ?ls) @ [clip m (last ?ls)]"
    by (metis append_butlast_last_id list.simps(8) list.simps(9) map_append split_on_not_Nil)
  then have "frame_stream m chunks = map (clip m) (if last ?ls = [] then butlast ?ls else ?ls)"
    by (simp add: frame_stream_def framer.push_chunks_concat framer_state framer_finish_def take_line_def)
      (auto simp: clip_def)
  then show ?thesis by (simp add: Let_def clip_def [abs_def])
qed

subsection \<open>The output tail\<close>

record output_tail =
  ot_capacity :: nat
  ot_lines :: "string list"
  ot_partial :: string

definition decode_line :: "string \<Rightarrow> string" where
  "decode_line bs = drop_cr (from_utf8_lossy bs)"

definition tail_new :: "nat \<Rightarrow> output_tail" where
  "tail_new capacity = \<lparr>ot_capacity = max capacity 1, ot_lines = [], ot_partial = []\<rparr>"

definition default_output_tail_lines :: nat where
  "default_output_tail_lines = 100"

definition tail_commit :: "string \<Rightarrow> output_tail \<Rightarrow> output_tail" where
  "tail_commit line t =
     t\<lparr>ot_lines := (if ot_capacity t \<le> length (ot_lines t) then tl (ot_lines t) else ot_lines t) @ [line],
       ot_partial := []\<rparr>"

definition tail_byte :: "char \<Rightarrow> output_tail \<Rightarrow> output_tail" where
  "tail_byte b t =
     (if b = nl then tail_commit (decode_line (ot_partial t)) t
      else
        (let t' = t\<lparr>ot_partial := ot_partial t @ [b]\<rparr>
         in if max_line_bytes \<le> length (ot_partial t') then tail_commit (decode_line (ot_partial t')) t'
            else t'))"

definition tail_push :: "string \<Rightarrow> output_tail \<Rightarrow> output_tail" where
  "tail_push bs t = fold tail_byte bs t"

definition tail_snapshot :: "output_tail \<Rightarrow> string list" where
  "tail_snapshot t = ot_lines t @ (if ot_partial t = [] then [] else [decode_line (ot_partial t)])"

definition tail_snapshot_text :: "output_tail \<Rightarrow> string" where
  "tail_snapshot_text t = concat (map (\<lambda>l. l @ [nl]) (tail_snapshot t))"

interpretation tail: chunked "\<lambda>bs t. ([] :: unit list, tail_push bs t)"
  by unfold_locales (simp_all add: tail_push_def)

text \<open>The lines a stream is committed as: what lies between newlines, cut after every \<open>m\<close> bytes.\<close>

function wrap :: "nat \<Rightarrow> string \<Rightarrow> string list" where
  "wrap m s = (if m = 0 \<or> length s < m then [s] else take m s # wrap m (drop m s))"
  by pat_completeness auto
termination by (relation "measure (\<lambda>(m, s). length s)") auto

declare wrap.simps [simp del]

definition take_last :: "nat \<Rightarrow> 'a list \<Rightarrow> 'a list" where
  "take_last n xs = drop (length xs - n) xs"

definition committed :: "string \<Rightarrow> string list" where
  "committed bs = concat (map (wrap max_line_bytes) (split_on nl bs))"

lemma wrap_not_Nil [simp]: "wrap m s \<noteq> []"
  by (subst wrap.simps) simp

lemma wrap_last_short: "0 < m \<Longrightarrow> length (last (wrap m s)) < m"
proof (induction m s rule: wrap.induct)
  case (1 m s)
  then show ?case by (subst wrap.simps) auto
qed

lemma wrap_snoc:
  "0 < m \<Longrightarrow> wrap m (s @ [b]) = butlast (wrap m s) @
     (if m \<le> length (last (wrap m s) @ [b]) then [last (wrap m s) @ [b], []]
      else [last (wrap m s) @ [b]])"
proof (induction m s rule: wrap.induct)
  case (1 m s)
  show ?case
  proof (cases "length s < m")
    case True
    then have s: "wrap m s = [s]" by (subst wrap.simps) simp
    show ?thesis
    proof (cases "Suc (length s) < m")
      case False
      then have "wrap m (s @ [b]) = take m (s @ [b]) # wrap m (drop m (s @ [b]))"
        by (subst wrap.simps) (use 1(2) in simp)
      moreover have "take m (s @ [b]) = s @ [b]" "drop m (s @ [b]) = []" using False True by auto
      moreover have "wrap m [] = [[]]" by (subst wrap.simps) (use 1(2) in simp)
      ultimately show ?thesis using False s by simp
    qed (subst wrap.simps, simp add: s)
  next
    case False
    then have s: "wrap m s = take m s # wrap m (drop m s)"
      by (subst wrap.simps) (use 1(2) in simp)
    have "wrap m (s @ [b]) = take m s # wrap m (drop m s @ [b])"
      by (subst wrap.simps) (use False 1(2) in simp)
    then show ?thesis using 1 False by (simp add: s)
  qed
qed

lemma committed_not_Nil [simp]: "committed bs \<noteq> []"
  by (cases "split_on nl bs") (simp_all add: committed_def)

lemma committed_split:
  "committed bs = concat (map (wrap max_line_bytes) (butlast (split_on nl bs)))
     @ wrap max_line_bytes (last (split_on nl bs))"
proof -
  have "committed bs = concat (map (wrap max_line_bytes) (butlast (split_on nl bs) @ [last (split_on nl bs)]))"
    unfolding committed_def by simp
  then show ?thesis by (simp only: map_append concat_append list.map concat.simps append_Nil2)
qed

lemma committed_snoc:
  "committed (bs @ [b]) =
     (if b = nl then committed bs @ [[]]
      else butlast (committed bs) @
        (if max_line_bytes \<le> length (last (committed bs) @ [b]) then [last (committed bs) @ [b], []]
         else [last (committed bs) @ [b]]))"
proof -
  let ?m = max_line_bytes
  have m: "0 < ?m" by (simp add: max_line_bytes_def)
  have nil: "wrap ?m [] = [[]]" by (subst wrap.simps) (use m in simp)
  let ?i = "butlast (split_on nl bs)" and ?l = "last (split_on nl bs)"
  note c = committed_split [of bs]
  show ?thesis
  proof (cases "b = nl")
    case False
    then have "committed (bs @ [b]) = concat (map (wrap ?m) ?i) @ wrap ?m (?l @ [b])"
      by (simp add: committed_split [of "bs @ [b]"] split_on_snoc)
    then show ?thesis using False by (simp add: c wrap_snoc [OF m] butlast_append)
  qed (simp add: committed_def split_on_snoc nil)
qed

lemma take_last_snoc:
  "0 < n \<Longrightarrow> take_last n (xs @ [x]) =
     (if n \<le> length (take_last n xs) then tl (take_last n xs) else take_last n xs) @ [x]"
  by (auto simp: take_last_def tl_drop drop_Suc [symmetric] Suc_diff_le)

lemma tail_state:
  "tail_push bs (tail_new capacity) = \<lparr>ot_capacity = max capacity 1,
     ot_lines = take_last (max capacity 1) (map decode_line (butlast (committed bs))),
     ot_partial = last (committed bs)\<rparr>"
proof (induction bs rule: rev_induct)
  case Nil
  have "committed [] = [[]]"
    by (simp add: committed_def) (subst wrap.simps, simp add: max_line_bytes_def)
  then show ?case by (simp add: tail_push_def tail_new_def take_last_def)
next
  case (snoc b bs)
  have c: "committed bs = butlast (committed bs) @ [last (committed bs)]" by simp
  have m: "map decode_line (committed bs)
      = map decode_line (butlast (committed bs)) @ [decode_line (last (committed bs))]"
    by (metis c list.simps(8,9) map_append)
  have step: "tail_push (bs @ [b]) t = tail_byte b (tail_push bs t)" for t
    by (simp add: tail_push_def)
  show ?case
    unfolding step snoc
    by (auto simp: tail_byte_def tail_commit_def Let_def committed_snoc m take_last_snoc butlast_append)
qed

text \<open>
  Property C26. The tail of a container's output is what it claims to be, in any chunking: the last
  \<open>capacity\<close> of the lines the output falls into - cut at newlines and after every 64 KiB - and the
  unfinished line after them; the memory it holds is bounded.
\<close>

theorem tail_is_last_lines:
  "let t = snd (push_chunks (\<lambda>bs t. ([] :: unit list, tail_push bs t)) chunks (tail_new capacity));
       ls = concat (map (wrap max_line_bytes) (split_on nl (concat chunks)))
   in tail_snapshot t = take_last (max capacity 1) (map decode_line (butlast ls)) @
        (if last ls = [] then [] else [decode_line (last ls)]) \<and>
      length (ot_lines t) \<le> max capacity 1 \<and> length (ot_partial t) < max_line_bytes"
proof -
  let ?t = "snd (push_chunks (\<lambda>bs t. ([] :: unit list, tail_push bs t)) chunks (tail_new capacity))"
  let ?ls = "committed (concat chunks)"
  have t: "?t = \<lparr>ot_capacity = max capacity 1,
     ot_lines = take_last (max capacity 1) (map decode_line (butlast ?ls)), ot_partial = last ?ls\<rparr>"
    by (simp add: tail.push_chunks_concat tail_state)
  have "last ?ls = last (wrap max_line_bytes (last (split_on nl (concat chunks))))"
    by (simp add: committed_split)
  then have "length (last ?ls) < max_line_bytes"
    using wrap_last_short by (simp add: max_line_bytes_def)
  moreover have "length (take_last n xs) \<le> n" for n and xs :: "string list"
    by (simp add: take_last_def)
  ultimately show ?thesis
    unfolding Let_def committed_def [symmetric] t by (simp add: tail_snapshot_def)
qed

end
