(* ===== verification/Attach_Protocol.thy ===== *)
theory Attach_Protocol
  imports Strings "HOL-Library.Word"
begin

text \<open>
  \<open>src/engine/container/attach_protocol.rs\<close>: the frames of an attach session. A reader is the bytes
  that still come before the connection ends, a writer the bytes sent so far; timeouts are left out.
\<close>

datatype io_error = UnexpectedEof | InvalidData string

datatype tag = Output | Stdin | Resize | Stderr | Exit | FailedTag | Lagged

fun tag_byte :: "tag \<Rightarrow> nat" where
  "tag_byte Output = 0"
| "tag_byte Stdin = 1"
| "tag_byte Resize = 2"
| "tag_byte Stderr = 3"
| "tag_byte Exit = 4"
| "tag_byte FailedTag = 5"
| "tag_byte Lagged = 6"

definition tag_from_u8 :: "nat \<Rightarrow> tag option" where
  "tag_from_u8 v =
     (if v = 0 then Some Output else if v = 1 then Some Stdin else if v = 2 then Some Resize
      else if v = 3 then Some Stderr else if v = 4 then Some Exit else if v = 5 then Some FailedTag
      else if v = 6 then Some Lagged else None)"

definition max_frame :: nat where
  "max_frame = 2 ^ 20"

text \<open>\<open>to_le_bytes\<close> and \<open>from_le_bytes\<close> for integers of \<open>k\<close> bytes.\<close>

fun le_bytes :: "nat \<Rightarrow> nat \<Rightarrow> string" where
  "le_bytes 0 n = []"
| "le_bytes (Suc k) n = char_of n # le_bytes k (n div 256)"

definition from_le :: "string \<Rightarrow> nat" where
  "from_le bs = foldr (\<lambda>b n. of_char b + 256 * n) bs 0"

definition resize_payload :: "16 word \<Rightarrow> 16 word \<Rightarrow> string" where
  "resize_payload cols rows = le_bytes 2 (unat cols) @ le_bytes 2 (unat rows)"

definition parse_resize :: "string \<Rightarrow> (16 word \<times> 16 word) option" where
  "parse_resize p =
     (case p of [c0, c1, r0, r1] \<Rightarrow> Some (word_of_nat (from_le [c0, c1]), word_of_nat (from_le [r0, r1])) | _ \<Rightarrow> None)"

definition frame_bytes :: "tag \<Rightarrow> string \<Rightarrow> string" where
  "frame_bytes t p = char_of (tag_byte t) # le_bytes 4 (length p) @ p"

definition write_frame :: "string \<Rightarrow> tag \<Rightarrow> string \<Rightarrow> (io_error, string) result" where
  "write_frame sent t p =
     (if max_frame < length p then Inl (InvalidData ''attach frame exceeds bound'')
      else Inr (sent @ frame_bytes t p))"

text \<open>\<open>slice::chunks\<close>.\<close>

function chunks_of :: "nat \<Rightarrow> 'a list \<Rightarrow> 'a list list" where
  "chunks_of n xs = (if xs = [] \<or> n = 0 then [] else take n xs # chunks_of n (drop n xs))"
  by pat_completeness auto
termination by (relation "measure (\<lambda>(n, xs). length xs)") auto

declare chunks_of.simps [simp del]

fun write_frames :: "string \<Rightarrow> tag \<Rightarrow> string list \<Rightarrow> (io_error, string) result" where
  "write_frames sent t [] = Inr sent"
| "write_frames sent t (p # ps) = rbind (write_frame sent t p) (\<lambda>sent'. write_frames sent' t ps)"

definition write_chunked :: "string \<Rightarrow> tag \<Rightarrow> string \<Rightarrow> (io_error, string) result" where
  "write_chunked sent t bytes =
     (if bytes = [] then write_frame sent t [] else write_frames sent t (chunks_of max_frame bytes))"

definition read_exact :: "nat \<Rightarrow> string \<Rightarrow> (io_error, string \<times> string) result" where
  "read_exact n bs = (if length bs < n then Inl UnexpectedEof else Inr (take n bs, drop n bs))"

definition read_frame :: "string \<Rightarrow> (io_error, (tag \<times> string) \<times> string) result" where
  "read_frame bs =
     rbind (read_exact 1 bs) (\<lambda>(tb, bs1).
     rbind (read_exact 4 bs1) (\<lambda>(lb, bs2).
       case tag_from_u8 (of_char (hd tb)) of
         None \<Rightarrow> Inl (InvalidData ''unknown attach frame tag'')
       | Some t \<Rightarrow>
           if max_frame < from_le lb then Inl (InvalidData ''attach frame exceeds bound'')
           else rbind (read_exact (from_le lb) bs2) (\<lambda>(p, rest). Inr ((t, p), rest))))"

fun is_protocol_violation :: "io_error \<Rightarrow> bool" where
  "is_protocol_violation (InvalidData _) = True"
| "is_protocol_violation UnexpectedEof = False"

text \<open>A client's loop: frames until the connection ends cleanly between two frames.\<close>

fun read_frames :: "nat \<Rightarrow> string \<Rightarrow> (io_error, (tag \<times> string) list) result" where
  "read_frames 0 bs = Inr []"
| "read_frames (Suc n) bs =
     (if bs = [] then Inr []
      else rbind (read_frame bs) (\<lambda>(f, rest). rbind (read_frames n rest) (\<lambda>fs. Inr (f # fs))))"

subsection \<open>Round trips\<close>

lemma tag_round_trip [simp]: "tag_from_u8 (tag_byte t) = Some t"
  by (cases t) (simp_all add: tag_from_u8_def)

lemma tag_from_u8_Some: "tag_from_u8 v = Some t \<longleftrightarrow> v = tag_byte t"
  by (cases t) (auto simp: tag_from_u8_def split: if_splits)

lemma tag_byte_less: "tag_byte t < 256"
  by (cases t) simp_all

lemma length_le_bytes [simp]: "length (le_bytes k n) = k"
  by (induction k arbitrary: n) simp_all

lemma from_le_simps [simp]: "from_le [] = 0" "from_le (b # bs) = of_char b + 256 * from_le bs"
  by (simp_all add: from_le_def)

lemma from_le_le_bytes [simp]: "n < 256 ^ k \<Longrightarrow> from_le (le_bytes k n) = n"
proof (induction k arbitrary: n)
  case (Suc k)
  then have "n div 256 < 256 ^ k" by (simp add: less_mult_imp_div_less mult.commute)
  then show ?case using Suc.IH by simp
qed simp

lemma le_bytes_from_le [simp]: "le_bytes (length bs) (from_le bs) = bs"
proof (induction bs)
  case (Cons b bs)
  have "char_of (of_char b + 256 * m) = b" for m :: nat
    by (metis char_of_char char_of_mod_256 mod_mult_self2)
  moreover have "(of_char b + 256 * m) div 256 = m" for m :: nat
    using nat_of_char_less_256 [of b] by (simp add: div_add1_eq)
  ultimately show ?case using Cons by simp
qed simp

lemma le_bytes_2: "le_bytes 2 n = [char_of n, char_of (n div 256)]"
  by (simp add: numeral_2_eq_2)

lemma u16_round_trip: "word_of_nat (from_le [char_of (unat w), char_of (unat w div 256)]) = (w :: 16 word)"
proof -
  have "unat w < 256 ^ 2" using unsigned_less [of w, where ?'a = nat] by simp
  then have "from_le (le_bytes 2 (unat w)) = unat w" by (rule from_le_le_bytes)
  then have "from_le [char_of (unat w), char_of (unat w div 256)] = unat w" unfolding le_bytes_2 .
  then show ?thesis by simp
qed

lemma resize_round_trip: "parse_resize (resize_payload cols rows) = Some (cols, rows)"
  unfolding parse_resize_def resize_payload_def le_bytes_2 append.simps list.case u16_round_trip
  by (rule refl)

lemma read_exact_append [simp]: "read_exact (length a) (a @ b) = Inr (a, b)"
  by (simp add: read_exact_def)

lemma read_exact_Inr: "read_exact n bs = Inr (a, b) \<longleftrightarrow> bs = a @ b \<and> length a = n"
  by (auto simp: read_exact_def)

lemma read_frame_bytes:
  assumes "length p \<le> max_frame"
  shows "read_frame (frame_bytes t p @ rest) = Inr ((t, p), rest)"
proof -
  have "tag_byte t mod 256 = tag_byte t" using tag_byte_less [of t] by simp
  moreover have "length p < 256 ^ 4" using assms by (simp add: max_frame_def)
  moreover have "read_exact 4 (le_bytes 4 (length p) @ p @ rest) = Inr (le_bytes 4 (length p), p @ rest)"
    using read_exact_append [of "le_bytes 4 (length p)"] by simp
  ultimately show ?thesis
    using assms by (simp add: read_frame_def frame_bytes_def read_exact_def [of "Suc 0"] del: le_bytes.simps)
qed

lemma read_frame_Inr:
  assumes "read_frame bs = Inr ((t, p), rest)"
  shows "bs = frame_bytes t p @ rest \<and> length p \<le> max_frame"
proof -
  from assms obtain tb bs1 lb bs2 where 1: "bs = tb @ bs1" "length tb = 1"
    and 4: "bs1 = lb @ bs2" "length lb = 4" and t: "tag_from_u8 (of_char (hd tb)) = Some t"
    and len: "\<not> max_frame < from_le lb" and p: "bs2 = p @ rest" "length p = from_le lb"
    by (auto simp: read_frame_def result_simps read_exact_Inr split: option.splits if_splits)
  from 1(2) obtain c where "tb = [c]" by (auto simp: length_Suc_conv)
  then have "tb = [char_of (tag_byte t)]" using t by (simp add: tag_from_u8_Some) (metis char_of_char)
  moreover have "le_bytes 4 (length p) = lb" using le_bytes_from_le [of lb] 4(2) p(2) by simp
  ultimately show ?thesis using 1 4 p len by (simp add: frame_bytes_def del: le_bytes.simps)
qed

text \<open>
  Property C27. Frames are exactly what is written: reading succeeds if and only if the input starts with the
  encoding of a frame within the bound, and then it returns that frame and leaves the bytes after it.
\<close>

theorem read_frame_iff:
  "read_frame bs = Inr ((t, p), rest) \<longleftrightarrow>
     (\<exists>out. write_frame [] t p = Inr out \<and> bs = out @ rest)"
  using read_frame_Inr [of bs t p rest] read_frame_bytes [of p t rest]
  by (auto simp: write_frame_def not_less)

lemma write_frames_Inr:
  "\<forall>p \<in> set ps. length p \<le> max_frame \<Longrightarrow>
     write_frames sent t ps = Inr (sent @ concat (map (frame_bytes t) ps))"
  by (induction ps arbitrary: sent) (auto simp: write_frame_def)

lemma read_frames_written:
  "\<forall>p \<in> set ps. length p \<le> max_frame \<Longrightarrow> length ps \<le> n \<Longrightarrow>
     read_frames n (concat (map (frame_bytes t) ps)) = Inr (map (Pair t) ps)"
proof (induction ps arbitrary: n)
  case Nil
  then show ?case by (cases n) simp_all
next
  case (Cons p ps)
  then obtain m where n: "n = Suc m" by (cases n) auto
  have "frame_bytes t p \<noteq> []" by (simp add: frame_bytes_def)
  then show ?case
    using Cons by (simp add: n read_frame_bytes)
qed

lemma chunks_of_concat: "0 < n \<Longrightarrow> concat (chunks_of n xs) = xs"
proof (induction n xs rule: chunks_of.induct)
  case (1 n xs)
  then show ?case by (subst chunks_of.simps) simp
qed

lemma chunks_of_bound: "p \<in> set (chunks_of n xs) \<Longrightarrow> length p \<le> n"
proof (induction n xs rule: chunks_of.induct)
  case (1 n xs)
  show ?case
  proof (cases "xs = [] \<or> n = 0")
    case False
    then have "chunks_of n xs = take n xs # chunks_of n (drop n xs)" by (subst chunks_of.simps) simp
    then show ?thesis using 1 False by auto
  qed (use 1(2) in \<open>subst (asm) chunks_of.simps, simp\<close>)
qed

text \<open>
  Output of any size crosses an attach session: sent in chunks it is never refused, and the
  client that reads frames to the end gets frames of that tag only, none above the bound, whose
  payloads are the output.
\<close>

theorem chunked_output_round_trip:
  "\<exists>sent fs. write_chunked [] t bytes = Inr sent \<and>
     read_frames (length sent) sent = Inr (map (Pair t) fs) \<and> concat fs = bytes \<and>
     list_all (\<lambda>p. length p \<le> max_frame) fs"
proof -
  let ?ps = "if bytes = [] then [[]] else chunks_of max_frame bytes"
  have m: "0 < max_frame" by (simp add: max_frame_def)
  have b: "\<forall>p \<in> set ?ps. length p \<le> max_frame" using chunks_of_bound by auto
  let ?sent = "concat (map (frame_bytes t) ?ps)"
  have "write_chunked [] t bytes = write_frames [] t ?ps"
    by (simp add: write_chunked_def write_frame_def)
  then have w: "write_chunked [] t bytes = Inr ?sent" using write_frames_Inr [OF b] by simp
  have "length ps \<le> length (concat (map (frame_bytes t) ps))" for ps
    by (induction ps) (simp_all add: frame_bytes_def)
  then have "read_frames (length ?sent) ?sent = Inr (map (Pair t) ?ps)"
    by (rule read_frames_written [OF b])
  moreover have "concat ?ps = bytes" using chunks_of_concat [OF m, of bytes] by (cases "bytes = []") simp_all
  moreover have "list_all (\<lambda>p. length p \<le> max_frame) ?ps" using b by (simp only: list_all_iff)
  ultimately show ?thesis using w by blast
qed

end
