(* ===== verification/Redaction.thy ===== *)
theory Redaction
  imports Utf8
begin

text \<open>
  \<open>src/engine/auth/redaction.rs\<close>: the secrets of a run, and the texts they are cut from before any
  frontend, log or file sees them.
\<close>

definition mark :: string where
  "mark = ''***''"

definition min_len :: nat where
  "min_len = 1"

text \<open>\<open>add\<close>: the list is kept longest first; equal lengths stay in the order they came.\<close>

definition longest_first :: "string list \<Rightarrow> string list" where
  "longest_first = sort_key (\<lambda>s. - int (length s))"

definition redaction_add :: "string \<Rightarrow> string list \<Rightarrow> string list" where
  "redaction_add secret secrets =
     (if length (utf8_chars secret) < min_len then secrets
      else if secret \<in> set secrets then secrets
      else longest_first (secrets @ [secret]))"

text \<open>\<open>str::replace\<close> replaces the matches that do not overlap, from the left.\<close>

definition redact :: "string list \<Rightarrow> string \<Rightarrow> string" where
  "redact secrets text =
     fold (\<lambda>secret out. if contains_sub out secret then replace_token secret mark out else out)
       secrets text"

function replace_scan :: "string \<Rightarrow> string \<Rightarrow> string \<Rightarrow> string" where
  "replace_scan needle repl [] = []"
| "replace_scan needle repl (c # cs) =
     (if needle \<noteq> [] \<and> starts_with (c # cs) needle
      then repl @ replace_scan needle repl (drop (length needle) (c # cs))
      else c # replace_scan needle repl cs)"
  by pat_completeness auto
termination
  by (relation "measure (\<lambda>(needle, repl, s). length s)") (auto simp: less_Suc_eq_le neq_Nil_conv)

definition replace_bytes :: "string \<Rightarrow> string \<Rightarrow> string \<Rightarrow> string" where
  "replace_bytes haystack needle repl =
     (if needle = [] \<or> length haystack < length needle then haystack
      else replace_scan needle repl haystack)"

definition redact_bytes :: "string list \<Rightarrow> string \<Rightarrow> string" where
  "redact_bytes secrets bytes = fold (\<lambda>secret out. replace_bytes out secret mark) secrets bytes"

subsection \<open>The two variants agree\<close>

lemma find_sub_step:
  "find_sub needle (c # cs) = Some i \<Longrightarrow> \<not> starts_with (c # cs) needle \<Longrightarrow>
     \<exists>j. i = Suc j \<and> find_sub needle cs = Some j"
  by auto

lemma replace_scan_token:
  "needle \<noteq> [] \<Longrightarrow> replace_scan needle repl s = replace_token needle repl s"
proof (induction needle repl s rule: replace_scan.induct)
  case (1 needle repl)
  then show ?case by (subst replace_token.simps) simp
next
  case (2 needle repl c cs)
  show ?case
  proof (cases "starts_with (c # cs) needle")
    case True
    then have "find_sub needle (c # cs) = Some 0" by simp
    then have "replace_token needle repl (c # cs)
        = repl @ replace_token needle repl (drop (length needle) (c # cs))"
      by (subst replace_token.simps) (use 2(3) in simp)
    then show ?thesis using 2 True by simp
  next
    case False
    have "replace_token needle repl (c # cs) = c # replace_token needle repl cs"
    proof (cases "find_sub needle cs")
      case None
      then show ?thesis
        using False 2(3) by (simp add: replace_token.simps [of needle])
    next
      case (Some j)
      then show ?thesis
        using False 2(3) by (simp add: replace_token.simps [of needle])
    qed
    then show ?thesis using 2 False by simp
  qed
qed

lemma replace_scan_short: "length s < length needle \<Longrightarrow> replace_scan needle repl s = s"
proof (induction s)
  case (Cons c cs)
  have "\<not> starts_with (c # cs) needle"
  proof
    assume "starts_with (c # cs) needle"
    then obtain r where "c # cs = needle @ r" by (auto simp: starts_with_iff)
    then have "length needle \<le> length (c # cs)" by simp
    then show False using Cons.prems by simp
  qed
  then show ?case using Cons by simp
qed simp

lemma replace_bytes_token:
  assumes "needle \<noteq> []" shows "replace_bytes s needle repl = replace_token needle repl s"
proof (cases "length s < length needle")
  case True
  then show ?thesis
    using replace_scan_short [OF True, of repl] replace_scan_token [OF assms, of repl s]
    by (simp add: replace_bytes_def)
qed (use assms in \<open>simp add: replace_bytes_def replace_scan_token\<close>)

lemma set_redaction_add:
  "set (redaction_add a ss) = (if a = [] then set ss else insert a (set ss))"
proof (cases a)
  case Nil
  then show ?thesis by (simp add: redaction_add_def min_len_def utf8_chars_def)
next
  case (Cons c cs)
  then have "utf8_chars a \<noteq> []" by (simp add: utf8_chars_def)
  then have "\<not> length (utf8_chars a) < min_len" by (cases "utf8_chars a") (simp_all add: min_len_def)
  then show ?thesis using Cons by (simp add: redaction_add_def longest_first_def insert_absorb)
qed

lemma added_set: "set (fold redaction_add added ss) = set added - {[]} \<union> set ss"
  by (induction added arbitrary: ss) (simp_all add: set_redaction_add insert_Diff_if)

subsection \<open>No secret gets through\<close>

text \<open>A text without a star occurs in a redacted text only where it occurred before.\<close>

lemma scan_prefix:
  "CHR ''*'' \<notin> set u \<Longrightarrow> starts_with (replace_scan needle mark s) u \<Longrightarrow> starts_with s u"
proof (induction u arbitrary: s)
  case Nil
  then show ?case by (simp add: starts_with_def)
next
  case (Cons a u)
  from Cons.prems(2) obtain c cs where s: "s = c # cs" by (cases s) (auto simp: starts_with_def)
  show ?case
  proof (cases "needle \<noteq> [] \<and> starts_with s needle")
    case True
    then have "replace_scan needle mark s = mark @ replace_scan needle mark (drop (length needle) s)"
      by (simp add: s)
    then have "a = CHR ''*''" using Cons.prems(2) by (simp add: starts_with_def mark_def)
    then show ?thesis using Cons.prems(1) by simp
  next
    case False
    then have "replace_scan needle mark s = c # replace_scan needle mark cs" by (simp only: s replace_scan.simps if_False)
    then show ?thesis using Cons by (simp add: starts_with_def s)
  qed
qed

lemma contains_Cons: "contains_sub (c # cs) u \<longleftrightarrow> starts_with (c # cs) u \<or> contains_sub cs u"
  by (auto simp: contains_sub_def)

lemma contains_mark:
  assumes "u \<noteq> []" and "CHR ''*'' \<notin> set u"
  shows "contains_sub (mark @ t) u \<longleftrightarrow> contains_sub t u"
proof -
  have "\<not> starts_with (CHR ''*'' # x) u" for x using assms by (cases u) (auto simp: starts_with_def)
  then show ?thesis by (simp add: mark_def contains_Cons)
qed

lemma contains_drop: "contains_sub (drop n s) u \<Longrightarrow> contains_sub s u"
  unfolding contains_sub_iff by (metis append_take_drop_id append.assoc)

lemma scan_contains:
  assumes u: "u \<noteq> []" "CHR ''*'' \<notin> set u"
  shows "contains_sub (replace_scan needle mark s) u \<Longrightarrow> contains_sub s u"
proof (induction needle mark s rule: replace_scan.induct)
  case (2 needle c cs)
  show ?case
  proof (cases "needle \<noteq> [] \<and> starts_with (c # cs) needle")
    case True
    then have "contains_sub (replace_scan needle mark (drop (length needle) (c # cs))) u"
      using 2(3) contains_mark [OF u] by simp
    then have "contains_sub (drop (length needle) (c # cs)) u" using 2(1) True by blast
    then show ?thesis by (rule contains_drop)
  next
    case False
    then have e: "replace_scan needle mark (c # cs) = c # replace_scan needle mark cs"
      by (simp only: replace_scan.simps if_False)
    from 2(3) consider (here) "starts_with (replace_scan needle mark (c # cs)) u"
      | (later) "contains_sub (replace_scan needle mark cs) u"
      unfolding e contains_Cons by blast
    then show ?thesis
    proof cases
      case here
      then show ?thesis using scan_prefix [OF u(2)] contains_Cons by blast
    next
      case later
      then show ?thesis using 2(2) False contains_Cons by blast
    qed
  qed
qed simp

lemma scan_removes:
  assumes u: "u \<noteq> []" "CHR ''*'' \<notin> set u"
  shows "\<not> contains_sub (replace_scan u mark s) u"
proof (induction s rule: length_induct)
  case (1 s)
  show ?case
  proof (cases s)
    case Nil
    then show ?thesis using u by (simp add: contains_sub_def)
  next
    case (Cons c cs)
    show ?thesis
    proof (cases "starts_with s u")
      case True
      have "length (drop (length u) s) < length s" using u(1) Cons by (cases u) auto
      then have "\<not> contains_sub (replace_scan u mark (drop (length u) s)) u" using 1 by blast
      then show ?thesis using True u contains_mark [OF u] by (simp add: Cons)
    next
      case False
      then have "\<not> starts_with (replace_scan u mark s) u" using scan_prefix [OF u(2)] by blast
      then show ?thesis using False 1 by (simp add: Cons contains_Cons)
    qed
  qed
qed

text \<open>
  Redacting the raw bytes of an output and redacting it as text give the same bytes, for
  every set of secrets that \<open>add\<close> can have built.
\<close>

theorem redact_variants_agree:
  "redact_bytes (fold redaction_add added []) text = redact (fold redaction_add added []) text"
proof -
  have "fold (\<lambda>secret out. replace_bytes out secret mark) ss t
      = fold (\<lambda>secret out. if contains_sub out secret then replace_token secret mark out else out) ss t"
    if "[] \<notin> set ss" for ss t
    using that
  proof (induction ss arbitrary: t)
    case (Cons s ss)
    then have "replace_bytes t s mark = (if contains_sub t s then replace_token s mark t else t)"
      using replace_token_absent [of t s mark] replace_bytes_token [of s t mark] by auto
    then show ?case using Cons by (simp only: fold.simps comp_apply) simp
  qed simp
  moreover have "[] \<notin> set (fold redaction_add added [])"
    by (simp add: added_set)
  ultimately show ?thesis by (simp add: redact_bytes_def redact_def)
qed

subsection \<open>A secret is masked whole\<close>

text \<open>A character that no secret contains separates: what is left and what is right of it are redacted apart.\<close>

lemma starts_with_across:
  "d \<notin> set u \<Longrightarrow> starts_with (x @ d # y) u \<longleftrightarrow> starts_with x u"
proof (induction u arbitrary: x)
  case (Cons a u)
  then show ?case by (cases x) (auto simp: starts_with_def)
qed (simp add: starts_with_def)

lemma scan_across:
  "d \<notin> set needle \<Longrightarrow>
     replace_scan needle repl (x @ d # y) = replace_scan needle repl x @ d # replace_scan needle repl y"
proof (induction needle repl x rule: replace_scan.induct)
  case (1 needle repl)
  then show ?case by (cases needle) (simp_all add: starts_with_def)
next
  case (2 needle repl c cs)
  have s: "starts_with (c # cs @ d # y) needle \<longleftrightarrow> starts_with (c # cs) needle"
    using starts_with_across [OF 2(3), of "c # cs" y] by simp
  show ?case
  proof (cases "needle \<noteq> [] \<and> starts_with (c # cs) needle")
    case True
    then obtain r where "c # cs = needle @ r" by (auto simp: starts_with_iff)
    then have "length needle \<le> length (c # cs)" by simp
    then have "drop (length needle) (c # cs @ d # y) = drop (length needle) (c # cs) @ d # y" by (simp add: drop_Cons split: nat.splits)
    then show ?thesis using 2(1) [OF True 2(3)] True s by simp
  next
    case False
    then show ?thesis using 2(2) [OF False 2(3)] s by auto
  qed
qed

definition replaced :: "string \<Rightarrow> string \<Rightarrow> string" where
  "replaced secret out = (if contains_sub out secret then replace_token secret mark out else out)"

lemma replaced_scan: "secret \<noteq> [] \<Longrightarrow> replaced secret out = replace_scan secret mark out"
  using replace_token_absent [of out secret mark] by (simp add: replaced_def replace_scan_token)

lemma redact_replaced: "redact ss = fold replaced ss"
  by (rule ext) (simp add: redact_def replaced_def [abs_def])

lemma redact_across:
  "\<forall>s \<in> set ss. s \<noteq> [] \<and> d \<notin> set s \<Longrightarrow> redact ss (x @ d # y) = redact ss x @ d # redact ss y"
  unfolding redact_replaced by (induction ss arbitrary: x y) (simp_all add: replaced_scan scan_across)

lemma redact_kept: "\<forall>s \<in> set ss. \<not> contains_sub t s \<Longrightarrow> redact ss t = t"
  unfolding redact_replaced by (induction ss) (simp_all add: replaced_def)

lemma kept_longest_first:
  "sorted_wrt (\<lambda>a b. length b \<le> length a) ss \<Longrightarrow> sorted_wrt (\<lambda>a b. length b \<le> length a) (redaction_add a ss)"
proof -
  have "sorted_wrt (\<lambda>a b. length b \<le> length a) (longest_first xs)" for xs :: "string list"
    using sorted_sort_key [of "\<lambda>s. - int (length s)" xs]
    by (simp add: longest_first_def sorted_map)
  then show "sorted_wrt (\<lambda>a b. length b \<le> length a) ss \<Longrightarrow> ?thesis" by (simp add: redaction_add_def)
qed

lemma longest_first_kept: "sorted_wrt (\<lambda>a b. length b \<le> length a) (fold redaction_add added [])"
proof -
  have "sorted_wrt (\<lambda>a b. length b \<le> length a) ss \<Longrightarrow>
      sorted_wrt (\<lambda>a b. length b \<le> length a) (fold redaction_add added ss)" for ss
    by (induction added arbitrary: ss) (simp_all add: kept_longest_first)
  then show ?thesis by simp
qed

lemma contains_longer: "contains_sub t s \<Longrightarrow> length t \<le> length s \<Longrightarrow> s = t"
  by (auto simp: contains_sub_iff)

lemma added_distinct: "distinct (fold redaction_add added [])"
proof -
  have "distinct ss \<Longrightarrow> distinct (fold redaction_add added ss)" for ss
    by (induction added arbitrary: ss) (simp_all add: redaction_add_def longest_first_def)
  then show ?thesis by simp
qed

lemma secret_masked:
  assumes "\<forall>s \<in> set added. CHR ''*'' \<notin> set s" and "s \<in> set added" and "s \<noteq> []"
  shows "redact (fold redaction_add added []) s = mark"
proof -
  let ?S = "fold redaction_add added []"
  have set: "set ?S = set added - {[]}" using added_set [of added "[]"] by simp
  then obtain A B where S: "?S = A @ s # B" using assms(2,3) by (metis Diff_iff empty_iff insert_iff split_list)
  have A: "\<forall>a \<in> set A. length s \<le> length a \<and> a \<noteq> s"
    using longest_first_kept [of added] added_distinct [of added] by (auto simp: S sorted_wrt_append)
  then have "redact A s = s" using contains_longer by (intro redact_kept) blast
  moreover have "replaced s s = mark"
    using assms(3) by (simp add: replaced_scan) (cases s; simp add: starts_with_def)
  moreover have "\<forall>b \<in> set B. \<not> contains_sub mark b"
  proof
    fix b assume "b \<in> set B"
    then have "b \<in> set ?S" by (simp add: S)
    then have "b \<noteq> []" "CHR ''*'' \<notin> set b" using assms(1) set by auto
    then show "\<not> contains_sub mark b" using contains_mark [of b "[]"] by (simp add: contains_sub_def)
  qed
  then have "redact B mark = mark" by (rule redact_kept)
  ultimately show ?thesis unfolding S redact_replaced by simp
qed

text \<open>
  Property C28. Provided no registered secret contains the character the mark is made of, nothing registered gets
  through: a redacted text contains none of the secrets, however they overlap and whatever the text (an empty secret is
  not kept). And a secret is
  masked whole, even when a shorter secret is a part of it: where it stands between two characters that occur in no
  secret, or alone, exactly the mark is left of it, and the text around it is redacted as if it stood alone.
\<close>

theorem redacted_text_has_no_secret:
  assumes "\<forall>s \<in> set added. CHR ''*'' \<notin> set s" and "s \<in> set added" and "s \<noteq> []"
  shows "\<not> contains_sub (redact (fold redaction_add added []) text) s \<and>
    redact (fold redaction_add added []) s = mark \<and>
    (\<forall>x c d y. (\<forall>t \<in> set added. c \<notin> set t \<and> d \<notin> set t) \<longrightarrow>
       redact (fold redaction_add added []) (x @ c # s @ d # y) =
         redact (fold redaction_add added []) x @ c # mark @ d # redact (fold redaction_add added []) y)"
proof (intro conjI allI impI)
  let ?S = "fold redaction_add added []"
  have m: "set ?S = set added - {[]}"
    using added_set [of added "[]"] by simp
  have "\<not> contains_sub (fold replaced ss t) s"
    if "\<forall>s \<in> set ss. s \<noteq> [] \<and> CHR ''*'' \<notin> set s" "s \<in> set ss \<or> \<not> contains_sub t s" "s \<noteq> []"
      "CHR ''*'' \<notin> set s" for ss t
    using that
  proof (induction ss arbitrary: t)
    case (Cons r ss)
    have "s \<in> set ss \<or> \<not> contains_sub (replaced r t) s"
      using Cons.prems scan_removes [of s t] scan_contains [of s r t] replaced_scan [of r t] by auto
    then show ?case using Cons by simp
  qed simp
  then show "\<not> contains_sub (redact ?S text) s" using assms by (simp add: redact_replaced m)
  show whole: "redact ?S s = mark" by (rule secret_masked [OF assms])
  fix x c d y
  assume "\<forall>t \<in> set added. c \<notin> set t \<and> d \<notin> set t"
  then have "\<forall>t \<in> set ?S. t \<noteq> [] \<and> c \<notin> set t" "\<forall>t \<in> set ?S. t \<noteq> [] \<and> d \<notin> set t"
    by (simp_all add: m)
  then show "redact ?S (x @ c # s @ d # y) = redact ?S x @ c # mark @ d # redact ?S y"
    by (simp add: redact_across whole)
qed

theorem redacted_text_has_no_secret_witness:
  "\<not> contains_sub (redact (fold redaction_add [''ab'', ''xaby''] []) ''1xaby2ab3'') ''ab'' \<and>
   redact (fold redaction_add [''ab'', ''xaby''] []) ''1xaby2ab3'' = ''1***2***3'' \<and>
   redact (fold redaction_add [''ab'', ''xaby''] []) ''xaby'' = ''***''"
proof -
  have c: "\<forall>s \<in> set [''ab'', ''xaby'']. CHR ''*'' \<notin> set s" by simp
  have "redact (fold redaction_add [''ab'', ''xaby''] []) ''1xaby2ab3'' = ''1***2***3''" by code_simp
  then show ?thesis
    using redacted_text_has_no_secret [OF c, of "''ab''" "''1xaby2ab3''"] redacted_text_has_no_secret [OF c, of "''xaby''" "[]"]
    by (simp add: mark_def)
qed

end
