(* ===== verification/Agent_Output.thy ===== *)
theory Agent_Output
  imports Utf8 Json
begin

text \<open>
  \<open>src/engine/agent_output\<close>: the translators that turn the output of an agent, line by line, into
  activities, output lines and the final message. Reading a line as JSON (\<open>serde_json::from_str\<close>) is
  the parameter \<open>parse\<close>. The interface of a translator (\<open>AgentOutputTranslator\<close>) is the locale
  \<open>output_translator\<close>; the three translators are its interpretations.
\<close>

subsection \<open>What a translator emits\<close>

datatype output_stream = Stdout | Stderr

datatype step_activity_kind = Message | ToolUse | ToolResult | Thinking

datatype translated =
    Line output_stream string
  | Activity step_activity_kind string
  | FinalMessage string

definition summary_max :: nat where
  "summary_max = 200"

definition line_breaks :: "string list" where
  "line_breaks =
     [[CHR 0x0A], [CHR 0x0D], [CHR 0xC2, CHR 0x85], [CHR 0xE2, CHR 0x80, CHR 0xA8],
      [CHR 0xE2, CHR 0x80, CHR 0xA9]]"

definition ellipsis :: string where
  "ellipsis = [CHR 0xE2, CHR 0x80, CHR 0xA6]"

definition bound_summary :: "string \<Rightarrow> string" where
  "bound_summary s =
     (let first_line = takeWhile (\<lambda>p. p \<notin> set line_breaks) (utf8_chars s);
          cleaned = filter (\<lambda>p. \<not> char_is_control p) first_line;
          trimmed = trim_chars cleaned
      in if length trimmed \<le> summary_max then concat trimmed
         else concat (take (summary_max - 1) trimmed) @ ellipsis)"

definition activity :: "step_activity_kind \<Rightarrow> string \<Rightarrow> translated" where
  "activity kind summary = Activity kind (bound_summary summary)"

definition final_message :: "string \<Rightarrow> translated list" where
  "final_message message = map (Line Stdout) (lines message) @ [FinalMessage message]"

definition passthrough :: "output_stream \<Rightarrow> string \<Rightarrow> translated list" where
  "passthrough stream line = [Line stream line]"

subsection \<open>Claude\<close>

record claude =
  cl_tools :: "string \<rightharpoonup> string"
  cl_candidate :: "string option"
  cl_finalized :: bool

definition claude_new :: claude where
  "claude_new = \<lparr>cl_tools = Map.empty, cl_candidate = None, cl_finalized = False\<rparr>"

function content_bytes :: "json \<Rightarrow> nat" where
  "content_bytes (JStr s) = length s"
| "content_bytes (JArr blocks) =
     sum_list (map (\<lambda>b. case jget ''text'' b of None \<Rightarrow> 0 | Some t \<Rightarrow> content_bytes t) blocks)"
| "content_bytes (JObj ms) = 0"
| "content_bytes JNull = 0"
| "content_bytes (JBool b) = 0"
| "content_bytes (JInt n) = 0"
| "content_bytes JFloat = 0"
  by pat_completeness auto
termination
proof (relation "measure size")
  fix blocks b t
  assume "b \<in> set blocks" and "jget ''text'' b = Some t"
  then have "size t < size b" and "size b \<le> size_list size blocks"
    by (simp_all add: jget_size size_list_estimation')
  then show "(t, JArr blocks) \<in> measure size" by simp
qed simp

definition hint_keys :: "string list" where
  "hint_keys = [''file_path'', ''path'', ''command'', ''pattern'', ''query'']"

fun find_map :: "('a \<Rightarrow> 'b option) \<Rightarrow> 'a list \<Rightarrow> 'b option" where
  "find_map f [] = None"
| "find_map f (x # xs) = (case f x of None \<Rightarrow> find_map f xs | Some y \<Rightarrow> Some y)"

definition tool_summary :: "string \<Rightarrow> json \<Rightarrow> string" where
  "tool_summary name block =
     (case find_map (\<lambda>key. Option.bind (jget ''input'' block) (get_str key)) hint_keys of
        None \<Rightarrow> name
      | Some hint \<Rightarrow> name @ '': '' @ hint)"

text \<open>
  One content block: \<open>None\<close> is an early return of \<open>?\<close>. A block may add to the text of the message
  and changes the map of the tools that run.
\<close>

definition claude_block ::
  "json \<Rightarrow> (string \<rightharpoonup> string) \<Rightarrow> ((translated \<times> string option) option) \<times> (string \<rightharpoonup> string)" where
  "claude_block block tools =
     (case as_str (jindex block ''type'') of
        None \<Rightarrow> (None, tools)
      | Some ty \<Rightarrow>
          if ty = ''text'' then
            (case as_str (jindex block ''text'') of
               None \<Rightarrow> (None, tools)
             | Some v \<Rightarrow> (Some (activity Message v, Some v), tools))
          else if ty = ''thinking'' \<or> ty = ''redacted_thinking'' then
            (Some (activity Thinking ''thinking'', None), tools)
          else if ty = ''tool_use'' then
            (case as_str (jindex block ''name'') of
               None \<Rightarrow> (None, tools)
             | Some name \<Rightarrow>
                 (Some (activity ToolUse (tool_summary name block), None),
                  case get_str ''id'' block of None \<Rightarrow> tools | Some i \<Rightarrow> tools(i \<mapsto> name)))
          else if ty = ''tool_result'' then
            (case as_str (jindex block ''tool_use_id'') of
               None \<Rightarrow> (None, tools)
             | Some i \<Rightarrow>
                 (let name = (case tools i of None \<Rightarrow> i | Some n \<Rightarrow> n);
                      bytes = (case jget ''content'' block of None \<Rightarrow> 0 | Some c \<Rightarrow> content_bytes c);
                      status = (if Option.bind (jget ''is_error'' block) as_bool = Some True
                                then ''error'' else ''completed'')
                  in (Some (activity ToolResult
                              (name @ '': '' @ status @ '' ('' @ dec_string bytes @ '' bytes)''), None),
                      tools(i := None))))
          else (Some (activity Message ''unrecognised content block'', None), tools))"

fun claude_blocks ::
  "json list \<Rightarrow> (string \<rightharpoonup> string) \<Rightarrow>
     ((translated list \<times> string list) option) \<times> (string \<rightharpoonup> string)" where
  "claude_blocks [] tools = (Some ([], []), tools)"
| "claude_blocks (b # bs) tools =
     (case claude_block b tools of
        (None, tools') \<Rightarrow> (None, tools')
      | (Some (item, t), tools') \<Rightarrow>
          (case claude_blocks bs tools' of
             (None, tools'') \<Rightarrow> (None, tools'')
           | (Some (items, texts), tools'') \<Rightarrow>
               (Some (item # items, case t of None \<Rightarrow> texts | Some v \<Rightarrow> v # texts), tools'')))"

definition claude_translate :: "json \<Rightarrow> claude \<Rightarrow> translated list option \<times> claude" where
  "claude_translate event st =
     (case get_str ''type'' event of
        None \<Rightarrow> (None, st)
      | Some ty \<Rightarrow>
          if ty = ''system'' \<and> get_str ''subtype'' event = Some ''init'' then (Some [], st)
          else if ty = ''assistant'' \<or> ty = ''user'' then
            (case Option.bind (jget ''message'' event) (get_array ''content'') of
               None \<Rightarrow> (None, st)
             | Some blocks \<Rightarrow>
                 (case claude_blocks blocks (cl_tools st) of
                    (None, tools) \<Rightarrow> (None, st\<lparr>cl_tools := tools\<rparr>)
                  | (Some (items, text), tools) \<Rightarrow>
                      (Some items,
                       if ty = ''assistant'' \<and> text \<noteq> [] \<and> \<not> cl_finalized st
                       then st\<lparr>cl_tools := tools, cl_candidate := Some (join_str [nl] text)\<rparr>
                       else st\<lparr>cl_tools := tools\<rparr>)))
          else if ty = ''result'' then
            (if cl_finalized st then (Some [], st)
             else
               (if Option.bind (jget ''is_error'' event) as_bool = Some True
                then Some [activity Message ''agent failed'']
                else map_option final_message (get_str ''result'' event),
                st\<lparr>cl_finalized := True, cl_candidate := None\<rparr>))
          else (None, st))"

definition unrecognised :: "translated list" where
  "unrecognised = [activity Message ''unrecognised agent frame'']"

text \<open>\<open>feed_line\<close> of both JSON translators: only lines of stdout that parse reach \<open>translate\<close>.\<close>

definition json_feed ::
  "(json \<Rightarrow> 's \<Rightarrow> translated list option \<times> 's) \<Rightarrow> (string \<Rightarrow> json option) \<Rightarrow> output_stream \<Rightarrow> string \<Rightarrow>
     's \<Rightarrow> translated list \<times> 's" where
  "json_feed translate parse stream line st =
     (if stream = Stderr then (passthrough stream line, st)
      else
        (case parse line of
           None \<Rightarrow> (passthrough stream line, st)
         | Some event \<Rightarrow>
             (case translate event st of
                (None, st') \<Rightarrow> (unrecognised, st')
              | (Some items, st') \<Rightarrow> (items, st'))))"

definition claude_feed ::
  "(string \<Rightarrow> json option) \<Rightarrow> output_stream \<Rightarrow> string \<Rightarrow> claude \<Rightarrow> translated list \<times> claude" where
  "claude_feed = json_feed claude_translate"

definition claude_finish :: "claude \<Rightarrow> translated list \<times> claude" where
  "claude_finish st =
     (if cl_finalized st then ([], st)
      else ((case cl_candidate st of None \<Rightarrow> [] | Some m \<Rightarrow> final_message m),
            st\<lparr>cl_finalized := True, cl_candidate := None\<rparr>))"

subsection \<open>Codex\<close>

record codex =
  cx_candidate :: "string option"
  cx_finalized :: bool

definition codex_new :: codex where
  "codex_new = \<lparr>cx_candidate = None, cx_finalized = False\<rparr>"

definition codex_complete :: "codex \<Rightarrow> translated list \<times> codex" where
  "codex_complete st =
     (if cx_finalized st then ([], st)
      else ((case cx_candidate st of None \<Rightarrow> [] | Some m \<Rightarrow> final_message m),
            st\<lparr>cx_finalized := True, cx_candidate := None\<rparr>))"

text \<open>The items of a frame other than the agent's own messages: what is shown of each.\<close>

definition codex_item :: "string \<Rightarrow> bool \<Rightarrow> json \<Rightarrow> translated option" where
  "codex_item item_type completed item =
     (let kind = (if completed then ToolResult else ToolUse) in
      if item_type = ''reasoning'' then Some (activity Thinking ''thinking'')
      else if item_type = ''command_execution'' then
        (case get_str ''command'' item of
           None \<Rightarrow> None
         | Some command \<Rightarrow>
             (if completed
              then Some (activity ToolResult (''command: '' @
                     (case Option.bind (jget ''exit_code'' item) as_i64 of
                        None \<Rightarrow> ''completed'' | Some code \<Rightarrow> ''exit '' @ int_string code)))
              else Some (activity ToolUse (''command: '' @ command))))
      else if item_type = ''file_change'' then
        (case get_array ''changes'' item of
           None \<Rightarrow> None
         | Some changes \<Rightarrow>
             (let path = (case changes of [] \<Rightarrow> None | c # _ \<Rightarrow> get_str ''path'' c)
              in Some (activity kind (''file change: '' @ (case path of None \<Rightarrow> ''file'' | Some q \<Rightarrow> q)
                   @ '' ('' @ dec_string (length changes) @ '' files)''))))
      else if item_type = ''mcp_tool_call'' then
        (case (get_str ''tool'' item, get_str ''server'' item) of
           (Some tool, Some server) \<Rightarrow>
             Some (activity kind (server @ ''/'' @ tool @ (if completed then '' completed'' else [])))
         | _ \<Rightarrow> None)
      else if item_type = ''web_search'' then
        (case get_str ''query'' item of
           None \<Rightarrow> None
         | Some query \<Rightarrow> Some (activity kind (''web search: '' @ query)))
      else None)"

definition codex_translate :: "json \<Rightarrow> codex \<Rightarrow> translated list option \<times> codex" where
  "codex_translate event st =
     (case get_str ''type'' event of
        None \<Rightarrow> (None, st)
      | Some ty \<Rightarrow>
          if ty = ''thread.started'' \<and> get_str ''thread_id'' event \<noteq> None then (Some [], st)
          else if ty = ''turn.started'' then (Some [], st)
          else if ty = ''turn.completed'' then (case codex_complete st of (items, st') \<Rightarrow> (Some items, st'))
          else if ty = ''turn.failed'' then
            (Some [activity Message ''agent failed''], st\<lparr>cx_candidate := None, cx_finalized := True\<rparr>)
          else if ty = ''item.started'' \<or> ty = ''item.updated'' \<or> ty = ''item.completed'' then
            (case jget ''item'' event of
               None \<Rightarrow> (None, st)
             | Some item \<Rightarrow>
                 (case get_str ''type'' item of
                    None \<Rightarrow> (None, st)
                  | Some item_type \<Rightarrow>
                      (let completed = (ty = ''item.completed'') in
                       if ty = ''item.updated'' then (Some [], st)
                       else if item_type = ''agent_message'' then
                         (if completed
                          then (case get_str ''text'' item of
                                  None \<Rightarrow> (None, st)
                                | Some message \<Rightarrow>
                                    (Some [activity Message message],
                                     if cx_finalized st then st
                                     else st\<lparr>cx_candidate := Some message\<rparr>))
                          else (Some [], st))
                       else (map_option (\<lambda>t. [t]) (codex_item item_type completed item), st))))
          else (None, st))"

definition codex_feed ::
  "(string \<Rightarrow> json option) \<Rightarrow> output_stream \<Rightarrow> string \<Rightarrow> codex \<Rightarrow> translated list \<times> codex" where
  "codex_feed = json_feed codex_translate"

subsection \<open>The translator of a format\<close>

datatype agent_output_format = Text | ClaudeStreamJson | CodexJson

definition format_as_str :: "agent_output_format \<Rightarrow> string" where
  "format_as_str f =
     (case f of Text \<Rightarrow> ''text'' | ClaudeStreamJson \<Rightarrow> ''claude_stream_json'' | CodexJson \<Rightarrow> ''codex_json'')"

definition is_structured :: "agent_output_format \<Rightarrow> bool" where
  "is_structured f \<longleftrightarrow> f \<noteq> Text"

datatype translator = Passthrough | Claude claude | Codex codex

definition translator_for :: "agent_output_format \<Rightarrow> translator" where
  "translator_for f =
     (case f of Text \<Rightarrow> Passthrough | ClaudeStreamJson \<Rightarrow> Claude claude_new | CodexJson \<Rightarrow> Codex codex_new)"

fun feed_line ::
  "(string \<Rightarrow> json option) \<Rightarrow> output_stream \<Rightarrow> string \<Rightarrow> translator \<Rightarrow> translated list \<times> translator" where
  "feed_line parse stream line Passthrough = ([Line stream line], Passthrough)"
| "feed_line parse stream line (Claude st) = map_prod id Claude (claude_feed parse stream line st)"
| "feed_line parse stream line (Codex st) = map_prod id Codex (codex_feed parse stream line st)"

fun finish :: "translator \<Rightarrow> translated list \<times> translator" where
  "finish Passthrough = ([], Passthrough)"
| "finish (Claude st) = map_prod id Claude (claude_finish st)"
| "finish (Codex st) = map_prod id Codex (codex_complete st)"

text \<open>Everything a translator emits for a stream of lines, to the end of the stream.\<close>

fun translate_stream ::
  "(output_stream \<Rightarrow> string \<Rightarrow> 's \<Rightarrow> translated list \<times> 's) \<Rightarrow> ('s \<Rightarrow> translated list \<times> 's) \<Rightarrow>
     (output_stream \<times> string) list \<Rightarrow> 's \<Rightarrow> translated list" where
  "translate_stream feed fin [] st = fst (fin st)"
| "translate_stream feed fin ((stream, line) # ls) st =
     (case feed stream line st of (out, st') \<Rightarrow> out @ translate_stream feed fin ls st')"

definition agent_output ::
  "(string \<Rightarrow> json option) \<Rightarrow> agent_output_format \<Rightarrow> (output_stream \<times> string) list \<Rightarrow> translated list" where
  "agent_output parse format ls = translate_stream (feed_line parse) finish ls (translator_for format)"

subsection \<open>The interface: one final message at most\<close>

fun finals :: "translated list \<Rightarrow> string list" where
  "finals [] = []"
| "finals (FinalMessage m # ts) = m # finals ts"
| "finals (Line s l # ts) = finals ts"
| "finals (Activity k l # ts) = finals ts"

lemma finals_append [simp]: "finals (a @ b) = finals a @ finals b"
  by (induction a rule: finals.induct) simp_all

lemma finals_lines [simp]: "finals (map (Line s) ls) = []"
  by (induction ls) simp_all

lemma finals_shown [simp]:
  "finals (passthrough s l) = []" "finals [activity k t] = []" "finals unrecognised = []"
  "finals (activity k t # ts) = finals ts" "finals (final_message m) = [m]"
  by (simp_all add: passthrough_def activity_def unrecognised_def final_message_def)

text \<open>A closed translator has emitted its message, or decided that there is none.\<close>

locale output_translator =
  fixes feed :: "output_stream \<Rightarrow> string \<Rightarrow> 's \<Rightarrow> translated list \<times> 's"
    and fin :: "'s \<Rightarrow> translated list \<times> 's"
    and closed :: "'s \<Rightarrow> bool"
  assumes feed_closed: "closed s \<Longrightarrow> feed st l s = (out, s') \<Longrightarrow> closed s' \<and> finals out = []"
    and feed_open: "feed st l s = (out, s') \<Longrightarrow>
      finals out = [] \<or> closed s' \<and> (\<exists>m. out = final_message m)"
    and fin_closed: "closed s \<Longrightarrow> fst (fin s) = []"
    and fin_once: "fst (fin s) = [] \<or> (\<exists>m. fst (fin s) = final_message m)"
    and fin_closes: "closed (snd (fin s))"
begin

lemma closed_stream: "closed s \<Longrightarrow> finals (translate_stream feed fin ls s) = []"
proof (induction ls arbitrary: s)
  case (Cons sl ls)
  obtain st l where sl: "sl = (st, l)" by (cases sl)
  obtain out s' where f: "feed st l s = (out, s')" by (cases "feed st l s")
  show ?case using feed_closed [OF Cons.prems f] Cons.IH [of s'] by (simp add: sl f)
qed (simp add: fin_closed)

lemma one_final:
  "finals (translate_stream feed fin ls s) = [] \<or>
   (\<exists>pre m post. translate_stream feed fin ls s = pre @ final_message m @ post \<and>
      finals pre = [] \<and> finals post = [])"
proof (induction ls arbitrary: s)
  case Nil
  show ?case
  proof (cases "fst (fin s) = []")
    case False
    then obtain m where "fst (fin s) = final_message m" using fin_once [of s] by blast
    then have "fst (fin s) = [] @ final_message m @ [] \<and> finals [] = [] \<and> finals [] = []" by simp
    then show ?thesis unfolding translate_stream.simps by blast
  qed simp
next
  case (Cons sl ls)
  obtain st l where sl: "sl = (st, l)" by (cases sl)
  obtain out s' where f: "feed st l s = (out, s')" by (cases "feed st l s")
  let ?rest = "translate_stream feed fin ls s'"
  have e: "translate_stream feed fin (sl # ls) s = out @ ?rest" by (simp add: sl f)
  from feed_open [OF f] consider (quiet) "finals out = []"
    | (final) m where "closed s'" "out = final_message m" by blast
  then show ?case
  proof cases
    case quiet
    from Cons [of s'] show ?thesis
    proof
      assume "finals ?rest = []"
      then show ?thesis using quiet by (simp add: e)
    next
      assume "\<exists>pre m post. ?rest = pre @ final_message m @ post \<and> finals pre = [] \<and> finals post = []"
      then obtain pre m post where "?rest = pre @ final_message m @ post" "finals pre = []" "finals post = []"
        by blast
      then have "out @ ?rest = (out @ pre) @ final_message m @ post \<and> finals (out @ pre) = [] \<and> finals post = []"
        using quiet by simp
      then show ?thesis unfolding e by blast
    qed
  next
    case final
    then have "out @ ?rest = [] @ final_message m @ ?rest \<and> finals [] = [] \<and> finals ?rest = []"
      by (simp add: closed_stream)
    then show ?thesis unfolding e by blast
  qed
qed

end


text \<open>What one event does to a translator, read off branch by branch.\<close>

definition event_ok :: "('s \<Rightarrow> bool) \<Rightarrow> 's \<Rightarrow> translated list option \<times> 's \<Rightarrow> bool" where
  "event_ok closed s res =
     (let out = (case fst res of None \<Rightarrow> unrecognised | Some items \<Rightarrow> items) in
        (closed s \<longrightarrow> closed (snd res) \<and> finals out = []) \<and>
        (finals out = [] \<or> closed (snd res) \<and> (\<exists>m. out = final_message m)))"

lemma event_ok_if: "(b \<Longrightarrow> event_ok c s x) \<Longrightarrow> (\<not> b \<Longrightarrow> event_ok c s y) \<Longrightarrow> event_ok c s (if b then x else y)"
  by simp

lemma event_ok_option:
  "(v = None \<Longrightarrow> event_ok c s x) \<Longrightarrow> (\<And>a. v = Some a \<Longrightarrow> event_ok c s (f a)) \<Longrightarrow>
     event_ok c s (case v of None \<Rightarrow> x | Some a \<Rightarrow> f a)"
  by (cases v) simp_all

lemma event_ok_none: "(c s \<Longrightarrow> c s') \<Longrightarrow> event_ok c s (None, s')"
  by (simp add: event_ok_def)

lemma event_ok_quiet: "finals out = [] \<Longrightarrow> (c s \<Longrightarrow> c s') \<Longrightarrow> event_ok c s (Some out, s')"
  by (simp add: event_ok_def)

lemmas event_ok_intros = event_ok_if event_ok_option event_ok_none event_ok_quiet

lemma json_feed_ok:
  assumes "\<And>event. event_ok c s (translate event s)" and f: "json_feed translate parse st l s = (out, s')"
  shows "(c s \<longrightarrow> c s' \<and> finals out = []) \<and> (finals out = [] \<or> c s' \<and> (\<exists>m. out = final_message m))"
proof (cases "st = Stderr \<or> parse l = None")
  case True
  then have "out = passthrough st l \<and> s' = s"
    using f by (cases "st = Stderr") (simp_all add: json_feed_def)
  then show ?thesis by simp
next
  case False
  then obtain event where "parse l = Some event" by auto
  moreover obtain r t where t: "translate event s = (r, t)" by (cases "translate event s")
  ultimately have "out = (case r of None \<Rightarrow> unrecognised | Some items \<Rightarrow> items) \<and> s' = t"
    using False f by (cases r) (simp_all add: json_feed_def)
  then show ?thesis using assms(1) [of event] by (simp add: event_ok_def Let_def t)
qed

lemma json_translator:
  assumes "\<And>event s. event_ok c s (translate event s)" and "\<And>s. c s \<Longrightarrow> fst (fin s) = []"
    and "\<And>s. fst (fin s) = [] \<or> (\<exists>m. fst (fin s) = final_message m)" and "\<And>s. c (snd (fin s))"
  shows "output_translator (json_feed translate parse) fin c"
proof
  fix st l s out s'
  assume f: "json_feed translate parse st l s = (out, s')"
  note * = json_feed_ok [OF assms(1) f]
  show "finals out = [] \<or> c s' \<and> (\<exists>m. out = final_message m)" using * by blast
  assume "c s"
  then show "c s' \<and> finals out = []" using * by blast
qed (fact assms)+

subsection \<open>The three translators\<close>

lemma finals_single [simp]: "finals [t] = (case t of FinalMessage m \<Rightarrow> [m] | _ \<Rightarrow> [])"
  by (cases t) simp_all

lemma complete_closes:
  "cx_finalized s \<Longrightarrow> fst (codex_complete s) = []" "cx_finalized (snd (codex_complete s))"
  "fst (codex_complete s) = [] \<or> (\<exists>m. fst (codex_complete s) = final_message m)"
  by (auto simp: codex_complete_def split: option.splits)

lemma codex_item_shown: "codex_item ty c item = Some t \<Longrightarrow> \<exists>k s. t = activity k s"
  by (auto simp: codex_item_def Let_def split: if_split_asm option.split_asm)

lemma codex_event_ok: "event_ok cx_finalized s (codex_translate event s)"
proof -
  have c: "event_ok cx_finalized s (case codex_complete s of (items, s') \<Rightarrow> (Some items, s'))"
    using complete_closes [of s] by (cases "codex_complete s") (auto simp: event_ok_def)
  have i: "event_ok cx_finalized s (map_option (\<lambda>t. [t]) (codex_item ty b item), s)" for ty b item
  proof (cases "codex_item ty b item")
    case (Some t)
    then obtain k u where "t = activity k u" using codex_item_shown by blast
    then show ?thesis using Some by (simp add: event_ok_quiet activity_def)
  qed (simp add: event_ok_none)
  show ?thesis unfolding codex_translate_def Let_def
    by (intro event_ok_intros c i) (simp_all add: activity_def)
qed

interpretation codex: output_translator "codex_feed parse" codex_complete cx_finalized
  unfolding codex_feed_def by (intro json_translator codex_event_ok complete_closes)

lemma claude_finish_closes:
  "cl_finalized s \<Longrightarrow> fst (claude_finish s) = []" "cl_finalized (snd (claude_finish s))"
  "fst (claude_finish s) = [] \<or> (\<exists>m. fst (claude_finish s) = final_message m)"
  by (auto simp: claude_finish_def split: option.splits)

lemma claude_block_shown:
  "claude_block b tools = (Some (t, v), tools') \<Longrightarrow> \<exists>k s. t = activity k s"
  by (auto simp: claude_block_def Let_def split: if_split_asm option.split_asm)

lemma claude_blocks_shown:
  "claude_blocks bs tools = (Some (items, texts), tools') \<Longrightarrow> finals items = []"
proof (induction bs arbitrary: tools items texts)
  case (Cons b bs)
  from Cons.prems obtain t v tools1 its ts where b: "claude_block b tools = (Some (t, v), tools1)"
    and r: "claude_blocks bs tools1 = (Some (its, ts), tools')" and items: "items = t # its"
    by (auto split: prod.splits option.splits)
  from claude_block_shown [OF b] obtain k s where "t = activity k s" by blast
  then show ?case using Cons.IH [OF r] by (simp add: items)
qed simp

lemma claude_event_ok: "event_ok cl_finalized s (claude_translate event s)"
proof -
  have b: "event_ok cl_finalized s (case claude_blocks bs (cl_tools s) of
       (None, tools) \<Rightarrow> (None, s\<lparr>cl_tools := tools\<rparr>)
     | (Some (items, text), tools) \<Rightarrow>
         (Some items, if a \<and> text \<noteq> [] \<and> \<not> cl_finalized s
            then s\<lparr>cl_tools := tools, cl_candidate := Some (join_str [nl] text)\<rparr>
            else s\<lparr>cl_tools := tools\<rparr>))" for bs a
  proof (cases "claude_blocks bs (cl_tools s)")
    case (Pair r tools)
    then show ?thesis using claude_blocks_shown
      by (cases r) (auto simp: event_ok_none intro!: event_ok_quiet)
  qed
  have r: "event_ok cl_finalized s
      (if f then Some [activity Message ''agent failed''] else map_option final_message v,
       s\<lparr>cl_finalized := True, cl_candidate := None\<rparr>)" if "\<not> cl_finalized s" for f v
    using that by (cases v) (auto simp: event_ok_def activity_def)
  show ?thesis unfolding claude_translate_def
    by (intro event_ok_intros b r) simp_all
qed

interpretation claude: output_translator "claude_feed parse" claude_finish cl_finalized
  unfolding claude_feed_def by (intro json_translator claude_event_ok claude_finish_closes)

interpretation passed: output_translator "\<lambda>stream line s. ([Line stream line], s)" "\<lambda>s. ([], s)" "\<lambda>s. True"
  by unfold_locales auto

lemma agent_output_simps:
  "agent_output parse Text ls = translate_stream (\<lambda>st l s. ([Line st l], s)) (\<lambda>s. ([], s)) ls ()"
  "agent_output parse ClaudeStreamJson ls = translate_stream (claude_feed parse) claude_finish ls claude_new"
  "agent_output parse CodexJson ls = translate_stream (codex_feed parse) codex_complete ls codex_new"
proof -
  have "translate_stream (feed_line parse) finish ls Passthrough
      = translate_stream (\<lambda>st l s. ([Line st l], s)) (\<lambda>s. ([], s)) ls ()"
    by (induction ls) (auto split: prod.splits)
  moreover have "translate_stream (feed_line parse) finish ls (Claude s)
      = translate_stream (claude_feed parse) claude_finish ls s" for s
    by (induction ls arbitrary: s) (auto simp: map_prod_def split: prod.splits)
  moreover have "translate_stream (feed_line parse) finish ls (Codex s)
      = translate_stream (codex_feed parse) codex_complete ls s" for s
    by (induction ls arbitrary: s) (auto simp: map_prod_def split: prod.splits)
  ultimately show
    "agent_output parse Text ls = translate_stream (\<lambda>st l s. ([Line st l], s)) (\<lambda>s. ([], s)) ls ()"
    "agent_output parse ClaudeStreamJson ls = translate_stream (claude_feed parse) claude_finish ls claude_new"
    "agent_output parse CodexJson ls = translate_stream (codex_feed parse) codex_complete ls codex_new"
    by (simp_all add: agent_output_def translator_for_def)
qed

subsection \<open>Correctness\<close>

text \<open>
  Whatever the agent prints, in whichever format, a run has at most one final message, and
  the message has been shown before it is reported: the items just before it are its lines.
\<close>

theorem final_message_once:
  "finals (agent_output parse format ls) = [] \<or>
   (\<exists>pre m post. agent_output parse format ls = pre @ map (Line Stdout) (lines m) @ FinalMessage m # post \<and>
      finals pre = [] \<and> finals post = [])"
proof -
  have "finals (agent_output parse format ls) = [] \<or>
    (\<exists>pre m post. agent_output parse format ls = pre @ final_message m @ post \<and> finals pre = [] \<and> finals post = [])"
    by (cases format) (simp_all only: agent_output_simps claude.one_final codex.one_final passed.one_final)
  then show ?thesis by (simp add: final_message_def)
qed

text \<open>
  The answer of a Codex run as its frames give it: a turn that fails ends the run without an answer, a
  turn that completes ends it with the last message completed so far, and so does the end of the stream.
\<close>

datatype frame_kind = Answer string | TurnCompleted | TurnFailed | Other

definition codex_frame :: "json \<Rightarrow> frame_kind" where
  "codex_frame event =
     (if get_str ''type'' event = Some ''turn.completed'' then TurnCompleted
      else if get_str ''type'' event = Some ''turn.failed'' then TurnFailed
      else if get_str ''type'' event = Some ''item.completed'' then
        (case jget ''item'' event of
           None \<Rightarrow> Other
         | Some item \<Rightarrow>
             (case (get_str ''type'' item = Some ''agent_message'', get_str ''text'' item) of
                (True, Some m) \<Rightarrow> Answer m
              | _ \<Rightarrow> Other))
      else Other)"

fun codex_answer :: "string option \<Rightarrow> frame_kind list \<Rightarrow> string option" where
  "codex_answer last_message [] = last_message"
| "codex_answer last_message (TurnCompleted # fs) = last_message"
| "codex_answer last_message (TurnFailed # fs) = None"
| "codex_answer last_message (Answer m # fs) = codex_answer (Some m) fs"
| "codex_answer last_message (Other # fs) = codex_answer last_message fs"

definition frames_of :: "(string \<Rightarrow> json option) \<Rightarrow> (output_stream \<times> string) list \<Rightarrow> json list" where
  "frames_of parse ls = List.map_filter (\<lambda>(st, l). if st = Stdout then parse l else None) ls"

lemma codex_translate_frame:
  assumes "\<not> cx_finalized s" and t: "codex_translate event s = (r, s')"
  shows "case codex_frame event of
     TurnCompleted \<Rightarrow> cx_finalized s' \<and>
       finals (case r of None \<Rightarrow> unrecognised | Some i \<Rightarrow> i) = (case cx_candidate s of None \<Rightarrow> [] | Some m \<Rightarrow> [m])
   | TurnFailed \<Rightarrow> cx_finalized s' \<and> finals (case r of None \<Rightarrow> unrecognised | Some i \<Rightarrow> i) = []
   | Answer m \<Rightarrow> s' = s\<lparr>cx_candidate := Some m\<rparr> \<and> finals (case r of None \<Rightarrow> unrecognised | Some i \<Rightarrow> i) = []
   | Other \<Rightarrow> s' = s \<and> finals (case r of None \<Rightarrow> unrecognised | Some i \<Rightarrow> i) = []"
proof (cases "get_str ''type'' event")
  case None
  then show ?thesis using t by (auto simp: codex_translate_def codex_frame_def)
next
  case (Some ty)
  have i: "(case z of FinalMessage m \<Rightarrow> [m] | _ \<Rightarrow> []) = []" if "codex_item a b item = Some z" for a b item z
    using codex_item_shown [OF that] by (auto simp: activity_def)
  consider "ty = ''turn.completed''" | "ty = ''turn.failed''"
    | (item) "ty = ''item.completed''"
    | (other) "ty \<noteq> ''turn.completed''" "ty \<noteq> ''turn.failed''" "ty \<noteq> ''item.completed''" by blast
  then show ?thesis
  proof cases
    case item
    then show ?thesis using Some t assms(1) i
      by (cases "jget ''item'' event") (auto simp: codex_translate_def codex_frame_def activity_def split: option.splits if_splits)
  next
    case other
    then have "codex_frame event = Other" using Some by (simp add: codex_frame_def)
    moreover have "s' = s \<and> finals (case r of None \<Rightarrow> unrecognised | Some i \<Rightarrow> i) = []"
      using other Some t i unfolding codex_translate_def Let_def
      by (auto simp: activity_def split: option.splits if_splits)
    ultimately show ?thesis by simp
  qed (use Some t assms(1) in \<open>auto simp: codex_translate_def codex_frame_def codex_complete_def activity_def split: option.splits\<close>)
qed

lemma codex_refines:
  "finals (translate_stream (codex_feed parse) codex_complete ls s) =
     (if cx_finalized s then []
      else case codex_answer (cx_candidate s) (map codex_frame (frames_of parse ls)) of
             None \<Rightarrow> [] | Some m \<Rightarrow> [m])"
proof (induction ls arbitrary: s)
  case Nil
  then show ?case by (auto simp: frames_of_def codex_complete_def map_filter_simps split: option.splits)
next
  case (Cons sl ls)
  obtain st l where sl: "sl = (st, l)" by (cases sl)
  show ?case
  proof (cases "cx_finalized s \<or> st = Stderr \<or> parse l = None")
    case True
    then show ?thesis
    proof (cases "cx_finalized s")
      case False
      with True have "st = Stderr \<or> parse l = None" by simp
      then have "codex_feed parse st l s = (passthrough st l, s)"
        and "frames_of parse (sl # ls) = frames_of parse ls"
        by (auto simp: codex_feed_def json_feed_def frames_of_def sl map_filter_simps)
      then show ?thesis using Cons [of s] by (simp add: sl)
    qed (simp add: codex.closed_stream)
  next
    case False
    then obtain event where p: "parse l = Some event" and st: "st = Stdout" and o: "\<not> cx_finalized s"
      by (cases st) auto
    obtain r s' where t: "codex_translate event s = (r, s')" by (cases "codex_translate event s")
    let ?out = "case r of None \<Rightarrow> unrecognised | Some i \<Rightarrow> i"
    have f: "codex_feed parse st l s = (?out, s')"
      by (cases r) (simp_all add: codex_feed_def json_feed_def p st t)
    have fr: "frames_of parse (sl # ls) = event # frames_of parse ls"
      by (simp add: frames_of_def sl st p map_filter_simps)
    show ?thesis
      using codex_translate_frame [OF o t] Cons [of s'] o f
      by (cases "codex_frame event") (simp_all add: sl fr [unfolded sl])
  qed
qed

text \<open>
  Property C29. The final message a Codex run reports is its answer: the translator, which works line by
  line among output of other kinds, agrees with the reading of the whole list of frames.
\<close>

theorem codex_reports_the_answer:
  "finals (agent_output parse CodexJson ls) =
     (case codex_answer None (map codex_frame (frames_of parse ls)) of None \<Rightarrow> [] | Some m \<Rightarrow> [m])"
  by (simp add: agent_output_simps codex_refines codex_new_def)

text \<open>
  A summary is one bounded line: at most \<open>summary_max\<close> characters, none of them a control
  character, for every text that is well-formed UTF-8.
\<close>

theorem summary_bounded:
  assumes "utf8_valid s"
  shows "length (utf8_chars (bound_summary s)) \<le> summary_max \<and>
    list_all (\<lambda>p. \<not> char_is_control p) (utf8_chars (bound_summary s)) \<and> nl \<notin> set (bound_summary s)"
proof -
  define t where "t = trim_chars (filter (\<lambda>p. \<not> char_is_control p)
    (takeWhile (\<lambda>p. p \<notin> set line_breaks) (utf8_chars s)))"
  have sub: "set t \<subseteq> set (utf8_chars s) \<inter> {p. \<not> char_is_control p}"
    using set_trim_chars unfolding t_def by (fastforce dest: set_takeWhileD)
  then have chars: "\<forall>p \<in> set t. is_char p" using utf8_chars_valid [OF assms] by blast
  have e: "is_char ellipsis" "\<not> char_is_control ellipsis" by code_simp+
  define u where "u = (if length t \<le> summary_max then t else take (summary_max - 1) t @ [ellipsis])"
  have "bound_summary s = concat u"
    by (simp add: bound_summary_def Let_def flip: t_def) (simp add: u_def)
  moreover have "\<forall>p \<in> set u. is_char p \<and> \<not> char_is_control p"
    using sub chars e by (auto simp: u_def dest: in_set_takeD)
  moreover have "length u \<le> summary_max" by (simp add: u_def summary_max_def)
  moreover have "nl \<notin> set p" if "is_char p" "\<not> char_is_control p" for p
  proof
    assume "nl \<in> set p"
    then have "p = [nl]" using char_ascii [OF that(1)] by simp
    then show False using that(2) by (simp add: char_is_control_def)
  qed
  ultimately show ?thesis by (simp add: utf8_chars_concat list_all_iff)
qed

theorem summary_bounded_witness:
  "utf8_valid (CHR 0x09 # ''ab'' @ CHR 0x0A # ''c'') \<and> bound_summary (CHR 0x09 # ''ab'' @ CHR 0x0A # ''c'') = ''ab'' \<and>
   length (utf8_chars (bound_summary (CHR 0x09 # ''ab'' @ CHR 0x0A # ''c''))) \<le> summary_max"
proof -
  have v: "utf8_valid (CHR 0x09 # ''ab'' @ CHR 0x0A # ''c'')" by code_simp
  show ?thesis using v summary_bounded [OF v] by (intro conjI) (assumption | (elim conjE, assumption) | code_simp)+
qed

end
