(* ===== verification/Paths.thy ===== *)
theory Paths
  imports Strings "HOL-Library.Product_Lexorder"
begin

text \<open>
  Unix paths as the standard library has them (\<open>components\<close>, \<open>join\<close>, the order of paths) and the
  path operations of \<open>src/data/fs/overlay_paths.rs\<close>. What the file system answers (the home directory,
  the canonical form of a path that exists) is a parameter.
\<close>

subsection \<open>Components\<close>

datatype path_component = RootDir | CurDir | ParentDir | Normal string

fun component_key :: "path_component \<Rightarrow> nat \<times> string" where
  "component_key RootDir = (0, [])"
| "component_key CurDir = (1, [])"
| "component_key ParentDir = (2, [])"
| "component_key (Normal n) = (3, n)"

lemma component_key_inj: "component_key a = component_key b \<Longrightarrow> a = b"
  by (cases a; cases b) simp_all

instantiation path_component :: linorder
begin

definition less_eq_path_component :: "path_component \<Rightarrow> path_component \<Rightarrow> bool" where
  "less_eq_path_component a b \<longleftrightarrow> component_key a \<le> component_key b"

definition less_path_component :: "path_component \<Rightarrow> path_component \<Rightarrow> bool" where
  "less_path_component a b \<longleftrightarrow> component_key a < component_key b"

instance
  by standard
    (auto simp: less_eq_path_component_def less_path_component_def less_le_not_le dest: component_key_inj)

end

definition path_segments :: "string \<Rightarrow> string list" where
  "path_segments p = filter (\<lambda>s. s \<noteq> [] \<and> s \<noteq> ''.'') (split_on (CHR ''/'') p)"

definition component_of :: "string \<Rightarrow> path_component" where
  "component_of s = (if s = ''..'' then ParentDir else Normal s)"

definition path_is_absolute :: "string \<Rightarrow> bool" where
  "path_is_absolute p \<longleftrightarrow> starts_with p ''/''"

definition path_components :: "string \<Rightarrow> path_component list" where
  "path_components p =
     (if path_is_absolute p then [RootDir]
      else if hd (split_on (CHR ''/'') p) = ''.'' then [CurDir] else [])
     @ map component_of (path_segments p)"

definition path_join :: "string \<Rightarrow> string \<Rightarrow> string" where
  "path_join base p =
     (if path_is_absolute p then p
      else if base = [] \<or> last base = CHR ''/'' then base @ p
      else base @ ''/'' @ p)"

fun component_string :: "path_component \<Rightarrow> string" where
  "component_string RootDir = ''/''"
| "component_string CurDir = ''.''"
| "component_string ParentDir = ''..''"
| "component_string (Normal n) = n"

definition path_string :: "path_component list \<Rightarrow> string" where
  "path_string cs = fold (\<lambda>c p. path_join p (component_string c)) cs []"

subsection \<open>\<open>OverlayPathResolver\<close>\<close>

definition expand_tilde :: "string option \<Rightarrow> string \<Rightarrow> string" where
  "expand_tilde home path =
     (if path = ''~'' then (case home of None \<Rightarrow> ''~'' | Some h \<Rightarrow> h)
      else
        (case strip_prefix path ''~/'' of
           None \<Rightarrow> path
         | Some rest \<Rightarrow> (case home of None \<Rightarrow> path | Some h \<Rightarrow> path_join h rest)))"

definition make_absolute_with_cwd :: "string option \<Rightarrow> string \<Rightarrow> string \<Rightarrow> string" where
  "make_absolute_with_cwd home cwd path =
     (let expanded = expand_tilde home path in
      if path_is_absolute expanded then expanded else path_join cwd expanded)"

text \<open>The result is kept as its components, the last one first.\<close>

fun normalize_step :: "path_component \<Rightarrow> path_component list \<Rightarrow> path_component list" where
  "normalize_step CurDir r = r"
| "normalize_step ParentDir r =
     (case r of Normal _ # r' \<Rightarrow> r' | RootDir # _ \<Rightarrow> r | _ \<Rightarrow> ParentDir # r)"
| "normalize_step (Normal n) r = Normal n # r"
| "normalize_step RootDir r = [RootDir]"

definition normalize_components :: "path_component list \<Rightarrow> path_component list" where
  "normalize_components cs = rev (fold normalize_step cs [])"

definition normalize_lexically :: "string \<Rightarrow> string" where
  "normalize_lexically p = path_string (normalize_components (path_components p))"

text \<open>
  \<open>canonicalize_lossy\<close>: the longest prefix the file system knows is replaced by its canonical form.
  \<open>canon\<close> is \<open>std::fs::canonicalize\<close>. The loop goes to the parent as long as there is one: the root and
  the empty path have none.
\<close>

fun canonical_ancestor ::
  "(string \<Rightarrow> string option) \<Rightarrow> path_component list \<Rightarrow> string list \<Rightarrow> string option" where
  "canonical_ancestor canon [] suffix = None"
| "canonical_ancestor canon (c # r) suffix =
     (if c = RootDir then None
      else
        (let suffix' = (case c of Normal n \<Rightarrow> n # suffix | _ \<Rightarrow> suffix) in
         case canon (path_string (rev r)) of
           Some out \<Rightarrow> Some (fold (\<lambda>n p. path_join p n) suffix' out)
         | None \<Rightarrow> canonical_ancestor canon r suffix'))"

definition canonicalize_lossy :: "(string \<Rightarrow> string option) \<Rightarrow> string \<Rightarrow> string" where
  "canonicalize_lossy canon path =
     (let normalized = normalize_lexically path in
      case canon normalized of
        Some c \<Rightarrow> c
      | None \<Rightarrow>
          (case canonical_ancestor canon (rev (path_components normalized)) [] of
             Some out \<Rightarrow> out | None \<Rightarrow> normalized))"

definition conflict_key :: "(string \<Rightarrow> string option) \<Rightarrow> string \<Rightarrow> string" where
  "conflict_key canon path = (case canon path of None \<Rightarrow> path | Some c \<Rightarrow> c)"

subsection \<open>Normalised paths\<close>

text \<open>What is left of \<open>..\<close> after normalisation stands at the start of a relative path.\<close>

fun normal_form :: "path_component list \<Rightarrow> bool" where
  "normal_form [] = True"
| "normal_form (RootDir # r) = (r = [])"
| "normal_form (CurDir # r) = False"
| "normal_form (ParentDir # r) = list_all (\<lambda>c. c = ParentDir) r"
| "normal_form (Normal n # r) = normal_form r"

lemma normalize_step_form: "normal_form r \<Longrightarrow> normal_form (normalize_step c r)"
proof (cases c)
  case ParentDir
  assume "normal_form r"
  then show ?thesis using ParentDir by (cases r rule: normal_form.cases) auto
qed auto

interpretation normalizer: invariant_machine normalize_step normal_form
  by unfold_locales (rule normalize_step_form)

lemma normalized: "normal_form (rev (normalize_components cs))"
  using normalizer.run_inv [of "[]" cs] by (simp add: normalize_components_def)

lemma normal_form_no_parent: "normal_form r \<Longrightarrow> RootDir \<in> set r \<Longrightarrow> ParentDir \<notin> set r"
proof (induction r rule: normal_form.induct)
  case (4 r)
  then show ?case by (auto simp: list_all_iff)
qed auto

lemma fold_normalize_root:
  "RootDir \<in> set r \<Longrightarrow> normal_form r \<Longrightarrow> RootDir \<in> set (fold normalize_step cs r)"
proof (induction cs arbitrary: r)
  case (Cons c cs)
  have "RootDir \<in> set (normalize_step c r)"
    using Cons.prems by (cases c; cases r rule: normal_form.cases) (auto simp: list_all_iff)
  then show ?case using Cons normalize_step_form by simp
qed simp

lemma absolute_normalized:
  assumes "path_is_absolute p"
  shows "ParentDir \<notin> set (normalize_components (path_components p))"
proof -
  have "path_components p = RootDir # map component_of (path_segments p)"
    using assms by (simp add: path_components_def)
  then have "RootDir \<in> set (rev (normalize_components (path_components p)))"
    using fold_normalize_root [of "[RootDir]"] by (simp add: normalize_components_def)
  from normal_form_no_parent [OF normalized this] show ?thesis by simp
qed

end
