(* ===== verification/Overlays.thy ===== *)
theory Overlays
  imports Paths
begin

text \<open>
  \<open>src/data/config/overlays.rs\<close>: the grammar of overlay expressions and the merge of the sources that
  name overlays. The home directory of the user (\<open>dirs::home_dir\<close>) is the parameter \<open>home\<close>; the reasons
  of a refusal are the constructors of \<open>overlay_error\<close>, with what the messages quote.
\<close>

subsection \<open>Overlays\<close>

datatype overlay_permission = ReadOnly | ReadWrite

fun permission_as_str :: "overlay_permission \<Rightarrow> string" where
  "permission_as_str ReadOnly = ''ro''"
| "permission_as_str ReadWrite = ''rw''"

record directory_spec =
  ds_host :: string
  ds_container :: string
  ds_permission :: overlay_permission

datatype context_scope = Global | Repo | Workflow

datatype skill_spec = All | Named string

record context_overlay_spec =
  cs_scope :: context_scope
  cs_permission :: overlay_permission

datatype typed_overlay =
    Directory directory_spec
  | Skill skill_spec
  | Env string
  | Context context_overlay_spec

datatype overlay_error =
    Expected_host_container string
  | Empty_host_path
  | Empty_container_path
  | Container_not_absolute string
  | Unknown_permission string
  | Missing_open_paren string
  | Missing_close_paren string
  | Parens_out_of_order string
  | Skill_requires_argument
  | Skill_takes_one_argument
  | Skill_too_many_segments string
  | Skill_bad_segment string
  | Skills_removed
  | Ssh_takes_no_arguments
  | Env_requires_argument
  | Env_takes_one_argument
  | Env_bad_name string
  | Context_requires_scope
  | Unknown_scope string string
  | Unknown_permission_in string string
  | Unknown_overlay_type string string
  | Empty_arguments string
  | Invalid_permission string string
  | Expected_host_container_in string
  | Empty_host_path_in string
  | Empty_container_path_in string

subsection \<open>Parsing\<close>

definition colon :: char where
  "colon = CHR '':''"

definition parse_overlay_spec :: "string \<Rightarrow> (overlay_error, directory_spec) result" where
  "parse_overlay_spec spec =
     (case splitn 3 colon spec of
        host # container # rest \<Rightarrow>
          if host = [] then Inl Empty_host_path
          else if container = [] then Inl Empty_container_path
          else if \<not> starts_with container ''/'' then Inl (Container_not_absolute container)
          else
            (let ok = (\<lambda>p. Inr \<lparr>ds_host = host, ds_container = container, ds_permission = p\<rparr>) in
             case rest of
               [] \<Rightarrow> ok ReadWrite
             | perm # _ \<Rightarrow>
                 if perm = ''rw'' \<or> perm = [] then ok ReadWrite
                 else if perm = ''ro'' then ok ReadOnly
                 else Inl (Unknown_permission perm))
      | _ \<Rightarrow> Inl (Expected_host_container spec))"

text \<open>Commas inside parentheses do not split; a closing parenthesis too many is ignored.\<close>

fun split_commas :: "nat \<Rightarrow> string \<Rightarrow> string \<Rightarrow> string list" where
  "split_commas depth acc [] = [rev acc]"
| "split_commas depth acc (c # cs) =
     (if c = CHR ''('' then split_commas (Suc depth) (c # acc) cs
      else if c = CHR '')'' then split_commas (depth - 1) (c # acc) cs
      else if c = CHR '','' \<and> depth = 0 then rev acc # split_commas depth [] cs
      else split_commas depth (c # acc) cs)"

definition split_top_level_commas :: "string \<Rightarrow> string list" where
  "split_top_level_commas input = split_commas 0 [] input"

definition dir_parts :: "string \<Rightarrow> string \<Rightarrow> (overlay_error, string \<times> string \<times> string option) result" where
  "dir_parts args full_expr =
     (case splitn 3 colon args of
        [h, c] \<Rightarrow> Inr (h, c, None)
      | [h, c, p] \<Rightarrow>
          (let candidate = trim p in
           if candidate = ''ro'' \<or> candidate = ''rw'' then Inr (h, c, Some candidate)
           else Inl (Invalid_permission candidate full_expr))
      | _ \<Rightarrow> Inl (Expected_host_container_in full_expr))"

definition parse_dir_overlay_args ::
  "string option \<Rightarrow> string \<Rightarrow> string \<Rightarrow> (overlay_error, directory_spec) result" where
  "parse_dir_overlay_args home args full_expr =
     (if args = [] then Inl (Empty_arguments full_expr)
      else
        rbind (dir_parts args full_expr)
          (\<lambda>(host_str, container_str, perm_str).
             let host = trim host_str; container = trim container_str in
             if host = [] then Inl (Empty_host_path_in full_expr)
             else if container = [] then Inl (Empty_container_path_in full_expr)
             else Inr \<lparr>ds_host = expand_tilde home host, ds_container = container,
                       ds_permission = (if perm_str = Some ''ro'' then ReadOnly else ReadWrite)\<rparr>))"

definition parse_skill :: "string \<Rightarrow> (overlay_error, typed_overlay) result" where
  "parse_skill args =
     (if args = [] then Inl Skill_requires_argument
      else if CHR '','' \<in> set args then Inl Skill_takes_one_argument
      else if args = ''*'' then Inr (Skill All)
      else if 1 < count_list args (CHR ''/'') then Inl (Skill_too_many_segments args)
      else if list_ex (\<lambda>s. s = [] \<or> s = ''.'' \<or> s = ''..'') (split_on (CHR ''/'') args)
      then Inl (Skill_bad_segment args)
      else Inr (Skill (Named args)))"

definition valid_env_name :: "string \<Rightarrow> bool" where
  "valid_env_name name \<longleftrightarrow>
     (case name of [] \<Rightarrow> False | c # _ \<Rightarrow> is_ascii_alphabetic c \<or> c = CHR ''_'') \<and>
     list_all (\<lambda>c. is_ascii_alnum c \<or> c = CHR ''_'') name"

definition parse_env :: "string \<Rightarrow> (overlay_error, typed_overlay) result" where
  "parse_env args =
     (if args = [] then Inl Env_requires_argument
      else if CHR '','' \<in> set args then Inl Env_takes_one_argument
      else if \<not> valid_env_name args then Inl (Env_bad_name args)
      else Inr (Env args))"

definition parse_scope :: "string \<Rightarrow> context_scope option" where
  "parse_scope s =
     (if s = ''global'' then Some Global else if s = ''repo'' then Some Repo
      else if s = ''workflow'' then Some Workflow else None)"

definition parse_context :: "string \<Rightarrow> string \<Rightarrow> (overlay_error, typed_overlay) result" where
  "parse_context args expr =
     (if args = [] then Inl Context_requires_scope
      else
        (let parts = splitn 2 colon args; scope_str = trim (hd parts) in
         case parse_scope scope_str of
           None \<Rightarrow> Inl (Unknown_scope scope_str expr)
         | Some scope \<Rightarrow>
             (let ok = (\<lambda>p. Inr (Context \<lparr>cs_scope = scope, cs_permission = p\<rparr>)) in
              case tl parts of
                [] \<Rightarrow> ok ReadWrite
              | perm # _ \<Rightarrow>
                  if trim perm = ''ro'' then ok ReadOnly
                  else if trim perm = ''rw'' then ok ReadWrite
                  else Inl (Unknown_permission_in (trim perm) expr))))"

definition parse_ssh :: "string option \<Rightarrow> string \<Rightarrow> (overlay_error, typed_overlay) result" where
  "parse_ssh home args =
     (if args \<noteq> [] then Inl Ssh_takes_no_arguments
      else Inr (Directory
        \<lparr>ds_host = path_join (case home of None \<Rightarrow> [] | Some h \<Rightarrow> h) ''.ssh'',
         ds_container = ''~/.ssh'', ds_permission = ReadOnly\<rparr>))"

definition rposition :: "char \<Rightarrow> string \<Rightarrow> nat option" where
  "rposition c s = map_option (\<lambda>i. length s - Suc i) (position (\<lambda>x. x = c) (rev s))"

definition parse_tagged ::
  "string option \<Rightarrow> string \<Rightarrow> string \<Rightarrow> string \<Rightarrow> (overlay_error, typed_overlay) result" where
  "parse_tagged home tag args expr =
     (if tag = ''dir'' then rbind (parse_dir_overlay_args home args expr) (\<lambda>d. Inr (Directory d))
      else if tag = ''skill'' then parse_skill args
      else if tag = ''skills'' then Inl Skills_removed
      else if tag = ''ssh'' then parse_ssh home args
      else if tag = ''env'' then parse_env args
      else if tag = ''context'' then parse_context args expr
      else Inl (Unknown_overlay_type tag expr))"

definition parse_single_typed_overlay ::
  "string option \<Rightarrow> string \<Rightarrow> (overlay_error, typed_overlay) result" where
  "parse_single_typed_overlay home expr =
     (if CHR ''('' \<notin> set expr
      then rbind (parse_overlay_spec expr) (\<lambda>d. Inr (Directory d))
      else
        (case (position (\<lambda>c. c = CHR ''('') expr, rposition (CHR '')'') expr) of
           (None, _) \<Rightarrow> Inl (Missing_open_paren expr)
         | (_, None) \<Rightarrow> Inl (Missing_close_paren expr)
         | (Some open, Some close) \<Rightarrow>
             if close \<le> open then Inl (Parens_out_of_order expr)
             else parse_tagged home (trim (take open expr))
                    (trim (take (close - Suc open) (drop (Suc open) expr))) expr))"

definition parse_overlay_list ::
  "string option \<Rightarrow> string \<Rightarrow> (overlay_error, typed_overlay list) result" where
  "parse_overlay_list home input =
     (if trim input = [] then Inr []
      else rmap (parse_single_typed_overlay home)
             (filter (\<lambda>e. e \<noteq> []) (map trim (split_top_level_commas (trim input)))))"

text \<open>\<open>launch_policy.rs\<close>: the repeated \<open>--overlay\<close> flags of a command, in their order; the first one that does
  not parse is reported with its value.\<close>

datatype data_error = InvalidOverlaySpec string overlay_error

fun parse_overlay_flags :: "string option \<Rightarrow> string list \<Rightarrow> (data_error, typed_overlay list) result" where
  "parse_overlay_flags home [] = Inr []"
| "parse_overlay_flags home (v # vs) =
     (case parse_overlay_list home v of
        Inl reason \<Rightarrow> Inl (InvalidOverlaySpec v reason)
      | Inr parsed \<Rightarrow> rbind (parse_overlay_flags home vs) (\<lambda>rest. Inr (parsed @ rest)))"

subsection \<open>Collecting\<close>

record collected =
  co_directories :: "directory_spec list"
  co_include_all_skills :: bool
  co_named_skills :: "string list"
  co_env_passthrough :: "string list"
  co_context_overlays :: "context_overlay_spec list"

definition no_overlays :: collected where
  "no_overlays = \<lparr>co_directories = [], co_include_all_skills = False, co_named_skills = [],
     co_env_passthrough = [], co_context_overlays = []\<rparr>"

definition push_new :: "'a \<Rightarrow> 'a list \<Rightarrow> 'a list" where
  "push_new x xs = (if x \<in> set xs then xs else xs @ [x])"

fun process_typed :: "typed_overlay \<Rightarrow> collected \<Rightarrow> collected" where
  "process_typed (Directory spec) c = c\<lparr>co_directories := co_directories c @ [spec]\<rparr>"
| "process_typed (Skill All) c = c\<lparr>co_include_all_skills := True\<rparr>"
| "process_typed (Skill (Named n)) c = c\<lparr>co_named_skills := push_new n (co_named_skills c)\<rparr>"
| "process_typed (Env v) c = c\<lparr>co_env_passthrough := push_new v (co_env_passthrough c)\<rparr>"
| "process_typed (Context spec) c =
     (if list_ex (\<lambda>x. cs_scope x = cs_scope spec) (co_context_overlays c) then c
      else c\<lparr>co_context_overlays := co_context_overlays c @ [spec]\<rparr>)"

fun collect_specs ::
  "string option \<Rightarrow> (string \<Rightarrow> string) \<Rightarrow> string list \<Rightarrow> collected \<Rightarrow>
     (data_error, collected) result" where
  "collect_specs home shown [] c = Inr c"
| "collect_specs home shown (s # ss) c =
     (case parse_overlay_list home s of
        Inl reason \<Rightarrow> Inl (InvalidOverlaySpec (shown s) reason)
      | Inr parsed \<Rightarrow> collect_specs home shown ss (fold process_typed parsed c))"

record overlay_sources =
  os_global :: "string list option"
  os_repo :: "string list option"
  os_env :: "string option"
  os_cli :: "typed_overlay list"
  os_workflow :: "string list option"
  os_step :: "string list option"

definition or_none :: "'a list option \<Rightarrow> 'a list" where
  "or_none x = (case x of None \<Rightarrow> [] | Some xs \<Rightarrow> xs)"

definition collected_overlays ::
  "string option \<Rightarrow> overlay_sources \<Rightarrow> (data_error, collected) result" where
  "collected_overlays home src =
     rbind (collect_specs home id (or_none (os_global src)) no_overlays) (\<lambda>c.
     rbind (collect_specs home id (or_none (os_repo src)) c) (\<lambda>c.
     rbind (collect_specs home (\<lambda>s. ''AWMAN_OVERLAYS: '' @ s)
              (case os_env src of None \<Rightarrow> [] | Some s \<Rightarrow> [s]) c) (\<lambda>c.
     let c = fold process_typed (os_cli src) c in
     rbind (collect_specs home id (or_none (os_workflow src)) c) (\<lambda>c.
     collect_specs home id (or_none (os_step src)) c))))"

subsection \<open>Trimmed texts\<close>

lemma ws_heads: "w \<in> set ws_chars \<Longrightarrow> hd w \<in> {CHR 0x09, CHR 0x0A, CHR 0x0B, CHR 0x0C, CHR 0x0D, CHR 0x20, CHR 0xC2, CHR 0xE1, CHR 0xE2, CHR 0xE3}"
  by (simp add: ws_chars_def) (elim disjE; simp)

lemma ws_not_Nil: "w \<in> set ws_chars \<Longrightarrow> w \<noteq> []"
  by (simp add: ws_chars_def) (elim disjE; simp)

lemma ws_no_paren: "w \<in> set ws_chars \<Longrightarrow> CHR '')'' \<notin> set w \<and> colon \<notin> set w"
  by (simp add: ws_chars_def colon_def) (elim disjE; simp)

lemma ws_len_zero: "ws_len s = 0 \<longleftrightarrow> (\<forall>w \<in> set ws_chars. \<not> starts_with s w)"
proof -
  have "find (starts_with s) ws_chars = Some w \<Longrightarrow> w \<in> set ws_chars \<and> starts_with s w" for w
    by (auto simp: find_Some_iff)
  then show ?thesis using ws_not_Nil
    by (auto simp: ws_len_def find_None_iff split: option.splits)
qed

lemma ws_len_end_zero: "ws_len_end s = 0 \<longleftrightarrow> (\<forall>w \<in> set ws_chars. \<not> ends_with s w)"
proof -
  have "find (ends_with s) ws_chars = Some w \<Longrightarrow> w \<in> set ws_chars \<and> ends_with s w" for w
    by (auto simp: find_Some_iff)
  then show ?thesis using ws_not_Nil
    by (auto simp: ws_len_end_def find_None_iff split: option.splits)
qed

lemma ws_len_alnum: "is_ascii_alnum c \<or> c = CHR ''_'' \<Longrightarrow> ws_len (c # s) = 0"
proof -
  assume c: "is_ascii_alnum c \<or> c = CHR ''_''"
  have "\<not> starts_with (c # s) w" if "w \<in> set ws_chars" for w
  proof
    assume "starts_with (c # s) w"
    then have "hd w = c" using ws_not_Nil [OF that] by (cases w) (auto simp: starts_with_iff)
    then show False using ws_heads [OF that] c
      by (auto simp: is_ascii_alnum_def is_ascii_digit_def is_ascii_upper_def less_eq_char_def)
  qed
  then show ?thesis by (simp add: ws_len_zero)
qed

lemma ws_len_end_paren: "ws_len_end (s @ [CHR '')'']) = 0"
proof -
  have "\<not> ends_with (s @ [CHR '')'']) w" if "w \<in> set ws_chars" for w
  proof
    assume "ends_with (s @ [CHR '')'']) w"
    then obtain r where "s @ [CHR '')''] = r @ w" by (auto simp: ends_with_iff)
    then have "last w = CHR '')''" using ws_not_Nil [OF that] by (metis last_appendR last_snoc)
    then show False using ws_no_paren [OF that] ws_not_Nil [OF that] last_in_set by metis
  qed
  then show ?thesis by (simp add: ws_len_end_zero)
qed

text \<open>A text that starts trimmed still does when a colon and more follow.\<close>

lemma ws_len_colon:
  assumes "h \<noteq> []" and "ws_len h = 0"
  shows "ws_len (h @ colon # r) = 0"
proof -
  have "\<not> starts_with (h @ colon # r) w" if w: "w \<in> set ws_chars" for w
  proof
    assume "starts_with (h @ colon # r) w"
    then obtain q where q: "h @ colon # r = w @ q" by (auto simp: starts_with_iff)
    then have "starts_with h w"
    proof (cases "length w \<le> length h")
      case True
      then have "w = take (length w) h" using q by (metis append_eq_conv_conj take_append take_all diff_is_0_eq take0 append_Nil2)
      then show ?thesis unfolding starts_with_iff by (metis append_take_drop_id)
    next
      case False
      then have "w ! length h = colon" using q by (metis nth_append nth_append_length not_le_imp_less)
      then show ?thesis using ws_no_paren [OF w] False by (metis not_le_imp_less nth_mem)
    qed
    then show False using assms(2) w by (simp add: ws_len_zero)
  qed
  then show ?thesis by (simp add: ws_len_zero)
qed

subsection \<open>Expressions are read back\<close>

fun show_scope :: "context_scope \<Rightarrow> string" where
  "show_scope Global = ''global''"
| "show_scope Repo = ''repo''"
| "show_scope Workflow = ''workflow''"

text \<open>An overlay as the documentation spells it.\<close>

fun overlay_call :: "typed_overlay \<Rightarrow> string \<times> string" where
  "overlay_call (Directory d) =
     (''dir'', ds_host d @ colon # ds_container d @ colon # permission_as_str (ds_permission d))"
| "overlay_call (Skill All) = (''skill'', ''*'')"
| "overlay_call (Skill (Named n)) = (''skill'', n)"
| "overlay_call (Env v) = (''env'', v)"
| "overlay_call (Context c) = (''context'', show_scope (cs_scope c) @ colon # permission_as_str (cs_permission c))"

definition call_string :: "string \<times> string \<Rightarrow> string" where
  "call_string ta = fst ta @ ''('' @ snd ta @ '')''"

definition show_overlay :: "typed_overlay \<Rightarrow> string" where
  "show_overlay ov = call_string (overlay_call ov)"

definition contained_segments :: "string \<Rightarrow> bool" where
  "contained_segments n \<longleftrightarrow>
     length (split_on (CHR ''/'') n) \<le> 2 \<and> [] \<notin> set (split_on (CHR ''/'') n) \<and>
     ''.'' \<notin> set (split_on (CHR ''/'') n) \<and> ''..'' \<notin> set (split_on (CHR ''/'') n)"

text \<open>Which overlays can be spelled: their texts are trimmed and keep clear of the punctuation.\<close>

definition plain_text :: "string \<Rightarrow> bool" where
  "plain_text s \<longleftrightarrow> s \<noteq> [] \<and> trim s = s \<and> CHR ''('' \<notin> set s \<and> CHR '')'' \<notin> set s"

fun printable :: "string option \<Rightarrow> typed_overlay \<Rightarrow> bool" where
  "printable home (Directory d) \<longleftrightarrow>
     plain_text (ds_host d) \<and> plain_text (ds_container d) \<and> colon \<notin> set (ds_host d) \<and>
     colon \<notin> set (ds_container d) \<and> expand_tilde home (ds_host d) = ds_host d"
| "printable home (Skill All) \<longleftrightarrow> True"
| "printable home (Skill (Named n)) \<longleftrightarrow>
     plain_text n \<and> CHR '','' \<notin> set n \<and> n \<noteq> ''*'' \<and> contained_segments n"
| "printable home (Env v) \<longleftrightarrow> valid_env_name v"
| "printable home (Context c) \<longleftrightarrow> True"

lemma length_split_on: "length (split_on c s) = Suc (count_list s c)"
  by (induction c s rule: split_on.induct) (auto split: list.splits)

definition plain_call :: "string \<times> string \<Rightarrow> bool" where
  "plain_call ta \<longleftrightarrow>
     fst ta \<in> {''dir'', ''skill'', ''env'', ''context''} \<and> ws_len (snd ta) = 0 \<and> ws_len_end (snd ta) = 0 \<and>
     CHR ''('' \<notin> set (snd ta) \<and> CHR '')'' \<notin> set (snd ta)"

lemma ws_len_end_alnum: "s \<noteq> [] \<Longrightarrow> is_ascii_alnum (last s) \<or> last s = CHR ''_'' \<Longrightarrow> ws_len_end s = 0"
proof -
  assume s: "s \<noteq> []" "is_ascii_alnum (last s) \<or> last s = CHR ''_''"
  have "\<not> ends_with s w" if w: "w \<in> set ws_chars" for w
  proof
    assume "ends_with s w"
    then have "last w = last s" using ws_not_Nil [OF w] by (auto simp: ends_with_iff)
    then have "is_ascii_alnum (last w) \<or> last w = CHR ''_''" using s(2) by simp
    then show False using w
      by (simp add: ws_chars_def) (elim disjE; simp add: is_ascii_alnum_def is_ascii_digit_def is_ascii_upper_def less_eq_char_def)+
  qed
  then show ?thesis by (simp add: ws_len_end_zero)
qed

lemma permission_end: "ws_len_end (x @ permission_as_str q) = 0"
  by (rule ws_len_end_alnum) (cases q; simp add: is_ascii_alnum_def is_ascii_digit_def is_ascii_upper_def less_eq_char_def)+

lemma env_trimmed:
  assumes "valid_env_name v"
  shows "v \<noteq> []" "ws_len v = 0" "ws_len_end v = 0" "CHR ''('' \<notin> set v" "CHR '')'' \<notin> set v" "CHR '','' \<notin> set v"
proof -
  from assms have all: "\<forall>c \<in> set v. is_ascii_alnum c \<or> c = CHR ''_''" and n: "v \<noteq> []"
    by (auto simp: valid_env_name_def list_all_iff)
  show "v \<noteq> []" by (rule n)
  show "ws_len v = 0" using ws_len_alnum all n by (cases v) auto
  show "ws_len_end v = 0" using ws_len_end_alnum [OF n] all last_in_set [OF n] by blast
  show "CHR ''('' \<notin> set v" "CHR '')'' \<notin> set v" "CHR '','' \<notin> set v"
    using all by (auto simp: is_ascii_alnum_def is_ascii_digit_def is_ascii_upper_def less_eq_char_def)
qed

lemma overlay_call_plain: "printable home ov \<Longrightarrow> plain_call (overlay_call ov)"
proof (induction ov rule: overlay_call.induct)
  case (1 d)
  then show ?case
    using ws_len_colon [of "ds_host d" "ds_container d @ colon # permission_as_str (ds_permission d)"]
      permission_end [of "ds_host d @ colon # ds_container d @ [colon]" "ds_permission d"]
    by (cases "ds_permission d") (auto simp: plain_call_def plain_text_def trim_id_iff colon_def)
next
  case 2
  then show ?case unfolding plain_call_def overlay_call.simps by code_simp
next
  case (3 n)
  then show ?case by (auto simp: plain_call_def plain_text_def trim_id_iff)
next
  case (4 v)
  then show ?case by (simp add: plain_call_def env_trimmed)
next
  case (5 c)
  have "ws_len (show_scope (cs_scope c) @ colon # permission_as_str (cs_permission c)) = 0"
    by (cases "cs_scope c") (simp_all add: ws_len_alnum is_ascii_alnum_def is_ascii_digit_def is_ascii_upper_def less_eq_char_def)
  moreover have "ws_len_end (show_scope (cs_scope c) @ colon # permission_as_str (cs_permission c)) = 0"
    using permission_end [of "show_scope (cs_scope c) @ [colon]" "cs_permission c"] by simp
  ultimately show ?case
    by (cases "cs_scope c"; cases "cs_permission c") (simp_all add: plain_call_def colon_def)
qed

lemma call_string_split:
  assumes "plain_call ta"
  shows "split_commas 0 acc (call_string ta @ r) = split_commas 0 (rev (call_string ta) @ acc) r"
proof -
  have scan: "split_commas d acc (s @ r) = split_commas d (rev s @ acc) r"
    if "CHR ''('' \<notin> set s" "CHR '')'' \<notin> set s" "d = 0 \<longrightarrow> CHR '','' \<notin> set s" for d acc s r
    using that by (induction s arbitrary: acc) auto
  obtain t a where ta: "ta = (t, a)" by (cases ta)
  have t: "CHR ''('' \<notin> set t" "CHR '')'' \<notin> set t" "CHR '','' \<notin> set t"
    and a: "CHR ''('' \<notin> set a" "CHR '')'' \<notin> set a"
    using assms by (auto simp: plain_call_def ta)
  show ?thesis
    using scan [OF t(1,2), of 0] scan [OF a, of 1] t(3) by (simp add: call_string_def ta)
qed

lemma split_calls:
  "calls \<noteq> [] \<Longrightarrow> list_all plain_call calls \<Longrightarrow>
     split_top_level_commas (join_str '','' (map call_string calls)) = map call_string calls"
  unfolding split_top_level_commas_def
proof (induction calls rule: induct_list012)
  case (2 x)
  then show ?case using call_string_split [of x "[]" "[]"] by simp
next
  case (3 x y zs)
  then show ?case using call_string_split [of x "[]"] by simp
qed simp

lemma call_trimmed:
  assumes "plain_call ta" shows "trim (call_string ta) = call_string ta"
proof -
  obtain t a where ta: "ta = (t, a)" by (cases ta)
  have "ws_len (t @ x) = 0" for x
    using assms by (auto simp: plain_call_def ta intro!: ws_len_alnum, auto simp: is_ascii_alnum_def is_ascii_digit_def is_ascii_upper_def less_eq_char_def)
  moreover have "ws_len_end (call_string ta) = 0"
    using ws_len_end_paren [of "t @ ''('' @ a"] by (simp add: call_string_def ta)
  ultimately show ?thesis by (simp add: trim_id_iff call_string_def ta)
qed

lemma parse_call:
  assumes "plain_call (t, a)"
  shows "parse_single_typed_overlay home (call_string (t, a)) = parse_tagged home t a (call_string (t, a))"
proof -
  let ?e = "call_string (t, a)"
  have e: "?e = t @ CHR ''('' # a @ [CHR '')'']" by (simp add: call_string_def)
  have t: "CHR ''('' \<notin> set t" using assms by (auto simp: plain_call_def)
  have "position (\<lambda>c. c = CHR ''('') ?e = Some (length t)"
    using t by (intro position_eq_SomeI) (auto simp: e nth_append in_set_conv_nth)
  moreover have "rposition (CHR '')'') ?e = Some (Suc (length t + length a))"
    by (simp add: rposition_def e)
  moreover have "trim t = t" using assms by (auto simp: plain_call_def) (code_simp)+
  moreover have "trim a = a" using assms by (simp add: plain_call_def trim_id_iff)
  ultimately show ?thesis by (simp add: parse_single_typed_overlay_def) (simp add: e)
qed

lemma splitn_three:
  "colon \<notin> set h \<Longrightarrow> colon \<notin> set c \<Longrightarrow> splitn 3 colon (h @ colon # c @ colon # r) = [h, c, r]"
  using split_once_Some [of colon "h @ colon # c @ colon # r" h "c @ colon # r"]
    split_once_Some [of colon "c @ colon # r" c r]
  by (simp add: numeral_3_eq_3)

lemma splitn_two: "colon \<notin> set h \<Longrightarrow> splitn 2 colon (h @ colon # r) = [h, r]"
  using split_once_Some [of colon "h @ colon # r" h r] by (simp add: numeral_2_eq_2)

lemma trim_perms [simp]: "trim ''ro'' = ''ro''" "trim ''rw'' = ''rw''"
  by code_simp+

lemma trim_scope [simp]: "trim (show_scope x) = show_scope x"
proof -
  have "trim ''global'' = ''global'' \<and> trim ''repo'' = ''repo'' \<and> trim ''workflow'' = ''workflow''"
    by code_simp
  then show ?thesis by (cases x) simp_all
qed

lemma parse_printed:
  assumes "printable home ov"
  shows "parse_tagged home (fst (overlay_call ov)) (snd (overlay_call ov)) e = Inr ov"
  using assms
proof (induction ov rule: overlay_call.induct)
  case (1 d)
  then show ?case
    by (cases "ds_permission d")
      (auto simp: parse_tagged_def parse_dir_overlay_args_def dir_parts_def splitn_three plain_text_def)
next
  case 2
  then show ?case by (simp add: parse_tagged_def parse_skill_def)
next
  case (3 n)
  then show ?case
    by (auto simp: parse_tagged_def parse_skill_def plain_text_def contained_segments_def length_split_on
        list_ex_iff)
next
  case (4 v)
  then show ?case by (simp add: parse_tagged_def parse_env_def env_trimmed)
next
  case (5 c)
  have "colon \<notin> set (show_scope (cs_scope c))" by (cases "cs_scope c") (simp_all add: colon_def)
  then have "splitn 2 colon (show_scope (cs_scope c) @ colon # permission_as_str (cs_permission c))
      = [show_scope (cs_scope c), permission_as_str (cs_permission c)]"
    by (rule splitn_two)
  moreover have "parse_scope (show_scope (cs_scope c)) = Some (cs_scope c)"
    by (cases "cs_scope c") (simp_all add: parse_scope_def)
  moreover have "permission_as_str (cs_permission c) = ''ro'' \<longleftrightarrow> cs_permission c = ReadOnly"
    "permission_as_str (cs_permission c) = ''rw'' \<longleftrightarrow> cs_permission c = ReadWrite"
    by (cases "cs_permission c"; simp)+
  ultimately show ?case
    by (cases "cs_permission c") (simp_all add: parse_tagged_def parse_context_def Let_def)
qed

lemma join_trimmed:
  assumes "calls \<noteq> []" and "list_all plain_call calls"
  shows "trim (join_str '','' (map call_string calls)) = join_str '','' (map call_string calls)"
proof -
  have "ws_len (join_str '','' (map call_string calls)) = 0"
  proof (cases calls)
    case (Cons ta r)
    then obtain x where "join_str '','' (map call_string calls) = fst ta @ x"
      by (cases r) (auto simp: call_string_def)
    moreover have "ws_len (fst ta @ x) = 0"
      using assms Cons by (auto simp: plain_call_def intro!: ws_len_alnum, auto simp: is_ascii_alnum_def is_ascii_digit_def is_ascii_upper_def less_eq_char_def)
    ultimately show ?thesis by simp
  qed (use assms in simp)
  moreover have "\<exists>x. join_str '','' (map call_string calls) = x @ [CHR '')'']"
    using assms(1)
  proof (induction calls rule: induct_list012)
    case (3 x y zs)
    then show ?case by (auto simp: call_string_def)
  qed (auto simp: call_string_def)
  ultimately show ?thesis using ws_len_end_paren by (auto simp: trim_id_iff)
qed

text \<open>
  Property C30. The grammar is read back: a list of overlays, each spelled as a call and the calls
  separated by commas, parses to the same overlays in the same order.
\<close>

theorem overlay_round_trip:
  assumes "list_all (printable home) ovs"
  shows "parse_overlay_list home (join_str '','' (map show_overlay ovs)) = Inr ovs"
proof (cases "ovs = []")
  case True
  then show ?thesis by (simp add: parse_overlay_list_def) code_simp
next
  case False
  define calls where "calls = map overlay_call ovs"
  have c: "calls \<noteq> []" "list_all plain_call calls"
    using assms False overlay_call_plain by (auto simp: calls_def list_all_iff)
  have j: "map show_overlay ovs = map call_string calls"
    by (simp add: calls_def show_overlay_def)
  have "map trim (map call_string calls) = map call_string calls"
    using c(2) call_trimmed by (auto simp: list_all_iff)
  then have "filter (\<lambda>e. e \<noteq> []) (map trim (map call_string calls)) = map call_string calls"
    by (simp add: call_string_def filter_id_conv del: map_map)
  moreover have "join_str '','' (map call_string calls) \<noteq> []"
    using c(1) by (cases calls rule: remdups_adj.cases) (auto simp: call_string_def)
  ultimately have "parse_overlay_list home (join_str '','' (map call_string calls))
      = rmap (parse_single_typed_overlay home) (map call_string calls)"
    using split_calls [OF c] join_trimmed [OF c] unfolding parse_overlay_list_def by (simp del: map_map)
  also have "\<dots> = Inr ovs"
    using assms parse_printed overlay_call_plain
    by (auto simp: rmap_Inr_iff calls_def list_all_length parse_call [where t = "fst x" and a = "snd x" for x, simplified])
  finally show ?thesis by (simp only: j)
qed

theorem overlay_round_trip_witness:
  "parse_overlay_list None (join_str '','' (map show_overlay
     [Directory \<lparr>ds_host = ''/a,b'', ds_container = ''/c'', ds_permission = ReadOnly\<rparr>, Skill (Named ''lib/x''),
      Env ''TOKEN'', Context \<lparr>cs_scope = Workflow, cs_permission = ReadWrite\<rparr>]))
   = Inr [Directory \<lparr>ds_host = ''/a,b'', ds_container = ''/c'', ds_permission = ReadOnly\<rparr>, Skill (Named ''lib/x''),
      Env ''TOKEN'', Context \<lparr>cs_scope = Workflow, cs_permission = ReadWrite\<rparr>]"
  by (rule overlay_round_trip) code_simp

subsection \<open>What the parser lets through\<close>

fun well_formed_overlay :: "typed_overlay \<Rightarrow> bool" where
  "well_formed_overlay (Directory d) \<longleftrightarrow> ds_host d \<noteq> [] \<and> ds_container d \<noteq> []"
| "well_formed_overlay (Skill All) \<longleftrightarrow> True"
| "well_formed_overlay (Skill (Named n)) \<longleftrightarrow> contained_segments n"
| "well_formed_overlay (Env v) \<longleftrightarrow> valid_env_name v"
| "well_formed_overlay (Context c) \<longleftrightarrow> True"

lemma path_is_absolute_Nil [simp]: "\<not> path_is_absolute []"
  by (simp add: path_is_absolute_def starts_with_def)

lemma expand_tilde_nonempty: "home \<noteq> Some [] \<Longrightarrow> s \<noteq> [] \<Longrightarrow> expand_tilde home s \<noteq> []"
  by (auto simp: expand_tilde_def path_join_def split: option.splits)

lemma parse_dir_well_formed:
  assumes "home \<noteq> Some []" and p: "parse_dir_overlay_args home a e = Inr d"
  shows "well_formed_overlay (Directory d)"
proof -
  from p have "a \<noteq> []" by (auto simp: parse_dir_overlay_args_def)
  with p obtain hcq where "dir_parts a e = Inr hcq"
    by (cases "dir_parts a e") (simp_all add: parse_dir_overlay_args_def)
  moreover obtain h c q where "hcq = (h, c, q)" by (cases hcq)
  ultimately have "parse_dir_overlay_args home a e =
    (if trim h = [] then Inl (Empty_host_path_in e)
     else if trim c = [] then Inl (Empty_container_path_in e)
     else Inr \<lparr>ds_host = expand_tilde home (trim h), ds_container = trim c,
               ds_permission = (if q = Some ''ro'' then ReadOnly else ReadWrite)\<rparr>)"
    using \<open>a \<noteq> []\<close> by (simp only: parse_dir_overlay_args_def rbind_Inr prod.case Let_def if_False)
  then have "trim h \<noteq> [] \<and> trim c \<noteq> [] \<and> ds_host d = expand_tilde home (trim h) \<and> ds_container d = trim c"
    using p by (cases "trim h = []"; cases "trim c = []") auto
  then show ?thesis using expand_tilde_nonempty [OF assms(1)] by simp
qed

lemma parse_skill_well_formed:
  assumes "parse_skill a = Inr ov" shows "well_formed_overlay ov"
proof (cases "ov = Skill All")
  case False
  have "ov = Skill (Named a) \<and> count_list a (CHR ''/'') \<le> 1 \<and>
      \<not> list_ex (\<lambda>s. s = [] \<or> s = ''.'' \<or> s = ''..'') (split_on (CHR ''/'') a)"
    using assms False unfolding parse_skill_def
    by (simp only: split: if_split_asm) (simp_all only: sum.simps not_less simp_thms)
  then show ?thesis by (simp add: contained_segments_def length_split_on list_ex_iff) blast
qed simp

lemma parse_context_well_formed: "parse_context a e = Inr ov \<Longrightarrow> well_formed_overlay ov"
proof -
  have "\<forall>ov. parse_context a e = Inr ov \<longrightarrow> (\<exists>c. ov = Context c)"
    unfolding parse_context_def Let_def
    by (cases "parse_scope (trim (hd (splitn 2 colon a)))"; cases "tl (splitn 2 colon a)") auto
  then show "parse_context a e = Inr ov \<Longrightarrow> well_formed_overlay ov" by fastforce
qed

lemma parse_tagged_well_formed:
  assumes "home \<noteq> Some []" and p: "parse_tagged home t a e = Inr ov"
  shows "well_formed_overlay ov"
proof -
  have "parse_ssh home a = Inr ov \<Longrightarrow> well_formed_overlay ov"
    using assms(1) by (auto simp: parse_ssh_def path_join_def path_is_absolute_def starts_with_def split: if_splits)
  moreover have "parse_env a = Inr ov \<Longrightarrow> well_formed_overlay ov"
    by (auto simp: parse_env_def split: if_splits)
  moreover have "rbind (parse_dir_overlay_args home a e) (\<lambda>d. Inr (Directory d)) = Inr ov \<Longrightarrow> well_formed_overlay ov"
    using parse_dir_well_formed [OF assms(1)] by (auto simp: result_simps simp del: well_formed_overlay.simps)
  ultimately show ?thesis
    using p parse_skill_well_formed parse_context_well_formed
    unfolding parse_tagged_def by (metis Inl_Inr_False)
qed

lemma parse_spec_well_formed:
  "parse_overlay_spec s = Inr d \<Longrightarrow> ds_host d \<noteq> [] \<and> ds_container d \<noteq> []"
  by (auto simp: parse_overlay_spec_def Let_def split: list.splits if_splits)

lemma parse_single_well_formed:
  assumes "home \<noteq> Some []" and "parse_single_typed_overlay home e = Inr ov"
  shows "well_formed_overlay ov"
  using assms(2) parse_tagged_well_formed [OF assms(1)] parse_spec_well_formed
  unfolding parse_single_typed_overlay_def
  by (auto simp: result_simps split: if_splits option.splits)

lemma parse_list_well_formed:
  assumes "home \<noteq> Some []" and "parse_overlay_list home s = Inr ovs"
  shows "list_all well_formed_overlay ovs"
proof -
  have "list_all well_formed_overlay ys" if "rmap (parse_single_typed_overlay home) xs = Inr ys" for xs ys
    using that parse_single_well_formed [OF assms(1)] by (auto simp: rmap_Inr_iff list_all_length)
  then show ?thesis using assms(2) by (auto simp: parse_overlay_list_def split: if_splits)
qed

subsection \<open>What the merge of the sources is\<close>

fun parse_all :: "string option \<Rightarrow> string list \<Rightarrow> typed_overlay list option" where
  "parse_all home [] = Some []"
| "parse_all home (s # ss) =
     (case (parse_overlay_list home s, parse_all home ss) of
        (Inr os, Some rest) \<Rightarrow> Some (os @ rest) | _ \<Rightarrow> None)"

lemma parse_all_append:
  "parse_all home (a @ b) =
     Option.bind (parse_all home a) (\<lambda>x. Option.bind (parse_all home b) (\<lambda>y. Some (x @ y)))"
  by (induction a) (auto split: sum.splits option.splits bind_splits)

lemma collect_specs_parse:
  "collect_specs home shown ss c = Inr c' \<longleftrightarrow>
     (\<exists>os. parse_all home ss = Some os \<and> c' = fold process_typed os c)"
  by (induction ss arbitrary: c) (auto split: sum.splits option.splits)

text \<open>The overlays of a run, every source in its turn; \<open>None\<close> if one does not parse.\<close>

definition overlays_in_order :: "string option \<Rightarrow> overlay_sources \<Rightarrow> typed_overlay list option" where
  "overlays_in_order home src =
     (case (parse_all home (or_none (os_global src) @ or_none (os_repo src)
              @ (case os_env src of None \<Rightarrow> [] | Some s \<Rightarrow> [s])),
            parse_all home (or_none (os_workflow src) @ or_none (os_step src))) of
        (Some a, Some b) \<Rightarrow> Some (a @ os_cli src @ b) | _ \<Rightarrow> None)"

lemma collected_overlays_fold:
  "collected_overlays home src = Inr c \<longleftrightarrow>
     (\<exists>os. overlays_in_order home src = Some os \<and> c = fold process_typed os no_overlays)"
proof -
  have "collected_overlays home src = Inr c \<longleftrightarrow>
    (\<exists>g r e w s. parse_all home (or_none (os_global src)) = Some g \<and>
       parse_all home (or_none (os_repo src)) = Some r \<and>
       parse_all home (case os_env src of None \<Rightarrow> [] | Some s \<Rightarrow> [s]) = Some e \<and>
       parse_all home (or_none (os_workflow src)) = Some w \<and> parse_all home (or_none (os_step src)) = Some s \<and>
       c = fold process_typed (g @ r @ e @ os_cli src @ w @ s) no_overlays)"
    unfolding collected_overlays_def Let_def result_simps collect_specs_parse by auto
  then show ?thesis
    unfolding overlays_in_order_def parse_all_append by (auto split: option.splits bind_splits)
qed

text \<open>The first of each.\<close>

definition firsts :: "'a list \<Rightarrow> 'a list" where
  "firsts xs = fold push_new xs []"

fun named_of :: "typed_overlay \<Rightarrow> string list" where
  "named_of (Skill (Named n)) = [n]" | "named_of _ = []"

fun env_of :: "typed_overlay \<Rightarrow> string list" where
  "env_of (Env v) = [v]" | "env_of _ = []"

fun directory_of :: "typed_overlay \<Rightarrow> directory_spec list" where
  "directory_of (Directory d) = [d]" | "directory_of _ = []"

fun context_of :: "typed_overlay \<Rightarrow> (context_scope \<times> overlay_permission) list" where
  "context_of (Context c) = [(cs_scope c, cs_permission c)]" | "context_of _ = []"

definition context_permission :: "collected \<Rightarrow> context_scope \<Rightarrow> overlay_permission option" where
  "context_permission c scope =
     map_option cs_permission (find (\<lambda>x. cs_scope x = scope) (co_context_overlays c))"

lemma firsts_snoc: "firsts (xs @ [x]) = push_new x (firsts xs)"
  by (simp add: firsts_def)

text \<open>What was collected so far, read off the overlays it came from.\<close>

definition collects :: "typed_overlay list \<Rightarrow> collected \<Rightarrow> bool" where
  "collects os c \<longleftrightarrow>
     co_directories c = concat (map directory_of os) \<and>
     (co_include_all_skills c \<longleftrightarrow> Skill All \<in> set os) \<and>
     co_named_skills c = firsts (concat (map named_of os)) \<and>
     co_env_passthrough c = firsts (concat (map env_of os)) \<and>
     (\<forall>scope. context_permission c scope = map_of (concat (map context_of os)) scope) \<and>
     distinct (map cs_scope (co_context_overlays c))"

lemma context_permission_none:
  "context_permission c scope = None \<longleftrightarrow> scope \<notin> cs_scope ` set (co_context_overlays c)"
  by (auto simp: context_permission_def find_None_iff)

lemma context_permission_push:
  "context_permission (c\<lparr>co_context_overlays := co_context_overlays c @ [spec]\<rparr>) scope =
     (case context_permission c scope of
        None \<Rightarrow> if cs_scope spec = scope then Some (cs_permission spec) else None
      | Some p \<Rightarrow> Some p)"
proof -
  have "find P (xs @ ys) = (case find P xs of None \<Rightarrow> find P ys | Some x \<Rightarrow> Some x)"
    for P :: "context_overlay_spec \<Rightarrow> bool" and xs ys by (induction xs) auto
  then show ?thesis by (auto simp: context_permission_def split: option.splits)
qed

lemma collects_step:
  assumes c: "collects os c" shows "collects (os @ [ov]) (process_typed ov c)"
proof -
  have cp: "context_permission (c\<lparr>co_directories := x\<rparr>) s = context_permission c s"
    "context_permission (c\<lparr>co_include_all_skills := b\<rparr>) s = context_permission c s"
    "context_permission (c\<lparr>co_named_skills := y\<rparr>) s = context_permission c s"
    "context_permission (c\<lparr>co_env_passthrough := y\<rparr>) s = context_permission c s" for x b y s
    by (simp_all add: context_permission_def)
  show ?thesis
  proof (cases ov)
    case (Skill sk)
    then show ?thesis using c by (cases sk) (auto simp: collects_def cp firsts_snoc)
  next
    case (Context spec)
    let ?seen = "list_ex (\<lambda>x. cs_scope x = cs_scope spec) (co_context_overlays c)"
    have seen: "?seen \<longleftrightarrow> cs_scope spec \<in> cs_scope ` set (co_context_overlays c)"
      by (auto simp: list_ex_iff) (metis image_eqI)
    have m: "map_of (concat (map context_of (os @ [ov]))) s =
        (case context_permission c s of
           None \<Rightarrow> if cs_scope spec = s then Some (cs_permission spec) else None
         | Some p \<Rightarrow> Some p)" for s
      using c by (simp add: Context collects_def map_add_def split: option.splits)
    show ?thesis
    proof (cases ?seen)
      case True
      then have "context_permission c (cs_scope spec) \<noteq> None"
        unfolding seen using context_permission_none by blast
      then have "context_permission c s = map_of (concat (map context_of (os @ [ov]))) s" for s
        unfolding m by (auto split: option.splits)
      then show ?thesis using c True by (simp add: Context collects_def)
    next
      case False
      have "context_permission (process_typed ov c) s = map_of (concat (map context_of (os @ [ov]))) s" for s
        unfolding m using False by (simp add: Context context_permission_push)
      moreover have "distinct (map cs_scope (co_context_overlays (process_typed ov c)))"
        using c False unfolding seen by (simp add: Context collects_def)
      ultimately show ?thesis using c False by (simp add: Context collects_def)
    qed
  qed (use c in \<open>auto simp: collects_def cp firsts_snoc\<close>)
qed

lemma collects_fold: "collects os c \<Longrightarrow> collects (os @ ovs) (fold process_typed ovs c)"
proof (induction ovs arbitrary: os c)
  case (Cons ov ovs)
  from Cons.IH [OF collects_step [OF Cons.prems], of ov] show ?case by simp
qed simp

text \<open>
  Property C31. The six sources merge as documented, each in its turn: the directories are all of them
  in order, named skills and variables the first mention of each, a scope has the permission of the first
  source that names it, and a source that does not parse fails the whole.
\<close>

theorem sources_merge:
  "(case collected_overlays home src of
      Inl e \<Rightarrow> overlays_in_order home src = None
    | Inr c \<Rightarrow> (\<exists>os. overlays_in_order home src = Some os \<and> collects os c))"
proof (cases "collected_overlays home src")
  case (Inl e)
  then have "\<forall>c. collected_overlays home src \<noteq> Inr c" by simp
  then have "overlays_in_order home src = None"
    unfolding collected_overlays_fold by (cases "overlays_in_order home src") auto
  then show ?thesis using Inl by simp
next
  case (Inr c)
  have "collects [] no_overlays" by (simp add: collects_def no_overlays_def firsts_def context_permission_def)
  then have "collects os (fold process_typed os no_overlays)" for os
    using collects_fold [of "[]" no_overlays os] by simp
  then show ?thesis using Inr collected_overlays_fold [of home src c] by auto
qed

lemma parse_flags_well_formed:
  assumes "home \<noteq> Some []" shows "parse_overlay_flags home flags = Inr ovs \<Longrightarrow> list_all well_formed_overlay ovs"
proof (induction flags arbitrary: ovs)
  case (Cons v vs)
  then show ?case using parse_list_well_formed [OF assms, of v] by (auto simp: result_simps split: sum.splits)
qed simp

text \<open>
  Property C32. Whatever the six sources hold, what reaches a run is well-formed: every variable name is a name, a
  named skill is one or two path segments, none of them empty, \<open>.\<close> or \<open>..\<close>, and no path of a directory is empty.
  The overlays of the command line are what its flags parse to, followed by the directory of a fetched issue, whose
  paths the command makes itself and which are not empty. The home directory, when there is one, is not the empty
  path.
\<close>

theorem collected_overlays_contained:
  assumes "home \<noteq> Some []" and "parse_overlay_flags home flags = Inr cli"
    and "os_cli src = cli @ map Directory issue" and "list_all (\<lambda>d. ds_host d \<noteq> [] \<and> ds_container d \<noteq> []) issue"
    and "collected_overlays home src = Inr c"
  shows "list_all contained_segments (co_named_skills c) \<and> list_all valid_env_name (co_env_passthrough c) \<and>
    list_all (\<lambda>d. ds_host d \<noteq> [] \<and> ds_container d \<noteq> []) (co_directories c)"
proof -
  have cli: "list_all well_formed_overlay (os_cli src)"
    using parse_flags_well_formed [OF assms(1,2)] assms(4) by (auto simp: assms(3) list_all_iff)
  have all: "list_all well_formed_overlay os" if "parse_all home ss = Some os" for ss os
    using that
  proof (induction ss arbitrary: os)
    case (Cons s ss)
    then show ?case using parse_list_well_formed [OF assms(1), of s] by (auto split: sum.splits option.splits)
  qed simp
  obtain os where o': "overlays_in_order home src = Some os" and c: "c = fold process_typed os no_overlays"
    using assms(5) unfolding collected_overlays_fold by blast
  from o' have "list_all well_formed_overlay os"
    using all cli by (auto simp: overlays_in_order_def split: option.splits)
  moreover have "list_all contained_segments (co_named_skills (fold process_typed os k)) \<and>
      list_all valid_env_name (co_env_passthrough (fold process_typed os k)) \<and>
      list_all (\<lambda>d. ds_host d \<noteq> [] \<and> ds_container d \<noteq> []) (co_directories (fold process_typed os k))"
    if "list_all well_formed_overlay os" "list_all contained_segments (co_named_skills k)"
      "list_all valid_env_name (co_env_passthrough k)"
      "list_all (\<lambda>d. ds_host d \<noteq> [] \<and> ds_container d \<noteq> []) (co_directories k)" for k
    using that
  proof (induction os arbitrary: k)
    case (Cons ov os)
    show ?case
    proof (cases ov)
      case (Skill sk)
      then show ?thesis using Cons by (cases sk) (auto simp: push_new_def)
    qed (use Cons in \<open>auto simp: push_new_def\<close>)
  qed simp
  ultimately show ?thesis by (simp add: c no_overlays_def)
qed

text \<open>Overlays of every source: two flags on the command line, and the file of an issue.\<close>

definition example_flags :: "string list" where
  "example_flags = [''env(LANG),skill(lib/y)'', ''/c:/d'']"

definition example_issue :: directory_spec where
  "example_issue = \<lparr>ds_host = ''/tmp/i.md'', ds_container = ''/workspace/0007-fix.md'', ds_permission = ReadOnly\<rparr>"

definition example_parsed :: "typed_overlay list" where
  "example_parsed = [Env ''LANG'', Skill (Named ''lib/y''),
     Directory \<lparr>ds_host = ''/c'', ds_container = ''/d'', ds_permission = ReadWrite\<rparr>]"

definition example_sources :: overlay_sources where
  "example_sources = \<lparr>os_global = Some [''skill(lib/x), env(TOKEN)''], os_repo = None, os_env = Some ''/a:/b:ro'',
     os_cli = example_parsed @ map Directory [example_issue],
     os_workflow = Some [''context(workflow:ro)''], os_step = Some [''context(workflow)'']\<rparr>"

definition example_collected :: collected where
  "example_collected =
     \<lparr>co_directories = [\<lparr>ds_host = ''/a'', ds_container = ''/b'', ds_permission = ReadOnly\<rparr>,
        \<lparr>ds_host = ''/c'', ds_container = ''/d'', ds_permission = ReadWrite\<rparr>, example_issue],
      co_include_all_skills = False, co_named_skills = [''lib/x'', ''lib/y''],
      co_env_passthrough = [''TOKEN'', ''LANG''],
      co_context_overlays = [\<lparr>cs_scope = Workflow, cs_permission = ReadOnly\<rparr>]\<rparr>"

theorem collected_overlays_contained_witness:
  "collected_overlays (Some ''/home/u'') example_sources = Inr example_collected \<and>
   list_all contained_segments [''lib/x'', ''lib/y''] \<and> list_all valid_env_name [''TOKEN'', ''LANG'']"
proof -
  have v: "collected_overlays (Some ''/home/u'') example_sources = Inr example_collected" by code_simp
  have p: "parse_overlay_flags (Some ''/home/u'') example_flags = Inr example_parsed" by code_simp
  have s: "os_cli example_sources = example_parsed @ map Directory [example_issue]" by (simp add: example_sources_def)
  have i: "list_all (\<lambda>d. ds_host d \<noteq> [] \<and> ds_container d \<noteq> []) [example_issue]" by (simp add: example_issue_def)
  show ?thesis
    using collected_overlays_contained [OF _ p s i v] v by (simp add: example_collected_def)
qed

end
