(* ===== verification/Overlay_Mounts.thy ===== *)
theory Overlay_Mounts
  imports Overlays
begin

text \<open>
  \<open>src/engine/overlay/mod.rs\<close> and \<open>skills.rs\<close>: how the overlays of a run become mounts. What the file
  system answers is the record \<open>host_fs\<close>; the mounts of the agent's own settings are an argument, since
  staging copies files.
\<close>

record mount =
  mo_host :: string
  mo_container :: string
  mo_permission :: overlay_permission

record host_fs =
  hf_home :: "string option"
  hf_canon :: "string \<Rightarrow> string option"
  hf_exists :: "string \<Rightarrow> bool"
  hf_is_dir :: "string \<Rightarrow> bool"
  hf_is_file :: "string \<Rightarrow> bool"

datatype mount_error =
    Container_path_not_absolute string
  | Host_path_missing string string
  | Invalid_segment string string
  | Subdir_not_relative string
  | Subdir_empty
  | Library_not_found string string
  | Library_meta_unreadable string
  | Skill_not_in_library string string
  | Skill_not_found string

subsection \<open>One directory\<close>

definition resolve_user_overlay ::
  "host_fs \<Rightarrow> directory_spec \<Rightarrow> string \<Rightarrow> string option \<Rightarrow> (mount_error, mount) result" where
  "resolve_user_overlay fs spec cwd container_home =
     (let tilde = starts_with (ds_container spec) ''~/'' in
      if \<not> path_is_absolute (ds_container spec) \<and> \<not> tilde
      then Inl (Container_path_not_absolute (ds_container spec))
      else
        (let host_abs = make_absolute_with_cwd (hf_home fs) cwd (ds_host spec);
             host_canon = canonicalize_lossy (hf_canon fs) host_abs
         in if \<not> hf_exists fs host_canon then Inl (Host_path_missing (ds_host spec) host_canon)
            else Inr \<lparr>mo_host = host_canon,
                      mo_container =
                        (if tilde
                         then (case container_home of None \<Rightarrow> ''/root'' | Some h \<Rightarrow> h) @ drop 1 (ds_container spec)
                         else ds_container spec),
                      mo_permission = ds_permission spec\<rparr>))"

subsection \<open>Skills\<close>

definition validate_skill_reference_segment :: "string \<Rightarrow> string \<Rightarrow> (mount_error, unit) result" where
  "validate_skill_reference_segment segment name =
     (case path_components segment of [Normal _] \<Rightarrow> Inr () | _ \<Rightarrow> Inl (Invalid_segment name segment))"

fun is_normal :: "path_component \<Rightarrow> bool" where
  "is_normal (Normal _) = True" | "is_normal _ = False"

definition validate_library_subdir :: "string \<Rightarrow> (mount_error, string) result" where
  "validate_library_subdir subdir =
     (if \<not> list_all is_normal (path_components subdir) then Inl (Subdir_not_relative subdir)
      else if path_components subdir = [] then Inl Subdir_empty
      else Inr (path_string (path_components subdir)))"

record skill_dirs =
  sd_global_dir :: string
  sd_library_dir :: "string \<Rightarrow> string"
  sd_library_meta :: "string \<Rightarrow> (mount_error, string) result"

definition read_only :: "host_fs \<Rightarrow> string \<Rightarrow> string \<Rightarrow> mount" where
  "read_only fs host container =
     \<lparr>mo_host = canonicalize_lossy (hf_canon fs) host, mo_container = container, mo_permission = ReadOnly\<rparr>"

definition library_skill_mount ::
  "host_fs \<Rightarrow> skill_dirs \<Rightarrow> string \<Rightarrow> string \<Rightarrow> string \<Rightarrow> string \<Rightarrow> (mount_error, mount) result" where
  "library_skill_mount fs sd container_path name library skill =
     rbind (validate_skill_reference_segment library name) (\<lambda>_.
     rbind (validate_skill_reference_segment skill name) (\<lambda>_.
     let library_dir = sd_library_dir sd library in
     if \<not> hf_exists fs library_dir then Inl (Library_not_found library name)
     else
       rbind (sd_library_meta sd library_dir) (\<lambda>meta.
       rbind (validate_library_subdir meta) (\<lambda>subdir.
       let skill_path = path_join (path_join library_dir subdir) skill in
       if \<not> hf_is_dir fs skill_path \<or> \<not> hf_is_file fs (path_join skill_path ''SKILL.md'')
       then Inl (Skill_not_in_library skill library)
       else Inr (read_only fs skill_path (container_path @ ''/'' @ library @ ''/'' @ skill))))))"

definition named_skill_mount ::
  "host_fs \<Rightarrow> skill_dirs \<Rightarrow> string \<Rightarrow> string \<Rightarrow> (mount_error, mount) result" where
  "named_skill_mount fs sd container_path name =
     (case split_once (CHR ''/'') name of
        Some (library, skill) \<Rightarrow> library_skill_mount fs sd container_path name library skill
      | None \<Rightarrow>
          rbind (validate_skill_reference_segment name name) (\<lambda>_.
          let plain_dir = path_join (sd_global_dir sd) name in
          if hf_exists fs plain_dir
          then Inr (read_only fs plain_dir (container_path @ ''/'' @ name))
          else
            (let library_dir = sd_library_dir sd name in
             if hf_exists fs library_dir
             then
               rbind (sd_library_meta sd library_dir) (\<lambda>meta.
               rbind (validate_library_subdir meta) (\<lambda>subdir.
               Inr (read_only fs (path_join library_dir subdir) (container_path @ ''/'' @ name))))
             else Inl (Skill_not_found name))))"

text \<open>
  \<open>skills_mount\<close> is where the agent reads skills from, below its home directory: an agent that is not
  known, or has no such directory, gets no skills.
\<close>

definition skill_overlays ::
  "host_fs \<Rightarrow> skill_dirs \<Rightarrow> string \<Rightarrow> string option \<Rightarrow> bool \<Rightarrow> string list \<Rightarrow> (mount_error, mount list) result" where
  "skill_overlays fs sd container_home skills_mount include_all names =
     (if \<not> include_all \<and> names = [] then Inr []
      else if \<not> hf_exists fs (sd_global_dir sd) then Inr []
      else
        (case skills_mount of
           None \<Rightarrow> Inr []
         | Some rel \<Rightarrow>
             (let container_path = container_home @ ''/'' @ rel in
              if include_all then Inr [read_only fs (sd_global_dir sd) container_path]
              else rmap (named_skill_mount fs sd container_path) names)))"

subsection \<open>The mounts of a run\<close>

definition insert_or_merge :: "string \<Rightarrow> mount \<Rightarrow> (string, mount) hmap \<Rightarrow> (string, mount) hmap" where
  "insert_or_merge key spec m =
     (case hm_get m key of
        None \<Rightarrow> hm_insert key spec m
      | Some existing \<Rightarrow>
          if mo_permission spec = ReadOnly \<and> mo_permission existing = ReadWrite
          then hm_insert key (existing\<lparr>mo_permission := ReadOnly\<rparr>) m
          else m)"

definition insert_mount :: "host_fs \<Rightarrow> mount \<Rightarrow> (string, mount) hmap \<Rightarrow> (string, mount) hmap" where
  "insert_mount fs spec = insert_or_merge (conflict_key (hf_canon fs) (mo_host spec)) spec"

definition merge_mounts :: "host_fs \<Rightarrow> mount list \<Rightarrow> mount list" where
  "merge_mounts fs specs =
     sort_key (\<lambda>s. path_components (mo_host s)) (hm_values (fold (insert_mount fs) specs []))"

record overlay_request =
  or_directories :: "directory_spec list"
  or_include_all_skills :: bool
  or_named_skills :: "string list"
  or_agent_settings :: "(mount_error, mount list) result option"
  or_container_home :: "string option"
  or_context_overlays :: "mount list"

text \<open>
  \<open>build_overlays_with_credentials\<close>. \<open>or_agent_settings\<close> is what staging the agent's settings gives, \<open>None\<close>
  if the request has no agent; skills are mounted for an agent only.
\<close>

definition build_overlays ::
  "host_fs \<Rightarrow> skill_dirs \<Rightarrow> string \<Rightarrow> string \<Rightarrow> string option \<Rightarrow> overlay_request \<Rightarrow> (mount_error, mount list) result" where
  "build_overlays fs sd cwd skills_home skills_mount req =
     rbind (rmap (\<lambda>d. resolve_user_overlay fs d cwd (or_container_home req)) (or_directories req)) (\<lambda>user.
     rbind (case or_agent_settings req of None \<Rightarrow> Inr [] | Some r \<Rightarrow> r) (\<lambda>agent.
     rbind (if (or_include_all_skills req \<or> or_named_skills req \<noteq> []) \<and> or_agent_settings req \<noteq> None
            then skill_overlays fs sd skills_home skills_mount (or_include_all_skills req) (or_named_skills req)
            else Inr []) (\<lambda>skills.
     Inr (merge_mounts fs (user @ agent @ skills @ or_context_overlays req)))))"

subsection \<open>What merging gives\<close>

text \<open>The mount a group of requests for the same directory comes to.\<close>

definition restricted :: "mount list \<Rightarrow> mount" where
  "restricted specs =
     (hd specs)\<lparr>mo_permission := (if list_ex (\<lambda>s. mo_permission s = ReadOnly) specs then ReadOnly else ReadWrite)\<rparr>"

abbreviation key_of :: "host_fs \<Rightarrow> mount \<Rightarrow> string" where
  "key_of fs s \<equiv> conflict_key (hf_canon fs) (mo_host s)"

definition group_of :: "host_fs \<Rightarrow> mount list \<Rightarrow> string \<Rightarrow> mount list" where
  "group_of fs specs k = filter (\<lambda>s. key_of fs s = k) specs"

lemma permission_cases: "p \<noteq> ReadOnly \<longleftrightarrow> p = ReadWrite"
  by (cases p) simp_all

lemma restricted_single: "restricted [s] = s"
  by (cases s) (auto simp: restricted_def permission_cases)

lemma restricted_snoc:
  assumes "specs \<noteq> []"
  shows "restricted (specs @ [s]) =
    (if mo_permission s = ReadOnly \<and> mo_permission (restricted specs) = ReadWrite
     then (restricted specs)\<lparr>mo_permission := ReadOnly\<rparr> else restricted specs)"
proof (cases "list_ex (\<lambda>s. mo_permission s = ReadOnly) specs")
  case True
  then show ?thesis using assms by (auto simp: restricted_def)
next
  case False
  then show ?thesis using assms by (auto simp: restricted_def permission_cases)
qed

lemma merged_get:
  "hm_get (fold (insert_mount fs) specs []) k =
     (if group_of fs specs k = [] then None else Some (restricted (group_of fs specs k)))"
proof (induction specs rule: rev_induct)
  case (snoc s specs)
  let ?m = "fold (insert_mount fs) specs []"
  show ?case
  proof (cases "key_of fs s = k")
    case True
    then have g: "group_of fs (specs @ [s]) k = group_of fs specs k @ [s]" by (simp add: group_of_def)
    show ?thesis
    proof (cases "group_of fs specs k = []")
      case True
      then show ?thesis using snoc \<open>key_of fs s = k\<close>
        by (simp add: insert_mount_def insert_or_merge_def g restricted_single update_conv)
    next
      case False
      then show ?thesis using snoc \<open>key_of fs s = k\<close> restricted_snoc [OF False, of s]
        by (simp add: insert_mount_def insert_or_merge_def g update_conv)
    qed
  next
    case False
    then show ?thesis using snoc
      by (auto simp: insert_mount_def insert_or_merge_def group_of_def update_conv split: option.splits)
  qed
qed (simp add: group_of_def)

lemma merged_wf: "hm_wf (fold (insert_mount fs) specs [])"
proof -
  have "hm_wf m \<Longrightarrow> hm_wf (insert_mount fs s m)" for s m
    by (simp add: insert_mount_def insert_or_merge_def distinct_update split: option.split)
  then have "hm_wf m \<Longrightarrow> hm_wf (fold (insert_mount fs) specs m)" for m
    by (induction specs arbitrary: m) simp_all
  then show ?thesis by simp
qed

text \<open>
  Property C33. No request loosens another: every directory that was asked for is mounted once, at the
  container path of the first request for it, and read-only as soon as a single request for it is,
  wherever the requests come from and in whatever order.
\<close>

theorem mounts_most_restrictive:
  "set (merge_mounts fs specs) = (\<lambda>s. restricted (group_of fs specs (key_of fs s))) ` set specs \<and>
   distinct (map (key_of fs) (merge_mounts fs specs)) \<and>
   sorted (map (\<lambda>s. path_components (mo_host s)) (merge_mounts fs specs))"
proof -
  let ?m = "fold (insert_mount fs) specs []"
  have k: "key_of fs (restricted (group_of fs specs k)) = k" if "group_of fs specs k \<noteq> []" for k
  proof -
    have "hd (group_of fs specs k) \<in> set (group_of fs specs k)" using that by simp
    then have "key_of fs (hd (group_of fs specs k)) = k" by (simp add: group_of_def)
    then show ?thesis by (simp add: restricted_def)
  qed
  have entries: "(k, s) \<in> set ?m \<longleftrightarrow> group_of fs specs k \<noteq> [] \<and> s = restricted (group_of fs specs k)" for k s
  proof -
    have "(k, s) \<in> set ?m \<longleftrightarrow> hm_get ?m k = Some s"
      using map_of_eq_Some_iff [OF merged_wf] by blast
    then show ?thesis unfolding merged_get by auto
  qed
  have "set (hm_values ?m) = (\<lambda>s. restricted (group_of fs specs (key_of fs s))) ` set specs"
  proof (intro set_eqI iffI)
    fix s assume "s \<in> set (hm_values ?m)"
    then obtain k where "(k, s) \<in> set ?m" by auto
    then have "group_of fs specs k \<noteq> []" "s = restricted (group_of fs specs k)"
      using entries by blast+
    then show "s \<in> (\<lambda>s. restricted (group_of fs specs (key_of fs s))) ` set specs"
      unfolding group_of_def filter_empty_conv by blast
  next
    fix s assume "s \<in> (\<lambda>s. restricted (group_of fs specs (key_of fs s))) ` set specs"
    then obtain r where "r \<in> set specs" "s = restricted (group_of fs specs (key_of fs r))" by blast
    moreover from this have "group_of fs specs (key_of fs r) \<noteq> []" 
      unfolding group_of_def filter_empty_conv by blast
    ultimately have "(key_of fs r, s) \<in> set ?m" using entries by simp
    then show "s \<in> set (hm_values ?m)" by force
  qed
  moreover have keys: "map (key_of fs) (hm_values ?m) = hm_keys ?m"
  proof -
    have "key_of fs (snd ks) = fst ks" if "ks \<in> set ?m" for ks
      using that entries [of "fst ks" "snd ks"] k by simp
    then show ?thesis by simp
  qed
  moreover have "distinct (map (key_of fs) (hm_values ?m))"
    unfolding keys by (rule merged_wf)
  moreover have "set (sort_key f xs) = A \<and> distinct (map g (sort_key f xs)) \<and> sorted (map f (sort_key f xs))"
    if "set xs = A" "distinct (map g xs)" for A xs and f :: "mount \<Rightarrow> path_component list" and g :: "mount \<Rightarrow> string"
    using that by (simp add: distinct_map)
  ultimately show ?thesis unfolding merge_mounts_def by blast
qed

end
