(* ===== verification/Task_Store.thy ===== *)
theory Task_Store
  imports Strings
begin

text \<open>
  \<open>src/data/fs/task_store.rs\<close>: the tasks and runs of the squad daemon, two tables of a database. A table
  is the list of its rows in insertion order; a statement is a function of the tables. Instants are
  natural numbers (nanoseconds): the statements compare the texts \<open>to_rfc3339\<close> gives them, whose order
  is the order of the instants. The arithmetic of SQLite on two of them is the parameter \<open>elapsed\<close>.
\<close>

subsection \<open>Rows\<close>

type_synonym instant = nat

datatype task_status = Active | Paused

datatype mount_scope = Cwd | GitRoot | PlainDirectory

datatype run_status = Running | NotTriggered | WorkflowExecuted | Failed | Interrupted | Canceled

datatype store_error = Invalid_text string | Interval_too_large nat | Name_exists string | Sqlite_error

fun task_status_as_db :: "task_status \<Rightarrow> string" where
  "task_status_as_db Active = ''active''"
| "task_status_as_db Paused = ''paused''"

definition task_status_from_db :: "string \<Rightarrow> (store_error, task_status) result" where
  "task_status_from_db v =
     (if v = ''active'' then Inr Active else if v = ''paused'' then Inr Paused else Inl (Invalid_text v))"

fun mount_scope_as_db :: "mount_scope \<Rightarrow> string" where
  "mount_scope_as_db Cwd = ''cwd''"
| "mount_scope_as_db GitRoot = ''gitroot''"
| "mount_scope_as_db PlainDirectory = ''directory''"

definition mount_scope_from_db :: "string \<Rightarrow> (store_error, mount_scope) result" where
  "mount_scope_from_db v =
     (if v = ''cwd'' then Inr Cwd else if v = ''gitroot'' then Inr GitRoot
      else if v = ''directory'' then Inr PlainDirectory else Inl (Invalid_text v))"

fun is_git_repo :: "mount_scope \<Rightarrow> bool" where
  "is_git_repo PlainDirectory = False"
| "is_git_repo _ = True"

fun run_status_as_db :: "run_status \<Rightarrow> string" where
  "run_status_as_db Running = ''running''"
| "run_status_as_db NotTriggered = ''not_triggered''"
| "run_status_as_db WorkflowExecuted = ''workflow_executed''"
| "run_status_as_db Failed = ''failed''"
| "run_status_as_db Interrupted = ''interrupted''"
| "run_status_as_db Canceled = ''canceled''"

definition run_status_from_db :: "string \<Rightarrow> (store_error, run_status) result" where
  "run_status_from_db v =
     (if v = ''running'' then Inr Running else if v = ''not_triggered'' then Inr NotTriggered
      else if v = ''workflow_executed'' then Inr WorkflowExecuted else if v = ''failed'' then Inr Failed
      else if v = ''interrupted'' then Inr Interrupted else if v = ''canceled'' then Inr Canceled
      else Inl (Invalid_text v))"

record task =
  tk_prerequisites :: "string option"
  tk_id :: string
  tk_name :: string
  tk_description :: string
  tk_repo_scope :: string
  tk_mount_scope :: mount_scope
  tk_overlays :: "string list"
  tk_interval_secs :: nat
  tk_status :: task_status
  tk_agent :: "string option"
  tk_model :: "string option"
  tk_backoff_until :: "instant option"
  tk_created_at :: instant
  tk_updated_at :: instant
  tk_last_run_at :: "instant option"
  tk_trigger_requested_at :: "instant option"

definition uses_worktree :: "task \<Rightarrow> bool" where
  "uses_worktree t = is_git_repo (tk_mount_scope t)"

record run_detail =
  rd_workflow_path :: "string option"
  rd_workflow_state_path :: "string option"
  rd_error :: "string option"
  rd_reason :: "string option"

definition no_detail :: run_detail where
  "no_detail = \<lparr>rd_workflow_path = None, rd_workflow_state_path = None, rd_error = None, rd_reason = None\<rparr>"

record task_changes =
  tu_prerequisites :: "string option"
  tu_description :: "string option"
  tu_interval_secs :: "nat option"
  tu_agent :: "string option option"
  tu_model :: "string option option"
  tu_overlays :: "string list option"

record run =
  rn_id :: string
  rn_task_id :: string
  rn_status :: run_status
  rn_detail :: run_detail
  rn_session_id :: "string option"
  rn_started_at :: instant
  rn_finished_at :: "instant option"
  rn_unmet_env :: "string list"

record task_db =
  db_tasks :: "task list"
  db_runs :: "run list"

subsection \<open>Statements\<close>

text \<open>\<open>i64::MAX\<close>, the largest integer a column holds.\<close>

definition i64_max :: nat where
  "i64_max = 2 ^ 63 - 1"

text \<open>
  An insert is refused when the key or the unique name is taken; the name is reported as such, and so is
  a taken key only when SQLite reports the same code, which it does not for a primary key.
\<close>

definition task_create :: "task \<Rightarrow> task_db \<Rightarrow> (store_error, unit) result \<times> task_db" where
  "task_create t db =
     (if i64_max < tk_interval_secs t then (Inl (Interval_too_large (tk_interval_secs t)), db)
      else if tk_id t \<in> tk_id ` set (db_tasks db) then (Inl Sqlite_error, db)
      else if tk_name t \<in> tk_name ` set (db_tasks db) then (Inl (Name_exists (tk_name t)), db)
      else (Inr (), db\<lparr>db_tasks := db_tasks db @ [t\<lparr>tk_trigger_requested_at := None\<rparr>]\<rparr>))"

definition task_get :: "string \<Rightarrow> task_db \<Rightarrow> task option" where
  "task_get n db = find (\<lambda>t. tk_name t = n) (db_tasks db)"

definition task_list :: "task_db \<Rightarrow> task list" where
  "task_list db = sort_key tk_created_at (db_tasks db)"

text \<open>\<open>UPDATE ... WHERE name = ?\<close>, with the number of rows it changed.\<close>

definition update_named :: "string \<Rightarrow> (task \<Rightarrow> task) \<Rightarrow> task_db \<Rightarrow> nat \<times> task_db" where
  "update_named n f db =
     (length (filter (\<lambda>t. tk_name t = n) (db_tasks db)),
      db\<lparr>db_tasks := map (\<lambda>t. if tk_name t = n then f t else t) (db_tasks db)\<rparr>)"

definition or_else :: "'a option \<Rightarrow> 'a \<Rightarrow> 'a" where
  "or_else x d = (case x of None \<Rightarrow> d | Some v \<Rightarrow> v)"

definition task_update :: "instant \<Rightarrow> string \<Rightarrow> task_changes \<Rightarrow> task_db \<Rightarrow> (store_error, task option) result \<times> task_db" where
  "task_update now n req db =
     (case task_get n db of
        None \<Rightarrow> (Inr None, db)
      | Some existing \<Rightarrow>
          (let interval = or_else (tu_interval_secs req) (tk_interval_secs existing) in
           if i64_max < interval then (Inl (Interval_too_large interval), db)
           else
             (let db' = snd (update_named n (\<lambda>t. t\<lparr>
                    tk_description := or_else (tu_description req) (tk_description existing),
                    tk_interval_secs := interval,
                    tk_agent := or_else (tu_agent req) (tk_agent existing),
                    tk_model := or_else (tu_model req) (tk_model existing),
                    tk_overlays := or_else (tu_overlays req) (tk_overlays existing),
                    tk_updated_at := now,
                    tk_prerequisites := (case tu_prerequisites req of
                       None \<Rightarrow> tk_prerequisites existing | Some p \<Rightarrow> Some p)\<rparr>) db)
              in (Inr (task_get n db'), db'))))"

definition task_set_status :: "instant \<Rightarrow> string \<Rightarrow> task_status \<Rightarrow> task_db \<Rightarrow> bool \<times> task_db" where
  "task_set_status now n status db =
     (case update_named n (\<lambda>t. t\<lparr>tk_status := status, tk_updated_at := now\<rparr>) db of
        (k, db') \<Rightarrow> (0 < k, db'))"

definition task_delete :: "string \<Rightarrow> task_db \<Rightarrow> bool \<times> task_db" where
  "task_delete n db =
     (case task_get n db of
        None \<Rightarrow> (False, db)
      | Some t \<Rightarrow>
          (let runs = filter (\<lambda>r. rn_task_id r \<noteq> tk_id t) (db_runs db);
               tasks = filter (\<lambda>u. tk_id u \<noteq> tk_id t) (db_tasks db)
           in (length tasks < length (db_tasks db), \<lparr>db_tasks = tasks, db_runs = runs\<rparr>)))"

definition request_trigger :: "instant \<Rightarrow> string \<Rightarrow> task_db \<Rightarrow> bool \<times> task_db" where
  "request_trigger now n db =
     (case update_named n (\<lambda>t. t\<lparr>tk_trigger_requested_at := Some now, tk_backoff_until := None,
                                tk_updated_at := now\<rparr>) db of
        (k, db') \<Rightarrow> (0 < k, db'))"

definition has_running :: "string \<Rightarrow> task_db \<Rightarrow> bool" where
  "has_running task_id db \<longleftrightarrow> list_ex (\<lambda>r. rn_task_id r = task_id \<and> rn_status r = Running) (db_runs db)"

text \<open>The admission rule, as the \<open>WHERE\<close> clause has it.\<close>

definition is_due :: "(instant \<Rightarrow> instant \<Rightarrow> nat \<Rightarrow> bool) \<Rightarrow> instant \<Rightarrow> task_db \<Rightarrow> task \<Rightarrow> bool" where
  "is_due elapsed now db t \<longleftrightarrow>
     tk_status t = Active \<and>
     (tk_trigger_requested_at t \<noteq> None \<or>
      (case tk_backoff_until t of None \<Rightarrow> True | Some b \<Rightarrow> b \<le> now) \<and>
      (case tk_last_run_at t of None \<Rightarrow> True | Some l \<Rightarrow> elapsed now l (tk_interval_secs t))) \<and>
     \<not> has_running (tk_id t) db"

text \<open>
  \<open>ORDER BY trigger_requested_at IS NULL, last_run_at IS NOT NULL, last_run_at\<close>: triggered tasks first, then
  those that never ran, then by the time of the last run. \<open>NULL\<close> sorts before every text.
\<close>

definition due_rank :: "task \<Rightarrow> nat" where
  "due_rank t =
     (if tk_trigger_requested_at t = None then 2 else 0) + (if tk_last_run_at t = None then 0 else 1)"

definition due_for_evaluation ::
  "(instant \<Rightarrow> instant \<Rightarrow> nat \<Rightarrow> bool) \<Rightarrow> instant \<Rightarrow> task_db \<Rightarrow> task list" where
  "due_for_evaluation elapsed now db =
     sort_key due_rank (sort_key (\<lambda>t. or_else (tk_last_run_at t) 0)
       (filter (is_due elapsed now db) (db_tasks db)))"

text \<open>
  \<open>run_id\<close> is the fresh identifier \<open>RunId::new\<close> makes. The foreign key refuses a run of a task that is not
  there (any more).
\<close>

definition start_run_with_env ::
  "string \<Rightarrow> string \<Rightarrow> string option \<Rightarrow> instant \<Rightarrow> string list \<Rightarrow> task_db \<Rightarrow> (store_error, string) result \<times> task_db" where
  "start_run_with_env run_id task_id session_id started_at unmet_env db =
     (if task_id \<notin> tk_id ` set (db_tasks db) \<or> run_id \<in> rn_id ` set (db_runs db) then (Inl Sqlite_error, db)
      else
        (Inr run_id,
         \<lparr>db_tasks = map (\<lambda>t. if tk_id t = task_id
                              then t\<lparr>tk_last_run_at := Some started_at, tk_updated_at := started_at,
                                     tk_trigger_requested_at := None\<rparr> else t) (db_tasks db),
          db_runs = db_runs db @ [\<lparr>rn_id = run_id, rn_task_id = task_id, rn_status = Running,
             rn_detail = no_detail, rn_session_id = session_id, rn_started_at = started_at,
             rn_finished_at = None, rn_unmet_env = unmet_env\<rparr>]\<rparr>))"

definition start_run ::
  "string \<Rightarrow> string \<Rightarrow> string option \<Rightarrow> instant \<Rightarrow> task_db \<Rightarrow> (store_error, string) result \<times> task_db" where
  "start_run run_id task_id session_id started_at db =
     start_run_with_env run_id task_id session_id started_at [] db"

definition update_runs :: "(run \<Rightarrow> bool) \<Rightarrow> (run \<Rightarrow> run) \<Rightarrow> task_db \<Rightarrow> nat \<times> task_db" where
  "update_runs p f db =
     (length (filter p (db_runs db)), db\<lparr>db_runs := map (\<lambda>r. if p r then f r else r) (db_runs db)\<rparr>)"

definition finish_run :: "string \<Rightarrow> run_status \<Rightarrow> run_detail \<Rightarrow> instant \<Rightarrow> task_db \<Rightarrow> bool \<times> task_db" where
  "finish_run run_id status detail finished_at db =
     (case update_runs (\<lambda>r. rn_id r = run_id \<and> rn_status r = Running)
             (\<lambda>r. r\<lparr>rn_status := status, rn_detail := detail, rn_finished_at := Some finished_at\<rparr>) db of
        (k, db') \<Rightarrow> (0 < k, db'))"

definition set_backoff :: "instant \<Rightarrow> string \<Rightarrow> instant option \<Rightarrow> task_db \<Rightarrow> task_db" where
  "set_backoff now n until db =
     snd (update_named n (\<lambda>t. t\<lparr>tk_backoff_until := until, tk_updated_at := now\<rparr>) db)"

definition set_workflow_state_path :: "string \<Rightarrow> string option \<Rightarrow> string option \<Rightarrow> task_db \<Rightarrow> task_db" where
  "set_workflow_state_path run_id workflow_path state_path db =
     snd (update_runs (\<lambda>r. rn_id r = run_id)
       (\<lambda>r. r\<lparr>rn_detail := (rn_detail r)\<lparr>rd_workflow_path := workflow_path,
                                       rd_workflow_state_path := state_path\<rparr>\<rparr>) db)"

text \<open>Newest first.\<close>

definition newest_first :: "run list \<Rightarrow> run list" where
  "newest_first rs = sort_key (\<lambda>r. - int (rn_started_at r)) rs"

definition runs_for :: "string \<Rightarrow> nat \<Rightarrow> task_db \<Rightarrow> run list" where
  "runs_for n limit db =
     take limit (newest_first (filter (\<lambda>r. list_ex (\<lambda>t. tk_id t = rn_task_id r \<and> tk_name t = n) (db_tasks db))
       (db_runs db)))"

definition running_run_for :: "string \<Rightarrow> task_db \<Rightarrow> run option" where
  "running_run_for task_id db =
     (case newest_first (filter (\<lambda>r. rn_task_id r = task_id \<and> rn_status r = Running) (db_runs db)) of
        [] \<Rightarrow> None | r # _ \<Rightarrow> Some r)"

definition reconcile_orphaned_runs :: "instant \<Rightarrow> task_db \<Rightarrow> nat \<times> task_db" where
  "reconcile_orphaned_runs now db =
     update_runs (\<lambda>r. rn_status r = Running)
       (\<lambda>r. r\<lparr>rn_status := Interrupted, rn_finished_at := Some now,
              rn_detail := (rn_detail r)\<lparr>rd_error := Some ''daemon restarted while this run was in flight''\<rparr>\<rparr>)
       db"

subsection \<open>Well-formed tables\<close>

text \<open>
  The keys are keys, names are unique, every run belongs to a task, and no task has two running runs.
\<close>

definition running_ids :: "task_db \<Rightarrow> string list" where
  "running_ids db = map rn_task_id (filter (\<lambda>r. rn_status r = Running) (db_runs db))"

definition db_ok :: "task_db \<Rightarrow> bool" where
  "db_ok db \<longleftrightarrow>
     distinct (map tk_id (db_tasks db)) \<and> distinct (map tk_name (db_tasks db)) \<and>
     distinct (map rn_id (db_runs db)) \<and>
     rn_task_id ` set (db_runs db) \<subseteq> tk_id ` set (db_tasks db) \<and>
     distinct (running_ids db)"

lemma has_running_iff: "has_running i db \<longleftrightarrow> i \<in> set (running_ids db)"
  by (auto simp: has_running_def running_ids_def list_ex_iff)

lemma update_named_db [simp]:
  "db_runs (snd (update_named n f db)) = db_runs db"
  "(\<And>t. tk_id (f t) = tk_id t) \<Longrightarrow> map tk_id (db_tasks (snd (update_named n f db))) = map tk_id (db_tasks db)"
  "(\<And>t. tk_name (f t) = tk_name t) \<Longrightarrow> map tk_name (db_tasks (snd (update_named n f db))) = map tk_name (db_tasks db)"
  by (simp_all add: update_named_def)

lemma db_ok_fields:
  assumes "map tk_id (db_tasks db') = map tk_id (db_tasks db)"
    and "map tk_name (db_tasks db') = map tk_name (db_tasks db)"
    and "map rn_id (db_runs db') = map rn_id (db_runs db)"
    and "map rn_task_id (db_runs db') = map rn_task_id (db_runs db)"
    and "distinct (running_ids db) \<Longrightarrow> distinct (running_ids db')"
  shows "db_ok db \<Longrightarrow> db_ok db'"
proof -
  have "tk_id ` set (db_tasks db') = tk_id ` set (db_tasks db)"
    "rn_task_id ` set (db_runs db') = rn_task_id ` set (db_runs db)"
    using assms(1,4) by (metis list.set_map)+
  then show "db_ok db \<Longrightarrow> db_ok db'" using assms by (simp add: db_ok_def)
qed

lemma running_ids_runs: "db_runs db' = db_runs db \<Longrightarrow> running_ids db' = running_ids db"
  by (simp add: running_ids_def)

lemma update_named_ok:
  assumes f: "\<And>t. tk_id (f t) = tk_id t" "\<And>t. tk_name (f t) = tk_name t" and "db_ok db"
  shows "db_ok (snd (update_named n f db))"
proof (rule db_ok_fields [OF _ _ _ _ _ assms(3)])
  let ?db = "snd (update_named n f db)"
  show "map tk_id (db_tasks ?db) = map tk_id (db_tasks db)"
    "map tk_name (db_tasks ?db) = map tk_name (db_tasks db)"
    using f by (intro update_named_db; simp)+
  have r: "db_runs ?db = db_runs db" by simp
  then show "map rn_id (db_runs ?db) = map rn_id (db_runs db)"
    "map rn_task_id (db_runs ?db) = map rn_task_id (db_runs db)" by simp_all
  show "distinct (running_ids db) \<Longrightarrow> distinct (running_ids ?db)" by (simp only: running_ids_runs [OF r])
qed

lemma update_runs_ids [simp]:
  assumes "\<And>r. rn_id (f r) = rn_id r" and "\<And>r. rn_task_id (f r) = rn_task_id r"
  shows "map rn_id (db_runs (snd (update_runs p f db))) = map rn_id (db_runs db)"
    "map rn_task_id (db_runs (snd (update_runs p f db))) = map rn_task_id (db_runs db)"
    "db_tasks (snd (update_runs p f db)) = db_tasks db"
  using assms by (simp_all add: update_runs_def)

lemma running_idsI: "r \<in> set (db_runs db) \<Longrightarrow> rn_status r = Running \<Longrightarrow> rn_task_id r \<in> set (running_ids db)"
  by (simp add: running_ids_def)

text \<open>An update that starts nothing leaves fewer runs running.\<close>

lemma running_after_update:
  assumes "\<And>r. rn_task_id (f r) = rn_task_id r" and "\<And>r. p r \<Longrightarrow> rn_status (f r) = Running \<Longrightarrow> rn_status r = Running"
  shows "set (running_ids (snd (update_runs p f db))) \<subseteq> set (running_ids db)"
    and "distinct (running_ids db) \<Longrightarrow> distinct (running_ids (snd (update_runs p f db)))"
proof -
  define g where "g = (\<lambda>r. if p r then f r else r)"
  have g: "rn_task_id (g r) = rn_task_id r" "rn_status (g r) = Running \<Longrightarrow> rn_status r = Running" for r
    using assms(1) [of r] assms(2) [of r] by (auto simp: g_def split: if_split_asm)
  have e: "running_ids (snd (update_runs p f db)) = map rn_task_id (filter (\<lambda>r. rn_status r = Running) (map g (db_runs db)))"
    by (simp add: running_ids_def update_runs_def g_def)
  have s: "set (map rn_task_id (filter (\<lambda>r. rn_status r = Running) (map g rs)))
      \<subseteq> set (map rn_task_id (filter (\<lambda>r. rn_status r = Running) rs))" for rs
    by (induction rs) (use g in auto)
  then show "set (running_ids (snd (update_runs p f db))) \<subseteq> set (running_ids db)"
    unfolding e by (simp add: running_ids_def)
  have "distinct (map rn_task_id (filter (\<lambda>r. rn_status r = Running) rs)) \<Longrightarrow>
      distinct (map rn_task_id (filter (\<lambda>r. rn_status r = Running) (map g rs)))" for rs
  proof (induction rs)
    case (Cons r rs)
    show ?case
    proof (cases "rn_status (g r) = Running")
      case True
      then have "rn_status r = Running" by (rule g)
      then have "rn_task_id r \<notin> set (map rn_task_id (filter (\<lambda>r. rn_status r = Running) (map g rs)))"
        and "distinct (map rn_task_id (filter (\<lambda>r. rn_status r = Running) rs))"
        using Cons.prems s [of rs] by auto
      then show ?thesis using True Cons.IH g(1) by simp
    next
      case False
      moreover have "distinct (map rn_task_id (filter (\<lambda>r. rn_status r = Running) rs))"
        using Cons.prems by (simp split: if_split_asm)
      ultimately show ?thesis using Cons.IH by simp
    qed
  qed simp
  then show "distinct (running_ids db) \<Longrightarrow> distinct (running_ids (snd (update_runs p f db)))"
    unfolding e by (simp add: running_ids_def)
qed

lemma update_runs_ok:
  assumes "\<And>r. rn_id (f r) = rn_id r" and "\<And>r. rn_task_id (f r) = rn_task_id r"
    and "\<And>r. p r \<Longrightarrow> rn_status (f r) = Running \<Longrightarrow> rn_status r = Running" and "db_ok db"
  shows "db_ok (snd (update_runs p f db))"
  by (rule db_ok_fields [OF _ _ _ _ _ assms(4)])
    (simp_all add: assms(1,2) running_after_update(2) [OF assms(2,3)])

subsection \<open>Every statement keeps them\<close>

lemma snd_counted: "snd (case x of (k, d) \<Rightarrow> (g k, d)) = snd x"
  by (cases x) simp

lemma task_create_ok: "db_ok db \<Longrightarrow> db_ok (snd (task_create t db))"
  by (auto simp: task_create_def db_ok_def running_ids_def)

lemma task_update_ok: "db_ok db \<Longrightarrow> db_ok (snd (task_update now n req db))"
  by (auto simp: task_update_def Let_def update_named_ok split: option.split)

lemma task_set_status_ok: "db_ok db \<Longrightarrow> db_ok (snd (task_set_status now n s db))"
  using update_named_ok [of "\<lambda>t. t\<lparr>tk_status := s, tk_updated_at := now\<rparr>" db n]
  by (simp add: task_set_status_def snd_counted)

lemma request_trigger_ok: "db_ok db \<Longrightarrow> db_ok (snd (request_trigger now n db))"
  using update_named_ok [of "\<lambda>t. t\<lparr>tk_trigger_requested_at := Some now, tk_backoff_until := None, tk_updated_at := now\<rparr>" db n]
  by (simp add: request_trigger_def snd_counted)

lemma set_backoff_ok: "db_ok db \<Longrightarrow> db_ok (set_backoff now n u db)"
  by (simp add: set_backoff_def update_named_ok)

lemma task_delete_ok: "db_ok db \<Longrightarrow> db_ok (snd (task_delete n db))"
proof (cases "task_get n db")
  case (Some t)
  assume ok: "db_ok db"
  have "running_ids (snd (task_delete n db)) = filter (\<lambda>i. i \<noteq> tk_id t) (running_ids db)"
    by (simp add: task_delete_def Some Let_def running_ids_def filter_map comp_def conj_commute)
  then show ?thesis using ok
    by (auto simp: db_ok_def task_delete_def Some Let_def distinct_map_filter)
qed (simp add: task_delete_def)

lemma finish_run_ok: "db_ok db \<Longrightarrow> db_ok (snd (finish_run i s d f db))"
  using update_runs_ok [of "\<lambda>r. r\<lparr>rn_status := s, rn_detail := d, rn_finished_at := Some f\<rparr>"
      "\<lambda>r. rn_id r = i \<and> rn_status r = Running" db]
  by (simp add: finish_run_def snd_counted)

lemma set_workflow_state_path_ok: "db_ok db \<Longrightarrow> db_ok (set_workflow_state_path i w p db)"
  unfolding set_workflow_state_path_def by (rule update_runs_ok) auto

lemma reconcile_ok: "db_ok db \<Longrightarrow> db_ok (snd (reconcile_orphaned_runs now db))"
  unfolding reconcile_orphaned_runs_def by (rule update_runs_ok) auto

lemma map_opened [simp]:
  "map tk_id (map (\<lambda>t. if tk_id t = i then t\<lparr>tk_last_run_at := a, tk_updated_at := b, tk_trigger_requested_at := c\<rparr> else t) ts)
     = map tk_id ts"
  "map tk_name (map (\<lambda>t. if tk_id t = i then t\<lparr>tk_last_run_at := a, tk_updated_at := b, tk_trigger_requested_at := c\<rparr> else t) ts)
     = map tk_name ts"
  by (induction ts) simp_all

lemma start_run_ok:
  "db_ok db \<Longrightarrow> \<not> has_running i db \<Longrightarrow> db_ok (snd (start_run_with_env r i s at u db))"
proof (cases "i \<notin> tk_id ` set (db_tasks db) \<or> r \<in> rn_id ` set (db_runs db)")
  case False
  assume ok: "db_ok db" and n: "\<not> has_running i db"
  let ?db = "snd (start_run_with_env r i s at u db)"
  have t: "map tk_id (db_tasks ?db) = map tk_id (db_tasks db)" "map tk_name (db_tasks ?db) = map tk_name (db_tasks db)"
    using False by (simp_all add: start_run_with_env_def del: map_map)
  have "tk_id ` set (db_tasks ?db) = tk_id ` set (db_tasks db)" using t(1) by (metis list.set_map)
  moreover have "running_ids ?db = running_ids db @ [i]" "map rn_id (db_runs ?db) = map rn_id (db_runs db) @ [r]"
    "rn_task_id ` set (db_runs ?db) = insert i (rn_task_id ` set (db_runs db))"
    using False by (simp_all add: start_run_with_env_def running_ids_def)
  ultimately show ?thesis using ok n False t by (simp add: db_ok_def has_running_iff)
qed (simp add: start_run_with_env_def)

text \<open>What a run that was opened looks like: it is the only one running, and its task is not due.\<close>

lemma start_run_running:
  assumes "start_run_with_env r i s at u db = (Inr r', db')"
  shows "r' = r \<and> set (running_ids db') = insert i (set (running_ids db)) \<and> i \<in> tk_id ` set (db_tasks db) \<and>
    map tk_id (db_tasks db') = map tk_id (db_tasks db) \<and> map tk_name (db_tasks db') = map tk_name (db_tasks db) \<and>
    r \<notin> rn_id ` set (db_runs db) \<and> (\<exists>x. db_runs db' = db_runs db @ [x] \<and> rn_id x = r \<and> rn_task_id x = i \<and> rn_status x = Running)"
proof -
  have c: "i \<in> tk_id ` set (db_tasks db)" "r \<notin> rn_id ` set (db_runs db)"
    using assms by (auto simp: start_run_with_env_def split: if_split_asm)
  then have d: "r' = r" "db' = snd (start_run_with_env r i s at u db)"
    using assms by (auto simp: start_run_with_env_def)
  have "running_ids db' = running_ids db @ [i]"
    using c by (simp add: d start_run_with_env_def running_ids_def)
  then show ?thesis using c by (simp add: d(1)) (simp add: d(2) start_run_with_env_def del: map_map)
qed

lemma running_not_due: "has_running (tk_id t) db \<Longrightarrow> \<not> is_due elapsed now db t"
  by (simp add: is_due_def)

lemma due_set: "set (due_for_evaluation elapsed now db) = {t \<in> set (db_tasks db). is_due elapsed now db t}"
  by (auto simp: due_for_evaluation_def)

lemma due_distinct: "db_ok db \<Longrightarrow> distinct (map tk_id (due_for_evaluation elapsed now db))"
proof -
  assume "db_ok db"
  then have "distinct (map tk_id (filter (is_due elapsed now db) (db_tasks db)))"
    by (simp add: db_ok_def distinct_map_filter)
  then show ?thesis by (simp add: due_for_evaluation_def distinct_map)
qed

end
