(* ===== verification/Squad_Scheduler.thy ===== *)
theory Squad_Scheduler
  imports Task_Store "HOL-Library.Word"
begin

text \<open>
  \<open>src/engine/squad/scheduler.rs\<close>: the loop that looks for due tasks and runs them in the background. A
  tick, the opening of each run of a tick, the steps of every evaluation and the requests of the user are
  steps of their own, so they interleave as the tasks of the daemon do; each is atomic, as it holds the
  lock of the store or of the status. What the outside decides is an argument of a step.
\<close>

subsection \<open>Container names\<close>

definition squad_name_prefix :: string where
  "squad_name_prefix = ''awman-squad-''"

definition unique_hex_len :: nat where
  "unique_hex_len = 8"

definition task_slug_max_len :: nat where
  "task_slug_max_len = 48"

text \<open>\<open>unique\<close>: the first eight hexadecimal digits of a fresh identifier.\<close>

definition generate_squad_container_name :: "string \<Rightarrow> string \<Rightarrow> string" where
  "generate_squad_container_name unique task_slug = squad_name_prefix @ task_slug @ ''-'' @ unique"

definition is_lower_hex :: "char \<Rightarrow> bool" where
  "is_lower_hex c \<longleftrightarrow> is_ascii_digit c \<or> CHR ''a'' \<le> c \<and> c \<le> CHR ''f''"

definition parse_squad_task_slug :: "string \<Rightarrow> string option" where
  "parse_squad_task_slug name =
     (case strip_prefix name squad_name_prefix of
        None \<Rightarrow> None
      | Some rest \<Rightarrow>
          if length rest \<le> unique_hex_len then None
          else
            (let k = length rest - unique_hex_len - 1; slug = take k rest; tail = drop k rest in
             case tail of
               [] \<Rightarrow> None
             | c # digits \<Rightarrow>
                 if c \<noteq> CHR ''-'' \<or> \<not> list_all is_lower_hex digits \<or> slug = [] then None
                 else Some slug))"

definition is_lower_alnum :: "char \<Rightarrow> bool" where
  "is_lower_alnum c \<longleftrightarrow> CHR ''a'' \<le> c \<and> c \<le> CHR ''z'' \<or> is_ascii_digit c"

definition validate_task_slug :: "string \<Rightarrow> bool" where
  "validate_task_slug slug \<longleftrightarrow>
     slug \<noteq> [] \<and> length slug \<le> task_slug_max_len \<and>
     list_all (\<lambda>c. is_lower_alnum c \<or> c = CHR ''-'') slug \<and>
     is_lower_alnum (hd slug) \<and> is_lower_alnum (last slug)"

subsection \<open>Backoff\<close>

definition max_backoff_secs :: "64 word" where
  "max_backoff_secs = 6 * 60 * 60"

definition u64_checked_pow2 :: "32 word \<Rightarrow> 64 word option" where
  "u64_checked_pow2 n = (if 2 ^ unat n < (2 :: nat) ^ 64 then Some (2 ^ unat n) else None)"

definition u64_saturating_mul :: "64 word \<Rightarrow> 64 word \<Rightarrow> 64 word" where
  "u64_saturating_mul a b = (if unat a * unat b < 2 ^ 64 then a * b else - 1)"

definition backoff_secs :: "64 word \<Rightarrow> 32 word \<Rightarrow> 64 word" where
  "backoff_secs interval_secs attempt =
     (let factor = (case u64_checked_pow2 attempt of None \<Rightarrow> - 1 | Some f \<Rightarrow> f)
      in min (u64_saturating_mul interval_secs factor) max_backoff_secs)"

definition u32_saturating_succ :: "32 word \<Rightarrow> 32 word" where
  "u32_saturating_succ n = (if n = - 1 then n else n + 1)"

subsection \<open>Outcomes\<close>

datatype evaluation_outcome =
    Not_triggered "string option"
  | Workflow_executed "string option" string "string option" "int option"
  | Evaluation_failed string "string option"

text \<open>\<open>exited c d\<close>: the text about a workflow that exited with \<open>c\<close>, naming the directory of its logs.\<close>

definition classify ::
  "(int \<Rightarrow> string \<Rightarrow> string) \<Rightarrow> evaluation_outcome \<Rightarrow> string \<Rightarrow> run_status \<times> run_detail \<times> bool" where
  "classify exited outcome run_log_dir =
     (case outcome of
        Not_triggered reason \<Rightarrow> (NotTriggered, no_detail\<lparr>rd_reason := reason\<rparr>, False)
      | Workflow_executed reason path state_path exit_code \<Rightarrow>
          (let failed = (case exit_code of None \<Rightarrow> False | Some c \<Rightarrow> c \<noteq> 0) in
           (if failed then Failed else WorkflowExecuted,
            \<lparr>rd_workflow_path = Some path, rd_workflow_state_path = state_path,
             rd_error = (case exit_code of None \<Rightarrow> None | Some c \<Rightarrow> if c \<noteq> 0 then Some (exited c run_log_dir) else None),
             rd_reason = reason\<rparr>, failed))
      | Evaluation_failed error reason \<Rightarrow>
          (Failed, no_detail\<lparr>rd_error := Some error, rd_reason := reason\<rparr>, True))"

subsection \<open>The scheduler\<close>

text \<open>
  An evaluation that was spawned: still evaluating, its run recorded (did it fail, and when), or done but
  for the guard that ends it. \<open>ev_token\<close>: its cancellation token has fired.
\<close>

datatype ev_phase = Evaluating | Recorded bool instant | Closing

record evaluation =
  ev_task :: task
  ev_run :: string
  ev_log_dir :: string
  ev_token :: bool
  ev_phase :: ev_phase

record squad =
  sq_db :: task_db
  sq_last_tick :: "instant option"
  sq_tick_count :: nat
  sq_in_flight :: nat
  sq_config_error :: "string option"
  sq_cancellations :: "string \<rightharpoonup> string"
  sq_failure_counts :: "string \<rightharpoonup> 32 word"
  sq_due :: "task list"
  sq_evals :: "evaluation list"
  sq_stops :: "string list"

definition squad_new :: "task_db \<Rightarrow> squad" where
  "squad_new db = \<lparr>sq_db = db, sq_last_tick = None, sq_tick_count = 0, sq_in_flight = 0, sq_config_error = None,
     sq_cancellations = Map.empty, sq_failure_counts = Map.empty, sq_due = [], sq_evals = [], sq_stops = []\<rparr>"

definition find_eval :: "string \<Rightarrow> squad \<Rightarrow> evaluation option" where
  "find_eval r s = find (\<lambda>e. ev_run e = r) (sq_evals s)"

definition update_eval :: "string \<Rightarrow> (evaluation \<Rightarrow> evaluation) \<Rightarrow> squad \<Rightarrow> squad" where
  "update_eval r f s = s\<lparr>sq_evals := map (\<lambda>e. if ev_run e = r then f e else e) (sq_evals s)\<rparr>"

text \<open>
  The start of a tick: \<open>config\<close> is what reloading the configuration gave, the limit or the error; \<open>readable\<close>
  whether the query for due tasks worked. What remains to be opened in this tick is \<open>sq_due\<close>.
\<close>

definition tick ::
  "(instant \<Rightarrow> instant \<Rightarrow> nat \<Rightarrow> bool) \<Rightarrow> instant \<Rightarrow> (string, nat option) result \<Rightarrow> bool \<Rightarrow> squad \<Rightarrow> squad" where
  "tick elapsed now config readable s =
     (let s = s\<lparr>sq_last_tick := Some now, sq_tick_count := sq_tick_count s + 1\<rparr> in
      case config of
        Inl error \<Rightarrow> s\<lparr>sq_config_error := Some error\<rparr>
      | Inr limit \<Rightarrow>
          (let s = s\<lparr>sq_config_error := None\<rparr>;
               max_concurrent = max (case limit of None \<Rightarrow> 2 | Some m \<Rightarrow> m) 1 in
           if \<not> readable then s
           else s\<lparr>sq_due := take (max_concurrent - sq_in_flight s) (due_for_evaluation elapsed now (sq_db s))\<rparr>))"

text \<open>What the outside answers while a run is opened. \<open>oi_saved\<close>: the store could be written.\<close>

record open_inputs =
  oi_task_dir_ok :: bool
  oi_unmet :: "string list"
  oi_run_id :: string
  oi_started_at :: instant
  oi_log_dir :: "(string, string) result"
  oi_task_config :: "(string, unit) result"
  oi_finished_at :: instant
  oi_saved :: bool

definition fail_opened :: "open_inputs \<Rightarrow> string \<Rightarrow> squad \<Rightarrow> squad" where
  "fail_opened i error s =
     (if oi_saved i
      then s\<lparr>sq_db := snd (finish_run (oi_run_id i) Failed (no_detail\<lparr>rd_error := Some error\<rparr>) (oi_finished_at i) (sq_db s))\<rparr>
      else s)"

definition spawn_eval :: "task \<Rightarrow> string \<Rightarrow> string \<Rightarrow> squad \<Rightarrow> squad" where
  "spawn_eval t run_id log_dir s =
     s\<lparr>sq_in_flight := sq_in_flight s + 1,
       sq_cancellations := (sq_cancellations s)(tk_id t \<mapsto> run_id),
       sq_evals := sq_evals s @ [\<lparr>ev_task = t, ev_run = run_id, ev_log_dir = log_dir,
          ev_token = False, ev_phase = Evaluating\<rparr>]\<rparr>"

text \<open>The run is open: its log directory and the configuration of its task, then the evaluation.\<close>

definition opened :: "open_inputs \<Rightarrow> task \<Rightarrow> string \<Rightarrow> squad \<Rightarrow> squad" where
  "opened i t run_id s =
     (case oi_log_dir i of
        Inl e \<Rightarrow> fail_opened i (''preparing per-container log directory: '' @ e) s
      | Inr log_dir \<Rightarrow>
          (case oi_task_config i of
             Inl e \<Rightarrow> fail_opened i (''reading the task's config.json: '' @ e) s
           | Inr _ \<Rightarrow> spawn_eval t run_id log_dir s))"

definition open_next :: "open_inputs \<Rightarrow> squad \<Rightarrow> squad" where
  "open_next i s =
     (case sq_due s of
        [] \<Rightarrow> s
      | t # rest \<Rightarrow>
          if \<not> oi_task_dir_ok i then s\<lparr>sq_due := rest\<rparr>
          else
            (case start_run_with_env (oi_run_id i) (tk_id t) None (oi_started_at i) (oi_unmet i) (sq_db s) of
               (Inl _, _) \<Rightarrow> s\<lparr>sq_due := rest\<rparr>
             | (Inr run_id, db) \<Rightarrow> opened i t run_id (s\<lparr>sq_due := rest, sq_db := db\<rparr>)))"

text \<open>The evaluation answered, and its token had not fired: the run is recorded.\<close>

definition record_outcome ::
  "(int \<Rightarrow> string \<Rightarrow> string) \<Rightarrow> evaluation \<Rightarrow> evaluation_outcome \<Rightarrow> instant \<Rightarrow> bool \<Rightarrow> squad \<Rightarrow> squad" where
  "record_outcome exited e outcome finished_at saved s =
     (case classify exited outcome (ev_log_dir e) of
        (status, detail, failed) \<Rightarrow>
          (let s = (if saved then s\<lparr>sq_db := snd (finish_run (ev_run e) status detail finished_at (sq_db s))\<rparr> else s)
           in update_eval (ev_run e) (\<lambda>e. e\<lparr>ev_phase := Recorded failed finished_at\<rparr>) s))"

definition adjust_backoff :: "evaluation \<Rightarrow> bool \<Rightarrow> instant \<Rightarrow> instant \<Rightarrow> bool \<Rightarrow> squad \<Rightarrow> squad" where
  "adjust_backoff e failed finished_at now saved s =
     (let i = tk_id (ev_task e); n = tk_name (ev_task e);
          s' = (if failed then
                  (let attempt = u32_saturating_succ (case sq_failure_counts s i of None \<Rightarrow> 0 | Some c \<Rightarrow> c);
                       secs = unat (backoff_secs (of_nat (tk_interval_secs (ev_task e))) attempt)
                   in (if saved then s\<lparr>sq_db := set_backoff now n (Some (finished_at + secs * 10 ^ 9)) (sq_db s)\<rparr> else s)
                        \<lparr>sq_failure_counts := (sq_failure_counts s)(i \<mapsto> attempt)\<rparr>)
                else
                  (if tk_backoff_until (ev_task e) \<noteq> None \<and> saved
                   then s\<lparr>sq_db := set_backoff now n None (sq_db s)\<rparr> else s)
                     \<lparr>sq_failure_counts := (sq_failure_counts s)(i := None)\<rparr>)
      in update_eval (ev_run e) (\<lambda>e. e\<lparr>ev_phase := Closing\<rparr>) s')"

text \<open>The token fired first: the run is canceled and the containers of the task are stopped.\<close>

definition finish_canceled_run :: "evaluation \<Rightarrow> string option \<Rightarrow> instant \<Rightarrow> bool \<Rightarrow> squad \<Rightarrow> squad" where
  "finish_canceled_run e reason now saved s =
     (let s = (if saved then s\<lparr>sq_db := snd (finish_run (ev_run e) Canceled (no_detail\<lparr>rd_reason := reason\<rparr>) now (sq_db s))\<rparr>
               else s)
      in update_eval (ev_run e) (\<lambda>e. e\<lparr>ev_phase := Closing\<rparr>)
           (s\<lparr>sq_stops := sq_stops s @ [tk_name (ev_task e)]\<rparr>))"

definition close_eval :: "evaluation \<Rightarrow> squad \<Rightarrow> squad" where
  "close_eval e s =
     s\<lparr>sq_in_flight := sq_in_flight s - 1,
       sq_cancellations :=
         (if sq_cancellations s (tk_id (ev_task e)) = Some (ev_run e)
          then (sq_cancellations s)(tk_id (ev_task e) := None) else sq_cancellations s),
       sq_evals := filter (\<lambda>x. ev_run x \<noteq> ev_run e) (sq_evals s)\<rparr>"

text \<open>\<open>SchedulerStatus::cancel_run\<close>, with the run it signalled.\<close>

definition cancel_run :: "string \<Rightarrow> squad \<Rightarrow> string option \<times> squad" where
  "cancel_run task_id s =
     (case sq_cancellations s task_id of
        None \<Rightarrow> (None, s)
      | Some r \<Rightarrow> (Some r, update_eval r (\<lambda>e. e\<lparr>ev_token := True\<rparr>) s))"

text \<open>
  The containers a canceled run stops, among those the runtime lists with the prefix; \<open>stops\<close> says which
  of the stops work.
\<close>

definition containers_to_stop :: "string \<Rightarrow> string list \<Rightarrow> string list" where
  "containers_to_stop task_name running =
     filter (\<lambda>c. parse_squad_task_slug c = Some task_name)
       (filter (\<lambda>c. starts_with c (squad_name_prefix @ task_name @ ''-'')) running)"

definition stop_task_containers :: "(string \<Rightarrow> bool) \<Rightarrow> string \<Rightarrow> string list \<Rightarrow> nat" where
  "stop_task_containers stops task_name running = length (filter stops (containers_to_stop task_name running))"

text \<open>A daemon that starts again knows the tables only; what was running is reconciled.\<close>

definition restart :: "instant \<Rightarrow> squad \<Rightarrow> squad" where
  "restart now s = squad_new (snd (reconcile_orphaned_runs now (sq_db s)))"

subsection \<open>Steps\<close>

text \<open>
  \<open>elapsed\<close> is the arithmetic of the database, \<open>exited\<close> the text about an exit code and \<open>M\<close> a bound of the
  configured limits. Identifiers are fresh: they are random. An evaluation may panic, and the daemon may
  stop at any moment and start again.
\<close>

inductive squad_step ::
  "(instant \<Rightarrow> instant \<Rightarrow> nat \<Rightarrow> bool) \<Rightarrow> (int \<Rightarrow> string \<Rightarrow> string) \<Rightarrow> nat \<Rightarrow> squad \<Rightarrow> squad \<Rightarrow> bool"
  for elapsed exited M where
  step_tick: "sq_due s = [] \<Longrightarrow> (case config of Inr None \<Rightarrow> 2 \<le> M | Inr (Some m) \<Rightarrow> max m 1 \<le> M | _ \<Rightarrow> True) \<Longrightarrow>
     squad_step elapsed exited M s (tick elapsed now config readable s)"
| step_open: "oi_run_id i \<notin> ev_run ` set (sq_evals s) \<Longrightarrow> squad_step elapsed exited M s (open_next i s)"
| step_record: "e \<in> set (sq_evals s) \<Longrightarrow> ev_phase e = Evaluating \<Longrightarrow> \<not> ev_token e \<Longrightarrow>
     squad_step elapsed exited M s (record_outcome exited e outcome finished_at saved s)"
| step_canceled: "e \<in> set (sq_evals s) \<Longrightarrow> ev_phase e = Evaluating \<Longrightarrow> ev_token e \<Longrightarrow>
     squad_step elapsed exited M s (finish_canceled_run e reason now saved s)"
| step_backoff: "e \<in> set (sq_evals s) \<Longrightarrow> ev_phase e = Recorded failed finished_at \<Longrightarrow>
     squad_step elapsed exited M s (adjust_backoff e failed finished_at now saved s)"
| step_close: "e \<in> set (sq_evals s) \<Longrightarrow> ev_phase e = Closing \<Longrightarrow> squad_step elapsed exited M s (close_eval e s)"
| step_panic: "e \<in> set (sq_evals s) \<Longrightarrow> squad_step elapsed exited M s (close_eval e s)"
| step_cancel: "task_get n (sq_db s) = Some t \<Longrightarrow> squad_step elapsed exited M s (snd (cancel_run (tk_id t) s))"
| step_create: "tk_id t \<notin> (\<lambda>e. tk_id (ev_task e)) ` set (sq_evals s) \<Longrightarrow>
     squad_step elapsed exited M s (s\<lparr>sq_db := snd (task_create t (sq_db s))\<rparr>)"
| step_update: "squad_step elapsed exited M s (s\<lparr>sq_db := snd (task_update now n req (sq_db s))\<rparr>)"
| step_status: "squad_step elapsed exited M s (s\<lparr>sq_db := snd (task_set_status now n status (sq_db s))\<rparr>)"
| step_trigger: "task_get n (sq_db s) = Some t \<Longrightarrow> tk_status t \<noteq> Paused \<Longrightarrow>
     squad_step elapsed exited M s (s\<lparr>sq_db := snd (request_trigger now n (sq_db s))\<rparr>)"
| step_delete: "squad_step elapsed exited M s (s\<lparr>sq_db := snd (task_delete n (sq_db s))\<rparr>)"
| step_paths: "squad_step elapsed exited M s (s\<lparr>sq_db := set_workflow_state_path r wp sp (sq_db s)\<rparr>)"
| step_restart: "squad_step elapsed exited M s (restart now s)"

abbreviation squad_steps where
  "squad_steps elapsed exited M \<equiv> (squad_step elapsed exited M)\<^sup>*\<^sup>*"

subsection \<open>The invariant\<close>

definition backed :: "task_db \<Rightarrow> evaluation \<Rightarrow> bool" where
  "backed db e \<longleftrightarrow>
     tk_id (ev_task e) \<in> tk_id ` set (db_tasks db) \<longrightarrow>
     (\<exists>r \<in> set (db_runs db). rn_id r = ev_run e \<and> rn_task_id r = tk_id (ev_task e) \<and> rn_status r = Running)"

definition reaches :: "squad \<Rightarrow> evaluation \<Rightarrow> bool" where
  "reaches s e \<longleftrightarrow> sq_cancellations s (tk_id (ev_task e)) = Some (ev_run e)"

definition squad_inv :: "nat \<Rightarrow> squad \<Rightarrow> bool" where
  "squad_inv M s \<longleftrightarrow>
     db_ok (sq_db s) \<and>
     sq_in_flight s = length (sq_evals s) \<and> length (sq_evals s) + length (sq_due s) \<le> M \<and>
     distinct (map ev_run (sq_evals s)) \<and>
     distinct (map tk_id (sq_due s)) \<and> tk_id ` set (sq_due s) \<inter> set (running_ids (sq_db s)) = {} \<and>
     (\<forall>e \<in> set (sq_evals s). ev_phase e = Evaluating \<longrightarrow> reaches s e \<and> backed (sq_db s) e) \<and>
     (\<forall>i r. sq_cancellations s i = Some r \<longrightarrow>
        (\<exists>e \<in> set (sq_evals s). ev_run e = r \<and> tk_id (ev_task e) = i))"

lemma inv_evaluating:
  "squad_inv M s \<Longrightarrow> e \<in> set (sq_evals s) \<Longrightarrow> ev_phase e = Evaluating \<Longrightarrow> reaches s e \<and> backed (sq_db s) e"
  by (simp add: squad_inv_def)

lemma inv_handle:
  assumes "squad_inv M s" and "sq_cancellations s i = Some r"
  obtains e where "e \<in> set (sq_evals s)" "ev_run e = r" "tk_id (ev_task e) = i"
proof -
  have "\<forall>i r. sq_cancellations s i = Some r \<longrightarrow>
      (\<exists>e \<in> set (sq_evals s). ev_run e = r \<and> tk_id (ev_task e) = i)"
    using assms(1) unfolding squad_inv_def by (elim conjE)
  with assms(2) that show thesis by blast
qed

lemma inv_counts:
  assumes "squad_inv M s"
  shows "db_ok (sq_db s)" "sq_in_flight s = length (sq_evals s)" "length (sq_evals s) + length (sq_due s) \<le> M"
    "distinct (map ev_run (sq_evals s))" "distinct (map tk_id (sq_due s))"
    "tk_id ` set (sq_due s) \<inter> set (running_ids (sq_db s)) = {}"
  using assms unfolding squad_inv_def by blast+

lemma inv_db:
  assumes "squad_inv M s" and "db_ok db" and "set (running_ids db) \<subseteq> set (running_ids (sq_db s))"
    and "\<And>e. e \<in> set (sq_evals s) \<Longrightarrow> ev_phase e = Evaluating \<Longrightarrow> backed (sq_db s) e \<Longrightarrow> backed db e"
  shows "squad_inv M (s\<lparr>sq_db := db\<rparr>)"
  using assms unfolding squad_inv_def reaches_def by simp blast

lemma backed_tasks:
  "db_runs db' = db_runs db \<Longrightarrow> map tk_id (db_tasks db') = map tk_id (db_tasks db) \<Longrightarrow> backed db e \<Longrightarrow> backed db' e"
  unfolding backed_def by (metis list.set_map)

lemma inv_tasks:
  assumes "squad_inv M s" and "db_ok db" and r: "db_runs db = db_runs (sq_db s)"
    and "map tk_id (db_tasks db) = map tk_id (db_tasks (sq_db s))"
  shows "squad_inv M (s\<lparr>sq_db := db\<rparr>)"
  by (rule inv_db [OF assms(1,2)]) (use backed_tasks [OF r assms(4)] running_ids_runs [OF r] in simp_all)

lemma inv_named:
  assumes "squad_inv M s" and "\<And>t. tk_id (f t) = tk_id t" and "\<And>t. tk_name (f t) = tk_name t"
  shows "squad_inv M (s\<lparr>sq_db := snd (update_named n f (sq_db s))\<rparr>)"
proof (rule inv_tasks [OF assms(1)])
  show "db_ok (snd (update_named n f (sq_db s)))"
    by (rule update_named_ok) (use assms in \<open>simp_all add: squad_inv_def\<close>)
qed (use assms in \<open>simp_all add: update_named_db\<close>)

text \<open>A finished run takes nothing from the evaluations of other runs.\<close>

lemma finish_run_backed:
  assumes "ev_run e \<noteq> r" and "backed db e"
  shows "backed (snd (finish_run r s d f db)) e"
proof -
  have t: "db_tasks (snd (finish_run r s d f db)) = db_tasks db"
    by (simp add: finish_run_def snd_counted update_runs_def)
  have "x \<in> set (db_runs (snd (finish_run r s d f db)))" if "x \<in> set (db_runs db)" "rn_id x = ev_run e" for x
    using that assms(1) by (force simp: finish_run_def snd_counted update_runs_def)
  then show ?thesis using assms(2) unfolding backed_def t by blast
qed

lemma finish_run_running: "set (running_ids (snd (finish_run r s d f db))) \<subseteq> set (running_ids db)"
  unfolding finish_run_def snd_counted by (rule running_after_update) auto

lemma inv_finish:
  assumes "squad_inv M s" and "\<And>e. e \<in> set (sq_evals s) \<Longrightarrow> ev_phase e = Evaluating \<Longrightarrow> ev_run e \<noteq> r"
  shows "squad_inv M (s\<lparr>sq_db := snd (finish_run r st d f (sq_db s))\<rparr>)"
  by (rule inv_db [OF assms(1) finish_run_ok finish_run_running finish_run_backed])
    (use assms in \<open>auto simp: squad_inv_def\<close>)

lemma eval_unique:
  "distinct (map ev_run es) \<Longrightarrow> e \<in> set es \<Longrightarrow> e' \<in> set es \<Longrightarrow> ev_run e = ev_run e' \<Longrightarrow> e = e'"
  by (metis distinct_map inj_onD)

text \<open>Changing the phase or the token of an evaluation, in a way that does not set it going again.\<close>

lemma inv_update_eval:
  assumes inv: "squad_inv M s"
    and f: "\<And>e. ev_run (f e) = ev_run e" "\<And>e. ev_task (f e) = ev_task e"
      "\<And>e. ev_phase (f e) = Evaluating \<Longrightarrow> ev_phase e = Evaluating"
  shows "squad_inv M (update_eval r f s)"
proof -
  define g where "g = (\<lambda>e. if ev_run e = r then f e else e)"
  have g: "ev_run (g e) = ev_run e" "ev_task (g e) = ev_task e"
    "ev_phase (g e) = Evaluating \<Longrightarrow> ev_phase e = Evaluating" for e
    using f [of e] by (auto simp: g_def split: if_split_asm)
  have m: "ev_run \<circ> g = ev_run" by (simp add: fun_eq_iff g)
  have "backed db (g e) = backed db e" "reaches t (g e) = reaches t e" for db t e
    by (simp_all add: backed_def reaches_def g)
  moreover have "reaches (s\<lparr>sq_evals := es\<rparr>) e = reaches s e" for es e by (simp add: reaches_def)
  ultimately show ?thesis
    using inv g(3) m unfolding squad_inv_def update_eval_def g_def [symmetric]
    by (auto simp: g(1,2))
qed

lemma stopped_evaluating:
  assumes inv: "squad_inv M s" and e: "e \<in> set (sq_evals s)" and f: "\<And>x. ev_run (f x) = ev_run x" "\<And>x. ev_phase (f x) \<noteq> Evaluating"
    and x: "x \<in> set (sq_evals (update_eval (ev_run e) f s))" "ev_phase x = Evaluating"
  shows "ev_run x \<noteq> ev_run e"
  using x f by (auto simp: update_eval_def split: if_splits)

lemma update_eval_db: "update_eval r f (s\<lparr>sq_db := db\<rparr>) = (update_eval r f s)\<lparr>sq_db := db\<rparr>"
  "sq_db (update_eval r f s) = sq_db s"
  "update_eval r f (s\<lparr>sq_stops := st\<rparr>) = (update_eval r f s)\<lparr>sq_stops := st\<rparr>"
  "update_eval r f (s\<lparr>sq_failure_counts := fc\<rparr>) = (update_eval r f s)\<lparr>sq_failure_counts := fc\<rparr>"
  by (simp_all add: update_eval_def)

lemma inv_other_fields:
  "squad_inv M (s\<lparr>sq_stops := st\<rparr>) = squad_inv M s"
  "squad_inv M (s\<lparr>sq_failure_counts := fc\<rparr>) = squad_inv M s"
  "squad_inv M (s\<lparr>sq_config_error := ce\<rparr>) = squad_inv M s"
  "squad_inv M (s\<lparr>sq_last_tick := lt, sq_tick_count := tc\<rparr>) = squad_inv M s"
  by (simp_all add: squad_inv_def reaches_def)

lemma inv_ends:
  assumes "squad_inv M s" and "e \<in> set (sq_evals s)" and "p \<noteq> Evaluating"
  shows "squad_inv M (update_eval (ev_run e) (\<lambda>x. x\<lparr>ev_phase := p\<rparr>) s)"
    and "squad_inv M ((update_eval (ev_run e) (\<lambda>x. x\<lparr>ev_phase := p\<rparr>) s)
           \<lparr>sq_db := snd (finish_run (ev_run e) st d f (sq_db s))\<rparr>)"
proof -
  let ?s = "update_eval (ev_run e) (\<lambda>x. x\<lparr>ev_phase := p\<rparr>) s"
  show i: "squad_inv M ?s" by (rule inv_update_eval [OF assms(1)]) (use assms(3) in auto)
  have "squad_inv M (?s\<lparr>sq_db := snd (finish_run (ev_run e) st d f (sq_db ?s))\<rparr>)"
    by (rule inv_finish [OF i], rule stopped_evaluating [OF assms(1,2)]) (use assms(3) in auto)
  then show "squad_inv M (?s\<lparr>sq_db := snd (finish_run (ev_run e) st d f (sq_db s))\<rparr>)"
    by (simp only: update_eval_db)
qed

lemma record_outcome_inv:
  assumes "squad_inv M s" and "e \<in> set (sq_evals s)"
  shows "squad_inv M (record_outcome exited e outcome at saved s)"
  using inv_ends [OF assms, of "Recorded failed at" for failed]
  by (cases "classify exited outcome (ev_log_dir e)") (simp add: record_outcome_def Let_def update_eval_db)

lemma finish_canceled_inv:
  assumes "squad_inv M s" and "e \<in> set (sq_evals s)"
  shows "squad_inv M (finish_canceled_run e reason now saved s)"
  using inv_ends [OF assms, of Closing]
  by (simp add: finish_canceled_run_def Let_def update_eval_db inv_other_fields)

lemma inv_set_backoff: "squad_inv M s \<Longrightarrow> squad_inv M (s\<lparr>sq_db := set_backoff now n u (sq_db s)\<rparr>)"
  unfolding set_backoff_def by (rule inv_named) auto

lemma adjust_backoff_inv:
  assumes "squad_inv M s" and "e \<in> set (sq_evals s)"
  shows "squad_inv M (adjust_backoff e failed at now saved s)"
  unfolding adjust_backoff_def Let_def
  by (rule inv_update_eval) (use assms inv_set_backoff in \<open>auto simp: inv_other_fields\<close>)

lemma length_filter_run:
  "distinct (map ev_run es) \<Longrightarrow> e \<in> set es \<Longrightarrow> Suc (length (filter (\<lambda>x. ev_run x \<noteq> ev_run e) es)) = length es"
proof (induction es)
  case (Cons a es)
  show ?case
  proof (cases "ev_run a = ev_run e")
    case True
    then have "\<forall>x \<in> set es. ev_run x \<noteq> ev_run e" using Cons.prems(1) by (auto simp: image_iff)
    then have "filter (\<lambda>x. ev_run x \<noteq> ev_run e) es = es" by (simp add: filter_id_conv)
    then show ?thesis using True by simp
  next
    case False
    then have "e \<in> set es" using Cons.prems(2) by auto
    then show ?thesis using Cons False by simp
  qed
qed simp

lemma close_eval_inv:
  assumes inv: "squad_inv M s" and e: "e \<in> set (sq_evals s)"
  shows "squad_inv M (close_eval e s)"
proof -
  have d: "distinct (map ev_run (sq_evals s))" using inv by (simp add: squad_inv_def)
  let ?es = "filter (\<lambda>x. ev_run x \<noteq> ev_run e) (sq_evals s)"
  have len: "Suc (length ?es) = length (sq_evals s)" by (rule length_filter_run [OF d e])
  have c: "sq_cancellations (close_eval e s) i = (if sq_cancellations s i = Some (ev_run e) then None else sq_cancellations s i)" for i
  proof -
    have "sq_cancellations s i \<noteq> Some (ev_run e)" if n: "i \<noteq> tk_id (ev_task e)"
    proof
      assume i: "sq_cancellations s i = Some (ev_run e)"
      obtain e' where e': "e' \<in> set (sq_evals s)" "ev_run e' = ev_run e" "tk_id (ev_task e') = i"
        by (rule inv_handle [OF inv i])
      then show False using eval_unique [OF d e'(1) e] n by simp
    qed
    then show ?thesis
      by (cases "i = tk_id (ev_task e)"; cases "sq_cancellations s i = Some (ev_run e)") (simp_all add: close_eval_def)
  qed
  have fields: "sq_db (close_eval e s) = sq_db s" "sq_due (close_eval e s) = sq_due s"
    "sq_evals (close_eval e s) = ?es" "sq_in_flight (close_eval e s) = sq_in_flight s - 1"
    by (simp_all add: close_eval_def)
  note n = inv_counts [OF inv]
  show ?thesis
    unfolding squad_inv_def fields
  proof (intro conjI ballI impI allI)
    show "db_ok (sq_db s)" "distinct (map tk_id (sq_due s))"
      "tk_id ` set (sq_due s) \<inter> set (running_ids (sq_db s)) = {}" by (rule n)+
    show "sq_in_flight s - 1 = length ?es" "length ?es + length (sq_due s) \<le> M" using n(2,3) len by linarith+
    show "distinct (map ev_run ?es)" using d by (simp add: distinct_map_filter)
  next
    fix x assume x: "x \<in> set ?es" "ev_phase x = Evaluating"
    then have "reaches s x \<and> backed (sq_db s) x" using inv_evaluating [OF inv] by simp
    then show "reaches (close_eval e s) x" "backed (sq_db s) x" using x(1) by (simp_all add: reaches_def c)
  next
    fix j r assume "sq_cancellations (close_eval e s) j = Some r"
    then have j: "sq_cancellations s j = Some r" and r: "r \<noteq> ev_run e"
      unfolding c by (cases "sq_cancellations s j = Some (ev_run e)"; simp)+
    obtain x where "x \<in> set (sq_evals s)" "ev_run x = r" "tk_id (ev_task x) = j"
      by (rule inv_handle [OF inv j])
    then show "\<exists>x \<in> set ?es. ev_run x = r \<and> tk_id (ev_task x) = j" using r by auto
  qed
qed

lemma cancel_run_inv: "squad_inv M s \<Longrightarrow> squad_inv M (snd (cancel_run i s))"
  unfolding cancel_run_def by (cases "sq_cancellations s i") (auto intro: inv_update_eval)

lemma tick_inv:
  assumes inv: "squad_inv M s" and "sq_due s = []"
    and M: "case config of Inr None \<Rightarrow> 2 \<le> M | Inr (Some m) \<Rightarrow> max m 1 \<le> M | _ \<Rightarrow> True"
  shows "squad_inv M (tick elapsed now config readable s)"
proof -
  let ?s = "s\<lparr>sq_last_tick := Some now, sq_tick_count := sq_tick_count s + 1\<rparr>"
  have i: "squad_inv M (?s\<lparr>sq_config_error := ce\<rparr>)" for ce
    using inv by (simp only: inv_other_fields)
  show ?thesis
  proof (cases config)
    case (Inl err)
    then show ?thesis using i by (simp add: tick_def Let_def)
  next
    case (Inr limit)
    let ?m = "max (case limit of None \<Rightarrow> 2 | Some m \<Rightarrow> m) 1"
    let ?due = "due_for_evaluation elapsed now (sq_db s)"
    have m: "?m \<le> M" using M Inr by (cases limit) simp_all
    have "set (take k ?due) \<subseteq> set ?due" for k by (rule set_take_subset)
    then have "tk_id ` set (take k ?due) \<inter> set (running_ids (sq_db s)) = {}" for k
      using running_not_due [of _ "sq_db s" elapsed now] unfolding due_set has_running_iff by blast
    moreover have "distinct (map tk_id (take k ?due))" for k
      using due_distinct [of "sq_db s" elapsed now] inv by (simp add: squad_inv_def take_map [symmetric])
    moreover have "length (sq_evals s) + length (take (?m - sq_in_flight s) ?due) \<le> M"
      using inv m by (auto simp: squad_inv_def)
    ultimately have "squad_inv M (?s\<lparr>sq_config_error := None, sq_due := take (?m - sq_in_flight s) ?due\<rparr>)"
      using inv by (simp add: squad_inv_def reaches_def)
    then show ?thesis using Inr i [of None] by (simp add: tick_def Let_def)
  qed
qed

lemma spawn_eval_inv:
  assumes inv: "squad_inv M (s\<lparr>sq_due := t # rest\<rparr>)" and s: "sq_due s = rest"
    and db: "db_ok db" "set (running_ids db) = insert (tk_id t) (set (running_ids (sq_db s)))"
    and b: "\<And>e. backed (sq_db s) e \<Longrightarrow> backed db e"
    and was: "tk_id t \<in> tk_id ` set (db_tasks (sq_db s))" "tk_id t \<notin> set (running_ids (sq_db s))"
    and x: "x \<in> set (db_runs db)" "rn_id x = r" "rn_task_id x = tk_id t" "rn_status x = Running"
    and fresh: "r \<notin> ev_run ` set (sq_evals s)"
  shows "squad_inv M (spawn_eval t r ld (s\<lparr>sq_db := db\<rparr>))"
proof -
  let ?e = "\<lparr>ev_task = t, ev_run = r, ev_log_dir = ld, ev_token = False, ev_phase = Evaluating\<rparr>"
  have other: "tk_id (ev_task e) \<noteq> tk_id t" if "e \<in> set (sq_evals s)" "ev_phase e = Evaluating" for e
  proof
    assume "tk_id (ev_task e) = tk_id t"
    moreover have "backed (sq_db s) e" using inv that by (simp add: squad_inv_def)
    ultimately obtain y where "y \<in> set (db_runs (sq_db s))" "rn_task_id y = tk_id t" "rn_status y = Running"
      using was(1) by (auto simp: backed_def)
    then have "tk_id t \<in> set (running_ids (sq_db s))" using running_idsI by metis
    then show False using was(2) by blast
  qed
  have "reaches (spawn_eval t r ld (s\<lparr>sq_db := db\<rparr>)) e \<and> backed db e"
    if "e \<in> set (sq_evals s) \<union> {?e}" "ev_phase e = Evaluating" for e
  proof (cases "e = ?e")
    case True
    have "backed db ?e" using x unfolding backed_def by auto
    then show ?thesis using True by (simp add: reaches_def spawn_eval_def)
  next
    case False
    then have e: "e \<in> set (sq_evals s)" using that by simp
    then have "reaches s e" "backed (sq_db s) e" using inv that(2) by (simp_all add: squad_inv_def reaches_def)
    then show ?thesis using other [OF e that(2)] b by (simp add: reaches_def spawn_eval_def)
  qed
  moreover have "\<exists>e \<in> set (sq_evals s) \<union> {?e}. ev_run e = k \<and> tk_id (ev_task e) = i"
    if "((sq_cancellations s)(tk_id t \<mapsto> r)) i = Some k" for i k
    using that inv by (cases "i = tk_id t") (auto simp: squad_inv_def)
  moreover have "distinct (map tk_id rest)" "tk_id t \<notin> tk_id ` set rest"
    "tk_id ` set rest \<inter> set (running_ids (sq_db s)) = {}"
    using inv by (auto simp: squad_inv_def)
  ultimately show ?thesis
    using inv db s fresh unfolding squad_inv_def by (simp add: spawn_eval_def)
qed

lemma open_next_inv:
  assumes inv: "squad_inv M s" and fresh: "oi_run_id i \<notin> ev_run ` set (sq_evals s)"
  shows "squad_inv M (open_next i s)"
proof (cases "sq_due s")
  case (Cons t rest)
  let ?s = "s\<lparr>sq_due := rest\<rparr>"
  have i: "squad_inv M ?s" using inv by (simp add: squad_inv_def reaches_def Cons)
  obtain r db where st: "start_run_with_env (oi_run_id i) (tk_id t) None (oi_started_at i) (oi_unmet i) (sq_db s) = (r, db)"
    by (cases "start_run_with_env (oi_run_id i) (tk_id t) None (oi_started_at i) (oi_unmet i) (sq_db s)")
  show ?thesis
  proof (cases r)
    case (Inr r')
    note run = start_run_running [OF st [unfolded Inr]]
    have new: "tk_id t \<notin> set (running_ids (sq_db s))" using inv by (simp add: squad_inv_def Cons)
    have ok: "db_ok db"
      using start_run_ok [of "sq_db s" "tk_id t" "oi_run_id i"] st inv new
      by (metis has_running_iff snd_conv squad_inv_def)
    obtain x where x: "db_runs db = db_runs (sq_db s) @ [x]" "rn_id x = oi_run_id i" "rn_task_id x = tk_id t" "rn_status x = Running"
      using run by blast
    have b: "backed db e" if "backed (sq_db s) e" for e
    proof -
      have "tk_id ` set (db_tasks db) = tk_id ` set (db_tasks (sq_db s))" using run by (metis list.set_map)
      then show ?thesis using that x(1) by (auto simp: backed_def)
    qed
    have i2: "squad_inv M (?s\<lparr>sq_db := db\<rparr>)"
      using inv ok run b unfolding squad_inv_def reaches_def Cons by auto
    have "squad_inv M (fail_opened i e (?s\<lparr>sq_db := db\<rparr>))" for e
    proof (cases "oi_saved i")
      case True
      have "squad_inv M (?s\<lparr>sq_db := db, sq_db := snd (finish_run (oi_run_id i) st d f (sq_db (?s\<lparr>sq_db := db\<rparr>)))\<rparr>)" for st d f
        by (rule inv_finish [OF i2]) (use fresh in \<open>simp, metis image_eqI\<close>)
      then show ?thesis using True by (simp add: fail_opened_def)
    qed (simp add: fail_opened_def i2)
    moreover have "squad_inv M (spawn_eval t r' ld (?s\<lparr>sq_db := db\<rparr>))" for ld
      by (rule spawn_eval_inv [where x = x and rest = rest])
        (use inv ok run b new x fresh in \<open>auto simp: Cons squad_inv_def reaches_def\<close>)
    ultimately have "squad_inv M (opened i t r' (?s\<lparr>sq_db := db\<rparr>))"
      by (simp add: opened_def split: sum.split)
    then show ?thesis using i by (simp add: open_next_def Cons st Inr)
  qed (simp add: open_next_def Cons st i)
qed (simp add: open_next_def inv)

lemma task_delete_inv:
  assumes inv: "squad_inv M s"
  shows "squad_inv M (s\<lparr>sq_db := snd (task_delete n (sq_db s))\<rparr>)"
proof (rule inv_db [OF inv])
  show "db_ok (snd (task_delete n (sq_db s)))" by (rule task_delete_ok) (rule inv_counts [OF inv])
  show "set (running_ids (snd (task_delete n (sq_db s)))) \<subseteq> set (running_ids (sq_db s))"
    by (cases "task_get n (sq_db s)") (auto simp: task_delete_def Let_def running_ids_def)
  show "backed (sq_db s) e \<Longrightarrow> backed (snd (task_delete n (sq_db s))) e" for e
    by (cases "task_get n (sq_db s)") (auto simp: task_delete_def Let_def backed_def)
qed

lemma task_create_inv:
  assumes inv: "squad_inv M s" and "tk_id t \<notin> (\<lambda>e. tk_id (ev_task e)) ` set (sq_evals s)"
  shows "squad_inv M (s\<lparr>sq_db := snd (task_create t (sq_db s))\<rparr>)"
proof (rule inv_db [OF inv])
  show "db_ok (snd (task_create t (sq_db s)))" by (rule task_create_ok) (rule inv_counts [OF inv])
  have r: "db_runs (snd (task_create t (sq_db s))) = db_runs (sq_db s)" by (simp add: task_create_def)
  then show "set (running_ids (snd (task_create t (sq_db s)))) \<subseteq> set (running_ids (sq_db s))"
    by (simp add: running_ids_def)
  show "backed (snd (task_create t (sq_db s))) e" if "e \<in> set (sq_evals s)" "backed (sq_db s) e" for e
  proof -
    have "tk_id (ev_task e) \<noteq> tk_id t" using assms(2) that(1) by (auto simp: image_iff)
    then have "tk_id (ev_task e) \<in> tk_id ` set (db_tasks (snd (task_create t (sq_db s)))) \<Longrightarrow>
        tk_id (ev_task e) \<in> tk_id ` set (db_tasks (sq_db s))"
      by (auto simp: task_create_def split: if_split_asm)
    then show ?thesis using that(2) unfolding backed_def r by blast
  qed
qed

lemma task_update_inv:
  assumes inv: "squad_inv M s" shows "squad_inv M (s\<lparr>sq_db := snd (task_update now n req (sq_db s))\<rparr>)"
proof (cases "task_get n (sq_db s)")
  case (Some existing)
  let ?interval = "or_else (tu_interval_secs req) (tk_interval_secs existing)"
  show ?thesis
  proof (cases "i64_max < ?interval")
    case False
    show ?thesis
      unfolding task_update_def Some option.case Let_def if_not_P [OF False] snd_conv
      by (rule inv_named [OF inv]) simp_all
  qed (use inv in \<open>simp add: task_update_def Some\<close>)
qed (use inv in \<open>simp add: task_update_def\<close>)

lemma paths_inv:
  assumes inv: "squad_inv M s" shows "squad_inv M (s\<lparr>sq_db := set_workflow_state_path r w p (sq_db s)\<rparr>)"
proof (rule inv_db [OF inv])
  let ?f = "\<lambda>x. x\<lparr>rn_detail := (rn_detail x)\<lparr>rd_workflow_path := w, rd_workflow_state_path := p\<rparr>\<rparr>"
  show "db_ok (set_workflow_state_path r w p (sq_db s))"
    by (rule set_workflow_state_path_ok) (rule inv_counts [OF inv])
  show "set (running_ids (set_workflow_state_path r w p (sq_db s))) \<subseteq> set (running_ids (sq_db s))"
    unfolding set_workflow_state_path_def by (rule running_after_update) auto
  show "backed (set_workflow_state_path r w p (sq_db s)) e" if b: "backed (sq_db s) e" for e
  proof -
    let ?g = "\<lambda>x. if rn_id x = r then ?f x else x"
    have d: "set_workflow_state_path r w p (sq_db s) = (sq_db s)\<lparr>db_runs := map ?g (db_runs (sq_db s))\<rparr>"
      by (simp add: set_workflow_state_path_def update_runs_def)
    have g: "rn_id (?g x) = rn_id x" "rn_task_id (?g x) = rn_task_id x" "rn_status (?g x) = rn_status x" for x
      by simp_all
    show ?thesis
      unfolding backed_def d
    proof (intro impI)
      assume "tk_id (ev_task e) \<in> tk_id ` set (db_tasks ((sq_db s)\<lparr>db_runs := map ?g (db_runs (sq_db s))\<rparr>))"
      then obtain x where x: "x \<in> set (db_runs (sq_db s))" "rn_id x = ev_run e" "rn_task_id x = tk_id (ev_task e)" "rn_status x = Running"
        using b by (auto simp: backed_def)
      then have "?g x \<in> set (map ?g (db_runs (sq_db s)))" by simp
      then show "\<exists>y \<in> set (db_runs ((sq_db s)\<lparr>db_runs := map ?g (db_runs (sq_db s))\<rparr>)).
          rn_id y = ev_run e \<and> rn_task_id y = tk_id (ev_task e) \<and> rn_status y = Running"
        by (intro bexI [of _ "?g x"]) (use x in simp_all)
    qed
  qed
qed

lemma restart_inv: "squad_inv M s \<Longrightarrow> squad_inv M (restart now s)"
  using reconcile_ok [of "sq_db s" now] by (simp add: restart_def squad_inv_def squad_new_def)

lemma squad_new_inv: "db_ok db \<Longrightarrow> squad_inv M (squad_new db)"
  by (simp add: squad_inv_def squad_new_def)

lemma squad_step_inv: "squad_step elapsed exited M s s' \<Longrightarrow> squad_inv M s \<Longrightarrow> squad_inv M s'"
proof (induction rule: squad_step.induct)
  case (step_status s now n status)
  then show ?case
    using inv_named [of M s "\<lambda>t. t\<lparr>tk_status := status, tk_updated_at := now\<rparr>" n] by (simp add: task_set_status_def snd_counted)
next
  case (step_trigger n s t now)
  then show ?case
    using inv_named [of M s "\<lambda>t. t\<lparr>tk_trigger_requested_at := Some now, tk_backoff_until := None, tk_updated_at := now\<rparr>" n]
    by (simp add: request_trigger_def snd_counted)
qed (simp_all add: tick_inv open_next_inv record_outcome_inv finish_canceled_inv adjust_backoff_inv
      close_eval_inv cancel_run_inv task_create_inv task_update_inv task_delete_inv paths_inv restart_inv)

lemma squad_steps_inv:
  "squad_steps elapsed exited M s s' \<Longrightarrow> squad_inv M s \<Longrightarrow> squad_inv M s'"
  by (induction rule: rtranclp_induct) (auto intro: squad_step_inv)

subsection \<open>Correctness\<close>

text \<open>
  Property C34. However ticks, evaluations, panics, restarts and the requests of users interleave: no task has
  two runs at once, the number in flight is the number of live evaluations and within the limit, and
  cancelling a task that is being evaluated signals that evaluation.
\<close>

theorem squad_runs_safely:
  assumes "db_ok db" and "squad_steps elapsed exited M (squad_new db) s"
  shows "distinct (running_ids (sq_db s)) \<and>
    sq_in_flight s = length (sq_evals s) \<and> sq_in_flight s \<le> M \<and>
    list_all (\<lambda>e. ev_phase e = Evaluating \<longrightarrow> fst (cancel_run (tk_id (ev_task e)) s) = Some (ev_run e)) (sq_evals s)"
proof -
  have inv: "squad_inv M s" by (rule squad_steps_inv [OF assms(2) squad_new_inv [OF assms(1)]])
  have "distinct (running_ids (sq_db s))" using inv_counts(1) [OF inv] by (simp add: db_ok_def)
  moreover have "sq_in_flight s \<le> M" using inv_counts(2,3) [OF inv] by linarith
  moreover have "fst (cancel_run (tk_id (ev_task e)) s) = Some (ev_run e)"
    if "e \<in> set (sq_evals s)" "ev_phase e = Evaluating" for e
    using inv_evaluating [OF inv that] by (simp add: reaches_def cancel_run_def)
  ultimately show ?thesis using inv_counts(2) [OF inv] by (simp add: list_all_iff)
qed

definition example_task :: "string \<Rightarrow> string \<Rightarrow> task" where
  "example_task i n = \<lparr>tk_prerequisites = None, tk_id = i, tk_name = n, tk_description = [], tk_repo_scope = ''/r'',
     tk_mount_scope = PlainDirectory, tk_overlays = [], tk_interval_secs = 300, tk_status = Active,
     tk_agent = None, tk_model = None, tk_backoff_until = None, tk_created_at = 1, tk_updated_at = 1,
     tk_last_run_at = None, tk_trigger_requested_at = None\<rparr>"

definition example_opening :: "string \<Rightarrow> open_inputs" where
  "example_opening r = \<lparr>oi_task_dir_ok = True, oi_unmet = [], oi_run_id = r, oi_started_at = 5, oi_log_dir = Inr ''/l'',
     oi_task_config = Inr (), oi_finished_at = 6, oi_saved = True\<rparr>"

definition example_squad :: squad where
  "example_squad = open_next (example_opening ''r1'')
     (tick (\<lambda>a b c. True) 5 (Inr (Some 1)) True
       (squad_new \<lparr>db_tasks = [example_task ''1'' ''a'', example_task ''2'' ''b''], db_runs = []\<rparr>))"

theorem squad_runs_safely_witness:
  "sq_in_flight example_squad = 1 \<and> sq_in_flight example_squad \<le> 1 \<and> running_ids (sq_db example_squad) = [''1''] \<and>
   distinct (running_ids (sq_db example_squad))"
proof -
  let ?db = "\<lparr>db_tasks = [example_task ''1'' ''a'', example_task ''2'' ''b''], db_runs = []\<rparr>"
  let ?t = "tick (\<lambda>a b c. True) 5 (Inr (Some 1)) True (squad_new ?db)"
  have "squad_step (\<lambda>a b c. True) (\<lambda>c d. []) 1 (squad_new ?db) ?t"
    by (rule step_tick) (simp_all add: squad_new_def)
  moreover have "squad_step (\<lambda>a b c. True) (\<lambda>c d. []) 1 ?t example_squad"
    unfolding example_squad_def by (rule step_open) (simp add: tick_def squad_new_def Let_def)
  ultimately have steps: "squad_steps (\<lambda>a b c. True) (\<lambda>c d. []) 1 (squad_new ?db) example_squad"
    by (rule converse_rtranclp_into_rtranclp [OF _ r_into_rtranclp])
  have ok: "db_ok ?db" by (simp add: db_ok_def example_task_def running_ids_def)
  have "sq_in_flight example_squad = 1" "running_ids (sq_db example_squad) = [''1'']" by code_simp+
  with squad_runs_safely [OF ok steps] show ?thesis by simp
qed

text \<open>
  Property C35. The backoff is what it says, for every interval and every number of failures a machine word
  can hold: the interval doubled once per failure, and six hours at most. Nothing overflows.
\<close>

theorem backoff_exact:
  "unat (backoff_secs interval_secs attempt) = min (unat interval_secs * 2 ^ unat attempt) (6 * 60 * 60)"
proof (cases "(2 :: nat) ^ unat attempt < 2 ^ 64")
  case True
  have "(2 :: 64 word) ^ unat attempt = of_nat (2 ^ unat attempt)" by simp
  then have p: "u64_checked_pow2 attempt = Some (2 ^ unat attempt)" "unat ((2 :: 64 word) ^ unat attempt) = 2 ^ unat attempt"
    using True by (simp_all only: u64_checked_pow2_def unat_of_nat take_bit_nat_def len_of_numeral_defs if_True) simp_all
  show ?thesis
  proof (cases "unat interval_secs * 2 ^ unat attempt < (2 :: nat) ^ 64")
    case True
    then have "unat (interval_secs * 2 ^ unat attempt) = unat interval_secs * 2 ^ unat attempt"
      using p(2) by (simp add: unat_mult_lem [THEN iffD1])
    then show ?thesis using True p
      by (simp add: backoff_secs_def u64_saturating_mul_def max_backoff_secs_def min_def word_le_nat_alt)
  next
    case False
    then show ?thesis using p
      by (simp add: backoff_secs_def u64_saturating_mul_def max_backoff_secs_def min_def word_le_nat_alt Let_def unsigned_minus_1_eq_mask mask_eq_exp_minus_1)
  qed
next
  case False
  then have f: "u64_checked_pow2 attempt = None" by (simp add: u64_checked_pow2_def)
  show ?thesis
  proof (cases "interval_secs = 0")
    case True
    then show ?thesis by (simp add: backoff_secs_def u64_saturating_mul_def f)
  next
    case pos: False
    have one: "1 \<le> unat interval_secs" using pos by (simp add: Suc_le_eq unat_gt_0)
    have m: "unat (- 1 :: 64 word) = 2 ^ 64 - 1" by (simp add: unsigned_minus_1_eq_mask mask_eq_exp_minus_1)
    have "u64_saturating_mul interval_secs (- 1) = - 1"
    proof (cases "unat interval_secs * unat (- 1 :: 64 word) < 2 ^ 64")
      case True
      then have "unat interval_secs < 2" using one m by (cases "unat interval_secs \<ge> 2") auto
      then have "interval_secs = 1" using one by (metis One_nat_def Suc_1 le_antisym less_Suc_eq_le unat_1 word_unat_eq_iff)
      then show ?thesis by (simp add: u64_saturating_mul_def)
    qed (simp add: u64_saturating_mul_def)
    then have "unat (backoff_secs interval_secs attempt) = 6 * 60 * 60"
      by (simp add: backoff_secs_def f max_backoff_secs_def min_def word_le_nat_alt Let_def
          unsigned_minus_1_eq_mask mask_eq_exp_minus_1)
    moreover have "6 * 60 * 60 \<le> unat interval_secs * 2 ^ unat attempt"
    proof -
      have "(6 * 60 * 60 :: nat) \<le> 1 * 2 ^ 64" by simp
      also have "\<dots> \<le> unat interval_secs * 2 ^ unat attempt"
        using one False by (intro mult_le_mono) simp_all
      finally show ?thesis .
    qed
    ultimately show ?thesis by simp
  qed
qed

text \<open>A container name is read back, whatever hyphens and digits its task's name holds.\<close>

lemma parse_generated:
  assumes "slug \<noteq> []" and "length u = unique_hex_len" and "list_all is_lower_hex u"
  shows "parse_squad_task_slug (generate_squad_container_name u slug) = Some slug"
proof -
  have "strip_prefix (generate_squad_container_name u slug) squad_name_prefix = Some (slug @ ''-'' @ u)"
    by (simp add: strip_prefix_Some generate_squad_container_name_def)
  then show ?thesis using assms by (simp add: parse_squad_task_slug_def Let_def)
qed

text \<open>
  Stopping a canceled run stops the containers of its task, all of them and no others, even
  where the name of one task starts with the name of another.
\<close>

theorem canceled_run_stops_its_containers:
  assumes "list_all (\<lambda>(u, slug). slug \<noteq> [] \<and> length u = unique_hex_len \<and> list_all is_lower_hex u) cs"
  shows "containers_to_stop task_name (map (\<lambda>(u, slug). generate_squad_container_name u slug) cs)
    = map (\<lambda>(u, slug). generate_squad_container_name u slug) (filter (\<lambda>(u, slug). slug = task_name) cs)"
  using assms
proof (induction cs)
  case (Cons c cs)
  obtain u slug where c: "c = (u, slug)" by (cases c)
  then have p: "parse_squad_task_slug (generate_squad_container_name u slug) = Some slug"
    using Cons.prems parse_generated by simp
  have "starts_with (generate_squad_container_name u task_name) (squad_name_prefix @ task_name @ ''-'')"
    by (simp add: generate_squad_container_name_def starts_with_iff)
  then show ?case using Cons p by (auto simp: containers_to_stop_def c)
qed (simp add: containers_to_stop_def)

theorem canceled_run_stops_its_containers_witness:
  "containers_to_stop ''deploy''
     [generate_squad_container_name ''0123abcd'' ''deploy'', generate_squad_container_name ''9876fedc'' ''deploy-0123abcd'']
   = [''awman-squad-deploy-0123abcd'']"
proof -
  have "list_all (\<lambda>(u, slug). slug \<noteq> [] \<and> length u = unique_hex_len \<and> list_all is_lower_hex u)
    [(''0123abcd'', ''deploy''), (''9876fedc'', ''deploy-0123abcd'')]"
    by code_simp
  from canceled_run_stops_its_containers [OF this, of "''deploy''"] show ?thesis
    by (simp add: generate_squad_container_name_def squad_name_prefix_def)
qed

text \<open>What an evaluation that panics leaves: its run goes on running, and its task is not due again.\<close>

lemma panicked_task_not_due:
  assumes inv: "squad_inv M s" and e: "e \<in> set (sq_evals s)" "ev_phase e = Evaluating"
    and t: "t \<in> set (db_tasks (sq_db s))" "tk_id t = tk_id (ev_task e)"
  shows "\<not> is_due elapsed now (sq_db (close_eval e s)) t"
proof -
  have "backed (sq_db s) e" using inv_evaluating [OF inv e] by simp
  then have "has_running (tk_id t) (sq_db s)"
    using t running_idsI unfolding backed_def has_running_iff by (metis image_eqI)
  then show ?thesis by (simp add: running_not_due close_eval_def)
qed

end
