(* ===== verification/Step_Commands.thy ===== *)
theory Step_Commands
  imports Workflow_State Prompt_Template
begin

text \<open>
  \<open>src/engine/workflow/step_commands.rs\<close>: the shell commands that setup and teardown steps run as. A step
  that polls CI has no command: asking for one is a panic, \<open>None\<close> here. Environments are hash maps.
\<close>

subsection \<open>Quoting\<close>

definition bsl :: char where
  "bsl = CHR 0x5C"

definition sh_quote :: "string \<Rightarrow> string" where
  "sh_quote s = [sq] @ concat (map (\<lambda>c. if c = sq then [sq, bsl, sq, sq] else [c]) s) @ [sq]"

subsection \<open>Transport\<close>

datatype push_auth = NoAuth | SshAuth string "string option" | HttpsToken string

record step_command_options =
  so_push_auth :: push_auth
  so_remote_url :: "string option"

definition default_options :: step_command_options where
  "default_options = \<lparr>so_push_auth = NoAuth, so_remote_url = None\<rparr>"

definition host_and_path :: "string \<Rightarrow> string \<times> string" where
  "host_and_path destination =
     (let rest = (case strip_prefix destination ''https://'' of None \<Rightarrow> [] | Some r \<Rightarrow> r)
      in case split_once (CHR ''/'') rest of None \<Rightarrow> ([], []) | Some hp \<Rightarrow> hp)"

text \<open>The helper is written with escaped double quotes, which are then replaced by plain ones.\<close>

definition esc_dq :: string where
  "esc_dq = [bsl, CHR 0x22]"

definition credential_helper :: "string \<Rightarrow> string \<Rightarrow> string" where
  "credential_helper env_var destination =
     (case host_and_path destination of
        (host, path) \<Rightarrow>
          replace_token esc_dq [CHR 0x22]
            (''credential.helper=!f() { protocol=; host=; path=; while IFS='=' read -r k v; do case ''
             @ esc_dq @ ''$k'' @ esc_dq
             @ '' in protocol) protocol=$v;; host) host=$v;; path) path=$v;; esac; done; if [ ''
             @ esc_dq @ ''$1'' @ esc_dq @ '' = get ] && [ '' @ esc_dq @ ''$protocol'' @ esc_dq
             @ '' = https ] && [ '' @ esc_dq @ ''$host'' @ esc_dq @ '' = '' @ sh_quote host @ '' ] && [ ''
             @ esc_dq @ ''$path'' @ esc_dq @ '' = '' @ sh_quote path @ '' ]; then printf '%s'' @ [bsl]
             @ ''n' 'username=x-access-token' '' @ esc_dq @ ''password=$'' @ env_var @ esc_dq
             @ ''; fi; }; f''))"

definition transport_git :: "step_command_options \<Rightarrow> string" where
  "transport_git opts =
     (if so_push_auth opts = NoAuth \<and> so_remote_url opts = None then ''git''
      else ''git -c core.hooksPath=/dev/null -c core.fsmonitor=false -c maintenance.auto=false -c gc.auto=0 ''
        @ ''-c push.gpgSign=false -c push.recurseSubmodules=no -c credential.helper=''
        @ (case so_push_auth opts of
             HttpsToken env_var \<Rightarrow>
               '' -c credential.useHttpPath=true -c ''
               @ sh_quote (credential_helper env_var
                   (case so_remote_url opts of None \<Rightarrow> [] | Some r \<Rightarrow> r))
           | _ \<Rightarrow> []))"

definition git_ssh_command :: "step_command_options \<Rightarrow> string" where
  "git_ssh_command opts =
     (case so_push_auth opts of
        SshAuth key_path known_hosts \<Rightarrow>
          ''ssh -F /dev/null -i '' @ sh_quote key_path
          @ '' -o IdentitiesOnly=yes -o BatchMode=yes -o StrictHostKeyChecking=accept-new''
          @ (case known_hosts of None \<Rightarrow> [] | Some path \<Rightarrow> '' -o UserKnownHostsFile='' @ sh_quote path)
      | _ \<Rightarrow> ''ssh -F /dev/null -o BatchMode=yes -o StrictHostKeyChecking=accept-new'')"

definition transport_env :: "step_command_options \<Rightarrow> (string, string) hmap option" where
  "transport_env opts =
     (if so_push_auth opts = NoAuth \<and> so_remote_url opts = None
      then Some [(''GIT_SSH_COMMAND'', ''ssh -o StrictHostKeyChecking=accept-new'')]
      else Some (hm_insert ''GIT_SSH_COMMAND'' (git_ssh_command opts) [(''GIT_TERMINAL_PROMPT'', ''0'')]))"

subsection \<open>Setup steps\<close>

text \<open>\<open>rsplit\<close> at a slash or a colon: the text after the last one.\<close>

definition humanish_name :: "string \<Rightarrow> string" where
  "humanish_name trimmed =
     (let name = rev (takeWhile (\<lambda>c. c \<noteq> CHR ''/'' \<and> c \<noteq> CHR '':'') (rev trimmed))
      in case strip_suffix name ''.git'' of None \<Rightarrow> name | Some n \<Rightarrow> n)"

definition clone_target_dir :: "string \<Rightarrow> string option \<Rightarrow> string" where
  "clone_target_dir url into =
     (case into of Some d \<Rightarrow> d | None \<Rightarrow> humanish_name (trim_end_matches (CHR ''/'') url))"

definition clone_words :: "string \<Rightarrow> string option \<Rightarrow> string option \<Rightarrow> step_command_options \<Rightarrow> string" where
  "clone_words url branch into opts =
     transport_git opts @ '' clone''
     @ (case branch of None \<Rightarrow> [] | Some b \<Rightarrow> '' -b '' @ sh_quote b)
     @ '' '' @ (if so_remote_url opts \<noteq> None then ''-- '' else [])
     @ sh_quote (case so_remote_url opts of None \<Rightarrow> url | Some r \<Rightarrow> r)
     @ (case into of None \<Rightarrow> [] | Some d \<Rightarrow> '' '' @ sh_quote d)"

definition already_cloned :: "string \<Rightarrow> string \<Rightarrow> string" where
  "already_cloned dir url =
     ''[ -f '' @ sh_quote (dir @ ''/.git/config'') @ '' ] && [ \"$(git -C '' @ sh_quote dir
     @ '' config --get remote.origin.url)\" = '' @ sh_quote url @ '' ]''"

definition clone_command ::
  "string \<Rightarrow> string option \<Rightarrow> string option \<Rightarrow> clone_conflict_mode \<Rightarrow> step_command_options \<Rightarrow> string" where
  "clone_command url branch into mode opts =
     (let clone = clone_words url branch into opts;
          dir = clone_target_dir url into;
          test = already_cloned dir url;
          found = ''clone_repo: '' @ dir @ '' already cloned from '' @ url
      in case mode of
           CloneSkip \<Rightarrow> ''if '' @ test @ ''; then echo '' @ sh_quote (found @ ''; skipping'')
             @ ''; else '' @ clone @ ''; fi''
         | CloneReplace \<Rightarrow> ''if '' @ test @ ''; then echo '' @ sh_quote (found @ ''; replacing'')
             @ ''; rm -rf '' @ sh_quote dir @ ''; fi; '' @ clone
         | CloneError \<Rightarrow> ''if '' @ test @ ''; then echo '' @ sh_quote (found @ '' (conflict_mode = error)'')
             @ '' >&2; exit 1; else '' @ clone @ ''; fi'')"

definition pull_command :: "string option \<Rightarrow> string option \<Rightarrow> step_command_options \<Rightarrow> string" where
  "pull_command remote branch opts =
     (let destination = (case so_remote_url opts of Some r \<Rightarrow> Some r | None \<Rightarrow> remote) in
      case destination of
        Some r \<Rightarrow> transport_git opts @ '' pull -- '' @ sh_quote r
          @ (case branch of None \<Rightarrow> [] | Some b \<Rightarrow> '' '' @ sh_quote b)
      | None \<Rightarrow> transport_git opts @ '' pull'')"

type_synonym shell_command = "string \<times> (string, string) hmap option"

fun setup_step_to_shell_with :: "setup_step \<Rightarrow> step_command_options \<Rightarrow> shell_command option" where
  "setup_step_to_shell_with (CloneRepo url branch into mode) opts =
     Some (clone_command url branch into mode opts,
           if opts = default_options then None else transport_env opts)"
| "setup_step_to_shell_with (CheckoutCreateBranch branch base) opts =
     Some (''git fetch origin 2>/dev/null; git checkout '' @ sh_quote branch
             @ '' 2>/dev/null || git checkout -b '' @ sh_quote branch
             @ (case base of None \<Rightarrow> [] | Some b \<Rightarrow> '' '' @ sh_quote b), None)"
| "setup_step_to_shell_with (PullBranch remote branch) opts =
     (if opts = default_options
      then Some (case (remote, branch) of
               (Some r, Some b) \<Rightarrow> ''git pull '' @ sh_quote r @ '' '' @ sh_quote b
             | _ \<Rightarrow> ''git pull'', None)
      else Some (pull_command remote branch opts, transport_env opts))"
| "setup_step_to_shell_with (SetupRunShell command env) opts = Some (command, env)"
| "setup_step_to_shell_with (SetupRunScript path env) opts = Some (''sh '' @ sh_quote path, env)"
| "setup_step_to_shell_with (SetupPollCi _ _) opts = None"

subsection \<open>Teardown steps\<close>

definition commit_command :: "string \<Rightarrow> bool \<Rightarrow> string" where
  "commit_command message add_all =
     (let commit = ''if git diff --cached --quiet; then echo 'commit_changes: nothing to commit'; ''
            @ ''else git commit -m '' @ sh_quote message @ ''; fi''
      in if add_all then ''git add -A -- . && '' @ commit else commit)"

definition create_pr_command ::
  "string option \<Rightarrow> string option \<Rightarrow> string option \<Rightarrow> step_command_options \<Rightarrow> string" where
  "create_pr_command title body base opts =
     ''gh pr create --title '' @ sh_quote (case title of None \<Rightarrow> ''Automated PR'' | Some t \<Rightarrow> t)
     @ '' --body '' @ sh_quote (case body of None \<Rightarrow> [] | Some b \<Rightarrow> b)
     @ (if so_remote_url opts \<noteq> None then '' --head \"$(git symbolic-ref --short HEAD)\"'' else [])
     @ (case base of None \<Rightarrow> [] | Some b \<Rightarrow> '' --base '' @ sh_quote b)"

definition not_a_branch :: "string \<Rightarrow> bool" where
  "not_a_branch b \<longleftrightarrow> (b \<noteq> [] \<and> (hd b = CHR ''-'' \<or> hd b = CHR ''+'')) \<or> CHR '':'' \<in> set b"

definition push_refused :: string where
  "push_refused = ''printf '%s'' @ [bsl]
     @ ''n' 'push_branch requires a branch name, not options or a refspec' >&2; exit 2''"

definition push_command :: "string option \<Rightarrow> string option \<Rightarrow> step_command_options \<Rightarrow> shell_command" where
  "push_command remote branch opts =
     (let r = (case so_remote_url opts of
                 Some r \<Rightarrow> r | None \<Rightarrow> (case remote of Some r \<Rightarrow> r | None \<Rightarrow> ''origin''));
          b = (case branch of Some b \<Rightarrow> b | None \<Rightarrow> ''HEAD'')
      in if not_a_branch b then (push_refused, None)
         else (transport_git opts @ '' push -u -- '' @ sh_quote r @ '' '' @ sh_quote b, transport_env opts))"

fun teardown_step_to_shell_with :: "teardown_step \<Rightarrow> step_command_options \<Rightarrow> shell_command option" where
  "teardown_step_to_shell_with (TeardownRunShell command env) opts = Some (command, env)"
| "teardown_step_to_shell_with (TeardownRunScript path) opts = Some (''sh '' @ sh_quote path, None)"
| "teardown_step_to_shell_with (CommitChanges message add_all) opts = Some (commit_command message add_all, None)"
| "teardown_step_to_shell_with (CreatePullRequest title body base) opts =
     Some (create_pr_command title body base opts, None)"
| "teardown_step_to_shell_with (PushBranch remote branch) opts = Some (push_command remote branch opts)"
| "teardown_step_to_shell_with (TeardownPollCi _ _) opts = None"

subsection \<open>Descriptions and defaults\<close>

definition default_poll_ci_interval_secs :: nat where
  "default_poll_ci_interval_secs = 30"

definition default_poll_ci_max_retries :: nat where
  "default_poll_ci_max_retries = 10"

definition poll_ci_description :: "nat option \<Rightarrow> nat option \<Rightarrow> string" where
  "poll_ci_description interval retries =
     ''poll_ci: interval='' @ dec_string (case interval of None \<Rightarrow> 30 | Some i \<Rightarrow> i)
     @ ''s, retries='' @ dec_string (case retries of None \<Rightarrow> 10 | Some r \<Rightarrow> r)"

fun setup_step_description :: "setup_step \<Rightarrow> string" where
  "setup_step_description (CloneRepo url _ _ _) = ''clone_repo: '' @ url"
| "setup_step_description (CheckoutCreateBranch branch _) = ''checkout_create_branch: '' @ branch"
| "setup_step_description (PullBranch remote branch) =
     (case (remote, branch) of
        (Some r, Some b) \<Rightarrow> ''pull_branch: '' @ r @ '' '' @ b | _ \<Rightarrow> ''pull_branch'')"
| "setup_step_description (SetupRunShell command _) = ''run_shell: '' @ command"
| "setup_step_description (SetupRunScript path _) = ''run_script: '' @ path"
| "setup_step_description (SetupPollCi interval retries) = poll_ci_description interval retries"

fun teardown_step_description :: "teardown_step \<Rightarrow> string" where
  "teardown_step_description (TeardownRunShell command _) = ''run_shell: '' @ command"
| "teardown_step_description (TeardownRunScript path) = ''run_script: '' @ path"
| "teardown_step_description (CommitChanges message _) = ''commit_changes: '' @ message"
| "teardown_step_description (CreatePullRequest title _ _) =
     (case title of Some t \<Rightarrow> ''create_pull_request: '' @ t | None \<Rightarrow> ''create_pull_request'')"
| "teardown_step_description (PushBranch remote branch) =
     (case (remote, branch) of
        (Some r, Some b) \<Rightarrow> ''push_branch: '' @ r @ '' '' @ b | _ \<Rightarrow> ''push_branch'')"
| "teardown_step_description (TeardownPollCi interval retries) = poll_ci_description interval retries"

subsection \<open>Substitution\<close>

text \<open>Rendering a field takes fuel, as the rendering of a prompt does: \<open>None\<close> when it has not ended.\<close>

definition sub :: "nat \<Rightarrow> work_item_context option \<Rightarrow> string \<Rightarrow> string option" where
  "sub fuel ctx s = map_option sub_rendered (substitute_prompt fuel s ctx)"

definition sub_opt :: "nat \<Rightarrow> work_item_context option \<Rightarrow> string option \<Rightarrow> string option option" where
  "sub_opt fuel ctx s = (case s of None \<Rightarrow> Some None | Some v \<Rightarrow> map_option Some (sub fuel ctx v))"

fun substitute_setup_step :: "nat \<Rightarrow> work_item_context option \<Rightarrow> setup_step \<Rightarrow> setup_step option" where
  "substitute_setup_step fuel ctx (CloneRepo url branch into mode) =
     Option.bind (sub fuel ctx url) (\<lambda>u. Option.bind (sub_opt fuel ctx branch) (\<lambda>b.
       map_option (\<lambda>i. CloneRepo u b i mode) (sub_opt fuel ctx into)))"
| "substitute_setup_step fuel ctx (CheckoutCreateBranch branch base) =
     Option.bind (sub fuel ctx branch) (\<lambda>b. map_option (CheckoutCreateBranch b) (sub_opt fuel ctx base))"
| "substitute_setup_step fuel ctx (PullBranch remote branch) =
     Option.bind (sub_opt fuel ctx remote) (\<lambda>r. map_option (PullBranch r) (sub_opt fuel ctx branch))"
| "substitute_setup_step fuel ctx (SetupRunShell command env) =
     map_option (\<lambda>c. SetupRunShell c env) (sub fuel ctx command)"
| "substitute_setup_step fuel ctx (SetupRunScript path env) =
     map_option (\<lambda>p. SetupRunScript p env) (sub fuel ctx path)"
| "substitute_setup_step fuel ctx (SetupPollCi i r) = Some (SetupPollCi i r)"

definition resolved_title :: "nat \<Rightarrow> work_item_context option \<Rightarrow> string option \<Rightarrow> string option option" where
  "resolved_title fuel ctx title =
     (case title of
        Some t \<Rightarrow> map_option Some (sub fuel ctx t)
      | None \<Rightarrow> Some (map_option (\<lambda>wi. ''Implement awman/work-item-'' @ dec4 (wi_number wi)) ctx))"

definition resolved_body :: "nat \<Rightarrow> work_item_context option \<Rightarrow> string option \<Rightarrow> string option option" where
  "resolved_body fuel ctx body =
     (case body of
        Some b \<Rightarrow> map_option Some (sub fuel ctx b)
      | None \<Rightarrow> Some (Option.bind ctx (\<lambda>wi. extract_section (wi_content wi) ''Summary'')))"

fun substitute_teardown_step ::
  "nat \<Rightarrow> work_item_context option \<Rightarrow> teardown_step \<Rightarrow> teardown_step option" where
  "substitute_teardown_step fuel ctx (TeardownRunShell command env) =
     map_option (\<lambda>c. TeardownRunShell c env) (sub fuel ctx command)"
| "substitute_teardown_step fuel ctx (TeardownRunScript path) =
     map_option TeardownRunScript (sub fuel ctx path)"
| "substitute_teardown_step fuel ctx (CommitChanges message add_all) =
     map_option (\<lambda>m. CommitChanges m add_all) (sub fuel ctx message)"
| "substitute_teardown_step fuel ctx (CreatePullRequest title body base) =
     Option.bind (resolved_title fuel ctx title) (\<lambda>t. Option.bind (resolved_body fuel ctx body) (\<lambda>b.
       map_option (CreatePullRequest t b) (sub_opt fuel ctx base)))"
| "substitute_teardown_step fuel ctx (PushBranch remote branch) =
     Option.bind (sub_opt fuel ctx remote) (\<lambda>r. map_option (PushBranch r) (sub_opt fuel ctx branch))"
| "substitute_teardown_step fuel ctx (TeardownPollCi i r) = Some (TeardownPollCi i r)"

subsection \<open>Publishing a fix for CI\<close>

definition ci_fix_message_max_jobs :: nat where
  "ci_fix_message_max_jobs = 5"

definition ci_fix_commit_message :: "string \<Rightarrow> string list \<Rightarrow> string" where
  "ci_fix_commit_message message failed_jobs =
     (if failed_jobs = [] then message @ '': fix CI''
      else (let names = join_str '', '' (take ci_fix_message_max_jobs failed_jobs)
                  @ (if ci_fix_message_max_jobs < length failed_jobs
                     then '' and '' @ dec_string (length failed_jobs - ci_fix_message_max_jobs) @ '' more''
                     else []);
                noun = (if length failed_jobs = 1 then ''job'' else ''jobs'')
            in message @ '': fix CI '' @ noun @ '' '' @ names))"

subsection \<open>What the phase runner asks of a step\<close>

text \<open>The trait \<open>PhaseStepSpec\<close>: setup and teardown steps keep their types and share the runner.\<close>

datatype phase_step = Setup setup_step | Teardown teardown_step

fun step_kind :: "phase_step \<Rightarrow> phase_kind" where
  "step_kind (Setup _) = SetupKind"
| "step_kind (Teardown _) = TeardownKind"

fun substitute_step :: "nat \<Rightarrow> work_item_context option \<Rightarrow> phase_step \<Rightarrow> phase_step option" where
  "substitute_step fuel ctx (Setup s) = map_option Setup (substitute_setup_step fuel ctx s)"
| "substitute_step fuel ctx (Teardown s) = map_option Teardown (substitute_teardown_step fuel ctx s)"

fun step_description :: "phase_step \<Rightarrow> string" where
  "step_description (Setup s) = setup_step_description s"
| "step_description (Teardown s) = teardown_step_description s"

fun step_to_shell_with :: "phase_step \<Rightarrow> step_command_options \<Rightarrow> shell_command option" where
  "step_to_shell_with (Setup s) opts = setup_step_to_shell_with s opts"
| "step_to_shell_with (Teardown s) opts = teardown_step_to_shell_with s opts"

definition poll_numbers :: "nat option \<Rightarrow> nat option \<Rightarrow> nat \<times> nat" where
  "poll_numbers interval retries =
     ((case interval of None \<Rightarrow> default_poll_ci_interval_secs | Some i \<Rightarrow> i),
      (case retries of None \<Rightarrow> default_poll_ci_max_retries | Some r \<Rightarrow> r))"

fun step_poll_ci :: "phase_step \<Rightarrow> (nat \<times> nat) option" where
  "step_poll_ci (Setup (SetupPollCi i r)) = Some (poll_numbers i r)"
| "step_poll_ci (Teardown (TeardownPollCi i r)) = Some (poll_numbers i r)"
| "step_poll_ci _ = None"

fun teardown_step_runs_when_cancelled :: "teardown_step \<Rightarrow> bool" where
  "teardown_step_runs_when_cancelled (PushBranch _ _) = False"
| "teardown_step_runs_when_cancelled (CreatePullRequest _ _ _) = False"
| "teardown_step_runs_when_cancelled (TeardownPollCi _ _) = False"
| "teardown_step_runs_when_cancelled _ = True"

fun step_publishes :: "phase_step \<Rightarrow> bool" where
  "step_publishes (Setup _) = False"
| "step_publishes (Teardown s) = (\<not> teardown_step_runs_when_cancelled s)"

fun step_republishes_ci_fix :: "phase_step \<Rightarrow> bool" where
  "step_republishes_ci_fix (Teardown (CommitChanges _ _)) = True"
| "step_republishes_ci_fix (Teardown (PushBranch _ _)) = True"
| "step_republishes_ci_fix _ = False"

fun step_creates_pull_request :: "phase_step \<Rightarrow> bool" where
  "step_creates_pull_request (Teardown (CreatePullRequest _ _ _)) = True"
| "step_creates_pull_request _ = False"

fun step_for_ci_fix :: "string list \<Rightarrow> phase_step \<Rightarrow> phase_step option" where
  "step_for_ci_fix failed_jobs (Teardown (CommitChanges message add_all)) =
     Some (Teardown (CommitChanges (ci_fix_commit_message message failed_jobs) add_all))"
| "step_for_ci_fix failed_jobs _ = None"

end
