(* ===== verification/Shell_Reading.thy ===== *)
theory Shell_Reading
  imports Step_Commands
begin

text \<open>
  How a shell reads the commands of \<open>Step_Commands\<close>: the quoting rules of the POSIX shell language, for the
  constructs these commands use (a command with a backquote is not read). Reading splits a text into what
  the shell interprets and what it takes as it is; a field of a workflow file must never be interpreted.
\<close>

subsection \<open>The reader\<close>

datatype sh_context = Substitution | Double_Quotes

text \<open>\<open>Joined\<close>: right behind a quoted piece, which a further piece would continue.\<close>

datatype sh_mode = Plain | Joined | Single | Escaped | Dollar | Unread

datatype sh_token = Syn char | Quoted | Lit char

type_synonym sh_state = "sh_mode \<times> sh_context list"

fun in_dq :: "sh_context list \<Rightarrow> bool" where
  "in_dq (Double_Quotes # _) = True"
| "in_dq _ = False"

definition plain_char :: "sh_context list \<Rightarrow> char \<Rightarrow> sh_token list \<times> sh_state" where
  "plain_char stk c =
     (if c = CHR 0x60 then ([], (Unread, stk))
      else if c = bsl then ([Quoted], (Escaped, stk))
      else if c = CHR ''$'' then ([Syn c], (Dollar, stk))
      else if c = CHR 0x22 then ([Syn c], (Plain, if in_dq stk then tl stk else Double_Quotes # stk))
      else if in_dq stk then ([Syn c], (Plain, stk))
      else if c = sq then ([Quoted], (Single, stk))
      else if c = CHR '')'' \<and> stk \<noteq> [] then ([Syn c], (Plain, tl stk))
      else ([Syn c], (Plain, stk)))"

definition escapable_in_dq :: "char \<Rightarrow> bool" where
  "escapable_in_dq c \<longleftrightarrow> c \<in> {CHR ''$'', CHR 0x60, CHR 0x22, bsl, nl}"

fun sh_char :: "sh_state \<Rightarrow> char \<Rightarrow> sh_token list \<times> sh_state" where
  "sh_char (Plain, stk) c = plain_char stk c"
| "sh_char (Joined, stk) c =
     (if c = bsl then ([], (Escaped, stk))
      else if c = sq \<and> \<not> in_dq stk then ([], (Single, stk)) else plain_char stk c)"
| "sh_char (Single, stk) c = (if c = sq then ([], (Joined, stk)) else ([Lit c], (Single, stk)))"
| "sh_char (Escaped, stk) c =
     ((if in_dq stk \<and> \<not> escapable_in_dq c then [Lit bsl, Lit c] else [Lit c]), (Joined, stk))"
| "sh_char (Dollar, stk) c =
     (if c = CHR ''('' then ([Syn c], (Plain, Substitution # stk)) else plain_char stk c)"
| "sh_char (Unread, stk) c = ([], (Unread, stk))"

fun sh_run :: "sh_state \<Rightarrow> string \<Rightarrow> sh_token list \<times> sh_state" where
  "sh_run st [] = ([], st)"
| "sh_run st (c # cs) =
     (case sh_char st c of (ts, st') \<Rightarrow> (case sh_run st' cs of (us, st'') \<Rightarrow> (ts @ us, st'')))"

definition sh_tokens :: "string \<Rightarrow> sh_token list" where
  "sh_tokens s = fst (sh_run (Plain, []) s)"

text \<open>The text ends outside of every quote and every substitution.\<close>

definition sh_complete :: "string \<Rightarrow> bool" where
  "sh_complete s \<longleftrightarrow> snd (sh_run (Plain, []) s) \<in> {(Plain, []), (Joined, [])}"

fun is_lit :: "sh_token \<Rightarrow> bool" where
  "is_lit (Lit _) = True"
| "is_lit _ = False"

text \<open>What the shell interprets, with the places where a piece is taken as it is; and those pieces.\<close>

definition sh_shape :: "string \<Rightarrow> sh_token list" where
  "sh_shape s = filter (\<lambda>t. \<not> is_lit t) (sh_tokens s)"

fun sh_pieces :: "sh_token list \<Rightarrow> string list" where
  "sh_pieces [] = []"
| "sh_pieces (Quoted # ts) =
     map (\<lambda>t. case t of Lit c \<Rightarrow> c | _ \<Rightarrow> CHR 0x00) (takeWhile is_lit ts) # sh_pieces ts"
| "sh_pieces (_ # ts) = sh_pieces ts"

definition sh_data :: "string \<Rightarrow> string list" where
  "sh_data s = sh_pieces (sh_tokens s)"

subsection \<open>Reading quoted text\<close>

lemma sh_run_append:
  "sh_run st (a @ b) =
     (case sh_run st a of (ts, st') \<Rightarrow> (case sh_run st' b of (us, st'') \<Rightarrow> (ts @ us, st'')))"
  by (induction a arbitrary: st) (auto split: prod.splits)

lemma sh_run_single:
  "\<not> in_dq stk \<Longrightarrow>
   sh_run (Single, stk) (concat (map (\<lambda>c. if c = sq then [sq, bsl, sq, sq] else [c]) s) @ [sq])
     = (map Lit s, (Joined, stk))"
  by (induction s) (auto simp: bsl_def)

lemma sh_run_quote:
  "\<not> in_dq stk \<Longrightarrow> sh_run (Plain, stk) (sh_quote s) = (Quoted # map Lit s, (Joined, stk))"
  by (simp add: sh_quote_def sh_run_single plain_char_def bsl_def)

text \<open>The word that \<open>sh_quote\<close> writes is read back, whatever it holds.\<close>

lemma quote_round_trip: "sh_data (sh_quote s) = [s] \<and> sh_complete (sh_quote s)"
proof -
  have "map (\<lambda>t. case t of Lit c \<Rightarrow> c | _ \<Rightarrow> CHR 0x00) (takeWhile is_lit (map Lit s)) = s"
    by (induction s) auto
  moreover have "sh_pieces (map Lit s) = []" by (induction s) auto
  ultimately show ?thesis
    by (simp add: sh_data_def sh_tokens_def sh_complete_def sh_run_quote)
qed

lemma no_lits [simp]: "filter (\<lambda>t. \<not> is_lit t) (map Lit s) = []"
  by (induction s) auto

text \<open>
  One reading next to another: the two texts have the same shape from the same place, and lead to the same
  place. \<open>Joined\<close> and \<open>Plain\<close> differ for a piece that follows directly, so both are starting points.
\<close>

definition alike :: "sh_context list \<Rightarrow> string \<Rightarrow> string \<Rightarrow> sh_context list \<Rightarrow> bool" where
  "alike stk a b stk' \<longleftrightarrow>
     (\<forall>m \<in> {Plain, Joined}. \<exists>m' \<in> {Plain, Joined}.
        snd (sh_run (m, stk) a) = (m', stk') \<and> snd (sh_run (m, stk) b) = (m', stk') \<and>
        filter (\<lambda>t. \<not> is_lit t) (fst (sh_run (m, stk) a)) = filter (\<lambda>t. \<not> is_lit t) (fst (sh_run (m, stk) b)))"

lemma alike_append:
  assumes "alike stk a b stk1" and "alike stk1 c d stk2"
  shows "alike stk (a @ c) (b @ d) stk2"
proof -
  have "\<exists>m' \<in> {Plain, Joined}.
      snd (sh_run (m, stk) (a @ c)) = (m', stk2) \<and> snd (sh_run (m, stk) (b @ d)) = (m', stk2) \<and>
      filter (\<lambda>t. \<not> is_lit t) (fst (sh_run (m, stk) (a @ c)))
        = filter (\<lambda>t. \<not> is_lit t) (fst (sh_run (m, stk) (b @ d)))"
    if "m \<in> {Plain, Joined}" for m
  proof -
    obtain m1 where m1: "m1 \<in> {Plain, Joined}" "snd (sh_run (m, stk) a) = (m1, stk1)"
      "snd (sh_run (m, stk) b) = (m1, stk1)"
      "filter (\<lambda>t. \<not> is_lit t) (fst (sh_run (m, stk) a)) = filter (\<lambda>t. \<not> is_lit t) (fst (sh_run (m, stk) b))"
      using assms(1) \<open>m \<in> _\<close> unfolding alike_def by blast
    obtain m2 where m2: "m2 \<in> {Plain, Joined}" "snd (sh_run (m1, stk1) c) = (m2, stk2)"
      "snd (sh_run (m1, stk1) d) = (m2, stk2)"
      "filter (\<lambda>t. \<not> is_lit t) (fst (sh_run (m1, stk1) c)) = filter (\<lambda>t. \<not> is_lit t) (fst (sh_run (m1, stk1) d))"
      using assms(2) \<open>m1 \<in> _\<close> unfolding alike_def by blast
    show ?thesis using m1 m2 by (auto simp: sh_run_append split: prod.splits)
  qed
  then show ?thesis by (simp add: alike_def)
qed

lemma alike_quote:
  assumes "\<not> in_dq stk"
  shows "alike stk (sh_quote s) (sh_quote t) stk"
proof -
  have "sh_run (Joined, stk) (sh_quote u) = (map Lit u, (Joined, stk))" for u
    using assms sh_run_single [OF assms, of u] by (simp add: sh_quote_def bsl_def)
  then show ?thesis using assms by (simp add: alike_def sh_run_quote)
qed

text \<open>A text of the source itself: where it ends is computed.\<close>

definition ends_in :: "sh_context list \<Rightarrow> string \<Rightarrow> sh_context list \<Rightarrow> bool" where
  "ends_in stk a stk' \<longleftrightarrow>
     snd (sh_run (Plain, stk) a) \<in> {(Plain, stk'), (Joined, stk')} \<and>
     snd (sh_run (Joined, stk) a) \<in> {(Plain, stk'), (Joined, stk')}"

lemma alike_fixed: "ends_in stk a stk' \<Longrightarrow> alike stk a a stk'"
  by (auto simp: alike_def ends_in_def)

lemma alike_fixed_append: "ends_in stk a stk1 \<Longrightarrow> alike stk1 c d stk2 \<Longrightarrow> alike stk (a @ c) (a @ d) stk2"
  by (rule alike_append [OF alike_fixed])

lemma alike_quote_append:
  "\<not> in_dq stk \<Longrightarrow> alike stk c d stk2 \<Longrightarrow> alike stk (sh_quote s @ c) (sh_quote t @ d) stk2"
  by (rule alike_append [OF alike_quote])

lemma alike_complete:
  assumes "alike [] a b []"
  shows "sh_complete a \<and> sh_shape a = sh_shape b"
  using assms by (auto simp: alike_def sh_complete_def sh_shape_def sh_tokens_def)

lemmas alike_top =
  alike_quote_append [of "[]"] alike_quote [of "[]"]
  alike_fixed_append [of "[]" _ "[]"] alike_fixed [of "[]" _ "[]"]

subsection \<open>No field is interpreted\<close>

text \<open>The step and the options with every field emptied: only what is present stays.\<close>

abbreviation blank :: "string option \<Rightarrow> string option" where
  "blank \<equiv> map_option (\<lambda>_. [])"

fun blank_auth :: "push_auth \<Rightarrow> push_auth" where
  "blank_auth NoAuth = NoAuth"
| "blank_auth (SshAuth _ known_hosts) = SshAuth [] (blank known_hosts)"
| "blank_auth (HttpsToken _) = HttpsToken []"

definition blank_options :: "step_command_options \<Rightarrow> step_command_options" where
  "blank_options opts =
     \<lparr>so_push_auth = blank_auth (so_push_auth opts), so_remote_url = blank (so_remote_url opts)\<rparr>"

fun blank_step :: "phase_step \<Rightarrow> phase_step" where
  "blank_step (Setup (CloneRepo _ branch into mode)) = Setup (CloneRepo [] (blank branch) (blank into) mode)"
| "blank_step (Setup (CheckoutCreateBranch _ base)) = Setup (CheckoutCreateBranch [] (blank base))"
| "blank_step (Setup (PullBranch remote branch)) = Setup (PullBranch (blank remote) (blank branch))"
| "blank_step (Setup (SetupRunScript _ env)) = Setup (SetupRunScript [] env)"
| "blank_step (Teardown (TeardownRunScript _)) = Teardown (TeardownRunScript [])"
| "blank_step (Teardown (CommitChanges _ add_all)) = Teardown (CommitChanges [] add_all)"
| "blank_step (Teardown (CreatePullRequest title body base)) =
     Teardown (CreatePullRequest (blank title) (blank body) (blank base))"
| "blank_step (Teardown (PushBranch remote branch)) = Teardown (PushBranch (blank remote) (blank branch))"
| "blank_step s = s"

text \<open>Steps whose field is a command, written by the author of the workflow.\<close>

fun runs_author_command :: "phase_step \<Rightarrow> bool" where
  "runs_author_command (Setup (SetupRunShell _ _)) = True"
| "runs_author_command (Teardown (TeardownRunShell _ _)) = True"
| "runs_author_command _ = False"

fun push_is_refused :: "phase_step \<Rightarrow> bool" where
  "push_is_refused (Teardown (PushBranch _ (Some b))) = not_a_branch b"
| "push_is_refused _ = False"

lemma blank_default: "blank_options opts = default_options \<longleftrightarrow> opts = default_options"
  by (cases opts; cases "so_push_auth opts") (auto simp: blank_options_def default_options_def)

lemma blank_transport_git:
  "alike [] (transport_git opts) (transport_git (blank_options opts)) []"
proof (cases "so_push_auth opts")
  case NoAuth
  show ?thesis
    by (cases "so_remote_url opts"; simp add: transport_git_def blank_options_def NoAuth; rule alike_top, code_simp)
next
  case (SshAuth k h)
  show ?thesis
    by (simp add: transport_git_def blank_options_def SshAuth, rule alike_top, code_simp)
next
  case (HttpsToken v)
  show ?thesis
    by (simp add: transport_git_def blank_options_def HttpsToken del: append.simps, (rule alike_top, code_simp)+)
qed

lemma blank_remote [simp]: "so_remote_url (blank_options opts) = blank (so_remote_url opts)"
  by (simp add: blank_options_def)

lemmas alike_git_append = alike_append [OF blank_transport_git]

lemma blank_clone_words:
  "alike [] (clone_words url branch into opts)
     (clone_words [] (blank branch) (blank into) (blank_options opts)) []"
  by (cases branch; cases into; cases "so_remote_url opts";
      simp add: clone_words_def del: append.simps; rule alike_git_append;
      (rule alike_top, code_simp)+)

abbreviation (input) in_test :: "sh_context list" where
  "in_test \<equiv> [Substitution, Double_Quotes]"

lemma alike_already_cloned:
  assumes "alike [] rest rest' []"
  shows "alike [] (already_cloned dir url @ rest) (already_cloned dir' url' @ rest') []"
proof -
  have 0: "alike in_test ('' config --get remote.origin.url)\" = '' @ sh_quote url @ '' ]'' @ rest)
    ('' config --get remote.origin.url)\" = '' @ sh_quote url' @ '' ]'' @ rest') []"
    by (rule alike_fixed_append [of in_test _ "[]"], code_simp, rule alike_top, code_simp,
        rule alike_fixed_append [of "[]" _ "[]"], code_simp, rule assms)
  have 1: "alike [] ('' ] && [ \"$(git -C '' @ sh_quote dir @ '' config --get remote.origin.url)\" = '' @ sh_quote url @ '' ]'' @ rest)
    ('' ] && [ \"$(git -C '' @ sh_quote dir' @ '' config --get remote.origin.url)\" = '' @ sh_quote url' @ '' ]'' @ rest') []"
    by (rule alike_fixed_append [of "[]" _ in_test], code_simp, rule alike_quote_append, simp, rule 0)
  have "alike [] (''[ -f '' @ sh_quote (dir @ ''/.git/config'') @ x) (''[ -f '' @ sh_quote (dir' @ ''/.git/config'') @ y) []"
    if "alike [] x y []" for x y
    by (rule alike_fixed_append [of "[]" _ "[]"], code_simp, rule alike_quote_append, simp, rule that)
  from this [OF 1] show ?thesis by (simp only: already_cloned_def append_assoc)
qed

lemma blank_clone_command:
  "alike [] (clone_command url branch into mode opts)
     (clone_command [] (blank branch) (blank into) mode (blank_options opts)) []"
  by (cases mode; simp only: clone_command_def Let_def clone_conflict_mode.case append_assoc;
      intro alike_fixed_append [of "[]" _ "[]"] alike_fixed [of "[]" _ "[]"] alike_quote_append [of "[]"]
        alike_already_cloned alike_append [OF blank_clone_words] blank_clone_words; code_simp)

lemma blank_pull_command:
  "alike [] (pull_command remote branch opts)
     (pull_command (blank remote) (blank branch) (blank_options opts)) []"
  by (cases remote; cases branch; cases "so_remote_url opts";
      simp add: pull_command_def del: append.simps; rule alike_git_append;
      (rule alike_top, code_simp)+)

lemma blank_ssh_command: "alike [] (git_ssh_command opts) (git_ssh_command (blank_options opts)) []"
proof (cases "so_push_auth opts")
  case (SshAuth key known)
  show ?thesis
    by (cases known; simp add: git_ssh_command_def blank_options_def SshAuth del: append.simps;
        (rule alike_top, code_simp)+)
qed (simp_all add: git_ssh_command_def blank_options_def, (rule alike_top, code_simp)+)

lemma command_alike:
  assumes "\<not> runs_author_command s" and "\<not> push_is_refused s"
    and "step_to_shell_with s opts = Some (cmd, env)"
  shows "sh_complete cmd \<and>
    (\<exists>blanked env'. step_to_shell_with (blank_step s) (blank_options opts) = Some (blanked, env') \<and>
       sh_shape cmd = sh_shape blanked)"
proof (cases s)
  case (Setup t)
  show ?thesis
  proof (cases t)
    case (CloneRepo url branch into mode)
    with assms Setup show ?thesis
      using alike_complete [OF blank_clone_command [of url branch into mode opts]] by simp
  next
    case (CheckoutCreateBranch branch base)
    let ?c = "\<lambda>b r. ''git fetch origin 2>/dev/null; git checkout '' @ sh_quote b
             @ '' 2>/dev/null || git checkout -b '' @ sh_quote b
             @ (case r of None \<Rightarrow> [] | Some b \<Rightarrow> '' '' @ sh_quote b)"
    have "alike [] (?c branch base) (?c [] (blank base)) []"
      by (cases base; simp del: append.simps; (rule alike_top, code_simp)+)
    from alike_complete [OF this] show ?thesis using assms Setup CheckoutCreateBranch by simp
  next
    case (PullBranch remote branch)
    show ?thesis
    proof (cases "opts = default_options")
      case True
      let ?c = "\<lambda>r b. case (r, b) of (Some r, Some b) \<Rightarrow> ''git pull '' @ sh_quote r @ '' '' @ sh_quote b | _ \<Rightarrow> ''git pull''"
      have "alike [] (?c remote branch) (?c (blank remote) (blank branch)) []"
        by (cases remote; cases branch; simp del: append.simps; (rule alike_top, code_simp)+)
      from alike_complete [OF this] show ?thesis using assms Setup PullBranch True by (simp add: blank_default)
    next
      case False
      then show ?thesis using assms Setup PullBranch alike_complete [OF blank_pull_command [of remote branch opts]]
        by (simp add: blank_default)
    qed
  next
    case (SetupRunScript path env)
    have "alike [] (''sh '' @ sh_quote path) (''sh '' @ sh_quote []) []"
      by ((rule alike_top, code_simp)+)
    from alike_complete [OF this] show ?thesis using assms Setup SetupRunScript by simp
  qed (use assms Setup in simp_all)
next
  case (Teardown t)
  show ?thesis
  proof (cases t)
    case (TeardownRunScript path)
    have "alike [] (''sh '' @ sh_quote path) (''sh '' @ sh_quote []) []"
      by ((rule alike_top, code_simp)+)
    from alike_complete [OF this] show ?thesis using assms Teardown TeardownRunScript by simp
  next
    case (CommitChanges message add_all)
    have "alike [] (commit_command message add_all) (commit_command [] add_all) []"
      by (cases add_all; simp add: commit_command_def del: append.simps; (rule alike_top, code_simp)+)
    from alike_complete [OF this] show ?thesis using assms Teardown CommitChanges by simp
  next
    case (CreatePullRequest title body base)
    have "alike [] (create_pr_command title body base opts)
        (create_pr_command (blank title) (blank body) (blank base) (blank_options opts)) []"
      by (cases "so_remote_url opts"; cases base; simp add: create_pr_command_def del: append.simps;
          (rule alike_top, code_simp)+)
    from alike_complete [OF this] show ?thesis using assms Teardown CreatePullRequest by simp
  next
    case (PushBranch remote branch)
    have nb: "not_a_branch (case branch of None \<Rightarrow> ''HEAD'' | Some b \<Rightarrow> b) = False"
      using assms(2) Teardown PushBranch by (cases branch) (simp_all add: not_a_branch_def)
    have "alike [] (fst (push_command remote branch opts))
        (fst (push_command (blank remote) (blank branch) (blank_options opts))) []"
    proof -
      have "\<not> not_a_branch (case blank branch of None \<Rightarrow> ''HEAD'' | Some b \<Rightarrow> b)"
        by (cases branch) (simp_all add: not_a_branch_def)
      then show ?thesis
        unfolding push_command_def Let_def using nb
        by (cases branch; cases remote; cases "so_remote_url opts"; simp del: append.simps)
           ((rule alike_git_append, (rule alike_top, code_simp)+)+)
    qed
    from alike_complete [OF this] show ?thesis using assms Teardown PushBranch
      by (cases "push_command (blank remote) (blank branch) (blank_options opts)") simp
  qed (use assms Teardown in simp_all)
qed

text \<open>The command a step hands to the shell as its author wrote it.\<close>

fun author_command :: "phase_step \<Rightarrow> string option" where
  "author_command (Setup (SetupRunShell command _)) = Some command"
| "author_command (Teardown (TeardownRunShell command _)) = Some command"
| "author_command _ = None"

lemma author_runs: "runs_author_command s \<longleftrightarrow> author_command s \<noteq> None"
  by (cases s rule: author_command.cases) simp_all

lemma author_handed_over:
  "author_command s = Some c \<Longrightarrow> step_to_shell_with s opts = Some (cmd, env) \<Longrightarrow> cmd = c"
  by (cases s rule: author_command.cases) simp_all

lemma refused_push:
  assumes "push_is_refused s" and "step_to_shell_with s opts = Some (cmd, env)"
  shows "cmd = push_refused"
proof -
  obtain r b where "s = Teardown (PushBranch r (Some b))" "not_a_branch b"
    using assms(1) by (cases s rule: push_is_refused.cases) simp_all
  then show ?thesis using assms(2) by (simp add: push_command_def)
qed

lemma refusal_complete: "sh_complete push_refused"
  by code_simp

text \<open>
  Property C38. What the fields of a setup or teardown step can do to the command the shell is given. Of a step other
  than \<open>run_shell\<close> nothing in a field becomes shell syntax: the shell reads the command with the same structure as the
  command of the same step with all its fields emptied, and ends outside of every quote; a push of something that is
  not a branch is replaced by one fixed command that refuses it. The command of a \<open>run_shell\<close> step is its author's
  text: the shell is handed exactly that and interprets it, with what the placeholders in it were replaced by. The
  command git runs for ssh, with the paths of the key and of the known hosts, is of the first kind.
\<close>

theorem fields_stay_data:
  assumes "step_to_shell_with s opts = Some (cmd, env)"
  shows "sh_complete (git_ssh_command opts) \<and>
    sh_shape (git_ssh_command opts) = sh_shape (git_ssh_command (blank_options opts)) \<and>
    (case author_command s of
       Some c \<Rightarrow> cmd = c
     | None \<Rightarrow> sh_complete cmd \<and>
         (if push_is_refused s then cmd = push_refused
          else (\<exists>blanked env'. step_to_shell_with (blank_step s) (blank_options opts) = Some (blanked, env') \<and>
            sh_shape cmd = sh_shape blanked)))"
proof (cases "author_command s")
  case (Some c)
  then show ?thesis
    using author_handed_over [OF Some assms] alike_complete [OF blank_ssh_command [of opts]] by simp
next
  case None
  show ?thesis
  proof (cases "push_is_refused s")
    case True
    then show ?thesis
      using None refused_push [OF True assms] refusal_complete alike_complete [OF blank_ssh_command [of opts]] by simp
  next
    case False
    then show ?thesis
      using None command_alike [OF _ False assms] author_runs [of s] alike_complete [OF blank_ssh_command [of opts]] by simp
  qed
qed

theorem fields_stay_data_witness:
  "sh_shape (fst (push_command (Some ''origin'') (Some ''a'; rm -rf b; #'') default_options))
     = sh_shape (fst (push_command (Some []) (Some []) default_options)) \<and>
   fst (push_command None (Some ''--force'') default_options) = push_refused"
proof -
  let ?s = "Teardown (PushBranch (Some ''origin'') (Some ''a'; rm -rf b; #''))"
  let ?t = "Teardown (PushBranch None (Some ''--force''))"
  let ?p = "push_command (Some ''origin'') (Some ''a'; rm -rf b; #'') default_options"
  let ?q = "push_command None (Some ''--force'') default_options"
  have s: "\<not> push_is_refused ?s" and t: "push_is_refused ?t" by code_simp+
  have n: "author_command ?s = None" "author_command ?t = None" by (simp_all only: author_command.simps)
  have ps: "step_to_shell_with ?s default_options = Some (fst ?p, snd ?p)"
    and qs: "step_to_shell_with ?t default_options = Some (fst ?q, snd ?q)"
    by (simp_all only: step_to_shell_with.simps teardown_step_to_shell_with.simps prod.collapse)
  have d: "blank_options default_options = default_options" by (simp add: blank_default)
  have b: "step_to_shell_with (blank_step ?s) (blank_options default_options)
      = Some (push_command (Some []) (Some []) default_options)"
    by (simp only: d blank_step.simps option.map step_to_shell_with.simps teardown_step_to_shell_with.simps)
  have "\<exists>blanked env'. step_to_shell_with (blank_step ?s) (blank_options default_options) = Some (blanked, env') \<and>
      sh_shape (fst ?p) = sh_shape blanked"
    using fields_stay_data [OF ps] s by (simp only: n option.case if_False)
  then have "sh_shape (fst ?p) = sh_shape (fst (push_command (Some []) (Some []) default_options))"
    unfolding b by (metis fst_conv option.inject)
  moreover have "fst ?q = push_refused"
    using fields_stay_data [OF qs] t by (simp only: n option.case if_True)
  ultimately show ?thesis by blast
qed

text \<open>And the words arrive: what a push hands to git, behind the words of the source.\<close>

lemma push_words_arrive:
  "sh_data (fst (push_command (Some ''origin'') (Some ''a'; rm -rf b; #'') default_options)) = [''origin'', ''a'; rm -rf b; #'']"
  by code_simp

end
