(* ===== verification/Workflow_Phases.thy ===== *)
theory Workflow_Phases
  imports Workflow_Run Step_Commands Redaction Overlays
begin

text \<open>
  Setup and teardown, \<open>src/engine/workflow/phases.rs\<close> and the end of \<open>src/engine/workflow/mod.rs\<close>: one
  runner for both phases, the agent that repairs a failed step, and the file it is handed. The methods are
  engine methods; the answers the outside gives to a phase are a record of their own, with the world in it.
\<close>

subsection \<open>The outside of a phase\<close>

record exec_output =
  xo_exit_code :: int
  xo_stdout :: string
  xo_stderr :: string

record parsed_url =
  pu_scheme :: string
  pu_host :: "string option"
  pu_query :: "string option"
  pu_fragment :: "string option"
  pu_username :: string
  pu_password :: "string option"
  pu_path_segments :: "string list option"

text \<open>
  \<open>pw_container\<close> and \<open>pw_exec\<close>: starting the container of a step, and running a command in it (the lines it
  printed, and how it ended); \<open>pw_fetch\<close> the requests of one CI poll, \<open>pw_ci_failure\<close> what its poller noted;
  \<open>pw_context_dir\<close> the directory of the run when it could be made and is inside the context root, \<open>pw_write\<close>
  whether a file could be written there; \<open>pw_parse_url\<close> the URL library.
\<close>

record phase_world =
  pw_world :: world
  pw_fuel :: nat
  pw_work_item :: "work_item_context option"
  pw_secrets :: "string list"
  pw_options :: "((phase_kind \<times> nat) \<times> step_command_options) list"
  pw_permission :: "overlay_permission option"
  pw_container :: "nat \<Rightarrow> phase_kind \<times> nat \<times> string \<Rightarrow> (string, unit) result"
  pw_exec :: "nat \<Rightarrow> shell_command \<Rightarrow> string list \<times> (string, exec_output) result"
  pw_fetch :: "nat \<Rightarrow> nat \<Rightarrow> (poll_error, ci_status) result"
  pw_ci_failure :: "nat \<Rightarrow> ci_failure option"
  pw_context_dir :: "nat \<Rightarrow> string option"
  pw_write :: "nat \<Rightarrow> bool"
  pw_parse_url :: "string \<Rightarrow> parsed_url option"

definition hide :: "phase_world \<Rightarrow> string \<Rightarrow> string" where
  "hide w s = redact (pw_secrets w) s"

definition tell :: "phase_kind \<Rightarrow> nat \<Rightarrow> phase_event \<Rightarrow> unit eng" where
  "tell k i ev = eff (Eff_phase k i ev)"

text \<open>\<open>a && b\<close> where looking at \<open>b\<close> is an observation.\<close>

definition eand :: "bool \<Rightarrow> bool eng \<Rightarrow> bool eng" where
  "eand b m = (if b then m else eret False)"

subsection \<open>The recorded steps of a phase\<close>

definition phase_state :: "engine \<Rightarrow> phase_kind \<Rightarrow> nat \<Rightarrow> phase_step_state" where
  "phase_state e k i = phase_step_states (en_state e) k ! i"

definition mod_state :: "(workflow_state \<Rightarrow> workflow_state) \<Rightarrow> unit eng" where
  "mod_state f = emod (\<lambda>e. e\<lparr>en_state := f (en_state e)\<rparr>)"

definition set_phase_status :: "phase_kind \<Rightarrow> nat \<Rightarrow> phase_step_status \<Rightarrow> unit eng" where
  "set_phase_status k i s =
     mod_state (\<lambda>st. set_phase_step_states k
       ((phase_step_states st k)[i := (phase_step_states st k ! i)\<lparr>pss_status := s\<rparr>]) st)"

definition refreshed :: "string list \<Rightarrow> phase_step_state list \<Rightarrow> phase_step_state list" where
  "refreshed descriptions states =
     (if length states = length descriptions
      then map (\<lambda>(s, d). s\<lparr>pss_description := d\<rparr>) (zip states descriptions)
      else map (\<lambda>d. \<lparr>pss_description = d, pss_status = PhasePending\<rparr>) descriptions)"

definition refresh_phase_states :: "phase_kind \<Rightarrow> phase_step list \<Rightarrow> unit eng" where
  "refresh_phase_states k steps =
     mod_state (\<lambda>st. set_phase_step_states k
       (refreshed (map step_description steps) (phase_step_states st k)) st)"

definition reset_or_rebuild_phase_states :: "phase_kind \<Rightarrow> phase_step list \<Rightarrow> unit eng" where
  "reset_or_rebuild_phase_states k steps =
     eseq [refresh_phase_states k steps,
           mod_state (\<lambda>st. set_phase_step_states k
             (map (\<lambda>s. s\<lparr>pss_status := PhasePending\<rparr>) (phase_step_states st k)) st)]"

text \<open>Substitution of a list of steps; like that of one step it takes fuel.\<close>

fun substitute_steps :: "nat \<Rightarrow> work_item_context option \<Rightarrow> phase_step list \<Rightarrow> phase_step list option" where
  "substitute_steps fuel ctx [] = Some []"
| "substitute_steps fuel ctx (s # ss) =
     Option.bind (substitute_step fuel ctx s) (\<lambda>s'. map_option ((#) s') (substitute_steps fuel ctx ss))"

definition substituted :: "phase_world \<Rightarrow> phase_step list \<Rightarrow> phase_step list eng" where
  "substituted w steps =
     (case substitute_steps (pw_fuel w) (pw_work_item w) steps of None \<Rightarrow> ewait | Some ss \<Rightarrow> eret ss)"

definition all_pending :: "workflow_state \<Rightarrow> bool" where
  "all_pending st \<longleftrightarrow> list_all (\<lambda>s. s = Pending) (hm_values (step_states st))"

definition declare_phase_steps ::
  "phase_world \<Rightarrow> setup_step list \<Rightarrow> teardown_step list \<Rightarrow> unit eng" where
  "declare_phase_steps w setup teardown =
     ebind (substituted w (map Setup setup)) (\<lambda>ss.
     ebind (refresh_phase_states SetupKind ss) (\<lambda>_.
     ebind (substituted w (map Teardown teardown)) (\<lambda>ts.
     eseq [refresh_phase_states TeardownKind ts,
           mod_state (\<lambda>st. if \<not> setup_completed st \<and> setup \<noteq> [] \<and> current_phase st = MainPhase \<and> all_pending st
                           then st\<lparr>current_phase := SetupPhase\<rparr> else st),
           persist (pw_world w)])))"

subsection \<open>The outcome of a step\<close>

record phase_step_outcome =
  po_failed :: bool
  po_exit_code :: "int option"
  po_stdout :: string
  po_stderr :: string
  po_ci_failed_jobs :: "string list"

definition outcome_succeeded :: phase_step_outcome where
  "outcome_succeeded = \<lparr>po_failed = False, po_exit_code = Some 0, po_stdout = [], po_stderr = [], po_ci_failed_jobs = []\<rparr>"

definition outcome_failed :: "string \<Rightarrow> string \<Rightarrow> phase_step_outcome" where
  "outcome_failed out err = \<lparr>po_failed = True, po_exit_code = None, po_stdout = out, po_stderr = err, po_ci_failed_jobs = []\<rparr>"

definition outcome_exited :: "int \<Rightarrow> string \<Rightarrow> string \<Rightarrow> phase_step_outcome" where
  "outcome_exited code out err =
     \<lparr>po_failed = True, po_exit_code = Some code, po_stdout = out, po_stderr = err, po_ci_failed_jobs = []\<rparr>"

definition reported_exit_code :: "phase_step_outcome \<Rightarrow> int" where
  "reported_exit_code r = (case po_exit_code r of None \<Rightarrow> 1 | Some c \<Rightarrow> c)"

definition set_phase_step_failed :: "phase_world \<Rightarrow> phase_kind \<Rightarrow> nat \<Rightarrow> string \<Rightarrow> unit eng" where
  "set_phase_step_failed w k i error =
     eseq [set_phase_status k i (PhaseFailed (hide w error)), persist_or_log (pw_world w)]"

definition phase_step_failed_error :: "engine \<Rightarrow> phase_kind \<Rightarrow> nat \<Rightarrow> string" where
  "phase_step_failed_error e k i =
     (if i < length (phase_step_states (en_state e) k)
      then (case pss_status (phase_state e k i) of PhaseFailed error \<Rightarrow> error | _ \<Rightarrow> ''unknown error'')
      else ''unknown error'')"

subsection \<open>One step\<close>

primrec tell_lines :: "phase_world \<Rightarrow> phase_kind \<Rightarrow> nat \<Rightarrow> string list \<Rightarrow> unit eng" where
  "tell_lines w k i [] = eret ()"
| "tell_lines w k i (l # ls) = ebind (tell k i (Ph_output (hide w l))) (\<lambda>_. tell_lines w k i ls)"

text \<open>A command in the container: it starts, its lines are shown, it ends.\<close>

definition exec_streaming ::
  "phase_world \<Rightarrow> phase_kind \<Rightarrow> nat \<Rightarrow> shell_command \<Rightarrow> (string, exec_output) result eng" where
  "exec_streaming w k i cmd =
     ebind (tell k i (Ph_command (fst cmd))) (\<lambda>_.
     ebind (observe (\<lambda>t. pw_exec w t cmd)) (\<lambda>(ls, r).
     ebind (tell_lines w k i ls) (\<lambda>_. eret r)))"

definition run_shell_phase_step ::
  "phase_world \<Rightarrow> phase_kind \<Rightarrow> nat \<Rightarrow> shell_command \<Rightarrow> phase_step_outcome eng" where
  "run_shell_phase_step w k i cmd =
     ebind (exec_streaming w k i cmd) (\<lambda>r.
       case r of
         Inl error \<Rightarrow>
           ebind (set_phase_step_failed w k i (hide w error)) (\<lambda>_. eret (outcome_failed [] (hide w error)))
       | Inr x \<Rightarrow>
           (let out = hide w (xo_stdout x); err = hide w (xo_stderr x) in
            if xo_exit_code x \<noteq> 0
            then ebind (set_phase_step_failed w k i err) (\<lambda>_. eret (outcome_exited (xo_exit_code x) out err))
            else eret (outcome_succeeded\<lparr>po_stdout := out, po_stderr := err\<rparr>)))"

definition no_ci_failure_report :: string where
  "no_ci_failure_report =
     ''poll_ci recorded no failed CI run for this commit, so there are no failed jobs or log ''
     @ ''tails to show; the error below is why the poll stopped.''"

definition poll_ci_failure_outcome ::
  "phase_world \<Rightarrow> string \<Rightarrow> ci_failure option \<Rightarrow> phase_step_outcome" where
  "poll_ci_failure_outcome w error failure =
     (case failure of
        Some f \<Rightarrow> (outcome_failed (hide w (cf_report f)) error)\<lparr>po_ci_failed_jobs := cf_failed_jobs f\<rparr>
      | None \<Rightarrow> outcome_failed no_ci_failure_report error)"

text \<open>How the errors of a poll print.\<close>

fun poll_error_text :: "poll_error \<Rightarrow> string" where
  "poll_error_text (Poll_container s) = ''container backend error: '' @ s"
| "poll_error_text (Poll_other s) = s"

fun hide_poll_event :: "phase_world \<Rightarrow> ci_poll_event \<Rightarrow> ci_poll_event" where
  "hide_poll_event w (Poll_failed detail) = Poll_failed (hide w detail)"
| "hide_poll_event w ev = ev"

primrec tell_polls :: "phase_world \<Rightarrow> phase_kind \<Rightarrow> nat \<Rightarrow> ci_poll_event list \<Rightarrow> unit eng" where
  "tell_polls w k i [] = eret ()"
| "tell_polls w k i (ev # evs) = ebind (tell k i (Ph_poll (hide_poll_event w ev))) (\<lambda>_. tell_polls w k i evs)"

definition run_poll_ci_phase_step ::
  "phase_world \<Rightarrow> nat \<Rightarrow> nat \<Rightarrow> phase_kind \<Rightarrow> nat \<Rightarrow> phase_step_outcome eng" where
  "run_poll_ci_phase_step w interval retries k i =
     ebind (observe (\<lambda>t. (poll_with (pw_fetch w t) interval retries, pw_ci_failure w t))) (\<lambda>(p, failure).
     ebind (tell_polls w k i (pt_events p)) (\<lambda>_.
       case pt_result p of
         Inr _ \<Rightarrow> eret outcome_succeeded
       | Inl x \<Rightarrow>
           (let error = hide w (poll_error_text x) in
            ebind (set_phase_step_failed w k i error) (\<lambda>_. eret (poll_ci_failure_outcome w error failure)))))"

definition step_command_options_for :: "phase_world \<Rightarrow> phase_kind \<Rightarrow> nat \<Rightarrow> step_command_options" where
  "step_command_options_for w k i =
     (case find (\<lambda>(ki, _). ki = (k, i)) (pw_options w) of Some (_, o1) \<Rightarrow> o1 | None \<Rightarrow> default_options)"

definition pr_branch_not_yet_indexed :: "phase_step_outcome \<Rightarrow> bool" where
  "pr_branch_not_yet_indexed r \<longleftrightarrow>
     contains_sub (po_stderr r) ''No commits between'' \<or> contains_sub (po_stdout r) ''No commits between''"

definition pr_retry_delays :: "nat list" where
  "pr_retry_delays = [3, 5, 10, 15]"

text \<open>The waits between two attempts; the delay itself only passes.\<close>

primrec retry_pull_request ::
  "phase_world \<Rightarrow> phase_kind \<Rightarrow> nat \<Rightarrow> shell_command \<Rightarrow> nat list \<Rightarrow> phase_step_outcome \<Rightarrow> phase_step_outcome eng" where
  "retry_pull_request w k i cmd [] r = eret r"
| "retry_pull_request w k i cmd (delay # delays) r =
     ebind (if \<not> (po_failed r \<and> pr_branch_not_yet_indexed r) then eret True else cancel_requested (pw_world w)) (\<lambda>stop.
       if stop then eret r
       else ebind (run_shell_phase_step w k i cmd) (retry_pull_request w k i cmd delays))"

definition decimal_value :: "string \<Rightarrow> nat" where
  "decimal_value s = foldl (\<lambda>n c. 10 * n + (of_char c - 48)) 0 s"

text \<open>\<open>str::parse::<u64>\<close>: an optional plus sign and digits, below two to the 64.\<close>

definition parse_u64 :: "string \<Rightarrow> nat option" where
  "parse_u64 s =
     (let ds = (case s of c # cs \<Rightarrow> if c = CHR ''+'' then cs else s | [] \<Rightarrow> []) in
      if ds = [] \<or> \<not> list_all is_ascii_digit ds \<or> 2 ^ 64 \<le> decimal_value ds then None
      else Some (decimal_value ds))"

definition is_pull_request_url :: "parsed_url \<Rightarrow> bool" where
  "is_pull_request_url u \<longleftrightarrow>
     pu_scheme u = ''https'' \<and> pu_host u \<noteq> None \<and> pu_query u = None \<and> pu_fragment u = None \<and>
     pu_username u = [] \<and> pu_password u = None \<and>
     (case pu_path_segments u of
        Some [owner, repo, kind, number] \<Rightarrow>
          owner \<noteq> [] \<and> repo \<noteq> [] \<and> kind = ''pull'' \<and>
          (case parse_u64 number of Some n \<Rightarrow> 0 < n | None \<Rightarrow> False)
      | _ \<Rightarrow> False)"

definition parse_gh_pr_create_output :: "(string \<Rightarrow> parsed_url option) \<Rightarrow> string \<Rightarrow> string option" where
  "parse_gh_pr_create_output parse_url output =
     find (\<lambda>line. case parse_url line of None \<Rightarrow> False | Some u \<Rightarrow> is_pull_request_url u)
       (map trim (rev (lines output)))"

definition report_created :: "phase_world \<Rightarrow> phase_kind \<Rightarrow> nat \<Rightarrow> phase_step_outcome \<Rightarrow> unit eng" where
  "report_created w k i r =
     (if po_failed r then eret ()
      else (case parse_gh_pr_create_output (pw_parse_url w) (po_stdout r) of
              None \<Rightarrow> eret () | Some url \<Rightarrow> tell k i (Ph_pull_request url)))"

definition run_in_container ::
  "phase_world \<Rightarrow> phase_kind \<Rightarrow> nat \<Rightarrow> bool \<Rightarrow> shell_command \<Rightarrow> phase_step_outcome eng" where
  "run_in_container w k i creates_pr cmd =
     ebind (run_shell_phase_step w k i cmd) (\<lambda>r.
       if k = TeardownKind \<and> creates_pr
       then ebind (retry_pull_request w k i cmd pr_retry_delays r) (\<lambda>r.
            ebind (report_created w k i r) (\<lambda>_. eret r))
       else eret r)"

text \<open>A step without a command is one that polls, so it has been dealt with; \<open>ewait\<close> stands for the panic.\<close>

definition run_single_phase_step ::
  "phase_world \<Rightarrow> phase_kind \<Rightarrow> nat \<Rightarrow> phase_step \<Rightarrow> phase_step_outcome eng" where
  "run_single_phase_step w k i step =
     (case step_poll_ci step of
        Some (interval, retries) \<Rightarrow> run_poll_ci_phase_step w interval retries k i
      | None \<Rightarrow>
          (case step_to_shell_with step (step_command_options_for w k i) of
             None \<Rightarrow> ewait
           | Some cmd \<Rightarrow>
               ebind (eget (\<lambda>e. pss_description (phase_state e k i))) (\<lambda>desc.
               ebind (observe (\<lambda>t. pw_container w t (k, i, desc))) (\<lambda>c.
                 case c of
                   Inr _ \<Rightarrow> run_in_container w k i (step_creates_pull_request step) cmd
                 | Inl e \<Rightarrow>
                     ebind (set_phase_step_failed w k i (hide w e)) (\<lambda>_. eret (outcome_failed [] (hide w e)))))))"

subsection \<open>The file about a failure\<close>

definition sanitize_step_name_for_filename :: "string \<Rightarrow> string" where
  "sanitize_step_name_for_filename name =
     (let out = take 64 (map (\<lambda>c. case c of
                    [b] \<Rightarrow> if is_ascii_alnum b \<or> b = CHR ''-'' \<or> b = CHR ''_'' then b else CHR ''-''
                  | _ \<Rightarrow> CHR ''-'') (utf8_chars name))
      in if out = [] then ''step'' else out)"

definition stream_truncate_bytes :: nat where
  "stream_truncate_bytes = 100 * 1024"

definition is_char_boundary :: "string \<Rightarrow> nat \<Rightarrow> bool" where
  "is_char_boundary s i \<longleftrightarrow>
     i = 0 \<or> i = length s \<or> (i < length s \<and> \<not> (0x80 \<le> (of_char (s ! i) :: nat) \<and> (of_char (s ! i) :: nat) < 0xC0))"

definition truncate_stream :: "string \<Rightarrow> string" where
  "truncate_stream content =
     (if length content \<le> stream_truncate_bytes then content
      else (let start = length content - stream_truncate_bytes;
                start = (case find (is_char_boundary content) [start..<length content] of
                           Some i \<Rightarrow> i | None \<Rightarrow> length content)
            in ''[... output truncated, showing last '' @ dec_string (stream_truncate_bytes div 1024) @ '' KB ...]''
               @ [nl] @ drop start content))"

definition format_phase_failure_file :: "string \<Rightarrow> string \<Rightarrow> string \<Rightarrow> string" where
  "format_phase_failure_file name out err =
     (let render = (\<lambda>s. if s = [] then ''(empty)'' else truncate_stream s) in
      ''=== FAILED COMMAND: '' @ name @ '' ==='' @ [nl, nl] @ ''--- STDOUT ---'' @ [nl] @ render out @ [nl, nl]
      @ ''--- STDERR ---'' @ [nl] @ render err @ [nl])"

record phase_failure_context =
  pf_step_name :: string
  pf_stdout :: string
  pf_stderr :: string

record phase_failure_artifacts =
  pa_container_path :: string
  pa_filename :: string
  pa_step_name :: string
  pa_extra_overlay :: "string option"

definition prepend_preamble :: "phase_kind \<Rightarrow> phase_failure_artifacts \<Rightarrow> string \<Rightarrow> string" where
  "prepend_preamble k a user_prompt =
     ''The full output (stdout and stderr) of the failed '' @ phase_label k @ '' step '' @ [dq] @ pa_step_name a
     @ [dq] @ '' has been'' @ [nl] @ ''written to '' @ pa_container_path a @ ''/'' @ pa_filename a @ ''.'' @ [nl]
     @ ''Read that file first to understand the failure before attempting a fix.'' @ [nl, nl] @ ''---'' @ [nl, nl]
     @ user_prompt"

definition overlay_container_path :: string where
  "overlay_container_path = ''/awman/context/workflow''"

definition ephemeral_container_path :: string where
  "ephemeral_container_path = ''/awman/remediation''"

definition workflow_context_overlay_writable :: "phase_world \<Rightarrow> bool" where
  "workflow_context_overlay_writable w \<longleftrightarrow> pw_permission w = Some ReadWrite"

definition failure_overlay :: "phase_world \<Rightarrow> string \<Rightarrow> string \<Rightarrow> string option" where
  "failure_overlay w host_dir filename =
     (if workflow_context_overlay_writable w then None
      else if pw_permission w = Some ReadOnly
      then Some (host_dir @ ''/'' @ filename @ '':'' @ ephemeral_container_path @ ''/'' @ filename @ '':ro'')
      else Some (host_dir @ '':'' @ ephemeral_container_path @ '':ro''))"

definition prepare_phase_failure_file ::
  "phase_world \<Rightarrow> phase_kind \<Rightarrow> nat \<Rightarrow> phase_failure_context \<Rightarrow> phase_failure_artifacts option eng" where
  "prepare_phase_failure_file w k i f =
     ebind (observe (pw_context_dir w)) (\<lambda>dir.
       case dir of
         None \<Rightarrow> eret None
       | Some host_dir \<Rightarrow>
           (let filename = phase_label k @ ''-failure-'' @ sanitize_step_name_for_filename (pf_step_name f) @ ''.txt'';
                contents = hide w (format_phase_failure_file (pf_step_name f) (pf_stdout f) (pf_stderr f))
            in ebind (observe (pw_write w)) (\<lambda>ok.
                 if \<not> ok then eret None
                 else ebind (tell k i (Ph_failure_file filename contents)) (\<lambda>_.
                   eret (Some \<lparr>pa_container_path = (if workflow_context_overlay_writable w
                                 then overlay_container_path else ephemeral_container_path),
                               pa_filename = filename, pa_step_name = pf_step_name f,
                               pa_extra_overlay = failure_overlay w host_dir filename\<rparr>)))))"

subsection \<open>The repairing agent\<close>

definition cancel_agent :: "execution \<Rightarrow> unit eng" where
  "cancel_agent x =
     (case cancel_handle_of x of Some h \<Rightarrow> eff (Eff_cancel_handle (ex_name h)) | None \<Rightarrow> eret ())"

text \<open>Waiting for the agent, one \<open>select!\<close> a turn; a stuck agent matters under yolo only.\<close>

primrec wait_on_failure_agent :: "nat \<Rightarrow> world \<Rightarrow> string \<Rightarrow> execution \<Rightarrow> int eng" where
  "wait_on_failure_agent 0 w label x = ewait"
| "wait_on_failure_agent (Suc fuel) w label x =
     ebind (step_select w) (\<lambda>(ev, cancelled).
       case ev of
         Exited r \<Rightarrow> ebind (elift r) (\<lambda>info. eret (xi_exit_code info))
       | WaitDropped \<Rightarrow> efail (EngineOther ''on_failure wait task dropped unexpectedly'')
       | _ \<Rightarrow>
           if cancelled
           then ebind (eseq [cancel_agent x, eff (Eff_stop_agent (ex_id x)),
                             eff (Eff_container_exited killed_exit_code)]) (\<lambda>_. eret killed_exit_code)
           else ebind (eget en_yolo) (\<lambda>yolo.
             if yolo \<and> ev = StuckEv Stuck
             then ebind (run_mid_step_yolo_countdown fuel w label) (\<lambda>y.
                    case y of
                      YoloCompleted r \<Rightarrow> ebind (elift r) (\<lambda>info. eret (xi_exit_code info))
                    | YoloAdvanced \<Rightarrow>
                        ebind (eseq [cancel_agent x, eff (Eff_container_exited killed_exit_code)])
                          (\<lambda>_. eret killed_exit_code)
                    | _ \<Rightarrow> wait_on_failure_agent fuel w label x)
             else wait_on_failure_agent fuel w label x))"

text \<open>\<open>run_remediation_agent\<close>: the launch is reported before the container is asked for.\<close>

definition run_remediation_agent ::
  "nat \<Rightarrow> phase_world \<Rightarrow> phase_kind \<Rightarrow> nat \<Rightarrow> string \<Rightarrow> string \<Rightarrow> string option \<Rightarrow> string \<Rightarrow> int eng" where
  "run_remediation_agent fuel w k i label agent model prompt =
     ebind (tell k i (Ph_agent agent model prompt)) (\<lambda>_.
     ebind (ask (\<lambda>t. wd_spawn (pw_world w) t ''__on_failure__'')) (\<lambda>x.
     wait_on_failure_agent fuel (pw_world w) label x))"

text \<open>The exit code is ignored and an error is a warning; not returning is not.\<close>

definition ignoring :: "'a eng \<Rightarrow> unit eng" where
  "ignoring m e = (case m e of (Waiting, e') \<Rightarrow> (Waiting, e') | (_, e') \<Rightarrow> (Ok (), e'))"

definition remediation_agent_name :: "engine \<Rightarrow> remediation_config \<Rightarrow> string" where
  "remediation_agent_name e c =
     (case rem_agent c of
        Some a \<Rightarrow> a
      | None \<Rightarrow> (case wf_agent (en_workflow e) of Some a \<Rightarrow> a | None \<Rightarrow> ''claude''))"

definition remediation_model :: "engine \<Rightarrow> remediation_config \<Rightarrow> string option" where
  "remediation_model e c =
     (case rem_model c of
        Some m \<Rightarrow> Some m
      | None \<Rightarrow> (case wf_model (en_workflow e) of Some m \<Rightarrow> Some m | None \<Rightarrow> en_config_model e))"

definition launch_on_failure_agent ::
  "nat \<Rightarrow> phase_world \<Rightarrow> phase_kind \<Rightarrow> nat \<Rightarrow> remediation_config \<Rightarrow> phase_failure_context \<Rightarrow> unit eng" where
  "launch_on_failure_agent fuel w k i c f =
     ebind (eget (\<lambda>e. (remediation_agent_name e c, remediation_model e c))) (\<lambda>(name, model).
       case agent_name_new name of
         Inl _ \<Rightarrow> eret ()
       | Inr agent \<Rightarrow>
           ebind (prepare_phase_failure_file w k i f) (\<lambda>artifacts.
             case substitute_prompt (pw_fuel w) (rem_prompt c) (pw_work_item w) of
               None \<Rightarrow> ewait
             | Some s \<Rightarrow>
                 (let prompt = (case artifacts of
                                  Some a \<Rightarrow> prepend_preamble k a (sub_rendered s) | None \<Rightarrow> sub_rendered s)
                  in ignoring (run_remediation_agent fuel w k i (''on_failure: '' @ pf_step_name f) agent model prompt))))"

subsection \<open>Repairing a step\<close>

definition fix_command :: "phase_world \<Rightarrow> phase_kind \<Rightarrow> string list \<Rightarrow> nat \<times> phase_step \<Rightarrow> shell_command option" where
  "fix_command w k failed_jobs istep =
     (case istep of (i, step) \<Rightarrow>
        step_to_shell_with (case step_for_ci_fix failed_jobs step of Some s \<Rightarrow> s | None \<Rightarrow> step)
          (step_command_options_for w k i))"

text \<open>The first earlier step that fails ends it, with a warning only.\<close>

primrec republish_ci_fix ::
  "phase_world \<Rightarrow> phase_kind \<Rightarrow> string list \<Rightarrow> (nat \<times> phase_step) list \<Rightarrow> unit eng" where
  "republish_ci_fix w k failed_jobs [] = eret ()"
| "republish_ci_fix w k failed_jobs (s # ss) =
     (case fix_command w k failed_jobs s of
        None \<Rightarrow> ewait
      | Some cmd \<Rightarrow>
          ebind (eget (\<lambda>e. pss_description (phase_state e k (fst s)))) (\<lambda>desc.
          ebind (observe (\<lambda>t. pw_container w t (k, fst s, desc))) (\<lambda>c.
            case c of
              Inl _ \<Rightarrow> eret ()
            | Inr _ \<Rightarrow>
                ebind (exec_streaming w k (fst s) cmd) (\<lambda>r.
                  case r of
                    Inr x \<Rightarrow> if xo_exit_code x = 0 then republish_ci_fix w k failed_jobs ss else eret ()
                  | Inl _ \<Rightarrow> eret ()))))"

primrec remediation_loop ::
  "nat \<Rightarrow> phase_world \<Rightarrow> phase_kind \<Rightarrow> remediation_config \<Rightarrow> phase_step \<Rightarrow> nat \<Rightarrow> string
     \<Rightarrow> (nat \<times> phase_step) list \<Rightarrow> nat \<Rightarrow> phase_step_outcome \<Rightarrow> phase_step_outcome eng" where
  "remediation_loop fuel w k c step i desc republish 0 prev = eret prev"
| "remediation_loop fuel w k c step i desc republish (Suc left) prev =
     (let attempt = rem_max_attempts c - left in
      ebind (cancel_requested (pw_world w)) (\<lambda>cancelled.
      if cancelled then eret prev
      else
        ebind (eseq [set_phase_status k i (PhaseRemediating attempt (rem_max_attempts c)),
                     persist_or_log (pw_world w),
                     tell k i (Ph_fixing desc attempt (rem_max_attempts c)),
                     launch_on_failure_agent fuel w k i c
                       \<lparr>pf_step_name = desc, pf_stdout = po_stdout prev, pf_stderr = po_stderr prev\<rparr>]) (\<lambda>_.
        ebind (cancel_requested (pw_world w)) (\<lambda>cancelled.
        if cancelled
        then ebind (set_phase_step_failed w k i ''cancelled during on_failure remediation'') (\<lambda>_. eret prev)
        else
          ebind (eseq [if republish \<noteq> [] then republish_ci_fix w k (po_ci_failed_jobs prev) republish else eret (),
                       set_phase_status k i PhaseRunning,
                       persist_or_log (pw_world w)]) (\<lambda>_.
          ebind (run_single_phase_step w k i step) (\<lambda>r.
            if \<not> po_failed r then eret r
            else remediation_loop fuel w k c step i desc republish left r))))))"

definition run_phase_remediation ::
  "nat \<Rightarrow> phase_world \<Rightarrow> phase_kind \<Rightarrow> remediation_config \<Rightarrow> phase_step \<Rightarrow> nat \<Rightarrow> phase_step_outcome
     \<Rightarrow> (nat \<times> phase_step) list \<Rightarrow> phase_step_outcome eng" where
  "run_phase_remediation fuel w k c step i failure republish =
     ebind (eget (\<lambda>e. pss_description (phase_state e k i))) (\<lambda>desc.
       remediation_loop fuel w k c step i desc republish (rem_max_attempts c) failure)"

subsection \<open>The runner\<close>

record phase_outcome =
  pho_aborted :: bool
  pho_any_failed :: bool
  pho_cancelled :: bool

definition nothing_happened :: phase_outcome where
  "nothing_happened = \<lparr>pho_aborted = False, pho_any_failed = False, pho_cancelled = False\<rparr>"

record phase_run_options =
  pro_resume :: bool
  pro_skip :: "bool list"
  pro_allow_remediation :: bool
  pro_observe_cancel :: bool

text \<open>What a phase is run with: its steps after substitution, the abort flags and the repairs.\<close>

record phase_plan =
  pp_kind :: phase_kind
  pp_steps :: "phase_step list"
  pp_aborts :: "bool list"
  pp_on_failure :: "remediation_config option list"
  pp_options :: phase_run_options

definition nth_or :: "'a \<Rightarrow> 'a list \<Rightarrow> nat \<Rightarrow> 'a" where
  "nth_or d xs i = (if i < length xs then xs ! i else d)"

fun phase_status_settled :: "phase_step_status \<Rightarrow> bool" where
  "phase_status_settled PhaseSucceeded = True"
| "phase_status_settled PhaseSkipped = True"
| "phase_status_settled (PhaseFailed _) = True"
| "phase_status_settled _ = False"

definition republished_before :: "phase_step list \<Rightarrow> nat \<Rightarrow> (nat \<times> phase_step) list" where
  "republished_before steps i = filter (\<lambda>(j, s). step_republishes_ci_fix s) (zip [0..<i] (take i steps))"

text \<open>Running the command of a step, and its repair when it failed and there is one.\<close>

definition run_or_repair :: "nat \<Rightarrow> phase_world \<Rightarrow> phase_plan \<Rightarrow> nat \<Rightarrow> phase_step \<Rightarrow> phase_step_outcome eng" where
  "run_or_repair fuel w p i step =
     ebind (run_single_phase_step w (pp_kind p) i step) (\<lambda>r.
     ebind (eand (po_failed r \<and> pro_allow_remediation (pp_options p))
              (ebind (cancel_requested (pw_world w)) (\<lambda>c. eret (\<not> c)))) (\<lambda>repair.
       if \<not> repair then eret r
       else (case nth_or None (pp_on_failure p) i of
               None \<Rightarrow> eret r
             | Some c \<Rightarrow> run_phase_remediation fuel w (pp_kind p) c step i r
                 (if step_poll_ci step \<noteq> None then republished_before (pp_steps p) i else []))))"

datatype turn_result = PhaseNext phase_outcome | PhaseBreak phase_outcome

definition settle_step ::
  "phase_world \<Rightarrow> phase_plan \<Rightarrow> nat \<Rightarrow> string \<Rightarrow> phase_outcome \<Rightarrow> phase_step_outcome \<Rightarrow> turn_result eng" where
  "settle_step w p i desc out r =
     (let k = pp_kind p in
      if \<not> po_failed r
      then ebind (eseq [set_phase_status k i PhaseSucceeded, persist (pw_world w), tell k i (Ph_completed desc)])
             (\<lambda>_. eret (PhaseNext out))
      else
        ebind (eget (\<lambda>e. phase_step_failed_error e k i)) (\<lambda>error.
        ebind (tell k i (Ph_failed desc (reported_exit_code r) error)) (\<lambda>_.
          if nth_or False (pp_aborts p) i
          then ebind (if k = SetupKind then emod (\<lambda>e. e\<lparr>en_abort_triggered := True\<rparr>) else eret ())
                 (\<lambda>_. eret (PhaseBreak (out\<lparr>pho_any_failed := True, pho_aborted := True\<rparr>)))
          else eret (PhaseNext (out\<lparr>pho_any_failed := True\<rparr>)))))"

definition start_step ::
  "nat \<Rightarrow> phase_world \<Rightarrow> phase_plan \<Rightarrow> nat \<Rightarrow> phase_step \<Rightarrow> string \<Rightarrow> phase_outcome \<Rightarrow> turn_result eng" where
  "start_step fuel w p i step desc out =
     (let k = pp_kind p in
      ebind (eseq [set_phase_status k i PhaseRunning, persist (pw_world w), tell k i (Ph_started desc)]) (\<lambda>_.
      ebind (run_or_repair fuel w p i step) (\<lambda>r.
      ebind (eand (po_failed r \<and> pro_observe_cancel (pp_options p)) (cancel_requested (pw_world w))) (\<lambda>cancelled.
        if cancelled then eret (PhaseBreak (out\<lparr>pho_cancelled := True\<rparr>))
        else settle_step w p i desc out r))))"

definition skip_step :: "phase_world \<Rightarrow> phase_plan \<Rightarrow> nat \<Rightarrow> string \<Rightarrow> phase_outcome \<Rightarrow> turn_result eng" where
  "skip_step w p i desc out =
     ebind (eseq [set_phase_status (pp_kind p) i PhaseSkipped, persist (pw_world w),
                  tell (pp_kind p) i (Ph_skipped desc)]) (\<lambda>_. eret (PhaseNext out))"

text \<open>One turn of the loop over the steps.\<close>

definition phase_turn :: "nat \<Rightarrow> phase_world \<Rightarrow> phase_plan \<Rightarrow> nat \<Rightarrow> phase_step \<Rightarrow> phase_outcome \<Rightarrow> turn_result eng" where
  "phase_turn fuel w p i step out =
     (let k = pp_kind p; opt = pp_options p in
      ebind (eget (\<lambda>e. phase_state e k i)) (\<lambda>s.
      if pro_resume opt \<and> phase_status_settled (pss_status s) then eret (PhaseNext out)
      else
        ebind (eand (pro_observe_cancel opt) (cancel_requested (pw_world w))) (\<lambda>stop.
        if stop then eret (PhaseBreak (out\<lparr>pho_cancelled := True\<rparr>))
        else
          ebind (eand (k = TeardownKind) (cancel_requested (pw_world w))) (\<lambda>cancelled_teardown.
          let out = (if cancelled_teardown then out\<lparr>pho_cancelled := True\<rparr> else out) in
          if nth_or False (pro_skip opt) i \<or> (cancelled_teardown \<and> step_publishes step)
          then skip_step w p i (pss_description s) out
          else start_step fuel w p i step (pss_description s) out))))"

primrec phase_loop ::
  "nat \<Rightarrow> phase_world \<Rightarrow> phase_plan \<Rightarrow> nat \<Rightarrow> phase_step list \<Rightarrow> phase_outcome \<Rightarrow> phase_outcome eng" where
  "phase_loop fuel w p i [] out = eret out"
| "phase_loop fuel w p i (step # steps) out =
     ebind (phase_turn fuel w p i step out) (\<lambda>r. case r of
       PhaseNext out \<Rightarrow> phase_loop fuel w p (Suc i) steps out
     | PhaseBreak out \<Rightarrow> eret out)"

definition finish_phase :: "phase_world \<Rightarrow> phase_kind \<Rightarrow> phase_outcome \<Rightarrow> phase_outcome eng" where
  "finish_phase w k out =
     ebind (eand (k = TeardownKind) (cancel_requested (pw_world w))) (\<lambda>late.
     let out = (if late then out\<lparr>pho_cancelled := True\<rparr> else out) in
     ebind (eseq [if \<not> (pho_aborted out \<or> pho_cancelled out) \<or> k = TeardownKind
                  then mod_state (\<lambda>st. (set_phase_completed k st)\<lparr>current_phase := phase_next_workflow_phase k\<rparr>)
                  else eret (),
                  persist (pw_world w)]) (\<lambda>_. eret out))"

definition enter_phase :: "phase_world \<Rightarrow> phase_plan \<Rightarrow> unit eng" where
  "enter_phase w p =
     eseq [mod_state (\<lambda>st. st\<lparr>current_phase := phase_workflow_phase (pp_kind p)\<rparr>),
           if pro_resume (pp_options p) then refresh_phase_states (pp_kind p) (pp_steps p)
           else reset_or_rebuild_phase_states (pp_kind p) (pp_steps p),
           persist (pw_world w)]"

definition run_plan :: "nat \<Rightarrow> phase_world \<Rightarrow> phase_plan \<Rightarrow> phase_outcome eng" where
  "run_plan fuel w p =
     ebind (enter_phase w p) (\<lambda>_.
     ebind (phase_loop fuel w p 0 (pp_steps p) nothing_happened) (finish_phase w (pp_kind p)))"

definition run_phase_with ::
  "nat \<Rightarrow> phase_world \<Rightarrow> phase_kind \<Rightarrow> phase_step list \<Rightarrow> bool list \<Rightarrow> remediation_config option list
     \<Rightarrow> phase_run_options \<Rightarrow> phase_outcome eng" where
  "run_phase_with fuel w k steps aborts on_failure opt =
     ebind (substituted w steps) (\<lambda>ss.
       run_plan fuel w \<lparr>pp_kind = k, pp_steps = ss, pp_aborts = aborts, pp_on_failure = on_failure, pp_options = opt\<rparr>)"

definition run_phase ::
  "nat \<Rightarrow> phase_world \<Rightarrow> phase_kind \<Rightarrow> phase_step list \<Rightarrow> bool list \<Rightarrow> remediation_config option list
     \<Rightarrow> phase_outcome eng" where
  "run_phase fuel w k steps aborts on_failure =
     run_phase_with fuel w k steps aborts on_failure
       \<lparr>pro_resume = False, pro_skip = [], pro_allow_remediation = True, pro_observe_cancel = (k = SetupKind)\<rparr>"

definition cancelled_options :: "bool \<Rightarrow> teardown_step list \<Rightarrow> phase_run_options" where
  "cancelled_options resume steps =
     \<lparr>pro_resume = resume, pro_skip = map (\<lambda>s. \<not> teardown_step_runs_when_cancelled s) steps,
      pro_allow_remediation = False, pro_observe_cancel = False\<rparr>"

definition run_teardown_cancelled ::
  "nat \<Rightarrow> phase_world \<Rightarrow> teardown_step list \<Rightarrow> bool list \<Rightarrow> phase_outcome eng" where
  "run_teardown_cancelled fuel w steps aborts =
     ebind (run_phase_with fuel w TeardownKind (map Teardown steps) aborts [] (cancelled_options False steps))
       (\<lambda>out. eret (out\<lparr>pho_cancelled := True\<rparr>))"

definition resume_teardown_cancelled ::
  "nat \<Rightarrow> phase_world \<Rightarrow> teardown_step list \<Rightarrow> bool list \<Rightarrow> phase_outcome eng" where
  "resume_teardown_cancelled fuel w steps aborts =
     run_phase_with fuel w TeardownKind (map Teardown steps) aborts [] (cancelled_options True steps)"

definition teardown_applies :: "bool \<Rightarrow> bool \<Rightarrow> bool" where
  "teardown_applies workflow_succeeded teardown_on_failure \<longleftrightarrow> workflow_succeeded \<or> teardown_on_failure"

end
