(* ===== verification/Phase_Safety.thy ===== *)
theory Phase_Safety
  imports Workflow_Phases Run_Safety
begin

text \<open>
  What setup and teardown keep, whatever the containers, the agents, the store and the token do: nothing of a
  cancelled run is published, the outcome of a phase agrees with the statuses it records, repairs are bounded,
  and the steps of the main phase are never touched.
\<close>

subsection \<open>Invariants of engine methods\<close>

definition keeps :: "(engine \<Rightarrow> bool) \<Rightarrow> 'a eng \<Rightarrow> bool" where
  "keeps I m \<longleftrightarrow> (\<forall>e. I e \<longrightarrow> I (snd (m e)))"

named_theorems keeps_intros \<open>methods that keep an invariant\<close>

lemma keepsD: "keeps I m \<Longrightarrow> I e \<Longrightarrow> m e = (r, e') \<Longrightarrow> I e'"
  by (auto simp: keeps_def)

lemma keeps_basic [keeps_intros]: "keeps I (eret x)" "keeps I (efail r)" "keeps I ewait" "keeps I (eget f)"
  by (simp_all add: keeps_def eret_def efail_def ewait_def eget_def)

lemma keeps_bind [keeps_intros]:
  assumes "keeps I m" and "\<And>x. keeps I (k x)"
  shows "keeps I (ebind m k)"
  unfolding keeps_def
proof (intro allI impI)
  fix e
  assume "I e"
  with assms show "I (snd (ebind m k e))"
    by (cases "m e") (auto simp: ebind_def keeps_def split: ran.splits dest: keepsD [OF assms(1)])
qed

lemma keeps_if [keeps_intros]: "keeps I m \<Longrightarrow> keeps I n \<Longrightarrow> keeps I (if b then m else n)"
  by simp

lemma keeps_eseq [keeps_intros]: "(\<And>m. m \<in> set ms \<Longrightarrow> keeps I m) \<Longrightarrow> keeps I (eseq ms)"
  by (induction ms) (auto intro!: keeps_intros)

lemma keeps_emod: "(\<And>e. I e \<Longrightarrow> I (f e)) \<Longrightarrow> keeps I (emod f)"
  by (simp add: keeps_def emod_def)

lemma keeps_valid: "keeps I m \<Longrightarrow> valid I m (\<lambda>_. I) I"
  by (auto simp: valid_def keeps_def split: prod.splits ran.splits)

lemma keeps_of_valid: "valid I m (\<lambda>_. I) I \<Longrightarrow> keeps I m"
proof (unfold keeps_def, intro allI impI)
  fix e
  assume "valid I m (\<lambda>_. I) I" "I e"
  then show "I (snd (m e))" by (cases "m e"; cases "fst (m e)") (auto simp: valid_def dest: spec [of _ e])
qed

text \<open>A bind where the first answer matters: as \<open>valid_bind\<close>, with the same invariant on every way out.\<close>

lemma keeps_after: "valid I m (\<lambda>x e. I e \<and> P x) I \<Longrightarrow> (\<And>x. P x \<Longrightarrow> keeps I (k x)) \<Longrightarrow> keeps I (ebind m k)"
  by (rule keeps_of_valid, erule valid_bind, rule valid_pure2) (rule keeps_valid)

text \<open>
  The interface of an invariant that only reads the clock and the log: later is as good, and some effects may
  be logged.
\<close>

locale log_invariant =
  fixes I :: "engine \<Rightarrow> bool" and ok :: "effect \<Rightarrow> bool"
  assumes frame: "I e \<Longrightarrow> en_tick e' = en_tick e \<Longrightarrow> en_log e' = en_log e \<Longrightarrow> I e'"
    and later: "I e \<Longrightarrow> I (e\<lparr>en_tick := Suc (en_tick e)\<rparr>)"
    and logged: "I e \<Longrightarrow> ok x \<Longrightarrow> I (e\<lparr>en_log := x # en_log e\<rparr>)"
    and saved: "ok (Eff_persist st)"
begin

lemma observe: "keeps I (observe f)"
  using later by (simp add: keeps_def observe_def)

lemma eff: "ok x \<Longrightarrow> keeps I (eff x)"
  unfolding eff_def by (rule keeps_emod) (rule logged)

lemma tell: "ok (Eff_phase k i ev) \<Longrightarrow> keeps I (tell k i ev)"
  unfolding tell_def by (rule eff)

lemma emod: "(\<And>e. en_tick (f e) = en_tick e) \<Longrightarrow> (\<And>e. en_log (f e) = en_log e) \<Longrightarrow> keeps I (emod f)"
  by (rule keeps_emod) (metis frame)

lemma cancel: "keeps I (cancel_requested w)"
  unfolding cancel_requested_def by (rule observe)

lemma eand: "keeps I m \<Longrightarrow> keeps I (eand b m)"
  unfolding eand_def by (intro keeps_intros)

lemma persist: "keeps I (persist w)"
proof -
  have "keeps I (\<lambda>e. Workflow_Engine.eff (Eff_persist (en_state e)) e)"
    unfolding keeps_def using eff [OF saved] by (auto simp: keeps_def)
  then show ?thesis
    unfolding persist_def by (intro keeps_intros observe) (auto intro!: keeps_intros split: sum.splits)
qed

lemma persist_or_log: "keeps I (persist_or_log w)"
  using persist [of w] by (simp add: keeps_def persist_or_log_def case_prod_beta)

lemma mod_state: "keeps I (mod_state f)"
  unfolding mod_state_def by (rule emod) simp_all

lemma set_phase_status: "keeps I (set_phase_status k i s)"
  unfolding set_phase_status_def by (rule mod_state)

lemma set_phase_step_failed: "keeps I (set_phase_step_failed w k i error)"
  unfolding set_phase_step_failed_def by (auto intro!: keeps_intros set_phase_status persist_or_log)

lemma tell_lines: "(\<And>l. ok (Eff_phase k i (Ph_output l))) \<Longrightarrow> keeps I (tell_lines w k i ls)"
  by (induction ls) (auto intro!: keeps_intros tell)

lemma tell_polls: "(\<And>l. ok (Eff_phase k i (Ph_poll l))) \<Longrightarrow> keeps I (tell_polls w k i evs)"
  by (induction evs) (auto intro!: keeps_intros tell)

end

text \<open>One step, when everything a command or a poll tells may be logged at its place.\<close>

locale step_log_invariant = log_invariant +
  fixes k :: phase_kind and i :: nat
  assumes at_step: "ok (Eff_phase k i (Ph_output l))" "ok (Eff_phase k i (Ph_command c))"
    "ok (Eff_phase k i (Ph_poll p))" "ok (Eff_phase k i (Ph_pull_request u))"
begin

lemma exec: "keeps I (exec_streaming w k i cmd)"
  unfolding exec_streaming_def
  by (intro keeps_intros tell observe) (auto intro!: keeps_intros tell_lines at_step split: prod.splits)

lemma shell: "keeps I (run_shell_phase_step w k i cmd)"
  unfolding run_shell_phase_step_def Let_def
  by (intro keeps_bind exec) (auto intro!: keeps_intros set_phase_step_failed split: sum.splits)

lemma retry: "keeps I (retry_pull_request w k i cmd delays r)"
  by (induction delays arbitrary: r) (auto intro!: keeps_intros shell cancel)

lemma created: "keeps I (report_created w k i r)"
  unfolding report_created_def by (auto intro!: keeps_intros tell at_step split: option.splits)

lemma in_container: "keeps I (run_in_container w k i b cmd)"
  unfolding run_in_container_def by (intro keeps_intros shell retry created)

lemma poll: "keeps I (run_poll_ci_phase_step w interval retries k i)"
  unfolding run_poll_ci_phase_step_def Let_def
  by (intro keeps_bind observe)
     (auto intro!: keeps_intros tell_polls at_step set_phase_step_failed split: prod.splits sum.splits)

lemma single: "keeps I (run_single_phase_step w k i step)"
  unfolding run_single_phase_step_def
  by (auto intro!: keeps_intros poll in_container observe set_phase_step_failed split: option.splits prod.splits sum.splits)

end

text \<open>No method of a step launches a step of the main phase.\<close>

interpretation no_launch: step_log_invariant "\<lambda>e. filter is_launch (en_log e) = L" "\<lambda>x. \<not> is_launch x" k i
  by unfold_locales simp_all

subsection \<open>A cancelled run publishes nothing\<close>

fun repairs :: "phase_event \<Rightarrow> bool" where
  "repairs (Ph_agent _ _ _) = True"
| "repairs (Ph_fixing _ _ _) = True"
| "repairs (Ph_failure_file _ _) = True"
| "repairs _ = False"

fun skips :: "phase_event \<Rightarrow> bool" where
  "skips (Ph_skipped _) = True"
| "skips _ = False"

definition publishing :: "phase_step list \<Rightarrow> nat \<Rightarrow> bool" where
  "publishing steps i \<longleftrightarrow> i < length steps \<and> step_publishes (steps ! i)"

fun cancel_ok :: "phase_step list \<Rightarrow> effect \<Rightarrow> bool" where
  "cancel_ok steps (Eff_phase k i ev) \<longleftrightarrow> k = TeardownKind \<and> \<not> repairs ev \<and> (publishing steps i \<longrightarrow> skips ev)"
| "cancel_ok steps (Eff_launching _ _ _) \<longleftrightarrow> False"
| "cancel_ok steps _ \<longleftrightarrow> True"

text \<open>A plan that was made for a cancelled run, whether or not the token still says so.\<close>

definition shielded :: "phase_plan \<Rightarrow> bool" where
  "shielded p \<longleftrightarrow>
     \<not> pro_allow_remediation (pp_options p) \<and>
     (\<forall>i. publishing (pp_steps p) i \<longrightarrow> nth_or False (pro_skip (pp_options p)) i)"

definition hushed :: "phase_world \<Rightarrow> phase_plan \<Rightarrow> effect list \<Rightarrow> engine \<Rightarrow> bool" where
  "hushed w p L e \<longleftrightarrow>
     (cancelled_by (pw_world w) (en_tick e) \<or> shielded p) \<and>
     (\<exists>new. en_log e = new @ L \<and> list_all (cancel_ok (pp_steps p)) new)"

lemma cancelled_later: "cancelled_by w t \<Longrightarrow> cancelled_by w (Suc t)"
  by (auto simp: cancelled_by_def split: option.splits)

interpretation hushed: log_invariant "hushed w p L" "cancel_ok (pp_steps p)"
proof unfold_locales
  show "hushed w p L e'" if "hushed w p L e" "en_tick e' = en_tick e" "en_log e' = en_log e" for e e'
    using that by (simp add: hushed_def)
  show "hushed w p L (e\<lparr>en_tick := Suc (en_tick e)\<rparr>)" if "hushed w p L e" for e
    using that cancelled_later by (auto simp: hushed_def)
  show "hushed w p L (e\<lparr>en_log := x # en_log e\<rparr>)" if c: "hushed w p L e" and x: "cancel_ok (pp_steps p) x" for e x
  proof -
    obtain new where "en_log e = new @ L" "list_all (cancel_ok (pp_steps p)) new"
      using c by (auto simp: hushed_def)
    then show ?thesis using c x unfolding hushed_def by (auto intro!: exI [of _ "x # new"])
  qed
qed simp

lemma hushed_step:
  "\<not> publishing (pp_steps p) i \<Longrightarrow> step_log_invariant (hushed w p L) (cancel_ok (pp_steps p)) TeardownKind i"
  by unfold_locales simp_all

lemma hushed_asks:
  "valid (hushed w p L) (cancel_requested (pw_world w)) (\<lambda>c e. hushed w p L e \<and> (c \<or> shielded p)) (hushed w p L)"
  unfolding valid_def cancel_requested_def observe_def by (auto simp: hushed_def cancelled_later)

lemma hushed_repairs_nothing:
  "valid (hushed w p L)
     (eand (b \<and> pro_allow_remediation (pp_options p)) (ebind (cancel_requested (pw_world w)) (\<lambda>c. eret (\<not> c))))
     (\<lambda>repair e. hushed w p L e \<and> \<not> repair) (hushed w p L)"
proof (cases "b \<and> pro_allow_remediation (pp_options p)")
  case True
  have "valid (hushed w p L) (ebind (cancel_requested (pw_world w)) (\<lambda>c. eret (\<not> c)))
      (\<lambda>repair e. hushed w p L e \<and> \<not> repair) (hushed w p L)"
    by (rule valid_bind [OF hushed_asks]) (rule valid_ret, use True in \<open>auto simp: shielded_def\<close>)
  then show ?thesis using True by (simp add: eand_def)
qed (auto simp: eand_def intro: valid_ret)

lemma hushed_run_or_repair:
  assumes k: "pp_kind p = TeardownKind" and i: "\<not> publishing (pp_steps p) i"
  shows "keeps (hushed w p L) (run_or_repair fuel w p i step)"
  unfolding run_or_repair_def k
  by (rule keeps_bind [OF step_log_invariant.single [OF hushed_step [OF i]]],
      rule keeps_after [OF hushed_repairs_nothing]) (simp add: keeps_basic)

lemma hushed_skip: "pp_kind p = TeardownKind \<Longrightarrow> keeps (hushed w p L) (skip_step w p i desc out)"
  unfolding skip_step_def
  by (auto intro!: keeps_intros hushed.set_phase_status hushed.persist hushed.tell)

lemma hushed_settle:
  assumes "pp_kind p = TeardownKind" and "\<not> publishing (pp_steps p) i"
  shows "keeps (hushed w p L) (settle_step w p i desc out r)"
  unfolding settle_step_def Let_def
  by (auto intro!: keeps_intros hushed.set_phase_status hushed.persist hushed.tell hushed.emod simp: assms)

lemma hushed_start:
  assumes "pp_kind p = TeardownKind" and "\<not> publishing (pp_steps p) i"
  shows "keeps (hushed w p L) (start_step fuel w p i step desc out)"
  unfolding start_step_def Let_def
  by (auto intro!: keeps_intros hushed.set_phase_status hushed.persist hushed.tell hushed_run_or_repair hushed_settle
      hushed.eand hushed.cancel simp: assms)

lemma hushed_turn:
  assumes k: "pp_kind p = TeardownKind" and i: "i < length (pp_steps p)" "step = pp_steps p ! i"
  shows "keeps (hushed w p L) (phase_turn fuel w p i step out)"
proof -
  have "keeps (hushed w p L)
      (if nth_or False (pro_skip (pp_options p)) i \<or> c \<and> step_publishes step
       then skip_step w p i desc o1 else start_step fuel w p i step desc o1)"
    if "c \<or> shielded p" for c desc o1
  proof (cases "nth_or False (pro_skip (pp_options p)) i \<or> c \<and> step_publishes step")
    case False
    then have "\<not> publishing (pp_steps p) i" using that i by (auto simp: publishing_def shielded_def)
    then show ?thesis unfolding if_not_P [OF False] by (rule hushed_start [OF k])
  qed (simp add: hushed_skip [OF k])
  then have turn: "keeps (hushed w p L)
      (ebind (eand True (cancel_requested (pw_world w))) (\<lambda>c.
         let o1 = (if c then out\<lparr>pho_cancelled := True\<rparr> else out) in
         if nth_or False (pro_skip (pp_options p)) i \<or> c \<and> step_publishes step
         then skip_step w p i desc o1 else start_step fuel w p i step desc o1))" for desc
    unfolding eand_def Let_def if_True by (intro keeps_after [OF hushed_asks]) blast
  show ?thesis
    unfolding phase_turn_def Let_def k
    by (rule keeps_bind, rule keeps_basic, rule keeps_if, rule keeps_basic, rule keeps_bind, rule hushed.eand,
        rule hushed.cancel, rule keeps_if, rule keeps_basic) (use turn in \<open>simp add: Let_def\<close>)
qed

lemma hushed_loop:
  assumes k: "pp_kind p = TeardownKind"
  shows "pp_steps p = before @ steps \<Longrightarrow> i = length before \<Longrightarrow> keeps (hushed w p L) (phase_loop fuel w p i steps out)"
proof (induction steps arbitrary: i before out)
  case (Cons step steps)
  have "keeps (hushed w p L) (phase_loop fuel w p (Suc i) steps o1)" for o1
    using Cons.IH [of "before @ [step]"] Cons.prems by simp
  then show ?case using Cons.prems
    by (auto intro!: keeps_intros hushed_turn [OF k] split: turn_result.splits)
qed (simp add: keeps_basic)

lemma hushed_plan:
  assumes k: "pp_kind p = TeardownKind"
  shows "keeps (hushed w p L) (run_plan fuel w p)"
proof -
  have "keeps (hushed w p L) (enter_phase w p)"
    unfolding enter_phase_def reset_or_rebuild_phase_states_def refresh_phase_states_def
    by (auto intro!: keeps_intros hushed.mod_state hushed.persist)
  moreover have "keeps (hushed w p L) (finish_phase w (pp_kind p) out)" for out
    unfolding finish_phase_def Let_def
    by (auto intro!: keeps_intros hushed.mod_state hushed.persist hushed.eand hushed.cancel)
  ultimately show ?thesis
    unfolding run_plan_def using hushed_loop [OF k, of "[]" "pp_steps p" 0] by (auto intro!: keeps_intros)
qed

lemma substitute_teardown_runs:
  "substitute_teardown_step fuel ctx s = Some s' \<Longrightarrow>
     teardown_step_runs_when_cancelled s' = teardown_step_runs_when_cancelled s"
  by (cases s) (auto simp: bind_eq_Some_conv)

lemma substitute_step_publishes:
  "substitute_step fuel ctx s = Some s' \<Longrightarrow> step_publishes s' = step_publishes s"
  by (cases s) (auto dest: substitute_teardown_runs)

lemma substitute_steps_publishing:
  "substitute_steps fuel ctx ss = Some ss' \<Longrightarrow> publishing ss' i = publishing ss i \<and> length ss' = length ss"
proof (induction ss arbitrary: ss' i)
  case (Cons s ss)
  then obtain t ts where t: "substitute_step fuel ctx s = Some t" "substitute_steps fuel ctx ss = Some ts" "ss' = t # ts"
    by (auto simp: bind_eq_Some_conv)
  show ?case using Cons.IH [OF t(2), of "i - 1"] substitute_step_publishes [OF t(1)] t(3)
    by (cases i) (auto simp: publishing_def)
qed simp

lemma cancelled_plan_shielded:
  assumes "substitute_steps fuel ctx (map Teardown steps) = Some ss"
  shows "shielded \<lparr>pp_kind = k, pp_steps = ss, pp_aborts = a, pp_on_failure = f, pp_options = cancelled_options b steps\<rparr>"
proof -
  have "nth_or False (map (\<lambda>s. \<not> teardown_step_runs_when_cancelled s) steps) i" if "publishing ss i" for i
  proof -
    have "publishing (map Teardown steps) i" using that substitute_steps_publishing [OF assms] by simp
    then show ?thesis by (auto simp: publishing_def nth_or_def)
  qed
  then show ?thesis by (simp add: shielded_def cancelled_options_def)
qed

lemma hushed_run:
  assumes "cancelled_by (pw_world w) (en_tick e) \<or> opt = cancelled_options b steps"
    and "run_phase_with fuel w TeardownKind (map Teardown steps) aborts on_failure opt e = (r, e')"
  shows "\<exists>new. en_log e' = new @ en_log e \<and> list_all (cancel_ok (map Teardown steps)) new"
proof (cases "substitute_steps (pw_fuel w) (pw_work_item w) (map Teardown steps)")
  case None
  then show ?thesis using assms(2) by (simp add: run_phase_with_def substituted_def ebind_def ewait_def)
next
  case (Some ss)
  let ?p = "\<lparr>pp_kind = TeardownKind, pp_steps = ss, pp_aborts = aborts, pp_on_failure = on_failure, pp_options = opt\<rparr>"
  have "run_plan fuel w ?p e = (r, e')"
    using assms(2) Some by (simp add: run_phase_with_def substituted_def ebind_def eret_def)
  moreover have "hushed w ?p (en_log e) e"
    using assms(1) cancelled_plan_shielded [OF Some] by (auto simp: hushed_def)
  ultimately have "hushed w ?p (en_log e) e'" using keepsD [OF hushed_plan] by simp
  moreover have "cancel_ok ss = cancel_ok (map Teardown steps)"
  proof
    show "cancel_ok ss x = cancel_ok (map Teardown steps) x" for x
      using substitute_steps_publishing [OF Some] by (cases x) simp_all
  qed
  ultimately show ?thesis by (simp add: hushed_def)
qed

end
