(* ===== verification/Phase_Outcome.thy ===== *)
theory Phase_Outcome
  imports Phase_Safety
begin

text \<open>What the outcome of a phase says of the statuses it records, and how often a step is repaired.\<close>

subsection \<open>The statuses of a phase\<close>

definition rows :: "phase_kind \<Rightarrow> engine \<Rightarrow> phase_step_status list" where
  "rows k e = map pss_status (phase_step_states (en_state e) k)"

definition marks :: "engine \<Rightarrow> workflow_phase \<times> bool \<times> bool" where
  "marks e = (current_phase (en_state e), setup_completed (en_state e), teardown_completed (en_state e))"

fun is_phase_failed :: "phase_step_status \<Rightarrow> bool" where
  "is_phase_failed (PhaseFailed _) = True"
| "is_phase_failed _ = False"

text \<open>While step \<open>i\<close> is run, nothing but its own status changes.\<close>

definition near :: "phase_kind \<Rightarrow> nat \<Rightarrow> phase_step_status list \<Rightarrow> workflow_phase \<times> bool \<times> bool \<Rightarrow> engine \<Rightarrow> bool" where
  "near k i xs c e \<longleftrightarrow> i < length xs \<and> marks e = c \<and> (\<exists>s. rows k e = xs[i := s])"

definition failed_at :: "phase_kind \<Rightarrow> nat \<Rightarrow> phase_step_status list \<Rightarrow> workflow_phase \<times> bool \<times> bool \<Rightarrow> engine \<Rightarrow> bool" where
  "failed_at k i xs c e \<longleftrightarrow> i < length xs \<and> marks e = c \<and> (\<exists>t. rows k e = xs[i := PhaseFailed t])"

lemma failed_near: "failed_at k i xs c e \<Longrightarrow> near k i xs c e"
  by (auto simp: near_def failed_at_def)

lemma rows_set [simp]:
  "phase_step_states (set_phase_step_states k ys st) k = ys"
  "current_phase (set_phase_step_states k ys st) = current_phase st"
  "setup_completed (set_phase_step_states k ys st) = setup_completed st"
  "teardown_completed (set_phase_step_states k ys st) = teardown_completed st"
  by (cases k; simp add: phase_step_states_def set_phase_step_states_def)+

interpretation near: core_predicate "near k i xs c"
  by unfold_locales (simp add: near_def rows_def marks_def core_def)

interpretation failed_at: core_predicate "failed_at k i xs c"
  by unfold_locales (simp add: failed_at_def rows_def marks_def core_def)

lemma rows_status:
  "rows k (snd (set_phase_status k i s e)) = (rows k e)[i := s]" "marks (snd (set_phase_status k i s e)) = marks e"
  by (simp_all add: set_phase_status_def mod_state_def emod_def rows_def marks_def map_update)

lemma near_status: "near k i xs c e \<Longrightarrow> near k i xs c (snd (set_phase_status k i s e))"
  by (auto simp: near_def rows_status)

lemma keeps_near_status [keeps_intros]: "keeps (near k i xs c) (set_phase_status k i s)"
  by (simp add: keeps_def near_status)

lemma set_status_Ok: "fst (set_phase_status k i s e) = Ok ()"
  by (simp add: set_phase_status_def mod_state_def emod_def)

lemma near_failed_status:
  "valid (near k i xs c) (set_phase_status k i (PhaseFailed t)) (\<lambda>_. failed_at k i xs c) (near k i xs c)"
proof -
  have "failed_at k i xs c (snd (set_phase_status k i (PhaseFailed t) e))" if "near k i xs c e" for e
    using that by (auto simp: near_def failed_at_def rows_status)
  then show ?thesis unfolding valid_def
    by (metis (mono_tags, lifting) case_prod_conv prod.collapse ran.case(1) set_status_Ok)
qed

subsection \<open>Quiet methods of a phase\<close>

lemma quiet_tell [quiet_intros]: "quiet (tell k i ev)"
  unfolding tell_def by (intro quiet_intros) simp

lemma quiet_tell_lines [quiet_intros]: "quiet (tell_lines w k i ls)"
  by (induction ls) (auto intro!: quiet_intros)

lemma quiet_tell_polls [quiet_intros]: "quiet (tell_polls w k i evs)"
  by (induction evs) (auto intro!: quiet_intros)

lemma quiet_eand [quiet_intros]: "quiet m \<Longrightarrow> quiet (eand b m)"
  unfolding eand_def by (intro quiet_intros)

lemma quiet_exec_streaming [quiet_intros]: "quiet (exec_streaming w k i cmd)"
  unfolding exec_streaming_def by (intro quiet_intros) (auto intro!: quiet_intros split: prod.splits)

lemma quiet_report_created [quiet_intros]: "quiet (report_created w k i r)"
  unfolding report_created_def by (auto intro!: quiet_intros split: option.splits)

lemma quiet_failure_file [quiet_intros]: "quiet (prepare_phase_failure_file w k i f)"
  unfolding prepare_phase_failure_file_def Let_def
  by (intro quiet_intros) (auto intro!: quiet_intros split: option.splits)

lemma quiet_cancel_agent [quiet_intros]: "quiet (cancel_agent x)"
  unfolding cancel_agent_def by (auto intro!: quiet_intros split: option.splits)

lemma quiet_wait_agent [quiet_intros]: "quiet (wait_on_failure_agent fuel w label x)"
  by (induction fuel)
     (auto intro!: quiet_intros split: prod.splits step_event.splits mid_step_yolo.splits)

lemma quiet_remediation_agent [quiet_intros]: "quiet (run_remediation_agent fuel w k i l a m p)"
  unfolding run_remediation_agent_def by (intro quiet_intros)

lemma quiet_ignoring [quiet_intros]: "quiet m \<Longrightarrow> quiet (ignoring m)"
proof (rule quietI)
  fix e
  assume "quiet m"
  have "snd (ignoring m e) = snd (m e)" by (simp add: ignoring_def split: prod.splits ran.splits)
  then show "core (snd (ignoring m e)) = core e" using quiet_app [OF \<open>quiet m\<close>] by simp
qed

lemma quiet_launch_agent [quiet_intros]: "quiet (launch_on_failure_agent fuel w k i c f)"
  unfolding launch_on_failure_agent_def Let_def
  by (auto intro!: quiet_intros split: prod.splits sum.splits option.splits)

lemma quiet_republish [quiet_intros]: "quiet (republish_ci_fix w k jobs ss)"
  by (induction ss) (auto intro!: quiet_intros split: option.splits sum.splits)

subsection \<open>One step and its repair\<close>

definition stepped ::
  "phase_kind \<Rightarrow> nat \<Rightarrow> phase_step_status list \<Rightarrow> workflow_phase \<times> bool \<times> bool \<Rightarrow> phase_step_outcome \<Rightarrow> engine \<Rightarrow> bool" where
  "stepped k i xs c r e \<longleftrightarrow> near k i xs c e \<and> (po_failed r \<longrightarrow> failed_at k i xs c e)"

interpretation stepped: core_predicate "stepped k i xs c r"
  by unfold_locales (auto simp: stepped_def dest: near.core_only failed_at.core_only)

lemma stepped_near: "stepped k i xs c r e \<Longrightarrow> near k i xs c e"
  by (simp add: stepped_def)

lemmas near_first = valid_bind [OF near.quiet_keeps]
lemmas stepped_first = valid_bind [OF stepped.quiet_keeps]

lemma step_failed: "valid (near k i xs c) (set_phase_step_failed w k i t) (\<lambda>_. failed_at k i xs c) (near k i xs c)"
  unfolding set_phase_step_failed_def
  by (rule valid_seq_Cons [OF near_failed_status], rule valid_seq_Cons, rule failed_at.quiet_keeps,
      rule quiet_persist_or_log, erule failed_near, rule valid_seq_Nil)

lemma failed_ret:
  "valid (near k i xs c) (ebind (set_phase_step_failed w k i t) (\<lambda>_. eret r)) (stepped k i xs c) (near k i xs c)"
  by (rule valid_bind [OF step_failed], rule valid_ret) (simp add: stepped_def failed_near)

lemma fine_ret: "\<not> po_failed r \<Longrightarrow> valid (near k i xs c) (eret r) (stepped k i xs c) (near k i xs c)"
  by (rule valid_ret) (simp add: stepped_def)

lemma shell_stepped:
  "valid (near k i xs c) (run_shell_phase_step w k i cmd) (stepped k i xs c) (near k i xs c)"
  unfolding run_shell_phase_step_def Let_def
proof (rule near_first)
  show "quiet (exec_streaming w k i cmd)" by (rule quiet_exec_streaming)
  show "valid (near k i xs c) (case x of
      Inl error \<Rightarrow> ebind (set_phase_step_failed w k i (hide w error)) (\<lambda>_. eret (outcome_failed [] (hide w error)))
    | Inr x \<Rightarrow>
        if xo_exit_code x \<noteq> 0
        then ebind (set_phase_step_failed w k i (hide w (xo_stderr x)))
               (\<lambda>_. eret (outcome_exited (xo_exit_code x) (hide w (xo_stdout x)) (hide w (xo_stderr x))))
        else eret (outcome_succeeded\<lparr>po_stdout := hide w (xo_stdout x), po_stderr := hide w (xo_stderr x)\<rparr>))
    (stepped k i xs c) (near k i xs c)" for x
    by (cases x) (auto intro: failed_ret fine_ret simp: outcome_succeeded_def)
qed

lemma retry_stepped:
  "valid (stepped k i xs c r) (retry_pull_request w k i cmd delays r) (stepped k i xs c) (near k i xs c)"
proof (induction delays arbitrary: r)
  case (Cons d ds)
  have "valid (near k i xs c) (ebind (run_shell_phase_step w k i cmd) (retry_pull_request w k i cmd ds))
      (stepped k i xs c) (near k i xs c)"
    by (rule valid_bind [OF shell_stepped Cons.IH])
  then have go: "valid (stepped k i xs c r) (ebind (run_shell_phase_step w k i cmd) (retry_pull_request w k i cmd ds))
      (stepped k i xs c) (near k i xs c)"
    by (rule valid_pre) (rule stepped_near)
  show ?case unfolding retry_pull_request.simps
    by (rule stepped_first, intro quiet_intros, erule stepped_near, rule valid_if, rule valid_ret, assumption, rule go)
qed (auto intro: valid_ret)

lemma in_container_stepped:
  "valid (near k i xs c) (run_in_container w k i b cmd) (stepped k i xs c) (near k i xs c)"
proof -
  have "valid (stepped k i xs c r) (ebind (report_created w k i r) (\<lambda>_. eret r)) (stepped k i xs c) (near k i xs c)" for r
    by (rule stepped_first, rule quiet_report_created, erule stepped_near, rule valid_ret)
  then show ?thesis unfolding run_in_container_def
    by (intro valid_bind [OF shell_stepped] valid_if valid_bind [OF retry_stepped] valid_ret)
qed

lemma poll_stepped:
  "valid (near k i xs c) (run_poll_ci_phase_step w interval retries k i) (stepped k i xs c) (near k i xs c)"
proof -
  have "valid (near k i xs c) (ebind (tell_polls w k i (pt_events p)) (\<lambda>_.
      case pt_result p of
        Inl x \<Rightarrow> ebind (set_phase_step_failed w k i (hide w (poll_error_text x)))
                  (\<lambda>_. eret (poll_ci_failure_outcome w (hide w (poll_error_text x)) f))
      | Inr _ \<Rightarrow> eret outcome_succeeded)) (stepped k i xs c) (near k i xs c)" for p f
    by (rule near_first, rule quiet_tell_polls, assumption)
       (auto intro: failed_ret fine_ret simp: outcome_succeeded_def split: sum.splits)
  then show ?thesis unfolding run_poll_ci_phase_step_def Let_def
    by (intro near_first quiet_intros) (auto split: prod.splits)
qed

lemma single_stepped:
  "valid (near k i xs c) (run_single_phase_step w k i step) (stepped k i xs c) (near k i xs c)"
proof (cases "step_poll_ci step")
  case None
  show ?thesis
  proof (cases "step_to_shell_with step (step_command_options_for w k i)")
    case None
    then show ?thesis using \<open>step_poll_ci step = None\<close>
      by (simp add: run_single_phase_step_def valid_wait)
  next
    case (Some cmd)
    show ?thesis unfolding run_single_phase_step_def \<open>step_poll_ci step = None\<close> Some option.case
      by (rule near_first, rule quiet_basic, assumption, rule near_first, rule quiet_basic, assumption)
         (auto intro: failed_ret in_container_stepped split: sum.splits)
  qed
next
  case (Some ir)
  then show ?thesis by (cases ir) (simp add: run_single_phase_step_def poll_stepped)
qed

lemma keeps_near_quiet: "quiet m \<Longrightarrow> keeps (near k i xs c) m"
  by (rule keeps_of_valid, rule near.quiet_keeps)

lemma remediation_stepped:
  "po_failed prev \<Longrightarrow>
     valid (failed_at k i xs c) (remediation_loop fuel w k cfg step i desc republish left prev)
       (stepped k i xs c) (near k i xs c)"
proof (induction left arbitrary: prev)
  case 0
  show ?case by (auto intro: valid_ret simp: stepped_def failed_near)
next
  case (Suc left)
  have ret: "valid (failed_at k i xs c) (eret prev) (stepped k i xs c) (near k i xs c)"
    by (rule valid_ret) (simp add: stepped_def failed_near)
  have again: "valid (near k i xs c) (ebind (run_single_phase_step w k i step) (\<lambda>r.
      if \<not> po_failed r then eret r
      else remediation_loop fuel w k cfg step i desc republish left r)) (stepped k i xs c) (near k i xs c)"
  proof (rule valid_bind [OF single_stepped])
    show "valid (stepped k i xs c r) (if \<not> po_failed r then eret r
        else remediation_loop fuel w k cfg step i desc republish left r) (stepped k i xs c) (near k i xs c)" for r
    proof (cases "po_failed r")
      case True
      have "valid (stepped k i xs c r) (remediation_loop fuel w k cfg step i desc republish left r)
          (stepped k i xs c) (near k i xs c)"
        by (rule valid_pre [OF Suc.IH [OF True]]) (use True in \<open>simp add: stepped_def\<close>)
      then show ?thesis using True by simp
    qed (auto intro: valid_ret)
  qed
  have rest: "valid (near k i xs c) (ebind (cancel_requested (pw_world w)) (\<lambda>cancelled.
      if cancelled
      then ebind (set_phase_step_failed w k i ''cancelled during on_failure remediation'') (\<lambda>_. eret prev)
      else ebind (eseq [if republish \<noteq> [] then republish_ci_fix w k (po_ci_failed_jobs prev) republish else eret (),
                        set_phase_status k i PhaseRunning, persist_or_log (pw_world w)]) (\<lambda>_.
           ebind (run_single_phase_step w k i step) (\<lambda>r.
             if \<not> po_failed r then eret r
             else remediation_loop fuel w k cfg step i desc republish left r))))
     (stepped k i xs c) (near k i xs c)"
  proof (rule near_first [OF quiet_cancel_requested], assumption, rule valid_if)
    show "valid (near k i xs c) (ebind (set_phase_step_failed w k i ''cancelled during on_failure remediation'')
        (\<lambda>_. eret prev)) (stepped k i xs c) (near k i xs c)" by (rule failed_ret)
    show "valid (near k i xs c) (ebind (eseq [if republish \<noteq> [] then republish_ci_fix w k (po_ci_failed_jobs prev) republish else eret (),
          set_phase_status k i PhaseRunning, persist_or_log (pw_world w)]) (\<lambda>_.
        ebind (run_single_phase_step w k i step) (\<lambda>r.
          if \<not> po_failed r then eret r
          else remediation_loop fuel w k cfg step i desc republish left r)))
       (stepped k i xs c) (near k i xs c)"
      by (rule valid_bind [OF keeps_valid again])
         (rule keeps_eseq, auto intro: keeps_near_status keeps_near_quiet quiet_intros)
  qed
  show ?case unfolding remediation_loop.simps Let_def
  proof (rule valid_bind [OF failed_at.quiet_keeps [OF quiet_cancel_requested]], erule failed_near, rule valid_if, rule ret)
    show "valid (failed_at k i xs c) (ebind (eseq
          [set_phase_status k i (PhaseRemediating (rem_max_attempts cfg - left) (rem_max_attempts cfg)),
           persist_or_log (pw_world w), tell k i (Ph_fixing desc (rem_max_attempts cfg - left) (rem_max_attempts cfg)),
           launch_on_failure_agent fuel w k i cfg
             \<lparr>pf_step_name = desc, pf_stdout = po_stdout prev, pf_stderr = po_stderr prev\<rparr>]) (\<lambda>_.
        ebind (cancel_requested (pw_world w)) (\<lambda>cancelled.
        if cancelled
        then ebind (set_phase_step_failed w k i ''cancelled during on_failure remediation'') (\<lambda>_. eret prev)
        else ebind (eseq [if republish \<noteq> [] then republish_ci_fix w k (po_ci_failed_jobs prev) republish else eret (),
                          set_phase_status k i PhaseRunning, persist_or_log (pw_world w)]) (\<lambda>_.
             ebind (run_single_phase_step w k i step) (\<lambda>r.
               if \<not> po_failed r then eret r
               else remediation_loop fuel w k cfg step i desc republish left r)))))
       (stepped k i xs c) (near k i xs c)"
      by (rule valid_pre [OF valid_bind [OF keeps_valid rest] failed_near])
         (rule keeps_eseq, auto intro: keeps_near_status keeps_near_quiet quiet_intros)
  qed
qed

lemma run_or_repair_stepped:
  "valid (near (pp_kind p) i xs c) (run_or_repair fuel w p i step) (stepped (pp_kind p) i xs c) (near (pp_kind p) i xs c)"
  unfolding run_or_repair_def
proof (rule valid_bind [OF single_stepped])
  fix r
  let ?k = "pp_kind p"
  let ?repair = "case nth_or None (pp_on_failure p) i of
      None \<Rightarrow> eret r
    | Some cfg \<Rightarrow> run_phase_remediation fuel w ?k cfg step i r
        (if step_poll_ci step \<noteq> None then republished_before (pp_steps p) i else [])"
  have repair: "valid (stepped ?k i xs c r) ?repair (stepped ?k i xs c) (near ?k i xs c)" if "po_failed r"
  proof (cases "nth_or None (pp_on_failure p) i")
    case (Some cfg)
    have "valid (stepped ?k i xs c r) (run_phase_remediation fuel w ?k cfg step i r rp) (stepped ?k i xs c) (near ?k i xs c)" for rp
      unfolding run_phase_remediation_def
      by (rule stepped_first, rule quiet_basic, erule stepped_near, rule valid_pre [OF remediation_stepped])
         (use that in \<open>auto simp: stepped_def\<close>)
    then show ?thesis using Some by simp
  qed (auto intro: valid_ret)
  show "valid (stepped ?k i xs c r) (ebind (eand (po_failed r \<and> pro_allow_remediation (pp_options p))
          (ebind (cancel_requested (pw_world w)) (\<lambda>c. eret (\<not> c)))) (\<lambda>repair. if \<not> repair then eret r else ?repair))
     (stepped ?k i xs c) (near ?k i xs c)"
  proof (cases "po_failed r")
    case True
    show ?thesis
      by (rule stepped_first, intro quiet_intros, erule stepped_near, rule valid_if, rule valid_ret, assumption, rule repair [OF True])
  next
    case False
    have "valid (stepped ?k i xs c r) (eret r) (stepped ?k i xs c) (near ?k i xs c)" by (rule valid_ret)
    then show ?thesis using False by (simp add: eand_def ebind_def eret_def valid_def)
  qed
qed

subsection \<open>One turn of the loop\<close>

definition stand :: "phase_kind \<Rightarrow> phase_step_status list \<Rightarrow> workflow_phase \<times> bool \<times> bool \<Rightarrow> engine \<Rightarrow> bool" where
  "stand k xs c e \<longleftrightarrow> rows k e = xs \<and> marks e = c"

abbreviation anything :: "engine \<Rightarrow> bool" where
  "anything \<equiv> \<lambda>_. True"

interpretation stand: core_predicate "stand k xs c"
  by unfold_locales (simp add: stand_def rows_def marks_def core_def)

lemma stand_status: "valid (stand k xs c) (set_phase_status k i s) (\<lambda>_. stand k (xs[i := s]) c) anything"
proof -
  have "stand k (xs[i := s]) c (snd (set_phase_status k i s e))" if "stand k xs c e" for e
    using that by (simp add: stand_def rows_status)
  then show ?thesis unfolding valid_def
    by (metis (mono_tags, lifting) case_prod_conv prod.collapse ran.case(1) set_status_Ok)
qed

lemma near_status_stand:
  "valid (near k i xs c) (set_phase_status k i s) (\<lambda>_. stand k (xs[i := s]) c) anything"
proof -
  have "stand k (xs[i := s]) c (snd (set_phase_status k i s e))" if "near k i xs c e" for e
    using that by (auto simp: near_def stand_def rows_status)
  then show ?thesis unfolding valid_def
    by (metis (mono_tags, lifting) case_prod_conv prod.collapse ran.case(1) set_status_Ok)
qed

lemma valid_anything: "valid P m Q R \<Longrightarrow> valid P m Q anything"
  by (erule valid_conseq) simp_all

lemma eand_says:
  assumes "core_predicate P" and "quiet m"
  shows "valid P (eand b m) (\<lambda>x e. P e \<and> (x \<longrightarrow> b)) anything"
proof (cases b)
  case True
  then show ?thesis using core_predicateD [OF assms, of anything] by (simp add: eand_def)
qed (auto simp: eand_def intro: valid_ret)

text \<open>What a turn leaves: the status of its step, and the flags that go with it.\<close>

definition turned ::
  "phase_plan \<Rightarrow> nat \<Rightarrow> phase_step_status list \<Rightarrow> workflow_phase \<times> bool \<times> bool \<Rightarrow> phase_outcome \<Rightarrow> turn_result \<Rightarrow> engine \<Rightarrow> bool" where
  "turned p i xs c out r e \<longleftrightarrow>
     (\<exists>s. stand (pp_kind p) (xs[i := s]) c e \<and>
       (case r of
          PhaseNext o1 \<Rightarrow>
            phase_status_settled s \<and> pho_aborted o1 = pho_aborted out \<and>
            (pho_any_failed o1 \<longleftrightarrow> pho_any_failed out \<or> is_phase_failed s)
        | PhaseBreak o1 \<Rightarrow>
            (if pho_aborted o1 then pho_any_failed o1 \<and> nth_or False (pp_aborts p) i \<and> is_phase_failed s
             else pro_observe_cancel (pp_options p) \<and> pho_cancelled o1)))"

lemma stand_first:
  "quiet m \<Longrightarrow> (\<And>x. valid (stand k xs c) (f x) Q anything) \<Longrightarrow> valid (stand k xs c) (ebind m f) Q anything"
  by (rule valid_bind, rule stand.quiet_keeps) simp_all

lemma stand_seq:
  "quiet m \<Longrightarrow> valid (stand k xs c) (eseq ms) Q anything \<Longrightarrow> valid (stand k xs c) (eseq (m # ms)) Q anything"
  by (rule valid_seq_Cons, rule stand.quiet_keeps) simp_all

lemma skip_turned:
  "valid (stand (pp_kind p) xs c) (skip_step w p i desc out) (turned p i xs c out) anything"
  unfolding skip_step_def
  by (rule valid_bind, rule valid_seq_Cons, rule stand_status, rule stand_seq, rule quiet_persist,
      rule stand_seq, rule quiet_tell, rule valid_seq_Nil, assumption, rule valid_ret)
     (auto simp: turned_def intro: exI [of _ PhaseSkipped])

lemma settle_turned:
  assumes "\<not> pho_aborted out"
  shows "valid (stepped (pp_kind p) i xs c r) (settle_step w p i desc out r) (turned p i xs c out) anything"
proof (cases "po_failed r")
  case False
  have "valid (near (pp_kind p) i xs c) (ebind (eseq [set_phase_status (pp_kind p) i PhaseSucceeded,
      persist (pw_world w), tell (pp_kind p) i (Ph_completed desc)]) (\<lambda>_. eret (PhaseNext out)))
      (turned p i xs c out) anything"
    by (rule valid_bind, rule valid_seq_Cons, rule near_status_stand, rule stand_seq, rule quiet_persist,
        rule stand_seq, rule quiet_tell, rule valid_seq_Nil, assumption, rule valid_ret)
       (auto simp: turned_def intro: exI [of _ PhaseSucceeded])
  then show ?thesis using False unfolding settle_step_def Let_def
    by (simp, elim valid_pre) (rule stepped_near)
next
  case True
  let ?k = "pp_kind p"
  have f: "valid (failed_at ?k i xs c) (eret r1) (turned p i xs c out) anything"
    if "r1 = PhaseNext (out\<lparr>pho_any_failed := True\<rparr>) \<or>
        r1 = PhaseBreak (out\<lparr>pho_any_failed := True, pho_aborted := True\<rparr>) \<and> nth_or False (pp_aborts p) i" for r1
    by (rule valid_ret) (use that assms in \<open>auto simp: turned_def failed_at_def stand_def\<close>)
  have q: "quiet (if ?k = SetupKind then emod (\<lambda>e. e\<lparr>en_abort_triggered := True\<rparr>) else eret ())"
    by (intro quiet_intros)
  have "valid (failed_at ?k i xs c) (if nth_or False (pp_aborts p) i
      then ebind (if ?k = SetupKind then emod (\<lambda>e. e\<lparr>en_abort_triggered := True\<rparr>) else eret ())
             (\<lambda>_. eret (PhaseBreak (out\<lparr>pho_any_failed := True, pho_aborted := True\<rparr>)))
      else eret (PhaseNext (out\<lparr>pho_any_failed := True\<rparr>))) (turned p i xs c out) anything"
    by (rule valid_if, rule valid_bind, rule failed_at.quiet_keeps [OF q], simp, rule f, simp, rule f, simp)
  note final = this
  have failed: "(\<not> po_failed r) = False" using True by simp
  have "valid (failed_at ?k i xs c) (settle_step w p i desc out r) (turned p i xs c out) anything"
    unfolding settle_step_def Let_def failed if_False
    by (rule valid_bind [OF failed_at.quiet_keeps [OF quiet_basic(4)]], simp,
        rule valid_bind [OF failed_at.quiet_keeps [OF quiet_tell]], simp, rule final)
  then show ?thesis by (rule valid_pre) (use True in \<open>simp add: stepped_def\<close>)
qed

lemma start_turned:
  assumes "i < length xs" and "\<not> pho_aborted out"
  shows "valid (stand (pp_kind p) xs c) (start_step fuel w p i step desc out) (turned p i xs c out) anything"
proof -
  let ?k = "pp_kind p"
  have near: "near ?k i xs c e" if "stand ?k (xs[i := PhaseRunning]) c e" for e
    using that assms(1) by (auto simp: near_def stand_def)
  have brk: "valid (\<lambda>e. stepped ?k i xs c r e \<and> (x \<longrightarrow> po_failed r \<and> pro_observe_cancel (pp_options p)))
      (if x then eret (PhaseBreak (out\<lparr>pho_cancelled := True\<rparr>)) else settle_step w p i desc out r)
      (turned p i xs c out) anything" for r x
  proof (cases x)
    case True
    then show ?thesis using assms by (auto intro!: valid_ret simp: stepped_def near_def turned_def stand_def)
  next
    case False
    have "valid (\<lambda>e. stepped ?k i xs c r e \<and> (x \<longrightarrow> po_failed r \<and> pro_observe_cancel (pp_options p)))
        (settle_step w p i desc out r) (turned p i xs c out) anything"
      by (rule valid_pre [OF settle_turned [OF assms(2)]]) simp
    then show ?thesis using False by simp
  qed
  have tail: "valid (stepped ?k i xs c r)
      (ebind (eand (po_failed r \<and> pro_observe_cancel (pp_options p)) (cancel_requested (pw_world w))) (\<lambda>x.
        if x then eret (PhaseBreak (out\<lparr>pho_cancelled := True\<rparr>)) else settle_step w p i desc out r))
      (turned p i xs c out) anything" for r
    by (rule valid_bind [OF eand_says [OF stepped.core_predicate_axioms quiet_cancel_requested] brk])
  have "valid (stand ?k (xs[i := PhaseRunning]) c) (ebind (run_or_repair fuel w p i step) (\<lambda>r.
      ebind (eand (po_failed r \<and> pro_observe_cancel (pp_options p)) (cancel_requested (pw_world w))) (\<lambda>x.
        if x then eret (PhaseBreak (out\<lparr>pho_cancelled := True\<rparr>)) else settle_step w p i desc out r)))
      (turned p i xs c out) anything"
    by (rule valid_pre [OF valid_bind [OF valid_anything [OF run_or_repair_stepped] tail] near])
  then show ?thesis unfolding start_step_def Let_def
    by (intro valid_bind [OF valid_seq_Cons [OF stand_status]] stand_seq quiet_persist quiet_tell valid_seq_Nil)
qed

lemma turn_turned:
  assumes "i < length xs" and "\<not> pho_aborted out" and "\<not> pro_resume (pp_options p)"
  shows "valid (stand (pp_kind p) xs c) (phase_turn fuel w p i step out) (turned p i xs c out) anything"
proof -
  let ?k = "pp_kind p"
  have go: "valid (stand ?k xs c)
      (if b then skip_step w p i desc (if x then out\<lparr>pho_cancelled := True\<rparr> else out)
       else start_step fuel w p i step desc (if x then out\<lparr>pho_cancelled := True\<rparr> else out))
      (turned p i xs c out) anything" for b x desc
  proof -
    have t: "turned p i xs c (out\<lparr>pho_cancelled := True\<rparr>) = turned p i xs c out"
      by (intro ext, rename_tac r e, case_tac r; simp add: turned_def)
    show ?thesis
      using skip_turned [of p xs c w i desc "if x then out\<lparr>pho_cancelled := True\<rparr> else out"]
        start_turned [OF assms(1), of "if x then out\<lparr>pho_cancelled := True\<rparr> else out" p c fuel w step desc] assms(2) t
      by (cases x; cases b) simp_all
  qed
  have stop: "valid (\<lambda>e. stand ?k xs c e \<and> (True \<longrightarrow> pro_observe_cancel (pp_options p)))
      (eret (PhaseBreak (out\<lparr>pho_cancelled := True\<rparr>))) (turned p i xs c out) anything"
    using assms by (auto intro!: valid_ret exI [of _ "xs ! i"] simp: turned_def)
  show ?thesis unfolding phase_turn_def Let_def using assms(3)
  proof (simp, intro stand_first [OF quiet_basic(4)])
    fix s
    show "valid (stand ?k xs c) (ebind (eand (pro_observe_cancel (pp_options p)) (cancel_requested (pw_world w))) (\<lambda>stop.
        if stop then eret (PhaseBreak (out\<lparr>pho_cancelled := True\<rparr>))
        else ebind (eand (?k = TeardownKind) (cancel_requested (pw_world w))) (\<lambda>x.
          if nth_or False (pro_skip (pp_options p)) i \<or> x \<and> step_publishes step
          then skip_step w p i (pss_description s) (if x then out\<lparr>pho_cancelled := True\<rparr> else out)
          else start_step fuel w p i step (pss_description s) (if x then out\<lparr>pho_cancelled := True\<rparr> else out))))
        (turned p i xs c out) anything"
    proof (rule valid_bind [OF eand_says [OF stand.core_predicate_axioms quiet_cancel_requested]])
      fix x
      show "valid (\<lambda>e. stand ?k xs c e \<and> (x \<longrightarrow> pro_observe_cancel (pp_options p)))
          (if x then eret (PhaseBreak (out\<lparr>pho_cancelled := True\<rparr>))
           else ebind (eand (?k = TeardownKind) (cancel_requested (pw_world w))) (\<lambda>x.
             if nth_or False (pro_skip (pp_options p)) i \<or> x \<and> step_publishes step
             then skip_step w p i (pss_description s) (if x then out\<lparr>pho_cancelled := True\<rparr> else out)
             else start_step fuel w p i step (pss_description s) (if x then out\<lparr>pho_cancelled := True\<rparr> else out)))
          (turned p i xs c out) anything"
      proof (cases x)
        case True
        then show ?thesis using stop by simp
      next
        case False
        have "valid (stand ?k xs c) (ebind (eand (?k = TeardownKind) (cancel_requested (pw_world w))) (\<lambda>x.
             if nth_or False (pro_skip (pp_options p)) i \<or> x \<and> step_publishes step
             then skip_step w p i (pss_description s) (if x then out\<lparr>pho_cancelled := True\<rparr> else out)
             else start_step fuel w p i step (pss_description s) (if x then out\<lparr>pho_cancelled := True\<rparr> else out)))
            (turned p i xs c out) anything"
          by (rule stand_first, intro quiet_intros, rule go)
        then show ?thesis using False by simp
      qed
    qed
  qed
qed

subsection \<open>The whole loop\<close>

text \<open>What the rows say when the loop stops with this outcome.\<close>

definition verdict :: "phase_plan \<Rightarrow> nat \<Rightarrow> phase_step_status list \<Rightarrow> phase_outcome \<Rightarrow> bool" where
  "verdict p n xs out \<longleftrightarrow>
     length xs = n \<and>
     (if pho_aborted out
      then pho_any_failed out \<and>
        (\<exists>i<n. nth_or False (pp_aborts p) i \<and> is_phase_failed (xs ! i) \<and>
           (\<forall>j<i. phase_status_settled (xs ! j)) \<and> (\<forall>j<n. i < j \<longrightarrow> xs ! j = PhasePending))
      else list_all phase_status_settled xs \<and> (pho_any_failed out \<longleftrightarrow> list_ex is_phase_failed xs) \<or>
        pro_observe_cancel (pp_options p) \<and> pho_cancelled out)"

definition half_way :: "nat \<Rightarrow> nat \<Rightarrow> phase_step_status list \<Rightarrow> phase_outcome \<Rightarrow> bool" where
  "half_way n i xs out \<longleftrightarrow>
     length xs = n \<and> i \<le> n \<and> (\<forall>j<i. phase_status_settled (xs ! j)) \<and> (\<forall>j<n. i \<le> j \<longrightarrow> xs ! j = PhasePending) \<and>
     \<not> pho_aborted out \<and> (pho_any_failed out \<longleftrightarrow> (\<exists>j<i. is_phase_failed (xs ! j)))"

lemma half_way_end: "half_way n n xs out \<Longrightarrow> verdict p n xs out"
  by (auto simp: half_way_def verdict_def list_all_length list_ex_length)

lemma half_way_next:
  assumes "half_way n i xs out" and "i < n" and "phase_status_settled s"
    and "pho_aborted o1 = pho_aborted out" and "pho_any_failed o1 \<longleftrightarrow> pho_any_failed out \<or> is_phase_failed s"
  shows "half_way n (Suc i) (xs[i := s]) o1"
  using assms by (auto simp: half_way_def nth_list_update less_Suc_eq)

lemma half_way_break:
  assumes "half_way n i xs out" and "i < n"
    and "if pho_aborted o1 then pho_any_failed o1 \<and> nth_or False (pp_aborts p) i \<and> is_phase_failed s
         else pro_observe_cancel (pp_options p) \<and> pho_cancelled o1"
  shows "verdict p n (xs[i := s]) o1"
proof (cases "pho_aborted o1")
  case True
  then show ?thesis using assms unfolding verdict_def half_way_def
    by (auto intro!: exI [of _ i] simp: nth_list_update)
qed (use assms in \<open>auto simp: verdict_def half_way_def\<close>)

definition judged ::
  "phase_plan \<Rightarrow> nat \<Rightarrow> workflow_phase \<times> bool \<times> bool \<Rightarrow> phase_outcome \<Rightarrow> engine \<Rightarrow> bool" where
  "judged p n c out e \<longleftrightarrow> marks e = c \<and> verdict p n (rows (pp_kind p) e) out"

lemma loop_judged:
  assumes "\<not> pro_resume (pp_options p)"
  shows "n = i + length steps \<Longrightarrow> half_way n i xs out \<Longrightarrow>
     valid (stand (pp_kind p) xs c) (phase_loop fuel w p i steps out) (judged p n c) anything"
proof (induction steps arbitrary: i xs out)
  case Nil
  then show ?case by (auto intro!: valid_ret half_way_end simp: judged_def stand_def)
next
  case (Cons step steps)
  have i: "i < n" "i < length xs" using Cons.prems by (auto simp: half_way_def)
  have na: "\<not> pho_aborted out" using Cons.prems(2) by (simp add: half_way_def)
  show ?case unfolding phase_loop.simps
  proof (rule valid_bind [OF turn_turned [OF i(2) na assms]])
    fix r
    show "valid (turned p i xs c out r) (case r of PhaseNext o1 \<Rightarrow> phase_loop fuel w p (Suc i) steps o1
          | PhaseBreak o1 \<Rightarrow> eret o1) (judged p n c) anything"
    proof (cases r)
      case (PhaseNext o1)
      have "case phase_loop fuel w p (Suc i) steps o1 e of (Ok x, e') \<Rightarrow> judged p n c x e' | _ \<Rightarrow> True"
        if t: "turned p i xs c out (PhaseNext o1) e" for e
      proof -
        obtain s where s: "stand (pp_kind p) (xs[i := s]) c e" "phase_status_settled s"
          "pho_aborted o1 = pho_aborted out" "pho_any_failed o1 \<longleftrightarrow> pho_any_failed out \<or> is_phase_failed s"
          using t unfolding turned_def turn_result.case by blast
        have "half_way n (Suc i) (xs[i := s]) o1" by (rule half_way_next [OF Cons.prems(2) i(1) s(2-4)])
        then have "valid (stand (pp_kind p) (xs[i := s]) c) (phase_loop fuel w p (Suc i) steps o1) (judged p n c) anything"
          using Cons.IH Cons.prems(1) by simp
        then show ?thesis using s(1) by (simp add: valid_def split: prod.splits ran.splits)
      qed
      then show ?thesis using PhaseNext by (auto simp: valid_def split: prod.splits ran.splits)
    next
      case (PhaseBreak o1)
      have "judged p n c o1 e" if t: "turned p i xs c out (PhaseBreak o1) e" for e
      proof -
        obtain s where s: "stand (pp_kind p) (xs[i := s]) c e"
          "if pho_aborted o1 then pho_any_failed o1 \<and> nth_or False (pp_aborts p) i \<and> is_phase_failed s
           else pro_observe_cancel (pp_options p) \<and> pho_cancelled o1"
          using t unfolding turned_def turn_result.case by blast
        show ?thesis using half_way_break [OF Cons.prems(2) i(1) s(2)] s(1) by (simp add: judged_def stand_def)
      qed
      then show ?thesis unfolding PhaseBreak turn_result.case by (rule valid_ret)
    qed
  qed
qed

subsection \<open>The whole phase\<close>

text \<open>The marks a phase leaves: it is completed, and the run moves on, unless setup was cut short.\<close>

definition marks_after :: "phase_kind \<Rightarrow> bool \<Rightarrow> bool \<Rightarrow> phase_outcome \<Rightarrow> workflow_phase \<times> bool \<times> bool" where
  "marks_after k sc tc out =
     (if k = TeardownKind \<or> \<not> (pho_aborted out \<or> pho_cancelled out)
      then (phase_next_workflow_phase k, sc \<or> k = SetupKind, tc \<or> k = TeardownKind)
      else (phase_workflow_phase k, sc, tc))"

definition phase_ended :: "phase_plan \<Rightarrow> nat \<Rightarrow> bool \<Rightarrow> bool \<Rightarrow> phase_outcome \<Rightarrow> engine \<Rightarrow> bool" where
  "phase_ended p n sc tc out e \<longleftrightarrow> verdict p n (rows (pp_kind p) e) out \<and> marks e = marks_after (pp_kind p) sc tc out"

interpretation phase_ended: core_predicate "phase_ended p n sc tc out"
  by unfold_locales (simp add: phase_ended_def rows_def marks_def core_def)

interpretation judged: core_predicate "judged p n c out"
  by unfold_locales (simp add: judged_def rows_def marks_def core_def)

lemma length_refreshed [simp]: "length (refreshed ds ss) = length ds"
  by (simp add: refreshed_def)

lemma enter_stand:
  assumes "\<not> pro_resume (pp_options p)"
  shows "valid (\<lambda>e. setup_completed (en_state e) = sc \<and> teardown_completed (en_state e) = tc) (enter_phase w p)
     (\<lambda>_. stand (pp_kind p) (replicate (length (pp_steps p)) PhasePending) (phase_workflow_phase (pp_kind p), sc, tc))
     anything"
proof -
  let ?k = "pp_kind p" and ?n = "length (pp_steps p)"
  let ?c = "(phase_workflow_phase ?k, sc, tc)"
  have refresh: "valid (\<lambda>e. marks e = ?c) (refresh_phase_states ?k (pp_steps p))
      (\<lambda>_ e. marks e = ?c \<and> length (rows ?k e) = ?n) anything"
    unfolding refresh_phase_states_def mod_state_def by (rule valid_mod) (simp add: marks_def rows_def)
  have reset: "valid (\<lambda>e. marks e = ?c \<and> length (rows ?k e) = ?n) (mod_state (\<lambda>st. set_phase_step_states ?k
      (map (\<lambda>s. s\<lparr>pss_status := PhasePending\<rparr>) (phase_step_states st ?k)) st))
      (\<lambda>_. stand ?k (replicate ?n PhasePending) ?c) anything"
    unfolding mod_state_def
    by (rule valid_mod) (simp add: marks_def rows_def stand_def comp_def map_replicate_const)
  have start: "valid (\<lambda>e. setup_completed (en_state e) = sc \<and> teardown_completed (en_state e) = tc)
      (mod_state (\<lambda>st. st\<lparr>current_phase := phase_workflow_phase ?k\<rparr>)) (\<lambda>_ e. marks e = ?c) anything"
    unfolding mod_state_def by (rule valid_mod) (simp add: marks_def)
  show ?thesis
    unfolding enter_phase_def reset_or_rebuild_phase_states_def if_not_P [OF assms]
    by (rule valid_seq_Cons [OF start], rule valid_seq_Cons, rule valid_seq_Cons [OF refresh],
        rule valid_seq_Cons [OF reset], rule valid_seq_Nil, assumption, rule stand_seq, rule quiet_persist,
        rule valid_seq_Nil)
qed

lemma verdict_late: "verdict p n xs out \<Longrightarrow> verdict p n xs (out\<lparr>pho_cancelled := True\<rparr>)"
  by (auto simp: verdict_def)

lemma finish_ended:
  "valid (judged p n (phase_workflow_phase (pp_kind p), sc, tc) out) (finish_phase w (pp_kind p) out)
     (phase_ended p n sc tc) anything"
proof -
  let ?k = "pp_kind p"
  have "valid (judged p n (phase_workflow_phase ?k, sc, tc) out)
      (ebind (eseq [if \<not> (pho_aborted o1 \<or> pho_cancelled o1) \<or> ?k = TeardownKind
                  then mod_state (\<lambda>st. (set_phase_completed ?k st)\<lparr>current_phase := phase_next_workflow_phase ?k\<rparr>)
                  else eret (), persist (pw_world w)]) (\<lambda>_. eret o1)) (phase_ended p n sc tc) anything"
    if o1: "o1 = out \<or> o1 = out\<lparr>pho_cancelled := True\<rparr>" for o1
  proof -
    have v: "verdict p n (rows ?k e) o1" if "judged p n (phase_workflow_phase ?k, sc, tc) out e" for e
      using that o1 verdict_late by (auto simp: judged_def)
    have "valid (judged p n (phase_workflow_phase ?k, sc, tc) out)
        (if \<not> (pho_aborted o1 \<or> pho_cancelled o1) \<or> ?k = TeardownKind
         then mod_state (\<lambda>st. (set_phase_completed ?k st)\<lparr>current_phase := phase_next_workflow_phase ?k\<rparr>)
         else eret ()) (\<lambda>_. phase_ended p n sc tc o1) anything"
    proof (rule valid_if)
      assume b: "\<not> (pho_aborted o1 \<or> pho_cancelled o1) \<or> ?k = TeardownKind"
      show "valid (judged p n (phase_workflow_phase ?k, sc, tc) out)
          (mod_state (\<lambda>st. (set_phase_completed ?k st)\<lparr>current_phase := phase_next_workflow_phase ?k\<rparr>))
          (\<lambda>_. phase_ended p n sc tc o1) anything"
        unfolding mod_state_def
      proof (rule valid_mod)
        fix e
        assume j: "judged p n (phase_workflow_phase ?k, sc, tc) out e"
        then show "phase_ended p n sc tc o1
            (e\<lparr>en_state := (set_phase_completed ?k (en_state e))\<lparr>current_phase := phase_next_workflow_phase ?k\<rparr>\<rparr>)"
          using v [OF j] b
          by (cases ?k) (auto simp: phase_ended_def judged_def marks_def marks_after_def rows_def
              phase_step_states_def set_phase_completed_def)
      qed
    qed (rule valid_ret, use v in \<open>auto simp: phase_ended_def judged_def marks_after_def\<close>)
    moreover have "valid (phase_ended p n sc tc o1) (eseq [persist (pw_world w)]) (\<lambda>_. phase_ended p n sc tc o1) anything"
      by (rule phase_ended.quiet_first [OF quiet_persist]) (simp_all add: valid_ret)
    moreover have "valid (phase_ended p n sc tc o1) (eret o1) (phase_ended p n sc tc) anything"
      by (rule valid_ret)
    ultimately show ?thesis by (blast intro: valid_bind valid_seq_Cons)
  qed
  then show ?thesis
    unfolding finish_phase_def Let_def
    by (rule_tac valid_bind [OF judged.quiet_keeps]) (auto intro!: quiet_intros)
qed

lemma plan_ended:
  assumes "\<not> pro_resume (pp_options p)"
  shows "valid (\<lambda>e. setup_completed (en_state e) = sc \<and> teardown_completed (en_state e) = tc) (run_plan fuel w p)
     (phase_ended p (length (pp_steps p)) sc tc) anything"
proof -
  let ?k = "pp_kind p" and ?n = "length (pp_steps p)"
  have h: "half_way ?n 0 (replicate ?n PhasePending) nothing_happened"
    by (simp add: half_way_def nothing_happened_def)
  have "valid (stand ?k (replicate ?n PhasePending) (phase_workflow_phase ?k, sc, tc))
      (ebind (phase_loop fuel w p 0 (pp_steps p) nothing_happened) (finish_phase w ?k))
      (phase_ended p ?n sc tc) anything"
    by (rule valid_bind [OF loop_judged [OF assms _ h] finish_ended]) simp
  then show ?thesis unfolding run_plan_def by (rule valid_bind [OF enter_stand [OF assms]])
qed

lemma phase_with_ended:
  assumes "\<not> pro_resume opt" and "run_phase_with fuel w k steps aborts on_failure opt e = (Ok out, e')"
  obtains p where "phase_ended p (length steps) (setup_completed (en_state e)) (teardown_completed (en_state e)) out e'"
    "pp_kind p = k" "pp_aborts p = aborts" "pp_options p = opt"
proof (cases "substitute_steps (pw_fuel w) (pw_work_item w) steps")
  case None
  then show thesis using assms(2) by (simp add: run_phase_with_def substituted_def ebind_def ewait_def)
next
  case (Some ss)
  let ?p = "\<lparr>pp_kind = k, pp_steps = ss, pp_aborts = aborts, pp_on_failure = on_failure, pp_options = opt\<rparr>"
  have "run_plan fuel w ?p e = (Ok out, e')"
    using assms(2) Some by (simp add: run_phase_with_def substituted_def ebind_def eret_def)
  moreover have "length ss = length steps" using substitute_steps_publishing [OF Some] by simp
  ultimately show thesis
    using that [of ?p] validD(1) [OF plan_ended [of ?p "setup_completed (en_state e)" "teardown_completed (en_state e)" fuel w]]
      assms(1) by simp
qed

end
