(* ===== verification/Phase_Properties.thy ===== *)
theory Phase_Properties
  imports Phase_Outcome Run_Properties
begin

text \<open>
  What setup and teardown guarantee, stated for every world. The witnesses run small phases on the engine of the
  example workflow.
\<close>

subsection \<open>A world for phases\<close>

text \<open>Commands exit with the codes \<open>f\<close> gives for the tick they run at; nobody cancels.\<close>

definition example_phases :: "(nat \<Rightarrow> int) \<Rightarrow> phase_world" where
  "example_phases f = \<lparr>pw_world = calm_world, pw_fuel = 5, pw_work_item = None, pw_secrets = [], pw_options = [],
     pw_permission = None, pw_container = (\<lambda>_ _. Inr ()),
     pw_exec = (\<lambda>t _. ([], Inr \<lparr>xo_exit_code = f t, xo_stdout = ''out'', xo_stderr = ''err''\<rparr>)),
     pw_fetch = (\<lambda>_ _. Inr Ci_success), pw_ci_failure = (\<lambda>_. None), pw_context_dir = (\<lambda>_. None),
     pw_write = (\<lambda>_. True), pw_parse_url = (\<lambda>_. None)\<rparr>"

text \<open>Evaluating a phase: the continuation of a bind is left alone until its argument is known.\<close>

lemma ebind_weak: "m = m' \<Longrightarrow> ebind m k = ebind m' k"
  by simp

lemmas phase_run_simps = run_phase_with_def run_plan_def enter_phase_def mod_state_def emod_def
  reset_or_rebuild_phase_states_def refresh_phase_states_def refreshed_def phase_turn_def Let_def eget_def eret_def ebind_def
  phase_state_def phase_step_states_def set_phase_step_states_def persist_def observe_def eff_def cancel_requested_def cancelled_by_def
  eand_def nothing_happened_def start_step_def skip_step_def settle_step_def set_phase_status_def tell_def nth_or_def
  run_or_repair_def run_single_phase_step_def run_in_container_def run_shell_phase_step_def exec_streaming_def
  hide_def set_phase_step_failed_def persist_or_log_def outcome_exited_def outcome_succeeded_def outcome_failed_def
  phase_step_failed_error_def reported_exit_code_def finish_phase_def set_phase_completed_def
  step_command_options_for_def report_created_def

lemma example_world [simp]:
  "pw_world (example_phases f) = calm_world" "pw_fuel (example_phases f) = 5" "pw_work_item (example_phases f) = None"
  "pw_secrets (example_phases f) = []" "pw_options (example_phases f) = []" "pw_container (example_phases f) = (\<lambda>_ _. Inr ())"
  "pw_exec (example_phases f) = (\<lambda>t _. ([], Inr \<lparr>xo_exit_code = f t, xo_stdout = ''out'', xo_stderr = ''err''\<rparr>))"
  "wd_cancel_at calm_world = None" "wd_save calm_world t = Inr ()"
  by (simp_all add: example_phases_def calm_world_def)

lemma redact_nothing [simp]: "redact [] s = s"
  by (simp add: redact_def)


definition one_teardown :: "teardown_step list" where
  "one_teardown = [PushBranch None None]"


lemma one_teardown_substituted:
  "substituted (example_phases f) (map Teardown one_teardown) = eret (map Teardown one_teardown)"
proof -
  have "substitute_steps 5 None (map Teardown one_teardown) = Some (map Teardown one_teardown)" by code_simp
  then show ?thesis by (simp add: substituted_def)
qed




lemma teardown_skips:
  "fst (run_teardown_cancelled 3 (example_phases (\<lambda>_. 0)) one_teardown [False] (chain_engine None))
   = Ok \<lparr>pho_aborted = False, pho_any_failed = False, pho_cancelled = True\<rparr>"
  by (simp add: phase_run_simps run_teardown_cancelled_def one_teardown_substituted cong: ebind_weak,
      simp add: phase_run_simps one_teardown_def cancelled_options_def cong: ebind_weak)

subsection \<open>Properties\<close>



text \<open>
  Property C36. Once a run is cancelled its teardown publishes nothing and repairs nothing: whichever way teardown
  is entered - in its cancelled mode, resumed in that mode, or normally with the token already fired - nothing is
  started for a step that pushes, opens a pull request or waits for CI (such a step is only recorded as skipped),
  and no agent is launched.
\<close>

theorem cancelled_run_publishes_nothing:
  assumes "m = run_teardown_cancelled fuel w steps aborts \<or> m = resume_teardown_cancelled fuel w steps aborts \<or>
      m = run_phase fuel w TeardownKind (map Teardown steps) aborts on_failure \<and> cancelled_by (pw_world w) (en_tick e)"
    and "m e = (r, e')"
  shows "\<exists>new. en_log e' = new @ en_log e \<and> list_all (cancel_ok (map Teardown steps)) new"
proof -
  from assms(1) consider
      (now) "m = run_teardown_cancelled fuel w steps aborts"
    | (again) "m = resume_teardown_cancelled fuel w steps aborts"
    | (fired) "m = run_phase fuel w TeardownKind (map Teardown steps) aborts on_failure" "cancelled_by (pw_world w) (en_tick e)"
    by blast
  then show ?thesis
  proof cases
    case now
    then obtain r1 where "run_phase_with fuel w TeardownKind (map Teardown steps) aborts [] (cancelled_options False steps) e = (r1, e')"
      using assms(2) by (auto simp: run_teardown_cancelled_def ebind_def eret_def split: prod.splits ran.splits)
    then show ?thesis using hushed_run [of w e "cancelled_options False steps" False steps] by blast
  next
    case again
    then show ?thesis using assms(2) hushed_run [of w e "cancelled_options True steps" True steps]
      unfolding resume_teardown_cancelled_def by blast
  next
    case fired
    then show ?thesis using assms(2) hushed_run [of w e] unfolding run_phase_def by blast
  qed
qed

theorem cancelled_run_publishes_nothing_witness:
  "\<exists>new e'. run_teardown_cancelled 3 (example_phases (\<lambda>_. 0)) one_teardown [False] (chain_engine None)
       = (Ok \<lparr>pho_aborted = False, pho_any_failed = False, pho_cancelled = True\<rparr>, e') \<and>
     en_log e' = new @ en_log (chain_engine None) \<and> list_all (cancel_ok (map Teardown one_teardown)) new"
proof -
  let ?run = "run_teardown_cancelled 3 (example_phases (\<lambda>_. 0)) one_teardown [False] (chain_engine None)"
  have "fst ?run = Ok \<lparr>pho_aborted = False, pho_any_failed = False, pho_cancelled = True\<rparr>" by (rule teardown_skips)
  then obtain e' where e: "?run = (Ok \<lparr>pho_aborted = False, pho_any_failed = False, pho_cancelled = True\<rparr>, e')"
    by (metis prod.collapse)
  show ?thesis using cancelled_run_publishes_nothing [OF disjI1 [OF refl] e] e by auto
qed

end
