(* ===== verification/Exec_Workflow.thy ===== *)
theory Exec_Workflow
  imports Workflow_Phases Workflow_Stages Utf8
begin

text \<open>
  \<open>awman exec workflow\<close>: \<open>src/command/commands/exec_workflow/prepare.rs\<close>. Setup, the steps and teardown in one
  command, what it makes of their outcomes, the exit code; the question about a saved run; the clean-up of a
  cancelled run that was interrupted.
\<close>

subsection \<open>The question about a saved run\<close>

definition stopped_role :: "step_state option \<Rightarrow> string" where
  "stopped_role s =
     (case s of
        Some (Failed _ _) \<Rightarrow> ''the step that failed''
      | Some Cancelled \<Rightarrow> ''the step that was cancelled''
      | _ \<Rightarrow> ''the step the run stopped on'')"

definition workflow_resume_start_points :: "workflow_dag \<Rightarrow> workflow_state \<Rightarrow> (string \<times> string) list" where
  "workflow_resume_start_points d st =
     (case resume_stop_point st d of
        None \<Rightarrow> []
      | Some idx \<Rightarrow>
          (let order = topological_order d in
           [(order ! idx, stopped_role (status_of st (order ! idx)))] @
           (if 0 < idx then [(order ! (idx - 1), ''the step before it'')] else []) @
           (if idx + 1 < length order then [(order ! (idx + 1), ''the step after it'')] else [])))"

definition completed_step_count :: "workflow_state \<Rightarrow> nat" where
  "completed_step_count st = length (filter completing (hm_values (step_states st)))"

datatype workflow_resume_decision = ResumeFrom string | FreshRun | CancelCommand

datatype state_resume_outcome = Proceed bool | ResumeCancelled

text \<open>
  The store: what it holds for this run, and what a write to it answers. The result says what the store holds
  afterwards; a file that could not be deleted stays (the code only warns).
\<close>

record saved_run =
  sr_load :: "(data_error, workflow_state option) result"
  sr_save :: "(data_error, unit) result"
  sr_delete :: "(data_error, unit) result"

definition dropped :: "saved_run \<Rightarrow> workflow_state option" where
  "dropped s = (case sr_delete s of Inr _ \<Rightarrow> None | Inl _ \<Rightarrow> (case sr_load s of Inr x \<Rightarrow> x | Inl _ \<Rightarrow> None))"

definition offer_state_resume ::
  "saved_run \<Rightarrow> nat \<Rightarrow> workflow \<Rightarrow> (string, workflow_resume_decision) result
     \<Rightarrow> (string, state_resume_outcome) result \<times> workflow_state option" where
  "offer_state_resume s now W answer =
     (case sr_load s of
        Inl _ \<Rightarrow> (Inr (Proceed False), None)
      | Inr None \<Rightarrow> (Inr (Proceed False), None)
      | Inr (Some saved) \<Rightarrow>
          (case build_dag (wf_steps W) of
             Inl _ \<Rightarrow> (Inr (Proceed False), dropped s)
           | Inr d \<Rightarrow>
               if workflow_resume_start_points d saved = [] then (Inr (Proceed False), dropped s)
               else (case answer of
                  Inl e \<Rightarrow> (Inl e, Some saved)
                | Inr (ResumeFrom start) \<Rightarrow>
                    (case sr_save s of
                       Inl _ \<Rightarrow> (Inl ''rewinding the resumed workflow state'', Some saved)
                     | Inr _ \<Rightarrow> (Inr (Proceed True), Some (rewind_to now d start saved)))
                | Inr FreshRun \<Rightarrow> (Inr (Proceed False), dropped s)
                | Inr CancelCommand \<Rightarrow> (Inr ResumeCancelled, Some saved))))"

subsection \<open>The workflow as it is run\<close>

fun is_checkout_branch :: "setup_step \<Rightarrow> bool" where
  "is_checkout_branch (CheckoutCreateBranch _ _) = True"
| "is_checkout_branch _ = False"

definition skip_checkout_branch_steps_in_worktree :: "workflow \<Rightarrow> workflow" where
  "skip_checkout_branch_steps_in_worktree W =
     W\<lparr>wf_setup := filter (\<lambda>entry. \<not> is_checkout_branch (pe_step entry)) (wf_setup W)\<rparr>"

text \<open>A slice of a string ends between two characters or the program panics: \<open>None\<close>.\<close>

definition slice_to :: "string \<Rightarrow> nat \<Rightarrow> string option" where
  "slice_to s n = (if is_char_boundary s n then Some (take n s) else None)"

definition mentions_context_workflow :: "string \<Rightarrow> bool option" where
  "mentions_context_workflow overlay =
     (let t = trim overlay in
      if starts_with t ''context(workflow''
      then map_option (\<lambda>p. contains_sub p ''workflow'') (slice_to t (min (length t) 20))
      else Some False)"

text \<open>An overlay with a wide character around its twentieth byte stops the program instead of being reported.\<close>

lemma wide_overlay_panics: "mentions_context_workflow (''context(workflow: '' @ map char_of [0xE6 :: nat, 0x97, 0xA5]) = None"
  by code_simp

primrec collect_new :: "string list \<Rightarrow> string option list \<Rightarrow> string list" where
  "collect_new seen [] = seen"
| "collect_new seen (a # as) =
     collect_new (case a of None \<Rightarrow> seen | Some n \<Rightarrow> if n \<in> set seen then seen else seen @ [n]) as"

definition first_some :: "'a option \<Rightarrow> 'a option \<Rightarrow> 'a option" where
  "first_some a b = (case a of Some x \<Rightarrow> Some x | None \<Rightarrow> b)"

definition workflow_agents :: "workflow \<Rightarrow> string option \<Rightarrow> string list" where
  "workflow_agents W session_default =
     collect_new [] (map (\<lambda>s. first_some (ws_agent s) (first_some (wf_agent W) session_default)) (wf_steps W))"

subsection \<open>The command\<close>

text \<open>
  What the command is run with. \<open>ei_teardown\<close> takes whether the run was cancelled, since a cancelled run gives up
  its grants before its teardown; \<open>ei_bad_overlay\<close> is the first overlay of a setup step that could not be resolved.
\<close>

record exec_input =
  ei_world :: world
  ei_setup :: phase_world
  ei_teardown :: "bool \<Rightarrow> phase_world"
  ei_record_cleanup :: "(engine_error, unit) result"
  ei_bad_overlay :: "string option"
  ei_runtime :: "(engine_error, unit) result"

definition setup_world :: "exec_input \<Rightarrow> phase_world" where
  "setup_world x = (ei_setup x)\<lparr>pw_world := ei_world x\<rparr>"

definition teardown_world :: "exec_input \<Rightarrow> bool \<Rightarrow> phase_world" where
  "teardown_world x cancelled = (ei_teardown x cancelled)\<lparr>pw_world := ei_world x\<rparr>"

text \<open>A call whose error is looked at rather than returned.\<close>

definition attempt :: "'a eng \<Rightarrow> (engine_error, 'a) result eng" where
  "attempt m e =
     (case m e of
        (Ok x, e') \<Rightarrow> (Ok (Inr x), e')
      | (Err r, e') \<Rightarrow> (Ok (Inl r), e')
      | (Waiting, e') \<Rightarrow> (Waiting, e'))"

definition setup_steps_of :: "workflow \<Rightarrow> phase_step list" where
  "setup_steps_of W = map (\<lambda>s. Setup (pe_step s)) (wf_setup W)"

definition teardown_steps_of :: "workflow \<Rightarrow> teardown_step list" where
  "teardown_steps_of W = map pe_step (wf_teardown W)"

text \<open>Whether setup failed; a setup that is done is not run again.\<close>

definition exec_setup :: "nat \<Rightarrow> exec_input \<Rightarrow> workflow \<Rightarrow> bool eng" where
  "exec_setup fuel x W =
     ebind (eget (\<lambda>e. setup_completed (en_state e))) (\<lambda>already.
       if wf_setup W = [] \<or> already then eret False
       else (case ei_bad_overlay x of
               Some _ \<Rightarrow> eret True
             | None \<Rightarrow>
                 ebind (elift (ei_runtime x)) (\<lambda>_.
                 ebind (attempt (run_phase fuel (setup_world x) SetupKind (setup_steps_of W)
                          (map pe_abort_on_failure (wf_setup W)) (map pe_on_failure (wf_setup W)))) (\<lambda>r.
                   eret (case r of Inl _ \<Rightarrow> True | Inr out \<Rightarrow> pho_aborted out)))))"

definition exec_main :: "nat \<Rightarrow> world \<Rightarrow> bool \<Rightarrow> (engine_error, workflow_outcome) result eng" where
  "exec_main fuel w setup_failed =
     ebind (ebind (cancel_requested w) (\<lambda>c.
              if c then attempt (cancel_run w)
              else if setup_failed then eret (Inl (ContainerError ''setup phase failed; main workflow not started''))
              else attempt (run_to_completion fuel w))) (\<lambda>result.
     ebind (cancel_requested w) (\<lambda>c.
       if c \<and> result \<noteq> Inr RunCancelled then attempt (cancel_run w) else eret result))"

definition workflow_succeeded :: "(engine_error, workflow_outcome) result \<Rightarrow> bool" where
  "workflow_succeeded r \<longleftrightarrow> r = Inr Completed \<or> r = Inr CompletedTeardownFailed"

text \<open>Teardown: \<open>None\<close> when it is not run at all.\<close>

definition exec_teardown ::
  "nat \<Rightarrow> exec_input \<Rightarrow> workflow \<Rightarrow> (engine_error, workflow_outcome) result
     \<Rightarrow> (engine_error, phase_outcome) result option eng" where
  "exec_teardown fuel x W result =
     (let cancelled = (result = Inr RunCancelled); aborts = map pe_abort_on_failure (wf_teardown W) in
      ebind (eget en_abort_triggered) (\<lambda>abort.
        if wf_teardown W = [] \<or> abort \<or>
           \<not> (cancelled \<or> wf_teardown_on_failure W \<or> workflow_succeeded result) then eret None
        else
          ebind (elift (ei_runtime x)) (\<lambda>_.
          ebind (attempt (if cancelled
                   then run_teardown_cancelled fuel (teardown_world x True) (teardown_steps_of W) aborts
                   else run_phase fuel (teardown_world x False) TeardownKind (map Teardown (teardown_steps_of W))
                          aborts (map pe_on_failure (wf_teardown W)))) (\<lambda>r.
            eret (Some r)))))"

text \<open>\<open>unwrap_or_default\<close>: a teardown that returned an error counts as one in which nothing happened.\<close>

definition teardown_outcome :: "(engine_error, phase_outcome) result option \<Rightarrow> phase_outcome" where
  "teardown_outcome r = (case r of Some (Inr out) \<Rightarrow> out | _ \<Rightarrow> nothing_happened)"

definition exec_result ::
  "world \<Rightarrow> (engine_error, workflow_outcome) result \<Rightarrow> phase_outcome
     \<Rightarrow> (engine_error, workflow_outcome) result eng" where
  "exec_result w result out =
     ebind (if result = Inr RunCancelled then eret False
            else if pho_cancelled out then eret True else cancel_requested w) (\<lambda>late.
     ebind (eget en_abort_triggered) (\<lambda>abort.
       if late \<and> \<not> abort then attempt (cancel_run w)
       else if (pho_aborted out \<or> pho_any_failed out) \<and> workflow_succeeded result
       then eret (Inr CompletedTeardownFailed)
       else eret result))"

record exec_end =
  ee_result :: "(engine_error, workflow_outcome) result"
  ee_teardown :: "(engine_error, phase_outcome) result option"
  ee_completed :: nat
  ee_failed :: nat

definition exec_finish :: "world \<Rightarrow> unit eng" where
  "exec_finish w =
     ebind (eget (\<lambda>e. current_phase (en_state e))) (\<lambda>p.
       if p \<noteq> DonePhase then ignoring (mark_done w) else eret ())"

definition execute_prepared :: "nat \<Rightarrow> exec_input \<Rightarrow> workflow \<Rightarrow> exec_end eng" where
  "execute_prepared fuel x W =
     ebind (declare_phase_steps (setup_world x) (map pe_step (wf_setup W)) (teardown_steps_of W)) (\<lambda>_.
     ebind (elift (ei_record_cleanup x)) (\<lambda>_.
     ebind (exec_setup fuel x W) (\<lambda>setup_failed.
     ebind (exec_main fuel (ei_world x) setup_failed) (\<lambda>result.
     ebind (exec_teardown fuel x W result) (\<lambda>td.
     ebind (exec_result (ei_world x) result (teardown_outcome td)) (\<lambda>final.
     ebind (exec_finish (ei_world x)) (\<lambda>_.
     eget (\<lambda>e. \<lparr>ee_result = final, ee_teardown = td,
                 ee_completed = completed_step_count (en_state e),
                 ee_failed = length (filter is_failed (hm_values (step_states (en_state e))))\<rparr>))))))))"

subsection \<open>What the command reports\<close>

definition cancelled_exit_code :: int where
  "cancelled_exit_code = 130"

fun exec_exit_code :: "(engine_error, workflow_outcome) result \<Rightarrow> int option" where
  "exec_exit_code (Inr Completed) = Some 0"
| "exec_exit_code (Inr CompletedTeardownFailed) = Some 1"
| "exec_exit_code (Inr (RunFailed _ code)) = Some code"
| "exec_exit_code (Inr Aborted) = Some 1"
| "exec_exit_code (Inr RunCancelled) = Some cancelled_exit_code"
| "exec_exit_code (Inr Paused) = None"
| "exec_exit_code (Inl _) = Some 1"

definition had_error :: "exec_end \<Rightarrow> bool" where
  "had_error x \<longleftrightarrow> 0 < ee_failed x \<or> ee_result x \<notin> {Inr Completed, Inr Paused}"

text \<open>The steps the summary calls failed: at least one when there was an error.\<close>

definition reported_failed :: "exec_end \<Rightarrow> nat" where
  "reported_failed x = max (ee_failed x) (if had_error x then 1 else 0)"

subsection \<open>Cleaning up after a crash\<close>

definition finish_cancelled_cleanup ::
  "nat \<Rightarrow> phase_world \<Rightarrow> (engine_error, unit) result \<Rightarrow> workflow \<Rightarrow> unit eng" where
  "finish_cancelled_cleanup fuel w runtime W =
     ebind (cancel_run (pw_world w)) (\<lambda>_.
     ebind (eget (\<lambda>e. teardown_completed (en_state e))) (\<lambda>completed.
     ebind (if \<not> completed \<and> wf_teardown W \<noteq> []
            then ebind (elift runtime) (\<lambda>_.
                 ebind (resume_teardown_cancelled fuel w (teardown_steps_of W)
                          (map pe_abort_on_failure (wf_teardown W))) (\<lambda>_. eret ()))
            else eret ()) (\<lambda>_.
     mark_done (pw_world w))))"

end
