(* ===== verification/Phase_Keeping.thy ===== *)
theory Phase_Keeping
  imports Phase_Safety Exec_Workflow
begin

text \<open>
  What the methods of a phase are made of: observations, reports, saves and changes of the records of the phases.
  A predicate that survives these survives every phase (the locale \<open>phase_keeping\<close>).
\<close>

fun is_save :: "effect \<Rightarrow> bool" where
  "is_save (Eff_persist _) = True"
| "is_save _ = False"

definition run_identity :: "workflow_state \<Rightarrow> nat \<times> nat \<times> string \<times> string \<times> nat option" where
  "run_identity st = (schema_version st, invocation_id st, workflow_name st, workflow_hash st, st_work_item st)"

text \<open>Two states that agree on the steps and on which run it is.\<close>

definition same_steps :: "workflow_state \<Rightarrow> workflow_state \<Rightarrow> bool" where
  "same_steps st st' \<longleftrightarrow> step_states st' = step_states st \<and> completed_steps st' = completed_steps st \<and>
     run_identity st' = run_identity st"

lemma snd_attempt [simp]: "snd (attempt m e) = snd (m e)" "snd (ignoring m e) = snd (m e)"
  by (simp_all add: attempt_def ignoring_def split: prod.splits ran.splits)

lemma keeps_attempt [keeps_intros]: "keeps I m \<Longrightarrow> keeps I (attempt m)" "keeps I m \<Longrightarrow> keeps I (ignoring m)"
  by (simp_all add: keeps_def)

lemma keeps_elift [keeps_intros]: "keeps I (elift r)"
  by (cases r) (simp_all add: elift_def keeps_basic)

lemma keeps_substituted [keeps_intros]: "keeps I (substituted w ss)"
  by (auto simp: substituted_def intro!: keeps_intros split: option.splits)

locale phase_keeping =
  fixes I :: "engine \<Rightarrow> bool"
  assumes later: "I e \<Longrightarrow> I (e\<lparr>en_tick := Suc (en_tick e)\<rparr>)"
    and reported: "\<not> is_save x \<Longrightarrow> \<not> is_launch x \<Longrightarrow> keeps I (eff x)"
    and saving: "keeps I (persist w)"
    and moving: "(\<And>st. same_steps st (f st)) \<Longrightarrow> keeps I (mod_state f)"
    and flagging: "keeps I (emod (\<lambda>e. e\<lparr>en_abort_triggered := b\<rparr>))"
begin

lemma seen: "keeps I (observe g)"
  using later by (simp add: keeps_def observe_def)

lemma asking: "keeps I (ask f)"
  unfolding ask_def by (intro keeps_intros seen)

lemma observing: "keeps I (eand b (cancel_requested w))" "keeps I (cancel_requested w)"
  unfolding eand_def cancel_requested_def by (intro keeps_intros seen)+

lemma told: "keeps I (tell k i ev)"
  unfolding tell_def by (rule reported) simp_all

lemma lines_told: "keeps I (tell_lines w k i ls)"
  by (induction ls) (auto intro!: keeps_intros told)

lemma polls_told: "keeps I (tell_polls w k i evs)"
  by (induction evs) (auto intro!: keeps_intros told)

lemma saving_or_log: "keeps I (persist_or_log w)"
  using saving [of w] by (simp add: keeps_def persist_or_log_def case_prod_beta)

lemma states: "same_steps st (set_phase_step_states k xs st)" "same_steps st (set_phase_completed k st)"
  "same_steps st (st\<lparr>current_phase := p\<rparr>)" "same_steps st ((set_phase_completed k st)\<lparr>current_phase := p\<rparr>)"
  "same_steps st st"
  by (cases k; simp add: same_steps_def run_identity_def set_phase_step_states_def set_phase_completed_def)+

lemma set_status: "keeps I (set_phase_status k i s)"
  unfolding set_phase_status_def by (rule moving) (rule states)

lemma fail_noted: "keeps I (set_phase_step_failed w k i t)"
  unfolding set_phase_step_failed_def by (auto intro!: keeps_intros set_status saving_or_log)

lemma exec: "keeps I (exec_streaming w k i cmd)"
  unfolding exec_streaming_def by (auto intro!: keeps_intros told seen lines_told)

lemma shell: "keeps I (run_shell_phase_step w k i cmd)"
  unfolding run_shell_phase_step_def Let_def
  by (rule keeps_bind, rule exec) (auto intro!: keeps_intros fail_noted split: sum.splits)

lemma retry: "keeps I (retry_pull_request w k i cmd delays r)"
  by (induction delays arbitrary: r)
    (auto intro!: keeps_intros shell observing simp: eand_def)

lemma created: "keeps I (report_created w k i r)"
  unfolding report_created_def by (auto intro!: keeps_intros told split: option.splits)

lemma in_container: "keeps I (run_in_container w k i b cmd)"
  unfolding run_in_container_def by (intro keeps_intros shell retry created)

lemma poll: "keeps I (run_poll_ci_phase_step w interval retries k i)"
  unfolding run_poll_ci_phase_step_def Let_def
  by (rule keeps_bind, rule seen)
    (auto intro!: keeps_intros polls_told seen fail_noted split: prod.splits sum.splits)

lemma single: "keeps I (run_single_phase_step w k i step)"
  unfolding run_single_phase_step_def
  by (auto intro!: keeps_intros poll in_container seen fail_noted
      split: option.splits prod.splits sum.splits)

lemma countdown: "keeps I (drive_yolo_countdown fuel w n start)"
proof -
  have "keeps I (countdown_ends n r)" for r
    unfolding countdown_ends_def by (intro keeps_intros reported) simp_all
  then show ?thesis
    by (induction fuel)
      (auto intro!: keeps_intros seen asking observing simp: clock_def
        split: yolo_tick_outcome.splits step_event.splits stuck_event.splits engine_request.splits)
qed

lemma mid_step: "keeps I (run_mid_step_yolo_countdown fuel w n)"
  unfolding run_mid_step_yolo_countdown_def clock_def by (auto intro!: keeps_intros countdown reported)

lemma cancel_agent: "keeps I (cancel_agent x)"
  unfolding cancel_agent_def by (auto intro!: keeps_intros reported split: option.splits)

lemma wait_agent: "keeps I (wait_on_failure_agent fuel w label x)"
  by (induction fuel)
    (auto intro!: keeps_intros reported seen observing cancel_agent mid_step simp: step_select_def
      split: prod.splits step_event.splits mid_step_yolo.splits)

lemma failure_file: "keeps I (prepare_phase_failure_file w k i f)"
  unfolding prepare_phase_failure_file_def Let_def
  by (auto intro!: keeps_intros seen told split: option.splits)

lemma launch_agent: "keeps I (launch_on_failure_agent fuel w k i c f)"
  unfolding launch_on_failure_agent_def run_remediation_agent_def Let_def
  by (auto intro!: keeps_intros told seen asking failure_file wait_agent split: prod.splits sum.splits option.splits)

lemma republish: "keeps I (republish_ci_fix w k jobs ss)"
  by (induction ss) (auto intro!: keeps_intros seen exec told split: option.splits sum.splits)

lemma remediation: "keeps I (remediation_loop fuel w k c step i desc republish left prev)"
proof (induction left arbitrary: prev)
  case (Suc left)
  have a: "keeps I (eseq [set_phase_status k i s, persist_or_log (pw_world w), tell k i ev, launch_on_failure_agent fuel w k i c f])"
    for s ev f
    by (auto intro!: keeps_intros set_status saving_or_log told launch_agent)
  have b: "keeps I (eseq [if republish \<noteq> [] then republish_ci_fix w k jobs republish else eret (),
      set_phase_status k i PhaseRunning, persist_or_log (pw_world w)])" for jobs
    by (auto intro!: keeps_intros set_status saving_or_log republish)
  show ?case
    unfolding remediation_loop.simps Let_def
    by (intro keeps_bind keeps_if keeps_basic fail_noted single Suc.IH a b observing)
qed (simp add: keeps_basic)

lemma run_or_repair: "keeps I (run_or_repair fuel w p i step)"
  unfolding run_or_repair_def run_phase_remediation_def
  by (auto intro!: keeps_intros single remediation observing simp: eand_def split: option.splits)

lemma settle: "keeps I (settle_step w p i desc out r)"
  unfolding settle_step_def Let_def
  by (auto intro!: keeps_intros set_status saving told flagging)

lemma skip: "keeps I (skip_step w p i desc out)"
  unfolding skip_step_def
  by (auto intro!: keeps_intros set_status saving told)

lemma start: "keeps I (start_step fuel w p i step desc out)"
  unfolding start_step_def Let_def
  by (auto intro!: keeps_intros set_status saving told run_or_repair settle
      observing)

lemma turn: "keeps I (phase_turn fuel w p i step out)"
  unfolding phase_turn_def Let_def
  by (auto intro!: keeps_intros skip start observing)

lemma loop: "keeps I (phase_loop fuel w p i steps out)"
  by (induction steps arbitrary: i out) (auto intro!: keeps_intros turn split: turn_result.splits)

lemma refresh: "keeps I (refresh_phase_states k steps)"
  unfolding refresh_phase_states_def by (rule moving) (rule states)

lemma enter: "keeps I (enter_phase w p)"
  unfolding enter_phase_def reset_or_rebuild_phase_states_def
  by (auto intro!: keeps_intros moving refresh saving states)

lemma finish: "keeps I (finish_phase w k out)"
  unfolding finish_phase_def Let_def
  by (auto intro!: keeps_intros moving saving observing states)

lemma phase_with: "keeps I (run_phase_with fuel w k steps aborts on_failure opt)"
  unfolding run_phase_with_def run_plan_def by (intro keeps_intros enter loop finish)

lemma phases:
  "keeps I (run_phase fuel w k steps aborts on_failure)"
  "keeps I (run_teardown_cancelled fuel w ts aborts)"
  "keeps I (resume_teardown_cancelled fuel w ts aborts)"
  unfolding run_phase_def run_teardown_cancelled_def resume_teardown_cancelled_def
  by (intro keeps_intros phase_with)+

lemma declare_phases: "keeps I (declare_phase_steps w ss ts)"
  unfolding declare_phase_steps_def
  by (auto intro!: keeps_intros refresh moving saving states)

lemma before_main: "keeps I (exec_setup fuel x W)"
  unfolding exec_setup_def by (auto intro!: keeps_intros phases split: option.splits)

lemma after_main: "keeps I (exec_teardown fuel x W r)"
  unfolding exec_teardown_def Let_def by (auto intro!: keeps_intros phases)

lemma mark: "keeps I (exec_finish w)"
proof -
  have "keeps I (mark_done w)"
    unfolding mark_done_def using moving [OF states(3), unfolded mod_state_def]
    by (auto intro!: keeps_intros saving)
  then show ?thesis unfolding exec_finish_def by (auto intro!: keeps_intros)
qed

end

end
