(* ===== verification/Engine_Invariants.thy ===== *)
theory Engine_Invariants
  imports Phase_Keeping Run_Recovery
begin

text \<open>
  Invariants of everything an engine does, whichever way a method returns: the locale \<open>engine_invariant\<close> says
  what a predicate has to survive - a tick of the clock, a report, a save, a new status - and every method of
  the main phase keeps it; \<open>command_invariant\<close> adds the phases.
\<close>

subsection \<open>The interface\<close>

definition phase_marks ::
  "workflow_state \<Rightarrow> workflow_phase \<times> bool \<times> bool \<times> phase_step_state list \<times> phase_step_state list" where
  "phase_marks st =
     (current_phase st, setup_completed st, teardown_completed st, setup_step_states st, teardown_step_states st)"

locale engine_invariant =
  fixes I :: "engine \<Rightarrow> bool"
  assumes frame: "I e \<Longrightarrow> en_state e' = en_state e \<Longrightarrow> en_tick e' = en_tick e \<Longrightarrow> en_log e' = en_log e \<Longrightarrow> I e'"
    and later: "I e \<Longrightarrow> I (e\<lparr>en_tick := Suc (en_tick e)\<rparr>)"
    and logged: "I e \<Longrightarrow> \<not> is_save x \<Longrightarrow> I (e\<lparr>en_log := x # en_log e\<rparr>)"
    and saved: "I e \<Longrightarrow> I (e\<lparr>en_log := Eff_persist (en_state e) # en_log e\<rparr>)"
    and stepped: "I e \<Longrightarrow> I (e\<lparr>en_state := set_status now n s (en_state e)\<rparr>)"
    and noted: "I e \<Longrightarrow> same_steps (en_state e) st \<Longrightarrow> phase_marks st = phase_marks (en_state e) \<Longrightarrow>
      I (e\<lparr>en_state := st\<rparr>)"
begin

lemma emod: "(\<And>e. en_state (f e) = en_state e) \<Longrightarrow> (\<And>e. en_tick (f e) = en_tick e) \<Longrightarrow>
    (\<And>e. en_log (f e) = en_log e) \<Longrightarrow> keeps I (emod f)"
  by (rule keeps_emod) (rule frame)

lemma elift_of [keeps_intros]: "keeps I (\<lambda>e. elift (f e) e)"
  using keeps_elift by (auto simp: keeps_def)

lemma observe [keeps_intros]: "keeps I (observe f)"
  using later by (simp add: keeps_def observe_def)

lemma ask [keeps_intros]: "keeps I (ask f)"
  unfolding ask_def by (intro keeps_intros)

lemma eff [keeps_intros]: "\<not> is_save x \<Longrightarrow> keeps I (eff x)"
  unfolding eff_def by (rule keeps_emod) (rule logged)

lemma eff_of: "(\<And>e. \<not> is_save (x e)) \<Longrightarrow> keeps I (\<lambda>e. eff (x e) e)"
  using eff by (auto simp: keeps_def)

lemma log_many: "I e \<Longrightarrow> list_all (\<lambda>x. \<not> is_save x) xs \<Longrightarrow> I (e\<lparr>en_log := xs @ en_log e\<rparr>)"
proof (induction xs)
  case (Cons x xs)
  then have "I (e\<lparr>en_log := xs @ en_log e\<rparr>)" by simp
  from logged [OF this, of x] show ?case using Cons.prems by simp
qed simp

lemma emod_log: "(\<And>e. list_all (\<lambda>x. \<not> is_save x) (f e)) \<Longrightarrow>
    keeps I (emod (\<lambda>e. e\<lparr>en_active := g e, en_log := f e @ en_log e\<rparr>))"
proof (rule keeps_emod)
  fix e
  assume "\<And>e. list_all (\<lambda>x. \<not> is_save x) (f e)" "I e"
  then have "I (e\<lparr>en_log := f e @ en_log e\<rparr>)" by (intro log_many)
  then show "I (e\<lparr>en_active := g e, en_log := f e @ en_log e\<rparr>)" by (rule frame) simp_all
qed

lemma set_step [keeps_intros]: "keeps I (set_step w n s)"
  unfolding set_step_def by (rule keeps_emod) (rule stepped)

lemma cancel_requested [keeps_intros]: "keeps I (cancel_requested w)"
  unfolding cancel_requested_def by (rule observe)

lemma persist [keeps_intros]: "keeps I (persist w)"
proof -
  have "keeps I (\<lambda>e. eff (Eff_persist (en_state e)) e)"
    unfolding keeps_def eff_def emod_def using saved by simp
  then show ?thesis unfolding persist_def by (auto intro!: keeps_intros split: sum.splits)
qed

lemma persist_or_log [keeps_intros]: "keeps I (persist_or_log w)"
  using persist [of w] by (simp add: keeps_def persist_or_log_def case_prod_beta)

lemma report_progress [keeps_intros]: "keeps I report_progress"
  using eff_of [of "\<lambda>e. Eff_progress (workflow_progress_info e)"] by (simp add: keeps_def report_progress_def)

lemma report_outcome [keeps_intros]: "keeps I (report_outcome wo)"
  unfolding report_outcome_def by (auto intro!: keeps_intros)

lemma find_step [keeps_intros]: "keeps I (find_step n)"
  unfolding find_step_def by (rule elift_of)

lemma clock [keeps_intros]: "keeps I (clock w)"
  unfolding clock_def by (rule keeps_basic)

lemma slots [keeps_intros]: "keeps I (update_slot n f)" "keeps I (update_focused g)" "keeps I mark_focused_killed"
  "keeps I (set_focused_execution x)" "keeps I take_focused_execution" "keeps I (remove_active_step n)"
  "keeps I (remove_first_active n)"
  unfolding update_slot_def mark_focused_killed_def set_focused_execution_def take_focused_execution_def
    update_focused_def remove_active_step_def remove_first_active_def
  by (intro emod; simp)+

lemma cancel_slot [keeps_intros]: "keeps I (cancel_slot s)"
  unfolding cancel_slot_def by (auto intro!: keeps_intros)

lemma maybe_dump [keeps_intros]: "keeps I (maybe_dump_step_failure n code)"
proof -
  have "I (snd (case slot_of e n of
      Some s \<Rightarrow> if \<not> sl_killed s \<and> sl_has_tail s then eff (Eff_failure_log n (sl_container s) code) e else eret () e
    | None \<Rightarrow> eret () e))" if "I e" for e
    using that eff by (auto simp: keeps_def eret_def split: option.splits)
  then show ?thesis unfolding maybe_dump_step_failure_def by (auto simp: keeps_def eret_def)
qed

lemma stop_agents [keeps_intros]: "keeps I stop_active_agents"
  unfolding stop_active_agents_def
  by (rule emod_log) (auto simp: list_all_iff stop_slot_effects_def split: if_splits)

lemma mark_unfinished [keeps_intros]: "keeps I (mark_unfinished w s ns)"
  by (induction ns) (auto intro!: keeps_intros)

lemma mark_all [keeps_intros]: "keeps I (mark_all_unfinished w s)"
  using mark_unfinished by (simp add: keeps_def mark_all_unfinished_def)

lemma stamp [keeps_intros]: "keeps I (stamp_cancelled w)"
  unfolding stamp_cancelled_def
  by (rule keeps_emod) (auto intro!: noted simp: same_steps_def run_identity_def phase_marks_def)

lemma abort_flag [keeps_intros]: "keeps I (emod (\<lambda>e. e\<lparr>en_abort_triggered := b\<rparr>))"
  by (rule emod) simp_all

lemma cancel_run [keeps_intros]: "keeps I (cancel_run w)"
  unfolding cancel_run_def by (auto intro!: keeps_intros)

lemma recover_auth [keeps_intros]: "keeps I (recover_auth_failure w n)"
proof -
  have k: "keeps I (ebind (ask (\<lambda>t. wd_recover_auth w t a)) (\<lambda>ok.
      if ok then ebind (emod (\<lambda>e. e\<lparr>en_auth_retries := insert n (en_auth_retries e)\<rparr>)) (\<lambda>_. eret True)
      else eret False))" for a
    by (intro keeps_intros emod) simp_all
  show ?thesis
    unfolding recover_auth_failure_def keeps_def using k
    by (auto simp: keeps_def eret_def split: option.splits)
qed

subsection \<open>Steps\<close>

lemma record_launch [keeps_intros]: "keeps I (record_launch n)"
  unfolding keeps_def record_launch_def
  by (auto intro!: noted simp: record_step_launch_def same_steps_def run_identity_def phase_marks_def Let_def split: prod.splits)

lemma prepare [keeps_intros]: "keeps I (prepare_step_launch s)"
  unfolding prepare_step_launch_def by (intro keeps_intros)

lemma launching [keeps_intros]: "keeps I (report_launching s p)"
  unfolding report_launching_def
  by (rule keeps_eseq) (auto intro!: eff_of keeps_intros)

lemma container_noted: "keeps I (emod (\<lambda>e. e\<lparr>en_state := record_step_container n c (en_state e)\<rparr>))"
  by (rule keeps_emod)
    (auto intro!: noted simp: record_step_container_def same_steps_def run_identity_def phase_marks_def)

lemma spawn [keeps_intros]: "keeps I (spawn_prepared_step w s p)"
  unfolding spawn_prepared_step_def spawn_failed_def
  by (auto intro!: keeps_intros container_noted emod split: sum.splits)

lemma on_error: "keeps I (m :: 'a eng) \<Longrightarrow> keeps I h \<Longrightarrow> keeps I (on_error m h)"
proof -
  assume m: "keeps I m" and h: "keeps I h"
  have "keeps I (ebind h (\<lambda>_. efail r :: 'a eng))" for r by (intro keeps_intros h)
  then have g: "I e \<Longrightarrow> I (snd (ebind h (\<lambda>_. efail r :: 'a eng) e))" for r e by (simp add: keeps_def)
  show ?thesis
    unfolding keeps_def
  proof (intro allI impI)
    fix e
    assume "I e"
    then show "I (snd (on_error m h e))"
      using keepsD [OF m \<open>I e\<close>] g by (cases "m e"; cases "fst (m e)") (simp_all add: on_error_def)
  qed
qed

lemma spawn_failed_report [keeps_intros]: "keeps I (report_spawn_failed s)"
  unfolding report_spawn_failed_def keeps_def eff_def emod_def eret_def
  using logged by (auto split: option.splits step_state.splits)

lemma focus_launched [keeps_intros]: "keeps I (focus_launched s x p)"
  unfolding focus_launched_def by (rule emod) simp_all

lemma launch_step [keeps_intros]: "keeps I (launch_step w)"
  unfolding launch_step_def
  by (auto intro!: keeps_intros on_error split: list.splits)

lemma finalize [keeps_intros]: "keeps I (finalize_step w n x)"
  unfolding finalize_step_def Let_def
  by (auto intro!: keeps_intros emod)

lemma finalize_result [keeps_intros]: "keeps I (finalize_result w n r)"
  unfolding finalize_result_def by (intro keeps_intros)

lemma kill_current [keeps_intros]: "keeps I (kill_current_container h)"
  unfolding kill_current_container_def by (auto intro!: keeps_intros split: option.splits)

subsection \<open>Boards and failures\<close>

lemma show_board [keeps_intros]: "keeps I (show_board w a)"
  unfolding keeps_def show_board_def using ask [unfolded keeps_def] by blast

lemma show_current [keeps_intros]: "keeps I (show_current_board w)"
  unfolding show_current_board_def by (intro keeps_intros)

lemma endings [keeps_intros]: "keeps I (handle_finish_workflow w)" "keeps I (handle_abort w)" "keeps I (pause_run w)"
  "keeps I (fail_run w n code text)"
  unfolding handle_finish_workflow_def handle_abort_def pause_run_def fail_run_def
  by (auto intro!: keeps_intros)

lemma advances [keeps_intros]: "keeps I (restart_current w)" "keeps I (handle_cancel_to_previous w)"
  "keeps I (handle_continue_in_current_container w prompt)"
  unfolding restart_current_def handle_cancel_to_previous_def handle_continue_in_current_container_def
    continue_with_def inject_next_def
  by (auto intro!: keeps_intros emod split: option.splits)

lemma iters [keeps_intros]: "keeps I m \<Longrightarrow> keeps I (iter_ended m)" "keeps I u \<Longrightarrow> keeps I (iter_continue u)"
  unfolding iter_ended_def iter_continue_def by (intro keeps_intros; assumption)+

lemma failure_interactive [keeps_intros]: "keeps I (handle_step_failure_interactive fuel w n code)"
  by (induction fuel) (auto intro!: keeps_intros split: next_action.splits option.splits)

lemma retry_countdown [keeps_intros]: "keeps I (retry_countdown_loop fuel w n start)"
  by (induction fuel) (auto intro!: keeps_intros split: yolo_tick_outcome.splits)

lemma failure_countdown [keeps_intros]: "keeps I (run_failure_retry_countdown fuel w n)"
  unfolding run_failure_retry_countdown_def by (auto intro!: keeps_intros)

lemma failure_unattended [keeps_intros]: "keeps I (handle_step_failure_unattended fuel w n code)"
  unfolding handle_step_failure_unattended_def by (auto intro!: keeps_intros emod)

lemma step_failure [keeps_intros]: "keeps I (handle_step_failure fuel w n code)"
  "keeps I (handle_group_step_failure fuel w n code)"
  unfolding handle_group_step_failure_def handle_step_failure_def by (auto intro!: keeps_intros emod)

lemma resume_finalize [keeps_intros]: "keeps I (resume_or_finalize w n finished)"
  unfolding resume_or_finalize_def by (auto intro!: keeps_intros split: option.splits)

lemma kill_unless [keeps_intros]: "keeps I (kill_unless_finished h f)"
  unfolding kill_unless_finished_def by (auto intro!: keeps_intros)

lemma mids [keeps_intros]: "keeps I m \<Longrightarrow> keeps I (mid_ended m)" "keeps I u \<Longrightarrow> keeps I (mid_loop u)"
  unfolding mid_ended_def mid_loop_def by (intro keeps_intros; assumption)+

lemma polls [keeps_intros]: "keeps I (poll_finished w x)" "keeps I (inject_focused w p)" "keeps I (cancel_to_previous_mid w n)"
  unfolding poll_finished_def inject_focused_def cancel_to_previous_mid_def
  by (auto intro!: keeps_intros split: option.splits)

lemma mid_board_action [keeps_intros]: "keeps I (handle_mid_step_control_board w n x)"
  unfolding handle_mid_step_control_board_def Let_def
  by (intro keeps_bind show_current polls) (auto intro!: keeps_intros split: next_action.splits)

lemma top_level [keeps_intros]: "keeps I (execute_top_level_action w a)"
  by (cases a) (auto intro!: keeps_intros)

subsection \<open>Waiting\<close>

lemma countdown_ends [keeps_intros]: "keeps I (countdown_ends n r)"
  unfolding countdown_ends_def by (auto intro!: keeps_intros)

lemma drive_yolo [keeps_intros]: "keeps I (drive_yolo_countdown fuel w n start)"
  by (induction fuel)
    (auto intro!: keeps_intros split: yolo_tick_outcome.splits step_event.splits stuck_event.splits engine_request.splits)

lemma mid_step_yolo [keeps_intros]: "keeps I (run_mid_step_yolo_countdown fuel w n)"
  unfolding run_mid_step_yolo_countdown_def by (auto intro!: keeps_intros)

lemma mid_board [keeps_intros]: "keeps I (mid_board w n x)"
  unfolding mid_board_def by (intro keeps_intros)

lemma finish_wait [keeps_intros]: "keeps I (finish_wait w n x r)"
  unfolding finish_wait_def by (intro keeps_intros)

lemma yolo_advance [keeps_intros]: "keeps I (yolo_advance w n x)"
  unfolding yolo_advance_def by (auto intro!: keeps_intros)

lemma step_stuck [keeps_intros]: "keeps I (handle_step_stuck fuel w n x)"
  unfolding handle_step_stuck_def by (auto intro!: keeps_intros split: mid_step_yolo.splits)

lemma cancel_step [keeps_intros]: "keeps I (cancel_step w x)"
  unfolding cancel_step_def by (intro keeps_intros)

lemma step_select [keeps_intros]: "keeps I (step_select w)"
  unfolding step_select_def by (rule observe)

lemma step_wait [keeps_intros]: "keeps I (step_wait_loop fuel w n x)"
  by (induction fuel)
    (auto intro!: keeps_intros split: prod.splits step_event.splits stuck_event.splits engine_request.splits option.splits)

lemma step_once [keeps_intros]: "keeps I (step_once_interruptible fuel w)"
  unfolding step_once_interruptible_def by (auto intro!: keeps_intros split: option.splits)

lemma abort_on_failure [keeps_intros]: "keeps I (abort_on_failure w)"
  unfolding abort_on_failure_def by (auto intro!: keeps_intros)

lemma failed_outcome [keeps_intros]: "keeps I (handle_failed_outcome fuel w n code)"
  unfolding handle_failed_outcome_def by (auto intro!: keeps_intros)

lemma after_success [keeps_intros]: "keeps I (after_success w)"
  unfolding after_success_def by (auto intro!: keeps_intros)

lemma single_iteration [keeps_intros]: "keeps I (run_single_step_iteration fuel w)"
  unfolding run_single_step_iteration_def
  by (auto intro!: keeps_intros split: interruptible_result.splits step_status.splits)

subsection \<open>Groups\<close>

lemma reset_siblings [keeps_intros]: "keeps I (reset_siblings ns w)"
  by (induction ns) (auto intro!: keeps_intros)

lemma launch_failed [keeps_intros]: "keeps I (launch_failed w s)"
  unfolding launch_failed_def by (auto intro!: keeps_intros)

lemma add_slot [keeps_intros]: "keeps I (add_parallel_slot s x p)"
  unfolding add_parallel_slot_def by (rule emod) simp_all

lemma launch_parallel [keeps_intros]: "keeps I (launch_parallel_step w s b)"
  unfolding launch_parallel_step_def by (auto intro!: keeps_intros on_error)

lemma launch_batch [keeps_intros]: "keeps I (launch_batch w cap queue)"
  by (induction queue) (auto intro!: keeps_intros)

lemma launch_head [keeps_intros]: "keeps I (launch_head w cap queue)"
  unfolding launch_head_def by (auto intro!: keeps_intros split: list.splits)

lemma stuck_event [keeps_intros]: "keeps I (handle_parallel_stuck_event w n ev)"
  unfolding handle_parallel_stuck_event_def
  by (auto intro!: keeps_intros split: prod.splits stuck_event.splits option.splits)

lemma yolo_parallel [keeps_intros]: "keeps I (yolo_advance_parallel w n cap b queue)"
  unfolding yolo_advance_parallel_def by (auto intro!: keeps_intros split: option.splits)

lemma tick_slots [keeps_intros]: "keeps I (tick_slots w now cap b ts queue)"
  by (induction w now cap b ts queue rule: tick_slots.induct)
    (auto intro!: keeps_intros split: yolo_tick_outcome.splits)

lemma tick_yolo [keeps_intros]: "keeps I (tick_parallel_yolo w cap b queue)"
  unfolding tick_parallel_yolo_def by (auto intro!: keeps_intros)

lemma kill_active [keeps_intros]: "keeps I kill_active_parallel_steps"
  unfolding kill_active_parallel_steps_def
  by (auto intro!: keeps_intros emod_log simp: list_all_iff killed_slot_effects_def split: if_splits)

lemma group_endings [keeps_intros]: "keeps I (cancel_parallel_group w)" "keeps I (abort_parallel_group w)"
  "keeps I (pause_parallel_group w)"
  unfolding cancel_parallel_group_def abort_parallel_group_def pause_parallel_group_def
  by (auto intro!: keeps_intros)

lemma restart_parallel [keeps_intros]: "keeps I (restart_parallel_step w n cap queue)"
  unfolding restart_parallel_step_def Let_def by (auto intro!: keeps_intros split: option.splits)

lemma reset_steps [keeps_intros]: "keeps I (reset_steps w ns)"
  by (induction ns) (auto intro!: keeps_intros)

lemma skip_steps [keeps_intros]: "keeps I (skip_steps w ns)"
  by (induction ns) (auto intro!: keeps_intros)

lemma rewind_skip [keeps_intros]: "keeps I (rewind_parallel_group w ns)" "keeps I (skip_parallel_group w ns)"
  unfolding rewind_parallel_group_def skip_parallel_group_def group_closed_def by (auto intro!: keeps_intros)

lemma ask_group [keeps_intros]: "keeps I (ask_parallel_group w q)"
  unfolding ask_parallel_group_def by (auto intro!: keeps_intros)

lemma resolve_group [keeps_intros]: "keeps I (resolve_parallel_group_action w action grp)"
  unfolding resolve_parallel_group_action_def
  by (cases action) (auto intro!: keeps_intros split: parallel_group_decision.splits)

lemma focus_parallel [keeps_intros]: "keeps I (focus_parallel_step n)"
  unfolding focus_parallel_step_def by (rule emod) (auto simp: Let_def split: option.splits)

lemma board_action [keeps_intros]: "keeps I (group_board_action w action a grp retryable)"
  unfolding group_board_action_def by (cases action) (auto intro!: keeps_intros)

lemma engine_request [keeps_intros]: "keeps I (handle_parallel_engine_request w req grp retryable)"
  unfolding handle_parallel_engine_request_def
  by (cases req) (auto intro!: keeps_intros elift_of)

lemma turns [keeps_intros]: "keeps I m \<Longrightarrow> keeps I (turn_over m)" "keeps I u \<Longrightarrow> keeps I (turn_go failed u)"
  unfolding turn_over_def turn_go_def by (intro keeps_intros; assumption)+

lemma after_exit [keeps_intros]: "keeps I (after_exit w cap s b status queue failed)"
  unfolding after_exit_def by (cases status) (auto intro!: keeps_intros)

lemma record_exit [keeps_intros]: "keeps I (record_exit w cap n x b queue failed)"
  unfolding record_exit_def by (auto intro!: keeps_intros emod split: prod.splits)

lemma member_exited [keeps_intros]: "keeps I (member_exited w cap n i r queue failed)"
  unfolding member_exited_def by (auto intro!: keeps_intros)

lemma group_request [keeps_intros]: "keeps I (group_request w grp cap req queue failed)"
  unfolding group_request_def by (auto intro!: keeps_intros split: parallel_request_outcome.splits)

lemma group_step [keeps_intros]: "keeps I (group_step w grp cap queue failed)"
  unfolding group_step_def group_select_def by (auto intro!: keeps_intros split: prod.splits group_event.splits)

lemma group_loop [keeps_intros]: "keeps I (group_loop fuel w grp cap queue failed)"
  by (induction fuel arbitrary: queue failed) (auto intro!: keeps_intros split: group_turn.splits)

lemma parallel_group [keeps_intros]: "keeps I (run_parallel_group fuel w ready)"
  unfolding run_parallel_group_def Let_def by (auto intro!: keeps_intros emod)

subsection \<open>Runs\<close>

lemma recover_failures [keeps_intros]: "keeps I (recover_failures fuel w fs)"
  by (induction fuel w fs rule: recover_failures.induct) (auto intro!: keeps_intros split: iteration_outcome.splits)

lemma parallel_iteration [keeps_intros]: "keeps I (parallel_iteration fuel w ready)"
  unfolding parallel_iteration_def by (auto intro!: keeps_intros split: group_outcome.splits)

lemma completed_run [keeps_intros]: "keeps I report_completed_run"
  unfolding report_completed_run_def by (intro keeps_intros)

lemma iteration [keeps_intros]: "keeps I (run_iteration fuel w)"
  unfolding run_iteration_def by (auto intro!: keeps_intros elift_of)

lemma run_loop [keeps_intros]: "keeps I (run_loop fuel w)"
  by (induction fuel) (auto intro!: keeps_intros split: iteration_outcome.splits)

lemma completion [keeps_intros]: "keeps I (run_to_completion fuel w)"
  unfolding run_to_completion_def by (intro keeps_intros)

end

text \<open>With the phases: what a predicate has to survive for the whole command to keep it.\<close>

locale command_invariant = engine_invariant +
  assumes rephased: "I e \<Longrightarrow> same_steps (en_state e) st \<Longrightarrow> I (e\<lparr>en_state := st\<rparr>)"
begin

lemma moves: "(\<And>st. same_steps st (f st)) \<Longrightarrow> keeps I (mod_state f)"
  unfolding mod_state_def by (rule keeps_emod) (rule rephased)

end

sublocale command_invariant \<subseteq> ph: phase_keeping I
  by unfold_locales (auto intro: later moves keeps_intros)

context command_invariant
begin

lemma main [keeps_intros]: "keeps I (exec_main fuel w b)"
  unfolding exec_main_def by (auto intro!: keeps_intros)

lemma result [keeps_intros]: "keeps I (exec_result w r out)"
  unfolding exec_result_def by (auto intro!: keeps_intros)

lemma command: "keeps I (execute_prepared fuel x W)"
  unfolding execute_prepared_def
  by (intro keeps_intros ph.declare_phases ph.before_main ph.after_main ph.mark)

lemma cleanup: "keeps I (finish_cancelled_cleanup fuel w runtime W)"
proof -
  have "keeps I (mark_done (pw_world w))"
    unfolding mark_done_def using moves [OF ph.states(3), unfolded mod_state_def] by (auto intro!: keeps_intros)
  then show ?thesis
    unfolding finish_cancelled_cleanup_def by (auto intro!: keeps_intros ph.phases)
qed

end

subsection \<open>Checkpoints\<close>

text \<open>Whatever was saved, and what would be saved now, is a consistent state of the same run.\<close>

definition checkpoints_ok :: "nat \<times> nat \<times> string \<times> string \<times> nat option \<Rightarrow> engine \<Rightarrow> bool" where
  "checkpoints_ok i e \<longleftrightarrow> state_ok (en_state e) \<and> run_identity (en_state e) = i \<and>
     (\<forall>st. Eff_persist st \<in> set (en_log e) \<longrightarrow> state_ok st \<and> run_identity st = i)"

interpretation checkpoints: command_invariant "checkpoints_ok i"
proof unfold_locales
  have same: "state_ok st' \<and> run_identity st' = run_identity st" if "state_ok st" "same_steps st st'" for st st'
    using that by (simp add: same_steps_def state_ok_def status_of_def)
  have moved: "checkpoints_ok i (e\<lparr>en_state := st\<rparr>)" if "checkpoints_ok i e" "same_steps (en_state e) st" for e st
    using that same [of "en_state e" st] by (simp add: checkpoints_ok_def)
  show "checkpoints_ok i (e\<lparr>en_state := st\<rparr>)" if "checkpoints_ok i e" "same_steps (en_state e) st"
      "phase_marks st = phase_marks (en_state e)" for e st
    using that(1,2) by (rule moved)
  show "checkpoints_ok i (e\<lparr>en_state := st\<rparr>)" if "checkpoints_ok i e" "same_steps (en_state e) st" for e st
    using that by (rule moved)
  show "checkpoints_ok i (e\<lparr>en_state := set_status now n s (en_state e)\<rparr>)" if "checkpoints_ok i e" for e now n s
  proof -
    have "run_identity (set_status now n s (en_state e)) = run_identity (en_state e)"
      by (simp add: run_identity_def set_status_def)
    then show ?thesis using that set_status_ok by (simp add: checkpoints_ok_def)
  qed
qed (auto simp: checkpoints_ok_def)

end
