(* ===== verification/Exec_Cancel.thy ===== *)
theory Exec_Cancel
  imports Phase_Keeping
begin

text \<open>
  A command whose token has fired: no phase of it publishes, repairs or launches anything, and it ends cancelled.
  The same for the clean-up that an interrupted cancellation leaves to the next start.
\<close>

fun is_phase :: "effect \<Rightarrow> bool" where
  "is_phase (Eff_phase _ _ _) = True"
| "is_phase _ = False"

text \<open>A predicate of the log that minds only launches and phase events is kept by a cancellation.\<close>

locale stopping_log_invariant = log_invariant +
  assumes others: "\<not> is_launch x \<Longrightarrow> \<not> is_phase x \<Longrightarrow> ok x"
begin

lemma log_many: "I e \<Longrightarrow> list_all ok xs \<Longrightarrow> I (e\<lparr>en_log := xs @ en_log e\<rparr>)"
proof (induction xs)
  case (Cons x xs)
  then have "I (e\<lparr>en_log := xs @ en_log e\<rparr>)" by simp
  from logged [OF this, of x] show ?case using Cons.prems by simp
qed simp

lemma stop_agents: "keeps I stop_active_agents"
  unfolding stop_active_agents_def
proof (rule keeps_emod)
  fix e
  assume i: "I e"
  have "list_all ok (rev (concat (map stop_slot_effects (en_active e))))"
    by (auto simp: list_all_iff stop_slot_effects_def intro!: others split: if_splits)
  then have "I (e\<lparr>en_log := rev (concat (map stop_slot_effects (en_active e))) @ en_log e\<rparr>)"
    using i by (rule log_many [rotated])
  then show "I (e\<lparr>en_active := [], en_log := rev (concat (map stop_slot_effects (en_active e))) @ en_log e\<rparr>)"
    by (rule frame) simp_all
qed

lemma mark_unfinished: "keeps I (mark_unfinished w s ns)"
  by (induction ns) (auto intro!: keeps_intros emod simp: set_step_def)

lemma cancel_run: "keeps I (cancel_run w)"
proof -
  have "keeps I (mark_all_unfinished w Cancelled)"
    using mark_unfinished by (simp add: keeps_def mark_all_unfinished_def)
  moreover have "keeps I (stamp_cancelled w)"
    unfolding stamp_cancelled_def by (rule emod) simp_all
  ultimately show ?thesis
    unfolding cancel_run_def report_outcome_def
    by (auto intro!: keeps_intros stop_agents emod persist eff others)
qed

lemma mark_done: "keeps I (mark_done w)"
  unfolding mark_done_def by (auto intro!: keeps_intros emod persist)

end

subsection \<open>The token has fired\<close>

definition quenched :: "world \<Rightarrow> phase_step list \<Rightarrow> effect list \<Rightarrow> engine \<Rightarrow> bool" where
  "quenched w steps L e \<longleftrightarrow> cancelled_by w (en_tick e) \<and>
     (\<exists>new. en_log e = new @ L \<and> list_all (cancel_ok steps) new)"

text \<open>What a cancelled run may have logged since.\<close>

definition unpublished :: "phase_step list \<Rightarrow> effect list \<Rightarrow> engine \<Rightarrow> bool" where
  "unpublished steps L e \<longleftrightarrow> (\<exists>new. en_log e = new @ L \<and> list_all (cancel_ok steps) new)"

interpretation unpublished: stopping_log_invariant "unpublished steps L" "cancel_ok steps"
proof unfold_locales
  show "unpublished steps L e'" if "unpublished steps L e" "en_tick e' = en_tick e" "en_log e' = en_log e" for e e'
    using that by (simp add: unpublished_def)
  show "unpublished steps L (e\<lparr>en_log := x # en_log e\<rparr>)" if c: "unpublished steps L e" and x: "cancel_ok steps x" for e x
  proof -
    obtain new where "en_log e = new @ L" "list_all (cancel_ok steps) new" using c by (auto simp: unpublished_def)
    then show ?thesis using x unfolding unpublished_def by (auto intro!: exI [of _ "x # new"])
  qed
  show "cancel_ok steps x" if "\<not> is_launch x" "\<not> is_phase x" for x using that by (cases x) simp_all
qed (simp_all add: unpublished_def)

interpretation quenched: stopping_log_invariant "quenched w steps L" "cancel_ok steps"
proof unfold_locales
  show "quenched w steps L e'" if "quenched w steps L e" "en_tick e' = en_tick e" "en_log e' = en_log e" for e e'
    using that by (simp add: quenched_def)
  show "quenched w steps L (e\<lparr>en_tick := Suc (en_tick e)\<rparr>)" if "quenched w steps L e" for e
    using that cancelled_later by (auto simp: quenched_def)
  show "quenched w steps L (e\<lparr>en_log := x # en_log e\<rparr>)" if c: "quenched w steps L e" and x: "cancel_ok steps x" for e x
    using unpublished.logged [of steps L e x] c x by (simp add: quenched_def unpublished_def)
  show "cancel_ok steps x" if "\<not> is_launch x" "\<not> is_phase x" for x using that by (rule unpublished.others)
qed simp

text \<open>Once fired, a token stays fired through a phase.\<close>

interpretation fired: phase_keeping "\<lambda>e. cancelled_by w (en_tick e)"
  by unfold_locales
    (auto simp: keeps_def eff_def emod_def mod_state_def persist_def observe_def ebind_def efail_def cancelled_later
      split: sum.splits)

lemma teardown_unpublished:
  assumes "cancelled_by (pw_world w) (en_tick e) \<or> opt = cancelled_options b ts" and "unpublished (map Teardown ts) L e"
  shows "unpublished (map Teardown ts) L
    (snd (run_phase_with fuel w TeardownKind (map Teardown ts) aborts on_failure opt e))"
proof -
  obtain old where "en_log e = old @ L" "list_all (cancel_ok (map Teardown ts)) old"
    using assms(2) by (auto simp: unpublished_def)
  then show ?thesis
    using hushed_run [OF assms(1) surjective_pairing]
    unfolding unpublished_def by (metis append.assoc list_all_append)
qed

lemma teardown_quenched:
  "keeps (quenched (pw_world w) (map Teardown ts) L)
     (run_phase_with fuel w TeardownKind (map Teardown ts) aborts on_failure opt)"
proof -
  have q: "quenched (pw_world w) steps L e \<longleftrightarrow> cancelled_by (pw_world w) (en_tick e) \<and> unpublished steps L e" for steps e
    by (simp add: quenched_def unpublished_def)
  show ?thesis
    using fired.phase_with [of "pw_world w"] teardown_unpublished [OF disjI1]
    by (simp add: keeps_def q)
qed

text \<open>A setup that starts with a fired token stops before its first step.\<close>

lemma quenched_asks:
  "valid (quenched w steps L) (cancel_requested w) (\<lambda>c e. quenched w steps L e \<and> c) (quenched w steps L)"
  unfolding valid_def cancel_requested_def observe_def by (auto simp: quenched_def cancelled_later)

lemma setup_quenched: "keeps (quenched (pw_world w) steps L) (run_phase fuel w SetupKind ss aborts on_failure)"
proof -
  have turn: "keeps (quenched (pw_world w) steps L) (ebind (phase_turn fuel w p i step out) k)"
    if "pp_kind p = SetupKind" "\<not> pro_resume (pp_options p)" "pro_observe_cancel (pp_options p)" "\<And>o1. k (PhaseBreak o1) = eret o1"
    for p i step out and k :: "turn_result \<Rightarrow> phase_outcome eng"
  proof -
    have "valid (quenched (pw_world w) steps L) (phase_turn fuel w p i step out)
        (\<lambda>r e. quenched (pw_world w) steps L e \<and> (\<exists>o1. r = PhaseBreak o1)) (quenched (pw_world w) steps L)"
      unfolding phase_turn_def Let_def eand_def using that
      by (intro valid_bind [OF valid_get [where Q = "\<lambda>_. quenched (pw_world w) steps L"]]) (auto intro!: valid_bind [OF quenched_asks] valid_pure2 valid_ret)
    then show ?thesis by (rule keeps_after) (auto simp: that(4) keeps_basic)
  qed
  have loop: "keeps (quenched (pw_world w) steps L) (phase_loop fuel w p i ss out)"
    if "pp_kind p = SetupKind" "\<not> pro_resume (pp_options p)" "pro_observe_cancel (pp_options p)" for p i ss out
    by (cases ss) (auto intro!: turn keeps_basic simp: that)
  show ?thesis
    unfolding run_phase_def run_phase_with_def run_plan_def enter_phase_def reset_or_rebuild_phase_states_def
      refresh_phase_states_def finish_phase_def Let_def
    by (auto intro!: keeps_intros loop quenched.mod_state quenched.persist quenched.eand quenched.cancel)
qed

lemma execute_quenched:
  "keeps (quenched (ei_world x) (map Teardown (teardown_steps_of W)) L) (execute_prepared fuel x W)"
proof -
  let ?I = "quenched (ei_world x) (map Teardown (teardown_steps_of W)) L"
  have s: "pw_world (setup_world x) = ei_world x" "pw_world (teardown_world x b) = ei_world x" for b
    by (simp_all add: setup_world_def teardown_world_def)
  have declared: "keeps ?I (declare_phase_steps (setup_world x) ss ts)" for ss ts
    unfolding declare_phase_steps_def refresh_phase_states_def
    by (auto intro!: keeps_intros quenched.mod_state quenched.persist simp: s)
  have setup1: "keeps ?I (run_phase fuel (setup_world x) SetupKind ss aborts on_failure)" for ss aborts on_failure
    using setup_quenched [of "setup_world x"] by (simp add: s)
  have setup1x: "keeps ?I (exec_setup fuel x W)"
    unfolding exec_setup_def by (auto intro!: keeps_intros setup1 split: option.splits)
  have main: "keeps ?I (exec_main fuel (ei_world x) b)" for b
    unfolding exec_main_def
    by (rule keeps_bind, rule keeps_after [OF quenched_asks])
      (auto intro!: keeps_intros quenched.cancel_run quenched.cancel)
  have down1: "keeps ?I (run_phase_with fuel (teardown_world x b) TeardownKind (map Teardown (teardown_steps_of W)) aborts on_failure opt)"
    for b aborts on_failure opt
    using teardown_quenched [of "teardown_world x b"] by (simp add: s)
  have down: "keeps ?I (exec_teardown fuel x W r)" for r
    unfolding exec_teardown_def Let_def run_teardown_cancelled_def run_phase_def
    by (auto intro!: keeps_intros down1)
  have result: "keeps ?I (exec_result (ei_world x) r out)" for r out
    unfolding exec_result_def by (auto intro!: keeps_intros quenched.cancel quenched.cancel_run)
  have finish: "keeps ?I (exec_finish (ei_world x))"
    unfolding exec_finish_def by (auto intro!: keeps_intros quenched.mark_done)
  show ?thesis
    unfolding execute_prepared_def by (intro keeps_intros declared setup1x main down result finish)
qed

lemma cleanup_unpublished:
  "keeps (unpublished (map Teardown (teardown_steps_of W)) L) (finish_cancelled_cleanup fuel w runtime W)"
proof -
  have "keeps (unpublished (map Teardown ts) L) (resume_teardown_cancelled fuel w ts aborts)" for ts aborts
    unfolding resume_teardown_cancelled_def
    using teardown_unpublished [OF disjI2 [OF refl]] by (simp add: keeps_def)
  then show ?thesis
    unfolding finish_cancelled_cleanup_def
    by (auto intro!: keeps_intros unpublished.cancel_run unpublished.mark_done)
qed

text \<open>
  A command whose token has fired before it starts ends cancelled, or with the error of a save that failed since.
\<close>

definition gave_up :: "(engine_error, workflow_outcome) result \<Rightarrow> bool" where
  "gave_up r \<longleftrightarrow> r = Inr RunCancelled \<or> (\<exists>x. r = Inl x)"

definition unsaved :: "world \<Rightarrow> nat \<Rightarrow> engine_error \<Rightarrow> engine \<Rightarrow> bool" where
  "unsaved w T err e \<longleftrightarrow> (\<exists>t x. T \<le> t \<and> t < en_tick e \<and> wd_save w t = Inl x \<and> err = DataErr x)"

definition gave_up_since :: "world \<Rightarrow> nat \<Rightarrow> (engine_error, workflow_outcome) result \<Rightarrow> engine \<Rightarrow> bool" where
  "gave_up_since w T r e \<longleftrightarrow> T \<le> en_tick e \<and> (r = Inr RunCancelled \<or> (\<exists>err. r = Inl err \<and> unsaved w T err e))"

lemma cancelled_since: "T \<le> en_tick e \<Longrightarrow> gave_up_since w T (Inr RunCancelled) e"
  by (simp add: gave_up_since_def)

interpretation since: phase_keeping "\<lambda>e. T \<le> en_tick e"
  by unfold_locales
    (auto simp: keeps_def eff_def emod_def mod_state_def persist_def observe_def ebind_def efail_def split: sum.splits)

interpretation given_up: phase_keeping "gave_up_since w T r"
  by unfold_locales
    (auto simp: gave_up_since_def unsaved_def keeps_def eff_def emod_def mod_state_def persist_def observe_def ebind_def
      efail_def less_Suc_eq split: sum.splits)

lemma fired_since: "cancelled_by w T \<Longrightarrow> T \<le> t \<Longrightarrow> cancelled_by w t"
  by (auto simp: cancelled_by_def split: option.splits)

lemma fired_asks:
  assumes "cancelled_by w T"
  shows "valid (\<lambda>e. T \<le> en_tick e) (cancel_requested w) (\<lambda>c e. T \<le> en_tick e \<and> c) (\<lambda>e. T \<le> en_tick e)"
  unfolding valid_def cancel_requested_def observe_def using fired_since [OF assms] by auto

lemma mark_unfinished_ticks: "\<exists>st. mark_unfinished w s ns e = (Ok (), e\<lparr>en_state := st\<rparr>)"
proof (induction ns arbitrary: e)
  case Nil
  have "mark_unfinished w s [] e = (Ok (), e\<lparr>en_state := en_state e\<rparr>)" by (simp add: eret_def)
  then show ?case by blast
next
  case (Cons n ns)
  obtain st where "set_step w n s e = (Ok (), e\<lparr>en_state := st\<rparr>)" by (simp add: set_step_def emod_def)
  then show ?case using Cons [of e] Cons [of "e\<lparr>en_state := st\<rparr>"]
    by (auto simp: ebind_def eget_def)
qed

text \<open>The only way a cancellation fails is that the state cannot be saved.\<close>

lemma cancel_gives_up:
  "valid (\<lambda>e. T \<le> en_tick e) (attempt (cancel_run w)) (gave_up_since w T) (\<lambda>e. T \<le> en_tick e)"
proof (unfold valid_def, intro allI impI)
  fix e :: engine assume T: "T \<le> en_tick e"
  let ?e = "e\<lparr>en_active := [], en_log := rev (concat (map stop_slot_effects (en_active e))) @ en_log e,
      en_abort_triggered := False\<rparr>"
  obtain st where m: "mark_unfinished w Cancelled (map ws_name (wf_steps (en_workflow e))) ?e = (Ok (), ?e\<lparr>en_state := st\<rparr>)"
    using mark_unfinished_ticks by blast
  show "case attempt (cancel_run w) e of (Ok r, e') \<Rightarrow> gave_up_since w T r e' | (_, e') \<Rightarrow> T \<le> en_tick e'"
    using m T
    by (cases "wd_save w (en_tick e)")
      (auto simp: attempt_def cancel_run_def ebind_def stop_active_agents_def emod_def mark_all_unfinished_def
        stamp_cancelled_def persist_def observe_def eff_def efail_def report_outcome_def eret_def
        gave_up_since_def unsaved_def)
qed

lemma cancel_run_returns: "cancel_run w e = (Ok r, e') \<Longrightarrow> r = RunCancelled"
  by (auto simp: cancel_run_def report_outcome_def ebind_def eret_def split: prod.splits ran.splits)

lemma main_gives_up:
  assumes "cancelled_by w T"
  shows "valid (\<lambda>e. T \<le> en_tick e) (exec_main fuel w b) (gave_up_since w T) (\<lambda>e. T \<le> en_tick e)"
proof -
  have first: "valid (\<lambda>e. T \<le> en_tick e) (ebind (cancel_requested w) (\<lambda>c. if c then attempt (cancel_run w) else k))
      (gave_up_since w T) (\<lambda>e. T \<le> en_tick e)" for k
    by (rule valid_bind [OF fired_asks [OF assms]], rule valid_pure2) (simp add: cancel_gives_up)
  have second: "valid (gave_up_since w T r)
      (ebind (cancel_requested w) (\<lambda>c. if c \<and> r \<noteq> Inr RunCancelled then attempt (cancel_run w) else eret r))
      (gave_up_since w T) (\<lambda>e. T \<le> en_tick e)" for r
  proof (rule valid_bind)
    show "valid (gave_up_since w T r) (cancel_requested w) (\<lambda>_. gave_up_since w T r) (\<lambda>e. T \<le> en_tick e)"
      using given_up.observing(2) [of w T r w]
      by (rule valid_conseq [OF keeps_valid]) (simp_all add: gave_up_since_def)
    show "valid (gave_up_since w T r) (if c \<and> r \<noteq> Inr RunCancelled then attempt (cancel_run w) else eret r)
        (gave_up_since w T) (\<lambda>e. T \<le> en_tick e)" for c
      by (rule valid_if) (auto intro!: valid_ret valid_pre [OF cancel_gives_up] simp: gave_up_since_def)
  qed
  show ?thesis
    unfolding exec_main_def by (rule valid_bind [OF first]) (rule second)
qed

lemma result_gives_up:
  "valid (gave_up_since w T r) (exec_result w r out) (gave_up_since w T) (\<lambda>e. T \<le> en_tick e)"
proof -
  have k: "valid (gave_up_since w T r) m (\<lambda>_. gave_up_since w T r) (\<lambda>e. T \<le> en_tick e)"
    if "keeps (gave_up_since w T r) m" for m :: "'b eng"
    by (rule valid_conseq [OF keeps_valid [OF that]]) (simp_all add: gave_up_since_def)
  have c: "valid (gave_up_since w T r) (attempt (cancel_run w)) (gave_up_since w T) (\<lambda>e. T \<le> en_tick e)"
    by (rule valid_pre [OF cancel_gives_up]) (simp add: gave_up_since_def)
  have s: "\<not> workflow_succeeded r" if "gave_up_since w T r e" for e
    using that by (auto simp: gave_up_since_def workflow_succeeded_def)
  show ?thesis
    unfolding exec_result_def
  proof (rule valid_bind [OF k], intro keeps_intros given_up.observing, rule valid_bind [OF k], rule keeps_basic, rule valid_if)
    show "valid (gave_up_since w T r) (attempt (cancel_run w)) (gave_up_since w T) (\<lambda>e. T \<le> en_tick e)" by (rule c)
    show "valid (gave_up_since w T r)
        (if (pho_aborted out \<or> pho_any_failed out) \<and> workflow_succeeded r
         then eret (Inr CompletedTeardownFailed) else eret r) (gave_up_since w T) (\<lambda>e. T \<le> en_tick e)"
      by (rule valid_if; rule valid_ret) (use s in auto)
  qed
qed

lemma execute_gives_up:
  assumes "cancelled_by (ei_world x) T"
  shows "valid (\<lambda>e. T \<le> en_tick e) (execute_prepared fuel x W) (\<lambda>v e. gave_up_since (ei_world x) T (ee_result v) e)
     (\<lambda>e. T \<le> en_tick e)"
proof -
  have k: "valid (gave_up_since w T r) m (\<lambda>_. gave_up_since w T r) (\<lambda>e. T \<le> en_tick e)"
    if "keeps (gave_up_since w T r) m" for m :: "'b eng" and w r
    by (rule valid_conseq [OF keeps_valid [OF that]]) (simp_all add: gave_up_since_def)
  show ?thesis
    unfolding execute_prepared_def
    by (rule valid_bind [OF keeps_valid [OF since.declare_phases]], rule valid_bind [OF keeps_valid [OF keeps_elift]],
        rule valid_bind [OF keeps_valid [OF since.before_main]], rule valid_bind [OF main_gives_up [OF assms]],
        rule valid_bind [OF k [OF given_up.after_main]], rule valid_bind [OF result_gives_up],
        rule valid_bind [OF k [OF given_up.mark]], rule valid_get) simp
qed

end
