(* ===== verification/Exec_Safety.thy ===== *)
theory Exec_Safety
  imports Phase_Keeping Phase_Outcome Run_Theorems
begin

text \<open>
  How setup, the steps and teardown compose: phases never touch what the main phase is about (the locale
  \<open>phase_blind\<close>), so the result of a command agrees with the state it leaves.
\<close>

subsection \<open>Phases leave the main phase alone\<close>

text \<open>The interface of a predicate that reads the core but not the records of the phases.\<close>

locale phase_blind = core_predicate P for P :: "engine \<Rightarrow> bool" +
  assumes blind: "P e \<Longrightarrow> step_states st = step_states (en_state e) \<Longrightarrow>
    completed_steps st = completed_steps (en_state e) \<Longrightarrow> P (e\<lparr>en_state := st\<rparr>)"
begin

lemma quietly: "quiet m \<Longrightarrow> keeps P m"
  by (rule keeps_of_valid) (rule quiet_keeps)

lemma ticks: "P e \<Longrightarrow> P (e\<lparr>en_tick := Suc (en_tick e)\<rparr>)"
  by (rule core_only) (auto simp: core_def)

lemma moves: "(\<And>st. same_steps st (f st)) \<Longrightarrow> keeps P (mod_state f)"
  unfolding mod_state_def by (rule keeps_emod) (auto intro!: blind simp: same_steps_def)

end

sublocale phase_blind \<subseteq> phase_keeping P
  by unfold_locales (auto intro: ticks moves quietly quiet_intros)

text \<open>The invariant of a run is such a predicate, and so is where its steps are.\<close>

lemma status_of_states: "step_states st = step_states st' \<Longrightarrow> status_of st = status_of st'"
  by (intro ext) (simp add: status_of_def)

interpretation blind_inv: phase_blind "run_inv W D M"
proof (intro phase_blind.intro phase_blind_axioms.intro)
  show "core_predicate (run_inv W D M)" by (rule inv.core_predicate_axioms)
  show "run_inv W D M (e\<lparr>en_state := st\<rparr>)" if "run_inv W D M e" "step_states st = step_states (en_state e)"
      "completed_steps st = completed_steps (en_state e)" for e st
    using that(1) unfolding run_inv_def state_ok_def by (simp add: that(2,3) status_of_states [OF that(2)])
qed

interpretation blind_J: phase_blind "J W D M R"
proof (intro phase_blind.intro phase_blind_axioms.intro)
  show "core_predicate (J W D M R)" by (rule jinv.core_predicate_axioms)
  show "J W D M R (e\<lparr>en_state := st\<rparr>)" if "J W D M R e" "step_states st = step_states (en_state e)"
      "completed_steps st = completed_steps (en_state e)" for e st
    using that blind_inv.blind by (simp add: J_def running_def status_of_states [OF that(2)])
qed

interpretation blind_ended: phase_blind "ended W D M wo"
proof (intro phase_blind.intro phase_blind_axioms.intro)
  show "core_predicate (ended W D M wo)" by (rule endinv.core_predicate_axioms)
  show "ended W D M wo (e\<lparr>en_state := st\<rparr>)" if "ended W D M wo e" "step_states st = step_states (en_state e)"
      "completed_steps st = completed_steps (en_state e)" for e st
  proof -
    have "outcome_ok W wo e \<Longrightarrow> outcome_ok W wo (e\<lparr>en_state := st\<rparr>)"
      by (cases wo) (auto simp: closed_as_def is_complete_def that(2,3) status_of_states [OF that(2)])
    then show ?thesis using that blind_J.blind by (simp add: ended_def)
  qed
qed

subsection \<open>The result of a command\<close>

text \<open>A result agrees with the state it leaves; an error leaves a consistent state.\<close>

definition agrees :: "workflow \<Rightarrow> workflow_dag \<Rightarrow> nat option \<Rightarrow> (engine_error, workflow_outcome) result \<Rightarrow> engine \<Rightarrow> bool" where
  "agrees W D M r e \<longleftrightarrow> run_inv W D M e \<and>
     (case r of Inl _ \<Rightarrow> True | Inr CompletedTeardownFailed \<Rightarrow> ended W D M Completed e | Inr wo \<Rightarrow> ended W D M wo e)"

lemma agrees_inv: "agrees W D M r e \<Longrightarrow> run_inv W D M e"
  by (simp add: agrees_def)

lemma ended_agrees: "ended W D M wo e \<Longrightarrow> agrees W D M (Inr wo) e"
  by (cases wo) (simp_all add: agrees_def ended_inv, simp add: ended_def)

lemma attempt_agrees:
  "valid P m (ended W D M) (run_inv W D M) \<Longrightarrow> valid P (attempt m) (agrees W D M) (run_inv W D M)"
  unfolding valid_def attempt_def
  by (auto simp: agrees_def [of _ _ _ "Inl _"] intro: ended_agrees split: prod.splits ran.splits)

interpretation blind_agrees: phase_blind "agrees W D M r"
proof unfold_locales
  show "agrees W D M r e'" if "core e = core e'" "agrees W D M r e" for e e'
    using that(2) inv.core_only [OF that(1)] endinv.core_only [OF that(1)]
    unfolding agrees_def by (auto split: sum.splits workflow_outcome.splits)
  show "agrees W D M r (e\<lparr>en_state := st\<rparr>)" if "agrees W D M r e" "step_states st = step_states (en_state e)"
      "completed_steps st = completed_steps (en_state e)" for e st
    using that(1) blind_inv.blind [OF _ that(2,3)] blind_ended.blind [OF _ that(2,3)]
    unfolding agrees_def by (auto split: sum.splits workflow_outcome.splits)
qed

lemma cancel_agrees: "valid (agrees W D M r) (attempt (cancel_run w)) (agrees W D M) (run_inv W D M)"
  by (rule valid_pre [OF attempt_agrees [OF cancel_run_valid] agrees_inv])

lemma agrees_first:
  "quiet m \<Longrightarrow> (\<And>x. valid (agrees W D M r) (k x) Q (run_inv W D M)) \<Longrightarrow>
     valid (agrees W D M r) (ebind m k) Q (run_inv W D M)"
  by (rule blind_agrees.quiet_then) (auto intro: agrees_inv)

lemma main_agrees: "valid (J W D M {}) (exec_main fuel w b) (agrees W D M) (run_inv W D M)"
  unfolding exec_main_def
proof (rule valid_bind)
  have c: "valid (J W D M {}) (attempt (cancel_run w)) (agrees W D M) (run_inv W D M)"
    by (rule valid_pre [OF attempt_agrees [OF cancel_run_valid] J_inv])
  show "valid (J W D M {}) (ebind (cancel_requested w) (\<lambda>c. if c then attempt (cancel_run w)
       else if b then eret (Inl (ContainerError ''setup phase failed; main workflow not started''))
       else attempt (run_to_completion fuel w))) (agrees W D M) (run_inv W D M)"
    by (rule valid_bind [OF jinv.quiet_keeps [OF quiet_cancel_requested J_inv]], assumption, intro valid_if)
      (auto intro: c valid_pre [OF attempt_agrees [OF run_to_completion_valid] loop_head_J]
         valid_ret simp: agrees_def J_inv)
  show "valid (agrees W D M r) (ebind (cancel_requested w) (\<lambda>c. if c \<and> r \<noteq> Inr RunCancelled then attempt (cancel_run w)
      else eret r)) (agrees W D M) (run_inv W D M)" for r
    by (rule agrees_first [OF quiet_cancel_requested]) (auto intro: cancel_agrees valid_ret)
qed

lemma result_agrees:
  "valid (agrees W D M r) (exec_result w r out) (agrees W D M) (run_inv W D M)"
proof -
  have "agrees W D M (Inr CompletedTeardownFailed) e" if "agrees W D M r e" "workflow_succeeded r" for e
    using that by (auto simp: agrees_def workflow_succeeded_def)
  then show ?thesis
    unfolding exec_result_def
    by (intro agrees_first) (auto intro!: quiet_intros intro: cancel_agrees valid_ret)
qed

lemma kept: "keeps P m \<Longrightarrow> (\<And>e. P e \<Longrightarrow> R e) \<Longrightarrow> valid P m (\<lambda>_. P) R"
  by (drule keeps_valid, erule valid_conseq) auto

lemma execute_agrees:
  "valid (J W D M {}) (execute_prepared fuel x W) (\<lambda>r. agrees W D M (ee_result r)) (run_inv W D M)"
  unfolding execute_prepared_def
proof (rule valid_bind [OF kept [OF blind_J.declare_phases J_inv]], assumption,
    rule valid_bind [OF kept [OF keeps_elift J_inv]], assumption,
    rule valid_bind [OF kept [OF blind_J.before_main J_inv]], assumption,
    rule valid_bind [OF main_agrees])
  fix r
  show "valid (agrees W D M r) (ebind (exec_teardown fuel x W r) (\<lambda>td.
      ebind (exec_result (ei_world x) r (teardown_outcome td)) (\<lambda>final.
      ebind (exec_finish (ei_world x)) (\<lambda>_.
      eget (\<lambda>e. \<lparr>ee_result = final, ee_teardown = td, ee_completed = completed_step_count (en_state e),
        ee_failed = length (filter is_failed (hm_values (step_states (en_state e))))\<rparr>)))))
     (\<lambda>r. agrees W D M (ee_result r)) (run_inv W D M)"
    by (rule valid_bind [OF kept [OF blind_agrees.after_main agrees_inv]], assumption,
        rule valid_bind [OF result_agrees],
        rule valid_bind [OF kept [OF blind_agrees.mark agrees_inv]], assumption,
        rule valid_get) simp
qed

end
