(* ===== verification/Exec_Properties.thy ===== *)
theory Exec_Properties
  imports Engine_Invariants Exec_Cancel Exec_Safety Phase_Properties
begin

text \<open>
  What a command guarantees from its setup to its exit code. The witnesses run a workflow whose one step has
  completed and whose teardown pushes.
\<close>

subsection \<open>A command to apply the properties to\<close>

definition pushing :: workflow where
  "pushing = (example_workflow [example_step ''plan'' []])\<lparr>wf_teardown :=
     [\<lparr>pe_overlays = None, pe_abort_on_failure = False, pe_on_failure = None, pe_step = PushBranch None None\<rparr>]\<rparr>"

definition pushing_state :: workflow_state where
  "pushing_state = set_status 1 ''plan'' Succeeded (new_state 0 7 ''demo'' (wf_steps pushing) ''h'' None)"

definition pushing_engine :: engine where
  "pushing_engine =
     (case engine_resume example_config example_hash 2 8 None (Inr (Some pushing_state)) (Inr False) pushing of
        Inr e \<Rightarrow> configured False False e)"

definition pushing_input :: "nat option \<Rightarrow> (nat \<Rightarrow> (Workflow_Definition.data_error, unit) result) \<Rightarrow> (nat \<Rightarrow> int) \<Rightarrow> exec_input" where
  "pushing_input fires saves codes =
     \<lparr>ei_world = calm_world\<lparr>wd_cancel_at := fires, wd_save := saves\<rparr>, ei_setup = example_phases codes,
      ei_teardown = (\<lambda>_. example_phases codes), ei_record_cleanup = Inr (), ei_bad_overlay = None, ei_runtime = Inr ()\<rparr>"

lemma pushing_ok: "state_ok pushing_state"
  unfolding pushing_state_def by (intro set_status_ok new_state_ok)

lemma pushing_dag: "build_dag (wf_steps pushing) = Inr \<lparr>dag_order = [''plan''], dag_edges = [(''plan'', [])]\<rparr>"
  by code_simp

lemma pushing_resumes:
  "\<exists>e. engine_resume example_config example_hash 2 8 None (Inr (Some pushing_state)) (Inr False) pushing = Inr e \<and>
     pushing_engine = configured False False e"
  by (simp add: pushing_engine_def engine_resume_def data_result_def accept_saved_def pushing_dag
        pushing_state_def example_hash_def new_state_def set_status_def)

lemma pushing_started: "started pushing (Some 2) pushing_engine"
proof -
  obtain e where r: "engine_resume example_config example_hash 2 8 None (Inr (Some pushing_state))
      (Inr False) pushing = Inr e" and c: "pushing_engine = configured False False e"
    using pushing_resumes by blast
  show ?thesis
    unfolding c using started_resumed [OF r, of False False] pushing_ok
    by (simp add: saved_ok_def example_config_def)
qed

definition pushed_state :: workflow_state where
  "pushed_state = \<lparr>schema_version = 4, invocation_id = 7, workflow_name = ''demo'', workflow_hash = ''h'',
     st_work_item = None, step_states = [(''plan'', Succeeded)], completed_steps = {''plan''},
     current_step_index = None, started_at = 0, updated_at = 1,
     st_steps = [\<lparr>si_name = ''plan'', si_depends_on = [], si_agent = None, si_model = None\<rparr>],
     current_phase = MainPhase, setup_completed = False, teardown_completed = False, setup_step_states = [],
     teardown_step_states = [], cancelled_at = None, step_attempts = [], step_containers = []\<rparr>"

lemma pushing_prepared:
  "prepare_resumed 2 pushing \<lparr>dag_order = [''plan''], dag_edges = [(''plan'', [])]\<rparr> pushing_state = pushed_state"
  "resume_warnings 2 pushing \<lparr>dag_order = [''plan''], dag_edges = [(''plan'', [])]\<rparr> pushing_state = []"
  by code_simp+

lemma pushing_engine: "pushing_engine =
    (assemble example_config pushing \<lparr>dag_order = [''plan''], dag_edges = [(''plan'', [])]\<rparr> pushed_state)\<lparr>en_log := []\<rparr>"
  using pushing_prepared
  by (simp add: pushing_engine_def engine_resume_def data_result_def accept_saved_def pushing_dag configured_def assemble_def)
   (simp add: pushing_state_def example_hash_def new_state_def set_status_def)

lemma pushing_fields [simp]:
  "\<not> en_abort_triggered pushing_engine" "en_active pushing_engine = []" "en_workflow pushing_engine = pushing" "en_tick pushing_engine = 0" "en_state pushing_engine = pushed_state" "en_log pushing_engine = []"
  by (simp_all add: pushing_engine assemble_def)


lemmas exec_run_simps = execute_prepared_def exec_setup_def exec_main_def exec_teardown_def exec_result_def
  exec_finish_def declare_phase_steps_def attempt_def elift_def ignoring_def mark_done_def
  run_phase_def setup_steps_of_def teardown_steps_of_def setup_world_def teardown_world_def teardown_outcome_def
  workflow_succeeded_def run_to_completion_def report_progress_def report_completed_run_def report_outcome_def
  iter_ended_def run_iteration_def

lemma pushing_substituted:
  "substituted w [] = eret []"
  "pw_fuel w = 5 \<Longrightarrow> pw_work_item w = None \<Longrightarrow>
     substituted w [Teardown (PushBranch None None)] = eret [Teardown (PushBranch None None)]"
proof -
  have "substitute_steps 5 None [Teardown (PushBranch None None)] = Some [Teardown (PushBranch None None)]" by code_simp
  then show "pw_fuel w = 5 \<Longrightarrow> pw_work_item w = None \<Longrightarrow>
     substituted w [Teardown (PushBranch None None)] = eret [Teardown (PushBranch None None)]"
    by (simp add: substituted_def)
qed (simp add: substituted_def)

lemma push_command:
  obtains cmd where "step_to_shell_with (Teardown (PushBranch None None)) default_options = Some cmd"
proof -
  have "step_to_shell_with (Teardown (PushBranch None None)) default_options \<noteq> None" by code_simp
  then show thesis using that by blast
qed

lemma pushing_parts [simp]: "wf_setup pushing = []" "map ws_name (wf_steps pushing) = [''plan'']" "map pe_step (wf_teardown pushing) = [PushBranch None None]"
  "wf_teardown pushing \<noteq> []" "map pe_abort_on_failure (wf_teardown pushing) = [False]"
  "map pe_on_failure (wf_teardown pushing) = [None]"
  by (simp_all add: pushing_def example_workflow_def example_step_def)



lemmas pushing_evaluates = pushing_input_def exec_run_simps pushing_substituted phase_run_simps is_complete_def
  completed_step_count_def efail_def cancel_run_def stop_active_agents_def mark_all_unfinished_def stamp_cancelled_def
  run_teardown_cancelled_def cancelled_options_def

lemma pushing_run:
  "fst (execute_prepared 3 (pushing_input None (\<lambda>_. Inr ()) (\<lambda>_. 0)) pushing pushing_engine) =
     Ok \<lparr>ee_result = Inr Completed, ee_teardown = Some (Inr nothing_happened), ee_completed = 1, ee_failed = 0\<rparr>"
  by (rule push_command, simp add: pushing_evaluates pushed_state_def numeral_3_eq_3 del: step_to_shell_with.simps step_description.simps cong: ebind_weak)

lemma pushing_lost:
  "fst (execute_prepared 3 (pushing_input None (\<lambda>t. if t = 0 then Inr () else Inl (Io ''state'' ''disk full'')) (\<lambda>_. 0)) pushing pushing_engine) =
     Ok \<lparr>ee_result = Inr Completed, ee_teardown = Some (Inl (DataErr (Io ''state'' ''disk full''))), ee_completed = 1, ee_failed = 0\<rparr>"
  by (simp add: pushing_evaluates pushed_state_def numeral_3_eq_3 del: step_to_shell_with.simps step_description.simps cong: ebind_weak)

lemma pushing_saves:
  "\<exists>st. Eff_persist st \<in> set (en_log (snd (execute_prepared 3 (pushing_input None (\<lambda>_. Inr ()) (\<lambda>_. 0)) pushing pushing_engine)))"
  by (rule push_command, simp add: pushing_evaluates pushed_state_def numeral_3_eq_3 del: step_to_shell_with.simps step_description.simps cong: ebind_weak) blast

lemma pushing_cancelled:
  "fst (execute_prepared 3 (pushing_input (Some 0) (\<lambda>_. Inr ()) (\<lambda>_. 0)) pushing pushing_engine) =
     Ok \<lparr>ee_result = Inr RunCancelled, ee_teardown = Some (Inr (nothing_happened\<lparr>pho_cancelled := True\<rparr>)), ee_completed = 1, ee_failed = 0\<rparr>"
  by (simp add: pushing_evaluates pushed_state_def numeral_3_eq_3 del: step_to_shell_with.simps step_description.simps cong: ebind_weak)

subsection \<open>A command, part by part\<close>

lemma execute_parts:
  assumes "execute_prepared fuel x W e = (Ok v, e')"
  obtains b r td e3 e4 e5 e6 where
    "ebind (declare_phase_steps (setup_world x) (map pe_step (wf_setup W)) (teardown_steps_of W)) (\<lambda>_.
       ebind (elift (ei_record_cleanup x)) (\<lambda>_. exec_setup fuel x W)) e = (Ok b, e3)"
    "exec_main fuel (ei_world x) b e3 = (Ok r, e4)"
    "exec_teardown fuel x W r e4 = (Ok td, e5)"
    "exec_result (ei_world x) r (teardown_outcome td) e5 = (Ok (ee_result v), e6)"
    "exec_finish (ei_world x) e6 = (Ok (), e')"
    "v = \<lparr>ee_result = ee_result v, ee_teardown = td, ee_completed = completed_step_count (en_state e'),
          ee_failed = length (filter is_failed (hm_values (step_states (en_state e'))))\<rparr>"
  using assms unfolding execute_prepared_def ebind_Ok_iff eget_def by auto

lemma teardown_needs:
  assumes "exec_teardown fuel x W r e = (Ok td, e')"
  shows "td = None \<Longrightarrow> (wf_teardown W = [] \<or> en_abort_triggered e \<or>
      \<not> (r = Inr RunCancelled \<or> wf_teardown_on_failure W \<or> workflow_succeeded r)) \<and> e' = e"
    and "td \<noteq> None \<Longrightarrow> r = Inr RunCancelled \<or> wf_teardown_on_failure W \<or> workflow_succeeded r"
  using assms unfolding exec_teardown_def Let_def ebind_Ok_iff eget_def
  by (auto simp: ebind_Ok_iff eret_def split: if_splits)

lemma attempted_cancel: "attempt (cancel_run w) e = (Ok r, e') \<Longrightarrow> gave_up r"
  by (auto simp: attempt_def gave_up_def dest: cancel_run_returns split: prod.splits ran.splits)

lemma result_cases:
  assumes "exec_result w r out e = (Ok final, e')"
  obtains (late) "gave_up final" "pho_cancelled out \<or> wd_cancel_at w \<noteq> None" "r \<noteq> Inr RunCancelled"
    | (settled) "final = (if (pho_aborted out \<or> pho_any_failed out) \<and> workflow_succeeded r
        then Inr CompletedTeardownFailed else r)"
      "pho_cancelled out \<Longrightarrow> r = Inr RunCancelled \<or> en_abort_triggered e"
      "en_abort_triggered e' = en_abort_triggered e"
proof -
  obtain l e1 where l: "(if r = Inr RunCancelled then eret False
      else if pho_cancelled out then eret True else cancel_requested w) e = (Ok l, e1)"
    and k: "(if l \<and> \<not> en_abort_triggered e1 then attempt (cancel_run w)
       else if (pho_aborted out \<or> pho_any_failed out) \<and> workflow_succeeded r
       then eret (Inr CompletedTeardownFailed) else eret r) e1 = (Ok final, e')"
    using assms unfolding exec_result_def ebind_Ok_iff eget_def by auto
  have e1: "en_abort_triggered e1 = en_abort_triggered e" "l \<Longrightarrow> (pho_cancelled out \<or> wd_cancel_at w \<noteq> None) \<and> r \<noteq> Inr RunCancelled"
    "pho_cancelled out \<Longrightarrow> l \<or> r = Inr RunCancelled"
    using l by (auto simp: eret_def cancel_requested_def observe_def cancelled_by_def split: if_splits option.splits)
  show thesis
  proof (cases "l \<and> \<not> en_abort_triggered e1")
    case True
    with k have "attempt (cancel_run w) e1 = (Ok final, e')" by simp
    then show ?thesis using True e1(2) by (intro late attempted_cancel) auto
  next
    case False
    with k have "final = (if (pho_aborted out \<or> pho_any_failed out) \<and> workflow_succeeded r
        then Inr CompletedTeardownFailed else r)" "e' = e1"
      by (auto simp: eret_def split: if_splits)
    then show ?thesis using False e1 by (intro settled) auto
  qed
qed

text \<open>A phase of a command that nobody cancels never says it was cancelled.\<close>

lemma never_asked:
  assumes "wd_cancel_at w = None"
  shows "eand b (cancel_requested w) e = (Ok c, e') \<Longrightarrow> \<not> c" and "cancel_requested w e = (Ok c, e') \<Longrightarrow> \<not> c"
  using assms
  by (auto simp: eand_def cancel_requested_def observe_def cancelled_by_def eret_def split: if_splits)

lemma unasked:
  assumes "wd_cancel_at w = None" and "ebind (eand b (cancel_requested w)) k e = (Ok t, e')"
  shows "\<exists>e1. k False e1 = (Ok t, e')"
  using assms(2) never_asked(1) [OF assms(1)] unfolding ebind_Ok_iff by (metis (full_types))

lemma settle_uncancelled:
  assumes "settle_step w p i desc out r e = (Ok t, e')" and "t = PhaseNext o1 \<or> t = PhaseBreak o1" and "\<not> pho_cancelled out"
  shows "\<not> pho_cancelled o1"
  using assms unfolding settle_step_def Let_def
  by (auto simp: ebind_Ok_iff basic_Ok_iff split: if_splits)

lemma turn_uncancelled:
  assumes "wd_cancel_at (pw_world w) = None" and "phase_turn fuel w p i step out e = (Ok t, e')"
    and "t = PhaseNext o1 \<or> t = PhaseBreak o1" and "\<not> pho_cancelled out"
  shows "\<not> pho_cancelled o1"
proof -
  have start: "\<not> pho_cancelled o1" if "start_step fuel w p i step desc out e1 = (Ok t, e')" for desc e1
    using that settle_uncancelled [OF _ assms(3,4)] never_asked(1) [OF assms(1)]
    unfolding start_step_def Let_def ebind_Ok_iff by (metis (full_types))
  have skip: "\<not> pho_cancelled o1" if "skip_step w p i desc out e1 = (Ok t, e')" for desc e1
    using that assms(3,4) by (auto simp: skip_step_def ebind_Ok_iff basic_Ok_iff)
  have "(\<exists>e1. skip_step w p i (pss_description (phase_state e (pp_kind p) i)) out e1 = (Ok t, e')) \<or>
      (\<exists>e1. start_step fuel w p i step (pss_description (phase_state e (pp_kind p) i)) out e1 = (Ok t, e')) \<or>
      t = PhaseNext out"
    using assms(2) unfolding phase_turn_def Let_def ebind_Ok_iff basic_Ok_iff
    by (auto simp: basic_Ok_iff dest!: unasked [OF assms(1)] split: if_splits) blast+
  then show ?thesis using start skip assms(3,4) by auto
qed

lemma loop_uncancelled:
  "wd_cancel_at (pw_world w) = None \<Longrightarrow> phase_loop fuel w p i steps out e = (Ok o1, e') \<Longrightarrow>
     \<not> pho_cancelled out \<Longrightarrow> \<not> pho_cancelled o1"
proof (induction steps arbitrary: i out e)
  case (Cons step steps)
  from Cons.prems(2) obtain t e1 where t: "phase_turn fuel w p i step out e = (Ok t, e1)"
    and k: "(case t of PhaseNext out \<Rightarrow> phase_loop fuel w p (Suc i) steps out | PhaseBreak out \<Rightarrow> eret out) e1 = (Ok o1, e')"
    by (auto simp: ebind_Ok_iff)
  show ?case
    using turn_uncancelled [OF Cons.prems(1) t _ Cons.prems(3)] Cons.IH [OF Cons.prems(1)] k
    by (cases t) (auto simp: basic_Ok_iff)
qed (simp add: eret_def)

lemma phase_uncancelled:
  assumes "wd_cancel_at (pw_world w) = None" and "run_phase fuel w k steps aborts on_failure e = (Ok out, e')"
  shows "\<not> pho_cancelled out"
proof -
  obtain ss p e1 e2 e3 o1 where l: "phase_loop fuel w p 0 ss nothing_happened e1 = (Ok o1, e2)"
    and f: "finish_phase w k o1 e2 = (Ok out, e3)"
    using assms(2) unfolding run_phase_def run_phase_with_def run_plan_def ebind_Ok_iff by auto
  have "\<not> pho_cancelled o1" using loop_uncancelled [OF assms(1) l] by (simp add: nothing_happened_def)
  then show ?thesis
    using f never_asked(1) [OF assms(1)] unfolding finish_phase_def Let_def
    by (auto simp: ebind_Ok_iff basic_Ok_iff simp del: eseq.simps split: if_splits)
qed

lemma teardown_uncancelled:
  assumes "wd_cancel_at (ei_world x) = None" and "exec_teardown fuel x W r e = (Ok td, e')" and "r \<noteq> Inr RunCancelled"
  shows "\<not> pho_cancelled (teardown_outcome td)"
proof -
  have n: "\<not> pho_cancelled (teardown_outcome None)" "\<not> pho_cancelled (teardown_outcome (Some (Inl err)))" for err
    by (simp_all add: teardown_outcome_def nothing_happened_def)
  have "wd_cancel_at (pw_world (teardown_world x False)) = None" using assms(1) by (simp add: teardown_world_def)
  note p = phase_uncancelled [OF this]
  have "\<not> pho_cancelled (teardown_outcome (Some a))"
    if "attempt (run_phase fuel (teardown_world x False) TeardownKind steps aborts fs) e1 = (Ok a, e2)" for steps aborts fs e1 e2 a
    using that p by (fastforce simp: attempt_def teardown_outcome_def nothing_happened_def split: prod.splits ran.splits)
  then show ?thesis
    using assms(2,3) n unfolding exec_teardown_def Let_def
    by (auto simp: ebind_Ok_iff basic_Ok_iff split: if_splits)
qed

lemma finish_marks:
  assumes "exec_finish w e = (Ok (), e')"
  shows "current_phase (en_state e') = DonePhase" "en_abort_triggered e' = en_abort_triggered e"
  using assms unfolding exec_finish_def ebind_Ok_iff eget_def
  by (auto simp: ignoring_def mark_done_def emod_def persist_def observe_def ebind_def eret_def efail_def eff_def
      split: if_splits prod.splits ran.splits sum.splits)

text \<open>What a finished command leaves, on the invariant of the run.\<close>

lemma command_agrees:
  assumes "started W M e" and "execute_prepared fuel x W e = (Ok v, e')"
  obtains D where "build_dag (wf_steps W) = Inr D" "agrees W D M (ee_result v) e'"
proof -
  from assms(1) obtain D where d: "build_dag (wf_steps W) = Inr D" and j: "J W D M {} e" by (rule started_J)
  show thesis using that [OF d] validD(1) [OF execute_agrees j assms(2)] by blast
qed

text \<open>The main phase never says that teardown failed: that verdict is only reached after teardown.\<close>

lemma main_no_teardown:
  assumes "started W M e" and "execute_prepared fuel x W e = (Ok v, e')"
    and "exec_main fuel (ei_world x) b e3 = (Ok r, e4)"
    and "J W D M {} e3"
  shows "r \<noteq> Inr CompletedTeardownFailed"
proof -
  have run: "fst (run_to_completion fuel (ei_world x) e0) \<noteq> Ok CompletedTeardownFailed" if "J W D M {} e0" for e0
  proof
    assume c: "fst (run_to_completion fuel (ei_world x) e0) = Ok CompletedTeardownFailed"
    then have "ended W D M CompletedTeardownFailed (snd (run_to_completion fuel (ei_world x) e0))"
      using validD(1) [OF run_to_completion_valid loop_head_J [OF that]] by (metis prod.collapse)
    then show False by (simp add: ended_def)
  qed
  have "attempt (cancel_run (ei_world x)) e0 \<noteq> (Ok (Inr CompletedTeardownFailed), e1)" for e0 e1
    using attempted_cancel by (fastforce simp: gave_up_def)
  moreover have "attempt (run_to_completion fuel (ei_world x)) e0 \<noteq> (Ok (Inr CompletedTeardownFailed), e1)"
    if "J W D M {} e0" for e0 e1
    using run [OF that] by (auto simp: attempt_def split: prod.splits ran.splits)
  moreover have "J W D M {} (e3\<lparr>en_tick := t\<rparr>)" for t
    using jinv.core_only [of e3 "e3\<lparr>en_tick := t\<rparr>"] assms(4) by (simp add: core_def)
  ultimately show ?thesis
    using assms(3) unfolding exec_main_def ebind_Ok_iff cancel_requested_def observe_def
    by (fastforce simp: eret_def split: if_splits)
qed

text \<open>Before the main phase: the invariant of a started run still holds.\<close>

lemma setup_keeps_run:
  assumes "J W D M {} e"
    and "ebind (declare_phase_steps pw ss ts) (\<lambda>_. ebind (elift r) (\<lambda>_. exec_setup fuel x W)) e = (Ok b, e3)"
  shows "J W D M {} e3"
proof -
  have "keeps (J W D M {}) (ebind (declare_phase_steps pw ss ts) (\<lambda>_. ebind (elift r) (\<lambda>_. exec_setup fuel x W)))"
    by (intro keeps_intros blind_J.declare_phases blind_J.before_main)
  then show ?thesis using assms by (rule keepsD)
qed

text \<open>What a teardown was, when the result was settled by it.\<close>

lemma teardown_verdict:
  assumes "started W M e" and "execute_prepared fuel x W e = (Ok v, e')"
  shows "ee_result v = Inr Completed \<Longrightarrow>
      (case ee_teardown v of
         None \<Rightarrow> wf_teardown W = [] \<or> en_abort_triggered e'
       | Some (Inr out) \<Rightarrow> \<not> pho_aborted out \<and> \<not> pho_any_failed out \<and> (pho_cancelled out \<longrightarrow> en_abort_triggered e')
       | Some (Inl _) \<Rightarrow> True)"
    and "ee_result v = Inr CompletedTeardownFailed \<Longrightarrow>
      \<exists>out. ee_teardown v = Some (Inr out) \<and> (pho_aborted out \<or> pho_any_failed out)"
    and "ee_teardown v = Some given \<Longrightarrow> \<not> wf_teardown_on_failure W \<Longrightarrow> wd_cancel_at (ei_world x) = None \<Longrightarrow>
      ee_result v \<noteq> Inr RunCancelled \<Longrightarrow> ee_result v =
        (if pho_aborted (teardown_outcome (Some given)) \<or> pho_any_failed (teardown_outcome (Some given))
         then Inr CompletedTeardownFailed else Inr Completed)"
    and "current_phase (en_state e') = DonePhase"
proof -
  from assms(1) obtain D where j: "J W D M {} e" by (rule started_J)
  from assms(2) obtain b r td e3 e4 e5 e6 where p:
    "ebind (declare_phase_steps (setup_world x) (map pe_step (wf_setup W)) (teardown_steps_of W)) (\<lambda>_.
       ebind (elift (ei_record_cleanup x)) (\<lambda>_. exec_setup fuel x W)) e = (Ok b, e3)"
    "exec_main fuel (ei_world x) b e3 = (Ok r, e4)"
    "exec_teardown fuel x W r e4 = (Ok td, e5)"
    "exec_result (ei_world x) r (teardown_outcome td) e5 = (Ok (ee_result v), e6)"
    "exec_finish (ei_world x) e6 = (Ok (), e')"
    and v: "v = \<lparr>ee_result = ee_result v, ee_teardown = td, ee_completed = completed_step_count (en_state e'),
          ee_failed = length (filter is_failed (hm_values (step_states (en_state e'))))\<rparr>"
    by (rule execute_parts)
  have r: "r \<noteq> Inr CompletedTeardownFailed"
    using main_no_teardown [OF assms p(2)] setup_keeps_run [OF j p(1)] by blast
  have td: "ee_teardown v = td" using v by (metis exec_end.select_convs(2))
  note f = finish_marks [OF p(5)]
  show "current_phase (en_state e') = DonePhase" by (rule f(1))
  note needs = teardown_needs [OF p(3)]
  show "case ee_teardown v of
         None \<Rightarrow> wf_teardown W = [] \<or> en_abort_triggered e'
       | Some (Inr out) \<Rightarrow> \<not> pho_aborted out \<and> \<not> pho_any_failed out \<and> (pho_cancelled out \<longrightarrow> en_abort_triggered e')
       | Some (Inl _) \<Rightarrow> True" if c: "ee_result v = Inr Completed"
    using p(4)
  proof (cases rule: result_cases)
    case late
    then show ?thesis using c by (simp add: gave_up_def)
  next
    case settled
    then have rc: "r = Inr Completed" and ok: "\<not> pho_aborted (teardown_outcome td)" "\<not> pho_any_failed (teardown_outcome td)"
      using c by (auto simp: workflow_succeeded_def split: if_splits)
    have a: "en_abort_triggered e' = en_abort_triggered e5" using settled(3) f(2) by simp
    show ?thesis
      using ok settled(2) needs(1) a rc
      by (auto simp: td teardown_outcome_def workflow_succeeded_def split: option.splits sum.splits)
  qed
  show "\<exists>out. ee_teardown v = Some (Inr out) \<and> (pho_aborted out \<or> pho_any_failed out)"
    if c: "ee_result v = Inr CompletedTeardownFailed"
    using p(4)
  proof (cases rule: result_cases)
    case late
    then show ?thesis using c by (simp add: gave_up_def)
  next
    case settled
    then have "pho_aborted (teardown_outcome td) \<or> pho_any_failed (teardown_outcome td)"
      using c r by (auto split: if_splits)
    then show ?thesis
      by (auto simp: td teardown_outcome_def nothing_happened_def split: option.splits sum.splits)
  qed
  show "ee_result v = (if pho_aborted (teardown_outcome (Some given)) \<or> pho_any_failed (teardown_outcome (Some given))
         then Inr CompletedTeardownFailed else Inr Completed)"
    if l: "ee_teardown v = Some given" "\<not> wf_teardown_on_failure W" "wd_cancel_at (ei_world x) = None"
      "ee_result v \<noteq> Inr RunCancelled"
  proof -
    have same: "td = Some given" using l(1) td by simp
    have main_end: "r = Inr RunCancelled \<or> r = Inr Completed"
      using needs(2) r l(2) same by (auto simp: workflow_succeeded_def)
    show ?thesis
      using p(4)
    proof (cases rule: result_cases)
      case late
      then have c: "pho_cancelled (teardown_outcome (Some given))" using l(3) same by simp
      moreover have "\<not> pho_cancelled (teardown_outcome td)" by (rule teardown_uncancelled [OF l(3) p(3) late(3)])
      ultimately show ?thesis using same by simp
    next
      case settled
      then show ?thesis using main_end l(4) same by (auto simp: workflow_succeeded_def split: if_splits)
    qed
  qed
qed

subsection \<open>What a started run saves\<close>

lemma prepare_resumed_identity [simp]: "run_identity (prepare_resumed now W D saved) = run_identity saved"
proof -
  have status: "run_identity (fold (\<lambda>n. set_status now n Pending) ns st) = run_identity st" for ns st
    by (induction ns arbitrary: st) (simp_all add: run_identity_def set_status_def)
  have "run_identity (fold drop_step ns st) = run_identity st" for ns st
    by (induction ns arbitrary: st) (simp_all add: run_identity_def drop_step_def)
  then show ?thesis
    unfolding prepare_resumed_def Let_def reset_to_pending_def status
    by (simp add: align_state_def retain_steps_in_def Let_def run_identity_def)
qed

lemma started_checkpoints:
  assumes "started W M e"
  shows "checkpoints_ok (run_identity (en_state e)) e" and "schema_version (en_state e) \<le> workflow_state_schema_version"
proof -
  have j: "state_ok (en_state e)" using assms by (auto elim!: started_inv simp: run_inv_def)
  have "(\<forall>st. Eff_persist st \<notin> set (en_log e)) \<and> schema_version (en_state e) \<le> workflow_state_schema_version"
    using assms
  proof cases
    case (started_new cfg hash now uuid wi e0 yolo prompts)
    then show ?thesis by (auto simp: configured_def engine_new_def assemble_def new_state_def split: sum.splits)
  next
    case (started_resumed cfg hash now uuid wi load confirm e0 yolo prompts)
    from engine_resume_Inr [OF started_resumed(3)] obtain D saved where
      st: "en_state e0 = prepare_resumed now W D saved" and lg: "en_log e0 = rev (resume_warnings now W D saved)"
      and l: "load = Inr (Some saved) \<or> load = Inr None \<and>
        saved = new_state now uuid (workflow_name_for W) (wf_steps W) (hash W) wi" by blast
    have "schema_version saved \<le> workflow_state_schema_version"
      using l resume_accepts [of cfg hash now uuid wi load confirm W] started_resumed(3)
      by (auto simp: new_state_def)
    moreover have "run_identity (en_state e0) = run_identity saved" by (simp add: st)
    ultimately show ?thesis
      unfolding started_resumed(2) configured_def
      by (auto simp: lg resume_warnings_def run_identity_def Let_def split: prod.splits)
  qed
  with j show "checkpoints_ok (run_identity (en_state e)) e"
    "schema_version (en_state e) \<le> workflow_state_schema_version"
    by (auto simp: checkpoints_ok_def)
qed

lemma checkpoint_same_run:
  assumes "started W M e" and "e' = snd (execute_prepared fuel x W e) \<or> e' = snd (finish_cancelled_cleanup fuel pw runtime W e)"
    and "Eff_persist st \<in> set (en_log e')"
  shows "state_ok st" "workflow_hash st = workflow_hash (en_state e)" "invocation_id st = invocation_id (en_state e)"
    "schema_version st \<le> workflow_state_schema_version"
proof -
  have "checkpoints_ok (run_identity (en_state e)) e'"
    using checkpoints.command checkpoints.cleanup started_checkpoints(1) [OF assms(1)] assms(2)
    unfolding keeps_def by blast
  then have s: "state_ok st" "run_identity st = run_identity (en_state e)" using assms(3) by (simp_all add: checkpoints_ok_def)
  then show "state_ok st" "workflow_hash st = workflow_hash (en_state e)" "invocation_id st = invocation_id (en_state e)"
    "schema_version st \<le> workflow_state_schema_version"
    using started_checkpoints(2) [OF assms(1)] by (simp_all add: run_identity_def)
qed

subsection \<open>Properties\<close>

text \<open>
  Property C8. What a finished command reports is true of the state it leaves, which is in phase \<open>Done\<close>.
  \<open>Completed\<close>: every step is terminal, and teardown, if one is declared and no abort step failed, ran without a failed
  step or returned an error; \<open>CompletedTeardownFailed\<close>: every step is terminal and a step of teardown failed; a failed
  run names a step recorded as failed with the exit code the command exits with; of an aborted or cancelled run every
  step is completed or cancelled. Unless the command ends in an error, no step is left running.
\<close>

theorem command_result_true:
  assumes "started W M e" and "execute_prepared fuel x W e = (Ok v, e')"
  shows "current_phase (en_state e') = DonePhase \<and>
    (case ee_result v of
       Inl _ \<Rightarrow> exec_exit_code (ee_result v) = Some 1
     | Inr wo \<Rightarrow>
         (\<forall>n c. status_of (en_state e') n \<noteq> Some (Running c)) \<and>
         (case wo of
            Completed \<Rightarrow> is_complete (en_state e') \<and>
              (case ee_teardown v of
                 None \<Rightarrow> wf_teardown W = [] \<or> en_abort_triggered e'
               | Some (Inr out) \<Rightarrow>
                   \<not> pho_aborted out \<and> \<not> pho_any_failed out \<and> (pho_cancelled out \<longrightarrow> en_abort_triggered e')
               | Some (Inl _) \<Rightarrow> True)
          | CompletedTeardownFailed \<Rightarrow> is_complete (en_state e') \<and>
              (\<exists>out. ee_teardown v = Some (Inr out) \<and> (pho_aborted out \<or> pho_any_failed out))
          | Paused \<Rightarrow> True
          | RunFailed m code \<Rightarrow> exec_exit_code (ee_result v) = Some code \<and>
              (\<exists>text. status_of (en_state e') m = Some (Failed code text)) \<and>
              (\<forall>n \<in> ws_name ` set (wf_steps W) - {m}.
                 n \<in> completed_steps (en_state e') \<or> status_of (en_state e') n = Some Cancelled)
          | _ \<Rightarrow> (\<forall>n \<in> ws_name ` set (wf_steps W).
                 n \<in> completed_steps (en_state e') \<or> status_of (en_state e') n = Some Cancelled)))"
proof -
  from assms obtain D where a: "agrees W D M (ee_result v) e'" by (rule command_agrees)
  note t = teardown_verdict [OF assms]
  show ?thesis
  proof (cases "ee_result v")
    case Inl
    then show ?thesis using t(4) by simp
  next
    case (Inr wo)
    then show ?thesis
      using a t(1,2,4)
      by (cases wo) (auto simp: agrees_def ended_def J_def running_def closed_as_def names_of_def)
  qed
qed

theorem command_result_true_witness:
  "\<exists>v e'. execute_prepared 3 (pushing_input None (\<lambda>_. Inr ()) (\<lambda>_. 0)) pushing pushing_engine = (Ok v, e') \<and>
     ee_result v = Inr Completed \<and> ee_teardown v = Some (Inr nothing_happened) \<and> is_complete (en_state e') \<and>
     current_phase (en_state e') = DonePhase"
proof -
  let ?v = "\<lparr>ee_result = Inr Completed, ee_teardown = Some (Inr nothing_happened), ee_completed = 1, ee_failed = 0\<rparr>"
  obtain e' where e: "execute_prepared 3 (pushing_input None (\<lambda>_. Inr ()) (\<lambda>_. 0)) pushing pushing_engine = (Ok ?v, e')"
    using pushing_run by (metis prod.collapse)
  show ?thesis using command_result_true [OF pushing_started e] e by auto
qed

text \<open>
  Property C9. A command whose token has fired when its phases are reached publishes nothing: whatever is declared, no
  setup command runs, no step of the main phase is launched, nothing is repaired, and no teardown step that pushes,
  opens a pull request or waits for CI is started. When it comes to a report - declaring the phases, recording the
  clean-up or finding the runtime can fail before - it reports that it was cancelled, with exit code 130; only if a save
  of the state failed in the course of the command does it report that failure, with exit code 1.
\<close>

theorem fired_token_cancels_the_command:
  assumes "cancelled_by (ei_world x) (en_tick e)" and "execute_prepared fuel x W e = (r, e')"
  shows "(\<exists>new. en_log e' = new @ en_log e \<and> list_all (cancel_ok (map Teardown (teardown_steps_of W))) new) \<and>
    (\<forall>v. r = Ok v \<longrightarrow>
       ee_result v = Inr RunCancelled \<and> exec_exit_code (ee_result v) = Some 130 \<or>
       (\<exists>t err. en_tick e \<le> t \<and> t < en_tick e' \<and> wd_save (ei_world x) t = Inl err \<and>
          ee_result v = Inl (DataErr err) \<and> exec_exit_code (ee_result v) = Some 1))"
proof -
  have "quenched (ei_world x) (map Teardown (teardown_steps_of W)) (en_log e) e"
    using assms(1) by (simp add: quenched_def)
  then have "quenched (ei_world x) (map Teardown (teardown_steps_of W)) (en_log e) e'"
    by (rule keepsD [OF execute_quenched _ assms(2)])
  moreover have "gave_up_since (ei_world x) (en_tick e) (ee_result v) e'" if "r = Ok v" for v
    using validD(1) [OF execute_gives_up [OF assms(1)]] assms(2) that by blast
  ultimately show ?thesis
    by (fastforce simp: quenched_def gave_up_since_def unsaved_def cancelled_exit_code_def)
qed

theorem fired_token_cancels_the_command_witness:
  "\<exists>v e' new. execute_prepared 3 (pushing_input (Some 0) (\<lambda>_. Inr ()) (\<lambda>_. 0)) pushing pushing_engine = (Ok v, e') \<and>
     ee_result v = Inr RunCancelled \<and> en_log e' = new \<and> list_all (cancel_ok [Teardown (PushBranch None None)]) new"
proof -
  let ?x = "pushing_input (Some 0) (\<lambda>_. Inr ()) (\<lambda>_. 0)"
  let ?v = "\<lparr>ee_result = Inr RunCancelled, ee_teardown = Some (Inr (nothing_happened\<lparr>pho_cancelled := True\<rparr>)),
      ee_completed = 1, ee_failed = 0\<rparr>"
  obtain e' where e: "execute_prepared 3 ?x pushing pushing_engine = (Ok ?v, e')"
    using pushing_cancelled by (metis prod.collapse)
  have "cancelled_by (ei_world ?x) (en_tick pushing_engine)" by (simp add: cancelled_by_def pushing_input_def)
  from fired_token_cancels_the_command [OF this e] e show ?thesis by (auto simp: teardown_steps_of_def)
qed

text \<open>
  Property C40. How the teardown of a command decides its exit, when the command does not tear down on failure and is
  not cancelled - neither by its token nor by the user: every step of the main phase is terminal, a teardown in which a
  step failed makes it \<open>CompletedTeardownFailed\<close> with exit code 1, one without a failed step \<open>Completed\<close> with 0. A
  teardown that returns an error instead - its state could not be saved - is lost: the command reports \<open>Completed\<close> and
  exits with 0 although the teardown may not have run a single step.
\<close>

theorem teardown_decides_the_exit:
  assumes "started W M e" and "execute_prepared fuel x W e = (Ok v, e')" and "ee_teardown v = Some td"
    and "\<not> wf_teardown_on_failure W" and "wd_cancel_at (ei_world x) = None" and "ee_result v \<noteq> Inr RunCancelled"
  shows "is_complete (en_state e') \<and>
    (case td of
       Inr out \<Rightarrow>
         if pho_aborted out \<or> pho_any_failed out
         then ee_result v = Inr CompletedTeardownFailed \<and> exec_exit_code (ee_result v) = Some 1
         else ee_result v = Inr Completed \<and> exec_exit_code (ee_result v) = Some 0
     | Inl err \<Rightarrow> ee_result v = Inr Completed \<and> exec_exit_code (ee_result v) = Some 0)"
proof -
  have v: "ee_result v = (if pho_aborted (teardown_outcome (Some td)) \<or> pho_any_failed (teardown_outcome (Some td))
      then Inr CompletedTeardownFailed else Inr Completed)"
    by (rule teardown_verdict(3) [OF assms(1,2) assms(3-6)])
  obtain D where "agrees W D M (ee_result v) e'" using assms(1,2) by (rule command_agrees)
  then have "is_complete (en_state e')" by (auto simp: v agrees_def ended_def split: if_splits)
  then show ?thesis by (simp add: v teardown_outcome_def nothing_happened_def split: sum.splits)
qed

theorem teardown_decides_the_exit_witness:
  "\<exists>v e'. execute_prepared 3 (pushing_input None (\<lambda>t. if t = 0 then Inr () else Inl (Io ''state'' ''disk full'')) (\<lambda>_. 0))
       pushing pushing_engine = (Ok v, e') \<and> ee_teardown v = Some (Inl (DataErr (Io ''state'' ''disk full''))) \<and>
     exec_exit_code (ee_result v) = Some 0 \<and> reported_failed v = 0"
proof -
  let ?x = "pushing_input None (\<lambda>t. if t = 0 then Inr () else Inl (Io ''state'' ''disk full'')) (\<lambda>_. 0)"
  let ?v = "\<lparr>ee_result = Inr Completed, ee_teardown = Some (Inl (DataErr (Io ''state'' ''disk full''))), ee_completed = 1, ee_failed = 0\<rparr>"
  obtain e' where e: "execute_prepared 3 ?x pushing pushing_engine = (Ok ?v, e')"
    using pushing_lost by (metis prod.collapse)
  have "\<not> wf_teardown_on_failure pushing" "wd_cancel_at (ei_world ?x) = None"
    by (simp_all add: pushing_def example_workflow_def pushing_input_def)
  with teardown_decides_the_exit [OF pushing_started e] e show ?thesis
    by (auto simp: reported_failed_def had_error_def)
qed

text \<open>
  Property C7. Wherever a command is interrupted - between any two effects, in setup, in a step, in a group, in
  teardown, in the clean-up of an earlier cancellation, whatever failed - every state it has saved can be resumed without a question as long as the workflow file
  is the same: the resumed run is a started run of the same invocation, every step that was completed when the state
  was saved stays as it was and is not run again, every other step is \<open>Pending\<close>.
\<close>

theorem every_checkpoint_resumes:
  assumes "started W M e" and "e' = snd (execute_prepared fuel x W e) \<or> e' = snd (finish_cancelled_cleanup fuel pw runtime W e)"
    and "Eff_persist st \<in> set (en_log e')"
    and "hash W = workflow_hash (en_state e)"
  shows "\<exists>e1. engine_resume cfg hash now uuid wi (Inr (Some st)) confirm W = Inr e1 \<and>
    started W (cfg_max_concurrent cfg) (configured yolo prompts e1) \<and>
    invocation_id (en_state e1) = invocation_id (en_state e) \<and>
    (\<forall>s \<in> set (wf_steps W). status_of (en_state e1) (ws_name s) =
       (case status_of st (ws_name s) of
          Some q \<Rightarrow> Some (if completing q then q else Pending) | None \<Rightarrow> Some Pending))"
proof -
  note c = checkpoint_same_run [OF assms(1-3)]
  from assms(1) obtain D where d: "build_dag (wf_steps W) = Inr D" by (rule started_J)
  obtain e1 where r: "engine_resume cfg hash now uuid wi (Inr (Some st)) confirm W = Inr e1"
    using resume_accepts [of cfg hash now uuid wi "Inr (Some st)" confirm W] c d assms(4) by auto
  have ok: "saved_ok (Inr (Some st))" using c(1) by (simp add: saved_ok_def)
  from engine_resume_Inr [OF r] have st: "en_state e1 = prepare_resumed now W D st"
    using d by (metis Inr_inject option.inject option.distinct(1))
  have "run_identity (en_state e1) = run_identity st" by (simp add: st)
  then have "invocation_id (en_state e1) = invocation_id (en_state e)" using c(3) by (simp add: run_identity_def)
  moreover have "status_of (en_state e1) (ws_name s) =
       (case status_of st (ws_name s) of
          Some q \<Rightarrow> Some (if completing q then q else Pending) | None \<Rightarrow> Some Pending)" if "s \<in> set (wf_steps W)" for s
    using that by (simp add: st prepare_resumed_ok(2) [OF d c(1)] names_of_def)
  ultimately show ?thesis using started_resumed [OF r ok] r by blast
qed

theorem every_checkpoint_resumes_witness:
  "\<exists>st e1. Eff_persist st \<in> set (en_log (snd (execute_prepared 3 (pushing_input None (\<lambda>_. Inr ()) (\<lambda>_. 0)) pushing pushing_engine))) \<and>
     engine_resume example_config example_hash 9 8 None (Inr (Some st)) (Inr False) pushing = Inr e1 \<and>
     started pushing (Some 2) (configured False False e1)"
proof -
  let ?run = "execute_prepared 3 (pushing_input None (\<lambda>_. Inr ()) (\<lambda>_. 0)) pushing pushing_engine"
  obtain st where st: "Eff_persist st \<in> set (en_log (snd ?run))" using pushing_saves by blast
  have h: "example_hash pushing = workflow_hash (en_state pushing_engine)" by (simp add: example_hash_def pushed_state_def)
  have "cfg_max_concurrent example_config = Some 2" by (simp add: example_config_def)
  with every_checkpoint_resumes [where hash = example_hash, OF pushing_started disjI1 [OF refl] st h, of example_config 9 8 None "Inr False" False False] st
  show ?thesis by (metis (no_types, lifting))
qed

end
