(* ===== verification/Worktree_Git.thy ===== *)
theory Worktree_Git
  imports Utf8 Paths
begin

text \<open>
  The git commands behind a worktree: \<open>src/engine/git/mod.rs\<close>, \<open>src/data/worktree_paths.rs\<close>. What git, the disk and
  the frontend answer is the record \<open>worktree_world\<close>, indexed by a clock that every question advances; what was run
  and answered is the log, newest first.
\<close>

subsection \<open>Commands and their answers\<close>

record git_output =
  go_code :: "int option"
  go_stdout :: string
  go_stderr :: string

definition go_success :: "git_output \<Rightarrow> bool" where
  "go_success x \<longleftrightarrow> go_code x = Some 0"

record merge_failed_detail =
  md_command :: string
  md_exit_code :: int
  md_output :: string

datatype command_error =
    CommandAborted
  | WorktreeExists string string
  | MergeTargetDirty string string string
  | MergeConflict string string string
  | GitFailed string
  | MergeFailed merge_failed_detail
  | IoFailed string
  | FrontendFailed string

datatype pre_worktree_decision = PreCommit string | UseLastCommit | PreAbort

datatype existing_worktree_decision = ResumeExisting | Recreate | FailExisting

datatype post_workflow_action = MergeAction | DiscardAction | KeepAction

datatype worktree_merge_mode = PlainMerge | SquashMerge | LeaveBranch

datatype dirty_target_decision = DirtyCommit string | DirtyStash | DirtyAbort

text \<open>
  What is logged: a git command with its answer, what the user decided (an answer given beforehand by a flag counts as
  one), what the frontend was told.
\<close>

datatype wt_event =
    Ran "string list" string "(string, git_output) result"
  | AskedPre pre_worktree_decision
  | AskedExisting existing_worktree_decision
  | AskedAction post_workflow_action
  | AskedMode worktree_merge_mode
  | AskedCommit "string option"
  | AskedDirty dirty_target_decision
  | AskedFix bool
  | AskedCleanup bool
  | ToldCreated string string
  | ToldResumed string string
  | ToldConflict string string string
  | ToldDiscarded string
  | ToldKept string string

datatype file_read = ReadBytes string | NoSuchFile | Unreadable string

record worktree_world =
  ww_git :: "nat \<Rightarrow> string list \<Rightarrow> string \<Rightarrow> (string, git_output) result"
  ww_exists :: "nat \<Rightarrow> string \<Rightarrow> bool"
  ww_create_dirs :: "nat \<Rightarrow> string \<Rightarrow> (string, unit) result"
  ww_canonical :: "nat \<Rightarrow> string \<Rightarrow> string option"
  ww_is_dir :: "nat \<Rightarrow> string \<Rightarrow> bool"
  ww_is_file :: "nat \<Rightarrow> string \<Rightarrow> bool"
  ww_dir_behind :: "nat \<Rightarrow> string \<Rightarrow> bool"
  ww_read :: "nat \<Rightarrow> string \<Rightarrow> file_read"
  ww_ask_pre :: "nat \<Rightarrow> (string, pre_worktree_decision) result"
  ww_ask_existing :: "nat \<Rightarrow> (string, existing_worktree_decision) result"
  ww_after_resume :: "nat \<Rightarrow> (string, existing_worktree_decision) result"
  ww_ask_action :: "nat \<Rightarrow> (string, post_workflow_action) result"
  ww_ask_mode :: "nat \<Rightarrow> (string, worktree_merge_mode) result"
  ww_ask_commit :: "nat \<Rightarrow> (string, string option) result"
  ww_ask_dirty :: "nat \<Rightarrow> (string, dirty_target_decision) result"
  ww_ask_fix :: "nat \<Rightarrow> (string, bool) result"
  ww_confirm :: "nat \<Rightarrow> (string, bool) result"

record wt =
  wt_tick :: nat
  wt_log :: "wt_event list"

type_synonym 'a wtm = "wt \<Rightarrow> (command_error, 'a) result \<times> wt"

definition wret :: "'a \<Rightarrow> 'a wtm" where
  "wret x s = (Inr x, s)"

definition wfail :: "command_error \<Rightarrow> 'a wtm" where
  "wfail r s = (Inl r, s)"

definition wbind :: "'a wtm \<Rightarrow> ('a \<Rightarrow> 'b wtm) \<Rightarrow> 'b wtm" where
  "wbind m k s = (case m s of (Inr x, s') \<Rightarrow> k x s' | (Inl r, s') \<Rightarrow> (Inl r, s'))"

text \<open>The error as a value, for the places that look at it.\<close>

definition wtry :: "'a wtm \<Rightarrow> ((command_error, 'a) result) wtm" where
  "wtry m s = (case m s of (r, s') \<Rightarrow> (Inr r, s'))"

definition wtell :: "wt_event \<Rightarrow> unit wtm" where
  "wtell ev s = (Inr (), s\<lparr>wt_log := ev # wt_log s\<rparr>)"

definition wobserve :: "(nat \<Rightarrow> 'a) \<Rightarrow> 'a wtm" where
  "wobserve f s = (Inr (f (wt_tick s)), s\<lparr>wt_tick := Suc (wt_tick s)\<rparr>)"

definition wconsult :: "(nat \<Rightarrow> (string, 'a) result) \<Rightarrow> ('a \<Rightarrow> wt_event) \<Rightarrow> 'a wtm" where
  "wconsult f ev =
     wbind (wobserve f) (\<lambda>r. case r of
       Inl x \<Rightarrow> wfail (FrontendFailed x)
     | Inr x \<Rightarrow> wbind (wtell (ev x)) (\<lambda>_. wret x))"

subsection \<open>Running git\<close>

definition git_invoke :: "worktree_world \<Rightarrow> string list \<Rightarrow> string \<Rightarrow> ((string, git_output) result) wtm" where
  "git_invoke w args cwd =
     wbind (wobserve (\<lambda>t. ww_git w t args cwd)) (\<lambda>r. wbind (wtell (Ran args cwd r)) (\<lambda>_. wret r))"

definition run_git_logged :: "worktree_world \<Rightarrow> string list \<Rightarrow> string \<Rightarrow> git_output wtm" where
  "run_git_logged w args cwd =
     wbind (git_invoke w args cwd) (\<lambda>r. case r of
       Inl e \<Rightarrow> wfail (GitFailed (''invoke `git '' @ join_str '' '' args @ ''`: '' @ e))
     | Inr x \<Rightarrow> wret x)"

text \<open>A command that must exit with 0; \<open>what\<close> is how its failure is reported.\<close>

definition run_git_ok :: "worktree_world \<Rightarrow> string \<Rightarrow> string list \<Rightarrow> string \<Rightarrow> git_output wtm" where
  "run_git_ok w what args cwd =
     wbind (run_git_logged w args cwd) (\<lambda>x.
       if go_success x then wret x
       else wfail (GitFailed (what @ '' failed: '' @ trim (from_utf8_lossy (go_stderr x)))))"

text \<open>A command of which only the exit counts.\<close>

definition git_says :: "worktree_world \<Rightarrow> string list \<Rightarrow> string \<Rightarrow> bool wtm" where
  "git_says w args cwd =
     wbind (git_invoke w args cwd) (\<lambda>r. wret (case r of Inr x \<Rightarrow> go_success x | Inl _ \<Rightarrow> False))"

definition branch_exists :: "worktree_world \<Rightarrow> string \<Rightarrow> string \<Rightarrow> bool wtm" where
  "branch_exists w root branch = git_says w [''rev-parse'', ''--verify'', ''refs/heads/'' @ branch] root"

definition is_detached_head :: "worktree_world \<Rightarrow> string \<Rightarrow> bool wtm" where
  "is_detached_head w root =
     wbind (git_says w [''symbolic-ref'', ''--quiet'', ''HEAD''] root) (\<lambda>b. wret (\<not> b))"

definition current_branch :: "worktree_world \<Rightarrow> string \<Rightarrow> (string option) wtm" where
  "current_branch w root =
     wbind (git_invoke w [''rev-parse'', ''--abbrev-ref'', ''HEAD''] root) (\<lambda>r. wret (case r of
       Inl _ \<Rightarrow> None
     | Inr x \<Rightarrow>
         if \<not> go_success x then None
         else (let name = trim (from_utf8_lossy (go_stdout x)) in
               if name = [] \<or> name = ''HEAD'' then None else Some name)))"

definition uncommitted_files_logged :: "worktree_world \<Rightarrow> string \<Rightarrow> (string list) wtm" where
  "uncommitted_files_logged w path =
     wbind (run_git_ok w ''git status'' [''status'', ''--porcelain''] path) (\<lambda>x.
       wret (filter (\<lambda>l. trim l \<noteq> []) (lines (from_utf8_lossy (go_stdout x)))))"

definition commit_all_logged :: "worktree_world \<Rightarrow> string \<Rightarrow> string \<Rightarrow> unit wtm" where
  "commit_all_logged w path message =
     wbind (run_git_ok w ''git add -A'' [''add'', ''-A''] path) (\<lambda>_.
     wbind (run_git_ok w ''git commit'' [''commit'', ''-m'', message] path) (\<lambda>_. wret ()))"

definition stash_push_logged :: "worktree_world \<Rightarrow> string \<Rightarrow> string \<Rightarrow> unit wtm" where
  "stash_push_logged w root message =
     wbind (run_git_ok w ''git stash'' [''stash'', ''push'', ''--include-untracked'', ''-m'', message] root)
       (\<lambda>_. wret ())"

definition path_parent :: "string \<Rightarrow> string option" where
  "path_parent p =
     (case rev (path_components p) of [] \<Rightarrow> None | RootDir # _ \<Rightarrow> None | _ # r \<Rightarrow> Some (path_string (rev r)))"

definition path_to_str :: "string \<Rightarrow> string wtm" where
  "path_to_str p = (if utf8_valid p then wret p else wfail (GitFailed ''worktree path not UTF-8''))"

definition create_worktree_logged :: "worktree_world \<Rightarrow> string \<Rightarrow> string \<Rightarrow> string \<Rightarrow> unit wtm" where
  "create_worktree_logged w root path branch =
     wbind (wobserve (\<lambda>t. ww_create_dirs w t (case path_parent path of Some p \<Rightarrow> p | None \<Rightarrow> path))) (\<lambda>made. case made of
       Inl x \<Rightarrow> wfail (IoFailed x)
     | Inr _ \<Rightarrow>
         wbind (path_to_str path) (\<lambda>p.
         wbind (branch_exists w root branch) (\<lambda>known.
         wbind (run_git_ok w ''git worktree add''
                  (if known then [''worktree'', ''add'', p, branch] else [''worktree'', ''add'', p, ''-b'', branch]) root)
           (\<lambda>_. wret ()))))"

definition remove_worktree_logged :: "worktree_world \<Rightarrow> string \<Rightarrow> string \<Rightarrow> unit wtm" where
  "remove_worktree_logged w root path =
     wbind (path_to_str path) (\<lambda>p.
     wbind (run_git_ok w ''git worktree remove'' [''worktree'', ''remove'', ''--force'', p] root) (\<lambda>_. wret ()))"

definition delete_branch_logged :: "worktree_world \<Rightarrow> string \<Rightarrow> string \<Rightarrow> unit wtm" where
  "delete_branch_logged w root branch =
     wbind (run_git_ok w ''git branch -D'' [''branch'', ''-D'', branch] root) (\<lambda>_. wret ())"

text \<open>How the error of a git command reads.\<close>

definition engine_error_text :: "command_error \<Rightarrow> string" where
  "engine_error_text r = (case r of GitFailed m \<Rightarrow> ''git operation failed: '' @ m | _ \<Rightarrow> [])"

text \<open>Detach, delete, and put \<open>HEAD\<close> back when the deletion failed.\<close>

definition delete_recreated_branch_logged :: "worktree_world \<Rightarrow> string \<Rightarrow> string \<Rightarrow> string \<Rightarrow> unit wtm" where
  "delete_recreated_branch_logged w root path branch =
     wbind (current_branch w path) (\<lambda>actual.
     if actual \<noteq> Some branch
     then wfail (GitFailed (''cannot recreate '' @ path @ '': branch '' @ [sq] @ branch @ [sq] @
       '' is not checked out here (current branch: '' @ (case actual of Some b \<Rightarrow> b | None \<Rightarrow> ''detached HEAD'') @
       ''); check whether it is checked out elsewhere''))
     else
       wbind (run_git_logged w [''update-ref'', ''--no-deref'', ''HEAD'', ''HEAD''] path) (\<lambda>x.
       if \<not> go_success x then wfail (GitFailed (from_utf8_lossy (go_stderr x)))
       else
         wbind (branch_exists w root branch) (\<lambda>known.
         if \<not> known then wret ()
         else
           wbind (wtry (delete_branch_logged w root branch)) (\<lambda>r. case r of
             Inr _ \<Rightarrow> wret ()
           | Inl error \<Rightarrow>
               wbind (run_git_logged w [''symbolic-ref'', ''HEAD'', ''refs/heads/'' @ branch] path) (\<lambda>y.
               if go_success y then wfail error
               else wfail (GitFailed (engine_error_text error @
                      ''; could not restore original branch; worktree files preserved at '' @ path)))))))"

subsection \<open>Whose worktree it is\<close>

text \<open>
  \<open>validate_worktree_owner\<close>: the worktree's \<open>.git\<close> file names an entry of the repository's \<open>worktrees\<close> directory
  that names it back. \<open>None\<close> is the one error every check gives.
\<close>

definition trim_newlines :: "string \<Rightarrow> string" where
  "trim_newlines s = trim_end_matches nl s"

definition read_text :: "worktree_world \<Rightarrow> nat \<Rightarrow> string \<Rightarrow> string option" where
  "read_text w t p = (case ww_read w t p of ReadBytes b \<Rightarrow> if utf8_valid b then Some b else None | _ \<Rightarrow> None)"

definition read_bytes :: "worktree_world \<Rightarrow> nat \<Rightarrow> string \<Rightarrow> string option" where
  "read_bytes w t p = (case ww_read w t p of ReadBytes b \<Rightarrow> Some b | _ \<Rightarrow> None)"

definition guard :: "bool \<Rightarrow> unit option" where
  "guard b = (if b then Some () else None)"

definition owner_on_disk :: "worktree_world \<Rightarrow> nat \<Rightarrow> string \<Rightarrow> string \<Rightarrow> string \<Rightarrow> string option" where
  "owner_on_disk w t root worktree common_out =
     (let canon = ww_canonical w t; dot_git = path_join worktree ''.git'' in
      Option.bind (canon (trim_newlines (from_utf8_lossy common_out))) (\<lambda>common.
      Option.bind (guard (ww_is_dir w t worktree)) (\<lambda>_.
      Option.bind (guard (ww_is_file w t dot_git)) (\<lambda>_.
      Option.bind (read_text w t dot_git) (\<lambda>pointer.
      Option.bind (strip_prefix (trim_newlines pointer) ''gitdir: '') (\<lambda>target.
      Option.bind (canon (path_join worktree target)) (\<lambda>admin.
      Option.bind (if ww_dir_behind w t (path_join root ''.git'')
                   then Option.bind (canon (path_join root ''.git'')) (\<lambda>g. guard (g = common)) else Some ()) (\<lambda>_.
      Option.bind (canon (path_join common ''worktrees'')) (\<lambda>registrations.
      Option.bind (guard (registrations = path_join common ''worktrees'' \<and>
                   path_parent admin = Some registrations)) (\<lambda>_.
      Option.bind (read_bytes w t (path_join admin ''gitdir'')) (\<lambda>backlink.
      Option.bind (canon (case strip_suffix backlink [nl] of Some b \<Rightarrow> b | None \<Rightarrow> backlink)) (\<lambda>back.
      Option.bind (canon dot_git) (\<lambda>here.
      Option.bind (guard (back = here)) (\<lambda>_.
      Option.bind (read_text w t (path_join admin ''commondir'')) (\<lambda>commondir.
      Option.bind (canon (path_join admin (trim commondir))) (\<lambda>c.
      Option.bind (guard (c = common)) (\<lambda>_. Some common)))))))))))))))))"

definition validate_worktree_owner :: "worktree_world \<Rightarrow> string \<Rightarrow> string \<Rightarrow> string wtm" where
  "validate_worktree_owner w root worktree =
     (let invalid = GitFailed (''worktree does not belong to this repository: '' @ worktree) in
      wbind (git_invoke w [''rev-parse'', ''--path-format=absolute'', ''--git-common-dir''] root) (\<lambda>r. case r of
        Inl _ \<Rightarrow> wfail invalid
      | Inr x \<Rightarrow>
          if \<not> go_success x then wfail invalid
          else wbind (wobserve (\<lambda>t. owner_on_disk w t root worktree (go_stdout x))) (\<lambda>owner. case owner of
                 None \<Rightarrow> wfail invalid
               | Some common \<Rightarrow> wret common)))"

subsection \<open>Names (\<open>worktree_paths.rs\<close>)\<close>

text \<open>\<open>sha256_hex\<close> of the standard digest is a parameter.\<close>

definition worktree_branch_name :: "nat \<Rightarrow> string" where
  "worktree_branch_name work_item = ''awman/work-item-'' @ dec4 work_item"

definition worktree_branch_name_for_workflow :: "string \<Rightarrow> string" where
  "worktree_branch_name_for_workflow name = ''awman/workflow-'' @ name"

definition repo_dirname :: "string \<Rightarrow> string" where
  "repo_dirname root =
     (case path_file_name root of Some n \<Rightarrow> if utf8_valid n then n else ''repo'' | None \<Rightarrow> ''repo'')"

definition repo_key :: "(string \<Rightarrow> string) \<Rightarrow> string \<Rightarrow> string" where
  "repo_key sha256 root = repo_dirname root @ ''-'' @ take 8 (sha256 (from_utf8_lossy root))"

definition repo_dir :: "string \<Rightarrow> string \<Rightarrow> string" where
  "repo_dir home dir = path_join (path_join (path_join home ''.awman'') ''worktrees'') dir"

definition for_work_item :: "(string \<Rightarrow> string) \<Rightarrow> string \<Rightarrow> string \<Rightarrow> nat \<Rightarrow> string" where
  "for_work_item sha256 home root n = path_join (repo_dir home (repo_key sha256 root)) (dec4 n)"

definition for_workflow :: "(string \<Rightarrow> string) \<Rightarrow> string \<Rightarrow> string \<Rightarrow> string \<Rightarrow> string" where
  "for_workflow sha256 home root name = path_join (repo_dir home (repo_key sha256 root)) (''wf-'' @ name)"

definition legacy_for_work_item :: "string \<Rightarrow> string \<Rightarrow> nat \<Rightarrow> string" where
  "legacy_for_work_item home root n = path_join (repo_dir home (repo_dirname root)) (dec4 n)"

definition legacy_for_workflow :: "string \<Rightarrow> string \<Rightarrow> string \<Rightarrow> string" where
  "legacy_for_workflow home root name = path_join (repo_dir home (repo_dirname root)) (''wf-'' @ name)"

definition branch_worktree_dir_name :: "(string \<Rightarrow> string) \<Rightarrow> string \<Rightarrow> string" where
  "branch_worktree_dir_name sha256 branch =
     (let sanitized = concat (map (\<lambda>c. case c of
            [b] \<Rightarrow> if is_ascii_alnum b \<or> b \<in> {CHR ''.'', CHR ''_'', CHR ''-''} then [b] else ''-''
          | _ \<Rightarrow> ''-'') (utf8_chars branch)) in
      if sanitized = branch then ''br-'' @ sanitized
      else ''br-'' @ sanitized @ ''-'' @ take 8 (sha256 branch))"

definition pull_request_worktree_dir_name :: "nat \<Rightarrow> string" where
  "pull_request_worktree_dir_name n = ''pr-'' @ dec_string n"

subsection \<open>Merging\<close>

definition squash_commit_message :: "string \<Rightarrow> string" where
  "squash_commit_message branch = ''Implement '' @ branch"

definition quoted_arg :: "string \<Rightarrow> string" where
  "quoted_arg a = (if list_ex char_is_whitespace (utf8_chars a) then [dq] @ a @ [dq] else a)"

definition merge_failed :: "string list \<Rightarrow> git_output \<Rightarrow> command_error" where
  "merge_failed args x =
     MergeFailed \<lparr>md_command = join_str '' '' (''git'' # map quoted_arg args),
       md_exit_code = (case go_code x of Some c \<Rightarrow> c | None \<Rightarrow> 1),
       md_output = join_str [nl]
         (filter (\<lambda>s. s \<noteq> []) [trim (from_utf8_lossy (go_stdout x)), trim (from_utf8_lossy (go_stderr x))])\<rparr>"

definition run_merge :: "worktree_world \<Rightarrow> string list \<Rightarrow> string \<Rightarrow> unit wtm" where
  "run_merge w args root =
     wbind (run_git_logged w args root) (\<lambda>x. if go_success x then wret () else wfail (merge_failed args x))"

definition has_staged_changes_logged :: "worktree_world \<Rightarrow> string \<Rightarrow> bool wtm" where
  "has_staged_changes_logged w root =
     wbind (run_git_logged w [''diff'', ''--cached'', ''--quiet''] root) (\<lambda>x. wret (\<not> go_success x))"

definition merge_branch_logged :: "worktree_world \<Rightarrow> string \<Rightarrow> string \<Rightarrow> bool \<Rightarrow> unit wtm" where
  "merge_branch_logged w root branch squash =
     (if \<not> squash then run_merge w [''merge'', ''-m'', ''Merge '' @ branch, branch] root
      else
        wbind (run_merge w [''merge'', ''--squash'', branch] root) (\<lambda>_.
        wbind (has_staged_changes_logged w root) (\<lambda>staged.
        if \<not> staged then wret ()
        else run_merge w [''commit'', ''-m'', squash_commit_message branch] root)))"

definition head_commit_logged :: "worktree_world \<Rightarrow> string \<Rightarrow> string wtm" where
  "head_commit_logged w root =
     wbind (run_git_logged w [''rev-parse'', ''--verify'', ''HEAD''] root) (\<lambda>x.
       if \<not> go_success x then wfail (GitFailed ''reading HEAD failed'')
       else wret (trim (from_utf8_lossy (go_stdout x))))"

text \<open>Names between zero bytes; one that is not UTF-8 is an error.\<close>

definition nul_paths :: "string \<Rightarrow> string \<Rightarrow> (command_error, string list) result" where
  "nul_paths what out =
     (let ps = filter (\<lambda>p. p \<noteq> []) (split_on (CHR 0x00) out) in
      if list_all utf8_valid ps then Inr ps
      else Inl (GitFailed (what @ '' filename is not UTF-8; resolve the merge manually'')))"

definition wlift :: "(command_error, 'a) result \<Rightarrow> 'a wtm" where
  "wlift r = (case r of Inl x \<Rightarrow> wfail x | Inr y \<Rightarrow> wret y)"

definition staged_paths_logged :: "worktree_world \<Rightarrow> string \<Rightarrow> (string list) wtm" where
  "staged_paths_logged w root =
     wbind (run_git_logged w [''diff'', ''--cached'', ''--name-only'', ''-z''] root) (\<lambda>x.
       if \<not> go_success x then wfail (GitFailed ''reading staged paths failed'')
       else wlift (nul_paths ''staged'' (go_stdout x)))"

definition unmerged_paths_logged :: "worktree_world \<Rightarrow> string \<Rightarrow> (string list) wtm" where
  "unmerged_paths_logged w root =
     wbind (run_git_ok w ''git diff --diff-filter=U'' [''diff'', ''--name-only'', ''--diff-filter=U'', ''-z''] root)
       (\<lambda>x. wbind (wlift (nul_paths ''unmerged'' (go_stdout x))) (\<lambda>ps. wret (remdups_adj ps)))"

definition merge_in_progress_logged :: "worktree_world \<Rightarrow> string \<Rightarrow> bool wtm" where
  "merge_in_progress_logged w root = git_says w [''rev-parse'', ''-q'', ''--verify'', ''MERGE_HEAD''] root"

definition is_merged_into_head_logged :: "worktree_world \<Rightarrow> string \<Rightarrow> string \<Rightarrow> bool wtm" where
  "is_merged_into_head_logged w root commit =
     git_says w [''merge-base'', ''--is-ancestor'', commit, ''HEAD''] root"

definition stage_paths_logged :: "worktree_world \<Rightarrow> string \<Rightarrow> string list \<Rightarrow> unit wtm" where
  "stage_paths_logged w root paths =
     (if paths = [] then wret ()
      else wbind (run_git_ok w ''git add'' ([''--literal-pathspecs'', ''add'', ''--''] @ paths) root) (\<lambda>_. wret ()))"

definition commit_merge_logged :: "worktree_world \<Rightarrow> string \<Rightarrow> string option \<Rightarrow> unit wtm" where
  "commit_merge_logged w root message =
     wbind (run_git_ok w ''git commit''
              (case message of None \<Rightarrow> [''commit'', ''--no-edit''] | Some m \<Rightarrow> [''commit'', ''-m'', m]) root) (\<lambda>_. wret ())"

end
