(* ===== verification/Worktree_Lifecycle.thy ===== *)
theory Worktree_Lifecycle
  imports Worktree_Git
begin

text \<open>
  \<open>src/command/commands/worktree_lifecycle.rs\<close>: making the worktree a run works in, and merging, keeping or discarding
  it afterwards. The questions to the user and their answers, the git commands and their outputs are in the log.
\<close>

subsection \<open>Names, policies, texts\<close>

datatype worktree_name = WorkflowNamed string | WorkItemNamed nat

definition file_stem :: "string \<Rightarrow> string option" where
  "file_stem p =
     map_option (\<lambda>n. case name_extension n of None \<Rightarrow> n | Some ext \<Rightarrow> take (length n - length ext - 1) n)
       (path_file_name p)"

definition name_for :: "string option \<Rightarrow> nat option \<Rightarrow> string \<Rightarrow> worktree_name" where
  "name_for issue_slug work_item workflow_path =
     (case issue_slug of
        Some slug \<Rightarrow> WorkflowNamed slug
      | None \<Rightarrow>
          (case work_item of
             Some number \<Rightarrow> WorkItemNamed number
           | None \<Rightarrow> WorkflowNamed (case file_stem workflow_path of
                 Some s \<Rightarrow> if utf8_valid s then s else ''workflow'' | None \<Rightarrow> ''workflow'')))"

datatype on_dirty_merge_target = DirtyTargetAsk | DirtyTargetCommit | DirtyTargetStash | DirtyTargetFail

datatype on_merge_failure = MergeFailureAsk | MergeFailureAgent | MergeFailureKeep

record finalize_policy =
  fp_dirty :: "on_dirty_merge_target option"
  fp_failure :: "on_merge_failure option"

datatype existing_worktree_choice = AskExisting | ExplicitExisting existing_worktree_decision | ResumeAccepted

definition dirty_target_commit_message :: "string option \<Rightarrow> string \<Rightarrow> dirty_target_decision" where
  "dirty_target_commit_message submitted suggested =
     (case submitted of
        Some text \<Rightarrow> DirtyCommit (if trim text = [] then suggested else trim text)
      | None \<Rightarrow> DirtyAbort)"

definition dirty_merge_target_body :: "string \<Rightarrow> string list \<Rightarrow> string" where
  "dirty_merge_target_body target files =
     [sq] @ target @ [sq] @ '' has '' @ dec_string (length files) @
     '' uncommitted file(s); merging into it now could overwrite or mix in your edits:'' @ [nl, nl] @
     join_str [nl] (take 10 files) @
     (if 10 < length files then [nl] @ ''... and '' @ dec_string (length files - 10) @ '' more'' else [])"

record merge_failure =
  mf_branch :: string
  mf_target_branch :: string
  mf_worktree_path :: string
  mf_git_root :: string
  mf_squash :: bool
  mf_command :: string
  mf_exit_code :: int
  mf_output :: string
  mf_unmerged_paths :: "string list"
  mf_staged_paths :: "string list"
  mf_head_before_fix :: string
  mf_merge_in_progress :: bool

definition merge_started :: "merge_failure \<Rightarrow> bool" where
  "merge_started f \<longleftrightarrow> mf_merge_in_progress f \<or> mf_unmerged_paths f \<noteq> []"

definition prompt_body :: "nat \<Rightarrow> merge_failure \<Rightarrow> string" where
  "prompt_body max_lines f =
     (let ls = lines (mf_output f) in
      ''Merging '' @ [sq] @ mf_branch f @ [sq] @ '' into '' @ [sq] @ mf_target_branch f @ [sq] @ '' failed.'' @ [nl, nl] @
      ''$ '' @ mf_command f @ [nl] @ ''exit code '' @ int_string (mf_exit_code f) @ [nl] @
      concat (map (\<lambda>l. l @ [nl]) (take max_lines ls)) @
      (if max_lines < length ls
       then ''... ('' @ dec_string (length ls - max_lines) @ '' more line(s))'' @ [nl] else []) @
      (if mf_unmerged_paths f \<noteq> []
       then [nl] @ ''Unmerged files:'' @ [nl] @ join_str [nl] (mf_unmerged_paths f) @ [nl] else []) @
      [nl] @ ''The agent runs in a container on '' @ from_utf8_lossy (mf_git_root f) @
      ''. Otherwise the worktree is kept at '' @ from_utf8_lossy (mf_worktree_path f) @
      '' and the merge is left for you.'')"

definition has_conflict_markers :: "string \<Rightarrow> bool" where
  "has_conflict_markers contents =
     list_ex (\<lambda>l. starts_with l ''<<<<<<<'' \<or> starts_with l ''======='' \<or> starts_with l ''>>>>>>>'') (lines contents)"

datatype finalize_outcome = FinalizeDone | MergeFixRequested merge_failure

record lifecycle =
  wl_root :: string
  wl_path :: string
  wl_creation :: string
  wl_branch :: string

subsection \<open>Before the run\<close>

definition should_offer_resume ::
  "worktree_world \<Rightarrow> lifecycle \<Rightarrow> existing_worktree_decision option \<Rightarrow> bool wtm" where
  "should_offer_resume w L explicit =
     wbind (wobserve (\<lambda>t. ww_exists w t (wl_path L))) (\<lambda>there.
       if there
       then
         wbind (case explicit of Some d \<Rightarrow> wret d | None \<Rightarrow> wconsult (ww_after_resume w) AskedExisting) (\<lambda>decision.
           if decision = FailExisting then wfail (WorktreeExists (wl_path L) (wl_branch L))
           else wbind (validate_worktree_owner w (wl_root L) (wl_path L)) (\<lambda>_. wret (decision \<noteq> Recreate)))
       else wret (explicit \<noteq> Some Recreate))"

text \<open>The end of \<open>prepare_with_existing\<close>: a new worktree at \<open>path\<close>.\<close>

definition prepare_new :: "worktree_world \<Rightarrow> lifecycle \<Rightarrow> string wtm" where
  "prepare_new w L =
     wbind (uncommitted_files_logged w (wl_root L)) (\<lambda>files.
     wbind (if files = [] then wret ()
            else wbind (wconsult (ww_ask_pre w) AskedPre) (\<lambda>d. case d of
                   PreCommit message \<Rightarrow> commit_all_logged w (wl_root L) message
                 | UseLastCommit \<Rightarrow> wret ()
                 | PreAbort \<Rightarrow> wfail CommandAborted)) (\<lambda>_.
     wbind (create_worktree_logged w (wl_root L) (wl_path L) (wl_branch L)) (\<lambda>_.
     wbind (wtell (ToldCreated (wl_path L) (wl_branch L))) (\<lambda>_. wret (wl_path L)))))"

definition prepare_with_existing ::
  "worktree_world \<Rightarrow> lifecycle \<Rightarrow> existing_worktree_choice \<Rightarrow> string wtm" where
  "prepare_with_existing w L choice =
     wbind (is_detached_head w (wl_root L)) (\<lambda>_.
     wbind (wobserve (\<lambda>t. ww_exists w t (wl_path L))) (\<lambda>there.
       if \<not> there then prepare_new w L
       else
         wbind (case choice of
                  ExplicitExisting d \<Rightarrow> wbind (wtell (AskedExisting d)) (\<lambda>_. wret d)
                | AskExisting \<Rightarrow> wconsult (ww_ask_existing w) AskedExisting
                | ResumeAccepted \<Rightarrow> wconsult (ww_after_resume w) AskedExisting) (\<lambda>decision.
         case decision of
           ResumeExisting \<Rightarrow>
             wbind (validate_worktree_owner w (wl_root L) (wl_path L)) (\<lambda>_.
             wbind (wtell (ToldResumed (wl_path L) (wl_branch L))) (\<lambda>_. wret (wl_path L)))
         | Recreate \<Rightarrow>
             wbind (validate_worktree_owner w (wl_root L) (wl_path L)) (\<lambda>_.
             wbind (delete_recreated_branch_logged w (wl_root L) (wl_path L) (wl_branch L)) (\<lambda>_.
             wbind (remove_worktree_logged w (wl_root L) (wl_path L)) (\<lambda>_.
               prepare_new w (L\<lparr>wl_path := wl_creation L\<rparr>))))
         | FailExisting \<Rightarrow> wfail (WorktreeExists (wl_path L) (wl_branch L)))))"

subsection \<open>After the run\<close>

definition target_branch_name :: "worktree_world \<Rightarrow> lifecycle \<Rightarrow> string wtm" where
  "target_branch_name w L =
     wbind (current_branch w (wl_root L)) (\<lambda>b. wret (case b of Some n \<Rightarrow> n | None \<Rightarrow> ''current branch''))"

definition merge_target_dirty :: "lifecycle \<Rightarrow> string \<Rightarrow> 'a wtm" where
  "merge_target_dirty L target =
     wbind (wtell (ToldKept (wl_path L) (wl_branch L))) (\<lambda>_.
       wfail (MergeTargetDirty target (wl_branch L) (wl_path L)))"

definition dirty_decision ::
  "worktree_world \<Rightarrow> on_dirty_merge_target option \<Rightarrow> string \<Rightarrow> dirty_target_decision wtm" where
  "dirty_decision w policy suggested =
     (case policy of
        Some DirtyTargetCommit \<Rightarrow> wret (DirtyCommit suggested)
      | Some DirtyTargetStash \<Rightarrow> wret DirtyStash
      | Some DirtyTargetFail \<Rightarrow> wret DirtyAbort
      | _ \<Rightarrow> wconsult (ww_ask_dirty w) AskedDirty)"

definition prepare_merge_target :: "worktree_world \<Rightarrow> lifecycle \<Rightarrow> finalize_policy \<Rightarrow> unit wtm" where
  "prepare_merge_target w L policy =
     wbind (uncommitted_files_logged w (wl_root L)) (\<lambda>files.
       if files = [] then wret ()
       else
         wbind (target_branch_name w L) (\<lambda>target.
         wbind (dirty_decision w (fp_dirty policy)
                  (''WIP: changes on '' @ target @ '' before merging '' @ wl_branch L)) (\<lambda>decision.
         case decision of
           DirtyCommit message \<Rightarrow> commit_all_logged w (wl_root L) message
         | DirtyStash \<Rightarrow>
             wbind (wtry (stash_push_logged w (wl_root L) (''awman: before merging '' @ wl_branch L))) (\<lambda>r. case r of
               Inr _ \<Rightarrow> wret ()
             | Inl _ \<Rightarrow> merge_target_dirty L target)
         | DirtyAbort \<Rightarrow> merge_target_dirty L target)))"

definition cleanup_after_merge :: "worktree_world \<Rightarrow> lifecycle \<Rightarrow> unit wtm" where
  "cleanup_after_merge w L =
     wbind (wconsult (ww_confirm w) AskedCleanup) (\<lambda>remove.
       if remove
       then
         wbind (remove_worktree_logged w (wl_root L) (wl_path L)) (\<lambda>_.
         wbind (delete_branch_logged w (wl_root L) (wl_branch L)) (\<lambda>_.
           wtell (ToldDiscarded (wl_branch L))))
       else wtell (ToldKept (wl_path L) (wl_branch L)))"

definition describe_failure :: "worktree_world \<Rightarrow> lifecycle \<Rightarrow> bool \<Rightarrow> merge_failed_detail \<Rightarrow> merge_failure wtm" where
  "describe_failure w L squash d =
     wbind (unmerged_paths_logged w (wl_root L)) (\<lambda>unmerged.
     wbind (if squash \<and> starts_with (md_command d) ''git commit'' then wret True
            else merge_in_progress_logged w (wl_root L)) (\<lambda>in_progress.
     wbind (staged_paths_logged w (wl_root L)) (\<lambda>staged.
     wbind (head_commit_logged w (wl_root L)) (\<lambda>head.
     wbind (target_branch_name w L) (\<lambda>target.
       wret \<lparr>mf_branch = wl_branch L, mf_target_branch = target, mf_worktree_path = wl_path L,
         mf_git_root = wl_root L, mf_squash = squash, mf_command = md_command d, mf_exit_code = md_exit_code d,
         mf_output = md_output d, mf_unmerged_paths = unmerged, mf_staged_paths = staged,
         mf_head_before_fix = head, mf_merge_in_progress = in_progress\<rparr>)))))"

definition merge_back :: "worktree_world \<Rightarrow> lifecycle \<Rightarrow> finalize_policy \<Rightarrow> bool \<Rightarrow> finalize_outcome wtm" where
  "merge_back w L policy squash =
     wbind (prepare_merge_target w L policy) (\<lambda>_.
     wbind (wtry (merge_branch_logged w (wl_root L) (wl_branch L) squash)) (\<lambda>r. case r of
       Inr _ \<Rightarrow> wbind (cleanup_after_merge w L) (\<lambda>_. wret FinalizeDone)
     | Inl (MergeFailed d) \<Rightarrow>
         wbind (describe_failure w L squash d) (\<lambda>failure.
         wbind (wtell (ToldConflict (wl_branch L) (wl_path L) (wl_root L))) (\<lambda>_.
         wbind (case fp_failure policy of
                  Some MergeFailureKeep \<Rightarrow> wret False
                | Some MergeFailureAgent \<Rightarrow> wret True
                | _ \<Rightarrow> wconsult (ww_ask_fix w) AskedFix) (\<lambda>launch.
           wret (if launch then MergeFixRequested failure else FinalizeDone))))
     | Inl other \<Rightarrow> wfail other))"

definition finalize :: "worktree_world \<Rightarrow> lifecycle \<Rightarrow> finalize_policy \<Rightarrow> finalize_outcome wtm" where
  "finalize w L policy =
     wbind (target_branch_name w L) (\<lambda>_.
     wbind (wconsult (ww_ask_action w) AskedAction) (\<lambda>action. case action of
       MergeAction \<Rightarrow>
         wbind (wconsult (ww_ask_mode w) AskedMode) (\<lambda>mode.
         wbind (uncommitted_files_logged w (wl_path L)) (\<lambda>files.
         wbind (if files = [] then wret ()
                else wbind (wconsult (ww_ask_commit w) AskedCommit) (\<lambda>msg. case msg of
                       Some m \<Rightarrow> commit_all_logged w (wl_path L) m
                     | None \<Rightarrow> wret ())) (\<lambda>_.
         case mode of
           LeaveBranch \<Rightarrow> wbind (wtell (ToldKept (wl_path L) (wl_branch L))) (\<lambda>_. wret FinalizeDone)
         | SquashMerge \<Rightarrow> merge_back w L policy True
         | PlainMerge \<Rightarrow> merge_back w L policy False)))
     | DiscardAction \<Rightarrow>
         wbind (remove_worktree_logged w (wl_root L) (wl_path L)) (\<lambda>_.
         wbind (delete_branch_logged w (wl_root L) (wl_branch L)) (\<lambda>_.
         wbind (wtell (ToldDiscarded (wl_branch L))) (\<lambda>_. wret FinalizeDone)))
     | KeepAction \<Rightarrow> wbind (wtell (ToldKept (wl_path L) (wl_branch L))) (\<lambda>_. wret FinalizeDone)))"

subsection \<open>After the merge-fix agent\<close>

definition merge_still_unresolved :: "lifecycle \<Rightarrow> 'a wtm" where
  "merge_still_unresolved L =
     wbind (wtell (ToldConflict (wl_branch L) (wl_path L) (wl_root L))) (\<lambda>_.
       wfail (MergeConflict (wl_branch L) (wl_path L) (wl_root L)))"

text \<open>The first file that cannot be inspected ends the check; markers are looked for in all.\<close>

fun marked_files :: "worktree_world \<Rightarrow> lifecycle \<Rightarrow> string list \<Rightarrow> (string list) wtm" where
  "marked_files w L [] = wret []"
| "marked_files w L (p # ps) =
     wbind (wobserve (\<lambda>t. ww_read w t (path_join (wl_root L) p))) (\<lambda>r. case r of
       Unreadable _ \<Rightarrow> merge_still_unresolved L
     | NoSuchFile \<Rightarrow> marked_files w L ps
     | ReadBytes b \<Rightarrow>
         wbind (marked_files w L ps) (\<lambda>rest.
           wret (if has_conflict_markers (from_utf8_lossy b) then p # rest else rest)))"

definition commit_fixed_squash :: "worktree_world \<Rightarrow> lifecycle \<Rightarrow> merge_failure \<Rightarrow> ((command_error, unit) result) wtm" where
  "commit_fixed_squash w L f =
     wbind (head_commit_logged w (wl_root L)) (\<lambda>head.
     if head \<noteq> mf_head_before_fix f then merge_still_unresolved L
     else
       wbind (staged_paths_logged w (wl_root L)) (\<lambda>staged.
       if list_ex (\<lambda>p. p \<notin> set (mf_unmerged_paths f) \<and> p \<notin> set staged) (mf_staged_paths f)
       then merge_still_unresolved L
       else
         wbind (has_staged_changes_logged w (wl_root L)) (\<lambda>any_staged.
         if any_staged
         then wtry (commit_merge_logged w (wl_root L) (Some (squash_commit_message (wl_branch L))))
         else merge_still_unresolved L)))"

definition commit_fixed_merge :: "worktree_world \<Rightarrow> lifecycle \<Rightarrow> ((command_error, unit) result) wtm" where
  "commit_fixed_merge w L =
     wbind (merge_in_progress_logged w (wl_root L)) (\<lambda>going.
     if going then wtry (commit_merge_logged w (wl_root L) None)
     else
       wbind (is_merged_into_head_logged w (wl_root L) (wl_branch L)) (\<lambda>merged.
       if merged then wret (Inr ()) else merge_still_unresolved L))"

definition complete_merge_after_fix ::
  "worktree_world \<Rightarrow> lifecycle \<Rightarrow> merge_failure \<Rightarrow> bool \<Rightarrow> unit wtm" where
  "complete_merge_after_fix w L f agent_ran =
     (if \<not> agent_ran then wtell (ToldKept (wl_path L) (wl_branch L))
      else if \<not> merge_started f
      then
        wbind (wtry (merge_branch_logged w (wl_root L) (wl_branch L) (mf_squash f))) (\<lambda>r. case r of
          Inr _ \<Rightarrow> cleanup_after_merge w L
        | Inl (MergeFailed _) \<Rightarrow> merge_still_unresolved L
        | Inl other \<Rightarrow> wfail other)
      else
        wbind (marked_files w L (mf_unmerged_paths f)) (\<lambda>still_marked.
        if still_marked \<noteq> [] then merge_still_unresolved L
        else
          wbind (wtry (stage_paths_logged w (wl_root L) (mf_unmerged_paths f))) (\<lambda>r. case r of
            Inl _ \<Rightarrow> merge_still_unresolved L
          | Inr _ \<Rightarrow>
              wbind (unmerged_paths_logged w (wl_root L)) (\<lambda>remaining.
              if remaining \<noteq> [] then merge_still_unresolved L
              else
                wbind (if mf_squash f then commit_fixed_squash w L f else commit_fixed_merge w L) (\<lambda>commit.
                case commit of
                  Inl _ \<Rightarrow> merge_still_unresolved L
                | Inr _ \<Rightarrow> cleanup_after_merge w L)))))"

text \<open>The end of a run in a worktree: \<open>agent\<close> says whether the merge-fix agent could be run.\<close>

definition finalize_worktree :: "worktree_world \<Rightarrow> lifecycle \<Rightarrow> finalize_policy \<Rightarrow> (merge_failure \<Rightarrow> bool) \<Rightarrow> unit wtm" where
  "finalize_worktree w L policy agent =
     wbind (finalize w L policy) (\<lambda>r. case r of
       FinalizeDone \<Rightarrow> wret ()
     | MergeFixRequested f \<Rightarrow> complete_merge_after_fix w L f (agent f))"

end
