(* ===== verification/Worktree_Safety.thy ===== *)
theory Worktree_Safety
  imports Worktree_Lifecycle
begin

text \<open>
  When a worktree, a branch or uncommitted work may go. A log is guarded when every dangerous entry of it follows what
  permits it; most methods log nothing dangerous.
\<close>

named_theorems mild_intros \<open>methods that log nothing dangerous\<close>

subsection \<open>Guarded logs\<close>

fun guarded :: "(wt_event \<Rightarrow> bool) \<Rightarrow> (wt_event set \<Rightarrow> bool) \<Rightarrow> wt_event list \<Rightarrow> bool" where
  "guarded D ok [] \<longleftrightarrow> True"
| "guarded D ok (x # l) \<longleftrightarrow> guarded D ok l \<and> (D x \<longrightarrow> ok (set l))"

lemma guarded_append: "list_all (\<lambda>x. \<not> D x) new \<Longrightarrow> guarded D ok l \<Longrightarrow> guarded D ok (new @ l)"
  by (induction new) auto

definition mild :: "(wt_event \<Rightarrow> bool) \<Rightarrow> 'a wtm \<Rightarrow> bool" where
  "mild D m \<longleftrightarrow> (\<forall>s. \<exists>new. wt_log (snd (m s)) = new @ wt_log s \<and> list_all (\<lambda>x. \<not> D x) new)"

lemma mildD: "mild D m \<Longrightarrow> m s = (r, s') \<Longrightarrow> \<exists>new. wt_log s' = new @ wt_log s \<and> list_all (\<lambda>x. \<not> D x) new"
  unfolding mild_def by (drule spec [of _ s]) simp

lemma mild_quiet: "(\<And>s. wt_log (snd (m s)) = wt_log s) \<Longrightarrow> mild D m"
  by (simp add: mild_def)

lemma mild_basic [mild_intros]: "mild D (wret x)" "mild D (wfail r)" "mild D (wobserve f)" "mild D (wlift y)"
  by (rule mild_quiet; simp add: wret_def wfail_def wobserve_def wlift_def split: sum.splits)+

lemma mild_tell [mild_intros]: "\<not> D ev \<Longrightarrow> mild D (wtell ev)"
  unfolding mild_def wtell_def by (intro allI exI [of _ "[ev]"]) simp

lemma mild_bind [mild_intros]:
  assumes "mild D m" and "\<And>x. mild D (k x)"
  shows "mild D (wbind m k)"
  unfolding mild_def
proof
  fix s
  obtain r s1 where m: "m s = (r, s1)" by fastforce
  obtain new where n: "wt_log s1 = new @ wt_log s" "list_all (\<lambda>x. \<not> D x) new" using mildD [OF assms(1) m] by blast
  show "\<exists>new. wt_log (snd (wbind m k s)) = new @ wt_log s \<and> list_all (\<lambda>x. \<not> D x) new"
  proof (cases r)
    case (Inr x)
    obtain new' where "wt_log (snd (k x s1)) = new' @ wt_log s1" "list_all (\<lambda>x. \<not> D x) new'"
      using mildD [OF assms(2) surjective_pairing] by blast
    then show ?thesis using n m Inr by (intro exI [of _ "new' @ new"]) (simp add: wbind_def)
  qed (use n m in \<open>auto simp: wbind_def\<close>)
qed

lemma mild_try [mild_intros]: "mild D m \<Longrightarrow> mild D (wtry m)"
  by (simp add: mild_def wtry_def case_prod_beta)

lemma mild_if [mild_intros]: "mild D m \<Longrightarrow> mild D n \<Longrightarrow> mild D (if b then m else n)"
  by simp

lemma mild_consult [mild_intros]: "(\<And>x. \<not> D (ev x)) \<Longrightarrow> mild D (wconsult f ev)"
  unfolding wconsult_def by (auto intro!: mild_intros split: sum.splits)

subsection \<open>A logic of guarded methods\<close>

text \<open>\<open>F\<close> is what the log is known to contain; it is monotone, so methods that log more keep it.\<close>

definition upholds ::
  "(wt_event \<Rightarrow> bool) \<Rightarrow> (wt_event set \<Rightarrow> bool) \<Rightarrow> (wt_event set \<Rightarrow> bool) \<Rightarrow> 'a wtm
     \<Rightarrow> ('a \<Rightarrow> wt_event set \<Rightarrow> bool) \<Rightarrow> bool" where
  "upholds D ok F m G \<longleftrightarrow>
     (\<forall>s r s'. guarded D ok (wt_log s) \<and> F (set (wt_log s)) \<and> m s = (r, s') \<longrightarrow>
        guarded D ok (wt_log s') \<and> set (wt_log s) \<subseteq> set (wt_log s') \<and>
        (\<forall>x. r = Inr x \<longrightarrow> G x (set (wt_log s'))))"

lemma upholdsI:
  assumes "\<And>s r s'. guarded D ok (wt_log s) \<Longrightarrow> F (set (wt_log s)) \<Longrightarrow> m s = (r, s') \<Longrightarrow>
      guarded D ok (wt_log s') \<and> set (wt_log s) \<subseteq> set (wt_log s') \<and> (\<forall>x. r = Inr x \<longrightarrow> G x (set (wt_log s')))"
  shows "upholds D ok F m G"
  using assms unfolding upholds_def by blast

lemma upholds_mild: "mild D m \<Longrightarrow> mono F \<Longrightarrow> upholds D ok F m (\<lambda>_. F)"
proof (rule upholdsI)
  fix s r s'
  assume m: "mild D m" "mono F" and s: "guarded D ok (wt_log s)" "F (set (wt_log s))" "m s = (r, s')"
  obtain new where n: "wt_log s' = new @ wt_log s" "list_all (\<lambda>x. \<not> D x) new" using mildD [OF m(1) s(3)] by blast
  have "F (set (wt_log s'))" using monoD [OF m(2), of "set (wt_log s)" "set (wt_log s')"] s(2) n(1) by auto
  then show "guarded D ok (wt_log s') \<and> set (wt_log s) \<subseteq> set (wt_log s') \<and> (\<forall>x. r = Inr x \<longrightarrow> F (set (wt_log s')))"
    using n s(1) by (simp add: guarded_append)
qed

lemma upholds_bind:
  assumes "upholds D ok F m G" and "\<And>x. upholds D ok (G x) (k x) H"
  shows "upholds D ok F (wbind m k) H"
proof (rule upholdsI)
  fix s r s'
  assume s: "guarded D ok (wt_log s)" "F (set (wt_log s))" and w: "wbind m k s = (r, s')"
  obtain q s1 where m: "m s = (q, s1)" by fastforce
  have g: "guarded D ok (wt_log s1)" "set (wt_log s) \<subseteq> set (wt_log s1)" "\<And>x. q = Inr x \<Longrightarrow> G x (set (wt_log s1))"
    using assms(1) s m unfolding upholds_def by blast+
  show "guarded D ok (wt_log s') \<and> set (wt_log s) \<subseteq> set (wt_log s') \<and> (\<forall>x. r = Inr x \<longrightarrow> H x (set (wt_log s')))"
  proof (cases q)
    case (Inl e)
    then show ?thesis using w m g(1,2) by (auto simp: wbind_def)
  next
    case (Inr x)
    then have k: "k x s1 = (r, s')" using w m by (simp add: wbind_def)
    have "guarded D ok (wt_log s') \<and> set (wt_log s1) \<subseteq> set (wt_log s') \<and> (\<forall>x. r = Inr x \<longrightarrow> H x (set (wt_log s')))"
      using assms(2) [of x] g(1) g(3) [OF Inr] k unfolding upholds_def by blast
    then show ?thesis using g(2) by blast
  qed
qed

lemma upholds_conseq: "upholds D ok F m G \<Longrightarrow> (\<And>l. F' l \<Longrightarrow> F l) \<Longrightarrow> (\<And>x l. G x l \<Longrightarrow> G' x l) \<Longrightarrow> upholds D ok F' m G'"
  unfolding upholds_def by blast

lemma upholds_ret: "(\<And>l. F l \<Longrightarrow> G x l) \<Longrightarrow> upholds D ok F (wret x) G"
  by (rule upholdsI) (auto simp: wret_def)

lemma upholds_fail: "upholds D ok F (wfail r) G"
  by (rule upholdsI) (auto simp: wfail_def)

lemma upholds_if: "(b \<Longrightarrow> upholds D ok F m G) \<Longrightarrow> (\<not> b \<Longrightarrow> upholds D ok F n G) \<Longrightarrow> upholds D ok F (if b then m else n) G"
  by simp

lemma upholds_try:
  assumes "upholds D ok F m G" and "mono F"
  shows "upholds D ok F (wtry m) (\<lambda>r l. F l \<and> (\<forall>x. r = Inr x \<longrightarrow> G x l))"
proof (rule upholdsI)
  fix s q s'
  assume s: "guarded D ok (wt_log s)" "F (set (wt_log s))" "wtry m s = (q, s')"
  obtain r where r: "m s = (r, s')" "q = Inr r" using s(3) by (auto simp: wtry_def split: prod.splits)
  have g: "guarded D ok (wt_log s')" "set (wt_log s) \<subseteq> set (wt_log s')" "\<And>x. r = Inr x \<Longrightarrow> G x (set (wt_log s'))"
    using assms(1) s(1,2) r(1) unfolding upholds_def by blast+
  have "F (set (wt_log s'))" using monoD [OF assms(2) g(2)] s(2) by simp
  then show "guarded D ok (wt_log s') \<and> set (wt_log s) \<subseteq> set (wt_log s') \<and>
      (\<forall>y. q = Inr y \<longrightarrow> F (set (wt_log s')) \<and> (\<forall>x. y = Inr x \<longrightarrow> G x (set (wt_log s'))))"
    using g r(2) by simp
qed

text \<open>A mild method first, and what is known stays known.\<close>

lemma upholds_first:
  "mild D m \<Longrightarrow> mono F \<Longrightarrow> (\<And>x. upholds D ok F (k x) G) \<Longrightarrow> upholds D ok F (wbind m k) G"
  by (rule upholds_bind [OF upholds_mild])

lemma upholds_last: "mild D m \<Longrightarrow> mono F \<Longrightarrow> upholds D ok F m (\<lambda>_ _. True)"
  by (rule upholds_conseq [OF upholds_mild [where F = F]]) simp_all

text \<open>A command is answered, and the answer is in the log.\<close>

lemma upholds_invoke:
  assumes "mono F" and "\<And>r l. D (Ran args cwd r) \<Longrightarrow> F l \<Longrightarrow> ok l"
  shows "upholds D ok F (git_invoke w args cwd) (\<lambda>r l. F l \<and> Ran args cwd r \<in> l)"
proof (rule upholdsI)
  fix s q s'
  assume s: "guarded D ok (wt_log s)" "F (set (wt_log s))" "git_invoke w args cwd s = (q, s')"
  obtain r where r: "q = Inr r" "wt_log s' = Ran args cwd r # wt_log s"
    using s(3) by (auto simp: git_invoke_def wbind_def wobserve_def wtell_def wret_def)
  have "F (set (wt_log s'))" using monoD [OF assms(1), of "set (wt_log s)" "set (wt_log s')"] s(2) r(2) by auto
  then show "guarded D ok (wt_log s') \<and> set (wt_log s) \<subseteq> set (wt_log s') \<and>
      (\<forall>r. q = Inr r \<longrightarrow> F (set (wt_log s')) \<and> Ran args cwd r \<in> set (wt_log s'))"
    using r s(1,2) assms(2) by auto
qed

subsection \<open>Ordinary commands\<close>

fun runs :: "(string list \<Rightarrow> bool) \<Rightarrow> wt_event \<Rightarrow> bool" where
  "runs bad (Ran args _ _) = bad args"
| "runs bad _ = False"

text \<open>What reads, stages, commits or stashes, or adds a worktree, is not dangerous.\<close>

locale ordinary =
  fixes bad :: "string list \<Rightarrow> bool"
  assumes reading: "hd args \<in> {''status'', ''rev-parse'', ''symbolic-ref'', ''diff'', ''merge-base'', ''update-ref''} \<Longrightarrow> \<not> bad args"
    and recording: "hd args \<in> {''add'', ''commit'', ''stash'', ''--literal-pathspecs''} \<Longrightarrow> \<not> bad args"
    and adding: "\<not> bad (''worktree'' # ''add'' # rest)"
begin

lemma invoke: "\<not> bad args \<Longrightarrow> mild (runs bad) (git_invoke w args cwd)"
  unfolding git_invoke_def by (auto intro!: mild_intros)

lemma logged: "\<not> bad args \<Longrightarrow> mild (runs bad) (run_git_logged w args cwd)"
  unfolding run_git_logged_def by (auto intro!: mild_intros invoke split: sum.splits)

lemma ok_run: "\<not> bad args \<Longrightarrow> mild (runs bad) (run_git_ok w what args cwd)"
  unfolding run_git_ok_def by (auto intro!: mild_intros logged)

lemma says: "\<not> bad args \<Longrightarrow> mild (runs bad) (git_says w args cwd)"
  unfolding git_says_def by (auto intro!: mild_intros invoke)

lemma reads [mild_intros]: "mild (runs bad) (branch_exists w root b)" "mild (runs bad) (is_detached_head w root)"
  "mild (runs bad) (current_branch w root)" "mild (runs bad) (uncommitted_files_logged w root)"
  "mild (runs bad) (has_staged_changes_logged w root)" "mild (runs bad) (head_commit_logged w root)"
  "mild (runs bad) (staged_paths_logged w root)" "mild (runs bad) (unmerged_paths_logged w root)"
  "mild (runs bad) (merge_in_progress_logged w root)" "mild (runs bad) (is_merged_into_head_logged w root c)"
  "mild (runs bad) (validate_worktree_owner w root path)" "mild (runs bad) (target_branch_name w L)"
  unfolding branch_exists_def is_detached_head_def current_branch_def uncommitted_files_logged_def
    has_staged_changes_logged_def head_commit_logged_def staged_paths_logged_def unmerged_paths_logged_def
    merge_in_progress_logged_def is_merged_into_head_logged_def validate_worktree_owner_def Let_def target_branch_name_def
  by (auto intro!: mild_intros invoke logged ok_run says reading split: sum.splits option.splits)

lemma writes [mild_intros]: "mild (runs bad) (commit_all_logged w path m)" "mild (runs bad) (stash_push_logged w root m)"
  "mild (runs bad) (stage_paths_logged w root paths)" "mild (runs bad) (commit_merge_logged w root msg)"
  "mild (runs bad) (path_to_str p)"
  unfolding commit_all_logged_def stash_push_logged_def stage_paths_logged_def commit_merge_logged_def path_to_str_def
  by (auto intro!: mild_intros ok_run recording split: option.splits)

lemma creates [mild_intros]: "mild (runs bad) (create_worktree_logged w root path b)"
proof -
  have "\<not> bad (if c then [''worktree'', ''add'', p, b] else [''worktree'', ''add'', p, ''-b'', b])" for c p
    using adding by (cases c) simp_all
  then show ?thesis
    unfolding create_worktree_logged_def by (auto intro!: mild_intros ok_run split: sum.splits)
qed

lemma news [mild_intros]: "mild (runs bad) (wtell (ToldCreated a b))" "mild (runs bad) (wtell (ToldResumed a b))"
  "mild (runs bad) (wtell (ToldConflict a b c))" "mild (runs bad) (wtell (ToldDiscarded a))" "mild (runs bad) (wtell (ToldKept a b))"
  "mild (runs bad) (wtell (AskedExisting d))"
  by (rule mild_tell, simp)+

lemma questions [mild_intros]: "mild (runs bad) (wconsult f AskedPre)" "mild (runs bad) (wconsult g AskedExisting)"
  "mild (runs bad) (wconsult h AskedAction)" "mild (runs bad) (wconsult i AskedMode)" "mild (runs bad) (wconsult j AskedCommit)"
  "mild (runs bad) (wconsult k AskedDirty)" "mild (runs bad) (wconsult l AskedFix)" "mild (runs bad) (wconsult m AskedCleanup)"
  by (rule mild_consult, simp)+

lemma target [mild_intros]: "mild (runs bad) (merge_target_dirty L t)" "mild (runs bad) (dirty_decision w d m)"
  "mild (runs bad) (prepare_merge_target w L policy)" "mild (runs bad) (describe_failure w L squash d')"
  "mild (runs bad) (merge_still_unresolved L)"
  unfolding merge_target_dirty_def dirty_decision_def prepare_merge_target_def describe_failure_def merge_still_unresolved_def
  by (auto intro!: mild_intros split: option.splits on_dirty_merge_target.splits dirty_target_decision.splits sum.splits)

lemma marked [mild_intros]: "mild (runs bad) (marked_files w L ps)"
  by (induction ps) (auto intro!: mild_intros split: file_read.splits)

lemma prepare [mild_intros]: "mild (runs bad) (prepare_new w L)"
  unfolding prepare_new_def by (auto intro!: mild_intros split: pre_worktree_decision.splits)

lemma fixed [mild_intros]: "mild (runs bad) (commit_fixed_squash w L f)" "mild (runs bad) (commit_fixed_merge w L)"
  unfolding commit_fixed_squash_def commit_fixed_merge_def by (auto intro!: mild_intros)

end

subsection \<open>Losing work\<close>

text \<open>Removing a worktree with what is in it, deleting a branch whatever it holds.\<close>

definition destroys_work :: "string list \<Rightarrow> bool" where
  "destroys_work args \<longleftrightarrow>
     (case args of a # b # _ \<Rightarrow> (a, b) \<in> {(''worktree'', ''remove''), (''branch'', ''-D'')} | _ \<Rightarrow> False)"

interpretation removal: ordinary destroys_work
  by unfold_locales (auto simp: destroys_work_def split: list.splits)

definition went_well :: "string \<Rightarrow> string list \<Rightarrow> wt_event set \<Rightarrow> bool" where
  "went_well cwd args l \<longleftrightarrow> (\<exists>x. Ran args cwd (Inr x) \<in> l \<and> go_success x)"

text \<open>
  The branch is merged: git merged it, staged its changes and committed them or found none, finished a merge, or said
  that it is merged.
\<close>

definition merged :: "lifecycle \<Rightarrow> wt_event set \<Rightarrow> bool" where
  "merged L l \<longleftrightarrow>
     went_well (wl_root L) [''merge'', ''-m'', ''Merge '' @ wl_branch L, wl_branch L] l \<or>
     went_well (wl_root L) [''merge'', ''--squash'', wl_branch L] l \<and> went_well (wl_root L) [''diff'', ''--cached'', ''--quiet''] l \<or>
     went_well (wl_root L) [''commit'', ''-m'', squash_commit_message (wl_branch L)] l \<or>
     went_well (wl_root L) [''commit'', ''--no-edit''] l \<or>
     went_well (wl_root L) [''merge-base'', ''--is-ancestor'', wl_branch L, ''HEAD''] l"

definition may_go :: "lifecycle \<Rightarrow> wt_event set \<Rightarrow> bool" where
  "may_go L l \<longleftrightarrow> AskedAction DiscardAction \<in> l \<or> AskedCleanup True \<in> l \<and> merged L l"

lemma mono_facts: "mono (\<lambda>l. x \<in> l)" "mono (\<lambda>_ :: wt_event set. b)" "mono (went_well cwd args)" "mono (merged L)"
  "mono F \<Longrightarrow> mono G \<Longrightarrow> mono (\<lambda>l. F l \<and> G l)"
  by (auto simp: mono_def went_well_def merged_def le_fun_def)

lemma upholds_logged:
  assumes "mono F" and "\<And>l. bad args \<Longrightarrow> F l \<Longrightarrow> ok l"
  shows "upholds (runs bad) ok F (run_git_logged w args cwd) (\<lambda>x l. F l \<and> Ran args cwd (Inr x) \<in> l)"
  unfolding run_git_logged_def
proof (rule upholds_bind [OF upholds_invoke [OF assms(1)]])
  show "ok l" if "runs bad (Ran args cwd r)" "F l" for r l using that assms(2) by simp
  show "upholds (runs bad) ok (\<lambda>l. F l \<and> Ran args cwd r \<in> l)
      (case r of Inl e \<Rightarrow> wfail (GitFailed (''invoke `git '' @ join_str '' '' args @ ''`: '' @ e)) | Inr x \<Rightarrow> wret x)
      (\<lambda>x l. F l \<and> Ran args cwd (Inr x) \<in> l)" for r
    by (cases r) (auto intro: upholds_ret upholds_fail)
qed

lemma upholds_ok:
  assumes "mono F" and "\<And>l. bad args \<Longrightarrow> F l \<Longrightarrow> ok l"
  shows "upholds (runs bad) ok F (run_git_ok w what args cwd) (\<lambda>_ l. F l \<and> went_well cwd args l)"
  unfolding run_git_ok_def
  by (rule upholds_bind [OF upholds_logged [OF assms]])
    (auto intro: upholds_ret upholds_fail simp: went_well_def)

lemma upholds_says:
  assumes "mono F" and "\<And>l. bad args \<Longrightarrow> F l \<Longrightarrow> ok l"
  shows "upholds (runs bad) ok F (git_says w args cwd) (\<lambda>b l. F l \<and> (b \<longrightarrow> went_well cwd args l))"
  unfolding git_says_def
proof (rule upholds_bind [OF upholds_invoke [OF assms(1)]])
  show "ok l" if "runs bad (Ran args cwd r)" "F l" for r l using that assms(2) by simp
  show "upholds (runs bad) ok (\<lambda>l. F l \<and> Ran args cwd r \<in> l) (wret (case r of Inl _ \<Rightarrow> False | Inr x \<Rightarrow> go_success x))
      (\<lambda>b l. F l \<and> (b \<longrightarrow> went_well cwd args l))" for r
    by (rule upholds_ret) (auto simp: went_well_def split: sum.splits)
qed

lemma upholds_tell:
  assumes "mono F" and "\<not> D ev"
  shows "upholds D ok F (wtell ev) (\<lambda>_ l. F l \<and> ev \<in> l)"
proof (rule upholdsI)
  fix s r s'
  assume s: "guarded D ok (wt_log s)" "F (set (wt_log s))" "wtell ev s = (r, s')"
  then have l: "wt_log s' = ev # wt_log s" by (auto simp: wtell_def)
  have "F (set (wt_log s'))" using monoD [OF assms(1), of "set (wt_log s)" "set (wt_log s')"] s(2) l by auto
  then show "guarded D ok (wt_log s') \<and> set (wt_log s) \<subseteq> set (wt_log s') \<and>
      (\<forall>x. r = Inr x \<longrightarrow> F (set (wt_log s')) \<and> ev \<in> set (wt_log s'))"
    using l s(1) assms(2) by auto
qed

lemma upholds_consult:
  assumes "mono F" and "\<And>x. \<not> D (ev x)"
  shows "upholds D ok F (wconsult f ev) (\<lambda>x l. F l \<and> ev x \<in> l)"
  unfolding wconsult_def
proof (rule upholds_first [OF mild_basic(3) assms(1)])
  show "upholds D ok F (case r of Inl x \<Rightarrow> wfail (FrontendFailed x) | Inr x \<Rightarrow> wbind (wtell (ev x)) (\<lambda>_. wret x))
      (\<lambda>x l. F l \<and> ev x \<in> l)" for r
  proof (cases r)
    case (Inr x)
    show ?thesis
      unfolding Inr sum.case
      by (rule upholds_bind [OF upholds_tell [where ev = "ev x" and D = D, OF assms(1) assms(2) [of x]]], rule upholds_ret) simp
  qed (simp add: upholds_fail)
qed

subsection \<open>Finalizing\<close>

lemma merge_evidence:
  assumes "mono F" and "\<And>args l. hd args \<in> {''merge'', ''commit'', ''diff''} \<Longrightarrow> bad args \<Longrightarrow> F l \<Longrightarrow> ok l"
  shows "upholds (runs bad) ok F (merge_branch_logged w (wl_root L) (wl_branch L) squash) (\<lambda>_ l. F l \<and> merged L l)"
proof -
  have run: "upholds (runs bad) ok G (run_merge w args (wl_root L)) (\<lambda>_ l. G l \<and> went_well (wl_root L) args l)"
    if "mono G" "\<And>l. bad args \<Longrightarrow> G l \<Longrightarrow> ok l" for G args
    unfolding run_merge_def
    by (rule upholds_bind [OF upholds_logged [OF that]]) (auto intro: upholds_ret upholds_fail simp: went_well_def)
  let ?sq = "went_well (wl_root L) [''merge'', ''--squash'', wl_branch L]"
  have m: "mono (\<lambda>l. F l \<and> ?sq l)" by (intro mono_facts assms(1))
  have staged: "upholds (runs bad) ok (\<lambda>l. F l \<and> ?sq l) (has_staged_changes_logged w (wl_root L))
      (\<lambda>st l. (F l \<and> ?sq l) \<and> (\<not> st \<longrightarrow> went_well (wl_root L) [''diff'', ''--cached'', ''--quiet''] l))"
    unfolding has_staged_changes_logged_def
    by (rule upholds_bind [OF upholds_logged [OF m]]) (use assms(2) [of "[''diff'', ''--cached'', ''--quiet'']"] in \<open>auto intro: upholds_ret simp: went_well_def\<close>)
  have finish: "upholds (runs bad) ok
      (\<lambda>l. (F l \<and> ?sq l) \<and> (\<not> st \<longrightarrow> went_well (wl_root L) [''diff'', ''--cached'', ''--quiet''] l))
      (if \<not> st then wret () else run_merge w [''commit'', ''-m'', squash_commit_message (wl_branch L)] (wl_root L))
      (\<lambda>_ l. F l \<and> merged L l)" for st
  proof (rule upholds_if)
    show "upholds (runs bad) ok (\<lambda>l. (F l \<and> ?sq l) \<and> (\<not> st \<longrightarrow> went_well (wl_root L) [''diff'', ''--cached'', ''--quiet''] l))
        (wret ()) (\<lambda>_ l. F l \<and> merged L l)" if "\<not> st"
      by (rule upholds_ret) (use that in \<open>auto simp: merged_def\<close>)
    show "upholds (runs bad) ok (\<lambda>l. (F l \<and> ?sq l) \<and> (\<not> st \<longrightarrow> went_well (wl_root L) [''diff'', ''--cached'', ''--quiet''] l))
        (run_merge w [''commit'', ''-m'', squash_commit_message (wl_branch L)] (wl_root L)) (\<lambda>_ l. F l \<and> merged L l)"
      by (rule upholds_conseq [OF run [OF m]])
        (use assms(2) [of "[''commit'', ''-m'', squash_commit_message (wl_branch L)]"] in \<open>auto simp: merged_def\<close>)
  qed
  show ?thesis
    unfolding merge_branch_logged_def
  proof (rule upholds_if)
    show "upholds (runs bad) ok F (run_merge w [''merge'', ''-m'', ''Merge '' @ wl_branch L, wl_branch L] (wl_root L))
        (\<lambda>_ l. F l \<and> merged L l)"
      by (rule upholds_conseq [OF run [OF assms(1)]])
        (use assms(2) [of "[''merge'', ''-m'', ''Merge '' @ wl_branch L, wl_branch L]"] in \<open>auto simp: merged_def\<close>)
    show "upholds (runs bad) ok F (wbind (run_merge w [''merge'', ''--squash'', wl_branch L] (wl_root L))
        (\<lambda>_. wbind (has_staged_changes_logged w (wl_root L)) (\<lambda>staged. if \<not> staged then wret ()
          else run_merge w [''commit'', ''-m'', squash_commit_message (wl_branch L)] (wl_root L))))
        (\<lambda>_ l. F l \<and> merged L l)"
      by (rule upholds_bind [OF run [OF assms(1)]], use assms(2) [of "[''merge'', ''--squash'', wl_branch L]"] in simp, rule upholds_bind [OF staged], rule finish)
  qed
qed

text \<open>Both removals, where they are permitted.\<close>

lemma removes:
  assumes "mono F" and "\<And>l. F l \<Longrightarrow> ok l"
  shows "upholds (runs bad) ok F (remove_worktree_logged w root path) (\<lambda>_. F)"
    and "upholds (runs bad) ok F (delete_branch_logged w root b) (\<lambda>_. F)"
proof -
  have run: "upholds (runs bad) ok F (wbind (run_git_ok w what args root) (\<lambda>_. wret ())) (\<lambda>_. F)" for what args
    by (rule upholds_bind [OF upholds_ok [OF assms(1)]]) (auto intro: assms(2) upholds_ret)
  show "upholds (runs bad) ok F (delete_branch_logged w root b) (\<lambda>_. F)"
    unfolding delete_branch_logged_def by (rule run)
  have "mild (runs bad) (path_to_str path)"
    unfolding path_to_str_def by (intro mild_intros)
  then show "upholds (runs bad) ok F (remove_worktree_logged w root path) (\<lambda>_. F)"
    unfolding remove_worktree_logged_def by (rule upholds_first [OF _ assms(1)]) (rule run)
qed

lemma merge_mild:
  assumes "\<And>args. hd args \<in> {''merge'', ''commit'', ''diff''} \<Longrightarrow> \<not> bad args"
  shows "mild (runs bad) (merge_branch_logged w root b squash)"
proof -
  have run: "mild (runs bad) (run_git_logged w args root)" if "hd args \<in> {''merge'', ''commit'', ''diff''}" for args
    unfolding run_git_logged_def git_invoke_def using assms [OF that] by (auto intro!: mild_intros split: sum.splits)
  show ?thesis
    unfolding merge_branch_logged_def run_merge_def has_staged_changes_logged_def by (auto intro!: mild_intros run)
qed

lemma cleanup_permitted:
  "mono F \<Longrightarrow> (\<And>l. F l \<Longrightarrow> merged L l) \<Longrightarrow>
     upholds (runs destroys_work) (may_go L) F (cleanup_after_merge w L) (\<lambda>_ _. True)"
  unfolding cleanup_after_merge_def
proof (rule upholds_bind [OF upholds_consult])
  assume F: "mono F" "\<And>l. F l \<Longrightarrow> merged L l"
  let ?F = "\<lambda>remove l. F l \<and> AskedCleanup remove \<in> l"
  have m: "mono (?F remove)" for remove by (intro mono_facts F(1))
  have go: "?F True l \<Longrightarrow> may_go L l" for l using F(2) by (simp add: may_go_def)
  show "upholds (runs destroys_work) (may_go L) (?F remove)
      (if remove then wbind (remove_worktree_logged w (wl_root L) (wl_path L)) (\<lambda>_.
         wbind (delete_branch_logged w (wl_root L) (wl_branch L)) (\<lambda>_. wtell (ToldDiscarded (wl_branch L))))
       else wtell (ToldKept (wl_path L) (wl_branch L))) (\<lambda>_ _. True)" for remove
  proof (rule upholds_if)
    assume r: "remove"
    then have p: "?F remove l \<Longrightarrow> may_go L l" for l using go by simp
    show "upholds (runs destroys_work) (may_go L) (?F remove) (wbind (remove_worktree_logged w (wl_root L) (wl_path L)) (\<lambda>_.
        wbind (delete_branch_logged w (wl_root L) (wl_branch L)) (\<lambda>_. wtell (ToldDiscarded (wl_branch L))))) (\<lambda>_ _. True)"
      by (rule upholds_bind [OF removes(1) [OF m p]], assumption, rule upholds_bind [OF removes(2) [OF m p]], assumption,
          rule upholds_last [OF removal.news(4) m])
  next
    show "upholds (runs destroys_work) (may_go L) (?F remove) (wtell (ToldKept (wl_path L) (wl_branch L))) (\<lambda>_ _. True)"
      by (rule upholds_last [OF removal.news(5) m])
  qed
qed simp_all

lemma true_mono: "mono (\<lambda>_ :: wt_event set. True)"
  by (rule mono_facts)

lemma no_removal: "hd args \<in> {''merge'', ''commit'', ''diff''} \<Longrightarrow> \<not> destroys_work args"
  by (auto simp: destroys_work_def split: list.splits)

lemma after_failure_mild:
  "mild (runs destroys_work) (wbind (describe_failure w L squash d) (\<lambda>failure.
     wbind (wtell (ToldConflict (wl_branch L) (wl_path L) (wl_root L))) (\<lambda>_.
     wbind (case fp_failure policy of Some MergeFailureKeep \<Rightarrow> wret False | Some MergeFailureAgent \<Rightarrow> wret True
            | _ \<Rightarrow> wconsult (ww_ask_fix w) AskedFix) (\<lambda>launch.
       wret (if launch then MergeFixRequested failure else FinalizeDone)))))"
  by (auto intro!: mild_intros removal.target removal.news removal.questions split: option.splits on_merge_failure.splits)

lemma upholds_free: "mild D m \<Longrightarrow> upholds D ok F m (\<lambda>_ _. True)"
  by (rule upholds_conseq [OF upholds_mild [where F = "\<lambda>_. True"]]) (simp_all add: true_mono)

lemma merge_back_permitted:
  "upholds (runs destroys_work) (may_go L) (\<lambda>_. True) (merge_back w L policy squash) (\<lambda>_ _. True)"
proof -
  have m: "upholds (runs destroys_work) (may_go L) (\<lambda>_. True) (wtry (merge_branch_logged w (wl_root L) (wl_branch L) squash))
      (\<lambda>r l. True \<and> (\<forall>x. r = Inr x \<longrightarrow> True \<and> merged L l))"
    by (rule upholds_try [OF merge_evidence]) (auto simp: no_removal true_mono)
  have c: "upholds (runs destroys_work) (may_go L) (merged L) (wbind (cleanup_after_merge w L) (\<lambda>_. wret FinalizeDone)) (\<lambda>_ _. True)"
    by (rule upholds_bind [OF cleanup_permitted]) (auto intro: mono_facts upholds_ret)
  show ?thesis
    unfolding merge_back_def
  proof (rule upholds_first [OF removal.target(3) true_mono], rule upholds_bind [OF m])
    fix r
    show "upholds (runs destroys_work) (may_go L) (\<lambda>l. True \<and> (\<forall>x. r = Inr x \<longrightarrow> True \<and> merged L l))
      (case r of Inl e \<Rightarrow> (case e of MergeFailed d \<Rightarrow> wbind (describe_failure w L squash d) (\<lambda>failure.
          wbind (wtell (ToldConflict (wl_branch L) (wl_path L) (wl_root L))) (\<lambda>_.
          wbind (case fp_failure policy of
                    Some MergeFailureKeep \<Rightarrow> wret False
                  | Some MergeFailureAgent \<Rightarrow> wret True
                  | _ \<Rightarrow> wconsult (ww_ask_fix w) AskedFix) (\<lambda>launch.
             wret (if launch then MergeFixRequested failure else FinalizeDone))))
       | other \<Rightarrow> wfail other)
       | Inr _ \<Rightarrow> wbind (cleanup_after_merge w L) (\<lambda>_. wret FinalizeDone)) (\<lambda>_ _. True)"
    proof (cases r)
      case (Inr u)
      then show ?thesis by (auto intro: upholds_conseq [OF c])
    next
      case (Inl e)
      then show ?thesis by (cases e) (auto intro: upholds_free [OF after_failure_mild] upholds_fail)
    qed
  qed
qed

lemma kept_mild: "mild (runs destroys_work) (wbind (wtell (ToldKept p b)) (\<lambda>_. wret x))"
  by (intro mild_intros removal.news)

lemma discard_permitted:
  "upholds (runs destroys_work) (may_go L) (\<lambda>l. AskedAction DiscardAction \<in> l)
     (wbind (remove_worktree_logged w (wl_root L) (wl_path L)) (\<lambda>_.
      wbind (delete_branch_logged w (wl_root L) (wl_branch L)) (\<lambda>_.
      wbind (wtell (ToldDiscarded (wl_branch L))) (\<lambda>_. wret FinalizeDone)))) (\<lambda>_ _. True)"
proof -
  let ?F = "\<lambda>l. AskedAction DiscardAction \<in> l"
  have m: "mono ?F" by (rule mono_facts)
  have p: "?F l \<Longrightarrow> may_go L l" for l by (simp add: may_go_def)
  show ?thesis
    by (rule upholds_bind [OF removes(1) [OF m p]], assumption, rule upholds_bind [OF removes(2) [OF m p]], assumption,
        rule upholds_free) (intro mild_intros removal.news)
qed

lemma finalize_permitted:
  "upholds (runs destroys_work) (may_go L) (\<lambda>_. True) (finalize w L policy) (\<lambda>_ _. True)"
proof -
  have merging: "upholds (runs destroys_work) (may_go L) (\<lambda>_. True)
      (wbind (wconsult (ww_ask_mode w) AskedMode) (\<lambda>mode.
       wbind (uncommitted_files_logged w (wl_path L)) (\<lambda>files.
       wbind (if files = [] then wret ()
              else wbind (wconsult (ww_ask_commit w) AskedCommit) (\<lambda>msg. case msg of
                     Some m \<Rightarrow> commit_all_logged w (wl_path L) m
                   | None \<Rightarrow> wret ())) (\<lambda>_.
       case mode of
         LeaveBranch \<Rightarrow> wbind (wtell (ToldKept (wl_path L) (wl_branch L))) (\<lambda>_. wret FinalizeDone)
       | SquashMerge \<Rightarrow> merge_back w L policy True
       | PlainMerge \<Rightarrow> merge_back w L policy False)))) (\<lambda>_ _. True)"
  proof (rule upholds_first [OF removal.questions(4) true_mono], rule upholds_first [OF removal.reads(4) true_mono],
      rule upholds_first [OF _ true_mono])
    show "mild (runs destroys_work) (if files = [] then wret ()
        else wbind (wconsult (ww_ask_commit w) AskedCommit) (\<lambda>msg. case msg of
               Some m \<Rightarrow> commit_all_logged w (wl_path L) m | None \<Rightarrow> wret ()))" for files
      by (auto intro!: mild_intros removal.questions removal.writes split: option.splits)
    show "upholds (runs destroys_work) (may_go L) (\<lambda>_. True) (case mode of
         LeaveBranch \<Rightarrow> wbind (wtell (ToldKept (wl_path L) (wl_branch L))) (\<lambda>_. wret FinalizeDone)
       | SquashMerge \<Rightarrow> merge_back w L policy True
       | PlainMerge \<Rightarrow> merge_back w L policy False) (\<lambda>_ _. True)" for mode
      by (cases mode) (simp_all add: merge_back_permitted upholds_free [OF kept_mild])
  qed
  show ?thesis
    unfolding finalize_def
  proof (rule upholds_first [OF removal.reads(12) true_mono], rule upholds_bind [OF upholds_consult [OF true_mono]], simp)
    fix action
    show "upholds (runs destroys_work) (may_go L) (\<lambda>l. True \<and> AskedAction action \<in> l) (case action of
        MergeAction \<Rightarrow>
          wbind (wconsult (ww_ask_mode w) AskedMode) (\<lambda>mode.
          wbind (uncommitted_files_logged w (wl_path L)) (\<lambda>files.
          wbind (if files = [] then wret ()
                 else wbind (wconsult (ww_ask_commit w) AskedCommit) (\<lambda>msg. case msg of
                        Some m \<Rightarrow> commit_all_logged w (wl_path L) m
                      | None \<Rightarrow> wret ())) (\<lambda>_.
          case mode of
            LeaveBranch \<Rightarrow> wbind (wtell (ToldKept (wl_path L) (wl_branch L))) (\<lambda>_. wret FinalizeDone)
          | SquashMerge \<Rightarrow> merge_back w L policy True
          | PlainMerge \<Rightarrow> merge_back w L policy False)))
      | DiscardAction \<Rightarrow>
          wbind (remove_worktree_logged w (wl_root L) (wl_path L)) (\<lambda>_.
          wbind (delete_branch_logged w (wl_root L) (wl_branch L)) (\<lambda>_.
          wbind (wtell (ToldDiscarded (wl_branch L))) (\<lambda>_. wret FinalizeDone)))
      | KeepAction \<Rightarrow> wbind (wtell (ToldKept (wl_path L) (wl_branch L))) (\<lambda>_. wret FinalizeDone)) (\<lambda>_ _. True)"
      by (cases action)
        (simp_all add: upholds_conseq [OF merging] upholds_conseq [OF discard_permitted] upholds_free [OF kept_mild])
  qed
qed

subsection \<open>After the merge-fix agent\<close>

lemma unresolved: "upholds (runs bad) ok F (merge_still_unresolved L) G"
  by (rule upholdsI) (auto simp: merge_still_unresolved_def wbind_def wtell_def wfail_def)

lemma fix_commit_evidence:
  assumes "msg = None \<or> msg = Some (squash_commit_message (wl_branch L))"
  shows "upholds (runs destroys_work) ok (\<lambda>_. True) (wtry (commit_merge_logged w (wl_root L) msg))
     (\<lambda>r l. r = Inr () \<longrightarrow> merged L l)"
proof (rule upholds_conseq [OF upholds_try [OF _ true_mono]])
  show "upholds (runs destroys_work) ok (\<lambda>_. True) (commit_merge_logged w (wl_root L) msg) (\<lambda>_. merged L)"
    unfolding commit_merge_logged_def
    by (rule upholds_bind [OF upholds_ok [OF true_mono]])
      (use assms in \<open>auto intro!: upholds_ret simp: merged_def destroys_work_def\<close>)
qed auto

lemma fixed_evidence:
  "upholds (runs destroys_work) ok (\<lambda>_. True) (commit_fixed_squash w L f) (\<lambda>r l. r = Inr () \<longrightarrow> merged L l)"
  "upholds (runs destroys_work) ok (\<lambda>_. True) (commit_fixed_merge w L) (\<lambda>r l. r = Inr () \<longrightarrow> merged L l)"
proof -
  show "upholds (runs destroys_work) ok (\<lambda>_. True) (commit_fixed_squash w L f) (\<lambda>r l. r = Inr () \<longrightarrow> merged L l)"
    unfolding commit_fixed_squash_def
    by (rule upholds_first [OF removal.reads(6) true_mono], rule upholds_if, rule unresolved,
        rule upholds_first [OF removal.reads(7) true_mono], rule upholds_if, rule unresolved,
        rule upholds_first [OF removal.reads(5) true_mono], rule upholds_if, rule fix_commit_evidence, simp, rule unresolved)
  have "upholds (runs destroys_work) ok (\<lambda>_. True) (is_merged_into_head_logged w (wl_root L) (wl_branch L))
      (\<lambda>b l. True \<and> (b \<longrightarrow> went_well (wl_root L) [''merge-base'', ''--is-ancestor'', wl_branch L, ''HEAD''] l))"
    unfolding is_merged_into_head_logged_def by (rule upholds_says [OF true_mono]) (simp add: destroys_work_def)
  then show "upholds (runs destroys_work) ok (\<lambda>_. True) (commit_fixed_merge w L) (\<lambda>r l. r = Inr () \<longrightarrow> merged L l)"
    unfolding commit_fixed_merge_def
    by (intro upholds_first [OF removal.reads(9) true_mono] upholds_if fix_commit_evidence)
      (auto intro!: unresolved upholds_ret elim!: upholds_bind simp: merged_def)
qed

lemma upholds_frame:
  assumes "upholds D ok F m G" and "mono F"
  shows "upholds D ok F m (\<lambda>x l. G x l \<and> F l)"
proof (rule upholdsI)
  fix s r s'
  assume s: "guarded D ok (wt_log s)" "F (set (wt_log s))" "m s = (r, s')"
  have g: "guarded D ok (wt_log s')" "set (wt_log s) \<subseteq> set (wt_log s')" "\<And>x. r = Inr x \<Longrightarrow> G x (set (wt_log s'))"
    using assms(1) s unfolding upholds_def by blast+
  then show "guarded D ok (wt_log s') \<and> set (wt_log s) \<subseteq> set (wt_log s') \<and>
      (\<forall>x. r = Inr x \<longrightarrow> G x (set (wt_log s')) \<and> F (set (wt_log s')))"
    using monoD [OF assms(2) g(2)] s(2) by simp
qed

lemma cleanup_merged: "upholds (runs destroys_work) (may_go L) (merged L) (cleanup_after_merge w L) (\<lambda>_. merged L)"
  by (rule upholds_conseq [OF upholds_frame [OF cleanup_permitted]]) (auto intro: mono_facts)

lemma complete_permitted:
  "upholds (runs destroys_work) (may_go L) (\<lambda>_. True) (complete_merge_after_fix w L f agent_ran) (\<lambda>_ l. agent_ran \<longrightarrow> merged L l)"
proof -
  let ?D = "runs destroys_work" and ?ok = "may_go L"
  have again: "upholds ?D ?ok (\<lambda>_. True) (wbind (wtry (merge_branch_logged w (wl_root L) (wl_branch L) (mf_squash f))) (\<lambda>r. case r of
        Inr _ \<Rightarrow> cleanup_after_merge w L
      | Inl (MergeFailed _) \<Rightarrow> merge_still_unresolved L
      | Inl other \<Rightarrow> wfail other)) (\<lambda>_. merged L)"
  proof (rule upholds_bind [OF upholds_try [OF merge_evidence]])
    fix r
    show "upholds ?D ?ok (\<lambda>l. True \<and> (\<forall>x. r = Inr x \<longrightarrow> True \<and> merged L l))
      (case r of Inl e \<Rightarrow> (case e of MergeFailed _ \<Rightarrow> merge_still_unresolved L | other \<Rightarrow> wfail other)
       | Inr _ \<Rightarrow> cleanup_after_merge w L) (\<lambda>_. merged L)"
    proof (cases r)
      case (Inl e)
      then show ?thesis by (cases e) (auto intro: unresolved upholds_fail)
    qed (auto intro: upholds_conseq [OF cleanup_merged])
  qed (auto simp: no_removal true_mono)
  have finish: "upholds ?D ?ok (\<lambda>l. r = Inr () \<longrightarrow> merged L l)
      (case r of Inl _ \<Rightarrow> merge_still_unresolved L | Inr _ \<Rightarrow> cleanup_after_merge w L) (\<lambda>_. merged L)" for r
    by (cases r) (auto intro: unresolved upholds_conseq [OF cleanup_merged])
  have commit: "upholds ?D ?ok (\<lambda>_. True) (if mf_squash f then commit_fixed_squash w L f else commit_fixed_merge w L)
      (\<lambda>r l. r = Inr () \<longrightarrow> merged L l)"
    by (simp add: fixed_evidence)
  have staged: "upholds ?D ?ok (\<lambda>_. True) (case r of
        Inl _ \<Rightarrow> merge_still_unresolved L
      | Inr _ \<Rightarrow>
          wbind (unmerged_paths_logged w (wl_root L)) (\<lambda>remaining.
          if remaining \<noteq> [] then merge_still_unresolved L
          else
            wbind (if mf_squash f then commit_fixed_squash w L f else commit_fixed_merge w L) (\<lambda>commit.
            case commit of Inl _ \<Rightarrow> merge_still_unresolved L | Inr _ \<Rightarrow> cleanup_after_merge w L))) (\<lambda>_. merged L)" for r
  proof (cases r)
    case (Inr u)
    show ?thesis
      unfolding Inr sum.case
      by (rule upholds_first [OF removal.reads(8) true_mono], rule upholds_if, rule unresolved,
          rule upholds_bind [OF commit], rule finish)
  qed (simp add: unresolved)
  have started: "upholds ?D ?ok (\<lambda>_. True) (wbind (marked_files w L (mf_unmerged_paths f)) (\<lambda>still_marked.
      if still_marked \<noteq> [] then merge_still_unresolved L
      else
        wbind (wtry (stage_paths_logged w (wl_root L) (mf_unmerged_paths f))) (\<lambda>r. case r of
          Inl _ \<Rightarrow> merge_still_unresolved L
        | Inr _ \<Rightarrow>
            wbind (unmerged_paths_logged w (wl_root L)) (\<lambda>remaining.
            if remaining \<noteq> [] then merge_still_unresolved L
            else
              wbind (if mf_squash f then commit_fixed_squash w L f else commit_fixed_merge w L) (\<lambda>commit.
              case commit of Inl _ \<Rightarrow> merge_still_unresolved L | Inr _ \<Rightarrow> cleanup_after_merge w L))))) (\<lambda>_. merged L)"
    by (rule upholds_first [OF removal.marked true_mono], rule upholds_if, rule unresolved,
        rule upholds_first [OF mild_try [OF removal.writes(3)] true_mono], rule staged)
  show ?thesis
    unfolding complete_merge_after_fix_def
    by (intro upholds_if upholds_conseq [OF upholds_free [OF removal.news(5)]] upholds_conseq [OF again] upholds_conseq [OF started])
      simp_all
qed

lemma worktree_permitted:
  "upholds (runs destroys_work) (may_go L) (\<lambda>_. True) (finalize_worktree w L policy agent) (\<lambda>_ _. True)"
  unfolding finalize_worktree_def
  by (rule upholds_bind [OF finalize_permitted])
    (auto intro: upholds_ret upholds_conseq [OF complete_permitted] split: finalize_outcome.splits)

subsection \<open>The merge target\<close>

definition merging :: "string list \<Rightarrow> bool" where
  "merging args \<longleftrightarrow> (case args of a # _ \<Rightarrow> a = ''merge'' | [] \<Rightarrow> False)"

interpretation target: ordinary merging
  by unfold_locales (auto simp: merging_def split: list.splits)

definition seen_clean :: "string \<Rightarrow> wt_event set \<Rightarrow> bool" where
  "seen_clean root l \<longleftrightarrow>
     (\<exists>x. Ran [''status'', ''--porcelain''] root (Inr x) \<in> l \<and> go_success x \<and>
        (\<forall>line \<in> set (lines (from_utf8_lossy (go_stdout x))). trim line = []))"

text \<open>The target was clean, or what was in it is committed or stashed - which the policy \<open>fail\<close> never does.\<close>

definition safe_target :: "lifecycle \<Rightarrow> finalize_policy \<Rightarrow> wt_event set \<Rightarrow> bool" where
  "safe_target L policy l \<longleftrightarrow>
     seen_clean (wl_root L) l \<or>
     fp_dirty policy \<noteq> Some DirtyTargetFail \<and>
       ((\<exists>m. went_well (wl_root L) [''commit'', ''-m'', m] l) \<or>
        went_well (wl_root L) [''stash'', ''push'', ''--include-untracked'', ''-m'', ''awman: before merging '' @ wl_branch L] l)"

lemma mono_target: "mono (safe_target L policy)"
  by (auto simp: mono_def safe_target_def seen_clean_def went_well_def le_fun_def)

lemma no_merging: "hd args \<in> {''add'', ''commit'', ''stash'', ''status''} \<Longrightarrow> \<not> merging args"
  by (auto simp: merging_def split: list.splits)

lemma status_evidence:
  "upholds (runs merging) ok (\<lambda>_. True) (uncommitted_files_logged w root) (\<lambda>files l. files = [] \<longrightarrow> seen_clean root l)"
proof -
  have "upholds (runs merging) ok (\<lambda>_. True) (run_git_ok w what [''status'', ''--porcelain''] root)
      (\<lambda>x l. Ran [''status'', ''--porcelain''] root (Inr x) \<in> l \<and> go_success x)" for what
    unfolding run_git_ok_def
    by (rule upholds_bind [OF upholds_logged [OF true_mono]])
      (auto intro: upholds_ret upholds_fail simp: merging_def)
  then show ?thesis
    unfolding uncommitted_files_logged_def
    by (rule upholds_bind) (auto intro!: upholds_ret simp: seen_clean_def filter_empty_conv)
qed

lemma commit_evidence:
  "upholds (runs merging) ok (\<lambda>_. True) (commit_all_logged w root m) (\<lambda>_ l. went_well root [''commit'', ''-m'', m] l)"
  unfolding commit_all_logged_def
  by (rule upholds_first [OF target.ok_run true_mono], simp add: merging_def,
      rule upholds_bind [OF upholds_ok [OF true_mono]])
    (auto intro!: upholds_ret simp: merging_def)

lemma stash_evidence:
  "upholds (runs merging) ok (\<lambda>_. True) (wtry (stash_push_logged w root m))
     (\<lambda>r l. r = Inr () \<longrightarrow> went_well root [''stash'', ''push'', ''--include-untracked'', ''-m'', m] l)"
proof (rule upholds_conseq [OF upholds_try [OF _ true_mono]])
  show "upholds (runs merging) ok (\<lambda>_. True) (stash_push_logged w root m)
      (\<lambda>_ l. went_well root [''stash'', ''push'', ''--include-untracked'', ''-m'', m] l)"
    unfolding stash_push_logged_def
    by (rule upholds_bind [OF upholds_ok [OF true_mono]]) (auto intro!: upholds_ret simp: merging_def)
qed auto

lemma decision_policy:
  "upholds (runs merging) ok (\<lambda>_. True) (dirty_decision w d m) (\<lambda>r _. d = Some DirtyTargetFail \<longrightarrow> r = DirtyAbort)"
  unfolding dirty_decision_def
  by (cases d) (auto intro: upholds_ret upholds_conseq [OF upholds_free [OF target.questions(6)]] split: on_dirty_merge_target.splits)

lemma dirty_fails: "upholds (runs merging) ok F (merge_target_dirty L t) G"
  by (rule upholdsI) (auto simp: merge_target_dirty_def wbind_def wtell_def wfail_def)

lemma upholds_absurd: "(\<And>l. \<not> F l) \<Longrightarrow> upholds D ok F m G"
  by (rule upholdsI) blast

lemma target_prepared:
  "upholds (runs merging) ok (\<lambda>_. True) (prepare_merge_target w L policy) (\<lambda>_. safe_target L policy)"
proof -
  have act: "upholds (runs merging) ok (\<lambda>_. fp_dirty policy = Some DirtyTargetFail \<longrightarrow> decision = DirtyAbort) (case decision of
      DirtyCommit message \<Rightarrow> commit_all_logged w (wl_root L) message
    | DirtyStash \<Rightarrow>
        wbind (wtry (stash_push_logged w (wl_root L) (''awman: before merging '' @ wl_branch L))) (\<lambda>r. case r of
          Inr _ \<Rightarrow> wret ()
        | Inl _ \<Rightarrow> merge_target_dirty L t)
    | DirtyAbort \<Rightarrow> merge_target_dirty L t) (\<lambda>_. safe_target L policy)" for decision t
  proof (cases decision)
    case (DirtyCommit message)
    show ?thesis
    proof (cases "fp_dirty policy = Some DirtyTargetFail")
      case False
      have "upholds (runs merging) ok (\<lambda>_. True) (commit_all_logged w (wl_root L) message) (\<lambda>_. safe_target L policy)"
        by (rule upholds_conseq [OF commit_evidence]) (use False in \<open>auto simp: safe_target_def\<close>)
      then show ?thesis
        unfolding DirtyCommit dirty_target_decision.case by (rule upholds_conseq) simp_all
    qed (rule upholds_absurd, use DirtyCommit in simp)
  next
    case DirtyStash
    have s: "upholds (runs merging) ok (\<lambda>_. True)
        (wbind (wtry (stash_push_logged w (wl_root L) (''awman: before merging '' @ wl_branch L))) (\<lambda>r. case r of
          Inr _ \<Rightarrow> wret () | Inl _ \<Rightarrow> merge_target_dirty L t))
        (\<lambda>_ l. went_well (wl_root L) [''stash'', ''push'', ''--include-untracked'', ''-m'', ''awman: before merging '' @ wl_branch L] l)"
      by (rule upholds_bind [OF stash_evidence]) (auto intro: dirty_fails upholds_ret split: sum.splits)
    show ?thesis
    proof (cases "fp_dirty policy = Some DirtyTargetFail")
      case False
      have "upholds (runs merging) ok (\<lambda>_. True)
        (wbind (wtry (stash_push_logged w (wl_root L) (''awman: before merging '' @ wl_branch L))) (\<lambda>r. case r of
          Inr _ \<Rightarrow> wret () | Inl _ \<Rightarrow> merge_target_dirty L t)) (\<lambda>_. safe_target L policy)"
        by (rule upholds_conseq [OF s]) (use False in \<open>auto simp: safe_target_def\<close>)
      then show ?thesis
        unfolding DirtyStash dirty_target_decision.case by (rule upholds_conseq) simp_all
    qed (rule upholds_absurd, use DirtyStash in simp)
  qed (simp add: dirty_fails)
  show ?thesis
    unfolding prepare_merge_target_def
  proof (rule upholds_bind [OF status_evidence], rule upholds_if)
    show "upholds (runs merging) ok (\<lambda>l. files = [] \<longrightarrow> seen_clean (wl_root L) l) (wret ()) (\<lambda>_. safe_target L policy)"
      if "files = []" for files :: "string list"
      by (rule upholds_ret) (use that in \<open>auto simp: safe_target_def\<close>)
    show "upholds (runs merging) ok (\<lambda>l. files = [] \<longrightarrow> seen_clean (wl_root L) l)
        (wbind (target_branch_name w L) (\<lambda>target. wbind (dirty_decision w (fp_dirty policy)
           (''WIP: changes on '' @ target @ '' before merging '' @ wl_branch L)) (\<lambda>decision. case decision of
             DirtyCommit message \<Rightarrow> commit_all_logged w (wl_root L) message
           | DirtyStash \<Rightarrow>
               wbind (wtry (stash_push_logged w (wl_root L) (''awman: before merging '' @ wl_branch L))) (\<lambda>r. case r of
                 Inr _ \<Rightarrow> wret () | Inl _ \<Rightarrow> merge_target_dirty L target)
           | DirtyAbort \<Rightarrow> merge_target_dirty L target))) (\<lambda>_. safe_target L policy)" for files :: "string list"
      by (rule upholds_bind [OF upholds_free [OF target.reads(12)]], rule upholds_bind [OF decision_policy], rule act)
  qed
qed

text \<open>A method that only logs more keeps a guarded log guarded, where everything is permitted already.\<close>

interpretation anything: ordinary "\<lambda>_. False"
  by unfold_locales simp_all

lemma guarded_permitted:
  "guarded D ok l \<Longrightarrow> F (set l) \<Longrightarrow> mono F \<Longrightarrow> (\<And>l. F l \<Longrightarrow> ok l) \<Longrightarrow> guarded D ok (new @ l) \<and> F (set (new @ l))"
proof (induction new)
  case (Cons x new)
  have f: "guarded D ok (new @ l) \<and> F (set (new @ l))" by (rule Cons.IH [OF Cons.prems])
  have "F (set ((x # new) @ l))"
    using monoD [OF Cons.prems(3), of "set (new @ l)" "set ((x # new) @ l)"] f by auto
  then show ?case using f Cons.prems(4) by simp
qed simp

lemma upholds_permitted:
  assumes "mild (runs (\<lambda>_. False)) m" and "mono F" and "\<And>l. F l \<Longrightarrow> ok l"
  shows "upholds D ok F m (\<lambda>_. F)"
proof (rule upholdsI)
  fix s r s'
  assume s: "guarded D ok (wt_log s)" "F (set (wt_log s))" "m s = (r, s')"
  obtain new where n: "wt_log s' = new @ wt_log s" using mildD [OF assms(1) s(3)] by blast
  show "guarded D ok (wt_log s') \<and> set (wt_log s) \<subseteq> set (wt_log s') \<and> (\<forall>x. r = Inr x \<longrightarrow> F (set (wt_log s')))"
    using guarded_permitted [OF s(1,2) assms(2,3), of new] n by auto
qed

lemma run_ok_mild: "\<not> bad args \<Longrightarrow> mild (runs bad) (run_git_ok w what args cwd)"
  unfolding run_git_ok_def run_git_logged_def git_invoke_def by (auto intro!: mild_intros split: sum.splits)

lemma grows_removals: "\<not> bad [''worktree'', ''remove'', ''--force'', path] \<Longrightarrow> mild (runs bad) (remove_worktree_logged w root path)"
  "\<not> bad [''branch'', ''-D'', b] \<Longrightarrow> mild (runs bad) (delete_branch_logged w root b)"
proof -
  assume b: "\<not> bad [''worktree'', ''remove'', ''--force'', path]"
  have "remove_worktree_logged w root path =
      (if utf8_valid path
       then wbind (run_git_ok w ''git worktree remove'' [''worktree'', ''remove'', ''--force'', path] root) (\<lambda>_. wret ())
       else wfail (GitFailed ''worktree path not UTF-8''))"
    by (simp add: fun_eq_iff remove_worktree_logged_def path_to_str_def wbind_def wret_def wfail_def)
  then show "mild (runs bad) (remove_worktree_logged w root path)"
    using b by (auto intro!: mild_intros run_ok_mild)
next
  show "\<not> bad [''branch'', ''-D'', b] \<Longrightarrow> mild (runs bad) (delete_branch_logged w root b)"
    unfolding delete_branch_logged_def by (auto intro!: mild_intros run_ok_mild)
qed

lemma cleanup_mild:
  assumes "\<And>args. hd args \<in> {''worktree'', ''branch''} \<Longrightarrow> \<not> bad args"
  shows "mild (runs bad) (cleanup_after_merge w L)"
  unfolding cleanup_after_merge_def
  by (auto intro!: mild_intros mild_consult grows_removals assms)

lemma complete_grows: "mild (runs (\<lambda>_. False)) (complete_merge_after_fix w L f agent_ran)"
  unfolding complete_merge_after_fix_def
  by (auto intro!: mild_intros merge_mild cleanup_mild anything.news anything.target anything.marked anything.writes
      anything.reads anything.fixed split: sum.splits command_error.splits)

lemma merge_back_target:
  "upholds (runs merging) (safe_target L policy) (\<lambda>_. True) (merge_back w L policy squash) (\<lambda>_. safe_target L policy)"
  unfolding merge_back_def
proof (rule upholds_bind [OF target_prepared], rule upholds_permitted)
  show "mild (runs (\<lambda>_. False)) (wbind (wtry (merge_branch_logged w (wl_root L) (wl_branch L) squash)) (\<lambda>r. case r of
       Inr _ \<Rightarrow> wbind (cleanup_after_merge w L) (\<lambda>_. wret FinalizeDone)
     | Inl (MergeFailed d) \<Rightarrow>
         wbind (describe_failure w L squash d) (\<lambda>failure.
         wbind (wtell (ToldConflict (wl_branch L) (wl_path L) (wl_root L))) (\<lambda>_.
         wbind (case fp_failure policy of
                  Some MergeFailureKeep \<Rightarrow> wret False
                | Some MergeFailureAgent \<Rightarrow> wret True
                | _ \<Rightarrow> wconsult (ww_ask_fix w) AskedFix) (\<lambda>launch.
           wret (if launch then MergeFixRequested failure else FinalizeDone))))
     | Inl other \<Rightarrow> wfail other))"
    by (auto intro!: mild_intros merge_mild cleanup_mild anything.news anything.target anything.questions
        split: sum.splits command_error.splits option.splits on_merge_failure.splits)
qed (simp_all add: mono_target)

lemma finalize_target:
  "upholds (runs merging) (safe_target L policy) (\<lambda>_. True) (finalize w L policy)
     (\<lambda>r l. r \<noteq> FinalizeDone \<longrightarrow> safe_target L policy l)"
proof -
  let ?D = "runs merging" and ?ok = "safe_target L policy" and ?G = "\<lambda>r l. r \<noteq> FinalizeDone \<longrightarrow> safe_target L policy l"
  have stop: "upholds ?D ?ok F (wbind (wtell (ToldKept p b)) (\<lambda>_. wret FinalizeDone)) ?G" for F p b
    by (rule upholds_bind [OF upholds_free [OF target.news(5)]]) (simp add: upholds_ret)
  have discarded: "upholds ?D ?ok F (wbind (remove_worktree_logged w (wl_root L) (wl_path L)) (\<lambda>_.
      wbind (delete_branch_logged w (wl_root L) (wl_branch L)) (\<lambda>_.
      wbind (wtell (ToldDiscarded (wl_branch L))) (\<lambda>_. wret FinalizeDone)))) ?G" for F
  proof (rule upholds_bind [OF upholds_free [OF grows_removals(1)]],
      simp add: merging_def, rule upholds_bind [OF upholds_free [OF grows_removals(2)]])
    show "\<not> merging [''branch'', ''-D'', wl_branch L]" by (simp add: merging_def)
    show "upholds ?D ?ok (\<lambda>_. True) (wbind (wtell (ToldDiscarded (wl_branch L))) (\<lambda>_. wret FinalizeDone)) ?G"
      by (rule upholds_bind [OF upholds_free [OF target.news(4)]]) (simp add: upholds_ret)
  qed
  have mode: "upholds ?D ?ok (\<lambda>_. True) (case mode of
         LeaveBranch \<Rightarrow> wbind (wtell (ToldKept (wl_path L) (wl_branch L))) (\<lambda>_. wret FinalizeDone)
       | SquashMerge \<Rightarrow> merge_back w L policy True
       | PlainMerge \<Rightarrow> merge_back w L policy False) ?G" for mode
    by (cases mode) (simp_all add: stop upholds_conseq [OF merge_back_target])
  have merge: "upholds ?D ?ok F
      (wbind (wconsult (ww_ask_mode w) AskedMode) (\<lambda>mode.
       wbind (uncommitted_files_logged w (wl_path L)) (\<lambda>files.
       wbind (if files = [] then wret ()
              else wbind (wconsult (ww_ask_commit w) AskedCommit) (\<lambda>msg. case msg of
                     Some m \<Rightarrow> commit_all_logged w (wl_path L) m
                   | None \<Rightarrow> wret ())) (\<lambda>_.
       case mode of
         LeaveBranch \<Rightarrow> wbind (wtell (ToldKept (wl_path L) (wl_branch L))) (\<lambda>_. wret FinalizeDone)
       | SquashMerge \<Rightarrow> merge_back w L policy True
       | PlainMerge \<Rightarrow> merge_back w L policy False)))) ?G" for F
  proof (rule upholds_bind [OF upholds_free [OF target.questions(4)]], rule upholds_bind [OF upholds_free [OF target.reads(4)]],
      rule upholds_bind [OF upholds_free mode])
    show "mild ?D (if files = [] then wret ()
        else wbind (wconsult (ww_ask_commit w) AskedCommit) (\<lambda>msg. case msg of
               Some m \<Rightarrow> commit_all_logged w (wl_path L) m | None \<Rightarrow> wret ()))" for files
      by (auto intro!: mild_intros target.questions target.writes split: option.splits)
  qed
  show ?thesis
    unfolding finalize_def
    by (rule upholds_bind [OF upholds_free [OF target.reads(12)]], rule upholds_bind [OF upholds_free [OF target.questions(3)]])
      (simp add: stop discarded merge split: post_workflow_action.splits)
qed

lemma worktree_target:
  "upholds (runs merging) (safe_target L policy) (\<lambda>_. True) (finalize_worktree w L policy agent) (\<lambda>_ _. True)"
  unfolding finalize_worktree_def
proof (rule upholds_bind [OF finalize_target])
  show "upholds (runs merging) (safe_target L policy) (\<lambda>l. r \<noteq> FinalizeDone \<longrightarrow> safe_target L policy l)
      (case r of FinalizeDone \<Rightarrow> wret () | MergeFixRequested f \<Rightarrow> complete_merge_after_fix w L f (agent f)) (\<lambda>_ _. True)" for r
  proof (cases r)
    case (MergeFixRequested f)
    have "upholds (runs merging) (safe_target L policy) (safe_target L policy) (complete_merge_after_fix w L f (agent f)) (\<lambda>_. safe_target L policy)"
      by (rule upholds_permitted [OF complete_grows mono_target])
    then show ?thesis
      unfolding MergeFixRequested finalize_outcome.case by (rule upholds_conseq) simp_all
  qed (simp add: upholds_ret)
qed

subsection \<open>Recreating a worktree\<close>

text \<open>
  An existing worktree only goes when the user said so and git still knows the repository; its files only go when its
  branch is gone, so that the branch never points nowhere while its worktree is lost.
\<close>

definition may_recreate :: "lifecycle \<Rightarrow> wt_event set \<Rightarrow> bool" where
  "may_recreate L l \<longleftrightarrow>
     AskedExisting Recreate \<in> l \<and> went_well (wl_root L) [''rev-parse'', ''--path-format=absolute'', ''--git-common-dir''] l"

definition branch_gone :: "lifecycle \<Rightarrow> wt_event set \<Rightarrow> bool" where
  "branch_gone L l \<longleftrightarrow>
     went_well (wl_root L) [''branch'', ''-D'', wl_branch L] l \<or>
     (\<exists>r. Ran [''rev-parse'', ''--verify'', ''refs/heads/'' @ wl_branch L] (wl_root L) r \<in> l \<and>
        (case r of Inr x \<Rightarrow> \<not> go_success x | Inl _ \<Rightarrow> True))"

definition removes_files :: "string list \<Rightarrow> bool" where
  "removes_files args \<longleftrightarrow> (case args of a # b # _ \<Rightarrow> (a, b) = (''worktree'', ''remove'') | _ \<Rightarrow> False)"

interpretation files: ordinary removes_files
  by unfold_locales (auto simp: removes_files_def split: list.splits)

definition recreation_ok :: "lifecycle \<Rightarrow> wt_event set \<Rightarrow> bool" where
  "recreation_ok L l \<longleftrightarrow> may_recreate L l \<and> branch_gone L l"

lemma mono_recreate: "mono (may_recreate L)" "mono (branch_gone L)" "mono (recreation_ok L)"
  by (auto simp: mono_def may_recreate_def branch_gone_def recreation_ok_def went_well_def le_fun_def)

lemma upholds_asks:
  assumes "mono F" and "\<And>l. bad args \<Longrightarrow> F l \<Longrightarrow> ok l"
  shows "upholds (runs bad) ok F (git_says w args cwd)
     (\<lambda>b l. F l \<and> (\<not> b \<longrightarrow> (\<exists>r. Ran args cwd r \<in> l \<and> (case r of Inr x \<Rightarrow> \<not> go_success x | Inl _ \<Rightarrow> True))))"
  unfolding git_says_def
proof (rule upholds_bind [OF upholds_invoke [OF assms(1)]])
  show "ok l" if "runs bad (Ran args cwd r)" "F l" for r l using that assms(2) by simp
  show "upholds (runs bad) ok (\<lambda>l. F l \<and> Ran args cwd r \<in> l) (wret (case r of Inr x \<Rightarrow> go_success x | Inl _ \<Rightarrow> False))
      (\<lambda>b l. F l \<and> (\<not> b \<longrightarrow> (\<exists>r. Ran args cwd r \<in> l \<and> (case r of Inr x \<Rightarrow> \<not> go_success x | Inl _ \<Rightarrow> True))))" for r
    by (rule upholds_ret) (auto split: sum.splits)
qed

context ordinary
begin

lemma owner_evidence:
  assumes "mono F"
  shows "upholds (runs bad) ok F (validate_worktree_owner w root path)
     (\<lambda>_ l. F l \<and> went_well root [''rev-parse'', ''--path-format=absolute'', ''--git-common-dir''] l)"
proof -
  let ?a = "[''rev-parse'', ''--path-format=absolute'', ''--git-common-dir'']"
  let ?G = "\<lambda>_ l. F l \<and> went_well root ?a l"
  have quiet: "\<not> bad ?a" by (rule reading) simp
  have m: "mono (\<lambda>l. F l \<and> went_well root ?a l)" by (intro mono_facts assms)
  have disk: "upholds (runs bad) ok (\<lambda>l. F l \<and> Ran ?a root r \<in> l) (case r of
        Inl _ \<Rightarrow> wfail e
      | Inr x \<Rightarrow>
          if \<not> go_success x then wfail e
          else wbind (wobserve (\<lambda>t. owner_on_disk w t root path (go_stdout x))) (\<lambda>owner. case owner of
                 None \<Rightarrow> wfail e | Some common \<Rightarrow> wret common)) ?G" for r e
  proof (cases r)
    case (Inr x)
    show ?thesis
      unfolding Inr sum.case
    proof (rule upholds_if, rule upholds_fail)
      assume "\<not> \<not> go_success x"
      have "upholds (runs bad) ok (\<lambda>l. F l \<and> went_well root ?a l)
          (wbind (wobserve (\<lambda>t. owner_on_disk w t root path (go_stdout x))) (\<lambda>owner. case owner of
                 None \<Rightarrow> wfail e | Some common \<Rightarrow> wret common)) ?G"
        by (rule upholds_first [OF mild_basic(3) m]) (auto intro: upholds_fail upholds_ret split: option.splits)
      then show "upholds (runs bad) ok (\<lambda>l. F l \<and> Ran ?a root (Inr x) \<in> l)
          (wbind (wobserve (\<lambda>t. owner_on_disk w t root path (go_stdout x))) (\<lambda>owner. case owner of
                 None \<Rightarrow> wfail e | Some common \<Rightarrow> wret common)) ?G"
        by (rule upholds_conseq) (use \<open>\<not> \<not> go_success x\<close> in \<open>auto simp: went_well_def\<close>)
    qed
  qed (simp add: upholds_fail)
  show ?thesis
    unfolding validate_worktree_owner_def Let_def
    by (rule upholds_bind [OF upholds_invoke [OF assms]]) (use quiet in \<open>auto intro: disk\<close>)
qed

lemma deletion_evidence:
  assumes F: "mono F" and ok: "\<And>l. bad [''branch'', ''-D'', wl_branch L] \<Longrightarrow> F l \<Longrightarrow> ok l"
  shows "upholds (runs bad) ok F (delete_recreated_branch_logged w (wl_root L) path (wl_branch L)) (\<lambda>_ l. F l \<and> branch_gone L l)"
proof -
  let ?G = "\<lambda>_ l. F l \<and> branch_gone L l"
  have ref: "\<not> bad [''update-ref'', ''--no-deref'', ''HEAD'', ''HEAD'']" "\<not> bad [''symbolic-ref'', ''HEAD'', h]"
    "\<not> bad [''rev-parse'', ''--verify'', h]" for h
    by (rule reading, simp)+
  have delete: "upholds (runs bad) ok F (delete_branch_logged w (wl_root L) (wl_branch L)) ?G"
    unfolding delete_branch_logged_def
    by (rule upholds_bind [OF upholds_ok [OF F ok]]) (auto intro: upholds_ret simp: branch_gone_def)
  have restore: "upholds (runs bad) ok H (wbind (run_git_logged w [''symbolic-ref'', ''HEAD'', ''refs/heads/'' @ wl_branch L] path)
      (\<lambda>y. if go_success y then wfail a else wfail b)) ?G" for H a b
    by (rule upholds_bind [OF upholds_free [OF logged [OF ref(2)]]]) (simp add: upholds_fail)
  have tried: "upholds (runs bad) ok F
      (wbind (wtry (delete_branch_logged w (wl_root L) (wl_branch L))) (\<lambda>r. case r of
             Inr _ \<Rightarrow> wret ()
           | Inl error \<Rightarrow>
               wbind (run_git_logged w [''symbolic-ref'', ''HEAD'', ''refs/heads/'' @ wl_branch L] path) (\<lambda>y.
               if go_success y then wfail error
               else wfail (GitFailed (engine_error_text error @
                      ''; could not restore original branch; worktree files preserved at '' @ path))))) ?G"
  proof (rule upholds_bind [OF upholds_try [OF delete F]])
    show "upholds (runs bad) ok (\<lambda>l. F l \<and> (\<forall>x. r = Inr x \<longrightarrow> F l \<and> branch_gone L l)) (case r of
             Inr _ \<Rightarrow> wret ()
           | Inl error \<Rightarrow>
               wbind (run_git_logged w [''symbolic-ref'', ''HEAD'', ''refs/heads/'' @ wl_branch L] path) (\<lambda>y.
               if go_success y then wfail error
               else wfail (GitFailed (engine_error_text error @
                      ''; could not restore original branch; worktree files preserved at '' @ path)))) ?G" for r
    proof (cases r)
      case (Inl error)
      show ?thesis unfolding Inl sum.case by (rule restore)
    qed (simp add: upholds_ret)
  qed
  show ?thesis
    unfolding delete_recreated_branch_logged_def branch_exists_def
  proof (rule upholds_first [OF reads(3) F], rule upholds_if, rule upholds_fail, rule upholds_first [OF logged [OF ref(1)] F],
      rule upholds_if, rule upholds_fail, rule upholds_bind [OF upholds_asks [OF F]], use ref in simp, rule upholds_if)
    show "upholds (runs bad) ok (\<lambda>l. F l \<and> (\<not> known \<longrightarrow> (\<exists>r. Ran [''rev-parse'', ''--verify'', ''refs/heads/'' @ wl_branch L] (wl_root L) r \<in> l \<and>
          (case r of Inr x \<Rightarrow> \<not> go_success x | Inl _ \<Rightarrow> True)))) (wret ()) ?G" if "\<not> known" for known
      by (rule upholds_ret) (use that in \<open>auto simp: branch_gone_def\<close>)
  qed (rule upholds_conseq [OF tried], auto)
qed

lemma recreated:
  assumes "\<And>l. bad [''branch'', ''-D'', wl_branch L] \<Longrightarrow> may_recreate L l \<Longrightarrow> ok l"
    and "\<And>l. recreation_ok L l \<Longrightarrow> ok l"
  shows "upholds (runs bad) ok (\<lambda>_. True) (prepare_with_existing w L choice) (\<lambda>_ _. True)"
proof -
  have new: "upholds (runs bad) ok F (prepare_new w L') (\<lambda>_ _. True)" for F L'
    by (rule upholds_free [OF prepare])
  have resume: "mild (runs bad) (wbind (validate_worktree_owner w (wl_root L) (wl_path L)) (\<lambda>_.
      wbind (wtell (ToldResumed (wl_path L) (wl_branch L))) (\<lambda>_. wret (wl_path L))))"
    by (intro mild_intros reads news)
  have remove: "upholds (runs bad) ok (\<lambda>l. may_recreate L l \<and> branch_gone L l)
      (wbind (remove_worktree_logged w (wl_root L) (wl_path L)) (\<lambda>_. prepare_new w (L\<lparr>wl_path := wl_creation L\<rparr>))) (\<lambda>_ _. True)"
    by (rule upholds_bind [OF removes(1) [OF mono_facts(5) [OF mono_recreate(1,2)]]])
      (auto intro: assms(2) new simp: recreation_ok_def)
  have recreate: "upholds (runs bad) ok (\<lambda>l. AskedExisting Recreate \<in> l)
      (wbind (validate_worktree_owner w (wl_root L) (wl_path L)) (\<lambda>_.
       wbind (delete_recreated_branch_logged w (wl_root L) (wl_path L) (wl_branch L)) (\<lambda>_.
       wbind (remove_worktree_logged w (wl_root L) (wl_path L)) (\<lambda>_. prepare_new w (L\<lparr>wl_path := wl_creation L\<rparr>)))))
      (\<lambda>_ _. True)"
  proof (rule upholds_bind [OF owner_evidence [OF mono_facts(1)]])
    have "upholds (runs bad) ok (may_recreate L)
      (wbind (delete_recreated_branch_logged w (wl_root L) (wl_path L) (wl_branch L)) (\<lambda>_.
       wbind (remove_worktree_logged w (wl_root L) (wl_path L)) (\<lambda>_. prepare_new w (L\<lparr>wl_path := wl_creation L\<rparr>)))) (\<lambda>_ _. True)"
      by (rule upholds_bind [OF deletion_evidence [OF mono_recreate(1) assms(1)]], assumption, assumption, rule remove)
    then show "upholds (runs bad) ok
      (\<lambda>l. AskedExisting Recreate \<in> l \<and> went_well (wl_root L) [''rev-parse'', ''--path-format=absolute'', ''--git-common-dir''] l)
      (wbind (delete_recreated_branch_logged w (wl_root L) (wl_path L) (wl_branch L)) (\<lambda>_.
       wbind (remove_worktree_logged w (wl_root L) (wl_path L)) (\<lambda>_. prepare_new w (L\<lparr>wl_path := wl_creation L\<rparr>)))) (\<lambda>_ _. True)"
      unfolding may_recreate_def [abs_def] by simp
  qed
  have asked: "upholds (runs bad) ok (\<lambda>_. True) (case choice of
        ExplicitExisting d \<Rightarrow> wbind (wtell (AskedExisting d)) (\<lambda>_. wret d)
      | AskExisting \<Rightarrow> wconsult (ww_ask_existing w) AskedExisting
      | ResumeAccepted \<Rightarrow> wconsult (ww_after_resume w) AskedExisting) (\<lambda>d l. AskedExisting d \<in> l)"
  proof (cases choice)
    case (ExplicitExisting d)
    show ?thesis
      unfolding ExplicitExisting existing_worktree_choice.case
      by (rule upholds_bind [OF upholds_tell [OF true_mono]]) (auto intro: upholds_ret)
  qed (auto intro!: upholds_conseq [OF upholds_consult [OF true_mono]])
  have decide: "upholds (runs bad) ok (\<lambda>l. AskedExisting d \<in> l) (case d of
        ResumeExisting \<Rightarrow>
             wbind (validate_worktree_owner w (wl_root L) (wl_path L)) (\<lambda>_.
             wbind (wtell (ToldResumed (wl_path L) (wl_branch L))) (\<lambda>_. wret (wl_path L)))
       | Recreate \<Rightarrow>
             wbind (validate_worktree_owner w (wl_root L) (wl_path L)) (\<lambda>_.
             wbind (delete_recreated_branch_logged w (wl_root L) (wl_path L) (wl_branch L)) (\<lambda>_.
             wbind (remove_worktree_logged w (wl_root L) (wl_path L)) (\<lambda>_.
               prepare_new w (L\<lparr>wl_path := wl_creation L\<rparr>))))
       | FailExisting \<Rightarrow> wfail (WorktreeExists (wl_path L) (wl_branch L))) (\<lambda>_ _. True)" for d
    by (cases d) (auto intro: recreate upholds_free [OF resume] upholds_fail)
  show ?thesis
    unfolding prepare_with_existing_def
    by (rule upholds_first [OF reads(2) true_mono], rule upholds_first [OF mild_basic(3) true_mono], rule upholds_if, rule new,
        rule upholds_bind [OF asked], rule decide)
qed

end

text \<open>Both removals of a recreation, each after what permits it.\<close>

lemma recreation_permitted:
  "upholds (runs destroys_work) (may_recreate L) (\<lambda>_. True) (prepare_with_existing w L choice) (\<lambda>_ _. True)"
  "upholds (runs removes_files) (recreation_ok L) (\<lambda>_. True) (prepare_with_existing w L choice) (\<lambda>_ _. True)"
  by (rule removal.recreated; simp add: recreation_ok_def)
    (rule files.recreated; simp add: removes_files_def)

lemma upholds_guarded: "upholds D ok (\<lambda>_. True) m G \<Longrightarrow> guarded D ok (wt_log (snd (m \<lparr>wt_tick = t, wt_log = []\<rparr>)))"
proof -
  assume u: "upholds D ok (\<lambda>_. True) m G"
  obtain r s' where m: "m \<lparr>wt_tick = t, wt_log = []\<rparr> = (r, s')" by fastforce
  have "guarded D ok (wt_log s')"
    using u [unfolded upholds_def, rule_format, of "\<lparr>wt_tick = t, wt_log = []\<rparr>" r s'] m by simp
  then show "guarded D ok (wt_log (snd (m \<lparr>wt_tick = t, wt_log = []\<rparr>)))" using m by simp
qed

end
