(* ===== verification/Worktree_Properties.thy ===== *)
theory Worktree_Properties
  imports Worktree_Safety
begin

text \<open>What a run in a worktree may lose and what it merges: the properties, and a repository to see them in.\<close>

subsection \<open>A repository where git and the user agree to everything\<close>

definition said :: "string \<Rightarrow> (string, git_output) result" where
  "said text = Inr \<lparr>go_code = Some 0, go_stdout = text, go_stderr = []\<rparr>"

definition agreeable :: worktree_world where
  "agreeable =
     \<lparr>ww_git = (\<lambda>_ args _. said (if args = [''rev-parse'', ''--abbrev-ref'', ''HEAD''] then ''b''
         else if args = [''rev-parse'', ''--path-format=absolute'', ''--git-common-dir''] then ''/g'' else [])),
      ww_exists = (\<lambda>_ _. True), ww_create_dirs = (\<lambda>_ _. Inr ()), ww_canonical = (\<lambda>_ p. Some p),
      ww_is_dir = (\<lambda>_ _. True), ww_is_file = (\<lambda>_ _. True), ww_dir_behind = (\<lambda>_ _. False),
      ww_read = (\<lambda>_ p. if p = ''p/.git'' then ReadBytes ''gitdir: /g/worktrees/x''
         else if p = ''/g/worktrees/x/gitdir'' then ReadBytes ''p/.git''
         else if p = ''/g/worktrees/x/commondir'' then ReadBytes ''/g'' else NoSuchFile),
      ww_ask_pre = (\<lambda>_. Inr UseLastCommit), ww_ask_existing = (\<lambda>_. Inr Recreate),
      ww_after_resume = (\<lambda>_. Inr ResumeExisting), ww_ask_action = (\<lambda>_. Inr MergeAction),
      ww_ask_mode = (\<lambda>_. Inr PlainMerge), ww_ask_commit = (\<lambda>_. Inr None), ww_ask_dirty = (\<lambda>_. Inr DirtyAbort),
      ww_ask_fix = (\<lambda>_. Inr True), ww_confirm = (\<lambda>_. Inr True)\<rparr>"

definition here :: lifecycle where
  "here = \<lparr>wl_root = ''r'', wl_path = ''p'', wl_creation = ''p'', wl_branch = ''b''\<rparr>"

definition asking :: finalize_policy where
  "asking = \<lparr>fp_dirty = None, fp_failure = None\<rparr>"

definition fresh :: wt where
  "fresh = \<lparr>wt_tick = 0, wt_log = []\<rparr>"

lemmas wt_evaluates = finalize_worktree_def finalize_def target_branch_name_def current_branch_def git_invoke_def wbind_def
  wobserve_def wtell_def wret_def wconsult_def uncommitted_files_logged_def run_git_ok_def run_git_logged_def merge_back_def
  prepare_merge_target_def merge_branch_logged_def run_merge_def wtry_def cleanup_after_merge_def remove_worktree_logged_def
  path_to_str_def delete_branch_logged_def agreeable_def here_def asking_def fresh_def said_def go_success_def wfail_def

lemma valid_here: "utf8_valid ''p''" "trim (from_utf8_lossy ''b'') = ''b''" "lines (from_utf8_lossy []) = []"
  by code_simp+

lemma agreeable_owner: "owner_on_disk agreeable t ''r'' ''p'' ''/g'' = Some ''/g''"
proof -
  have "owner_on_disk agreeable 0 ''r'' ''p'' ''/g'' = Some ''/g''" by code_simp
  then show ?thesis by (simp add: owner_on_disk_def agreeable_def read_text_def read_bytes_def)
qed

lemma fst_is: "fst p = x \<Longrightarrow> p = (x, snd p)"
  by (cases p) simp

definition trouble :: merge_failure where
  "trouble = \<lparr>mf_branch = ''b'', mf_target_branch = ''m'', mf_worktree_path = ''p'', mf_git_root = ''r'', mf_squash = False,
     mf_command = ''git merge'', mf_exit_code = 1, mf_output = [], mf_unmerged_paths = [''f''], mf_staged_paths = [],
     mf_head_before_fix = ''h'', mf_merge_in_progress = True\<rparr>"

subsection \<open>Properties\<close>

text \<open>
  Property C10. However a run in a worktree ends, and whatever git, the user and the merge-fix agent do, the worktree is
  removed and its branch deleted only after the user chose to discard them, or after the user agreed to the cleanup and
  git reported that the branch is merged.
\<close>

theorem worktree_kept_until_merged:
  "guarded (runs destroys_work) (may_go L) (wt_log (snd (finalize_worktree w L policy agent \<lparr>wt_tick = t, wt_log = []\<rparr>)))"
  by (rule upholds_guarded [OF worktree_permitted])

theorem worktree_kept_until_merged_witness:
  "let l = wt_log (snd (finalize_worktree agreeable here asking (\<lambda>_. True) \<lparr>wt_tick = 0, wt_log = []\<rparr>)) in
     guarded (runs destroys_work) (may_go here) l \<and> list_ex (runs destroys_work) l"
proof -
  have "list_ex (runs destroys_work) (wt_log (snd (finalize_worktree agreeable here asking (\<lambda>_. True) \<lparr>wt_tick = 0, wt_log = []\<rparr>)))"
    using valid_here by (simp add: wt_evaluates destroys_work_def)
  then show ?thesis
    unfolding Let_def using worktree_kept_until_merged [of here agreeable asking "\<lambda>_. True" 0] by blast
qed

text \<open>
  Property C11. A merge is started only into a target that git reported clean, or whose uncommitted files were committed
  or stashed before; under the policy \<open>fail\<close> only into a clean one.
\<close>

theorem merges_into_safe_target:
  "guarded (runs merging) (safe_target L policy) (wt_log (snd (finalize_worktree w L policy agent \<lparr>wt_tick = t, wt_log = []\<rparr>)))"
  by (rule upholds_guarded [OF worktree_target])

theorem merges_into_safe_target_witness:
  "let l = wt_log (snd (finalize_worktree agreeable here asking (\<lambda>_. True) \<lparr>wt_tick = 0, wt_log = []\<rparr>)) in
     guarded (runs merging) (safe_target here asking) l \<and> list_ex (runs merging) l"
proof -
  have "list_ex (runs merging) (wt_log (snd (finalize_worktree agreeable here asking (\<lambda>_. True) \<lparr>wt_tick = 0, wt_log = []\<rparr>)))"
    using valid_here by (simp add: wt_evaluates merging_def)
  then show ?thesis
    unfolding Let_def using merges_into_safe_target [of here asking agreeable "\<lambda>_. True" 0] by blast
qed

text \<open>
  Property C12. When the merge-fix agent ran and the completion returns without an error, git reported the branch merged,
  the merge finished or the squash committed; every other end is an error or keeps the worktree.
\<close>

theorem fixed_merge_is_merged:
  assumes "complete_merge_after_fix w L f True \<lparr>wt_tick = t, wt_log = []\<rparr> = (Inr (), s')"
  shows "merged L (set (wt_log s'))"
  using complete_permitted [of L w f True, unfolded upholds_def, rule_format, of "\<lparr>wt_tick = t, wt_log = []\<rparr>" "Inr ()" s'] assms
  by simp

theorem fixed_merge_is_merged_witness:
  "merged here (set (wt_log (snd (complete_merge_after_fix agreeable here trouble True \<lparr>wt_tick = 0, wt_log = []\<rparr>))))"
proof (rule fixed_merge_is_merged [of agreeable here trouble 0], rule fst_is)
  show "fst (complete_merge_after_fix agreeable here trouble True \<lparr>wt_tick = 0, wt_log = []\<rparr>) = Inr ()"
    by code_simp
qed

text \<open>
  Property C13. An existing worktree loses its branch only after the user chose to recreate it and git answered for the
  repository, and its files only once its branch is deleted or was found missing.
\<close>

theorem recreation_keeps_the_files:
  "guarded (runs destroys_work) (may_recreate L) (wt_log (snd (prepare_with_existing w L choice \<lparr>wt_tick = t, wt_log = []\<rparr>))) \<and>
   guarded (runs removes_files) (recreation_ok L) (wt_log (snd (prepare_with_existing w L choice \<lparr>wt_tick = t, wt_log = []\<rparr>)))"
  by (intro conjI upholds_guarded [OF recreation_permitted(1)] upholds_guarded [OF recreation_permitted(2)])

theorem recreation_keeps_the_files_witness:
  "let l = wt_log (snd (prepare_with_existing agreeable here AskExisting \<lparr>wt_tick = 0, wt_log = []\<rparr>)) in
     guarded (runs removes_files) (recreation_ok here) l \<and> list_ex (runs removes_files) l"
proof -
  have "list_ex (runs removes_files) (wt_log (snd (prepare_with_existing agreeable here AskExisting \<lparr>wt_tick = 0, wt_log = []\<rparr>)))"
    using valid_here agreeable_owner [unfolded agreeable_def said_def]
    by (simp add: wt_evaluates prepare_with_existing_def is_detached_head_def git_says_def validate_worktree_owner_def
        delete_recreated_branch_logged_def branch_exists_def prepare_new_def create_worktree_logged_def Let_def removes_files_def)
  then show ?thesis
    unfolding Let_def using recreation_keeps_the_files [of here agreeable AskExisting 0] by blast
qed

end
