(* ===== verification/Api_Rows.thy ===== *)
theory Api_Rows
  imports Utf8
begin

text \<open>
  What the API server stores: the statuses of \<open>src/data/command_status.rs\<close>, \<open>src/data/session_status.rs\<close> and
  \<open>src/data/session_setup_event.rs\<close>, the labels of \<open>src/data/fs/api_labels.rs\<close>, the rows of
  \<open>src/data/fs/api_db.rs\<close> and \<open>src/data/api_lifecycle_store.rs\<close>. Instants are natural numbers (nanoseconds): the
  statements compare the texts \<open>to_rfc3339\<close> gives them, whose order is the order of the instants. A column that holds
  JSON holds the value the text is of.
\<close>

type_synonym api_instant = nat

subsection \<open>Statuses\<close>

datatype command_status = CmdQueued | CmdPending | CmdRunning | CmdDone | CmdError | CmdCancelled

definition command_status_all :: "command_status list" where
  "command_status_all = [CmdQueued, CmdPending, CmdRunning, CmdDone, CmdError, CmdCancelled]"

fun command_status_as_str :: "command_status \<Rightarrow> string" where
  "command_status_as_str CmdQueued = ''queued''"
| "command_status_as_str CmdPending = ''pending''"
| "command_status_as_str CmdRunning = ''running''"
| "command_status_as_str CmdDone = ''done''"
| "command_status_as_str CmdError = ''error''"
| "command_status_as_str CmdCancelled = ''cancelled''"

definition command_status_parse :: "string \<Rightarrow> command_status option" where
  "command_status_parse s = find (\<lambda>x. command_status_as_str x = s) command_status_all"

definition command_is_terminal :: "command_status \<Rightarrow> bool" where
  "command_is_terminal x \<longleftrightarrow> x \<in> {CmdDone, CmdError, CmdCancelled}"

definition command_is_claimable :: "command_status \<Rightarrow> bool" where
  "command_is_claimable x \<longleftrightarrow> x = CmdQueued \<or> x = CmdPending"

definition command_canonical :: "command_status \<Rightarrow> command_status" where
  "command_canonical x = (case x of CmdPending \<Rightarrow> CmdQueued | _ \<Rightarrow> x)"

datatype command_status_kind = KindDone | KindPaused | KindAborted | KindError | KindCancelled

definition terminal_wire_kind :: "command_status \<Rightarrow> command_status_kind option" where
  "terminal_wire_kind x =
     (case x of CmdDone \<Rightarrow> Some KindDone | CmdError \<Rightarrow> Some KindError | CmdCancelled \<Rightarrow> Some KindCancelled | _ \<Rightarrow> None)"

lemma command_status_spellings:
  "command_status_parse (command_status_as_str x) = Some x"
  "command_status_parse s = Some x \<Longrightarrow> s = command_status_as_str x"
proof -
  show "command_status_parse (command_status_as_str x) = Some x"
    by (cases x) (simp_all add: command_status_parse_def command_status_all_def)
  show "command_status_parse s = Some x \<Longrightarrow> s = command_status_as_str x"
    by (auto simp: command_status_parse_def command_status_all_def split: if_splits)
qed

datatype session_status = SessActive | SessClosing | SessClosed

fun session_status_as_str :: "session_status \<Rightarrow> string" where
  "session_status_as_str SessActive = ''active''"
| "session_status_as_str SessClosing = ''closing''"
| "session_status_as_str SessClosed = ''closed''"

definition session_status_parse :: "string \<Rightarrow> session_status option" where
  "session_status_parse s = find (\<lambda>x. session_status_as_str x = s) [SessActive, SessClosing, SessClosed]"

datatype session_setup_status =
  SetupInitializing | SetupCloning | SetupBranching | SetupMerging | SetupRunningReady | SetupReady | SetupFailed

fun setup_status_as_str :: "session_setup_status \<Rightarrow> string" where
  "setup_status_as_str SetupInitializing = ''initializing''"
| "setup_status_as_str SetupCloning = ''cloning_repository''"
| "setup_status_as_str SetupBranching = ''setting_up_branch''"
| "setup_status_as_str SetupMerging = ''merging_refs''"
| "setup_status_as_str SetupRunningReady = ''running_ready''"
| "setup_status_as_str SetupReady = ''ready''"
| "setup_status_as_str SetupFailed = ''failed''"

definition setup_status_parse :: "string \<Rightarrow> session_setup_status option" where
  "setup_status_parse s =
     find (\<lambda>x. setup_status_as_str x = s)
       [SetupInitializing, SetupCloning, SetupBranching, SetupMerging, SetupRunningReady, SetupReady, SetupFailed]"

definition setup_is_terminal :: "session_setup_status \<Rightarrow> bool" where
  "setup_is_terminal x \<longleftrightarrow> x = SetupReady \<or> x = SetupFailed"

subsection \<open>Labels\<close>

text \<open>A \<open>BTreeMap\<close> is the list of its entries in the order of their keys, as \<open>bytes_less\<close> has it.\<close>

type_synonym label_map = "(string \<times> string) list"

fun bytes_less :: "string \<Rightarrow> string \<Rightarrow> bool" where
  "bytes_less _ [] = False"
| "bytes_less [] (_ # _) = True"
| "bytes_less (a # x) (b # y) = (of_char a < (of_char b :: nat) \<or> a = b \<and> bytes_less x y)"

fun btree_insert :: "string \<Rightarrow> 'a \<Rightarrow> (string \<times> 'a) list \<Rightarrow> (string \<times> 'a) list" where
  "btree_insert k v [] = [(k, v)]"
| "btree_insert k v ((k', v') # m) =
     (if k = k' then (k, v) # m else if bytes_less k k' then (k, v) # (k', v') # m else (k', v') # btree_insert k v m)"

definition btree_of :: "(string \<times> 'a) list \<Rightarrow> (string \<times> 'a) list" where
  "btree_of kvs = foldl (\<lambda>m (k, v). btree_insert k v m) [] kvs"

definition max_labels :: nat where
  "max_labels = 16"

definition max_label_bytes :: nat where
  "max_label_bytes = 256"

datatype label_error =
    TooMany nat
  | KeyEmpty
  | KeyTooLong string nat
  | ValueTooLong string nat
  | KeyContainsEquals string
  | ControlCharacter string

definition has_control :: "string \<Rightarrow> bool" where
  "has_control s = list_ex char_is_control (utf8_chars s)"

definition validate_label_key :: "string \<Rightarrow> (label_error, unit) result" where
  "validate_label_key key =
     (if key = [] then Inl KeyEmpty
      else if max_label_bytes < length key then Inl (KeyTooLong key (length key))
      else if CHR ''='' \<in> set key then Inl (KeyContainsEquals key)
      else if has_control key then Inl (ControlCharacter key)
      else Inr ())"

definition validate_label_value :: "string \<Rightarrow> string \<Rightarrow> (label_error, unit) result" where
  "validate_label_value key v =
     (if max_label_bytes < length v then Inl (ValueTooLong key (length v))
      else if has_control v then Inl (ControlCharacter key)
      else Inr ())"

fun validate_labels :: "label_map \<Rightarrow> (label_error, unit) result" where
  "validate_labels [] = Inr ()"
| "validate_labels ((k, v) # m) =
     (case validate_label_key k of
        Inl x \<Rightarrow> Inl x
      | Inr _ \<Rightarrow> (case validate_label_value k v of Inl x \<Rightarrow> Inl x | Inr _ \<Rightarrow> validate_labels m))"

definition labels_new :: "label_map \<Rightarrow> (label_error, label_map) result" where
  "labels_new m =
     (if max_labels < length m then Inl (TooMany (length m))
      else case validate_labels m of Inl x \<Rightarrow> Inl x | Inr _ \<Rightarrow> Inr m)"

datatype label_selector = LabelEquals string string | LabelExists string

definition label_selector_parse :: "string \<Rightarrow> (label_error, label_selector) result" where
  "label_selector_parse sel =
     (case split_once (CHR ''='') sel of
        Some (key, v) \<Rightarrow>
          (case validate_label_key key of
             Inl x \<Rightarrow> Inl x
           | Inr _ \<Rightarrow> (case validate_label_value key v of Inl x \<Rightarrow> Inl x | Inr _ \<Rightarrow> Inr (LabelEquals key v)))
      | None \<Rightarrow> (case validate_label_key sel of Inl x \<Rightarrow> Inl x | Inr _ \<Rightarrow> Inr (LabelExists sel)))"

subsection \<open>Results of commands\<close>

record command_failure =
  fl_stage :: string
  fl_code :: string
  fl_message :: string
  fl_step :: "string option"

datatype failed_step_phase = FailedSetup | FailedMain | FailedTeardown

record failed_step =
  fs_name :: string
  fs_index :: nat
  fs_phase :: failed_step_phase
  fs_exit_code :: "int option"
  fs_step_attempt :: nat
  fs_error :: "string option"

record outputs_summary =
  os_files :: nat
  os_bytes :: nat
  os_incomplete :: bool

record pushed_ref =
  pr_remote :: string
  pr_branch :: string
  pr_sha :: string

text \<open>
  \<open>pushed\<close> is absent, \<open>null\<close> or a reference. What git collected of the checkout and the data a command reports are
  texts of JSON values nothing here looks into.
\<close>

record command_result =
  cr_exit_code :: "int option"
  cr_outcome :: "command_status_kind option"
  cr_failure :: "command_failure option"
  cr_failed_steps :: "failed_step list option"
  cr_git :: "string option"
  cr_worktree_path :: "string option"
  cr_pull_request :: "string option"
  cr_final_message :: "string option"
  cr_outputs :: "outputs_summary option"
  cr_data :: "string option"
  cr_error :: "string option"
  cr_error_status :: "nat option"
  cr_stage :: "string option"
  cr_setup_error :: "string option"
  cr_cancelled_at :: "api_instant option"
  cr_pushed :: "pushed_ref option option"

definition default_result :: command_result where
  "default_result =
     \<lparr>cr_exit_code = None, cr_outcome = None, cr_failure = None, cr_failed_steps = None, cr_git = None,
      cr_worktree_path = None, cr_pull_request = None, cr_final_message = None, cr_outputs = None, cr_data = None,
      cr_error = None, cr_error_status = None, cr_stage = None, cr_setup_error = None, cr_cancelled_at = None,
      cr_pushed = None\<rparr>"

definition cancelled_code :: int where
  "cancelled_code = 130"

definition cancelled_result_json :: "api_instant option \<Rightarrow> command_result" where
  "cancelled_result_json cancelled_at =
     default_result\<lparr>cr_exit_code := Some cancelled_code, cr_error := Some ''cancelled'', cr_cancelled_at := cancelled_at\<rparr>"

record command_completion =
  cc_attempt :: nat
  cc_status :: command_status
  cc_exit_code :: int
  cc_result :: command_result
  cc_finished_at :: api_instant

subsection \<open>Rows\<close>

datatype session_kind = LocalSession | RemoteSession

record session_row =
  sr_id :: string
  sr_workdir :: string
  sr_created_at :: api_instant
  sr_status :: session_status
  sr_closed_at :: "api_instant option"
  sr_setup :: session_setup_status
  sr_kind :: session_kind
  sr_cloned_path :: "string option"
  sr_repo_url :: "string option"
  sr_branch :: "string option"
  sr_base_ref :: "string option"
  sr_merge_refs :: "string list option"
  sr_push :: bool

record command_row =
  cm_id :: string
  cm_session :: string
  cm_subcommand :: string
  cm_args :: string
  cm_status :: command_status
  cm_exit :: "int option"
  cm_started :: "api_instant option"
  cm_finished :: "api_instant option"
  cm_log_path :: string
  cm_worker :: "string option"
  cm_queued :: "api_instant option"
  cm_result :: "command_result option"
  cm_attempt :: int

datatype label_owner = OwnedBySession | OwnedByCommand

record label_row =
  lr_owner :: label_owner
  lr_id :: string
  lr_key :: string
  lr_value :: string

datatype resource_kind = SessionResource | CommandResource | CompensatingSession

record key_row =
  ik_scope :: string
  ik_key :: string
  ik_hash :: string
  ik_status :: "nat option"
  ik_body :: "string option"
  ik_created :: api_instant
  ik_instance :: "string option"
  ik_request :: "string option"
  ik_intent_status :: "nat option"
  ik_intent_body :: "string option"
  ik_resource_kind :: "resource_kind option"
  ik_resource_id :: "string option"

record run_record =
  rr_session :: string
  rr_command :: string
  rr_close_on_finish :: bool
  rr_created_at :: api_instant

text \<open>A table is the list of its rows in the order of their row ids.\<close>

record api_db =
  ad_sessions :: "session_row list"
  ad_commands :: "command_row list"
  ad_labels :: "label_row list"
  ad_keys :: "key_row list"
  ad_cancellations :: "(string \<times> api_instant) list"
  ad_runs :: "run_record list"

definition empty_db :: api_db where
  "empty_db = \<lparr>ad_sessions = [], ad_commands = [], ad_labels = [], ad_keys = [], ad_cancellations = [], ad_runs = []\<rparr>"

end
