(* ===== verification/Api_Store.thy ===== *)
theory Api_Store
  imports Api_Rows
begin

text \<open>
  The statements of \<open>src/data/fs/api_db.rs\<close> and \<open>src/data/api_lifecycle_store.rs\<close>, each a function of the tables. The
  connection lock makes every method one step. The bundled SQLite enforces the reference of a command to its session.
  That a statement can fail for reasons of its own is part of the steps of the theories that use it.
\<close>

datatype store_fault =
    ConstraintViolated
  | InvalidLabels label_error
  | StoreOther string

subsection \<open>Reading\<close>

definition first_attempt :: nat where
  "first_attempt = 1"

text \<open>\<open>command_record_from_row\<close>: the legacy status reads as queued, an attempt out of range as the first.\<close>

definition attempt_of :: "int \<Rightarrow> nat" where
  "attempt_of a = (if 0 \<le> a \<and> a < 2 ^ 32 then nat a else first_attempt)"

definition command_record_from_row :: "command_row \<Rightarrow> command_row" where
  "command_record_from_row c =
     c\<lparr>cm_status := command_canonical (cm_status c), cm_attempt := int (attempt_of (cm_attempt c))\<rparr>"

definition get_session :: "string \<Rightarrow> api_db \<Rightarrow> session_row option" where
  "get_session i db = find (\<lambda>s. sr_id s = i) (ad_sessions db)"

definition get_command :: "string \<Rightarrow> api_db \<Rightarrow> command_row option" where
  "get_command i db = map_option command_record_from_row (find (\<lambda>c. cm_id c = i) (ad_commands db))"

datatype session_command_admission = AdmissionAccepted | AdmissionNotFound | AdmissionClosing | AdmissionClosed

definition command_admission :: "string \<Rightarrow> api_db \<Rightarrow> session_command_admission" where
  "command_admission i db =
     (case get_session i db of
        Some s \<Rightarrow>
          (case sr_status s of
             SessActive \<Rightarrow> AdmissionAccepted | SessClosing \<Rightarrow> AdmissionClosing | SessClosed \<Rightarrow> AdmissionClosed)
      | None \<Rightarrow> AdmissionNotFound)"

definition list_sessions :: "api_db \<Rightarrow> session_row list" where
  "list_sessions db = sort_key sr_created_at (ad_sessions db)"

definition list_sessions_by_status :: "session_status option \<Rightarrow> api_db \<Rightarrow> session_row list" where
  "list_sessions_by_status st db =
     (case st of None \<Rightarrow> list_sessions db | Some x \<Rightarrow> sort_key sr_created_at (filter (\<lambda>s. sr_status s = x) (ad_sessions db)))"

text \<open>The predicate that each selector adds to a query.\<close>

fun selected :: "label_owner \<Rightarrow> string \<Rightarrow> api_db \<Rightarrow> label_selector \<Rightarrow> bool" where
  "selected ow i db (LabelEquals k v) =
     list_ex (\<lambda>l. lr_owner l = ow \<and> lr_id l = i \<and> lr_key l = k \<and> lr_value l = v) (ad_labels db)"
| "selected ow i db (LabelExists k) = list_ex (\<lambda>l. lr_owner l = ow \<and> lr_id l = i \<and> lr_key l = k) (ad_labels db)"

definition list_sessions_filtered ::
  "session_status option \<Rightarrow> session_setup_status option \<Rightarrow> label_selector list \<Rightarrow> api_db \<Rightarrow> session_row list" where
  "list_sessions_filtered st setup_st sels db =
     sort_key sr_created_at (filter (\<lambda>s.
       (case st of None \<Rightarrow> True | Some x \<Rightarrow> sr_status s = x) \<and>
       (case setup_st of None \<Rightarrow> True | Some x \<Rightarrow> sr_setup s = x) \<and>
       list_all (selected OwnedBySession (sr_id s) db) sels) (ad_sessions db))"

text \<open>\<open>queued_at ASC, rowid ASC\<close>, a missing time first.\<close>

definition queue_rank :: "command_row \<Rightarrow> nat" where
  "queue_rank c = (case cm_queued c of None \<Rightarrow> 0 | Some t \<Rightarrow> Suc t)"

definition newest_commands :: "command_row list \<Rightarrow> command_row list" where
  "newest_commands cs = rev (sort_key queue_rank cs)"

record command_filter =
  cf_session :: "string option"
  cf_status :: "command_status option"
  cf_labels :: "label_selector list"
  cf_limit :: nat

definition list_commands_filtered :: "command_filter \<Rightarrow> api_db \<Rightarrow> command_row list" where
  "list_commands_filtered f db =
     map command_record_from_row (take (cf_limit f) (newest_commands (filter (\<lambda>c.
       (case cf_session f of None \<Rightarrow> True | Some x \<Rightarrow> cm_session c = x) \<and>
       (case cf_status f of None \<Rightarrow> True
        | Some x \<Rightarrow> if command_canonical x = CmdQueued then command_is_claimable (cm_status c) else cm_status c = x) \<and>
       list_all (selected OwnedByCommand (cm_id c) db) (cf_labels f)) (ad_commands db))))"

definition list_commands_for_session :: "string \<Rightarrow> nat \<Rightarrow> api_db \<Rightarrow> command_row list" where
  "list_commands_for_session i limit db =
     map command_record_from_row (take limit (newest_commands (filter (\<lambda>c. cm_session c = i) (ad_commands db))))"

definition list_sessions_with_in_progress_setup :: "api_db \<Rightarrow> session_row list" where
  "list_sessions_with_in_progress_setup db =
     sort_key sr_created_at (filter (\<lambda>s. sr_setup s \<in>
       {SetupInitializing, SetupCloning, SetupBranching, SetupMerging, SetupRunningReady}) (ad_sessions db))"

definition count_active_sessions :: "api_db \<Rightarrow> nat" where
  "count_active_sessions db = length (filter (\<lambda>s. sr_status s = SessActive) (ad_sessions db))"

definition count_running_commands :: "api_db \<Rightarrow> nat" where
  "count_running_commands db = length (filter (\<lambda>c. cm_status c = CmdRunning) (ad_commands db))"

definition has_running_command_for_session :: "string \<Rightarrow> api_db \<Rightarrow> bool" where
  "has_running_command_for_session i db =
     list_ex (\<lambda>c. cm_session c = i \<and> cm_status c \<in> {CmdQueued, CmdRunning}) (ad_commands db)"

definition count_queued_for_session :: "string \<Rightarrow> api_db \<Rightarrow> nat" where
  "count_queued_for_session i db =
     length (filter (\<lambda>c. cm_session c = i \<and> command_is_claimable (cm_status c)) (ad_commands db))"

definition running_command_for_session :: "string \<Rightarrow> api_db \<Rightarrow> command_row option" where
  "running_command_for_session i db =
     map_option command_record_from_row (find (\<lambda>c. cm_session c = i \<and> cm_status c = CmdRunning) (ad_commands db))"

record queue_records =
  sq_depth :: nat
  sq_running :: "command_row option"
  sq_recent :: "command_row list"

definition session_queue_records :: "string \<Rightarrow> api_db \<Rightarrow> queue_records" where
  "session_queue_records i db =
     \<lparr>sq_depth = count_queued_for_session i db, sq_running = running_command_for_session i db,
      sq_recent = list_commands_for_session i 100 db\<rparr>"

text \<open>How many claimable commands of the session come before the command at row \<open>t\<close>.\<close>

definition queued_before :: "nat \<times> command_row \<Rightarrow> nat \<times> command_row \<Rightarrow> bool" where
  "queued_before x t \<longleftrightarrow>
     (case (x, t) of ((i, c), (j, d)) \<Rightarrow>
        (cm_queued c = None \<and> cm_queued d \<noteq> None) \<or>
        (case (cm_queued c, cm_queued d) of (Some a, Some b) \<Rightarrow> a < b | _ \<Rightarrow> False) \<or>
        (cm_queued c = cm_queued d \<and> i < j))"

definition queue_position_for_command :: "string \<Rightarrow> string \<Rightarrow> api_db \<Rightarrow> nat option" where
  "queue_position_for_command i sess db =
     (let rows = enumerate 0 (ad_commands db) in
      map_option (\<lambda>t. length (filter (\<lambda>x. cm_session (snd x) = sess \<and> command_is_claimable (cm_status (snd x)) \<and> queued_before x t) rows))
        (find (\<lambda>(_, c). cm_id c = i \<and> command_is_claimable (cm_status c)) rows))"

subsection \<open>Sessions\<close>

record new_session_row =
  ns_id :: string
  ns_workdir :: string
  ns_created_at :: api_instant
  ns_setup :: session_setup_status
  ns_kind :: session_kind
  ns_cloned_path :: "string option"

definition insert_session_row :: "new_session_row \<Rightarrow> api_db \<Rightarrow> (store_fault, unit) result \<times> api_db" where
  "insert_session_row n db =
     (if ns_id n \<in> sr_id ` set (ad_sessions db) then (Inl ConstraintViolated, db)
      else (Inr (), db\<lparr>ad_sessions := ad_sessions db @
        [\<lparr>sr_id = ns_id n, sr_workdir = ns_workdir n, sr_created_at = ns_created_at n, sr_status = SessActive,
          sr_closed_at = None, sr_setup = ns_setup n, sr_kind = ns_kind n, sr_cloned_path = ns_cloned_path n,
          sr_repo_url = None, sr_branch = None, sr_base_ref = None, sr_merge_refs = None, sr_push = False\<rparr>]\<rparr>))"

definition insert_session :: "string \<Rightarrow> string \<Rightarrow> api_instant \<Rightarrow> api_db \<Rightarrow> (store_fault, unit) result \<times> api_db" where
  "insert_session i workdir created db =
     insert_session_row \<lparr>ns_id = i, ns_workdir = workdir, ns_created_at = created, ns_setup = SetupReady,
       ns_kind = LocalSession, ns_cloned_path = None\<rparr> db"

text \<open>\<open>UPDATE\<close>, with whether it changed a row.\<close>

definition update_sessions :: "(session_row \<Rightarrow> bool) \<Rightarrow> (session_row \<Rightarrow> session_row) \<Rightarrow> api_db \<Rightarrow> bool \<times> api_db" where
  "update_sessions P f db =
     (list_ex P (ad_sessions db), db\<lparr>ad_sessions := map (\<lambda>s. if P s then f s else s) (ad_sessions db)\<rparr>)"

record remote_session_fields =
  rf_repo_url :: "string option"
  rf_branch :: "string option"
  rf_base_ref :: "string option"
  rf_merge_refs :: "string list"
  rf_push :: bool

definition set_remote_fields :: "string \<Rightarrow> remote_session_fields \<Rightarrow> api_db \<Rightarrow> bool \<times> api_db" where
  "set_remote_fields i f =
     update_sessions (\<lambda>s. sr_id s = i) (\<lambda>s. s\<lparr>sr_repo_url := rf_repo_url f, sr_branch := rf_branch f,
       sr_base_ref := rf_base_ref f, sr_merge_refs := (if rf_merge_refs f = [] then None else Some (rf_merge_refs f)),
       sr_push := rf_push f\<rparr>)"

definition update_setup_status :: "string \<Rightarrow> session_setup_status \<Rightarrow> api_db \<Rightarrow> bool \<times> api_db" where
  "update_setup_status i st = update_sessions (\<lambda>s. sr_id s = i) (\<lambda>s. s\<lparr>sr_setup := st\<rparr>)"

definition update_session_status :: "string \<Rightarrow> session_status \<Rightarrow> api_db \<Rightarrow> bool \<times> api_db" where
  "update_session_status i st = update_sessions (\<lambda>s. sr_id s = i) (\<lambda>s. s\<lparr>sr_status := st\<rparr>)"

definition close_session :: "string \<Rightarrow> api_instant \<Rightarrow> api_db \<Rightarrow> bool \<times> api_db" where
  "close_session i t =
     update_sessions (\<lambda>s. sr_id s = i \<and> sr_status s = SessActive) (\<lambda>s. s\<lparr>sr_status := SessClosed, sr_closed_at := Some t\<rparr>)"

definition close_session_force :: "string \<Rightarrow> api_instant \<Rightarrow> api_db \<Rightarrow> bool \<times> api_db" where
  "close_session_force i t =
     update_sessions (\<lambda>s. sr_id s = i \<and> sr_status s \<noteq> SessClosed) (\<lambda>s. s\<lparr>sr_status := SessClosed, sr_closed_at := Some t\<rparr>)"

text \<open>The purge of a session, then of the next; nothing older than the cutoff is left.\<close>

definition purge_session :: "string \<Rightarrow> api_db \<Rightarrow> api_db" where
  "purge_session i db =
     (let mine = map cm_id (filter (\<lambda>c. cm_session c = i) (ad_commands db)) in
      db\<lparr>ad_labels := filter (\<lambda>l. \<not> (lr_owner l = OwnedBySession \<and> lr_id l = i) \<and>
            \<not> (lr_owner l = OwnedByCommand \<and> lr_id l \<in> set mine)) (ad_labels db),
         ad_commands := filter (\<lambda>c. cm_session c \<noteq> i) (ad_commands db),
         ad_sessions := filter (\<lambda>s. sr_id s \<noteq> i) (ad_sessions db)\<rparr>)"

definition delete_closed_sessions_before :: "api_instant \<Rightarrow> api_db \<Rightarrow> (string \<times> nat) list \<times> api_db" where
  "delete_closed_sessions_before cutoff db =
     (let old = filter (\<lambda>s. sr_status s = SessClosed \<and> (case sr_closed_at s of Some t \<Rightarrow> t < cutoff | None \<Rightarrow> False))
                  (ad_sessions db) in
      (map (\<lambda>s. (sr_id s, length (filter (\<lambda>c. cm_session c = sr_id s) (ad_commands db)))) old,
       fold (\<lambda>s. purge_session (sr_id s)) old db))"

subsection \<open>Labels\<close>

definition delete_labels :: "label_owner \<Rightarrow> string \<Rightarrow> api_db \<Rightarrow> api_db" where
  "delete_labels ow i db = db\<lparr>ad_labels := filter (\<lambda>l. \<not> (lr_owner l = ow \<and> lr_id l = i)) (ad_labels db)\<rparr>"

definition label_rows :: "label_owner \<Rightarrow> string \<Rightarrow> label_map \<Rightarrow> label_row list" where
  "label_rows ow i m = map (\<lambda>(k, v). \<lparr>lr_owner = ow, lr_id = i, lr_key = k, lr_value = v\<rparr>) m"

definition set_labels :: "label_owner \<Rightarrow> string \<Rightarrow> label_map \<Rightarrow> api_db \<Rightarrow> (store_fault, unit) result \<times> api_db" where
  "set_labels ow i m db =
     (let cleared = delete_labels ow i db in
      if distinct (map fst m) then (Inr (), cleared\<lparr>ad_labels := ad_labels cleared @ label_rows ow i m\<rparr>)
      else (Inl ConstraintViolated, db))"

definition labels_for :: "label_owner \<Rightarrow> string \<Rightarrow> api_db \<Rightarrow> (store_fault, label_map) result" where
  "labels_for ow i db =
     (case labels_new (btree_of (map (\<lambda>l. (lr_key l, lr_value l))
             (filter (\<lambda>l. lr_owner l = ow \<and> lr_id l = i) (ad_labels db)))) of
        Inl x \<Rightarrow> Inl (InvalidLabels x) | Inr m \<Rightarrow> Inr m)"

subsection \<open>The queue\<close>

definition new_command :: "string \<Rightarrow> string \<Rightarrow> string \<Rightarrow> string \<Rightarrow> string \<Rightarrow> api_instant option \<Rightarrow> command_row" where
  "new_command i sess sub args log_path queued =
     \<lparr>cm_id = i, cm_session = sess, cm_subcommand = sub, cm_args = args, cm_status = CmdQueued, cm_exit = None,
      cm_started = None, cm_finished = None, cm_log_path = log_path, cm_worker = None, cm_queued = queued,
      cm_result = None, cm_attempt = 1\<rparr>"

definition insert_command_row :: "command_row \<Rightarrow> api_db \<Rightarrow> (store_fault, unit) result \<times> api_db" where
  "insert_command_row c db =
     (if cm_id c \<in> cm_id ` set (ad_commands db) \<or> cm_session c \<notin> sr_id ` set (ad_sessions db)
      then (Inl ConstraintViolated, db)
      else (Inr (), db\<lparr>ad_commands := ad_commands db @ [c]\<rparr>))"

definition enqueue_command ::
  "string \<Rightarrow> string \<Rightarrow> string \<Rightarrow> string \<Rightarrow> string \<Rightarrow> api_instant \<Rightarrow> api_db \<Rightarrow> (store_fault, unit) result \<times> api_db" where
  "enqueue_command i sess sub args log_path now = insert_command_row (new_command i sess sub args log_path (Some now))"

text \<open>The command and its labels, or neither.\<close>

definition enqueue_command_with_labels ::
  "string \<Rightarrow> string \<Rightarrow> string \<Rightarrow> string \<Rightarrow> string \<Rightarrow> label_map \<Rightarrow> api_instant \<Rightarrow> api_db \<Rightarrow> (store_fault, unit) result \<times> api_db" where
  "enqueue_command_with_labels i sess sub args log_path m now db =
     (case set_labels OwnedByCommand i m db of
        (Inl x, _) \<Rightarrow> (Inl x, db)
      | (Inr _, db1) \<Rightarrow>
          (case enqueue_command i sess sub args log_path now db1 of
             (Inl x, _) \<Rightarrow> (Inl x, db) | (Inr _, db2) \<Rightarrow> (Inr (), db2)))"

definition update_commands :: "(command_row \<Rightarrow> bool) \<Rightarrow> (command_row \<Rightarrow> command_row) \<Rightarrow> api_db \<Rightarrow> bool \<times> api_db" where
  "update_commands P f db =
     (list_ex P (ad_commands db), db\<lparr>ad_commands := map (\<lambda>c. if P c then f c else c) (ad_commands db)\<rparr>)"

text \<open>Claimable: the session is ready and runs nothing.\<close>

definition eligible :: "api_db \<Rightarrow> command_row \<Rightarrow> bool" where
  "eligible db c \<longleftrightarrow>
     command_is_claimable (cm_status c) \<and>
     list_ex (\<lambda>s. sr_id s = cm_session c \<and> sr_setup s = SetupReady) (ad_sessions db) \<and>
     \<not> list_ex (\<lambda>r. cm_session r = cm_session c \<and> cm_status r = CmdRunning) (ad_commands db)"

definition next_eligible :: "api_db \<Rightarrow> command_row option" where
  "next_eligible db =
     (case sort_key queue_rank (filter (eligible db) (ad_commands db)) of [] \<Rightarrow> None | c # _ \<Rightarrow> Some c)"

definition claim_next_command :: "string \<Rightarrow> api_instant \<Rightarrow> api_db \<Rightarrow> command_row option \<times> api_db" where
  "claim_next_command worker now db =
     (case next_eligible db of
        None \<Rightarrow> (None, db)
      | Some c \<Rightarrow>
          (let f = (\<lambda>r. r\<lparr>cm_status := CmdRunning, cm_worker := Some worker, cm_started := Some now\<rparr>) in
           (Some (command_record_from_row (f c)), snd (update_commands (\<lambda>r. cm_id r = cm_id c) f db))))"

definition complete_command ::
  "string \<Rightarrow> command_status \<Rightarrow> int option \<Rightarrow> command_result option \<Rightarrow> api_instant \<Rightarrow> api_db \<Rightarrow> api_db" where
  "complete_command i st code res now db =
     snd (update_commands (\<lambda>c. cm_id c = i) (\<lambda>c. c\<lparr>cm_status := st, cm_exit := code,
       cm_finished := (case cm_finished c of Some t \<Rightarrow> Some t | None \<Rightarrow> Some now), cm_result := res\<rparr>) db)"

definition finalize_running_command :: "string \<Rightarrow> command_completion \<Rightarrow> api_db \<Rightarrow> bool \<times> api_db" where
  "finalize_running_command i k =
     update_commands (\<lambda>c. cm_id c = i \<and> cm_status c = CmdRunning \<and> cm_attempt c = int (cc_attempt k))
       (\<lambda>c. c\<lparr>cm_status := cc_status k, cm_exit := Some (cc_exit_code k), cm_finished := Some (cc_finished_at k),
          cm_result := Some (cc_result k)\<rparr>)"

definition cancel_queued_for_session :: "string \<Rightarrow> api_instant \<Rightarrow> api_db \<Rightarrow> string list \<times> api_db" where
  "cancel_queued_for_session sess now db =
     (let P = (\<lambda>c. cm_session c = sess \<and> command_is_claimable (cm_status c)) in
      (map cm_id (filter P (ad_commands db)),
       snd (update_commands P (\<lambda>c. c\<lparr>cm_status := CmdCancelled, cm_finished := Some now\<rparr>) db)))"

text \<open>Every command left running since before the cutoff is queued again, as its next attempt.\<close>

definition stale :: "api_instant \<Rightarrow> command_row \<Rightarrow> bool" where
  "stale cutoff c \<longleftrightarrow> cm_status c = CmdRunning \<and> (case cm_started c of Some t \<Rightarrow> t < cutoff | None \<Rightarrow> False)"

definition recover_stale_commands :: "api_instant \<Rightarrow> api_db \<Rightarrow> string list \<times> api_db" where
  "recover_stale_commands cutoff db =
     (map cm_id (filter (stale cutoff) (ad_commands db)),
      snd (update_commands (stale cutoff) (\<lambda>c. c\<lparr>cm_status := CmdQueued, cm_worker := None, cm_started := None,
        cm_attempt := cm_attempt c + 1\<rparr>) db))"

subsection \<open>Cancellation and runs\<close>

definition cancelled_row :: "api_instant option \<Rightarrow> api_instant \<Rightarrow> command_row \<Rightarrow> command_row" where
  "cancelled_row requested now c =
     c\<lparr>cm_status := CmdCancelled, cm_exit := Some cancelled_code, cm_finished := Some now,
       cm_result := Some (cancelled_result_json requested)\<rparr>"

definition cancel_if_queued :: "string \<Rightarrow> api_instant \<Rightarrow> api_db \<Rightarrow> bool \<times> api_db" where
  "cancel_if_queued i now =
     update_commands (\<lambda>c. cm_id c = i \<and> command_is_claimable (cm_status c)) (cancelled_row None now)"

definition cancel_if_running :: "string \<Rightarrow> api_instant \<Rightarrow> api_instant \<Rightarrow> api_db \<Rightarrow> bool \<times> api_db" where
  "cancel_if_running i now requested =
     update_commands (\<lambda>c. cm_id c = i \<and> cm_status c = CmdRunning) (cancelled_row (Some requested) now)"

definition request_cancel :: "string \<Rightarrow> api_instant \<Rightarrow> api_db \<Rightarrow> api_db" where
  "request_cancel i now db =
     (if i \<in> fst ` set (ad_cancellations db) then db else db\<lparr>ad_cancellations := ad_cancellations db @ [(i, now)]\<rparr>)"

definition cancel_requested_at :: "string \<Rightarrow> api_db \<Rightarrow> api_instant option" where
  "cancel_requested_at i db = map_of (ad_cancellations db) i"

definition cancelled_command_ids :: "api_db \<Rightarrow> string list" where
  "cancelled_command_ids db =
     map cm_id (filter (\<lambda>c. cm_status c = CmdCancelled \<and> cancel_requested_at (cm_id c) db \<noteq> None) (ad_commands db))"

definition interrupted :: "api_db \<Rightarrow> command_row \<Rightarrow> bool" where
  "interrupted db c \<longleftrightarrow>
     cm_status c \<in> {CmdQueued, CmdPending, CmdRunning} \<and> cancel_requested_at (cm_id c) db \<noteq> None"

definition finalize_interrupted_cancellations :: "api_instant \<Rightarrow> api_db \<Rightarrow> string list \<times> api_db" where
  "finalize_interrupted_cancellations now db =
     (map cm_id (filter (interrupted db) (ad_commands db)),
      db\<lparr>ad_commands := map (\<lambda>c. if interrupted db c then cancelled_row (cancel_requested_at (cm_id c) db) now c else c)
        (ad_commands db)\<rparr>)"

definition fail_if_queued :: "string \<Rightarrow> api_instant \<Rightarrow> command_result \<Rightarrow> api_db \<Rightarrow> bool \<times> api_db" where
  "fail_if_queued i now res =
     update_commands (\<lambda>c. cm_id c = i \<and> command_is_claimable (cm_status c))
       (\<lambda>c. c\<lparr>cm_status := CmdError, cm_exit := Some 1, cm_finished := Some now, cm_result := Some res\<rparr>)"

definition record_run :: "run_record \<Rightarrow> api_db \<Rightarrow> (store_fault, unit) result \<times> api_db" where
  "record_run r db =
     (if rr_session r \<in> rr_session ` set (ad_runs db) \<or> rr_command r \<in> rr_command ` set (ad_runs db)
      then (Inl ConstraintViolated, db)
      else (Inr (), db\<lparr>ad_runs := ad_runs db @ [r]\<rparr>))"

definition list_runs :: "api_db \<Rightarrow> run_record list" where
  "list_runs db = sort_key rr_created_at (ad_runs db)"

definition run_for_session :: "string \<Rightarrow> api_db \<Rightarrow> run_record option" where
  "run_for_session i db = find (\<lambda>r. rr_session r = i) (ad_runs db)"

definition run_for_command :: "string \<Rightarrow> api_db \<Rightarrow> run_record option" where
  "run_for_command i db = find (\<lambda>r. rr_command r = i) (ad_runs db)"

definition prune_orphans :: "api_db \<Rightarrow> nat \<times> api_db" where
  "prune_orphans db =
     (let cs = filter (\<lambda>k. fst k \<in> cm_id ` set (ad_commands db)) (ad_cancellations db);
          rs = filter (\<lambda>r. rr_session r \<in> sr_id ` set (ad_sessions db)) (ad_runs db) in
      ((length (ad_cancellations db) - length cs) + (length (ad_runs db) - length rs),
       db\<lparr>ad_cancellations := cs, ad_runs := rs\<rparr>))"

end
