(* ===== verification/Api_Results.thy ===== *)
theory Api_Results
  imports Api_Rows
begin

text \<open>
  The result of a queued command, \<open>QueuedCommandResult\<close> of \<open>src/command/commands/api_server/queue_worker.rs\<close>: what a
  command returned, what its push did and what its frontend contributed, as one record. Of a \<open>CommandError\<close> only its
  classification counts (\<open>src/command/error.rs\<close>): exit code, HTTP status, stage, code and text.
\<close>

record classified_error =
  ce_aborted :: bool
  ce_exit_code :: int
  ce_http_status :: nat
  ce_stage :: string
  ce_code :: string
  ce_text :: string
  ce_prerequisites :: bool
  ce_worktree_exists :: "string option"

text \<open>Outcomes: a workflow, a prompt, another command with its exit code. \<open>src/command/dispatch/outcomes.rs\<close>\<close>

datatype command_outcome =
    WorkflowOutcome "int option" "classified_error option"
  | PromptOutcome "int option"
  | OtherOutcome int

fun command_outcome_exit_code :: "command_outcome \<Rightarrow> int" where
  "command_outcome_exit_code (WorkflowOutcome c _) = (case c of Some x \<Rightarrow> x | None \<Rightarrow> 0)"
| "command_outcome_exit_code (PromptOutcome c) = (case c of Some x \<Rightarrow> x | None \<Rightarrow> 0)"
| "command_outcome_exit_code (OtherOutcome x) = x"

datatype push_back_outcome = PushNotConfigured | NothingToPush | Pushed pushed_ref

text \<open>The failure of a push: its stage and its message.\<close>

type_synonym push_back_error = "string \<times> string"

record result_contributions =
  rc_workflow_outcome :: "command_status_kind option"
  rc_workflow_failure :: "command_failure option"
  rc_main_started :: bool
  rc_container_started :: bool
  rc_final_message :: "string option"
  rc_pull_request :: "string option"
  rc_data :: "string option"
  rc_failed_steps :: "failed_step list"

definition no_contributions :: result_contributions where
  "no_contributions =
     \<lparr>rc_workflow_outcome = None, rc_workflow_failure = None, rc_main_started = False, rc_container_started = False,
      rc_final_message = None, rc_pull_request = None, rc_data = None, rc_failed_steps = []\<rparr>"

record queued_result =
  qr_exit_code :: int
  qr_status :: command_status
  qr_result :: command_result

definition fail_with :: "string \<Rightarrow> string \<Rightarrow> string \<Rightarrow> string option \<Rightarrow> command_failure" where
  "fail_with stage code message step = \<lparr>fl_stage = stage, fl_code = code, fl_message = message, fl_step = step\<rparr>"

definition status_of_outcome :: "command_status_kind option \<Rightarrow> command_status" where
  "status_of_outcome k =
     (case (case k of Some x \<Rightarrow> x | None \<Rightarrow> KindError) of
        KindDone \<Rightarrow> CmdDone | KindCancelled \<Rightarrow> CmdCancelled | _ \<Rightarrow> CmdError)"

definition from_result :: "command_result \<Rightarrow> queued_result" where
  "from_result r =
     \<lparr>qr_exit_code = (case cr_exit_code r of Some c \<Rightarrow> c | None \<Rightarrow> 0), qr_status = status_of_outcome (cr_outcome r), qr_result = r\<rparr>"

definition map_queued_result :: "(command_result \<Rightarrow> command_result) \<Rightarrow> queued_result \<Rightarrow> queued_result" where
  "map_queued_result f q = from_result (f (qr_result q))"

subsection \<open>What the command itself says\<close>

type_synonym command_returned = "(classified_error, command_outcome) result"

definition returned_exit_code :: "command_returned \<Rightarrow> int" where
  "returned_exit_code res = (case res of Inl x \<Rightarrow> ce_exit_code x | Inr ok \<Rightarrow> command_outcome_exit_code ok)"

definition build_outcome :: "command_returned \<Rightarrow> result_contributions \<Rightarrow> command_status_kind" where
  "build_outcome res con =
     (let code = returned_exit_code res;
          k = (case res of
                 Inl x \<Rightarrow> if ce_aborted x then KindAborted else KindError
               | Inr (WorkflowOutcome None _) \<Rightarrow> KindPaused
               | Inr _ \<Rightarrow>
                   (case rc_workflow_outcome con of Some k \<Rightarrow> k | None \<Rightarrow> if code = 0 then KindDone else KindError)) in
      if k = KindDone \<and> code \<noteq> 0 then KindError else k)"

definition error_failure :: "classified_error \<Rightarrow> command_failure" where
  "error_failure x = fail_with (ce_stage x) (ce_code x) (ce_text x) None"

definition build_start :: "command_returned \<Rightarrow> result_contributions \<Rightarrow> command_result" where
  "build_start res con =
     default_result\<lparr>
       cr_exit_code := Some (returned_exit_code res),
       cr_outcome := Some (build_outcome res con),
       cr_error := (case res of Inl x \<Rightarrow> Some (ce_text x) | Inr _ \<Rightarrow> None),
       cr_error_status := (case res of Inl x \<Rightarrow> Some (ce_http_status x) | Inr _ \<Rightarrow> None),
       cr_stage := (case res of Inl x \<Rightarrow> if ce_prerequisites x then Some (ce_stage x) else None | Inr _ \<Rightarrow> None),
       cr_failure := (case res of Inl x \<Rightarrow> Some (error_failure x) | Inr _ \<Rightarrow> None),
       cr_worktree_path := (case res of Inl x \<Rightarrow> ce_worktree_exists x | Inr _ \<Rightarrow> None),
       cr_pull_request := rc_pull_request con,
       cr_final_message := rc_final_message con,
       cr_data := rc_data con\<rparr>"

definition with_prerequisites :: "command_returned \<Rightarrow> command_result \<Rightarrow> command_result" where
  "with_prerequisites res r =
     (case res of
        Inr (WorkflowOutcome (Some c) (Some x)) \<Rightarrow>
          if c \<noteq> 0 then r\<lparr>cr_failure := Some (error_failure x), cr_error := Some (ce_text x)\<rparr> else r
      | _ \<Rightarrow> r)"

definition last_failed :: "failed_step_phase \<Rightarrow> failed_step list \<Rightarrow> failed_step option" where
  "last_failed ph steps = find (\<lambda>s. fs_phase s = ph) (rev steps)"

definition with_setup_failure :: "command_returned \<Rightarrow> result_contributions \<Rightarrow> command_result \<Rightarrow> command_result" where
  "with_setup_failure res con r =
     (if isl res \<and> \<not> rc_main_started con \<and> (case cr_failure r of Some f \<Rightarrow> fl_stage f = ''step'' | None \<Rightarrow> False)
      then (case last_failed FailedSetup (rc_failed_steps con) of
              Some s \<Rightarrow> r\<lparr>cr_failure := Some (fail_with ''setup'' ''setup_failed''
                          (case cr_error r of Some m \<Rightarrow> m | None \<Rightarrow> ''Setup failed'') (Some (fs_name s)))\<rparr>
            | None \<Rightarrow> r)
      else r)"

definition with_preflight :: "result_contributions \<Rightarrow> command_result \<Rightarrow> command_result" where
  "with_preflight con r =
     (if rc_container_started con then r
      else (case cr_failure r of
              Some f \<Rightarrow>
                if fl_stage f = ''step'' \<and> fl_code f \<noteq> ''aborted'' then r\<lparr>cr_failure := Some (f\<lparr>fl_stage := ''preflight''\<rparr>)\<rparr> else r
            | None \<Rightarrow> r))"

definition blamed_step :: "result_contributions \<Rightarrow> failed_step option" where
  "blamed_step con =
     (let steps = rc_failed_steps con in
      if rc_workflow_outcome con = Some KindDone then last_failed FailedTeardown steps
      else (case last_failed FailedMain steps of
              Some s \<Rightarrow> Some s | None \<Rightarrow> if steps = [] then None else Some (last steps)))"

definition runs_agents :: "command_returned \<Rightarrow> bool" where
  "runs_agents res = (case res of Inr (WorkflowOutcome _ _) \<Rightarrow> True | Inr (PromptOutcome _) \<Rightarrow> True | _ \<Rightarrow> False)"

definition default_failure :: "command_returned \<Rightarrow> result_contributions \<Rightarrow> command_status_kind \<Rightarrow> command_failure" where
  "default_failure res con k =
     (case k of
        KindPaused \<Rightarrow> fail_with ''step'' ''paused'' ''Workflow paused'' None
      | KindAborted \<Rightarrow> fail_with ''step'' ''aborted'' ''Workflow aborted'' None
      | KindCancelled \<Rightarrow> fail_with ''step'' ''cancelled'' ''cancelled'' None
      | _ \<Rightarrow>
          (case blamed_step con of
             Some s \<Rightarrow>
               (let (stage, code) = (case fs_phase s of
                      FailedSetup \<Rightarrow> (''setup'', ''setup_failed'')
                    | FailedMain \<Rightarrow> (''step'', ''step_failed'')
                    | FailedTeardown \<Rightarrow> (''teardown'', ''teardown_failed'')) in
                fail_with stage code (''Step '' @ [sq] @ fs_name s @ [sq] @ '' failed'') (Some (fs_name s)))
           | None \<Rightarrow>
               fail_with ''step'' (if runs_agents res then ''step_failed'' else ''command_failed'')
                 (''Command exited with code '' @ int_string (returned_exit_code res)) None))"

definition with_reason :: "command_returned \<Rightarrow> result_contributions \<Rightarrow> command_result \<Rightarrow> command_result" where
  "with_reason res con r =
     (if build_outcome res con \<noteq> KindDone \<and> cr_failure r = None
      then (let reason = (case rc_workflow_failure con of Some f \<Rightarrow> f | None \<Rightarrow> default_failure res con (build_outcome res con)) in
            r\<lparr>cr_error := Some (fl_message reason), cr_failure := Some reason\<rparr>)
      else r)"

definition with_push :: "(push_back_error, push_back_outcome) result \<Rightarrow> command_result \<Rightarrow> command_result" where
  "with_push push r =
     (case push of
        Inr PushNotConfigured \<Rightarrow> r
      | Inr NothingToPush \<Rightarrow> r\<lparr>cr_pushed := Some None\<rparr>
      | Inr (Pushed p) \<Rightarrow> r\<lparr>cr_pushed := Some (Some p)\<rparr>
      | Inl (stage, message) \<Rightarrow>
          r\<lparr>cr_outcome := Some KindError, cr_exit_code := Some 1, cr_error := Some message, cr_error_status := Some 500,
            cr_stage := Some stage, cr_failure := Some (fail_with stage ''push_failed'' message None), cr_pushed := Some None\<rparr>)"

definition build_result ::
  "command_returned \<Rightarrow> (push_back_error, push_back_outcome) result \<Rightarrow> result_contributions \<Rightarrow> queued_result" where
  "build_result res push con =
     (let r1 = with_prerequisites res (build_start res con);
          r2 = with_reason res con (with_preflight con (with_setup_failure res con r1));
          r3 = (if rc_failed_steps con = [] then r2 else r2\<lparr>cr_failed_steps := Some (rc_failed_steps con)\<rparr>) in
      from_result (with_push push r3))"

subsection \<open>What the worker adds\<close>

definition with_worktree :: "string option \<Rightarrow> queued_result \<Rightarrow> queued_result" where
  "with_worktree p = map_queued_result (\<lambda>r. r\<lparr>cr_worktree_path := (case p of Some x \<Rightarrow> Some x | None \<Rightarrow> cr_worktree_path r)\<rparr>)"

definition cancelled_result :: "api_instant \<Rightarrow> queued_result \<Rightarrow> queued_result" where
  "cancelled_result requested = map_queued_result (\<lambda>r.
     r\<lparr>cr_outcome := Some KindCancelled,
       cr_failure := Some (fail_with (case cr_failure r of Some f \<Rightarrow> fl_stage f | None \<Rightarrow> ''step'') ''cancelled'' ''cancelled'' None),
       cr_exit_code := Some cancelled_code, cr_error := Some ''cancelled'', cr_cancelled_at := Some requested,
       cr_error_status := None, cr_stage := None\<rparr>)"

definition sidecar_of :: "nat \<Rightarrow> api_instant \<Rightarrow> queued_result \<Rightarrow> command_completion" where
  "sidecar_of k now q =
     \<lparr>cc_attempt = k, cc_status = qr_status q, cc_exit_code = qr_exit_code q, cc_result = qr_result q, cc_finished_at = now\<rparr>"

definition run_setup_error_result :: "(string \<times> string) option \<Rightarrow> string option \<Rightarrow> command_result" where
  "run_setup_error_result setup_error shown =
     default_result\<lparr>cr_exit_code := Some 1, cr_outcome := Some KindError,
       cr_failure := Some (fail_with ''setup'' ''setup_failed''
         (case setup_error of Some (_, m) \<Rightarrow> m | None \<Rightarrow> ''Session setup failed'') None),
       cr_error := Some ''setup_error'', cr_error_status := Some 409, cr_stage := Some ''setup'',
       cr_setup_error := Some (case shown of Some x \<Rightarrow> x | None \<Rightarrow> ''null'')\<rparr>"

text \<open>A workflow that paused has no exit code; only a real exit of 0 may be pushed.\<close>

definition only_successful_exit :: "command_returned \<Rightarrow> bool" where
  "only_successful_exit res =
     (case res of Inr (WorkflowOutcome c _) \<Rightarrow> c = Some 0 | Inr (PromptOutcome c) \<Rightarrow> c = Some 0 | _ \<Rightarrow> False)"

text \<open>A terminal row that lacks a structured result gets one, with what the row says.\<close>

definition repaired_result :: "outputs_summary \<Rightarrow> command_row \<Rightarrow> command_result" where
  "repaired_result outputs c =
     (let r = (case cm_result c of Some r \<Rightarrow> r | None \<Rightarrow> default_result);
          r1 = r\<lparr>cr_exit_code := (case cr_exit_code r of Some x \<Rightarrow> Some x | None \<Rightarrow> cm_exit c)\<rparr>;
          r2 = (if cr_outcome r1 = None then r1\<lparr>cr_outcome := terminal_wire_kind (cm_status c)\<rparr> else r1);
          r3 = (if cr_failure r2 = None \<and> cr_outcome r2 \<noteq> Some KindDone
                then (let was_cancelled = cr_outcome r2 = Some KindCancelled; in_setup = cr_setup_error r2 \<noteq> None in
                      r2\<lparr>cr_failure := Some (fail_with (if in_setup then ''setup'' else ''preflight'')
                        (if was_cancelled then ''cancelled'' else if in_setup then ''setup_failed'' else ''internal'')
                        (case cr_error r2 of Some m \<Rightarrow> m | None \<Rightarrow> if was_cancelled then ''cancelled'' else ''Command failed'') None)\<rparr>)
                else r2) in
      if cr_outputs r3 = None then r3\<lparr>cr_outputs := Some outputs\<rparr> else r3)"

subsection \<open>Coherence\<close>

definition coherent_result :: "queued_result \<Rightarrow> bool" where
  "coherent_result q \<longleftrightarrow>
     (let r = qr_result q in
      qr_status q = status_of_outcome (cr_outcome r) \<and> cr_exit_code r = Some (qr_exit_code q) \<and>
      (qr_status q = CmdDone \<longrightarrow> qr_exit_code q = 0 \<and> cr_failure r = None \<and> cr_error r = None) \<and>
      (qr_status q \<noteq> CmdDone \<longrightarrow> (\<exists>f. cr_failure r = Some f \<and> cr_error r = Some (fl_message f))))"

lemma build_outcome_simps:
  "build_outcome res con = KindDone \<Longrightarrow> returned_exit_code res = 0 \<and> \<not> isl res"
  by (auto simp: build_outcome_def Let_def split: sum.splits if_splits)

lemma status_done: "status_of_outcome k = CmdDone \<longleftrightarrow> k = Some KindDone"
  by (auto simp: status_of_outcome_def split: option.splits command_status_kind.splits)

text \<open>Before the push: what is recorded of a command that did not end well carries its reason.\<close>

definition reasoned :: "command_status_kind \<Rightarrow> command_result \<Rightarrow> bool" where
  "reasoned k r \<longleftrightarrow>
     cr_outcome r = Some k \<and>
     (k = KindDone \<longrightarrow> cr_failure r = None \<and> cr_error r = None \<and> cr_exit_code r = Some 0) \<and>
     (\<forall>f. cr_failure r = Some f \<longrightarrow> cr_error r = Some (fl_message f)) \<and> (cr_exit_code r \<noteq> None)"

lemma reasoned_start: "reasoned (build_outcome res con) (build_start res con)"
  using build_outcome_simps [of res con]
  by (auto simp: reasoned_def build_start_def default_result_def error_failure_def fail_with_def split: sum.splits)

lemma reasoned_prerequisites:
  "reasoned (build_outcome res con) r \<Longrightarrow> reasoned (build_outcome res con) (with_prerequisites res r)"
  using build_outcome_simps [of res con]
  by (auto simp: reasoned_def with_prerequisites_def error_failure_def fail_with_def returned_exit_code_def
      split: sum.splits command_outcome.splits option.splits)

lemma reasoned_setup: "reasoned k r \<Longrightarrow> reasoned k (with_setup_failure res con r)"
  by (auto simp: reasoned_def with_setup_failure_def fail_with_def split: option.splits)

lemma reasoned_preflight: "reasoned k r \<Longrightarrow> reasoned k (with_preflight con r)"
  by (auto simp: reasoned_def with_preflight_def split: option.splits)

lemma reasoned_reason:
  "reasoned (build_outcome res con) r \<Longrightarrow>
     reasoned (build_outcome res con) (with_reason res con r) \<and>
     (build_outcome res con \<noteq> KindDone \<longrightarrow> cr_failure (with_reason res con r) \<noteq> None)"
  by (auto simp: reasoned_def with_reason_def Let_def)

lemma build_coherent: "coherent_result (build_result res push con)"
proof -
  let ?k = "build_outcome res con"
  define r1 where "r1 = with_prerequisites res (build_start res con)"
  define r2 where "r2 = with_reason res con (with_preflight con (with_setup_failure res con r1))"
  define r3 where "r3 = (if rc_failed_steps con = [] then r2 else r2\<lparr>cr_failed_steps := Some (rc_failed_steps con)\<rparr>)"
  have "reasoned ?k r1" unfolding r1_def by (intro reasoned_prerequisites reasoned_start)
  then have "reasoned ?k r2 \<and> (?k \<noteq> KindDone \<longrightarrow> cr_failure r2 \<noteq> None)"
    unfolding r2_def by (intro reasoned_reason reasoned_preflight reasoned_setup)
  then have r3: "reasoned ?k r3" "?k \<noteq> KindDone \<Longrightarrow> cr_failure r3 \<noteq> None"
    by (auto simp: r3_def reasoned_def)
  have q: "build_result res push con = from_result (with_push push r3)"
    by (simp add: build_result_def Let_def r1_def r2_def r3_def)
  show ?thesis
  proof (cases push)
    case (Inl a)
    obtain st m where a: "a = (st, m)" by fastforce
    show ?thesis
      unfolding q by (simp add: coherent_result_def from_result_def with_push_def Inl a Let_def status_of_outcome_def fail_with_def)
  next
    case (Inr ok)
    then have p: "cr_outcome (with_push push r3) = cr_outcome r3" "cr_failure (with_push push r3) = cr_failure r3"
      "cr_error (with_push push r3) = cr_error r3" "cr_exit_code (with_push push r3) = cr_exit_code r3"
      by (auto simp: with_push_def split: push_back_outcome.splits)
    show ?thesis
      unfolding q coherent_result_def from_result_def Let_def
      using r3 by (cases "?k = KindDone") (auto simp: p reasoned_def status_done split: option.splits)
  qed
qed

lemma cancelled_coherent:
  "coherent_result (cancelled_result t q) \<and> qr_status (cancelled_result t q) = CmdCancelled \<and>
     qr_exit_code (cancelled_result t q) = cancelled_code"
  by (simp add: coherent_result_def cancelled_result_def map_queued_result_def from_result_def status_of_outcome_def Let_def fail_with_def)

text \<open>A repair keeps the status of a row whose result, if it has an outcome, agrees with it.\<close>

definition row_agrees :: "command_row \<Rightarrow> bool" where
  "row_agrees c \<longleftrightarrow>
     (case cm_result c of Some r \<Rightarrow> (case cr_outcome r of Some k \<Rightarrow> status_of_outcome (Some k) = cm_status c | None \<Rightarrow> True) | None \<Rightarrow> True)"

lemma repair_keeps_status:
  assumes "command_is_terminal (cm_status c)" and "row_agrees c"
  shows "qr_status (from_result (repaired_result outputs c)) = cm_status c"
    and "cr_outcome (repaired_result outputs c) \<noteq> None"
proof -
  have o: "cr_outcome (repaired_result outputs c) =
      (case cm_result c of Some r \<Rightarrow> (case cr_outcome r of Some k \<Rightarrow> Some k | None \<Rightarrow> terminal_wire_kind (cm_status c))
       | None \<Rightarrow> terminal_wire_kind (cm_status c))"
    by (auto simp: repaired_result_def Let_def default_result_def split: option.splits)
  have w: "status_of_outcome (terminal_wire_kind (cm_status c)) = cm_status c" "terminal_wire_kind (cm_status c) \<noteq> None"
    using assms(1) by (auto simp: terminal_wire_kind_def status_of_outcome_def command_is_terminal_def)
  show "qr_status (from_result (repaired_result outputs c)) = cm_status c"
    using assms(2) w by (auto simp: from_result_def o row_agrees_def split: option.splits)
  show "cr_outcome (repaired_result outputs c) \<noteq> None"
    using w by (auto simp: o split: option.splits)
qed

end
