(* ===== verification/Api_Server.thy ===== *)
theory Api_Server
  imports Api_Store Api_Results
begin

text \<open>
  The command queue of the API server: \<open>src/command/commands/api_server/queue_worker.rs\<close>, \<open>cancel.rs\<close> and the
  recovery of \<open>runtime.rs\<close>. Workers, cancellations, submissions, crashes and restarts interleave at the grain of their
  statements. Any write can fail; what one of them finds on the disk is its input. The log is a record of the model: which
  attempts of which commands were started, and which completions became durable.
\<close>

subsection \<open>The server\<close>

datatype job_phase =
    JobWorking
  | JobDecided queued_result
  | JobNoted queued_result
  | JobStored queued_result bool
  | JobFinished

record job =
  jb_row :: command_row
  jb_phase :: job_phase

datatype server_event = Started string nat | Noted string nat

record api_server =
  sv_db :: api_db
  sv_notes :: "string \<Rightarrow> command_completion option"
  sv_tokens :: "(string \<times> bool) list"
  sv_jobs :: "job list"
  sv_up :: bool
  sv_log :: "server_event list"

definition fresh_server :: "api_db \<Rightarrow> api_server" where
  "fresh_server db = \<lparr>sv_db = db, sv_notes = (\<lambda>_. None), sv_tokens = [], sv_jobs = [], sv_up = True, sv_log = []\<rparr>"

subsection \<open>The registry of tokens\<close>

definition token_register :: "string \<Rightarrow> (string \<times> bool) list \<Rightarrow> (string \<times> bool) list" where
  "token_register i ts = (if i \<in> fst ` set ts then ts else ts @ [(i, False)])"

definition token_unregister :: "string \<Rightarrow> (string \<times> bool) list \<Rightarrow> (string \<times> bool) list" where
  "token_unregister i ts = filter (\<lambda>t. fst t \<noteq> i) ts"

definition token_registered :: "string \<Rightarrow> (string \<times> bool) list \<Rightarrow> bool" where
  "token_registered i ts \<longleftrightarrow> i \<in> fst ` set ts"

definition token_cancel :: "string \<Rightarrow> (string \<times> bool) list \<Rightarrow> (string \<times> bool) list" where
  "token_cancel i ts = map (\<lambda>t. if fst t = i then (i, True) else t) ts"

subsection \<open>Finalizing\<close>

text \<open>What a finalization meets: unreadable or stubborn files, refused writes, what the event log already holds.\<close>

record finalize_inputs =
  fi_unreadable :: bool
  fi_row_refused :: bool
  fi_logged :: bool
  fi_repair_refused :: bool
  fi_outputs :: outputs_summary
  fi_kept :: bool

definition finalize_unowned_command :: "finalize_inputs \<Rightarrow> string \<Rightarrow> api_instant \<Rightarrow> api_db \<Rightarrow> api_db" where
  "finalize_unowned_command fi i now db =
     (case get_command i db of
        None \<Rightarrow> db
      | Some c \<Rightarrow>
          if \<not> command_is_terminal (cm_status c) \<or> fi_logged fi then db
          else
            (let r = (case cm_result c of Some r \<Rightarrow> r | None \<Rightarrow> default_result) in
             if cr_outcome r \<noteq> None \<and> cr_outputs r \<noteq> None \<or> fi_repair_refused fi then db
             else
               (let q = from_result (repaired_result (fi_outputs fi) c) in
                complete_command i (qr_status q) (Some (qr_exit_code q)) (Some (qr_result q)) now db)))"

definition remove_note :: "finalize_inputs \<Rightarrow> string \<Rightarrow> api_server \<Rightarrow> api_server" where
  "remove_note fi i s = (if fi_kept fi then s else s\<lparr>sv_notes := (sv_notes s)(i := None)\<rparr>)"

definition finalize_running_from_sidecar ::
  "finalize_inputs \<Rightarrow> api_instant \<Rightarrow> command_row \<Rightarrow> api_server \<Rightarrow> (store_fault, bool) result \<times> api_server" where
  "finalize_running_from_sidecar fi now c s =
     (if fi_unreadable fi then (Inl (StoreOther ''unreadable''), s)
      else
        (case sv_notes s (cm_id c) of
           None \<Rightarrow> (Inr False, s)
         | Some k \<Rightarrow>
             if int (cc_attempt k) \<noteq> cm_attempt c then (Inr False, remove_note fi (cm_id c) s)
             else if fi_row_refused fi then (Inl (StoreOther ''refused''), s)
             else
               (case finalize_running_command (cm_id c) k (sv_db s) of
                  (False, _) \<Rightarrow> (Inr False, s)
                | (True, db) \<Rightarrow>
                    (Inr True, remove_note fi (cm_id c) (s\<lparr>sv_db := finalize_unowned_command fi (cm_id c) now db\<rparr>)))))"

text \<open>One row of the startup pass, with whether an error was met so far.\<close>

definition finalize_one ::
  "(string \<Rightarrow> finalize_inputs) \<Rightarrow> api_instant \<Rightarrow> command_row \<Rightarrow> bool \<times> api_server \<Rightarrow> bool \<times> api_server" where
  "finalize_one fi now c x =
     (case x of (failed, s) \<Rightarrow>
        if command_is_terminal (cm_status c)
        then (failed, if sv_notes s (cm_id c) = None \<and> \<not> fi_unreadable (fi (cm_id c)) then s else remove_note (fi (cm_id c)) (cm_id c) s)
        else if cm_status c = CmdRunning
        then (case finalize_running_from_sidecar (fi (cm_id c)) now c s of
                (Inl _, s') \<Rightarrow> (True, s')
              | (Inr _, s') \<Rightarrow> (failed, s'))
        else (failed, s))"

definition finalize_completed_from_sidecars ::
  "(string \<Rightarrow> finalize_inputs) \<Rightarrow> api_instant \<Rightarrow> api_server \<Rightarrow> bool \<times> api_server" where
  "finalize_completed_from_sidecars fi now s =
     (case fold (finalize_one fi now)
        (list_commands_filtered \<lparr>cf_session = None, cf_status = None, cf_labels = [],
           cf_limit = length (ad_commands (sv_db s))\<rparr> (sv_db s)) (False, s) of
        (failed, s') \<Rightarrow> (\<not> failed, s'))"

text \<open>
  The recovery of \<open>bootstrap\<close>: recorded completions, then recorded cancellations, then what was left running. An error
  of the first two refuses the start; one of the last is only logged.
\<close>

definition recover_queue ::
  "(string \<Rightarrow> finalize_inputs) \<Rightarrow> bool \<Rightarrow> bool \<Rightarrow> api_instant \<Rightarrow> api_server \<Rightarrow> bool \<times> api_server" where
  "recover_queue fi cancels_refused stale_refused now s =
     (case finalize_completed_from_sidecars fi now s of
        (False, s1) \<Rightarrow> (False, s1)
      | (True, s1) \<Rightarrow>
          if cancels_refused then (False, s1)
          else
            (let s2 = s1\<lparr>sv_db := snd (finalize_interrupted_cancellations now (sv_db s1))\<rparr>;
                 s3 = (if stale_refused then s2 else s2\<lparr>sv_db := snd (recover_stale_commands now (sv_db s2))\<rparr>) in
             (True, s3\<lparr>sv_up := True\<rparr>)))"

subsection \<open>Cancelling\<close>

text \<open>
  The end of \<open>CommandCanceller::cancel\<close> under the lock of the registry: the token of an owned command fires; one that
  nobody owns is finalized from its recorded completion, or cancelled.
\<close>

definition finalize_from_sidecar ::
  "finalize_inputs \<Rightarrow> api_instant \<Rightarrow> string \<Rightarrow> api_server \<Rightarrow> (store_fault, bool) result \<times> api_server" where
  "finalize_from_sidecar fi now i s =
     (case get_command i (sv_db s) of
        None \<Rightarrow> (Inr False, s)
      | Some c \<Rightarrow> if cm_status c \<noteq> CmdRunning then (Inr False, s) else finalize_running_from_sidecar fi now c s)"

definition cancel_or :: "finalize_inputs \<Rightarrow> api_instant \<Rightarrow> api_instant \<Rightarrow> string \<Rightarrow> api_server \<Rightarrow> api_server" where
  "cancel_or fi now requested i s =
     (if token_registered i (sv_tokens s) then s\<lparr>sv_tokens := token_cancel i (sv_tokens s)\<rparr>
      else
        (case finalize_from_sidecar fi now i s of
           (Inl _, s') \<Rightarrow> s'
         | (Inr True, s') \<Rightarrow> s'
         | (Inr False, s') \<Rightarrow> s'\<lparr>sv_db := snd (cancel_if_running i now requested (sv_db s'))\<rparr>))"

subsection \<open>The steps of a worker\<close>

definition set_job :: "string \<Rightarrow> job_phase \<Rightarrow> api_server \<Rightarrow> api_server" where
  "set_job i ph s = s\<lparr>sv_jobs := map (\<lambda>j. if cm_id (jb_row j) = i then j\<lparr>jb_phase := ph\<rparr> else j) (sv_jobs s)\<rparr>"

definition worker_claim :: "string \<Rightarrow> api_instant \<Rightarrow> api_server \<Rightarrow> api_server" where
  "worker_claim worker now s =
     (case claim_next_command worker now (sv_db s) of
        (None, _) \<Rightarrow> s
      | (Some c, db) \<Rightarrow>
          s\<lparr>sv_db := db, sv_tokens := token_register (cm_id c) (sv_tokens s),
            sv_jobs := sv_jobs s @ [\<lparr>jb_row = c, jb_phase = JobWorking\<rparr>],
            sv_log := Started (cm_id c) (nat (cm_attempt c)) # sv_log s\<rparr>)"

text \<open>The last look at the cancellation before the result is published; a failed look counts as none.\<close>

definition decided :: "bool \<Rightarrow> string \<Rightarrow> command_result \<Rightarrow> api_db \<Rightarrow> queued_result" where
  "decided unread i r db =
     (case (if unread then None else cancel_requested_at i db) of
        Some t \<Rightarrow> cancelled_result t (from_result r) | None \<Rightarrow> from_result r)"

definition worker_note :: "bool \<Rightarrow> api_instant \<Rightarrow> command_row \<Rightarrow> queued_result \<Rightarrow> api_server \<Rightarrow> api_server" where
  "worker_note ok now c q s =
     set_job (cm_id c) (JobNoted q)
       (if ok
        then s\<lparr>sv_notes := (sv_notes s)(cm_id c := Some (sidecar_of (nat (cm_attempt c)) now q)),
               sv_log := Noted (cm_id c) (nat (cm_attempt c)) # sv_log s\<rparr>
        else s)"

definition worker_store :: "bool \<Rightarrow> api_instant \<Rightarrow> command_row \<Rightarrow> queued_result \<Rightarrow> api_server \<Rightarrow> api_server" where
  "worker_store ok now c q s =
     set_job (cm_id c) (JobStored q ok)
       (if ok
        then s\<lparr>sv_db := complete_command (cm_id c) (qr_status q) (Some (qr_exit_code q)) (Some (qr_result q)) now (sv_db s),
               sv_log := Noted (cm_id c) (nat (cm_attempt c)) # sv_log s\<rparr>
        else s)"

definition worker_unnote :: "bool \<Rightarrow> command_row \<Rightarrow> bool \<Rightarrow> api_server \<Rightarrow> api_server" where
  "worker_unnote kept c persisted s =
     set_job (cm_id c) JobFinished
       (if persisted \<and> \<not> kept then s\<lparr>sv_notes := (sv_notes s)(cm_id c := None)\<rparr> else s)"

definition worker_release :: "command_row \<Rightarrow> api_server \<Rightarrow> api_server" where
  "worker_release c s =
     s\<lparr>sv_jobs := filter (\<lambda>j. cm_id (jb_row j) \<noteq> cm_id c) (sv_jobs s), sv_tokens := token_unregister (cm_id c) (sv_tokens s)\<rparr>"

definition attempts_fit :: "api_db \<Rightarrow> bool" where
  "attempts_fit db \<longleftrightarrow> list_all (\<lambda>c. cm_attempt c < 2 ^ 32 - 1) (ad_commands db)"

definition logged_ids :: "server_event list \<Rightarrow> string set" where
  "logged_ids l = (\<lambda>e. case e of Started i _ \<Rightarrow> i | Noted i _ \<Rightarrow> i) ` set l"

text \<open>
  One step of anything. Identifiers are fresh when they are made; a restart finds fewer than \<open>2 ^ 32 - 1\<close> attempts of
  every command.
\<close>

inductive server_step :: "api_server \<Rightarrow> api_server \<Rightarrow> bool" where
  submit: "sv_up s \<Longrightarrow> i \<notin> logged_ids (sv_log s) \<Longrightarrow> sv_notes s i = None \<Longrightarrow>
    enqueue_command_with_labels i sess sub args path labels now (sv_db s) = (Inr (), db) \<Longrightarrow>
    server_step s (s\<lparr>sv_db := db\<rparr>)"
| elsewhere: "ad_commands db = ad_commands (sv_db s) \<Longrightarrow> server_step s (s\<lparr>sv_db := db\<rparr>)"
| claim: "sv_up s \<Longrightarrow> server_step s (worker_claim worker now s)"
| decide: "j \<in> set (sv_jobs s) \<Longrightarrow> jb_phase j = JobWorking \<Longrightarrow>
    server_step s (set_job (cm_id (jb_row j)) (JobDecided (decided unread (cm_id (jb_row j)) r (sv_db s))) s)"
| note_it: "j \<in> set (sv_jobs s) \<Longrightarrow> jb_phase j = JobDecided q \<Longrightarrow> server_step s (worker_note ok now (jb_row j) q s)"
| store: "j \<in> set (sv_jobs s) \<Longrightarrow> jb_phase j = JobNoted q \<Longrightarrow> server_step s (worker_store ok now (jb_row j) q s)"
| unnote: "j \<in> set (sv_jobs s) \<Longrightarrow> jb_phase j = JobStored q ok \<Longrightarrow> server_step s (worker_unnote kept (jb_row j) ok s)"
| release: "j \<in> set (sv_jobs s) \<Longrightarrow> jb_phase j = JobFinished \<Longrightarrow> server_step s (worker_release (jb_row j) s)"
| cancel_queued: "sv_up s \<Longrightarrow> server_step s (s\<lparr>sv_db := snd (cancel_if_queued i now (sv_db s))\<rparr>)"
| cancel_asked: "sv_up s \<Longrightarrow> server_step s (s\<lparr>sv_db := request_cancel i now (sv_db s)\<rparr>)"
| cancel_done: "sv_up s \<Longrightarrow> server_step s (cancel_or fi now requested i s)"
| drain: "server_step s (s\<lparr>sv_db := snd (cancel_queued_for_session sess now (sv_db s))\<rparr>)"
| setup_failed: "server_step s (s\<lparr>sv_db := snd (fail_if_queued i now (run_setup_error_result e shown) (sv_db s))\<rparr>)"
| repair: "server_step s (s\<lparr>sv_db := finalize_unowned_command fi i now (sv_db s)\<rparr>)"
| crash: "server_step s (s\<lparr>sv_jobs := [], sv_tokens := [], sv_up := False\<rparr>)"
| purge: "\<not> sv_up s \<Longrightarrow> server_step s (s\<lparr>sv_db := snd (delete_closed_sessions_before cutoff (sv_db s))\<rparr>)"
| prune: "\<not> sv_up s \<Longrightarrow> server_step s (s\<lparr>sv_db := snd (prune_orphans (sv_db s))\<rparr>)"
| interrupted_row: "\<not> sv_up s \<Longrightarrow> cancel_requested_at i (sv_db s) = Some t \<Longrightarrow>
    server_step s (s\<lparr>sv_db := snd (update_commands (\<lambda>c. cm_id c = i \<and> \<not> command_is_terminal (cm_status c))
      (cancelled_row (Some t) now) (sv_db s))\<rparr>)"
| boot: "\<not> sv_up s \<Longrightarrow> attempts_fit (sv_db s) \<Longrightarrow> recover_queue fi cancels_refused stale_refused now s = (ok, s') \<Longrightarrow> server_step s s'"

inductive server_reaches :: "api_server \<Rightarrow> api_server \<Rightarrow> bool" where
  here_already: "server_reaches s s"
| one_more: "server_reaches s s1 \<Longrightarrow> server_step s1 s2 \<Longrightarrow> server_reaches s s2"

end
