(* ===== verification/Api_Safety.thy ===== *)
theory Api_Safety
  imports Api_Server
begin

text \<open>
  The invariant of the queue. A statement \<open>settles\<close> some rows when all it does to them is to end them, or to describe an
  ended one better; only a claim, a submission, the requeue of a restart and the purge do anything else.
\<close>

subsection \<open>Settling\<close>

definition row_ok :: "command_row \<Rightarrow> bool" where
  "row_ok c \<longleftrightarrow> (if command_is_terminal (cm_status c) then row_agrees c else cm_result c = None)"

definition settled :: "string set \<Rightarrow> command_row \<Rightarrow> command_row \<Rightarrow> bool" where
  "settled A c d \<longleftrightarrow>
     d = c \<or>
     cm_id c \<in> A \<and> cm_id d = cm_id c \<and> cm_session d = cm_session c \<and> cm_attempt d = cm_attempt c \<and>
     command_is_terminal (cm_status d) \<and> row_ok d \<and>
     (command_is_terminal (cm_status c) \<longrightarrow> cm_status d = cm_status c \<and> (\<forall>t. cm_finished c = Some t \<longrightarrow> cm_finished d = Some t))"

definition settles :: "string set \<Rightarrow> api_db \<Rightarrow> api_db \<Rightarrow> bool" where
  "settles A db db' \<longleftrightarrow>
     (\<exists>g. ad_commands db' = map g (ad_commands db) \<and> (\<forall>c \<in> set (ad_commands db). settled A c (g c)))"

definition rows_ok :: "api_db \<Rightarrow> bool" where
  "rows_ok db \<longleftrightarrow> distinct (map cm_id (ad_commands db)) \<and>
     (\<forall>c \<in> set (ad_commands db). row_ok c \<and> 1 \<le> cm_attempt c \<and> cm_attempt c < 2 ^ 32)"

lemma settled_same: "settled A c d \<Longrightarrow> cm_id d = cm_id c \<and> cm_session d = cm_session c \<and> cm_attempt d = cm_attempt c"
  by (auto simp: settled_def)

lemma settles_refl: "ad_commands db' = ad_commands db \<Longrightarrow> settles A db db'"
  unfolding settles_def by (rule exI [of _ id]) (simp add: settled_def)

lemma settled_trans: "settled A c d \<Longrightarrow> settled A d e \<Longrightarrow> settled A c e"
  unfolding settled_def by auto

lemma settles_trans: "settles A db db1 \<Longrightarrow> settles A db1 db2 \<Longrightarrow> settles A db db2"
proof -
  assume "settles A db db1" "settles A db1 db2"
  then obtain g h where g: "ad_commands db1 = map g (ad_commands db)" "\<And>c. c \<in> set (ad_commands db) \<Longrightarrow> settled A c (g c)"
    and h: "ad_commands db2 = map h (ad_commands db1)" "\<And>c. c \<in> set (ad_commands db1) \<Longrightarrow> settled A c (h c)"
    unfolding settles_def by blast
  have "settled A c (h (g c))" if "c \<in> set (ad_commands db)" for c
    using settled_trans [OF g(2) [OF that] h(2)] that g(1) by simp
  then show ?thesis
    unfolding settles_def using g(1) h(1) by (intro exI [of _ "h \<circ> g"]) simp
qed

lemma settled_mono: "settled A c d \<Longrightarrow> A \<subseteq> B \<Longrightarrow> settled B c d"
  by (auto simp: settled_def)

lemma settles_mono: "settles A db db' \<Longrightarrow> A \<subseteq> B \<Longrightarrow> settles B db db'"
  unfolding settles_def using settled_mono by blast

lemma settles_update:
  assumes "\<And>c. c \<in> set (ad_commands db) \<Longrightarrow> P c \<Longrightarrow> settled A c (f c)"
  shows "settles A db (snd (update_commands P f db))"
  unfolding settles_def update_commands_def
  by (rule exI [of _ "\<lambda>c. if P c then f c else c"]) (use assms in \<open>auto simp: settled_def\<close>)

lemma updated_row:
  "d \<in> set (ad_commands (snd (update_commands P f db))) \<Longrightarrow> \<exists>c \<in> set (ad_commands db). d = (if P c then f c else c)"
  by (auto simp: update_commands_def)

lemma settles_rows:
  assumes "settles A db db'"
  shows "map cm_id (ad_commands db') = map cm_id (ad_commands db)"
    and "d \<in> set (ad_commands db') \<Longrightarrow> \<exists>c \<in> set (ad_commands db). settled A c d"
    and "c \<in> set (ad_commands db) \<Longrightarrow> \<exists>d \<in> set (ad_commands db'). settled A c d"
proof -
  obtain g where g: "ad_commands db' = map g (ad_commands db)" "\<And>c. c \<in> set (ad_commands db) \<Longrightarrow> settled A c (g c)"
    using assms unfolding settles_def by blast
  show "map cm_id (ad_commands db') = map cm_id (ad_commands db)"
    using g settled_same by (auto intro!: map_cong simp: comp_def)
  show "d \<in> set (ad_commands db') \<Longrightarrow> \<exists>c \<in> set (ad_commands db). settled A c d" using g by auto
  show "c \<in> set (ad_commands db) \<Longrightarrow> \<exists>d \<in> set (ad_commands db'). settled A c d" using g by auto
qed

lemma settled_ok: "settled A c d \<Longrightarrow> row_ok c \<Longrightarrow> row_ok d"
  by (auto simp: settled_def)

lemma settles_rows_ok:
  assumes "settles A db db'" and "rows_ok db"
  shows "rows_ok db'"
  unfolding rows_ok_def
proof (intro conjI ballI)
  show "distinct (map cm_id (ad_commands db'))" using settles_rows(1) [OF assms(1)] assms(2) by (simp add: rows_ok_def)
  fix d assume "d \<in> set (ad_commands db')"
  then obtain c where c: "c \<in> set (ad_commands db)" "settled A c d" using settles_rows(2) [OF assms(1)] by blast
  then have "row_ok c" "1 \<le> cm_attempt c" "cm_attempt c < 2 ^ 32" using assms(2) by (simp_all add: rows_ok_def)
  then show "row_ok d" "1 \<le> cm_attempt d" "cm_attempt d < 2 ^ 32"
    using settled_ok [OF c(2)] settled_same [OF c(2)] by simp_all
qed

subsection \<open>What settles\<close>

lemma row_ok_simps:
  "\<not> command_is_terminal (cm_status c) \<Longrightarrow> row_ok c \<Longrightarrow> cm_result c = None"
  "cm_result d = None \<Longrightarrow> row_ok d" "command_is_terminal (cm_status c) \<Longrightarrow> row_ok c \<Longrightarrow> row_agrees c"
  by (simp_all add: row_ok_def row_agrees_def)

lemma status_terminal: "command_is_terminal (status_of_outcome k)"
  by (auto simp: status_of_outcome_def command_is_terminal_def split: option.splits command_status_kind.splits)

lemma claimable_open: "command_is_claimable x \<Longrightarrow> \<not> command_is_terminal x" "\<not> command_is_terminal CmdRunning" "\<not> command_is_claimable CmdRunning"
  by (auto simp: command_is_claimable_def command_is_terminal_def)

lemma status_cases: "command_is_terminal x \<or> command_is_claimable x \<or> x = CmdRunning"
  by (cases x) (simp_all add: command_is_terminal_def command_is_claimable_def)

lemma settles_cancelled:
  assumes "\<And>c. P c \<Longrightarrow> \<not> command_is_terminal (cm_status c) \<and> cm_id c \<in> A"
  shows "settles A db (snd (update_commands P (cancelled_row t now) db))"
  by (rule settles_update)
    (use assms in \<open>auto simp: settled_def cancelled_row_def command_is_terminal_def row_ok_def row_agrees_def
       cancelled_result_json_def default_result_def\<close>)

lemma settles_cancel_if: "settles {i} db (snd (cancel_if_queued i now db))" "settles {i} db (snd (cancel_if_running i now t db))"
  unfolding cancel_if_queued_def cancel_if_running_def
  by (auto intro!: settles_cancelled simp: claimable_open)

lemma settles_interrupted: "settles UNIV db (snd (finalize_interrupted_cancellations now db))"
  unfolding settles_def finalize_interrupted_cancellations_def
  by (rule exI [of _ "\<lambda>c. if interrupted db c then cancelled_row (cancel_requested_at (cm_id c) db) now c else c"])
    (auto simp: settled_def interrupted_def cancelled_row_def command_is_terminal_def row_ok_def row_agrees_def
       cancelled_result_json_def default_result_def)

lemma settles_drain:
  assumes "rows_ok db"
  shows "settles {cm_id c | c. c \<in> set (ad_commands db) \<and> command_is_claimable (cm_status c)} db
    (snd (cancel_queued_for_session sess now db))"
proof -
  have cancelled: "settled A c (c\<lparr>cm_status := CmdCancelled, cm_finished := Some now\<rparr>)"
    if "c \<in> set (ad_commands db)" "command_is_claimable (cm_status c)" "cm_id c \<in> A" for c A
  proof -
    have "cm_result c = None" using assms that(1,2) by (auto simp: rows_ok_def row_ok_def claimable_open)
    then show ?thesis
      using that claimable_open(1) [OF that(2)] by (simp add: settled_def row_ok_def row_agrees_def command_is_terminal_def)
  qed
  show ?thesis
    unfolding cancel_queued_for_session_def Let_def snd_conv
    by (rule settles_update, rule cancelled) auto
qed

lemma settles_fail: "settles {i} db (snd (fail_if_queued i now (run_setup_error_result x shown) db))"
  unfolding fail_if_queued_def
  by (rule settles_update)
    (auto simp: settled_def row_ok_def row_agrees_def run_setup_error_result_def default_result_def status_of_outcome_def
       command_is_terminal_def command_is_claimable_def)

lemma settles_complete:
  assumes "st = status_of_outcome (cr_outcome r)"
    and "\<And>c. c \<in> set (ad_commands db) \<Longrightarrow> cm_id c = i \<Longrightarrow> command_is_terminal (cm_status c) \<Longrightarrow> st = cm_status c"
  shows "settles {i} db (complete_command i st (Some x) (Some r) now db)"
  unfolding complete_command_def
  by (rule settles_update)
    (use assms status_terminal in \<open>auto simp: settled_def row_ok_def row_agrees_def split: option.splits\<close>)

lemma get_command_row: "get_command i db = Some c \<Longrightarrow> \<exists>c0 \<in> set (ad_commands db). cm_id c0 = i \<and> c = command_record_from_row c0"
  unfolding get_command_def by (auto simp: find_Some_iff)

lemma record_simps [simp]:
  "cm_id (command_record_from_row c) = cm_id c" "cm_session (command_record_from_row c) = cm_session c"
  "cm_result (command_record_from_row c) = cm_result c" "cm_exit (command_record_from_row c) = cm_exit c"
  "command_is_terminal (cm_status (command_record_from_row c)) = command_is_terminal (cm_status c)"
  "cm_status (command_record_from_row c) = CmdRunning \<longleftrightarrow> cm_status c = CmdRunning"
  by (simp_all add: command_record_from_row_def command_canonical_def command_is_terminal_def split: command_status.splits)

lemma record_attempt: "1 \<le> cm_attempt c \<Longrightarrow> cm_attempt c < 2 ^ 32 \<Longrightarrow> cm_attempt (command_record_from_row c) = cm_attempt c"
  by (simp add: command_record_from_row_def attempt_of_def)

lemma record_status: "command_is_terminal (cm_status c) \<Longrightarrow> cm_status (command_record_from_row c) = cm_status c"
  by (auto simp: command_record_from_row_def command_canonical_def command_is_terminal_def)

lemma rows_unique: "rows_ok db \<Longrightarrow> c \<in> set (ad_commands db) \<Longrightarrow> d \<in> set (ad_commands db) \<Longrightarrow> cm_id c = cm_id d \<Longrightarrow> c = d"
  unfolding rows_ok_def by (metis distinct_map inj_onD)

lemma settles_repair:
  assumes "rows_ok db"
  shows "settles {i} db (finalize_unowned_command fi i now db)"
proof (cases "get_command i db")
  case None
  then show ?thesis by (simp add: finalize_unowned_command_def settles_refl)
next
  case (Some c)
  obtain c0 where c0: "c0 \<in> set (ad_commands db)" "cm_id c0 = i" "c = command_record_from_row c0"
    using get_command_row [OF Some] by blast
  let ?r = "repaired_result (fi_outputs fi) c"
  have "settles {i} db (complete_command i (qr_status (from_result ?r)) (Some (qr_exit_code (from_result ?r)))
      (Some (qr_result (from_result ?r))) now db)" if t: "command_is_terminal (cm_status c)"
  proof (rule settles_complete)
    show "qr_status (from_result ?r) = status_of_outcome (cr_outcome (qr_result (from_result ?r)))"
      by (simp add: from_result_def)
    fix d assume d: "d \<in> set (ad_commands db)" "cm_id d = i"
    have "d = c0" using rows_unique [OF assms d(1) c0(1)] d(2) c0(2) by simp
    moreover have "cm_status c = cm_status c0" using record_status [of c0] t c0(3) by simp
    moreover have "row_agrees c"
      using assms c0 t \<open>cm_status c = cm_status c0\<close> unfolding rows_ok_def
      by (metis record_simps(3) row_agrees_def row_ok_simps(3))
    ultimately show "qr_status (from_result ?r) = cm_status d" using repair_keeps_status(1) [OF t] by simp
  qed
  then show ?thesis
    using Some by (auto simp: finalize_unowned_command_def Let_def settles_refl)
qed

lemma settles_finalize:
  assumes "cc_status k = status_of_outcome (cr_outcome (cc_result k))"
  shows "settles {i} db (snd (finalize_running_command i k db))"
  unfolding finalize_running_command_def
  by (rule settles_update)
    (use assms status_terminal [of "cr_outcome (cc_result k)"] in \<open>auto simp: settled_def row_ok_def row_agrees_def claimable_open split: option.splits\<close>)

end
