(* ===== verification/Api_Invariant.thy ===== *)
theory Api_Invariant
  imports Api_Safety
begin

text \<open>The invariant of the API server's queue, and that every step keeps it.\<close>

subsection \<open>The invariant\<close>

definition one_running :: "api_db \<Rightarrow> bool" where
  "one_running db \<longleftrightarrow>
     (\<forall>c \<in> set (ad_commands db). \<forall>d \<in> set (ad_commands db).
        cm_status c = CmdRunning \<and> cm_status d = CmdRunning \<and> cm_session c = cm_session d \<longrightarrow> c = d)"

text \<open>A completion that became durable: its row has ended, or a note of the running attempt says how.\<close>

definition durable :: "(string \<Rightarrow> command_completion option) \<Rightarrow> command_row \<Rightarrow> bool" where
  "durable notes c \<longleftrightarrow>
     command_is_terminal (cm_status c) \<or>
     cm_status c = CmdRunning \<and> (\<exists>k. notes (cm_id c) = Some k \<and> int (cc_attempt k) = cm_attempt c)"

fun noted_ids :: "server_event list \<Rightarrow> string set" where
  "noted_ids [] = {}"
| "noted_ids (Noted i _ # l) = insert i (noted_ids l)"
| "noted_ids (Started _ _ # l) = noted_ids l"

text \<open>What is started was not complete yet, and no attempt is started twice.\<close>

fun started_once :: "server_event list \<Rightarrow> bool" where
  "started_once [] \<longleftrightarrow> True"
| "started_once (Noted _ _ # l) \<longleftrightarrow> started_once l"
| "started_once (Started i k # l) \<longleftrightarrow> started_once l \<and> i \<notin> noted_ids l \<and> Started i k \<notin> set l"

definition notes_agree :: "(string \<Rightarrow> command_completion option) \<Rightarrow> bool" where
  "notes_agree notes \<longleftrightarrow> (\<forall>i k. notes i = Some k \<longrightarrow> cc_status k = status_of_outcome (cr_outcome (cc_result k)))"

definition log_agrees :: "server_event list \<Rightarrow> (string \<Rightarrow> command_completion option) \<Rightarrow> command_row \<Rightarrow> bool" where
  "log_agrees l notes c \<longleftrightarrow>
     (cm_id c \<in> noted_ids l \<longrightarrow> durable notes c) \<and>
     (\<forall>k. Started (cm_id c) k \<in> set l \<longrightarrow>
        int k \<le> cm_attempt c \<and> (command_is_claimable (cm_status c) \<longrightarrow> int k < cm_attempt c))"

fun phase_result :: "job_phase \<Rightarrow> queued_result option" where
  "phase_result (JobDecided q) = Some q"
| "phase_result (JobNoted q) = Some q"
| "phase_result (JobStored q _) = Some q"
| "phase_result _ = None"

definition unstored :: "job_phase \<Rightarrow> bool" where
  "unstored ph \<longleftrightarrow> (case ph of JobWorking \<Rightarrow> True | JobDecided _ \<Rightarrow> True | JobNoted _ \<Rightarrow> True | _ \<Rightarrow> False)"

text \<open>Of a job and the row of its command.\<close>

definition job_agrees :: "job \<Rightarrow> command_row \<Rightarrow> bool" where
  "job_agrees j c \<longleftrightarrow>
     (unstored (jb_phase j) \<longrightarrow> cm_status c = CmdRunning \<and> cm_attempt c = cm_attempt (jb_row j)) \<and>
     (\<forall>q. jb_phase j = JobStored q True \<longrightarrow> command_is_terminal (cm_status c)) \<and>
     \<not> command_is_claimable (cm_status c)"

definition job_ok :: "api_server \<Rightarrow> job \<Rightarrow> bool" where
  "job_ok s j \<longleftrightarrow>
     (\<forall>q. phase_result (jb_phase j) = Some q \<longrightarrow> qr_status q = status_of_outcome (cr_outcome (qr_result q))) \<and>
     (\<exists>k. Started (cm_id (jb_row j)) k \<in> set (sv_log s)) \<and>
     (unstored (jb_phase j) \<longrightarrow> cm_id (jb_row j) \<in> cm_id ` set (ad_commands (sv_db s))) \<and>
     (\<forall>c \<in> set (ad_commands (sv_db s)). cm_id c = cm_id (jb_row j) \<longrightarrow> job_agrees j c)"

definition job_ids :: "api_server \<Rightarrow> string list" where
  "job_ids s = map (\<lambda>j. cm_id (jb_row j)) (sv_jobs s)"

definition server_inv :: "api_server \<Rightarrow> bool" where
  "server_inv s \<longleftrightarrow>
     rows_ok (sv_db s) \<and> one_running (sv_db s) \<and> notes_agree (sv_notes s) \<and> started_once (sv_log s) \<and>
     (\<forall>c \<in> set (ad_commands (sv_db s)). log_agrees (sv_log s) (sv_notes s) c) \<and>
     distinct (job_ids s) \<and> fst ` set (sv_tokens s) = set (job_ids s) \<and> (\<not> sv_up s \<longrightarrow> sv_jobs s = []) \<and>
     (\<forall>j \<in> set (sv_jobs s). job_ok s j)"

lemma server_invI:
  assumes "rows_ok (sv_db s)" "one_running (sv_db s)" "notes_agree (sv_notes s)" "started_once (sv_log s)"
    "\<And>c. c \<in> set (ad_commands (sv_db s)) \<Longrightarrow> log_agrees (sv_log s) (sv_notes s) c"
    "distinct (job_ids s)" "fst ` set (sv_tokens s) = set (job_ids s)" "\<not> sv_up s \<Longrightarrow> sv_jobs s = []"
    "\<And>j. j \<in> set (sv_jobs s) \<Longrightarrow> job_ok s j"
  shows "server_inv s"
  using assms by (simp add: server_inv_def)

lemma server_invD:
  assumes "server_inv s"
  shows "rows_ok (sv_db s)" "one_running (sv_db s)" "notes_agree (sv_notes s)" "started_once (sv_log s)"
    "c \<in> set (ad_commands (sv_db s)) \<Longrightarrow> log_agrees (sv_log s) (sv_notes s) c"
    "distinct (job_ids s)" "fst ` set (sv_tokens s) = set (job_ids s)" "\<not> sv_up s \<Longrightarrow> sv_jobs s = []"
    "j \<in> set (sv_jobs s) \<Longrightarrow> job_ok s j"
  using assms by (simp_all add: server_inv_def)

subsection \<open>Steps that settle\<close>

definition busy :: "api_server \<Rightarrow> string \<Rightarrow> bool" where
  "busy s i \<longleftrightarrow> (\<exists>j \<in> set (sv_jobs s). cm_id (jb_row j) = i \<and> unstored (jb_phase j))"

lemma settled_log:
  assumes "settled A c d" and "log_agrees l notes c"
  shows "log_agrees l notes d"
  using assms by (auto simp: settled_def log_agrees_def durable_def claimable_open)

lemma settled_job: "settled A c d \<Longrightarrow> job_agrees j c \<Longrightarrow> (cm_id c \<in> A \<Longrightarrow> \<not> unstored (jb_phase j)) \<Longrightarrow> job_agrees j d"
  by (auto simp: settled_def job_agrees_def claimable_open)

lemma settles_running:
  assumes "settles A db db'" and "one_running db" and "rows_ok db"
  shows "one_running db'"
  unfolding one_running_def
proof (intro ballI impI)
  fix c d assume m: "c \<in> set (ad_commands db')" "d \<in> set (ad_commands db')"
    and r: "cm_status c = CmdRunning \<and> cm_status d = CmdRunning \<and> cm_session c = cm_session d"
  obtain c0 d0 where o: "c0 \<in> set (ad_commands db)" "settled A c0 c" "d0 \<in> set (ad_commands db)" "settled A d0 d"
    using settles_rows(2) [OF assms(1)] m by blast
  have "c = c0" "d = d0" using o(2,4) r by (auto simp: settled_def claimable_open)
  then show "c = d" using assms(2) o(1,3) r unfolding one_running_def by blast
qed

lemma inv_settles:
  assumes s: "server_inv s" and st: "settles A (sv_db s) db'"
    and free: "\<And>i. busy s i \<Longrightarrow> i \<notin> A"
  shows "server_inv (s\<lparr>sv_db := db'\<rparr>)"
proof (rule server_invI)
  note d = server_invD [OF s]
  show "rows_ok (sv_db (s\<lparr>sv_db := db'\<rparr>))" using settles_rows_ok [OF st d(1)] by simp
  show "one_running (sv_db (s\<lparr>sv_db := db'\<rparr>))" using settles_running [OF st d(2,1)] by simp
  show "log_agrees (sv_log (s\<lparr>sv_db := db'\<rparr>)) (sv_notes (s\<lparr>sv_db := db'\<rparr>)) c" if c: "c \<in> set (ad_commands (sv_db (s\<lparr>sv_db := db'\<rparr>)))" for c
  proof -
    have "c \<in> set (ad_commands db')" using c by simp
    then obtain c0 where c0: "c0 \<in> set (ad_commands (sv_db s))" "settled A c0 c" using settles_rows(2) [OF st] by blast
    show ?thesis using settled_log [OF c0(2) d(5) [OF c0(1)]] by simp
  qed
  show "job_ok (s\<lparr>sv_db := db'\<rparr>) j" if j: "j \<in> set (sv_jobs (s\<lparr>sv_db := db'\<rparr>))" for j
  proof -
    have jo: "job_ok s j" "j \<in> set (sv_jobs s)" using d(9) j by simp_all
    have ids: "cm_id ` set (ad_commands db') = cm_id ` set (ad_commands (sv_db s))"
      using settles_rows(1) [OF st] by (metis set_map)
    have "job_agrees j c" if c: "c \<in> set (ad_commands db')" "cm_id c = cm_id (jb_row j)" for c
    proof -
      obtain c0 where c0: "c0 \<in> set (ad_commands (sv_db s))" "settled A c0 c" using settles_rows(2) [OF st c(1)] by blast
      have i: "cm_id c0 = cm_id (jb_row j)" using settled_same [OF c0(2)] c(2) by simp
      then have "job_agrees j c0" using jo(1) c0(1) by (simp add: job_ok_def)
      moreover have "\<not> unstored (jb_phase j)" if a: "cm_id c0 \<in> A"
      proof
        assume "unstored (jb_phase j)"
        then have "busy s (cm_id c0)" unfolding busy_def using i jo(2) by auto
        then show False using free a by blast
      qed
      ultimately show ?thesis using settled_job [OF c0(2)] by blast
    qed
    then show ?thesis using jo(1) ids by (simp add: job_ok_def)
  qed
qed (use server_invD(3,4,6,7,8) [OF s] in \<open>simp_all add: job_ids_def\<close>)

lemma busy_running:
  assumes "server_inv s" and "busy s i" and "c \<in> set (ad_commands (sv_db s))" and "cm_id c = i"
  shows "cm_status c = CmdRunning"
proof -
  obtain j where j: "j \<in> set (sv_jobs s)" "cm_id (jb_row j) = i" "unstored (jb_phase j)" using assms(2) by (auto simp: busy_def)
  then have "job_ok s j" using server_invD(9) [OF assms(1)] by blast
  then show ?thesis using assms(3,4) j by (simp add: job_ok_def job_agrees_def)
qed

lemma busy_token: "server_inv s \<Longrightarrow> busy s i \<Longrightarrow> token_registered i (sv_tokens s)"
  using server_invD(7) [of s] by (auto simp: busy_def token_registered_def job_ids_def)

text \<open>A statement on claimable rows only, or on the ended row of one command.\<close>

lemma inv_settles_open:
  assumes "server_inv s" and "settles A (sv_db s) db'"
    and "\<And>c. c \<in> set (ad_commands (sv_db s)) \<Longrightarrow> cm_id c \<in> A \<Longrightarrow> cm_status c \<noteq> CmdRunning"
  shows "server_inv (s\<lparr>sv_db := db'\<rparr>)"
proof -
  let ?B = "A - {i. busy s i}"
  obtain g where g: "ad_commands db' = map g (ad_commands (sv_db s))" "\<And>c. c \<in> set (ad_commands (sv_db s)) \<Longrightarrow> settled A c (g c)"
    using assms(2) unfolding settles_def by blast
  have "settled ?B c (g c)" if c: "c \<in> set (ad_commands (sv_db s))" for c
  proof (cases "busy s (cm_id c)")
    case True
    have "cm_id c \<notin> A" using busy_running [OF assms(1) True c] assms(3) [OF c] by blast
    then show ?thesis using g(2) [OF c] by (auto simp: settled_def)
  qed (use g(2) [OF c] in \<open>auto simp: settled_def\<close>)
  then have "settles ?B (sv_db s) db'" unfolding settles_def using g(1) by blast
  then show ?thesis by (rule inv_settles [OF assms(1)]) simp
qed

subsection \<open>Submissions and claims\<close>

lemma enqueued:
  assumes "enqueue_command_with_labels i sess sub args path labels now db = (Inr (), db')"
  shows "ad_commands db' = ad_commands db @ [new_command i sess sub args path (Some now)]"
    and "i \<notin> cm_id ` set (ad_commands db)"
  using assms
  by (auto simp: enqueue_command_with_labels_def set_labels_def delete_labels_def enqueue_command_def insert_command_row_def
      Let_def new_command_def split: if_splits)

lemma noted_logged: "noted_ids l \<subseteq> logged_ids l" "Started i k \<in> set l \<Longrightarrow> i \<in> logged_ids l"
  by (induction l rule: noted_ids.induct) (auto simp: logged_ids_def)

lemma inv_submit:
  assumes s: "server_inv s" and i: "i \<notin> logged_ids (sv_log s)"
    and q: "enqueue_command_with_labels i sess sub args path labels now (sv_db s) = (Inr (), db)"
  shows "server_inv (s\<lparr>sv_db := db\<rparr>)"
proof (rule server_invI)
  note d = server_invD [OF s]
  let ?c = "new_command i sess sub args path (Some now)"
  have c: "cm_id ?c = i" "cm_status ?c = CmdQueued" "row_ok ?c" "cm_attempt ?c = 1"
    by (simp_all add: new_command_def row_ok_def command_is_terminal_def)
  have rows: "set (ad_commands db) = insert ?c (set (ad_commands (sv_db s)))" using enqueued(1) [OF q] by auto
  show "rows_ok (sv_db (s\<lparr>sv_db := db\<rparr>))"
    using d(1) enqueued [OF q] c by (auto simp: rows_ok_def)
  show "one_running (sv_db (s\<lparr>sv_db := db\<rparr>))"
    using d(2) c(2) by (auto simp: one_running_def rows)
  have "log_agrees (sv_log s) (sv_notes s) ?c"
    using noted_logged i by (auto simp: log_agrees_def c(1))
  then show "log_agrees (sv_log (s\<lparr>sv_db := db\<rparr>)) (sv_notes (s\<lparr>sv_db := db\<rparr>)) r"
    if "r \<in> set (ad_commands (sv_db (s\<lparr>sv_db := db\<rparr>)))" for r
    using that d(5) by (auto simp: rows)
  show "job_ok (s\<lparr>sv_db := db\<rparr>) j" if "j \<in> set (sv_jobs (s\<lparr>sv_db := db\<rparr>))" for j
  proof -
    have j: "job_ok s j" using that d(9) by simp
    then have "cm_id (jb_row j) \<noteq> i" using i noted_logged(2) by (auto simp: job_ok_def)
    then show ?thesis using j c(1) by (auto simp: job_ok_def rows)
  qed
qed (use server_invD(3,4,6,7,8) [OF s] in \<open>simp_all add: job_ids_def\<close>)

lemma next_eligible_row:
  assumes "next_eligible db = Some c"
  shows "c \<in> set (ad_commands db)" and "eligible db c"
proof -
  obtain l where l: "sort_key queue_rank (filter (eligible db) (ad_commands db)) = c # l"
    using assms by (auto simp: next_eligible_def split: list.splits)
  have "c \<in> set (c # l)" by simp
  then have "c \<in> set (filter (eligible db) (ad_commands db))" by (metis l set_sort)
  then show "c \<in> set (ad_commands db)" and "eligible db c" by simp_all
qed

definition claimed_row :: "string \<Rightarrow> api_instant \<Rightarrow> command_row \<Rightarrow> command_row" where
  "claimed_row worker now c = c\<lparr>cm_status := CmdRunning, cm_worker := Some worker, cm_started := Some now\<rparr>"

lemma claim_cases:
  obtains "next_eligible (sv_db s) = None" "worker_claim worker now s = s"
  | c where "next_eligible (sv_db s) = Some c"
    "worker_claim worker now s = s\<lparr>
       sv_db := snd (update_commands (\<lambda>r. cm_id r = cm_id c) (claimed_row worker now) (sv_db s)),
       sv_tokens := token_register (cm_id c) (sv_tokens s),
       sv_jobs := sv_jobs s @ [\<lparr>jb_row = command_record_from_row (claimed_row worker now c), jb_phase = JobWorking\<rparr>],
       sv_log := Started (cm_id c) (nat (cm_attempt (command_record_from_row (claimed_row worker now c)))) # sv_log s\<rparr>"
proof (cases "next_eligible (sv_db s)")
  case None
  then show ?thesis using that(1) by (simp add: worker_claim_def claim_next_command_def)
next
  case (Some c)
  have f: "(\<lambda>r. r\<lparr>cm_status := CmdRunning, cm_worker := Some worker, cm_started := Some now\<rparr>) = claimed_row worker now"
    by (simp add: fun_eq_iff claimed_row_def)
  have i: "cm_id (claimed_row worker now c) = cm_id c" by (simp add: claimed_row_def)
  show ?thesis
    by (rule that(2) [OF Some]) (simp add: worker_claim_def claim_next_command_def Some f Let_def i)
qed

lemma claimed_simps [simp]:
  "cm_id (claimed_row worker now c) = cm_id c" "cm_session (claimed_row worker now c) = cm_session c"
  "cm_attempt (claimed_row worker now c) = cm_attempt c" "cm_status (claimed_row worker now c) = CmdRunning"
  "cm_result (claimed_row worker now c) = cm_result c"
  by (simp_all add: claimed_row_def)

lemma inv_claim:
  assumes s: "server_inv s" and up: "sv_up s"
  shows "server_inv (worker_claim worker now s)"
proof (cases rule: claim_cases [of s worker now])
  case (2 c)
  note d = server_invD [OF s]
  let ?db = "snd (update_commands (\<lambda>r. cm_id r = cm_id c) (claimed_row worker now) (sv_db s))"
  let ?c = "claimed_row worker now c" and ?s = "worker_claim worker now s"
  let ?j = "\<lparr>jb_row = command_record_from_row ?c, jb_phase = JobWorking\<rparr>"
  have c: "c \<in> set (ad_commands (sv_db s))" "command_is_claimable (cm_status c)"
    "\<And>r. r \<in> set (ad_commands (sv_db s)) \<Longrightarrow> cm_session r = cm_session c \<Longrightarrow> cm_status r \<noteq> CmdRunning"
    using next_eligible_row [OF 2(1)] by (auto simp: eligible_def list_ex_iff)
  have range: "1 \<le> cm_attempt c" "cm_attempt c < 2 ^ 32" "row_ok c" using d(1) c(1) by (auto simp: rows_ok_def)
  have open_result: "cm_result c = None" using range(3) claimable_open(1) [OF c(2)] by (simp add: row_ok_def)
  have att: "cm_attempt (command_record_from_row ?c) = cm_attempt c" using record_attempt [of ?c] range by simp
  have rows: "ad_commands ?db = map (\<lambda>r. if r = c then ?c else r) (ad_commands (sv_db s))"
    using rows_unique [OF d(1) _ c(1)] by (auto simp: update_commands_def)
  have other: "r \<in> set (ad_commands ?db) \<Longrightarrow> r = ?c \<or> r \<in> set (ad_commands (sv_db s)) \<and> r \<noteq> c \<and> cm_id r \<noteq> cm_id c" for r
    using rows_unique [OF d(1) _ c(1)] by (auto simp: rows split: if_splits)
  have la: "log_agrees (sv_log s) (sv_notes s) c" using d(5) c(1) by blast
  have not_noted: "cm_id c \<notin> noted_ids (sv_log s)"
    using la c(2) by (auto simp: log_agrees_def durable_def claimable_open)
  have no_job: "cm_id c \<notin> set (job_ids s)"
  proof
    assume "cm_id c \<in> set (job_ids s)"
    then obtain j where j: "j \<in> set (sv_jobs s)" "cm_id (jb_row j) = cm_id c" by (auto simp: job_ids_def)
    have "job_agrees j c" using d(9) [OF j(1)] c(1) j(2) by (simp add: job_ok_def)
    then show False using c(2) by (simp add: job_agrees_def)
  qed
  have st: "?s = s\<lparr>sv_db := ?db, sv_tokens := token_register (cm_id c) (sv_tokens s), sv_jobs := sv_jobs s @ [?j],
      sv_log := Started (cm_id c) (nat (cm_attempt c)) # sv_log s\<rparr>"
    using 2(2) att by simp
  show ?thesis
  proof (rule server_invI)
    have names: "map cm_id (ad_commands ?db) = map cm_id (ad_commands (sv_db s))" by (auto simp: rows)
    moreover have "row_ok r \<and> 1 \<le> cm_attempt r \<and> cm_attempt r < 2 ^ 32" if r: "r \<in> set (ad_commands ?db)" for r
    proof -
      consider "r = ?c" | "r \<in> set (ad_commands (sv_db s))" using other [OF r] by blast
      then show ?thesis
      proof cases
        case 1
        then show ?thesis using range(1,2) open_result by (simp add: row_ok_simps(2))
      next
        case 2
        then show ?thesis using d(1) by (simp add: rows_ok_def)
      qed
    qed
    ultimately show "rows_ok (sv_db ?s)" using d(1) by (simp add: st rows_ok_def)
    show "one_running (sv_db ?s)"
      unfolding one_running_def
    proof (intro ballI impI)
      fix x y assume m: "x \<in> set (ad_commands (sv_db ?s))" "y \<in> set (ad_commands (sv_db ?s))"
        and r: "cm_status x = CmdRunning \<and> cm_status y = CmdRunning \<and> cm_session x = cm_session y"
      have "x = ?c \<or> x \<in> set (ad_commands (sv_db s))" "y = ?c \<or> y \<in> set (ad_commands (sv_db s))"
        using other m by (auto simp: st)
      then show "x = y" using r c(3) d(2) by (auto simp: one_running_def)
    qed
    show "log_agrees (sv_log ?s) (sv_notes ?s) r" if r: "r \<in> set (ad_commands (sv_db ?s))" for r
    proof -
      consider "r = ?c" | "r \<in> set (ad_commands (sv_db s))" "cm_id r \<noteq> cm_id c" using other r by (auto simp: st)
      then show ?thesis
      proof cases
        case 1
        then show ?thesis using la not_noted range(1) c(2) by (auto simp: st log_agrees_def claimable_open)
      next
        case 2
        then show ?thesis using d(5) by (auto simp: st log_agrees_def)
      qed
    qed
    have "int (nat (cm_attempt c)) = cm_attempt c" using range(1) by simp
    then have "Started (cm_id c) (nat (cm_attempt c)) \<notin> set (sv_log s)"
      using la c(2) unfolding log_agrees_def by (metis less_irrefl)
    then show "started_once (sv_log ?s)" using d(4) not_noted by (simp add: st)
    show "distinct (job_ids ?s)" using d(6) no_job by (simp add: st job_ids_def)
    show "fst ` set (sv_tokens ?s) = set (job_ids ?s)"
      using d(7) no_job by (auto simp: st job_ids_def token_register_def)
    show "\<not> sv_up ?s \<Longrightarrow> sv_jobs ?s = []" using up by (simp add: st)
    show "job_ok ?s j" if j: "j \<in> set (sv_jobs ?s)" for j
    proof (cases "j = ?j")
      case True
      have "?c \<in> set (ad_commands ?db)" using c(1) by (auto simp: rows image_iff intro!: bexI [of _ c])
      moreover have "job_agrees ?j r" if "r \<in> set (ad_commands ?db)" "cm_id r = cm_id c" for r
        using other [OF that(1)] that(2) att by (auto simp: job_agrees_def claimable_open)
      ultimately show ?thesis by (auto simp: True st job_ok_def image_iff intro!: bexI [of _ ?c])
    next
      case False
      then have old: "j \<in> set (sv_jobs s)" using j by (simp add: st)
      have jo: "job_ok s j" using d(9) old by blast
      have "cm_id (jb_row j) \<in> set (job_ids s)" using old by (simp add: job_ids_def)
      then have i: "cm_id (jb_row j) \<noteq> cm_id c" using no_job by metis
      have ids: "cm_id ` set (ad_commands ?db) = cm_id ` set (ad_commands (sv_db s))"
        using arg_cong [OF names, of set] by (simp only: set_map)
      have "job_agrees j r" if "r \<in> set (ad_commands ?db)" "cm_id r = cm_id (jb_row j)" for r
        using other [OF that(1)] that(2) i jo by (auto simp: job_ok_def)
      then show ?thesis using jo ids by (auto simp: st job_ok_def)
    qed
    show "notes_agree (sv_notes ?s)" using d(3) by (simp add: st)
  qed
qed (use s in simp)

end
