(* ===== verification/Api_Steps.thy ===== *)
theory Api_Steps
  imports Api_Invariant
begin

text \<open>Every step of the API server keeps the invariant of its queue, and what a restart establishes besides.\<close>

subsection \<open>The steps of a worker\<close>

definition coherent :: "queued_result \<Rightarrow> bool" where
  "coherent q \<longleftrightarrow> qr_status q = status_of_outcome (cr_outcome (qr_result q))"

lemma job_ok_phase:
  assumes "job_ok s j" and "unstored ph \<Longrightarrow> unstored (jb_phase j)" and "\<And>q. ph \<noteq> JobStored q True"
    and "\<And>q. phase_result ph = Some q \<Longrightarrow> coherent q"
  shows "job_ok s (j\<lparr>jb_phase := ph\<rparr>)"
  using assms unfolding job_ok_def job_agrees_def coherent_def by simp

lemma job_ok_cong:
  "ad_commands (sv_db t) = ad_commands (sv_db s) \<Longrightarrow> set (sv_log s) \<subseteq> set (sv_log t) \<Longrightarrow> job_ok s j \<Longrightarrow> job_ok t j"
  by (auto simp: job_ok_def)

lemma set_job_simps [simp]:
  "sv_db (set_job i ph s) = sv_db s" "sv_notes (set_job i ph s) = sv_notes s" "sv_tokens (set_job i ph s) = sv_tokens s"
  "sv_up (set_job i ph s) = sv_up s" "sv_log (set_job i ph s) = sv_log s" "job_ids (set_job i ph s) = job_ids s"
  by (simp_all add: set_job_def job_ids_def comp_def if_distrib cong: if_cong)

lemma set_job_over:
  "set_job i ph ((set_job i ph' s)\<lparr>sv_db := db, sv_notes := sv_notes s, sv_log := l\<rparr>) = set_job i ph (s\<lparr>sv_db := db, sv_log := l\<rparr>)"
proof -
  have "(\<lambda>j. if cm_id (jb_row j) = i then j\<lparr>jb_phase := ph\<rparr> else j) \<circ> (\<lambda>j. if cm_id (jb_row j) = i then j\<lparr>jb_phase := ph'\<rparr> else j) =
      (\<lambda>j. if cm_id (jb_row j) = i then j\<lparr>jb_phase := ph\<rparr> else j)"
    (is "?f \<circ> ?g = ?f") by (rule ext) simp
  then have "map ?f (map ?g (sv_jobs s)) = map ?f (sv_jobs s)" unfolding map_map by (rule arg_cong)
  then show ?thesis
    unfolding set_job_def by (cases s) (simp only: api_server.select_convs api_server.update_convs)
qed

lemma set_job_phase:
  assumes "k \<in> set (sv_jobs (set_job i ph s))" and "cm_id (jb_row k) = i"
  shows "jb_phase k = ph"
proof -
  have "k \<in> (\<lambda>j. if cm_id (jb_row j) = i then j\<lparr>jb_phase := ph\<rparr> else j) ` set (sv_jobs s)"
    using assms(1) by (simp add: set_job_def del: if_image_distrib)
  then obtain j0 where "k = (if cm_id (jb_row j0) = i then j0\<lparr>jb_phase := ph\<rparr> else j0)" by (rule imageE)
  then show ?thesis using assms(2) by (cases "cm_id (jb_row j0) = i") simp_all
qed

lemma inv_set_job:
  assumes s: "server_inv s"
    and ph: "\<And>j. j \<in> set (sv_jobs s) \<Longrightarrow> cm_id (jb_row j) = i \<Longrightarrow> job_ok s (j\<lparr>jb_phase := ph\<rparr>)"
  shows "server_inv (set_job i ph s)"
proof (rule server_invI)
  show "\<not> sv_up (set_job i ph s) \<Longrightarrow> sv_jobs (set_job i ph s) = []"
    using server_invD(8) [OF s] by (simp add: set_job_def)
  show "job_ok (set_job i ph s) j" if j: "j \<in> set (sv_jobs (set_job i ph s))" for j
  proof -
    obtain j0 where j0: "j0 \<in> set (sv_jobs s)" "j = (if cm_id (jb_row j0) = i then j0\<lparr>jb_phase := ph\<rparr> else j0)"
      using j by (auto simp: set_job_def)
    have "job_ok s j" using j0 ph server_invD(9) [OF s] by simp
    then show ?thesis by (rule job_ok_cong [rotated 2]) simp_all
  qed
qed (use server_invD(1-7) [OF s] in simp_all)

lemma job_unique:
  assumes "server_inv s" "j \<in> set (sv_jobs s)" "j' \<in> set (sv_jobs s)" "cm_id (jb_row j) = cm_id (jb_row j')"
  shows "j = j'"
  using server_invD(6) [OF assms(1)] assms(2-) unfolding job_ids_def by (metis distinct_map inj_onD)

lemma inv_set_phase:
  assumes s: "server_inv s" and j: "j \<in> set (sv_jobs s)"
    and ph: "unstored ph \<Longrightarrow> unstored (jb_phase j)" "\<And>q. ph \<noteq> JobStored q True" "\<And>q. phase_result ph = Some q \<Longrightarrow> coherent q"
  shows "server_inv (set_job (cm_id (jb_row j)) ph s)"
proof (rule inv_set_job [OF s])
  fix j' assume "j' \<in> set (sv_jobs s)" "cm_id (jb_row j') = cm_id (jb_row j)"
  then have "j' = j" using job_unique [OF s] j by blast
  then show "job_ok s (j'\<lparr>jb_phase := ph\<rparr>)" using job_ok_phase [OF server_invD(9) [OF s j] ph] by simp
qed

lemma decided_coherent: "coherent (decided unread i r db)"
  by (simp add: coherent_def decided_def from_result_def cancelled_result_def map_queued_result_def Let_def split: option.splits)

lemma job_coherent: "server_inv s \<Longrightarrow> j \<in> set (sv_jobs s) \<Longrightarrow> phase_result (jb_phase j) = Some q \<Longrightarrow> coherent q"
  using server_invD(9) [of s j] by (simp add: job_ok_def coherent_def)

text \<open>A change of the notes and the log only.\<close>

lemma inv_notes:
  assumes s: "server_inv s" and n: "notes_agree notes" "started_once l" "set (sv_log s) \<subseteq> set l"
    and la: "\<And>c. c \<in> set (ad_commands (sv_db s)) \<Longrightarrow> log_agrees l notes c"
  shows "server_inv (s\<lparr>sv_notes := notes, sv_log := l\<rparr>)"
proof (rule server_invI)
  show "job_ok (s\<lparr>sv_notes := notes, sv_log := l\<rparr>) j" if j: "j \<in> set (sv_jobs (s\<lparr>sv_notes := notes, sv_log := l\<rparr>))" for j
  proof -
    have "job_ok s j" using server_invD(9) [OF s] j by simp
    then show ?thesis by (rule job_ok_cong [rotated 2]) (use n(3) in simp_all)
  qed
qed (use server_invD(1,2,6,7,8) [OF s] n la in \<open>simp_all add: job_ids_def\<close>)

lemma log_agrees_noted:
  assumes "log_agrees l notes c" and "cm_id c = i \<Longrightarrow> durable notes' c" and "cm_id c \<noteq> i \<Longrightarrow> notes' (cm_id c) = notes (cm_id c)"
  shows "log_agrees (Noted i k # l) notes' c"
proof (cases "cm_id c = i")
  case True
  then show ?thesis using assms(1,2) by (simp add: log_agrees_def)
next
  case False
  then show ?thesis using assms(1,3) by (simp add: log_agrees_def durable_def)
qed

lemma log_agrees_notes:
  assumes "log_agrees l notes c" and "cm_id c \<in> noted_ids l \<Longrightarrow> durable notes' c"
  shows "log_agrees l notes' c"
  using assms by (auto simp: log_agrees_def)

lemma busy_row:
  assumes s: "server_inv s" and j: "j \<in> set (sv_jobs s)" "unstored (jb_phase j)"
    and c: "c \<in> set (ad_commands (sv_db s))" "cm_id c = cm_id (jb_row j)"
  shows "cm_status c = CmdRunning" "cm_attempt c = cm_attempt (jb_row j)"
  using server_invD(9) [OF s j(1)] j(2) c by (auto simp: job_ok_def job_agrees_def)

lemma inv_note:
  assumes s: "server_inv s" and j: "j \<in> set (sv_jobs s)" "jb_phase j = JobDecided q"
  shows "server_inv (worker_note ok now (jb_row j) q s)"
proof -
  have q: "coherent q" using job_coherent [OF s j(1)] j(2) by simp
  let ?notes = "(sv_notes s)(cm_id (jb_row j) := Some (sidecar_of (nat (cm_attempt (jb_row j))) now q))"
  let ?l = "Noted (cm_id (jb_row j)) (nat (cm_attempt (jb_row j))) # sv_log s"
  have "server_inv (s\<lparr>sv_notes := ?notes, sv_log := ?l\<rparr>)"
  proof (rule inv_notes [OF s])
    show "notes_agree ?notes"
      using server_invD(3) [OF s] q by (auto simp: notes_agree_def coherent_def sidecar_of_def)
    show "started_once ?l" using server_invD(4) [OF s] by simp
    show "set (sv_log s) \<subseteq> set ?l" by auto
    fix c assume c: "c \<in> set (ad_commands (sv_db s))"
    show "log_agrees ?l ?notes c"
    proof (rule log_agrees_noted [OF server_invD(5) [OF s c]])
      assume i: "cm_id c = cm_id (jb_row j)"
      have "1 \<le> cm_attempt c" using server_invD(1) [OF s] c by (simp add: rows_ok_def)
      then show "durable ?notes c"
        using busy_row [OF s j(1) _ c i] j(2) i by (simp add: durable_def unstored_def sidecar_of_def)
    qed simp
  qed
  then have t: "server_inv (if ok then s\<lparr>sv_notes := ?notes, sv_log := ?l\<rparr> else s)" using s by simp
  show ?thesis
    unfolding worker_note_def
    by (rule inv_set_phase [OF t]) (use j q in \<open>auto simp: unstored_def\<close>)
qed

lemma complete_rows:
  assumes "c \<in> set (ad_commands (complete_command i st x r now db))" and "cm_id c = i"
  shows "cm_status c = st"
proof -
  obtain c0 where "c = (if cm_id c0 = i
      then c0\<lparr>cm_status := st, cm_exit := x, cm_finished := (case cm_finished c0 of Some t \<Rightarrow> Some t | None \<Rightarrow> Some now), cm_result := r\<rparr>
      else c0)"
    using updated_row [OF assms(1) [unfolded complete_command_def]] by blast
  then show ?thesis using assms(2) by (cases "cm_id c0 = i") simp_all
qed

lemma store_settles:
  assumes s: "server_inv s" and j: "j \<in> set (sv_jobs s)" "jb_phase j = JobNoted q"
  shows "settles {cm_id (jb_row j)} (sv_db s)
    (complete_command (cm_id (jb_row j)) (qr_status q) (Some (qr_exit_code q)) (Some (qr_result q)) now (sv_db s))"
proof (rule settles_complete)
  have "coherent q" using job_coherent [OF s j(1)] j(2) by simp
  then show "qr_status q = status_of_outcome (cr_outcome (qr_result q))" by (simp add: coherent_def)
  fix c assume c: "c \<in> set (ad_commands (sv_db s))" "cm_id c = cm_id (jb_row j)" "command_is_terminal (cm_status c)"
  then show "qr_status q = cm_status c"
    using busy_row(1) [OF s j(1) _ c(1,2)] j(2) claimable_open(2) by (simp add: unstored_def)
qed

lemma inv_store:
  assumes s: "server_inv s" and j: "j \<in> set (sv_jobs s)" "jb_phase j = JobNoted q"
  shows "server_inv (worker_store ok now (jb_row j) q s)"
proof -
  let ?i = "cm_id (jb_row j)"
  have q: "coherent q" using job_coherent [OF s j(1)] j(2) by simp
  have t: "server_inv (set_job ?i (JobStored q False) s)"
    by (rule inv_set_phase [OF s j(1)]) (use q in \<open>auto simp: unstored_def\<close>)
  show ?thesis
  proof (cases ok)
    case False
    then show ?thesis using t by (simp add: worker_store_def)
  next
    case True
    let ?t = "set_job ?i (JobStored q False) s"
    let ?db = "complete_command ?i (qr_status q) (Some (qr_exit_code q)) (Some (qr_result q)) now (sv_db s)"
    let ?l = "Noted ?i (nat (cm_attempt (jb_row j))) # sv_log s"
    have terminal: "command_is_terminal (qr_status q)" using q status_terminal by (simp add: coherent_def)
    have sett: "settles {?i} (sv_db ?t) ?db" using store_settles [OF s j] by simp
    have "server_inv (?t\<lparr>sv_db := ?db\<rparr>)"
    proof (rule inv_settles [OF t sett])
      fix i assume "busy ?t i"
      then obtain k where k: "k \<in> set (sv_jobs ?t)" "cm_id (jb_row k) = i" "unstored (jb_phase k)" unfolding busy_def by blast
      then have "jb_phase k = JobStored q False" if "i = ?i" using set_job_phase that by blast
      then show "i \<notin> {?i}" using k(3) by (auto simp: unstored_def)
    qed
    then have "server_inv (?t\<lparr>sv_db := ?db, sv_notes := sv_notes s, sv_log := ?l\<rparr>)"
    proof (rule inv_notes)
      show "notes_agree (sv_notes s)" by (rule server_invD(3) [OF s])
      show "started_once ?l" using server_invD(4) [OF s] by simp
      show "set (sv_log (?t\<lparr>sv_db := ?db\<rparr>)) \<subseteq> set ?l" by auto
      fix c assume c: "c \<in> set (ad_commands (sv_db (?t\<lparr>sv_db := ?db\<rparr>)))"
      have "log_agrees (sv_log s) (sv_notes s) c"
        using server_invD(5) [OF \<open>server_inv (?t\<lparr>sv_db := ?db\<rparr>)\<close> c] by simp
      then show "log_agrees ?l (sv_notes s) c"
      proof (rule log_agrees_noted)
        assume "cm_id c = ?i"
        then have "cm_status c = qr_status q" using complete_rows c by simp
        then show "durable (sv_notes s) c" using terminal by (simp add: durable_def)
      qed simp
    qed
    then have u: "server_inv (?t\<lparr>sv_db := ?db, sv_notes := sv_notes s, sv_log := ?l\<rparr>)" (is "server_inv ?u") .
    have "server_inv (set_job ?i (JobStored q True) ?u)"
    proof (rule inv_set_job [OF u])
      fix k assume k: "k \<in> set (sv_jobs ?u)" "cm_id (jb_row k) = ?i"
      have "job_ok ?u k" by (rule server_invD(9) [OF u k(1)])
      moreover have "command_is_terminal (cm_status c)" if "c \<in> set (ad_commands ?db)" "cm_id c = ?i" for c
        using complete_rows [OF that] terminal by simp
      ultimately show "job_ok ?u (k\<lparr>jb_phase := JobStored q True\<rparr>)"
        using q k(2) unfolding job_ok_def job_agrees_def coherent_def by (simp add: unstored_def)
    qed
    moreover have "set_job ?i (JobStored q True) ?u = worker_store ok now (jb_row j) q s"
      unfolding worker_store_def set_job_over using True by simp
    ultimately show ?thesis by simp
  qed
qed

lemma inv_remove_note:
  assumes s: "server_inv s"
    and t: "\<And>c. c \<in> set (ad_commands (sv_db s)) \<Longrightarrow> cm_id c = i \<Longrightarrow> i \<in> noted_ids (sv_log s) \<Longrightarrow> command_is_terminal (cm_status c)"
  shows "server_inv (s\<lparr>sv_notes := (sv_notes s)(i := None)\<rparr>)"
proof -
  have "server_inv (s\<lparr>sv_notes := (sv_notes s)(i := None), sv_log := sv_log s\<rparr>)"
  proof (rule inv_notes [OF s])
    show "notes_agree ((sv_notes s)(i := None))" using server_invD(3) [OF s] by (simp add: notes_agree_def)
    show "started_once (sv_log s)" by (rule server_invD(4) [OF s])
    fix c assume c: "c \<in> set (ad_commands (sv_db s))"
    have la: "log_agrees (sv_log s) (sv_notes s) c" by (rule server_invD(5) [OF s c])
    show "log_agrees (sv_log s) ((sv_notes s)(i := None)) c"
      by (rule log_agrees_notes [OF la]) (use t [OF c] la in \<open>auto simp: durable_def log_agrees_def\<close>)
  qed simp
  then show ?thesis by simp
qed

lemma inv_unnote:
  assumes s: "server_inv s" and j: "j \<in> set (sv_jobs s)" "jb_phase j = JobStored q ok"
  shows "server_inv (worker_unnote kept (jb_row j) ok s)"
proof -
  let ?i = "cm_id (jb_row j)"
  have "server_inv (s\<lparr>sv_notes := (sv_notes s)(?i := None)\<rparr>)" if ok
  proof (rule inv_remove_note [OF s])
    fix c assume "c \<in> set (ad_commands (sv_db s))" "cm_id c = ?i"
    then show "command_is_terminal (cm_status c)"
      using server_invD(9) [OF s j(1)] j(2) that by (auto simp: job_ok_def job_agrees_def)
  qed
  then have t: "server_inv (if ok \<and> \<not> kept then s\<lparr>sv_notes := (sv_notes s)(?i := None)\<rparr> else s)" using s by simp
  show ?thesis
    unfolding worker_unnote_def by (rule inv_set_phase [OF t]) (use j in \<open>auto simp: unstored_def\<close>)
qed

lemma inv_release:
  assumes s: "server_inv s"
  shows "server_inv (worker_release c s)"
proof (rule server_invI)
  show "fst ` set (sv_tokens (worker_release c s)) = set (job_ids (worker_release c s))"
    using server_invD(7) [OF s] by (force simp: worker_release_def token_unregister_def job_ids_def)
  show "distinct (job_ids (worker_release c s))"
    using server_invD(6) [OF s] by (simp add: worker_release_def job_ids_def distinct_map_filter)
  show "job_ok (worker_release c s) j" if j: "j \<in> set (sv_jobs (worker_release c s))" for j
  proof -
    have "job_ok s j" using server_invD(9) [OF s] j by (simp add: worker_release_def)
    then show ?thesis by (rule job_ok_cong [rotated 2]) (simp_all add: worker_release_def)
  qed
qed (use server_invD(1-5,8) [OF s] in \<open>simp_all add: worker_release_def\<close>)

end
