(* ===== verification/Api_Recovery.thy ===== *)
theory Api_Recovery
  imports Api_Steps
begin

text \<open>
  The steps of a cancellation, of a closing session, of a crash and of the restart, and that every reachable state of the
  API server has the invariant of its queue.
\<close>

subsection \<open>Statements on claimable rows\<close>

lemma inv_claimable:
  assumes s: "server_inv s" and P: "\<And>c. P c \<Longrightarrow> command_is_claimable (cm_status c)"
    and st: "settles A (sv_db s) (snd (update_commands P f (sv_db s)))"
  shows "server_inv (s\<lparr>sv_db := snd (update_commands P f (sv_db s))\<rparr>)"
proof -
  let ?A = "{cm_id c | c. c \<in> set (ad_commands (sv_db s)) \<and> command_is_claimable (cm_status c)}"
  obtain g where g: "ad_commands (snd (update_commands P f (sv_db s))) = map g (ad_commands (sv_db s))"
    "\<And>c. c \<in> set (ad_commands (sv_db s)) \<Longrightarrow> settled A c (g c)"
    using st unfolding settles_def by blast
  have "settled ?A c (f c)" if c: "c \<in> set (ad_commands (sv_db s))" "P c" for c
  proof -
    have "g c = (if P c then f c else c)" using g(1) c(1) by (simp add: update_commands_def)
    then have "settled A c (f c)" using g(2) [OF c(1)] c(2) by simp
    moreover have "cm_id c \<in> ?A" using P c by blast
    ultimately show ?thesis by (auto simp: settled_def)
  qed
  then have "settles ?A (sv_db s) (snd (update_commands P f (sv_db s)))" by (rule settles_update)
  then show ?thesis
  proof (rule inv_settles_open [OF s])
    fix c assume c: "c \<in> set (ad_commands (sv_db s))" "cm_id c \<in> ?A"
    then obtain d where d: "d \<in> set (ad_commands (sv_db s))" "cm_id c = cm_id d" "command_is_claimable (cm_status d)" by blast
    then have "c = d" using rows_unique [OF server_invD(1) [OF s] c(1)] by blast
    then show "cm_status c \<noteq> CmdRunning" using d(3) claimable_open(3) by auto
  qed
qed

lemma inv_drain:
  assumes s: "server_inv s"
  shows "server_inv (s\<lparr>sv_db := snd (cancel_queued_for_session sess now (sv_db s))\<rparr>)"
  using inv_claimable [OF s _ settles_drain [OF server_invD(1) [OF s], of sess now, unfolded cancel_queued_for_session_def Let_def snd_conv]]
  by (simp add: cancel_queued_for_session_def Let_def)

lemma inv_cancel_queued: "server_inv s \<Longrightarrow> server_inv (s\<lparr>sv_db := snd (cancel_if_queued i now (sv_db s))\<rparr>)"
  using settles_cancel_if(1) [of i "sv_db s" now] unfolding cancel_if_queued_def by (intro inv_claimable) auto

lemma inv_setup_failed:
  "server_inv s \<Longrightarrow> server_inv (s\<lparr>sv_db := snd (fail_if_queued i now (run_setup_error_result x shown) (sv_db s))\<rparr>)"
  using settles_fail [of i "sv_db s" now x shown] unfolding fail_if_queued_def by (intro inv_claimable) auto

lemma inv_same_rows: "server_inv s \<Longrightarrow> ad_commands db = ad_commands (sv_db s) \<Longrightarrow> server_inv (s\<lparr>sv_db := db\<rparr>)"
  by (rule inv_settles [where A = "{}"]) (simp_all add: settles_refl)

lemma inv_repair:
  assumes s: "server_inv s"
  shows "server_inv (s\<lparr>sv_db := finalize_unowned_command fi i now (sv_db s)\<rparr>)"
proof (cases "\<exists>c \<in> set (ad_commands (sv_db s)). cm_id c = i \<and> cm_status c = CmdRunning")
  case True
  then obtain c where c: "c \<in> set (ad_commands (sv_db s))" "cm_id c = i" "cm_status c = CmdRunning" by blast
  have "finalize_unowned_command fi i now (sv_db s) = sv_db s"
  proof (cases "get_command i (sv_db s)")
    case (Some d)
    then obtain d0 where d0: "d0 \<in> set (ad_commands (sv_db s))" "cm_id d0 = i" "d = command_record_from_row d0"
      using get_command_row by blast
    then have "d0 = c" using rows_unique [OF server_invD(1) [OF s] d0(1) c(1)] c(2) by simp
    then have "\<not> command_is_terminal (cm_status d)" using d0(3) c(3) claimable_open(2) by simp
    then show ?thesis using Some by (simp add: finalize_unowned_command_def)
  qed (simp add: finalize_unowned_command_def)
  then show ?thesis using s by simp
next
  case False
  then show ?thesis
    by (intro inv_settles_open [OF s settles_repair [OF server_invD(1) [OF s], of i fi now]]) auto
qed

subsection \<open>Completions recorded beside the row\<close>

lemma finalized_rows:
  assumes "finalize_running_command i k db = (True, db')" and "rows_ok db"
    and "cc_status k = status_of_outcome (cr_outcome (cc_result k))"
    and "d \<in> set (ad_commands db')" and "cm_id d = i"
  shows "cm_status d = cc_status k" and "command_is_terminal (cm_status d)"
proof -
  let ?P = "\<lambda>c. cm_id c = i \<and> cm_status c = CmdRunning \<and> cm_attempt c = int (cc_attempt k)"
  obtain c where c: "c \<in> set (ad_commands db)" "?P c"
    using assms(1) by (auto simp: finalize_running_command_def update_commands_def list_ex_iff)
  have db': "db' = snd (finalize_running_command i k db)" using assms(1) by simp
  obtain d0 where d0: "d0 \<in> set (ad_commands db)" "d = (if ?P d0 then d0\<lparr>cm_status := cc_status k, cm_exit := Some (cc_exit_code k),
      cm_finished := Some (cc_finished_at k), cm_result := Some (cc_result k)\<rparr> else d0)"
    using assms(4) updated_row unfolding db' finalize_running_command_def by blast
  have "cm_id d0 = i" using d0(2) assms(5) by (cases "?P d0") simp_all
  then have "d0 = c" using rows_unique [OF assms(2) d0(1) c(1)] c(2) by simp
  then show "cm_status d = cc_status k" using d0(2) c(2) by simp
  then show "command_is_terminal (cm_status d)" using assms(3) status_terminal by simp
qed

lemma settled_terminal: "settled A c d \<Longrightarrow> command_is_terminal (cm_status c) \<Longrightarrow> command_is_terminal (cm_status d)"
  by (auto simp: settled_def)

definition quieter :: "api_server \<Rightarrow> api_server \<Rightarrow> bool" where
  "quieter s t \<longleftrightarrow>
     sv_jobs t = sv_jobs s \<and> sv_tokens t = sv_tokens s \<and> sv_up t = sv_up s \<and> sv_log t = sv_log s \<and>
     (\<forall>i. sv_notes t i = sv_notes s i \<or> sv_notes t i = None)"

lemma quieter_refl: "quieter s s"
  by (simp add: quieter_def)

lemma quieter_trans: "quieter s t \<Longrightarrow> quieter t u \<Longrightarrow> quieter s u"
  unfolding quieter_def by metis

text \<open>No running row of the command has a completion of its attempt beside it.\<close>

definition uncompleted :: "string \<Rightarrow> api_server \<Rightarrow> bool" where
  "uncompleted i s \<longleftrightarrow>
     (\<forall>c \<in> set (ad_commands (sv_db s)). cm_id c = i \<and> cm_status c = CmdRunning \<longrightarrow>
        (\<forall>k. sv_notes s i = Some k \<longrightarrow> int (cc_attempt k) \<noteq> cm_attempt c))"

definition row_progress :: "string \<Rightarrow> api_server \<Rightarrow> api_server \<Rightarrow> bool" where
  "row_progress i s t \<longleftrightarrow>
     server_inv t \<and> quieter s t \<and> settles {i} (sv_db s) (sv_db t) \<and> (\<forall>j. j \<noteq> i \<longrightarrow> sv_notes t j = sv_notes s j)"

text \<open>A running command has a completion of its attempt beside it, and how a command has ended.\<close>

definition due :: "api_server \<Rightarrow> string \<Rightarrow> command_status \<Rightarrow> bool" where
  "due s i st \<longleftrightarrow>
     (\<exists>c \<in> set (ad_commands (sv_db s)). cm_id c = i \<and> cm_status c = CmdRunning \<and>
        (\<exists>k. sv_notes s i = Some k \<and> int (cc_attempt k) = cm_attempt c \<and> cc_status k = st))"

definition has_ended :: "api_server \<Rightarrow> string \<Rightarrow> command_status \<Rightarrow> bool" where
  "has_ended s i st \<longleftrightarrow>
     command_is_terminal st \<and> (\<forall>c \<in> set (ad_commands (sv_db s)). cm_id c = i \<longrightarrow> cm_status c = st)"

lemma has_ended_later: "has_ended s i st \<Longrightarrow> settles A (sv_db s) (sv_db t) \<Longrightarrow> has_ended t i st"
proof -
  assume e: "has_ended s i st" and st: "settles A (sv_db s) (sv_db t)"
  have "cm_status d = st" if d: "d \<in> set (ad_commands (sv_db t))" "cm_id d = i" for d
  proof -
    obtain c where c: "c \<in> set (ad_commands (sv_db s))" "settled A c d" using settles_rows(2) [OF st d(1)] by blast
    have "cm_status c = st" using e c settled_same [OF c(2)] d(2) by (simp add: has_ended_def)
    then show ?thesis using c(2) e by (auto simp: settled_def has_ended_def)
  qed
  then show ?thesis using e by (simp add: has_ended_def)
qed

lemma row_progress_refl: "server_inv s \<Longrightarrow> row_progress i s s"
  by (simp add: row_progress_def quieter_refl settles_refl)

lemma row_progress_remove:
  assumes s: "server_inv s"
    and t: "\<And>c. c \<in> set (ad_commands (sv_db s)) \<Longrightarrow> cm_id c = i \<Longrightarrow> i \<in> noted_ids (sv_log s) \<Longrightarrow> command_is_terminal (cm_status c)"
  shows "row_progress i s (remove_note fi i s)"
  using inv_remove_note [OF s t] s
  by (auto simp: remove_note_def row_progress_def quieter_def settles_refl)

lemma row_progress_trans: "row_progress i s t \<Longrightarrow> row_progress i t u \<Longrightarrow> row_progress i s u"
  unfolding row_progress_def using quieter_trans settles_trans by metis

lemma row_progress_finalize:
  assumes s: "server_inv s" and free: "\<not> busy s (cm_id c)"
    and c0: "c0 \<in> set (ad_commands (sv_db s))" "cm_id c0 = cm_id c" "cm_attempt c0 = cm_attempt c"
    and f: "finalize_running_from_sidecar fi now c s = (r, t)"
  shows "row_progress (cm_id c) s t"
    and "r = Inr b \<Longrightarrow> uncompleted (cm_id c) t"
    and "r = Inr b \<Longrightarrow> due s (cm_id c) st \<Longrightarrow> has_ended t (cm_id c) st"
proof -
  let ?i = "cm_id c"
  note rows = rows_unique [OF server_invD(1) [OF s]]
  have same: "d = c0" if "d \<in> set (ad_commands (sv_db s))" "cm_id d = ?i" for d
    using rows [OF that(1) c0(1)] that(2) c0(2) by simp
  have "row_progress ?i s t \<and> (r = Inr b \<longrightarrow> uncompleted ?i t \<and> (due s ?i st \<longrightarrow> has_ended t ?i st))"
  proof (cases "sv_notes s ?i")
    case None
    then show ?thesis
      using f s by (auto simp: finalize_running_from_sidecar_def row_progress_refl uncompleted_def due_def split: if_splits)
  next
    case (Some k)
    show ?thesis
    proof (cases "fi_unreadable fi \<or> int (cc_attempt k) = cm_attempt c \<and> fi_row_refused fi")
      case True
      then have "t = s \<and> (\<exists>x. r = Inl x)"
        using f Some by (cases "fi_unreadable fi") (auto simp: finalize_running_from_sidecar_def)
      then show ?thesis using row_progress_refl [OF s] by auto
    next
      case False
      show ?thesis
      proof (cases "int (cc_attempt k) = cm_attempt c")
        case True
        have k: "cc_status k = status_of_outcome (cr_outcome (cc_result k))"
          using server_invD(3) [OF s] Some by (simp add: notes_agree_def)
        obtain b' db where db: "finalize_running_command ?i k (sv_db s) = (b', db)" by (cases "finalize_running_command ?i k (sv_db s)")
        show ?thesis
        proof (cases b')
          case t1: True
          let ?s1 = "s\<lparr>sv_db := db\<rparr>"
          let ?s2 = "s\<lparr>sv_db := finalize_unowned_command fi ?i now db\<rparr>"
          have sd: "settles {?i} (sv_db s) db" using settles_finalize [OF k, of ?i "sv_db s"] db by simp
          have i1: "server_inv ?s1" by (rule inv_settles [OF s sd]) (use free in auto)
          have "server_inv (?s1\<lparr>sv_db := finalize_unowned_command fi ?i now (sv_db ?s1)\<rparr>)" by (rule inv_repair [OF i1])
          then have i2: "server_inv ?s2" by simp
          have st2: "settles {?i} db (finalize_unowned_command fi ?i now db)"
            using settles_repair [OF server_invD(1) [OF i1], of ?i fi now] by simp
          have p: "row_progress ?i s ?s2"
            using i2 settles_trans [OF sd st2] by (simp add: row_progress_def quieter_def)
          have terminal: "command_is_terminal (cm_status d) \<and> cm_status d = cc_status k" if d: "d \<in> set (ad_commands (sv_db ?s2))" "cm_id d = ?i" for d
          proof -
            have "d \<in> set (ad_commands (finalize_unowned_command fi ?i now db))" using d(1) by simp
            then obtain e where e: "e \<in> set (ad_commands db)" "settled {?i} e d" using settles_rows(2) [OF st2] by blast
            have "cm_id e = ?i" using settled_same [OF e(2)] d(2) by simp
            then have "command_is_terminal (cm_status e)" "cm_status e = cc_status k"
              using finalized_rows [OF _ server_invD(1) [OF s] k e(1)] db t1 by simp_all
            then show ?thesis using e(2) by (auto simp: settled_def)
          qed
          have t: "t = remove_note fi ?i ?s2" "r = Inr True"
            using f False True Some db t1 by (simp_all add: finalize_running_from_sidecar_def)
          have q: "row_progress ?i ?s2 (remove_note fi ?i ?s2)" by (rule row_progress_remove [OF i2]) (use terminal in blast)
          have "sv_db t = sv_db ?s2" by (simp add: t remove_note_def)
          then have "uncompleted ?i t"
            unfolding uncompleted_def using terminal claimable_open(2) by metis
          moreover have "has_ended t ?i st" if "due s ?i st"
            using that Some terminal k status_terminal \<open>sv_db t = sv_db ?s2\<close> by (auto simp: due_def has_ended_def)
          ultimately show ?thesis using row_progress_trans [OF p q] t(1) by simp
        next
          case f1: False
          have t: "t = s" "r = Inr False" using f False True Some db f1 by (simp_all add: finalize_running_from_sidecar_def)
          have no: "\<not> (cm_id d = ?i \<and> cm_status d = CmdRunning \<and> cm_attempt d = int (cc_attempt k))" if "d \<in> set (ad_commands (sv_db s))" for d
            using db f1 that by (auto simp: finalize_running_command_def update_commands_def list_ex_iff)
          have "uncompleted ?i s" unfolding uncompleted_def using no Some by force
          moreover have "\<not> due s ?i st" unfolding due_def using no Some by force
          ultimately show ?thesis using t row_progress_refl [OF s] by simp
        qed
      next
        case other: False
        have t: "t = remove_note fi ?i s" "r = Inr False"
          using f False other Some by (auto simp: finalize_running_from_sidecar_def split: if_splits)
        have "row_progress ?i s (remove_note fi ?i s)"
        proof (rule row_progress_remove [OF s])
          fix d assume d: "d \<in> set (ad_commands (sv_db s))" "cm_id d = ?i" "?i \<in> noted_ids (sv_log s)"
          have "d = c0" by (rule same [OF d(1,2)])
          moreover have "durable (sv_notes s) d" using server_invD(5) [OF s d(1)] d(2,3) by (simp add: log_agrees_def)
          ultimately show "command_is_terminal (cm_status d)" using Some other c0(2,3) by (auto simp: durable_def)
        qed
        moreover have att: "cm_attempt d = cm_attempt c" if "d \<in> set (ad_commands (sv_db s))" "cm_id d = ?i" for d
          using same [OF that] c0(3) by simp
        moreover have "uncompleted ?i t"
          using Some other att by (auto simp: t(1) uncompleted_def remove_note_def)
        moreover have "\<not> due s ?i st" using Some other att by (auto simp: due_def)
        ultimately show ?thesis using t(1) by simp
      qed
    qed
  qed
  then show "row_progress ?i s t" and "r = Inr b \<Longrightarrow> uncompleted ?i t" and "r = Inr b \<Longrightarrow> due s ?i st \<Longrightarrow> has_ended t ?i st"
    by blast+
qed

subsection \<open>Cancelling and closing\<close>

lemma unregistered_free: "server_inv s \<Longrightarrow> \<not> token_registered i (sv_tokens s) \<Longrightarrow> \<not> busy s i"
  using busy_token by blast

lemma finalize_from_sidecar_progress:
  assumes s: "server_inv s" and free: "\<not> busy s i" and f: "finalize_from_sidecar fi now i s = (r, t)"
  shows "row_progress i s t"
proof (cases "get_command i (sv_db s)")
  case None
  then show ?thesis using f row_progress_refl [OF s] by (simp add: finalize_from_sidecar_def)
next
  case (Some c)
  then obtain c0 where c0: "c0 \<in> set (ad_commands (sv_db s))" "cm_id c0 = i" "c = command_record_from_row c0"
    using get_command_row by blast
  have att: "cm_attempt c0 = cm_attempt c"
    using server_invD(1) [OF s] c0 record_attempt [of c0] by (simp add: rows_ok_def)
  have i: "cm_id c = i" using c0 by simp
  show ?thesis
  proof (cases "cm_status c = CmdRunning")
    case True
    then have "finalize_running_from_sidecar fi now c s = (r, t)" using f Some by (simp add: finalize_from_sidecar_def)
    then show ?thesis using row_progress_finalize(1) [OF s _ c0(1) _ att, of fi now r t] free i c0(2) by simp
  qed (use f Some row_progress_refl [OF s] in \<open>simp add: finalize_from_sidecar_def\<close>)
qed

lemma inv_cancel_or:
  assumes s: "server_inv s"
  shows "server_inv (cancel_or fi now requested i s)"
proof (cases "token_registered i (sv_tokens s)")
  case True
  have tok: "fst ` set (token_cancel i (sv_tokens s)) = fst ` set (sv_tokens s)"
  proof -
    have "map fst (token_cancel i (sv_tokens s)) = map fst (sv_tokens s)" by (auto simp: token_cancel_def)
    from arg_cong [OF this, of set] show ?thesis by (simp only: set_map)
  qed
  have "server_inv (s\<lparr>sv_tokens := token_cancel i (sv_tokens s)\<rparr>)"
    using server_invD [OF s] tok by (simp add: server_inv_def job_ids_def job_ok_def)
  then show ?thesis using True by (simp add: cancel_or_def)
next
  case False
  have free: "\<not> busy s i" by (rule unregistered_free [OF s False])
  obtain r t where f: "finalize_from_sidecar fi now i s = (r, t)" by (cases "finalize_from_sidecar fi now i s")
  have t: "row_progress i s t" by (rule finalize_from_sidecar_progress [OF s free f])
  then have inv: "server_inv t" "\<not> busy t i" using free by (simp_all add: row_progress_def quieter_def busy_def)
  have "server_inv (t\<lparr>sv_db := snd (cancel_if_running i now requested (sv_db t))\<rparr>)"
    by (rule inv_settles [OF inv(1) settles_cancel_if(2)]) (use inv(2) in auto)
  then show ?thesis
    using False f inv(1) by (auto simp: cancel_or_def split: sum.split bool.split)
qed

lemma cancel_or_settles:
  assumes s: "server_inv s"
  shows "settles {i} (sv_db s) (sv_db (cancel_or fi now requested i s))"
proof (cases "token_registered i (sv_tokens s)")
  case True
  then show ?thesis by (simp add: cancel_or_def settles_refl)
next
  case False
  obtain r t where f: "finalize_from_sidecar fi now i s = (r, t)" by (cases "finalize_from_sidecar fi now i s")
  have "row_progress i s t" by (rule finalize_from_sidecar_progress [OF s unregistered_free [OF s False] f])
  then have "settles {i} (sv_db s) (sv_db t)" by (simp add: row_progress_def)
  then show ?thesis
    using False f settles_trans [OF _ settles_cancel_if(2)] by (auto simp: cancel_or_def split: sum.split bool.split)
qed

lemma inv_crash: "server_inv s \<Longrightarrow> server_inv (s\<lparr>sv_jobs := [], sv_tokens := [], sv_up := False\<rparr>)"
  by (simp add: server_inv_def job_ids_def)

lemma inv_fewer:
  assumes s: "server_inv s" and j: "sv_jobs s = []" and db: "ad_commands db = filter P (ad_commands (sv_db s))"
  shows "server_inv (s\<lparr>sv_db := db\<rparr>)"
  using server_invD(1-8) [OF s] j db distinct_map_filter [of cm_id "ad_commands (sv_db s)" P]
  by (simp add: server_inv_def rows_ok_def one_running_def job_ids_def)

lemma purged_rows: "\<exists>P. ad_commands (fold (\<lambda>x. purge_session (sr_id x)) l db) = filter P (ad_commands db)"
proof (induction l arbitrary: db)
  case Nil
  then show ?case by (intro exI [of _ "\<lambda>_. True"]) simp
next
  case (Cons x l)
  obtain P where "ad_commands (fold (\<lambda>x. purge_session (sr_id x)) l (purge_session (sr_id x) db)) = filter P (ad_commands (purge_session (sr_id x) db))"
    using Cons.IH by blast
  then have "ad_commands (fold (\<lambda>x. purge_session (sr_id x)) (x # l) db) = filter P (filter (\<lambda>c. cm_session c \<noteq> sr_id x) (ad_commands db))"
    by (simp add: purge_session_def Let_def)
  then show ?case by (intro exI [of _ "\<lambda>c. cm_session c \<noteq> sr_id x \<and> P c"]) (simp add: conj_commute)
qed

lemma down_idle: "server_inv s \<Longrightarrow> \<not> sv_up s \<Longrightarrow> sv_jobs s = []"
  by (rule server_invD(8))

lemma inv_purge:
  assumes "server_inv s" and "\<not> sv_up s"
  shows "server_inv (s\<lparr>sv_db := snd (delete_closed_sessions_before cutoff (sv_db s))\<rparr>)"
proof -
  obtain P where "ad_commands (snd (delete_closed_sessions_before cutoff (sv_db s))) = filter P (ad_commands (sv_db s))"
    using purged_rows unfolding delete_closed_sessions_before_def Let_def snd_conv by blast
  then show ?thesis by (rule inv_fewer [OF assms(1) down_idle [OF assms]])
qed

lemma inv_interrupted_row:
  assumes "server_inv s" and "\<not> sv_up s"
  shows "server_inv (s\<lparr>sv_db := snd (update_commands (\<lambda>c. cm_id c = i \<and> \<not> command_is_terminal (cm_status c))
      (cancelled_row (Some t) now) (sv_db s))\<rparr>)"
  by (rule inv_settles [OF assms(1), where A = UNIV], rule settles_cancelled)
    (use down_idle [OF assms] in \<open>simp_all add: busy_def\<close>)

subsection \<open>The restart\<close>

lemma uncompleted_later:
  assumes "uncompleted i s" and "quieter s t" and "settles A (sv_db s) (sv_db t)"
  shows "uncompleted i t"
  unfolding uncompleted_def
proof (intro ballI impI allI)
  fix d k assume d: "d \<in> set (ad_commands (sv_db t))" "cm_id d = i \<and> cm_status d = CmdRunning" and k: "sv_notes t i = Some k"
  obtain c where c: "c \<in> set (ad_commands (sv_db s))" "settled A c d" using settles_rows(2) [OF assms(3) d(1)] by blast
  have "c = d" using c(2) d(2) claimable_open(2) by (auto simp: settled_def)
  moreover have "sv_notes s i = Some k" using assms(2) k unfolding quieter_def by (metis option.distinct(1))
  ultimately show "int (cc_attempt k) \<noteq> cm_attempt d" using assms(1) c(1) d(2) by (simp add: uncompleted_def)
qed

definition listed :: "api_server \<Rightarrow> command_row \<Rightarrow> bool" where
  "listed s c \<longleftrightarrow> (\<exists>c0 \<in> set (ad_commands (sv_db s)). cm_id c0 = cm_id c \<and> cm_attempt c0 = cm_attempt c \<and>
     (command_is_terminal (cm_status c) \<longrightarrow> command_is_terminal (cm_status c0)))"

lemma listed_later:
  assumes "listed s c" and "settles A (sv_db s) (sv_db t)"
  shows "listed t c"
proof -
  obtain c0 where c0: "c0 \<in> set (ad_commands (sv_db s))" "cm_id c0 = cm_id c" "cm_attempt c0 = cm_attempt c"
    "command_is_terminal (cm_status c) \<Longrightarrow> command_is_terminal (cm_status c0)"
    using assms(1) unfolding listed_def by blast
  obtain d where d: "d \<in> set (ad_commands (sv_db t))" "settled A c0 d" using settles_rows(3) [OF assms(2) c0(1)] by blast
  then show ?thesis
    unfolding listed_def using c0 settled_same [OF d(2)] settled_terminal [OF d(2)] by (intro bexI [of _ d]) auto
qed

lemma finalize_one_progress:
  assumes s: "server_inv s" and j: "sv_jobs s = []" and c: "listed s c"
    and f: "finalize_one fi now c (failed, s) = (failed', t)"
  shows "row_progress (cm_id c) s t"
    and "\<not> failed' \<Longrightarrow> \<not> failed \<and> (cm_status c = CmdRunning \<longrightarrow>
      uncompleted (cm_id c) t \<and> (due s (cm_id c) st \<longrightarrow> has_ended t (cm_id c) st))"
proof -
  obtain c0 where c0: "c0 \<in> set (ad_commands (sv_db s))" "cm_id c0 = cm_id c" "cm_attempt c0 = cm_attempt c"
    "command_is_terminal (cm_status c) \<Longrightarrow> command_is_terminal (cm_status c0)"
    using c unfolding listed_def by blast
  have "row_progress (cm_id c) s t \<and> (\<not> failed' \<longrightarrow> \<not> failed \<and> (cm_status c = CmdRunning \<longrightarrow>
      uncompleted (cm_id c) t \<and> (due s (cm_id c) st \<longrightarrow> has_ended t (cm_id c) st)))"
  proof (cases "command_is_terminal (cm_status c)")
    case True
    have "row_progress (cm_id c) s (remove_note (fi (cm_id c)) (cm_id c) s)"
    proof (rule row_progress_remove [OF s])
      fix d assume "d \<in> set (ad_commands (sv_db s))" "cm_id d = cm_id c"
      then have "d = c0" using rows_unique [OF server_invD(1) [OF s] _ c0(1)] c0(2) by simp
      then show "command_is_terminal (cm_status d)" using c0(4) True by simp
    qed
    then show ?thesis
      using f True claimable_open(2) row_progress_refl [OF s] by (auto simp: finalize_one_def split: if_splits)
  next
    case open_row: False
    show ?thesis
    proof (cases "cm_status c = CmdRunning")
      case True
      obtain r t' where r: "finalize_running_from_sidecar (fi (cm_id c)) now c s = (r, t')"
        by (cases "finalize_running_from_sidecar (fi (cm_id c)) now c s")
      have free: "\<not> busy s (cm_id c)" using j by (simp add: busy_def)
      note p = row_progress_finalize [OF s free c0(1,2,3) r]
      show ?thesis
      proof (cases r)
        case (Inl x)
        then show ?thesis using f open_row True r p(1) by (auto simp: finalize_one_def claimable_open)
      next
        case (Inr b)
        then show ?thesis using f open_row True r p(1) p(2,3) [OF Inr] by (auto simp: finalize_one_def claimable_open)
      qed
    next
      case False
      then show ?thesis using f open_row row_progress_refl [OF s] by (simp add: finalize_one_def)
    qed
  qed
  then show "row_progress (cm_id c) s t"
    and "\<not> failed' \<Longrightarrow> \<not> failed \<and> (cm_status c = CmdRunning \<longrightarrow>
      uncompleted (cm_id c) t \<and> (due s (cm_id c) st \<longrightarrow> has_ended t (cm_id c) st))"
    by blast+
qed

lemma finalize_all_progress:
  assumes "server_inv s" and "sv_jobs s = []" and "\<And>c. c \<in> set l \<Longrightarrow> listed s c"
    and "fold (finalize_one fi now) l (failed, s) = (failed', t)"
  shows "server_inv t \<and> quieter s t \<and> settles UNIV (sv_db s) (sv_db t) \<and>
    (\<not> failed' \<longrightarrow> \<not> failed \<and> (\<forall>c \<in> set l. cm_status c = CmdRunning \<longrightarrow> uncompleted (cm_id c) t))"
  using assms
proof (induction l arbitrary: s failed)
  case Nil
  then show ?case by (simp add: quieter_refl settles_refl)
next
  case (Cons c l)
  obtain f1 s1 where one: "finalize_one fi now c (failed, s) = (f1, s1)" by (cases "finalize_one fi now c (failed, s)")
  have lc: "listed s c" using Cons.prems(3) by simp
  note p = finalize_one_progress [OF Cons.prems(1,2) lc one]
  have s1: "server_inv s1" "quieter s s1" "settles UNIV (sv_db s) (sv_db s1)"
    using p(1) settles_mono [of "{cm_id c}" "sv_db s" "sv_db s1" UNIV] by (auto simp: row_progress_def)
  have j1: "sv_jobs s1 = []" using s1(2) Cons.prems(2) by (simp add: quieter_def)
  have l1: "listed s1 d" if "d \<in> set l" for d using listed_later [OF _ s1(3)] Cons.prems(3) that by simp
  have "fold (finalize_one fi now) l (f1, s1) = (failed', t)" using Cons.prems(4) one by simp
  note IH = Cons.IH [OF s1(1) j1 l1 this]
  have "uncompleted (cm_id c) s1 \<Longrightarrow> uncompleted (cm_id c) t" using uncompleted_later IH by blast
  then show ?case
    using IH p(2) quieter_trans [OF s1(2)] settles_trans [OF s1(3)] by auto
qed

lemma due_elsewhere:
  assumes "due s i st" and "row_progress j s t" and "i \<noteq> j"
  shows "due t i st"
proof -
  obtain c k where c: "c \<in> set (ad_commands (sv_db s))" "cm_id c = i" "cm_status c = CmdRunning"
    and k: "sv_notes s i = Some k" "int (cc_attempt k) = cm_attempt c" "cc_status k = st"
    using assms(1) unfolding due_def by blast
  have st: "settles {j} (sv_db s) (sv_db t)" and n: "sv_notes t i = sv_notes s i"
    using assms(2,3) by (auto simp: row_progress_def)
  obtain d where "d \<in> set (ad_commands (sv_db t))" "settled {j} c d" using settles_rows(3) [OF st c(1)] by blast
  then have "c \<in> set (ad_commands (sv_db t))" using c(2) assms(3) by (auto simp: settled_def)
  then show ?thesis using c k n by (auto simp: due_def)
qed

lemma finalize_all_due:
  assumes "server_inv s" and "sv_jobs s = []" and "\<And>c. c \<in> set l \<Longrightarrow> listed s c" and "distinct (map cm_id l)"
    and "fold (finalize_one fi now) l (failed, s) = (False, t)"
    and "c \<in> set l" and "cm_status c = CmdRunning" and "due s (cm_id c) st"
  shows "has_ended t (cm_id c) st"
  using assms
proof (induction l arbitrary: s failed)
  case Nil
  then show ?case by simp
next
  case (Cons x l)
  obtain f1 s1 where one: "finalize_one fi now x (failed, s) = (f1, s1)" by (cases "finalize_one fi now x (failed, s)")
  have lx: "listed s x" using Cons.prems(3) by simp
  note p = finalize_one_progress [OF Cons.prems(1,2) lx one]
  have s1: "server_inv s1" "quieter s s1" "settles UNIV (sv_db s) (sv_db s1)"
    using p(1) settles_mono [of "{cm_id x}" "sv_db s" "sv_db s1" UNIV] by (auto simp: row_progress_def)
  have j1: "sv_jobs s1 = []" using s1(2) Cons.prems(2) by (simp add: quieter_def)
  have l1: "listed s1 d" if "d \<in> set l" for d using listed_later [OF _ s1(3)] Cons.prems(3) that by simp
  have rest: "fold (finalize_one fi now) l (f1, s1) = (False, t)" using Cons.prems(5) one by simp
  note all = finalize_all_progress [OF s1(1) j1 l1 rest]
  show ?case
  proof (cases "c = x")
    case True
    have "has_ended s1 (cm_id x) st" using all p(2) True Cons.prems(7,8) by blast
    then show ?thesis using has_ended_later all True by blast
  next
    case False
    then have c: "c \<in> set l" using Cons.prems(6) by simp
    moreover have "cm_id x \<notin> cm_id ` set l" using Cons.prems(4) by simp
    ultimately have ids: "cm_id c \<noteq> cm_id x" by (metis imageI)
    have "distinct (map cm_id l)" using Cons.prems(4) by simp
    then show ?thesis
      using Cons.IH [OF s1(1) j1 l1 _ rest c Cons.prems(7)] due_elsewhere [OF Cons.prems(8) p(1) ids] by blast
  qed
qed

lemma listing_rows:
  assumes "rows_ok db"
  shows "set (list_commands_filtered \<lparr>cf_session = None, cf_status = None, cf_labels = [], cf_limit = length (ad_commands db)\<rparr> db)
    = command_record_from_row ` set (ad_commands db)"
  by (simp add: list_commands_filtered_def newest_commands_def)

lemma listing_distinct:
  assumes "rows_ok db"
  shows "distinct (map cm_id (list_commands_filtered
    \<lparr>cf_session = None, cf_status = None, cf_labels = [], cf_limit = length (ad_commands db)\<rparr> db))"
  using assms by (simp add: list_commands_filtered_def newest_commands_def comp_def rows_ok_def distinct_map)

lemma finalize_completed_progress:
  assumes s: "server_inv s" "sv_jobs s = []" and f: "finalize_completed_from_sidecars fi now s = (ok, t)"
  shows "server_inv t" and "quieter s t" and "settles UNIV (sv_db s) (sv_db t)"
    and "ok \<Longrightarrow> c \<in> set (ad_commands (sv_db t)) \<Longrightarrow> cm_status c = CmdRunning \<Longrightarrow> uncompleted (cm_id c) t"
    and "ok \<Longrightarrow> due s i st \<Longrightarrow> has_ended t i st"
proof -
  let ?l = "list_commands_filtered \<lparr>cf_session = None, cf_status = None, cf_labels = [], cf_limit = length (ad_commands (sv_db s))\<rparr> (sv_db s)"
  obtain failed where fo: "fold (finalize_one fi now) ?l (False, s) = (failed, t)" "ok = (\<not> failed)"
    using f by (auto simp: finalize_completed_from_sidecars_def split: prod.splits)
  have l: "listed s d" if "d \<in> set ?l" for d
  proof -
    obtain c where c: "c \<in> set (ad_commands (sv_db s))" "d = command_record_from_row c"
      using \<open>d \<in> set ?l\<close> unfolding listing_rows [OF server_invD(1) [OF s(1)]] by blast
    have "cm_attempt d = cm_attempt c"
      using server_invD(1) [OF s(1)] c record_attempt [of c] by (simp add: rows_ok_def)
    then show ?thesis using c by (auto simp: listed_def)
  qed
  note all = finalize_all_progress [OF s l fo(1)]
  show "server_inv t" "quieter s t" "settles UNIV (sv_db s) (sv_db t)" using all by blast+
  show "ok \<Longrightarrow> due s i st \<Longrightarrow> has_ended t i st"
  proof -
    assume ok: "ok" and due: "due s i st"
    obtain c where c: "c \<in> set (ad_commands (sv_db s))" "cm_id c = i" "cm_status c = CmdRunning"
      using due unfolding due_def by blast
    have m: "command_record_from_row c \<in> set ?l"
      unfolding listing_rows [OF server_invD(1) [OF s(1)]] using c(1) by blast
    have "fold (finalize_one fi now) ?l (False, s) = (False, t)" using fo ok by simp
    from finalize_all_due [OF s l listing_distinct [OF server_invD(1) [OF s(1)]] this m]
    show "has_ended t i st" using c due by simp
  qed
  assume ok: "ok" and c: "c \<in> set (ad_commands (sv_db t))" "cm_status c = CmdRunning"
  obtain c0 where c0: "c0 \<in> set (ad_commands (sv_db s))" "settled UNIV c0 c"
    using settles_rows(2) [OF _ c(1)] all by blast
  have "c0 = c" using c0(2) c(2) claimable_open(2) by (auto simp: settled_def)
  then have "command_record_from_row c \<in> set ?l"
    unfolding listing_rows [OF server_invD(1) [OF s(1)]] using c0(1) by blast
  then show "uncompleted (cm_id c) t" using all ok fo(2) c(2) by fastforce
qed

lemma inv_requeue:
  assumes s: "server_inv s" and j: "sv_jobs s = []"
    and f: "\<And>c. c \<in> set (ad_commands (sv_db s)) \<Longrightarrow> cm_status c = CmdRunning \<Longrightarrow> cm_id c \<notin> noted_ids (sv_log s) \<and> cm_attempt c + 1 < 2 ^ 32"
  shows "server_inv (s\<lparr>sv_db := snd (recover_stale_commands now (sv_db s))\<rparr>)"
proof (rule server_invI)
  let ?f = "\<lambda>c. c\<lparr>cm_status := CmdQueued, cm_worker := None, cm_started := None, cm_attempt := cm_attempt c + 1\<rparr>"
  let ?db = "snd (recover_stale_commands now (sv_db s))"
  note d = server_invD [OF s]
  have rows: "ad_commands ?db = map (\<lambda>c. if stale now c then ?f c else c) (ad_commands (sv_db s))"
    by (simp add: recover_stale_commands_def update_commands_def)
  have row: "\<exists>c0 \<in> set (ad_commands (sv_db s)). c = (if stale now c0 then ?f c0 else c0)" if "c \<in> set (ad_commands ?db)" for c
    using that unfolding rows by auto
  have names: "map cm_id (ad_commands ?db) = map cm_id (ad_commands (sv_db s))" by (simp add: rows)
  have one: "row_ok c \<and> 1 \<le> cm_attempt c \<and> cm_attempt c < 2 ^ 32 \<and> log_agrees (sv_log s) (sv_notes s) c"
    if c: "c \<in> set (ad_commands ?db)" for c
  proof -
    obtain c0 where c0: "c0 \<in> set (ad_commands (sv_db s))" "c = (if stale now c0 then ?f c0 else c0)" using row [OF c] by blast
    have old: "row_ok c0" "1 \<le> cm_attempt c0" "cm_attempt c0 < 2 ^ 32" using d(1) c0(1) by (auto simp: rows_ok_def)
    have la: "log_agrees (sv_log s) (sv_notes s) c0" by (rule d(5) [OF c0(1)])
    show ?thesis
    proof (cases "stale now c0")
      case True
      then have r: "cm_status c0 = CmdRunning" by (simp add: stale_def)
      then have "cm_result c0 = None" using old(1) claimable_open(2) by (simp add: row_ok_def)
      then have "row_ok (?f c0)" by (simp add: row_ok_simps(2))
      moreover have "log_agrees (sv_log s) (sv_notes s) (?f c0)"
        using la f [OF c0(1) r] by (force simp: log_agrees_def)
      ultimately show ?thesis using c0(2) True f [OF c0(1) r] old by simp
    qed (use old la c0(2) in simp)
  qed
  show "rows_ok (sv_db (s\<lparr>sv_db := ?db\<rparr>))"
    using one names d(1) by (simp add: rows_ok_def)
  show "one_running (sv_db (s\<lparr>sv_db := ?db\<rparr>))"
    unfolding one_running_def
  proof (intro ballI impI)
    fix x y assume m: "x \<in> set (ad_commands (sv_db (s\<lparr>sv_db := ?db\<rparr>)))" "y \<in> set (ad_commands (sv_db (s\<lparr>sv_db := ?db\<rparr>)))"
      and r: "cm_status x = CmdRunning \<and> cm_status y = CmdRunning \<and> cm_session x = cm_session y"
    have "z \<in> set (ad_commands (sv_db s))" if zm: "z \<in> set (ad_commands ?db)" "cm_status z = CmdRunning" for z
    proof -
      obtain z0 where z0: "z0 \<in> set (ad_commands (sv_db s))" "z = (if stale now z0 then ?f z0 else z0)" using row [OF zm(1)] by blast
      then show ?thesis using zm(2) by (cases "stale now z0") simp_all
    qed
    then show "x = y" using m r d(2) unfolding one_running_def by simp
  qed
  show "log_agrees (sv_log (s\<lparr>sv_db := ?db\<rparr>)) (sv_notes (s\<lparr>sv_db := ?db\<rparr>)) c" if "c \<in> set (ad_commands (sv_db (s\<lparr>sv_db := ?db\<rparr>)))" for c
    using one [of c] that by simp
qed (use server_invD(3,4,6,7,8) [OF s] j in \<open>simp_all add: job_ids_def\<close>)

lemma requeued_row:
  "d \<in> set (ad_commands (snd (recover_stale_commands now db))) \<Longrightarrow>
   \<exists>c \<in> set (ad_commands db). cm_id d = cm_id c \<and> (d = c \<or> cm_status c = CmdRunning \<and> cm_status d = CmdQueued)"
  by (auto simp: recover_stale_commands_def update_commands_def stale_def split: if_splits)

lemma interrupted_gone:
  assumes "d \<in> set (ad_commands (snd (finalize_interrupted_cancellations now db)))" and "\<not> command_is_terminal (cm_status d)"
  shows "cancel_requested_at (cm_id d) db = None"
proof (rule ccontr)
  assume m: "cancel_requested_at (cm_id d) db \<noteq> None"
  obtain c where c: "c \<in> set (ad_commands db)"
    "d = (if interrupted db c then cancelled_row (cancel_requested_at (cm_id c) db) now c else c)"
    using assms(1) by (auto simp: finalize_interrupted_cancellations_def)
  show False
  proof (cases "interrupted db c")
    case True
    then show False using c(2) assms(2) by (simp add: cancelled_row_def command_is_terminal_def)
  next
    case False
    then have "d = c" using c(2) by simp
    then show False using False m assms(2) by (cases "cm_status c") (auto simp: interrupted_def command_is_terminal_def)
  qed
qed

text \<open>What a restart leaves: every statement before the requeue settles, and the requeue touches unfinished rows only.\<close>

lemma recovered:
  assumes s: "server_inv s" and down: "\<not> sv_up s" and fit: "attempts_fit (sv_db s)"
    and r: "recover_queue fi cancels_refused stale_refused now s = (ok, t)"
  shows "server_inv t"
    and "c \<in> set (ad_commands (sv_db s)) \<Longrightarrow> command_is_terminal (cm_status c) \<Longrightarrow> d \<in> set (ad_commands (sv_db t)) \<Longrightarrow>
      cm_id d = cm_id c \<Longrightarrow> cm_status d = cm_status c \<and> (\<forall>x. cm_finished c = Some x \<longrightarrow> cm_finished d = Some x)"
    and "ok \<Longrightarrow> due s i st \<Longrightarrow> has_ended t i st"
    and "ok \<Longrightarrow> d \<in> set (ad_commands (sv_db t)) \<Longrightarrow> \<not> command_is_terminal (cm_status d) \<Longrightarrow>
      cancel_requested_at (cm_id d) (sv_db t) = None \<and> cm_id d \<notin> noted_ids (sv_log t)"
    and "sv_log t = sv_log s"
proof -
  have j: "sv_jobs s = []" by (rule down_idle [OF s down])
  obtain ok1 s1 where f: "finalize_completed_from_sidecars fi now s = (ok1, s1)" by (cases "finalize_completed_from_sidecars fi now s")
  note p = finalize_completed_progress [OF s j f]
  let ?P = "\<lambda>t. server_inv t \<and> (\<forall>c \<in> set (ad_commands (sv_db s)). \<forall>d \<in> set (ad_commands (sv_db t)).
      command_is_terminal (cm_status c) \<and> cm_id d = cm_id c \<longrightarrow>
        cm_status d = cm_status c \<and> (\<forall>x. cm_finished c = Some x \<longrightarrow> cm_finished d = Some x)) \<and>
    (ok \<longrightarrow> (\<forall>i st. due s i st \<longrightarrow> has_ended t i st)) \<and>
    (ok \<longrightarrow> (\<forall>d \<in> set (ad_commands (sv_db t)). \<not> command_is_terminal (cm_status d) \<longrightarrow>
        cancel_requested_at (cm_id d) (sv_db t) = None \<and> cm_id d \<notin> noted_ids (sv_log t))) \<and>
    sv_log t = sv_log s"
  have keep: "cm_status d = cm_status c \<and> (\<forall>x. cm_finished c = Some x \<longrightarrow> cm_finished d = Some x)"
    if st: "settles UNIV (sv_db s) (sv_db u)" and u: "server_inv s" and c: "c \<in> set (ad_commands (sv_db s))" "command_is_terminal (cm_status c)"
      and d: "d \<in> set (ad_commands (sv_db u))" "cm_id d = cm_id c" for u c d
  proof -
    obtain c' where c': "c' \<in> set (ad_commands (sv_db s))" "settled UNIV c' d" using settles_rows(2) [OF st d(1)] by blast
    have "c' = c" using rows_unique [OF server_invD(1) [OF s] c'(1) c(1)] settled_same [OF c'(2)] d(2) by simp
    then show ?thesis using c'(2) c(2) by (auto simp: settled_def)
  qed
  have log1: "sv_log s1 = sv_log s" "sv_jobs s1 = []" using p(2) j by (simp_all add: quieter_def)
  have "?P t"
  proof (cases "ok1 \<and> \<not> cancels_refused")
    case False
    then have t: "t = s1" "\<not> ok" using r f by (auto simp: recover_queue_def split: if_splits bool.splits)
    show ?thesis using p(1) keep [OF p(3) s] log1(1) t by simp
  next
    case True
    let ?s2 = "s1\<lparr>sv_db := snd (finalize_interrupted_cancellations now (sv_db s1))\<rparr>"
    let ?s3 = "if stale_refused then ?s2 else ?s2\<lparr>sv_db := snd (recover_stale_commands now (sv_db ?s2))\<rparr>"
    have t: "t = ?s3\<lparr>sv_up := True\<rparr>" "ok" using r f True by (auto simp: recover_queue_def Let_def)
    have st2: "settles UNIV (sv_db s1) (sv_db ?s2)" using settles_interrupted by simp
    have i2: "server_inv ?s2"
      by (rule inv_settles [OF p(1) settles_interrupted]) (use log1(2) in \<open>simp add: busy_def\<close>)
    have st: "settles UNIV (sv_db s) (sv_db ?s2)" by (rule settles_trans [OF p(3) st2])
    have unnoted: "cm_id d \<notin> noted_ids (sv_log s)" if d: "d \<in> set (ad_commands (sv_db ?s2))" "\<not> command_is_terminal (cm_status d)" for d
    proof -
      obtain c where c: "c \<in> set (ad_commands (sv_db s1))" "settled UNIV c d" using settles_rows(2) [OF st2 d(1)] by blast
      have "c = d" using c(2) d(2) by (auto simp: settled_def)
      then have c1: "d \<in> set (ad_commands (sv_db s1))" using c(1) by simp
      have la: "log_agrees (sv_log s1) (sv_notes s1) d" by (rule server_invD(5) [OF p(1) c1])
      have "\<not> durable (sv_notes s1) d"
        using p(4) [OF _ c1] True d(2) c1 by (auto simp: durable_def uncompleted_def)
      then show ?thesis using la log1(1) by (auto simp: log_agrees_def)
    qed
    have fit2: "cm_attempt d + 1 < 2 ^ 32" if d: "d \<in> set (ad_commands (sv_db ?s2))" for d
    proof -
      obtain c where c: "c \<in> set (ad_commands (sv_db s))" "settled UNIV c d" using settles_rows(2) [OF st d] by blast
      have "cm_attempt c < 2 ^ 32 - 1" using fit c(1) by (simp add: attempts_fit_def list_all_iff)
      then show ?thesis using settled_same [OF c(2)] by simp
    qed
    have "server_inv (?s2\<lparr>sv_db := snd (recover_stale_commands now (sv_db ?s2))\<rparr>)"
    proof (rule inv_requeue [OF i2])
      show "sv_jobs ?s2 = []" using log1(2) by simp
      fix c assume "c \<in> set (ad_commands (sv_db ?s2))" "cm_status c = CmdRunning"
      then show "cm_id c \<notin> noted_ids (sv_log ?s2) \<and> cm_attempt c + 1 < 2 ^ 32"
        using unnoted [of c] fit2 [of c] claimable_open(2) log1(1) by simp
    qed
    then have i3: "server_inv ?s3" using i2 by simp
    then have it: "server_inv t" unfolding t(1) using log1(2) by (simp add: server_inv_def job_ids_def)
    have row: "\<exists>c \<in> set (ad_commands (sv_db ?s2)). cm_id d = cm_id c \<and>
        (d = c \<or> \<not> command_is_terminal (cm_status c) \<and> \<not> command_is_terminal (cm_status d))"
      if d: "d \<in> set (ad_commands (sv_db t))" for d
    proof (cases stale_refused)
      case True
      then show ?thesis using d t(1) by auto
    next
      case False
      then have "d \<in> set (ad_commands (snd (recover_stale_commands now (sv_db ?s2))))" using d t(1) by simp
      from requeued_row [OF this] show ?thesis by (auto simp: command_is_terminal_def)
    qed
    have cancels: "ad_cancellations (sv_db t) = ad_cancellations (sv_db s1)"
      unfolding t(1) by (simp add: recover_stale_commands_def update_commands_def finalize_interrupted_cancellations_def)
    have k1: "cm_status d = cm_status c \<and> (\<forall>x. cm_finished c = Some x \<longrightarrow> cm_finished d = Some x)"
      if c: "c \<in> set (ad_commands (sv_db s))" "command_is_terminal (cm_status c)"
        and d: "d \<in> set (ad_commands (sv_db t))" "cm_id d = cm_id c" for c d
    proof -
      obtain e where e: "e \<in> set (ad_commands (sv_db ?s2))" "cm_id d = cm_id e"
          "d = e \<or> \<not> command_is_terminal (cm_status e) \<and> \<not> command_is_terminal (cm_status d)"
        using row [OF d(1)] by blast
      have k: "cm_status e = cm_status c \<and> (\<forall>x. cm_finished c = Some x \<longrightarrow> cm_finished e = Some x)"
        by (rule keep [OF st s c e(1)]) (use e(2) d(2) in simp)
      then have "d = e" using e(3) c(2) by simp
      then show ?thesis using k by simp
    qed
    have k2: "has_ended t i st" if "due s i st" for i st
    proof -
      have en: "has_ended ?s2 i st" by (rule has_ended_later [OF p(5) st2]) (use True that in simp_all)
      have "cm_status d = st" if d: "d \<in> set (ad_commands (sv_db t))" "cm_id d = i" for d
      proof -
        obtain e where e: "e \<in> set (ad_commands (sv_db ?s2))" "cm_id d = cm_id e"
            "d = e \<or> \<not> command_is_terminal (cm_status e) \<and> \<not> command_is_terminal (cm_status d)"
          using row [OF d(1)] by blast
        have es: "cm_status e = st" "command_is_terminal st" using en e(1,2) d(2) by (simp_all add: has_ended_def)
        then have "d = e" using e(3) by metis
        then show ?thesis using es(1) by metis
      qed
      then show ?thesis using en by (simp add: has_ended_def)
    qed
    have k3: "cancel_requested_at (cm_id d) (sv_db t) = None \<and> cm_id d \<notin> noted_ids (sv_log t)"
      if d: "d \<in> set (ad_commands (sv_db t))" "\<not> command_is_terminal (cm_status d)" for d
    proof -
      obtain e where e: "e \<in> set (ad_commands (sv_db ?s2))" "cm_id d = cm_id e"
          "d = e \<or> \<not> command_is_terminal (cm_status e) \<and> \<not> command_is_terminal (cm_status d)"
        using row [OF d(1)] by blast
      have o: "\<not> command_is_terminal (cm_status e)" using e(3) d(2) by auto
      have "e \<in> set (ad_commands (snd (finalize_interrupted_cancellations now (sv_db s1))))" using e(1) by simp
      from interrupted_gone [OF this o] unnoted [OF e(1) o]
      show ?thesis using e(2) cancels log1(1) t(1) by (simp add: cancel_requested_at_def)
    qed
    have k4: "sv_log t = sv_log s" using t(1) log1(1) by simp
    show ?thesis
    proof (intro conjI ballI allI impI)
      fix d assume "d \<in> set (ad_commands (sv_db t))" "\<not> command_is_terminal (cm_status d)"
      from k3 [OF this] show "cancel_requested_at (cm_id d) (sv_db t) = None" and "cm_id d \<notin> noted_ids (sv_log t)"
        by simp_all
    next
      fix c d assume "c \<in> set (ad_commands (sv_db s))" "d \<in> set (ad_commands (sv_db t))"
        and "command_is_terminal (cm_status c) \<and> cm_id d = cm_id c"
      with k1 [of c d] show "cm_status d = cm_status c" and "\<And>x. cm_finished c = Some x \<Longrightarrow> cm_finished d = Some x"
        by simp_all
    qed (rule it k2 k4, assumption?)+
  qed
  then show "server_inv t"
    and "c \<in> set (ad_commands (sv_db s)) \<Longrightarrow> command_is_terminal (cm_status c) \<Longrightarrow> d \<in> set (ad_commands (sv_db t)) \<Longrightarrow>
      cm_id d = cm_id c \<Longrightarrow> cm_status d = cm_status c \<and> (\<forall>x. cm_finished c = Some x \<longrightarrow> cm_finished d = Some x)"
    and "ok \<Longrightarrow> due s i st \<Longrightarrow> has_ended t i st"
    and "ok \<Longrightarrow> d \<in> set (ad_commands (sv_db t)) \<Longrightarrow> \<not> command_is_terminal (cm_status d) \<Longrightarrow>
      cancel_requested_at (cm_id d) (sv_db t) = None \<and> cm_id d \<notin> noted_ids (sv_log t)"
    and "sv_log t = sv_log s"
    by blast+
qed

subsection \<open>Every reachable state\<close>

lemma inv_step:
  assumes "server_inv s" and "server_step s t"
  shows "server_inv t"
  using assms(2,1)
proof (cases rule: server_step.cases)
  case submit
  then show ?thesis using inv_submit [OF assms(1)] by blast
next
  case elsewhere
  then show ?thesis using inv_same_rows [OF assms(1)] by blast
next
  case claim
  then show ?thesis using inv_claim [OF assms(1)] by blast
next
  case (decide j unread r)
  then show ?thesis
    unfolding decide(1)
    by (intro inv_set_phase [OF assms(1) decide(2)]) (use decided_coherent decide(3) in \<open>auto simp: unstored_def\<close>)
next
  case note_it
  then show ?thesis using inv_note [OF assms(1)] by blast
next
  case store
  then show ?thesis using inv_store [OF assms(1)] by blast
next
  case unnote
  then show ?thesis using inv_unnote [OF assms(1)] by blast
next
  case release
  then show ?thesis using inv_release [OF assms(1)] by blast
next
  case cancel_queued
  then show ?thesis using inv_cancel_queued [OF assms(1)] by blast
next
  case cancel_asked
  then show ?thesis using inv_same_rows [OF assms(1)] by (simp add: request_cancel_def)
next
  case cancel_done
  then show ?thesis using inv_cancel_or [OF assms(1)] by blast
next
  case drain
  then show ?thesis using inv_drain [OF assms(1)] by blast
next
  case setup_failed
  then show ?thesis using inv_setup_failed [OF assms(1)] by blast
next
  case repair
  then show ?thesis using inv_repair [OF assms(1)] by blast
next
  case crash
  then show ?thesis using inv_crash [OF assms(1)] by blast
next
  case purge
  then show ?thesis using inv_purge [OF assms(1)] by blast
next
  case prune
  then show ?thesis using inv_same_rows [OF assms(1)] by (simp add: prune_orphans_def Let_def)
next
  case interrupted_row
  then show ?thesis using inv_interrupted_row [OF assms(1)] by blast
next
  case boot
  then show ?thesis using recovered(1) [OF assms(1)] by blast
qed

lemma inv_fresh: "ad_commands db = [] \<Longrightarrow> server_inv (fresh_server db)"
  by (simp add: server_inv_def fresh_server_def rows_ok_def one_running_def notes_agree_def job_ids_def)

lemma inv_reaches: "server_reaches s t \<Longrightarrow> server_inv s \<Longrightarrow> server_inv t"
  by (induction rule: server_reaches.induct) (auto intro: inv_step)

end
