(* ===== verification/Api_Queue.thy ===== *)
theory Api_Queue
  imports Api_Store
begin

text \<open>The order in which the API server's queue is claimed.\<close>

lemma first_of_sorted:
  assumes "sort_key f xs = c # l"
  shows "\<exists>us vs. xs = us @ c # vs \<and> (\<forall>u \<in> set us. f c < f u) \<and> (\<forall>v \<in> set vs. f c \<le> f v)"
proof -
  have le: "f c \<le> f x" if "x \<in> set xs" for x
  proof -
    have "sorted (map f (c # l))" using sorted_sort_key [of f xs] assms by simp
    moreover have "x \<in> set (c # l)" using that assms by (metis set_sort)
    ultimately show ?thesis by auto
  qed
  have "filter (\<lambda>x. f x = f c) xs = filter (\<lambda>x. f x = f c) (sort_key f xs)" by (simp only: sort_key_stable)
  then have "filter (\<lambda>x. f x = f c) xs = c # filter (\<lambda>x. f x = f c) l" using assms by simp
  then obtain us vs where u: "xs = us @ c # vs" "\<forall>u \<in> set us. f u \<noteq> f c" unfolding filter_eq_Cons_iff by blast
  have "f c < f x" if "x \<in> set us" for x using u that le [of x] by force
  then show ?thesis using u(1) le by auto
qed

lemma find_enumerate:
  assumes "xs = us @ c # vs" and "\<forall>u \<in> set us. \<not> P u" and "P c"
  shows "find (\<lambda>(_, x). P x) (enumerate n xs) = Some (n + length us, c)"
  using assms
proof (induction us arbitrary: n xs)
  case (Cons u us)
  then show ?case using Cons.IH [of "us @ c # vs" "Suc n"] by simp
qed simp

lemma queued_before_rank: "queued_before (i, c) (j, d) \<longleftrightarrow> queue_rank c < queue_rank d \<or> queue_rank c = queue_rank d \<and> i < j"
  by (cases "cm_queued c"; cases "cm_queued d") (auto simp: queued_before_def queue_rank_def)

lemma filtered_split:
  assumes "filter P xs = us @ c # vs"
  shows "\<exists>as bs. xs = as @ c # bs \<and> filter P as = us \<and> filter P bs = vs"
  using assms
proof (induction xs arbitrary: us)
  case (Cons x xs)
  show ?case
  proof (cases "P x")
    case True
    show ?thesis
    proof (cases us)
      case Nil
      then show ?thesis using Cons.prems True by (intro exI [of _ "[]"] exI [of _ xs]) simp
    next
      case (Cons u us')
      then have "x = u" "filter P xs = us' @ c # vs" using Cons.prems True by simp_all
      with Cons.IH obtain as bs where "xs = as @ c # bs" "filter P as = us'" "filter P bs = vs" by blast
      then show ?thesis using True \<open>x = u\<close> Cons by (intro exI [of _ "x # as"] exI [of _ bs]) simp
    qed
  next
    case False
    then have "filter P xs = us @ c # vs" using Cons.prems by simp
    with Cons.IH obtain as bs where "xs = as @ c # bs" "filter P as = us" "filter P bs = vs" by blast
    then show ?thesis using False by (intro exI [of _ "x # as"] exI [of _ bs]) simp
  qed
qed simp

lemma eligible_same_session: "eligible db c \<Longrightarrow> cm_session d = cm_session c \<Longrightarrow> command_is_claimable (cm_status d) \<Longrightarrow> eligible db d"
  by (simp add: eligible_def)

lemma next_is_first:
  assumes d: "distinct (map cm_id (ad_commands db))" and n: "next_eligible db = Some c"
  shows "queue_position_for_command (cm_id c) (cm_session c) db = Some 0"
    and "x \<in> set (ad_commands db) \<Longrightarrow> eligible db x \<Longrightarrow> queue_rank c \<le> queue_rank x"
proof -
  let ?xs = "ad_commands db"
  obtain l where l: "sort_key queue_rank (filter (eligible db) ?xs) = c # l"
    using n by (auto simp: next_eligible_def split: list.splits)
  obtain us vs where u: "filter (eligible db) ?xs = us @ c # vs" "\<forall>u \<in> set us. queue_rank c < queue_rank u"
    "\<forall>v \<in> set vs. queue_rank c \<le> queue_rank v"
    using first_of_sorted [OF l] by blast
  obtain as bs where ab: "?xs = as @ c # bs" "filter (eligible db) as = us" "filter (eligible db) bs = vs"
    using filtered_split [OF u(1)] by blast
  have "c \<in> set (filter (eligible db) ?xs)" unfolding u(1) by simp
  then have el: "eligible db c" by simp
  have rank: "queue_rank c \<le> queue_rank x" if "x \<in> set ?xs" "eligible db x" for x
  proof -
    have "x \<in> set (filter (eligible db) ?xs)" using that by simp
    then show ?thesis unfolding u(1) using u(2,3) by (auto simp: less_imp_le)
  qed
  have found: "find (\<lambda>(_, x). cm_id x = cm_id c \<and> command_is_claimable (cm_status x)) (enumerate 0 ?xs) = Some (length as, c)"
  proof -
    have "distinct (map cm_id (as @ c # bs))" using d unfolding ab(1) .
    then have "cm_id c \<notin> cm_id ` set as" by simp
    then have "\<forall>u \<in> set as. \<not> (cm_id u = cm_id c \<and> command_is_claimable (cm_status u))" by (metis imageI)
    from find_enumerate [OF ab(1) this, of 0] show ?thesis using el by (simp add: eligible_def)
  qed
  have none: "\<not> (cm_session x = cm_session c \<and> command_is_claimable (cm_status x) \<and> queued_before (i, x) (length as, c))"
    if "(i, x) \<in> set (enumerate 0 ?xs)" for i x
  proof
    assume a: "cm_session x = cm_session c \<and> command_is_claimable (cm_status x) \<and> queued_before (i, x) (length as, c)"
    have x: "i < length ?xs" "?xs ! i = x" using that by (auto simp: in_set_enumerate_eq)
    have e: "eligible db x" using eligible_same_session [OF el] a by blast
    have "queue_rank c \<le> queue_rank x" using rank e x nth_mem by blast
    then have i: "i < length as" "queue_rank x = queue_rank c" using a queued_before_rank by auto
    then have "x \<in> set us" using x e by (simp add: ab(1) nth_append ab(2) [symmetric] nth_mem) (metis nth_mem)
    then have "queue_rank c < queue_rank x" using u(2) by blast
    then show False using i(2) by simp
  qed
  have "filter (\<lambda>x. cm_session (snd x) = cm_session c \<and> command_is_claimable (cm_status (snd x)) \<and> queued_before x (length as, c))
      (enumerate 0 ?xs) = []"
    unfolding filter_empty_conv using none by auto
  then show "queue_position_for_command (cm_id c) (cm_session c) db = Some 0"
    unfolding queue_position_for_command_def Let_def found by simp
  show "x \<in> set ?xs \<Longrightarrow> eligible db x \<Longrightarrow> queue_rank c \<le> queue_rank x" by (rule rank)
qed

text \<open>
  Property C18. A worker claims the oldest command that can be claimed, and that command is at position 0 of its session's
  queue, the position its submitter is shown; it claims none only when none can be.
\<close>

theorem claims_in_queue_order:
  assumes "distinct (map cm_id (ad_commands db))"
  shows "case fst (claim_next_command worker now db) of
      None \<Rightarrow> \<forall>x \<in> set (ad_commands db). \<not> eligible db x
    | Some c \<Rightarrow> queue_position_for_command (cm_id c) (cm_session c) db = Some 0 \<and>
        (\<forall>x \<in> set (ad_commands db). eligible db x \<longrightarrow> queue_rank c \<le> queue_rank x)"
proof (cases "next_eligible db")
  case None
  have "filter (eligible db) (ad_commands db) = []"
  proof (rule ccontr)
    assume "filter (eligible db) (ad_commands db) \<noteq> []"
    then have "sort_key queue_rank (filter (eligible db) (ad_commands db)) \<noteq> []" by (metis length_0_conv length_sort)
    then show False using None by (simp add: next_eligible_def split: list.splits)
  qed
  then have "\<forall>x \<in> set (ad_commands db). \<not> eligible db x" by (simp add: filter_empty_conv)
  then show ?thesis using None by (simp add: claim_next_command_def)
next
  case (Some c)
  then show ?thesis
    using next_is_first [OF assms Some]
    by (simp add: claim_next_command_def Let_def command_record_from_row_def queue_rank_def)
qed

theorem claims_in_queue_order_witness:
  "let db = empty_db\<lparr>ad_commands := [new_command ''a'' ''s'' ''status'' ''[]'' ''/a'' (Some 7),
       new_command ''b'' ''s'' ''status'' ''[]'' ''/b'' (Some 5)],
     ad_sessions := ad_sessions (snd (insert_session ''s'' ''/w'' 1 empty_db))\<rparr> in
   map_option cm_id (fst (claim_next_command ''w'' 9 db)) = Some ''b'' \<and>
     queue_position_for_command ''b'' ''s'' db = Some 0"
proof -
  define db where "db = empty_db\<lparr>ad_commands := [new_command ''a'' ''s'' ''status'' ''[]'' ''/a'' (Some 7),
       new_command ''b'' ''s'' ''status'' ''[]'' ''/b'' (Some 5)],
     ad_sessions := ad_sessions (snd (insert_session ''s'' ''/w'' 1 empty_db))\<rparr>"
  have "distinct (map cm_id (ad_commands db))" by (simp add: db_def new_command_def)
  note p = claims_in_queue_order [OF this, of "''w''" 9]
  have c: "map_option (\<lambda>c. (cm_id c, cm_session c)) (fst (claim_next_command ''w'' 9 db)) = Some (''b'', ''s'')"
    by (simp add: db_def new_command_def insert_session_def insert_session_row_def empty_db_def claim_next_command_def
        next_eligible_def eligible_def command_is_claimable_def queue_rank_def Let_def command_record_from_row_def)
  show ?thesis unfolding Let_def db_def [symmetric] using p c by auto
qed

end
