(* ===== verification/Api_Properties.thy ===== *)
theory Api_Properties
  imports Api_Recovery Api_Queue
begin

text \<open>What the invariant of the API server's queue says, of every reachable state.\<close>

subsection \<open>Ended commands\<close>

lemma settles_keep:
  assumes "server_inv s" and "settles A (sv_db s) (sv_db t)"
    and "c \<in> set (ad_commands (sv_db s))" "command_is_terminal (cm_status c)" "d \<in> set (ad_commands (sv_db t))" "cm_id d = cm_id c"
  shows "cm_status d = cm_status c \<and> (\<forall>x. cm_finished c = Some x \<longrightarrow> cm_finished d = Some x)"
proof -
  obtain c' where c': "c' \<in> set (ad_commands (sv_db s))" "settled A c' d" using settles_rows(2) [OF assms(2,5)] by blast
  have "c' = c" using rows_unique [OF server_invD(1) [OF assms(1)] c'(1) assms(3)] settled_same [OF c'(2)] assms(6) by simp
  then show ?thesis using c'(2) assms(4) by (auto simp: settled_def)
qed

text \<open>What a step does to a row it neither claims nor requeues.\<close>

definition keeps_ended :: "api_server \<Rightarrow> api_server \<Rightarrow> bool" where
  "keeps_ended s t \<longleftrightarrow>
     (\<forall>c \<in> set (ad_commands (sv_db s)). \<forall>d \<in> set (ad_commands (sv_db t)).
        command_is_terminal (cm_status c) \<longrightarrow> cm_id d = cm_id c \<longrightarrow>
        cm_status d = cm_status c \<and> (\<forall>x. cm_finished c = Some x \<longrightarrow> cm_finished d = Some x))"

lemma keeps_settled: "server_inv s \<Longrightarrow> settles A (sv_db s) (sv_db t) \<Longrightarrow> keeps_ended s t"
  unfolding keeps_ended_def using settles_keep by blast

lemma keeps_fewer:
  assumes "server_inv s" and "set (ad_commands (sv_db t)) \<subseteq> set (ad_commands (sv_db s))"
  shows "keeps_ended s t"
  unfolding keeps_ended_def
proof (intro ballI impI)
  fix c d assume "c \<in> set (ad_commands (sv_db s))" "d \<in> set (ad_commands (sv_db t))" "cm_id d = cm_id c"
  then have "d = c" using rows_unique [OF server_invD(1) [OF assms(1)]] assms(2) by blast
  then show "cm_status d = cm_status c \<and> (\<forall>x. cm_finished c = Some x \<longrightarrow> cm_finished d = Some x)" by simp
qed

lemma keeps_same: "server_inv s \<Longrightarrow> ad_commands (sv_db t) = ad_commands (sv_db s) \<Longrightarrow> keeps_ended s t"
  by (rule keeps_fewer) simp_all

lemma keeps_claim:
  assumes s: "server_inv s"
  shows "keeps_ended s (worker_claim worker now s)"
proof (cases rule: claim_cases [of s worker now])
  case 1
  then show ?thesis using keeps_same [OF s] by simp
next
  case (2 c)
  have el: "c \<in> set (ad_commands (sv_db s))" "command_is_claimable (cm_status c)"
    using next_eligible_row [OF 2(1)] by (auto simp: eligible_def)
  show ?thesis
    unfolding keeps_ended_def
  proof (intro ballI impI)
    fix a d assume a: "a \<in> set (ad_commands (sv_db s))" "command_is_terminal (cm_status a)"
      and d: "d \<in> set (ad_commands (sv_db (worker_claim worker now s)))" "cm_id d = cm_id a"
    have "d \<in> set (ad_commands (snd (update_commands (\<lambda>r. cm_id r = cm_id c) (claimed_row worker now) (sv_db s))))"
      using d(1) 2(2) by simp
    then obtain d0 where d0: "d0 \<in> set (ad_commands (sv_db s))" "d = (if cm_id d0 = cm_id c then claimed_row worker now d0 else d0)"
      using updated_row by blast
    have "cm_id d0 = cm_id a" using d0(2) d(2) by (cases "cm_id d0 = cm_id c") simp_all
    then have e: "d0 = a" using rows_unique [OF server_invD(1) [OF s] d0(1) a(1)] by blast
    have "cm_id a \<noteq> cm_id c"
      using rows_unique [OF server_invD(1) [OF s] a(1) el(1)] a(2) el(2) claimable_open(1) by auto
    then show "cm_status d = cm_status a \<and> (\<forall>x. cm_finished a = Some x \<longrightarrow> cm_finished d = Some x)" using d0(2) e by simp
  qed
qed

lemma keeps_submit:
  assumes s: "server_inv s" and q: "enqueue_command_with_labels i sess sub args path labels now (sv_db s) = (Inr (), db)"
  shows "keeps_ended s (s\<lparr>sv_db := db\<rparr>)"
  unfolding keeps_ended_def
proof (intro ballI impI)
  fix c d assume c: "c \<in> set (ad_commands (sv_db s))" and d: "d \<in> set (ad_commands (sv_db (s\<lparr>sv_db := db\<rparr>)))" "cm_id d = cm_id c"
  have "d \<noteq> new_command i sess sub args path (Some now)"
    using enqueued(2) [OF q] c d(2) by (auto simp: new_command_def)
  then have "d \<in> set (ad_commands (sv_db s))" using enqueued(1) [OF q] d(1) by auto
  then have "d = c" using rows_unique [OF server_invD(1) [OF s] _ c] d(2) by blast
  then show "cm_status d = cm_status c \<and> (\<forall>x. cm_finished c = Some x \<longrightarrow> cm_finished d = Some x)" by simp
qed

lemma keeps_step:
  assumes s: "server_inv s" and st: "server_step s t"
  shows "keeps_ended s t"
  using st
proof (cases rule: server_step.cases)
  case submit
  then show ?thesis using keeps_submit [OF s] by blast
next
  case claim
  then show ?thesis using keeps_claim [OF s] by blast
next
  case note_it
  then show ?thesis using keeps_same [OF s] by (simp add: worker_note_def)
next
  case (store j q ok now)
  show ?thesis
    using keeps_settled [OF s, of "{cm_id (jb_row j)}" t] store_settles [OF s store(2,3)] keeps_same [OF s, of t]
    unfolding store(1) worker_store_def by (cases ok) simp_all
next
  case unnote
  then show ?thesis using keeps_same [OF s] by (simp add: worker_unnote_def)
next
  case release
  then show ?thesis using keeps_same [OF s] by (simp add: worker_release_def)
next
  case (cancel_queued i now)
  then show ?thesis using keeps_settled [OF s, of "{i}" t] settles_cancel_if(1) by simp
next
  case cancel_asked
  then show ?thesis using keeps_same [OF s] by (simp add: request_cancel_def)
next
  case cancel_done
  then show ?thesis using keeps_settled [OF s cancel_or_settles [OF s]] by blast
next
  case (drain sess now)
  then show ?thesis using keeps_settled [OF s, of _ t] settles_drain [OF server_invD(1) [OF s], of sess now] by simp
next
  case (setup_failed i now e shown)
  then show ?thesis using keeps_settled [OF s, of "{i}" t] settles_fail by simp
next
  case (repair fi i now)
  then show ?thesis using keeps_settled [OF s, of "{i}" t] settles_repair [OF server_invD(1) [OF s]] by simp
next
  case (purge cutoff)
  obtain P where "ad_commands (snd (delete_closed_sessions_before cutoff (sv_db s))) = filter P (ad_commands (sv_db s))"
    using purged_rows unfolding delete_closed_sessions_before_def Let_def snd_conv by blast
  then show ?thesis using keeps_fewer [OF s, of t] purge(1) by simp
next
  case prune
  then show ?thesis using keeps_same [OF s] by (simp add: prune_orphans_def Let_def)
next
  case (interrupted_row i t' now)
  have "settles UNIV (sv_db s) (sv_db t)" unfolding interrupted_row(1) by (simp, rule settles_cancelled) simp
  then show ?thesis by (rule keeps_settled [OF s])
next
  case (boot fi cancels_refused stale_refused now ok)
  show ?thesis
    unfolding keeps_ended_def using recovered(2) [OF s boot(1,2,3)] by blast
qed (use keeps_same [OF s] in simp_all)

subsection \<open>The properties\<close>

lemma noted_ids_iff: "i \<in> noted_ids l \<longleftrightarrow> (\<exists>n. Noted i n \<in> set l)"
  by (induction l rule: noted_ids.induct) auto

lemma started_once_split:
  "started_once (later @ Started i k # earlier) \<Longrightarrow> i \<notin> noted_ids earlier \<and> Started i k \<notin> set earlier"
  by (induction later rule: started_once.induct) simp_all

lemma reachable_inv: "ad_commands db = [] \<Longrightarrow> server_reaches (fresh_server db) s \<Longrightarrow> server_inv s"
  using inv_reaches inv_fresh by blast

text \<open>A server with one ready session, for the witnesses.\<close>

definition one_session :: api_db where
  "one_session = snd (insert_session ''s'' ''/w'' 1 empty_db)"

definition submitted :: api_server where
  "submitted = (fresh_server one_session)\<lparr>sv_db :=
     snd (enqueue_command_with_labels ''c'' ''s'' ''status'' ''[]'' ''/l'' [] 2 one_session)\<rparr>"

definition crashed :: "api_server \<Rightarrow> api_server" where
  "crashed s = s\<lparr>sv_jobs := [], sv_tokens := [], sv_up := False\<rparr>"

definition no_trouble :: finalize_inputs where
  "no_trouble = \<lparr>fi_unreadable = False, fi_row_refused = False, fi_logged = False, fi_repair_refused = False,
     fi_outputs = \<lparr>os_files = 0, os_bytes = 0, os_incomplete = False\<rparr>, fi_kept = False\<rparr>"

definition restarted :: "api_server \<Rightarrow> api_server" where
  "restarted s = snd (recover_queue (\<lambda>_. no_trouble) False False 9 s)"

lemma submitted_reached: "server_reaches (fresh_server one_session) submitted"
proof -
  have "server_step (fresh_server one_session) submitted"
    unfolding submitted_def
    by (rule submit [where i = "''c''" and sess = "''s''" and sub = "''status''" and args = "''[]''" and path = "''/l''"
          and labels = "[]" and now = 2])
      (simp_all add: fresh_server_def logged_ids_def one_session_def insert_session_def insert_session_row_def empty_db_def
        enqueue_command_with_labels_def set_labels_def delete_labels_def enqueue_command_def insert_command_row_def
        new_command_def Let_def)
  then show ?thesis using server_reaches.intros by blast
qed

lemmas queue_eval = submitted_def fresh_server_def one_session_def insert_session_def insert_session_row_def empty_db_def
  enqueue_command_with_labels_def set_labels_def delete_labels_def label_rows_def enqueue_command_def insert_command_row_def
  new_command_def worker_claim_def claim_next_command_def next_eligible_def eligible_def update_commands_def
  command_is_claimable_def queue_rank_def command_record_from_row_def command_canonical_def attempt_of_def token_register_def
  Let_def

definition claimed_state :: api_server where
  "claimed_state = worker_claim ''w'' 3 submitted"

lemma claimed_state_eval:
  "claimed_state = submitted\<lparr>
     sv_db := (sv_db submitted)\<lparr>ad_commands :=
       [(new_command ''c'' ''s'' ''status'' ''[]'' ''/l'' (Some 2))\<lparr>cm_status := CmdRunning, cm_worker := Some ''w'', cm_started := Some 3\<rparr>]\<rparr>,
     sv_tokens := [(''c'', False)],
     sv_jobs := [\<lparr>jb_row = (new_command ''c'' ''s'' ''status'' ''[]'' ''/l'' (Some 2))\<lparr>cm_status := CmdRunning, cm_worker := Some ''w'', cm_started := Some 3\<rparr>,
       jb_phase = JobWorking\<rparr>],
     sv_log := [Started ''c'' 1]\<rparr>"
  by (simp add: claimed_state_def queue_eval)

lemma claimed_reached: "server_reaches (fresh_server one_session) claimed_state"
proof -
  have "server_step submitted claimed_state"
    unfolding claimed_state_def by (rule claim) (simp add: submitted_def fresh_server_def)
  then show ?thesis using submitted_reached server_reaches.intros by blast
qed

lemma crashed_reached: "server_reaches (fresh_server one_session) (crashed claimed_state)"
  using claimed_reached server_reaches.one_more server_step.crash unfolding crashed_def by blast

text \<open>The restart queues what ran, as its second attempt.\<close>

lemma restart_eval:
  "recover_queue (\<lambda>_. no_trouble) False False 9 (crashed claimed_state) =
   (True, (crashed claimed_state)\<lparr>
      sv_db := (sv_db submitted)\<lparr>ad_commands :=
        [(new_command ''c'' ''s'' ''status'' ''[]'' ''/l'' (Some 2))\<lparr>cm_attempt := 2\<rparr>]\<rparr>, sv_up := True\<rparr>)"
proof -
  have l: "list_commands_filtered \<lparr>cf_session = None, cf_status = None, cf_labels = [], cf_limit = length (ad_commands (sv_db (crashed claimed_state)))\<rparr>
      (sv_db (crashed claimed_state)) = [(new_command ''c'' ''s'' ''status'' ''[]'' ''/l'' (Some 2))\<lparr>cm_status := CmdRunning, cm_worker := Some ''w'', cm_started := Some 3\<rparr>]"
    by (simp add: list_commands_filtered_def newest_commands_def crashed_def claimed_state_eval command_record_from_row_def
        command_canonical_def attempt_of_def new_command_def)
  show ?thesis
    unfolding recover_queue_def finalize_completed_from_sidecars_def l
    by (simp add: finalize_one_def finalize_running_from_sidecar_def no_trouble_def crashed_def claimed_state_eval submitted_def
        fresh_server_def finalize_interrupted_cancellations_def interrupted_def cancel_requested_at_def recover_stale_commands_def
        stale_def update_commands_def new_command_def command_is_terminal_def one_session_def insert_session_def
        insert_session_row_def empty_db_def enqueue_command_with_labels_def set_labels_def delete_labels_def label_rows_def
        enqueue_command_def insert_command_row_def Let_def)
qed

lemma crashed_fits: "\<not> sv_up (crashed claimed_state)" "attempts_fit (sv_db (crashed claimed_state))"
  by (simp_all add: crashed_def attempts_fit_def claimed_state_eval new_command_def)

lemma restarted_reached: "server_reaches (fresh_server one_session) (restarted (crashed claimed_state))"
  unfolding restarted_def restart_eval snd_conv
  by (rule server_reaches.one_more [OF crashed_reached server_step.boot [OF crashed_fits restart_eval]])

lemma reclaimed_reached: "server_reaches (fresh_server one_session) (worker_claim ''w'' 10 (restarted (crashed claimed_state)))"
proof -
  have "sv_up (restarted (crashed claimed_state))" by (simp add: restarted_def restart_eval)
  then show ?thesis using server_reaches.one_more [OF restarted_reached server_step.claim] by blast
qed

lemma reclaimed_log: "sv_log (worker_claim ''w'' 10 (restarted (crashed claimed_state))) = [Started ''c'' 2, Started ''c'' 1]"
  unfolding restarted_def restart_eval snd_conv by (simp add: crashed_def claimed_state_eval queue_eval)

lemma no_commands_yet: "ad_commands one_session = []"
  by (simp add: one_session_def insert_session_def insert_session_row_def empty_db_def)

text \<open>
  Property C14. Through crashes and restarts of the server, whatever writes fail, no attempt of a queued command is started
  twice, and a command is never started again once a completion of it became durable, beside its row or in it.
\<close>

theorem attempt_starts_once:
  assumes "ad_commands db = []" and "server_reaches (fresh_server db) s" and "sv_log s = later @ Started i k # earlier"
  shows "Started i k \<notin> set earlier \<and> (\<forall>n. Noted i n \<notin> set earlier)"
  using started_once_split server_invD(4) [OF reachable_inv [OF assms(1,2)]] assms(3) noted_ids_iff by metis

theorem attempt_starts_once_witness: "Started ''c'' 2 \<notin> set [Started ''c'' 1] \<and> (\<forall>n. Noted ''c'' n \<notin> set [Started ''c'' 1])"
  by (rule attempt_starts_once [OF no_commands_yet reclaimed_reached, of "[]"]) (simp add: reclaimed_log)

text \<open>Property C16. At most one command of a session is running at any time.\<close>

theorem one_command_runs_per_session:
  assumes "ad_commands db = []" and "server_reaches (fresh_server db) s"
    and "c \<in> set (ad_commands (sv_db s))" "d \<in> set (ad_commands (sv_db s))"
    and "cm_status c = CmdRunning" "cm_status d = CmdRunning" "cm_session c = cm_session d"
  shows "c = d"
  using server_invD(2) [OF reachable_inv [OF assms(1,2)]] assms(3-) unfolding one_running_def by blast

theorem one_command_runs_per_session_witness:
  "hd (ad_commands (sv_db claimed_state)) = last (ad_commands (sv_db claimed_state)) \<and>
     cm_status (hd (ad_commands (sv_db claimed_state))) = CmdRunning"
  using one_command_runs_per_session [OF no_commands_yet claimed_reached,
      of "hd (ad_commands (sv_db claimed_state))" "last (ad_commands (sv_db claimed_state))"]
  by (simp add: claimed_state_eval)

text \<open>
  Property C15. A restart keeps the status of every command that had ended, ends a running command the way the completion
  recorded beside it says, even if a cancellation was asked for too, and leaves no unfinished command whose cancellation
  was asked for or whose completion had ever been recorded.
\<close>

theorem restart_respects_records:
  assumes "ad_commands db = []" and "server_reaches (fresh_server db) s" and "\<not> sv_up s" and "attempts_fit (sv_db s)"
    and "recover_queue fi cancels_refused stale_refused now s = (True, t)"
  shows "(\<forall>c \<in> set (ad_commands (sv_db s)). \<forall>d \<in> set (ad_commands (sv_db t)). cm_id d = cm_id c \<longrightarrow>
        (command_is_terminal (cm_status c) \<longrightarrow> cm_status d = cm_status c) \<and>
        (\<forall>k. cm_status c = CmdRunning \<and> sv_notes s (cm_id c) = Some k \<and> int (cc_attempt k) = cm_attempt c \<longrightarrow>
           cm_status d = cc_status k)) \<and>
    (\<forall>d \<in> set (ad_commands (sv_db t)). \<not> command_is_terminal (cm_status d) \<longrightarrow>
        cancel_requested_at (cm_id d) (sv_db t) = None \<and> (\<forall>n. Noted (cm_id d) n \<notin> set (sv_log t)))"
proof -
  note r = recovered [OF reachable_inv [OF assms(1,2)] assms(3-5)]
  have "cm_status d = cc_status k"
    if "c \<in> set (ad_commands (sv_db s))" "d \<in> set (ad_commands (sv_db t))" "cm_id d = cm_id c" "cm_status c = CmdRunning"
      "sv_notes s (cm_id c) = Some k" "int (cc_attempt k) = cm_attempt c" for c d k
  proof -
    have "due s (cm_id c) (cc_status k)" unfolding due_def using that by blast
    then have "has_ended t (cm_id c) (cc_status k)" by (rule r(3) [OF TrueI])
    then show ?thesis using that(2,3) by (simp add: has_ended_def)
  qed
  moreover have "cm_status d = cm_status c"
    if "c \<in> set (ad_commands (sv_db s))" "d \<in> set (ad_commands (sv_db t))" "cm_id d = cm_id c" "command_is_terminal (cm_status c)" for c d
    using r(2) [OF that(1,4,2,3)] by (rule conjunct1)
  moreover have "cancel_requested_at (cm_id d) (sv_db t) = None \<and> (\<forall>n. Noted (cm_id d) n \<notin> set (sv_log t))"
    if "d \<in> set (ad_commands (sv_db t))" "\<not> command_is_terminal (cm_status d)" for d
    using r(4) [OF TrueI that] unfolding noted_ids_iff by blast
  ultimately show ?thesis by (intro conjI ballI impI allI) (simp_all (no_asm_simp))
qed

text \<open>The worker notes its completion and the server dies before the row is written.\<close>

definition noted_state :: api_server where
  "noted_state =
     (let q = from_result (default_result\<lparr>cr_outcome := Some KindDone, cr_exit_code := Some 0\<rparr>);
          s = set_job ''c'' (JobDecided q) claimed_state in
      worker_note True 4 (jb_row (hd (sv_jobs s))) q s)"

lemma noted_reached: "server_reaches (fresh_server one_session) (crashed noted_state)"
proof -
  let ?r = "default_result\<lparr>cr_outcome := Some KindDone, cr_exit_code := Some 0\<rparr>"
  let ?j = "hd (sv_jobs claimed_state)" and ?s = "set_job ''c'' (JobDecided (from_result ?r)) claimed_state"
  have j: "?j \<in> set (sv_jobs claimed_state)" "jb_phase ?j = JobWorking" "cm_id (jb_row ?j) = ''c''"
    by (simp_all add: claimed_state_eval new_command_def)
  have d: "decided True ''c'' ?r (sv_db claimed_state) = from_result ?r" by (simp add: decided_def)
  have "server_step claimed_state ?s" using server_step.decide [OF j(1,2), of True ?r] unfolding j(3) d .
  then have r: "server_reaches (fresh_server one_session) ?s" using claimed_reached server_reaches.one_more by blast
  have k: "hd (sv_jobs ?s) \<in> set (sv_jobs ?s)" "jb_phase (hd (sv_jobs ?s)) = JobDecided (from_result ?r)"
    by (simp_all add: set_job_def claimed_state_eval new_command_def)
  have "server_step ?s noted_state"
    unfolding noted_state_def Let_def by (rule server_step.note_it [OF k])
  then show ?thesis using r server_reaches.one_more server_step.crash unfolding crashed_def by blast
qed

lemma noted_state_eval:
  "crashed noted_state = (crashed claimed_state)\<lparr>
     sv_notes := [''c'' \<mapsto> sidecar_of 1 4 (from_result (default_result\<lparr>cr_outcome := Some KindDone, cr_exit_code := Some 0\<rparr>))],
     sv_log := [Noted ''c'' 1, Started ''c'' 1]\<rparr>"
  by (simp add: noted_state_def crashed_def worker_note_def set_job_def claimed_state_eval new_command_def submitted_def
      fresh_server_def Let_def)

theorem restart_respects_records_witness:
  "cm_status (hd (ad_commands (sv_db (restarted (crashed noted_state))))) = CmdDone"
proof -
  let ?s = "crashed noted_state" and ?t = "restarted (crashed noted_state)"
  let ?c = "(new_command ''c'' ''s'' ''status'' ''[]'' ''/l'' (Some 2))\<lparr>cm_status := CmdRunning, cm_worker := Some ''w'', cm_started := Some 3\<rparr>"
  have rows: "ad_commands (sv_db ?s) = [?c]" unfolding noted_state_eval by (simp add: crashed_def claimed_state_eval)
  have down: "\<not> sv_up ?s" "attempts_fit (sv_db ?s)"
    unfolding noted_state_eval by (simp_all add: crashed_def attempts_fit_def claimed_state_eval new_command_def)
  have l: "list_commands_filtered \<lparr>cf_session = None, cf_status = None, cf_labels = [], cf_limit = length (ad_commands (sv_db ?s))\<rparr>
      (sv_db ?s) = [?c]"
    by (simp add: list_commands_filtered_def newest_commands_def rows command_record_from_row_def
        command_canonical_def attempt_of_def new_command_def)
  have e: "recover_queue (\<lambda>_. no_trouble) False False 9 ?s = (True, ?t) \<and> map cm_id (ad_commands (sv_db ?t)) = [''c'']"
    unfolding restarted_def recover_queue_def finalize_completed_from_sidecars_def l unfolding noted_state_eval
    by (simp add: finalize_one_def finalize_running_from_sidecar_def finalize_running_command_def finalize_unowned_command_def
        get_command_def command_record_from_row_def command_canonical_def complete_command_def remove_note_def no_trouble_def
        crashed_def claimed_state_eval sidecar_of_def from_result_def status_of_outcome_def
        update_commands_def new_command_def command_is_terminal_def Let_def
        finalize_interrupted_cancellations_def interrupted_def recover_stale_commands_def stale_def default_result_def repaired_result_def
        attempt_of_def fail_with_def)
  then have ok: "recover_queue (\<lambda>_. no_trouble) False False 9 ?s = (True, ?t)" by blast
  obtain d where d: "ad_commands (sv_db ?t) = [d]" "cm_id d = ''c''"
    using conjunct2 [OF e] by (auto simp: map_eq_Cons_conv)
  have n: "sv_notes ?s ''c'' = Some (sidecar_of 1 4 (from_result (default_result\<lparr>cr_outcome := Some KindDone, cr_exit_code := Some 0\<rparr>)))"
    unfolding noted_state_eval by simp
  have c: "cm_id ?c = ''c''" "cm_status ?c = CmdRunning" "cm_attempt ?c = 1" by (simp_all add: new_command_def)
  have "cm_status d = cc_status (sidecar_of 1 4 (from_result (default_result\<lparr>cr_outcome := Some KindDone, cr_exit_code := Some 0\<rparr>)))"
    using conjunct1 [OF restart_respects_records [OF no_commands_yet noted_reached down ok], THEN bspec, of ?c, THEN bspec, of d]
    by (simp add: rows d c n) (simp add: sidecar_of_def)
  then show ?thesis by (simp add: d(1) sidecar_of_def from_result_def status_of_outcome_def)
qed

text \<open>Property C17. No step of the server changes the status of an ended command, or the time it finished.\<close>

theorem ended_command_stays_ended:
  assumes "ad_commands db = []" and "server_reaches (fresh_server db) s" and "server_step s t"
    and "c \<in> set (ad_commands (sv_db s))" "command_is_terminal (cm_status c)"
    and "d \<in> set (ad_commands (sv_db t))" "cm_id d = cm_id c"
  shows "cm_status d = cm_status c \<and> (cm_finished c = None \<or> cm_finished d = cm_finished c)"
  using keeps_step [OF reachable_inv [OF assms(1,2)] assms(3)] assms(4-) unfolding keeps_ended_def
  by (cases "cm_finished c") auto

definition cancelled_state :: api_server where
  "cancelled_state = submitted\<lparr>sv_db := snd (cancel_if_queued ''c'' 5 (sv_db submitted))\<rparr>"

lemma cancelled_eval:
  "ad_commands (sv_db cancelled_state) = [cancelled_row None 5 (new_command ''c'' ''s'' ''status'' ''[]'' ''/l'' (Some 2))]"
  by (simp add: cancelled_state_def cancel_if_queued_def queue_eval)

theorem ended_command_stays_ended_witness:
  "cm_status (hd (ad_commands (sv_db (worker_claim ''w'' 6 cancelled_state)))) = CmdCancelled"
proof -
  have up: "sv_up submitted" "sv_up cancelled_state" by (simp_all add: submitted_def fresh_server_def cancelled_state_def)
  have "server_step submitted cancelled_state" unfolding cancelled_state_def by (rule cancel_queued [OF up(1)])
  then have r: "server_reaches (fresh_server one_session) cancelled_state"
    using submitted_reached server_reaches.one_more by blast
  have same: "ad_commands (sv_db (worker_claim ''w'' 6 cancelled_state)) = ad_commands (sv_db cancelled_state)"
    by (simp add: worker_claim_def claim_next_command_def next_eligible_def eligible_def cancelled_eval cancelled_row_def
        command_is_claimable_def)
  have "cm_status (hd (ad_commands (sv_db (worker_claim ''w'' 6 cancelled_state)))) = cm_status (hd (ad_commands (sv_db cancelled_state)))"
    using ended_command_stays_ended [OF no_commands_yet r claim [OF up(2), where worker = "''w''" and now = 6],
        of "hd (ad_commands (sv_db cancelled_state))" "hd (ad_commands (sv_db cancelled_state))"]
    by (simp add: same cancelled_eval cancelled_row_def command_is_terminal_def)
  then show ?thesis by (simp add: cancelled_eval cancelled_row_def)
qed

text \<open>
  Property C19. The result a client reads is coherent, whatever the command returned, its push did and its frontend
  contributed: the status is the one its outcome has, the recorded exit code is the one of the row, a command that is done
  has exit code 0 and neither failure nor error, and every other has a failure and its message as error. A cancellation
  that comes last leaves nothing of what was there before: status and outcome are cancelled, the exit code is 130 in the
  row and in the result, failure code, failure message and error say so, the time of the request is recorded, and the
  error status and the stage are gone; the failure keeps the stage of the failure it replaces.
\<close>

theorem reported_result_coherent:
  "(let q = build_result res push con; r = qr_result q in
      qr_status q = status_of_outcome (cr_outcome r) \<and> cr_exit_code r = Some (qr_exit_code q) \<and>
      (if qr_status q = CmdDone then qr_exit_code q = 0 \<and> cr_failure r = None \<and> cr_error r = None
       else map_option fl_message (cr_failure r) = cr_error r \<and> cr_failure r \<noteq> None)) \<and>
   (let old = qr_result (build_result res push con);
        q = cancelled_result t (build_result res push con); r = qr_result q in
      qr_status q = CmdCancelled \<and> cr_outcome r = Some KindCancelled \<and>
      qr_exit_code q = 130 \<and> cr_exit_code r = Some 130 \<and>
      map_option fl_code (cr_failure r) = Some ''cancelled'' \<and>
      map_option fl_message (cr_failure r) = Some ''cancelled'' \<and> cr_error r = Some ''cancelled'' \<and>
      map_option fl_stage (cr_failure r) = Some (case cr_failure old of Some f \<Rightarrow> fl_stage f | None \<Rightarrow> ''step'') \<and>
      cr_error_status r = None \<and> cr_stage r = None \<and> cr_cancelled_at r = Some t)"
proof (intro conjI)
  show "let q = build_result res push con; r = qr_result q in
      qr_status q = status_of_outcome (cr_outcome r) \<and> cr_exit_code r = Some (qr_exit_code q) \<and>
      (if qr_status q = CmdDone then qr_exit_code q = 0 \<and> cr_failure r = None \<and> cr_error r = None
       else map_option fl_message (cr_failure r) = cr_error r \<and> cr_failure r \<noteq> None)"
    using build_coherent [of res push con] by (auto simp: coherent_result_def Let_def)
qed (simp add: Let_def cancelled_code_def cancelled_result_def map_queued_result_def from_result_def status_of_outcome_def fail_with_def)

end
